(* ===== verification/Prelude.thy ===== *)
theory Prelude
  imports Main "HOL-Library.Word" "HOL-Library.Monad_Syntax"
begin

unbundle bit_operations_syntax

text \<open>
  Shared vocabulary of the development: the fixed-width integers of
  \<open>common/common_types.h\<close>, the option monad as the model of code that may stop in an
  assertion, and the generic lemmas on lists, words and monadic loops that the components use.

  Conventions used by every component theory.
  \<^item> A C++ function that can run into a failing \<open>ASSERT\<close> (\<open>common/assert.h\<close>: log, crash,
    exit), into undefined behaviour, or that may fail to return, has a result of option type:
    \<open>None\<close> is exactly "does not return normally". A theorem that the result is \<open>Some\<close> therefore
    says that no assertion fails and that the code returns.
  \<^item> An error the code returns to its caller (a \<open>Result\<close> code) is an ordinary value, modelled by
    a sum \<open>u32 + 'a\<close> or by a pair with the code.
  \<^item> A pointer or \<open>shared_ptr\<close> to a kernel object is the number of that object.
\<close>

section \<open>Machine integers\<close>

type_synonym u8 = "8 word"
type_synonym u16 = "16 word"
type_synonym u32 = "32 word"
type_synonym u64 = "64 word"

text \<open>
  Signed integers (\<open>s32\<close>, \<open>s64\<close>) are mathematical integers in the range of their width;
  \<open>to_s32\<close> and \<open>to_s64\<close> are the C++ conversions to those types (two's complement).
\<close>

definition to_s32 :: "int \<Rightarrow> int" where
  "to_s32 i = signed_take_bit 31 i"

definition to_s64 :: "int \<Rightarrow> int" where
  "to_s64 i = signed_take_bit 63 i"

lemma signed_take_bit_in_range:
  "- (2 ^ n) \<le> i \<Longrightarrow> i < 2 ^ n \<Longrightarrow> signed_take_bit n i = (i::int)"
  by (simp add: signed_take_bit_int_eq_self)

lemma to_s32_id [simp]: "- 2147483648 \<le> i \<Longrightarrow> i < 2147483648 \<Longrightarrow> to_s32 i = i"
  using signed_take_bit_in_range [of 31 i] by (simp add: to_s32_def)

lemma to_s64_id [simp]:
  "- 9223372036854775808 \<le> i \<Longrightarrow> i < 9223372036854775808 \<Longrightarrow> to_s64 i = i"
  using signed_take_bit_in_range [of 63 i] by (simp add: to_s64_def)

lemma to_s32_range: "- 2147483648 \<le> to_s32 i \<and> to_s32 i < 2147483648"
  using signed_take_bit_int_greater_eq_minus_exp [of 31 i] signed_take_bit_int_less_exp [of 31 i]
  by (simp add: to_s32_def)

section \<open>The option monad for code that may crash\<close>

definition assertion :: "bool \<Rightarrow> unit option" where
  "assertion b = (if b then Some () else None)"

lemma assertion_simps [simp]:
  "assertion True = Some ()"
  "assertion False = None"
  by (simp_all add: assertion_def)

lemma assertion_eq_Some [simp]: "assertion b = Some u \<longleftrightarrow> b"
  by (simp add: assertion_def)

lemma assertion_bind [simp]: "(assertion b \<bind> f) = (if b then f () else None)"
  by (simp add: assertion_def)

text \<open>A range-\<open>for\<close> over a container, threading the state and stopping when the body crashes.\<close>

fun for_each :: "('a \<Rightarrow> 's \<Rightarrow> 's option) \<Rightarrow> 'a list \<Rightarrow> 's \<Rightarrow> 's option" where
  "for_each f [] s = Some s"
| "for_each f (x # xs) s = (f x s \<bind> for_each f xs)"

lemma for_each_append: "for_each f (xs @ ys) s = (for_each f xs s \<bind> for_each f ys)"
  by (induction xs arbitrary: s) (simp_all add: bind_assoc split: bind_splits)

text \<open>Total-correctness rule for loops: an invariant that every iteration establishes again.\<close>

lemma for_each_inv:
  assumes "\<And>x s. x \<in> set xs \<Longrightarrow> I s \<Longrightarrow> \<exists>t. f x s = Some t \<and> I t" and "I s"
  shows "\<exists>t. for_each f xs s = Some t \<and> I t"
  using assms
proof (induction xs arbitrary: s)
  case Nil
  then show ?case by simp
next
  case (Cons x xs)
  from Cons.prems(1) [of x s] Cons.prems(2) obtain t where "f x s = Some t" "I t"
    by auto
  with Cons.IH [of t] Cons.prems(1) show ?case by simp
qed

text \<open>Partial-correctness rule: whatever the loop returns satisfies the invariant.\<close>

lemma for_each_preserves:
  assumes "for_each f xs s = Some t" and "I s"
    and "\<And>x s t. x \<in> set xs \<Longrightarrow> I s \<Longrightarrow> f x s = Some t \<Longrightarrow> I t"
  shows "I t"
  using assms
proof (induction xs arbitrary: s)
  case Nil
  then show ?case by simp
next
  case (Cons x xs)
  then obtain u where "f x s = Some u" "for_each f xs u = Some t"
    by (auto simp: bind_eq_Some_conv)
  with Cons show ?case by (metis list.set_intros)
qed

lemma bind_eq_SomeE:
  assumes "(m \<bind> f) = Some y"
  obtains x where "m = Some x" "f x = Some y"
  using assms by (cases m) auto

section \<open>Words\<close>

lemma unat_less_not_bit:
  fixes w :: "'a::len word"
  assumes "unat w < 2 ^ n" "n \<le> m"
  shows "\<not> bit w m"
proof -
  have "unat w < 2 ^ m"
    using assms by (meson less_le_trans one_le_numeral power_increasing)
  then have "\<not> bit (unat w) m"
    by (simp add: bit_iff_odd)
  then show ?thesis
    by (simp add: bit_unsigned_iff)
qed

lemma bit_numeral_32767: "bit (0x7FFF :: int) n \<longleftrightarrow> n < 15"
proof -
  have eq: "(0x7FFF :: int) = mask 15"
    by (simp add: mask_eq_exp_minus_1)
  show ?thesis
    unfolding eq bit_mask_iff by (auto simp: possible_bit_def)
qed

section \<open>Lists\<close>

lemma filter_upt_Cons_least:
  assumes "filter P [0..<n] = i # is"
  shows "i < n" "P i" "\<And>j. j < i \<Longrightarrow> \<not> P j"
proof -
  have mem: "i \<in> set (filter P [0..<n])"
    by (simp add: assms)
  then show i: "i < n" "P i"
    by auto
  fix j assume j: "j < i"
  have s: "sorted (filter P [0..<n])"
    by (simp add: sorted_wrt_filter)
  show "\<not> P j"
  proof
    assume "P j"
    with j i have "j \<in> set (i # is)"
      by (simp flip: assms)
    with s j show False
      by (auto simp: assms)
  qed
qed

lemma upt_split_at: "i < n \<Longrightarrow> [0..<n] = [0..<i] @ i # [Suc i..<n]"
  by (metis append_Cons append_Nil le_add1 less_imp_add_positive upt_add_eq_append
      upt_conv_Cons zero_le less_imp_le_nat le_add_diff_inverse)

lemma nth_list_update_cases:
  "i < length xs \<Longrightarrow> xs[j := y] ! i = (if i = j then y else xs ! i)"
  by (simp add: nth_list_update)

text \<open>Replacing an element by one that agrees with it under \<open>f\<close>.\<close>

lemma map_update_same: "f y = f (xs ! c) \<Longrightarrow> map f (xs[c := y]) = map f xs"
proof (cases "c < length xs")
  case True
  assume "f y = f (xs ! c)"
  with True show ?thesis
    by (simp add: map_update) (metis list_update_id nth_map)
qed (simp add: list_update_beyond)

lemma nth_update_same: "f y = f (xs ! c) \<Longrightarrow> f (xs[c := y] ! d) = f (xs ! d)"
  by (cases "c < length xs"; cases "c = d"; simp add: list_update_beyond)

end
