(* ===== verification/Result_Codes.thy ===== *)
theory Result_Codes
  imports Prelude
begin

text \<open>
  The CTR-OS result codes of \<open>core/hle/result.h\<close> and \<open>core/hle/kernel/errors.h\<close>: the packing of
  description, module, summary and level into one 32-bit word, the error test on bit 31, and the
  named codes that the kernel components return.
\<close>

section \<open>The packed result word (core/hle/result.h)\<close>

text \<open>
  \<open>BitField<pos, bits>::FormatValue\<close> shifts the value in place and masks it to the field
  (\<open>common/bit_field.h\<close>); \<open>ExtractValue\<close> reads it back.
\<close>

definition FormatValue :: "nat \<Rightarrow> nat \<Rightarrow> u32 \<Rightarrow> u32" where
  "FormatValue pos bits v = push_bit pos v AND push_bit pos (mask bits)"

definition ExtractValue :: "nat \<Rightarrow> nat \<Rightarrow> u32 \<Rightarrow> u32" where
  "ExtractValue pos bits raw = drop_bit pos (raw AND push_bit pos (mask bits))"

definition mk_result :: "u32 \<Rightarrow> u32 \<Rightarrow> u32 \<Rightarrow> u32 \<Rightarrow> u32" where
  "mk_result desc modul summary level =
     FormatValue 0 10 desc OR FormatValue 10 8 modul OR
     FormatValue 21 6 summary OR FormatValue 27 5 level"

definition IsSuccess :: "u32 \<Rightarrow> bool" where
  "IsSuccess raw \<longleftrightarrow> ExtractValue 31 1 raw = 0"

definition IsError :: "u32 \<Rightarrow> bool" where
  "IsError raw \<longleftrightarrow> ExtractValue 31 1 raw = 1"

definition ResultSuccess :: u32 where
  "ResultSuccess = 0"

section \<open>The kernel's codes (core/hle/kernel/errors.h)\<close>

definition ResultOutOfHandles :: u32 where
  "ResultOutOfHandles = mk_result 19 1 3 27"

definition ResultSessionClosed :: u32 where
  "ResultSessionClosed = mk_result 26 6 9 25"

definition ResultPortNameTooLong :: u32 where
  "ResultPortNameTooLong = mk_result 30 6 7 28"

definition ResultWrongPermission :: u32 where
  "ResultWrongPermission = mk_result 46 6 8 27"

definition ResultInvalidBufferDescriptor :: u32 where
  "ResultInvalidBufferDescriptor = mk_result 48 6 8 27"

definition ResultMaxConnectionsReached :: u32 where
  "ResultMaxConnectionsReached = mk_result 52 6 2 26"

definition ResultNotAuthorized :: u32 where
  "ResultNotAuthorized = mk_result 1002 6 8 27"

definition ResultInvalidEnumValue :: u32 where
  "ResultInvalidEnumValue = mk_result 1005 1 7 27"

definition ResultInvalidEnumValueFnd :: u32 where
  "ResultInvalidEnumValueFnd = mk_result 1005 36 7 27"

definition ResultInvalidCombination :: u32 where
  "ResultInvalidCombination = mk_result 1006 6 7 28"

definition ResultInvalidCombinationKernel :: u32 where
  "ResultInvalidCombinationKernel = mk_result 1006 1 8 27"

definition ResultMisalignedAddress :: u32 where
  "ResultMisalignedAddress = mk_result 1009 6 7 28"

definition ResultMisalignedSize :: u32 where
  "ResultMisalignedSize = mk_result 1010 6 7 28"

definition ResultOutOfMemory :: u32 where
  "ResultOutOfMemory = mk_result 1011 1 3 27"

definition ResultOutOfHeapMemory :: u32 where
  "ResultOutOfHeapMemory = mk_result 1011 6 3 25"

definition ResultNotImplemented :: u32 where
  "ResultNotImplemented = mk_result 1012 6 7 28"

definition ResultInvalidAddress :: u32 where
  "ResultInvalidAddress = mk_result 1013 6 7 28"

definition ResultInvalidAddressState :: u32 where
  "ResultInvalidAddressState = mk_result 1013 6 5 28"

definition ResultInvalidPointer :: u32 where
  "ResultInvalidPointer = mk_result 1014 1 7 27"

definition ResultInvalidHandle :: u32 where
  "ResultInvalidHandle = mk_result 1015 1 7 27"

definition ResultInvalidHandleOs :: u32 where
  "ResultInvalidHandleOs = mk_result 1015 6 8 27"

definition ResultNotFound :: u32 where
  "ResultNotFound = mk_result 1018 1 4 27"

definition ResultOutOfRange :: u32 where
  "ResultOutOfRange = mk_result 1021 6 7 28"

definition ResultOutOfRangeKernel :: u32 where
  "ResultOutOfRangeKernel = mk_result 1021 1 7 27"

definition ResultTimeout :: u32 where
  "ResultTimeout = mk_result 1022 6 10 1"

definition ResultNoPendingSessions :: u32 where
  "ResultNoPendingSessions = mk_result 35 6 2 27"

text \<open>The codes local to \<open>mutex.cpp\<close>.\<close>

definition ResultWrongLockingThread :: u32 where
  "ResultWrongLockingThread = mk_result 31 1 7 27"

definition ResultMutexInvalidState :: u32 where
  "ResultMutexInvalidState = mk_result 1023 1 5 27"

lemmas result_code_defs =
  mk_result_def FormatValue_def ExtractValue_def IsSuccess_def IsError_def ResultSuccess_def
  ResultOutOfHandles_def ResultSessionClosed_def ResultPortNameTooLong_def ResultWrongPermission_def
  ResultInvalidBufferDescriptor_def ResultMaxConnectionsReached_def ResultNotAuthorized_def
  ResultInvalidEnumValue_def ResultInvalidEnumValueFnd_def ResultInvalidCombination_def
  ResultInvalidCombinationKernel_def ResultMisalignedAddress_def ResultMisalignedSize_def
  ResultOutOfMemory_def ResultOutOfHeapMemory_def ResultNotImplemented_def ResultInvalidAddress_def
  ResultInvalidAddressState_def ResultInvalidPointer_def ResultInvalidHandle_def
  ResultInvalidHandleOs_def ResultNotFound_def ResultOutOfRange_def ResultOutOfRangeKernel_def
  ResultTimeout_def ResultNoPendingSessions_def ResultWrongLockingThread_def
  ResultMutexInvalidState_def

lemma result_code_values:
  "ResultOutOfHandles = 0xD8600413"
  "ResultSessionClosed = 0xC920181A"
  "ResultPortNameTooLong = 0xE0E0181E"
  "ResultWrongPermission = 0xD900182E"
  "ResultInvalidBufferDescriptor = 0xD9001830"
  "ResultMaxConnectionsReached = 0xD0401834"
  "ResultNotAuthorized = 0xD9001BEA"
  "ResultInvalidEnumValue = 0xD8E007ED"
  "ResultInvalidEnumValueFnd = 0xD8E093ED"
  "ResultInvalidCombination = 0xE0E01BEE"
  "ResultInvalidCombinationKernel = 0xD90007EE"
  "ResultMisalignedAddress = 0xE0E01BF1"
  "ResultMisalignedSize = 0xE0E01BF2"
  "ResultOutOfMemory = 0xD86007F3"
  "ResultOutOfHeapMemory = 0xC8601BF3"
  "ResultNotImplemented = 0xE0E01BF4"
  "ResultInvalidAddress = 0xE0E01BF5"
  "ResultInvalidAddressState = 0xE0A01BF5"
  "ResultInvalidPointer = 0xD8E007F6"
  "ResultInvalidHandle = 0xD8E007F7"
  "ResultInvalidHandleOs = 0xD9001BF7"
  "ResultNotFound = 0xD88007FA"
  "ResultOutOfRange = 0xE0E01BFD"
  "ResultOutOfRangeKernel = 0xD8E007FD"
  "ResultTimeout = 0x09401BFE"
  "ResultNoPendingSessions = 0xD8401823"
  by (simp_all add: result_code_defs mask_eq_exp_minus_1)

section \<open>Properties\<close>

text \<open>The packed words of the kernel's codes are the ones games compare against (as documented
  beside them, except for \<open>ResultOutOfHeapMemory\<close>, whose comment says \<open>0xC860180A\<close>), and each of
  them but \<open>ResultTimeout\<close> is an error by bit 31.
\<close>

lemma kernel_result_codes:
  "ResultOutOfHandles = 0xD8600413 \<and>
   ResultSessionClosed = 0xC920181A \<and>
   ResultPortNameTooLong = 0xE0E0181E \<and>
   ResultWrongPermission = 0xD900182E \<and>
   ResultInvalidBufferDescriptor = 0xD9001830 \<and>
   ResultMaxConnectionsReached = 0xD0401834 \<and>
   ResultNotAuthorized = 0xD9001BEA \<and>
   ResultInvalidEnumValue = 0xD8E007ED \<and>
   ResultInvalidEnumValueFnd = 0xD8E093ED \<and>
   ResultInvalidCombination = 0xE0E01BEE \<and>
   ResultInvalidCombinationKernel = 0xD90007EE \<and>
   ResultMisalignedAddress = 0xE0E01BF1 \<and>
   ResultMisalignedSize = 0xE0E01BF2 \<and>
   ResultOutOfMemory = 0xD86007F3 \<and>
   ResultOutOfHeapMemory = 0xC8601BF3 \<and>
   ResultNotImplemented = 0xE0E01BF4 \<and>
   ResultInvalidAddress = 0xE0E01BF5 \<and>
   ResultInvalidAddressState = 0xE0A01BF5 \<and>
   ResultInvalidPointer = 0xD8E007F6 \<and>
   ResultInvalidHandle = 0xD8E007F7 \<and>
   ResultInvalidHandleOs = 0xD9001BF7 \<and>
   ResultNotFound = 0xD88007FA \<and>
   ResultOutOfRange = 0xE0E01BFD \<and>
   ResultOutOfRangeKernel = 0xD8E007FD \<and>
   ResultTimeout = 0x09401BFE \<and>
   ResultNoPendingSessions = 0xD8401823 \<and>
   IsSuccess ResultTimeout \<and> IsSuccess ResultSuccess \<and>
   IsError ResultOutOfHandles \<and>
   IsError ResultSessionClosed \<and>
   IsError ResultPortNameTooLong \<and>
   IsError ResultWrongPermission \<and>
   IsError ResultInvalidBufferDescriptor \<and>
   IsError ResultMaxConnectionsReached \<and>
   IsError ResultNotAuthorized \<and>
   IsError ResultInvalidEnumValue \<and>
   IsError ResultInvalidEnumValueFnd \<and>
   IsError ResultInvalidCombination \<and>
   IsError ResultInvalidCombinationKernel \<and>
   IsError ResultMisalignedAddress \<and>
   IsError ResultMisalignedSize \<and>
   IsError ResultOutOfMemory \<and>
   IsError ResultOutOfHeapMemory \<and>
   IsError ResultNotImplemented \<and>
   IsError ResultInvalidAddress \<and>
   IsError ResultInvalidAddressState \<and>
   IsError ResultInvalidPointer \<and>
   IsError ResultInvalidHandle \<and>
   IsError ResultInvalidHandleOs \<and>
   IsError ResultNotFound \<and>
   IsError ResultOutOfRange \<and>
   IsError ResultOutOfRangeKernel \<and>
   IsError ResultNoPendingSessions"
  unfolding result_code_values
  by (simp add: IsSuccess_def IsError_def ExtractValue_def ResultSuccess_def mask_eq_exp_minus_1)

end
