(* ===== verification/Handle_Table.thy ===== *)
theory Handle_Table
  imports Result_Codes
begin

text \<open>
  The per-process handle table of \<open>core/hle/kernel/handle_table.{h,cpp}\<close>. A handle packs a slot
  index (bits 30:15) and a generation (bits 14:0); the \<open>generations\<close> array holds the generation of
  an occupied slot and, for an empty slot, the index of the next free one. The type of the objects
  is a parameter; the two pseudo-handles are resolved by the current thread and process that the
  kernel passes in.
\<close>

section \<open>State\<close>

definition MAX_COUNT :: nat where
  "MAX_COUNT = 4096"

record 'o handle_table =
  objects :: "'o option list"
  generations :: "u16 list"
  next_generation :: u16
  next_free_slot :: u16

section \<open>Operations\<close>

definition GetSlot :: "u32 \<Rightarrow> u16" where
  "GetSlot handle = ucast (drop_bit 15 handle)"

definition GetGeneration :: "u32 \<Rightarrow> u16" where
  "GetGeneration handle = ucast (handle AND 0x7FFF)"

definition make_handle :: "u16 \<Rightarrow> u16 \<Rightarrow> u32" where
  "make_handle generation slot = ucast generation OR push_bit 15 (ucast slot)"

definition Clear :: "'o handle_table \<Rightarrow> 'o handle_table" where
  "Clear ht =
     ht\<lparr>generations := map (\<lambda>i. of_nat (i + 1)) [0..<MAX_COUNT],
        objects := replicate MAX_COUNT None,
        next_free_slot := 0\<rparr>"

definition new_handle_table :: "'o handle_table" where
  "new_handle_table =
     Clear \<lparr>objects = [], generations = [], next_generation = 1, next_free_slot = 0\<rparr>"

text \<open>\<open>next_generation++\<close> with the wrap that keeps it in 15 bits and skips 0.\<close>

definition bump_generation :: "u16 \<Rightarrow> u16" where
  "bump_generation g = (let g' = g + 1 in if g' \<ge> 0x8000 then 1 else g')"

definition handle_create :: "'o handle_table \<Rightarrow> 'o \<Rightarrow> 'o handle_table \<times> (u32 + u32)" where
  "handle_create ht obj =
     (let slot = next_free_slot ht in
      if \<not> unat slot < length (generations ht) then (ht, Inl ResultOutOfHandles)
      else
        let next_free = generations ht ! unat slot;
            generation = next_generation ht
        in (ht\<lparr>next_free_slot := next_free,
               next_generation := bump_generation generation,
               generations := (generations ht)[unat slot := generation],
               objects := (objects ht)[unat slot := Some obj]\<rparr>,
            Inr (make_handle generation slot)))"

definition IsValid :: "'o handle_table \<Rightarrow> u32 \<Rightarrow> bool" where
  "IsValid ht handle =
     (let slot = GetSlot handle; generation = GetGeneration handle in
      unat slot < MAX_COUNT \<and> objects ht ! unat slot \<noteq> None \<and>
      generations ht ! unat slot = generation)"

definition CurrentThread :: u32 where
  "CurrentThread = 0xFFFF8000"

definition CurrentProcess :: u32 where
  "CurrentProcess = 0xFFFF8001"

definition GetGeneric :: "'o option \<Rightarrow> 'o option \<Rightarrow> 'o handle_table \<Rightarrow> u32 \<Rightarrow> 'o option" where
  "GetGeneric cur_thread cur_process ht handle =
     (if handle = CurrentThread then cur_thread
      else if handle = CurrentProcess then cur_process
      else if \<not> IsValid ht handle then None
      else objects ht ! unat (GetSlot handle))"

definition handle_duplicate ::
  "'o option \<Rightarrow> 'o option \<Rightarrow> 'o handle_table \<Rightarrow> u32 \<Rightarrow> 'o handle_table \<times> (u32 + u32)" where
  "handle_duplicate cur_thread cur_process ht handle =
     (case GetGeneric cur_thread cur_process ht handle of
        None \<Rightarrow> (ht, Inl ResultInvalidHandle)
      | Some obj \<Rightarrow> handle_create ht obj)"

definition handle_close :: "'o handle_table \<Rightarrow> u32 \<Rightarrow> 'o handle_table \<times> u32" where
  "handle_close ht handle =
     (if \<not> IsValid ht handle then (ht, ResultInvalidHandle)
      else
        let slot = GetSlot handle in
        (ht\<lparr>objects := (objects ht)[unat slot := None],
            generations := (generations ht)[unat slot := next_free_slot ht],
            next_free_slot := slot\<rparr>, ResultSuccess))"

section \<open>Invariant\<close>

text \<open>
  The free slots form a list that starts at \<open>next_free_slot\<close>, is linked through \<open>generations\<close>,
  ends at \<open>MAX_COUNT\<close>, and visits every empty slot once; occupied slots carry a generation of 15
  bits that is not 0.
\<close>

fun free_chain :: "u16 list \<Rightarrow> u16 \<Rightarrow> nat list \<Rightarrow> bool" where
  "free_chain gens s [] = (unat s = MAX_COUNT)"
| "free_chain gens s (i # is) = (unat s = i \<and> i < MAX_COUNT \<and> free_chain gens (gens ! i) is)"

definition gen_ok :: "u16 \<Rightarrow> bool" where
  "gen_ok g \<longleftrightarrow> 1 \<le> unat g \<and> unat g < 32768"

definition handle_table_inv :: "'o handle_table \<Rightarrow> bool" where
  "handle_table_inv ht \<longleftrightarrow>
     length (objects ht) = MAX_COUNT \<and> length (generations ht) = MAX_COUNT \<and>
     gen_ok (next_generation ht) \<and>
     (\<forall>i < MAX_COUNT. objects ht ! i \<noteq> None \<longrightarrow> gen_ok (generations ht ! i)) \<and>
     (\<exists>fs. free_chain (generations ht) (next_free_slot ht) fs \<and> distinct fs \<and>
        (\<forall>i < MAX_COUNT. i \<in> set fs \<longleftrightarrow> objects ht ! i = None))"

text \<open>The abstract value of a table: the objects its handles name.\<close>

definition handle_map :: "'o handle_table \<Rightarrow> (u32 \<rightharpoonup> 'o)" where
  "handle_map ht = (\<lambda>h. if IsValid ht h then objects ht ! unat (GetSlot h) else None)"

section \<open>Lemmas\<close>

lemma free_chain_set: "free_chain gens s fs \<Longrightarrow> i \<in> set fs \<Longrightarrow> i < MAX_COUNT"
  by (induction gens s fs rule: free_chain.induct) auto

lemma free_chain_cong:
  "free_chain gens s fs \<Longrightarrow> (\<And>i. i \<in> set fs \<Longrightarrow> gens' ! i = gens ! i) \<Longrightarrow> free_chain gens' s fs"
  by (induction gens s fs rule: free_chain.induct) auto

lemma free_chain_update:
  "free_chain gens s fs \<Longrightarrow> j \<notin> set fs \<Longrightarrow> free_chain (gens[j := g]) s fs"
  by (erule free_chain_cong) (metis nth_list_update_neq)

lemma free_chain_initial:
  "n \<le> MAX_COUNT \<Longrightarrow>
   free_chain (map (\<lambda>i. of_nat (i + 1)) [0..<MAX_COUNT]) (of_nat (MAX_COUNT - n))
     [MAX_COUNT - n..<MAX_COUNT]"
proof (induction n)
  case 0
  then show ?case by (simp add: MAX_COUNT_def)
next
  case (Suc n)
  then have lt: "MAX_COUNT - Suc n < MAX_COUNT" and suc: "Suc (MAX_COUNT - Suc n) = MAX_COUNT - n"
    by simp_all
  have "unat (of_nat (MAX_COUNT - Suc n) :: u16) = MAX_COUNT - Suc n"
    using lt by (simp add: unat_of_nat MAX_COUNT_def)
  moreover have "(map (\<lambda>i. of_nat (i + 1)) [0..<MAX_COUNT] ! (MAX_COUNT - Suc n) :: u16)
      = of_nat (MAX_COUNT - n)"
    using lt suc by (simp del: of_nat_Suc add: of_nat_Suc [symmetric])
  ultimately show ?case
    using Suc lt suc by (simp add: upt_conv_Cons)
qed

lemma handle_table_inv_new: "handle_table_inv new_handle_table"
proof -
  have "free_chain (map (\<lambda>i. of_nat (i + 1)) [0..<MAX_COUNT]) 0 [0..<MAX_COUNT]"
    using free_chain_initial [of MAX_COUNT] by simp
  then have "\<exists>fs. free_chain (map (\<lambda>i. of_nat (i + 1)) [0..<MAX_COUNT]) 0 fs \<and> distinct fs \<and>
      (\<forall>i < MAX_COUNT. i \<in> set fs \<longleftrightarrow> (replicate MAX_COUNT None :: 'a option list) ! i = None)"
    by (intro exI [of _ "[0..<MAX_COUNT]"]) auto
  then show ?thesis
    by (simp add: handle_table_inv_def new_handle_table_def Clear_def gen_ok_def)
qed

lemma bump_generation_ok: "gen_ok g \<Longrightarrow> gen_ok (bump_generation g)"
proof -
  assume "gen_ok g"
  then have "unat (g + 1) = unat g + 1"
    by (subst unat_add_lem [THEN iffD1]) (auto simp: gen_ok_def)
  then show ?thesis
    using \<open>gen_ok g\<close> by (auto simp: gen_ok_def bump_generation_def Let_def word_le_nat_alt)
qed

lemma gen_ok_not_bit: "gen_ok g \<Longrightarrow> 15 \<le> m \<Longrightarrow> \<not> bit g m"
  using unat_less_not_bit [of g 15 m] by (simp add: gen_ok_def)

lemma gen_ok_bit: "gen_ok g \<Longrightarrow> bit g m \<Longrightarrow> m < 15"
  using gen_ok_not_bit not_le by blast

lemma slot_not_bit: "unat s < MAX_COUNT \<Longrightarrow> 12 \<le> m \<Longrightarrow> \<not> bit (s :: u16) m"
  using unat_less_not_bit [of s 12 m] by (simp add: MAX_COUNT_def)

lemma GetSlot_make_handle: "gen_ok g \<Longrightarrow> GetSlot (make_handle g s) = s"
  by (rule bit_word_eqI)
    (auto simp: GetSlot_def make_handle_def bit_simps gen_ok_not_bit)

lemma GetGeneration_make_handle: "gen_ok g \<Longrightarrow> GetGeneration (make_handle g s) = g"
  by (rule bit_word_eqI)
    (auto simp: GetGeneration_def make_handle_def bit_simps bit_numeral_32767 gen_ok_not_bit
      gen_ok_bit)

text \<open>
  Two handles name the same slot and generation exactly when they agree below bit 31: the slot is
  stored in 16 bits, so bit 31 of a handle is not looked at.
\<close>

lemma same_slot_generation_iff:
  "GetSlot h = GetSlot h' \<and> GetGeneration h = GetGeneration h' \<longleftrightarrow>
   (\<forall>n < 31. bit h n = bit h' n)"
  (is "?l \<longleftrightarrow> ?r")
proof
  assume l: ?l
  show ?r
  proof (intro allI impI)
    fix n :: nat assume n: "n < 31"
    show "bit h n = bit h' n"
    proof (cases "n < 15")
      case True
      have "bit (GetGeneration h) n = bit (GetGeneration h') n"
        using l by simp
      with True show ?thesis
        by (simp add: GetGeneration_def bit_simps bit_numeral_32767)
    next
      case False
      have "bit (GetSlot h) (n - 15) = bit (GetSlot h') (n - 15)"
        using l by simp
      with False n show ?thesis
        by (auto simp: GetSlot_def bit_simps)
    qed
  qed
next
  assume r: ?r
  have "GetSlot h = GetSlot h'"
    by (rule bit_word_eqI) (use r in \<open>auto simp: GetSlot_def bit_simps\<close>)
  moreover have "GetGeneration h = GetGeneration h'"
    by (rule bit_word_eqI)
      (use r in \<open>auto simp: GetGeneration_def bit_simps bit_numeral_32767\<close>)
  ultimately show ?l ..
qed

section \<open>Invariant preservation and functional behaviour\<close>

lemma handle_table_invE:
  assumes "handle_table_inv ht"
  obtains fs where "length (objects ht) = MAX_COUNT" "length (generations ht) = MAX_COUNT"
    "gen_ok (next_generation ht)"
    "\<And>i. i < MAX_COUNT \<Longrightarrow> objects ht ! i \<noteq> None \<Longrightarrow> gen_ok (generations ht ! i)"
    "free_chain (generations ht) (next_free_slot ht) fs" "distinct fs"
    "\<And>i. i < MAX_COUNT \<Longrightarrow> i \<in> set fs \<longleftrightarrow> objects ht ! i = None"
  using assms unfolding handle_table_inv_def by blast

text \<open>A table is full when no slot is empty; exactly then \<open>Create\<close> refuses.\<close>

lemma handle_create_full:
  assumes "handle_table_inv ht"
  shows "(\<exists>e. snd (handle_create ht obj) = Inl e) \<longleftrightarrow> (\<forall>i < MAX_COUNT. objects ht ! i \<noteq> None)"
proof -
  from assms obtain fs where ht: "length (generations ht) = MAX_COUNT"
    "free_chain (generations ht) (next_free_slot ht) fs"
    "\<And>i. i < MAX_COUNT \<Longrightarrow> i \<in> set fs \<longleftrightarrow> objects ht ! i = None"
    by (rule handle_table_invE) blast
  show ?thesis
  proof (cases fs)
    case Nil
    with ht show ?thesis by (simp add: handle_create_def Let_def)
  next
    case (Cons i "is")
    with ht have "unat (next_free_slot ht) = i" "i < MAX_COUNT" "objects ht ! i = None"
      by (auto dest: ht(3) [THEN iffD1])
    with ht show ?thesis by (auto simp: handle_create_def Let_def)
  qed
qed

lemma handle_create_cases:
  assumes "handle_table_inv ht" "handle_create ht obj = (ht', Inr h)"
  obtains i "is" where "next_free_slot ht = of_nat i" "i < MAX_COUNT" "objects ht ! i = None"
    "free_chain (generations ht) (next_free_slot ht) (i # is)" "distinct (i # is)"
    "\<And>j. j < MAX_COUNT \<Longrightarrow> j \<in> set (i # is) \<longleftrightarrow> objects ht ! j = None"
    "h = make_handle (next_generation ht) (of_nat i)"
    "ht' = ht\<lparr>next_free_slot := generations ht ! i,
       next_generation := bump_generation (next_generation ht),
       generations := (generations ht)[i := next_generation ht],
       objects := (objects ht)[i := Some obj]\<rparr>"
proof -
  from assms(1) obtain fs where ht: "length (generations ht) = MAX_COUNT"
    "free_chain (generations ht) (next_free_slot ht) fs" "distinct fs"
    "\<And>i. i < MAX_COUNT \<Longrightarrow> i \<in> set fs \<longleftrightarrow> objects ht ! i = None"
    by (rule handle_table_invE) blast
  from assms(2) ht(1) have lt: "unat (next_free_slot ht) < MAX_COUNT"
    by (auto simp: handle_create_def Let_def split: if_splits)
  with ht(2) obtain i "is" where fs: "fs = i # is" "unat (next_free_slot ht) = i" "i < MAX_COUNT"
    by (cases fs) auto
  then have s: "next_free_slot ht = of_nat i"
    unfolding fs(2) [symmetric] by simp
  show thesis
    using that [of i "is"] ht fs s assms(2) ht(4) [OF fs(3)]
    by (auto simp: handle_create_def Let_def)
qed

lemma handle_create_inv:
  assumes inv: "handle_table_inv ht" and c: "handle_create ht obj = (ht', Inr h)"
  shows "handle_table_inv ht'"
proof (rule handle_create_cases [OF inv c])
  fix i "is"
  assume i: "next_free_slot ht = of_nat i" "i < MAX_COUNT" "objects ht ! i = None"
    "free_chain (generations ht) (next_free_slot ht) (i # is)" "distinct (i # is)"
    "\<And>j. j < MAX_COUNT \<Longrightarrow> j \<in> set (i # is) \<longleftrightarrow> objects ht ! j = None"
    "h = make_handle (next_generation ht) (of_nat i)"
    "ht' = ht\<lparr>next_free_slot := generations ht ! i,
       next_generation := bump_generation (next_generation ht),
       generations := (generations ht)[i := next_generation ht],
       objects := (objects ht)[i := Some obj]\<rparr>"
  have len: "length (objects ht) = MAX_COUNT" "length (generations ht) = MAX_COUNT"
    "gen_ok (next_generation ht)"
    "\<And>j. j < MAX_COUNT \<Longrightarrow> objects ht ! j \<noteq> None \<Longrightarrow> gen_ok (generations ht ! j)"
    using inv by (auto simp: handle_table_inv_def)
  have "free_chain ((generations ht)[i := next_generation ht]) (generations ht ! i) is"
    using i by (auto intro: free_chain_update)
  then show ?thesis
    using i len
    by (auto simp: handle_table_inv_def nth_list_update bump_generation_ok intro!: exI [of _ "is"])
qed

lemma handle_close_inv:
  assumes inv: "handle_table_inv ht" and c: "handle_close ht h = (ht', r)"
  shows "handle_table_inv ht'"
proof (cases "IsValid ht h")
  case False
  with inv c show ?thesis by (simp add: handle_close_def)
next
  case True
  define i where "i = unat (GetSlot h)"
  from inv obtain fs where ht: "length (objects ht) = MAX_COUNT"
    "length (generations ht) = MAX_COUNT" "gen_ok (next_generation ht)"
    "\<And>i. i < MAX_COUNT \<Longrightarrow> objects ht ! i \<noteq> None \<Longrightarrow> gen_ok (generations ht ! i)"
    "free_chain (generations ht) (next_free_slot ht) fs" "distinct fs"
    "\<And>i. i < MAX_COUNT \<Longrightarrow> i \<in> set fs \<longleftrightarrow> objects ht ! i = None"
    by (rule handle_table_invE) blast
  from True have i: "i < MAX_COUNT" "objects ht ! i \<noteq> None"
    by (auto simp: IsValid_def Let_def i_def)
  with ht(7) have nin: "i \<notin> set fs" by simp
  then have "free_chain ((generations ht)[i := next_free_slot ht]) (GetSlot h) (i # fs)"
    using ht i by (auto simp: i_def [symmetric] intro: free_chain_update)
  moreover have "ht' = ht\<lparr>objects := (objects ht)[i := None],
      generations := (generations ht)[i := next_free_slot ht], next_free_slot := GetSlot h\<rparr>"
    using True c by (simp add: handle_close_def Let_def i_def)
  ultimately show ?thesis
    using ht i nin
    by (auto simp: handle_table_inv_def nth_list_update intro!: exI [of _ "i # fs"])
qed

text \<open>The second handle under which an object is found: the same one with bit 31 set.\<close>

definition alias_handle :: "u32 \<Rightarrow> u32" where
  "alias_handle h = set_bit 31 h"

lemma agree_below_31_iff:
  assumes "\<not> bit h 31"
  shows "(\<forall>n < 31. bit x n = bit h n) \<longleftrightarrow> x = h \<or> x = alias_handle h"
proof
  assume l: "\<forall>n < 31. bit x n = bit h n"
  show "x = h \<or> x = alias_handle h"
  proof (cases "bit x 31")
    case True
    have "bit x n = bit (alias_handle h) n" if "n < 32" for n
      using l True that by (cases "n = 31") (auto simp: alias_handle_def bit_simps)
    then have "x = alias_handle h"
      by (intro bit_word_eqI) simp
    then show ?thesis ..
  next
    case False
    have "bit x n = bit h n" if "n < 32" for n
      using l False assms that by (cases "n = 31") auto
    then have "x = h"
      by (intro bit_word_eqI) simp
    then show ?thesis ..
  qed
qed (auto simp: alias_handle_def bit_simps)

lemma make_handle_not_bit_31: "unat s < MAX_COUNT \<Longrightarrow> \<not> bit (make_handle g s) 31"
  by (auto simp: make_handle_def bit_simps slot_not_bit dest: bit_imp_le_length)

lemma handle_create_map:
  assumes inv: "handle_table_inv ht" and c: "handle_create ht obj = (ht', Inr h)"
  shows "handle_map ht' = (handle_map ht)(h \<mapsto> obj, alias_handle h \<mapsto> obj)"
proof (rule handle_create_cases [OF inv c])
  fix i "is"
  assume i: "next_free_slot ht = of_nat i" "i < MAX_COUNT" "objects ht ! i = None"
    and h: "h = make_handle (next_generation ht) (of_nat i)"
    and ht': "ht' = ht\<lparr>next_free_slot := generations ht ! i,
       next_generation := bump_generation (next_generation ht),
       generations := (generations ht)[i := next_generation ht],
       objects := (objects ht)[i := Some obj]\<rparr>"
  have len: "length (objects ht) = MAX_COUNT" "length (generations ht) = MAX_COUNT"
    and gok: "gen_ok (next_generation ht)"
    using inv by (auto simp: handle_table_inv_def)
  have ui: "unat (of_nat i :: u16) = i"
    using i(2) by (simp add: unat_of_nat MAX_COUNT_def)
  have sg: "GetSlot h = of_nat i" "GetGeneration h = next_generation ht"
    using gok by (simp_all add: h GetSlot_make_handle GetGeneration_make_handle)
  have nb: "\<not> bit h 31"
    using make_handle_not_bit_31 [of "of_nat i" "next_generation ht"] i(2) by (simp add: h ui)
  show ?thesis
  proof
    fix x
    have eq: "x = h \<or> x = alias_handle h \<longleftrightarrow>
        GetSlot x = of_nat i \<and> GetGeneration x = next_generation ht"
      using agree_below_31_iff [OF nb, of x] same_slot_generation_iff [of x h] sg by simp
    have slot: "GetSlot x = of_nat i \<longleftrightarrow> unat (GetSlot x) = i"
      unfolding word_unat_eq_iff ui ..
    have "handle_map ht' x =
        (if GetSlot x = of_nat i \<and> GetGeneration x = next_generation ht then Some obj
         else handle_map ht x)"
    proof (cases "unat (GetSlot x) = i")
      case True
      then show ?thesis
        using i len slot ui by (simp add: handle_map_def IsValid_def Let_def ht' True)
    next
      case False
      then show ?thesis
        using slot by (simp add: handle_map_def IsValid_def Let_def ht')
    qed
    then have "handle_map ht' x = (if x = h \<or> x = alias_handle h then Some obj else handle_map ht x)"
      unfolding eq .
    then show "handle_map ht' x = ((handle_map ht)(h \<mapsto> obj, alias_handle h \<mapsto> obj)) x"
      by (cases "x = h"; cases "x = alias_handle h") simp_all
  qed
qed

lemma handle_close_map:
  assumes inv: "handle_table_inv ht" and c: "handle_close ht h = (ht', r)" and v: "IsValid ht h"
  shows "r = ResultSuccess \<and>
    handle_map ht' = (\<lambda>x. if \<forall>n < 31. bit x n = bit h n then None else handle_map ht x)"
proof -
  define i where "i = unat (GetSlot h)"
  have ht': "ht' = ht\<lparr>objects := (objects ht)[i := None],
      generations := (generations ht)[i := next_free_slot ht], next_free_slot := GetSlot h\<rparr>"
    and r: "r = ResultSuccess"
    using v c by (simp_all add: handle_close_def Let_def i_def)
  have i: "i < MAX_COUNT" "objects ht ! i \<noteq> None" "generations ht ! i = GetGeneration h"
    using v by (auto simp: IsValid_def Let_def i_def)
  have len: "length (objects ht) = MAX_COUNT" "length (generations ht) = MAX_COUNT"
    using inv by (auto simp: handle_table_inv_def)
  have "handle_map ht' x = (if \<forall>n < 31. bit x n = bit h n then None else handle_map ht x)" for x
  proof (cases "unat (GetSlot x) = i")
    case True
    then have "GetSlot x = GetSlot h"
      by (simp add: i_def word_unat_eq_iff)
    then show ?thesis
      using same_slot_generation_iff [of x h] True i len
      by (auto simp: handle_map_def IsValid_def Let_def ht')
  next
    case False
    then have "GetSlot x \<noteq> GetSlot h"
      by (auto simp: i_def)
    then show ?thesis
      using same_slot_generation_iff [of x h] False
      by (auto simp: handle_map_def IsValid_def Let_def ht')
  qed
  with r show ?thesis by auto
qed

lemma handle_create_fresh:
  assumes inv: "handle_table_inv ht" and c: "handle_create ht obj = (ht', Inr h)"
  shows "handle_map ht h = None"
proof (rule handle_create_cases [OF inv c])
  fix i
  assume i: "i < MAX_COUNT" "objects ht ! i = None"
    and h: "h = make_handle (next_generation ht) (of_nat i)"
  have "gen_ok (next_generation ht)"
    using inv by (simp add: handle_table_inv_def)
  then have "GetSlot h = of_nat i"
    by (simp add: h GetSlot_make_handle)
  moreover have "unat (of_nat i :: u16) = i"
    using i(1) by (simp add: unat_of_nat MAX_COUNT_def)
  ultimately show ?thesis
    using i by (simp add: handle_map_def IsValid_def Let_def)
qed

lemma handle_create_new: "\<exists>ht'. handle_create new_handle_table obj = (ht', Inr 1)"
proof -
  have "0 < MAX_COUNT"
    by (simp add: MAX_COUNT_def)
  then show ?thesis
    by (simp add: handle_create_def new_handle_table_def Clear_def make_handle_def Let_def)
qed

section \<open>Properties\<close>

text \<open>C37: \<open>Create\<close> on a well-formed table either refuses, exactly when every slot is taken, with
  "out of handles" and the table unchanged; or it returns a handle that named nothing before and
  now names the object, leaves every other handle's meaning alone, and keeps the table
  well-formed. The 17-bit slot field is cut to 16 bits on lookup, so the new handle is also found
  under its alias with bit 31 set.
\<close>

theorem handle_create_correct:
  assumes "handle_table_inv ht"
  shows "case handle_create ht obj of
      (ht', Inl e) \<Rightarrow> e = ResultOutOfHandles \<and> ht' = ht \<and> (\<forall>i < MAX_COUNT. objects ht ! i \<noteq> None)
    | (ht', Inr h) \<Rightarrow> (\<exists>i < MAX_COUNT. objects ht ! i = None) \<and> handle_table_inv ht' \<and>
        handle_map ht h = None \<and> handle_map ht' = (handle_map ht)(h \<mapsto> obj, alias_handle h \<mapsto> obj)"
proof (cases "handle_create ht obj")
  case (Pair ht' r)
  show ?thesis
  proof (cases r)
    case (Inl e)
    with Pair have "handle_create ht obj = (ht', Inl e)"
      by simp
    moreover from this have "e = ResultOutOfHandles \<and> ht' = ht"
      by (auto simp: handle_create_def Let_def split: if_splits)
    ultimately show ?thesis
      using handle_create_full [OF assms, of obj] by simp
  next
    case (Inr h)
    with Pair have c: "handle_create ht obj = (ht', Inr h)"
      by simp
    moreover have "\<not> (\<forall>i < MAX_COUNT. objects ht ! i \<noteq> None)"
      using handle_create_full [OF assms, of obj] c by simp
    ultimately show ?thesis
      using handle_create_inv [OF assms c] handle_create_fresh [OF assms c]
        handle_create_map [OF assms c] by (simp add: c)
  qed
qed

theorem handle_create_correct_witness:
  "handle_table_inv (new_handle_table :: nat handle_table) \<and>
   (\<exists>ht'. handle_create new_handle_table (7 :: nat) = (ht', Inr 1) \<and> handle_map ht' 1 = Some 7)"
proof -
  have inv: "handle_table_inv (new_handle_table :: nat handle_table)"
    by (rule handle_table_inv_new)
  obtain ht' where c: "handle_create new_handle_table (7 :: nat) = (ht', Inr 1)"
    using handle_create_new [of "7 :: nat"] by (elim exE)
  have "handle_map ht' 1 = Some 7"
    using handle_create_correct [OF inv, of 7] by (simp add: c)
  with inv c show ?thesis by blast
qed

text \<open>\<open>Close\<close> of an invalid handle changes nothing and says so; \<open>Close\<close> of a valid handle removes
  exactly the entries whose low 31 bits agree with it (the handle and its alias), keeps every
  other handle, and puts the slot back on the free list of a well-formed table.
\<close>

lemma handle_close_correct:
  assumes "handle_table_inv ht"
  shows "case handle_close ht h of (ht', r) \<Rightarrow> handle_table_inv ht' \<and>
     (if IsValid ht h
      then r = ResultSuccess \<and>
        handle_map ht' = (\<lambda>x. if \<forall>n < 31. bit x n = bit h n then None else handle_map ht x)
      else r = ResultInvalidHandle \<and> ht' = ht)"
proof (cases "handle_close ht h")
  case (Pair ht' r)
  show ?thesis
  proof (cases "IsValid ht h")
    case True
    with Pair show ?thesis
      using handle_close_inv [OF assms Pair] handle_close_map [OF assms Pair] by simp
  next
    case False
    with Pair assms show ?thesis by (simp add: handle_close_def)
  qed
qed

lemma handle_close_correct_witness:
  "\<exists>(ht' :: nat handle_table).
     fst (handle_close (fst (handle_create new_handle_table 7)) 1) = ht' \<and>
     handle_table_inv ht' \<and> handle_map ht' 1 = None"
proof -
  let ?ht = "fst (handle_create new_handle_table (7 :: nat))"
  obtain ht1 where c: "handle_create new_handle_table (7 :: nat) = (ht1, Inr 1)"
    using handle_create_new [of "7 :: nat"] by (elim exE)
  have inv: "handle_table_inv ?ht"
    using handle_create_inv [OF handle_table_inv_new c] by (simp add: c)
  have "handle_map ht1 1 = Some 7"
    unfolding handle_create_map [OF handle_table_inv_new c] by simp
  then have v: "IsValid ?ht 1"
    by (simp add: c handle_map_def split: if_splits)
  obtain ht2 r where d: "handle_close ?ht 1 = (ht2, r)"
    by (cases "handle_close ?ht 1")
  have "handle_table_inv ht2 \<and> handle_map ht2 1 = None"
    using handle_close_correct [OF inv, of 1] v by (simp add: d)
  with d show ?thesis by simp
qed

end
