(* ===== verification/Ready_Queue.thy ===== *)
theory Ready_Queue
  imports Prelude
begin

text \<open>
  The interface between the scheduler and its queue of ready threads: a list of levels, one per
  priority (level 0 is the most urgent), each first in, first out. The locale \<open>ready_queue\<close> states
  what the thread manager relies on; \<open>Thread_Queue_List\<close> provides it. The loop that takes the best
  thread that may run, and puts back those it had to skip, is the client of this interface
  (\<open>ThreadManager::PopNextReadyThread\<close>, \<open>core/hle/kernel/thread.cpp\<close>).
\<close>

section \<open>Levels\<close>

text \<open>The best level that holds a thread.\<close>

definition best_level :: "'a list list \<Rightarrow> nat option" where
  "best_level ds = (case filter (\<lambda>i. ds ! i \<noteq> []) [0..<length ds] of [] \<Rightarrow> None | i # _ \<Rightarrow> Some i)"

lemma best_level_SomeD:
  assumes "best_level ds = Some i"
  shows "i < length ds" "ds ! i \<noteq> []" "\<And>j. j < i \<Longrightarrow> ds ! j = []"
proof -
  from assms obtain "is" where "filter (\<lambda>i. ds ! i \<noteq> []) [0..<length ds] = i # is"
    by (auto simp: best_level_def split: list.splits)
  from filter_upt_Cons_least [OF this]
  show "i < length ds" "ds ! i \<noteq> []" "\<And>j. j < i \<Longrightarrow> ds ! j = []"
    by auto
qed

lemma best_level_None: "best_level ds = None \<longleftrightarrow> (\<forall>i < length ds. ds ! i = [])"
proof (cases "filter (\<lambda>i. ds ! i \<noteq> []) [0..<length ds]")
  case Nil
  then show ?thesis by (auto simp: best_level_def filter_empty_conv)
next
  case (Cons i "is")
  with filter_upt_Cons_least [OF Cons] show ?thesis by (auto simp: best_level_def)
qed

lemma best_level_eqI:
  assumes "i < length ds" "ds ! i \<noteq> []" "\<And>j. j < i \<Longrightarrow> ds ! j = []"
  shows "best_level ds = Some i"
proof (cases "best_level ds")
  case None
  with assms show ?thesis by (auto simp: best_level_None)
next
  case (Some k)
  with assms best_level_SomeD [OF Some] show ?thesis
    by (metis linorder_neqE_nat)
qed

text \<open>All threads of the levels below a bound, best first, with their level.\<close>

definition ranked :: "nat \<Rightarrow> 'a list list \<Rightarrow> (nat \<times> 'a) list" where
  "ranked B ds = concat (map (\<lambda>p. map (Pair p) (ds ! p)) [0..<B])"

lemma set_ranked: "(p, t) \<in> set (ranked B ds) \<longleftrightarrow> p < B \<and> t \<in> set (ds ! p)"
  by (auto simp: ranked_def)

lemma ranked_empty: "(\<And>p. p < B \<Longrightarrow> ds ! p = []) \<Longrightarrow> ranked B ds = []"
  by (auto simp: ranked_def)

lemma ranked_head:
  assumes "i < B" "B \<le> length ds" "ds ! i = t # ts" "\<And>j. j < i \<Longrightarrow> ds ! j = []"
  shows "ranked B ds = (i, t) # ranked B (ds[i := ts])"
proof -
  have later: "map (\<lambda>p. map (Pair p) (ds[i := ts] ! p)) [Suc i..<B] =
      map (\<lambda>p. map (Pair p) (ds ! p)) [Suc i..<B]"
    by simp
  have before: "concat (map (\<lambda>p. map (Pair p) (ds ! p)) [0..<i]) = []"
    "concat (map (\<lambda>p. map (Pair p) (ds[i := ts] ! p)) [0..<i]) = []"
    using assms(4) by auto
  have "i < length ds"
    using assms by simp
  then show ?thesis
    unfolding ranked_def upt_split_at [OF assms(1)]
    by (simp only: map_append concat_append before list.map concat.simps later assms(3)
        nth_list_update_eq append_Nil append_Cons)
qed

section \<open>Taking the best thread that may run\<close>

partial_function (option) skip_loop ::
  "('a \<Rightarrow> bool) \<Rightarrow> ('q \<Rightarrow> ('q \<times> nat \<times> 'a option) option) \<Rightarrow> 'q \<Rightarrow> (nat \<times> 'a) list \<Rightarrow>
   ('q \<times> (nat \<times> 'a) list \<times> 'a option) option" where
  "skip_loop ok pop q skipped =
     Option.bind (pop q) (\<lambda>(q, p, next).
       case next of
         None \<Rightarrow> Some (q, skipped, None)
       | Some t \<Rightarrow> if ok t then Some (q, skipped, Some t)
                   else skip_loop ok pop q (skipped @ [(p, t)]))"

definition pop_allowed ::
  "('a \<Rightarrow> bool) \<Rightarrow> ('q \<Rightarrow> ('q \<times> nat \<times> 'a option) option) \<Rightarrow> ('q \<Rightarrow> nat \<Rightarrow> 'a \<Rightarrow> 'q option) \<Rightarrow> 'q \<Rightarrow>
   ('q \<times> 'a option) option" where
  "pop_allowed ok pop push q = do {
     (q, skipped, next) \<leftarrow> skip_loop ok pop q [];
     q \<leftarrow> for_each (\<lambda>(p, t) q. push q p t) (rev skipped) q;
     Some (q, next) }"

text \<open>
  What the loop is meant to do on the levels below \<open>B\<close>: take the first thread that is allowed, and
  leave everything else, in order, where it was.
\<close>

definition take_allowed :: "('a \<Rightarrow> bool) \<Rightarrow> nat \<Rightarrow> 'a list list \<Rightarrow> 'a list list \<times> 'a option" where
  "take_allowed ok B ds =
     (case find (\<lambda>(p, t). ok t) (ranked B ds) of
        None \<Rightarrow> (ds, None)
      | Some (p, t) \<Rightarrow> (ds[p := remove1 t (ds ! p)], Some t))"

lemma take_allowed_none: "(\<And>p. p < B \<Longrightarrow> ds ! p = []) \<Longrightarrow> take_allowed ok B ds = (ds, None)"
  by (simp add: take_allowed_def ranked_empty)

lemma find_SomeD: "find P xs = Some x \<Longrightarrow> x \<in> set xs \<and> P x"
  by (induction xs) (auto split: if_splits)

lemma take_allowed_head:
  assumes "i < B" "B \<le> length ds" "ds ! i = t # ts" "\<And>j. j < i \<Longrightarrow> ds ! j = []"
  shows "take_allowed ok B ds =
    (if ok t then (ds[i := ts], Some t)
     else case take_allowed ok B (ds[i := ts]) of (ds', r) \<Rightarrow> (ds'[i := t # ds' ! i], r))"
proof (cases "ok t")
  case True
  with assms show ?thesis
    by (simp add: take_allowed_def ranked_head)
next
  case False
  have i: "i < length ds"
    using assms by simp
  have same: "ds[i := t # ts] = ds"
    using assms(3) i by (metis list_update_id)
  show ?thesis
  proof (cases "find (\<lambda>(p, t). ok t) (ranked B (ds[i := ts]))")
    case None
    with False assms same i show ?thesis
      by (simp add: take_allowed_def ranked_head)
  next
    case (Some pu)
    obtain p u where pu: "pu = (p, u)"
      by (cases pu)
    with find_SomeD [OF Some] have u: "ok u" "u \<in> set (ds[i := ts] ! p)" "p < B"
      by (auto simp: set_ranked)
    with False have "u \<noteq> t"
      by auto
    with Some pu False assms i show ?thesis
      by (cases "p = i") (simp_all add: take_allowed_def ranked_head list_update_swap same nth_list_update)
  qed
qed

lemma take_allowed_length: "length (fst (take_allowed ok B ds)) = length ds"
  by (simp add: take_allowed_def split: option.split)

text \<open>What the taken thread is: the oldest allowed one of the best level that has one.\<close>

lemma ranked_Suc: "ranked (Suc B) ds = ranked B ds @ map (Pair B) (ds ! B)"
  by (simp add: ranked_def)

lemma find_append_eq: "find P (xs @ ys) = (case find P xs of None \<Rightarrow> find P ys | Some x \<Rightarrow> Some x)"
  by (induction xs) auto

lemma find_map_Pair: "find (\<lambda>(p, t). ok t) (map (Pair i) ts) = map_option (Pair i) (find ok ts)"
  by (induction ts) auto

lemma find_ranked_None:
  "find (\<lambda>(p, t). ok t) (ranked B ds) = None \<longleftrightarrow> (\<forall>p < B. \<forall>t \<in> set (ds ! p). \<not> ok t)"
  by (auto simp: find_None_iff set_ranked split: prod.splits)

lemma find_ranked_Some:
  assumes "find (\<lambda>(p, t). ok t) (ranked B ds) = Some (p, t)"
  shows "p < B \<and> find ok (ds ! p) = Some t \<and> (\<forall>j < p. \<forall>u \<in> set (ds ! j). \<not> ok u)"
  using assms
proof (induction B)
  case 0
  then show ?case by (simp add: ranked_def)
next
  case (Suc B)
  show ?case
  proof (cases "find (\<lambda>(p, t). ok t) (ranked B ds)")
    case None
    with Suc.prems have "p = B" "find ok (ds ! B) = Some t"
      by (auto simp: ranked_Suc find_append_eq find_map_Pair)
    with None show ?thesis
      by (auto simp: find_ranked_None)
  next
    case (Some a)
    with Suc show ?thesis
      by (auto simp: ranked_Suc find_append_eq)
  qed
qed

lemma take_allowed_cases:
  assumes "take_allowed ok B ds = (ds', r)"
  obtains "r = None" "ds' = ds" "\<And>p t. p < B \<Longrightarrow> t \<in> set (ds ! p) \<Longrightarrow> \<not> ok t"
  | p t where "r = Some t" "p < B" "find ok (ds ! p) = Some t" "ok t" "t \<in> set (ds ! p)"
      "\<And>j u. j < p \<Longrightarrow> u \<in> set (ds ! j) \<Longrightarrow> \<not> ok u" "ds' = ds[p := remove1 t (ds ! p)]"
proof (cases "find (\<lambda>(p, t). ok t) (ranked B ds)")
  case None
  then have "r = None" "ds' = ds" "\<And>p t. p < B \<Longrightarrow> t \<in> set (ds ! p) \<Longrightarrow> \<not> ok t"
    using assms by (simp_all add: take_allowed_def) (simp add: find_ranked_None)
  then show thesis by (rule that(1))
next
  case (Some a)
  obtain p t where a: "a = (p, t)"
    by (cases a)
  note f = find_ranked_Some [OF Some [unfolded a]]
  show thesis
  proof (rule that(2))
    show "r = Some t" "ds' = ds[p := remove1 t (ds ! p)]"
      using assms Some a by (simp_all add: take_allowed_def)
  qed (use f find_SomeD [of ok "ds ! p" t] in auto)
qed

section \<open>The interface\<close>

locale ready_queue =
  fixes inv :: "'q \<Rightarrow> bool" and levels :: "'q \<Rightarrow> 'a list list" and usable :: "'q \<Rightarrow> nat \<Rightarrow> bool"
    and pop :: "'q \<Rightarrow> ('q \<times> nat \<times> 'a option) option"
    and pop_better :: "'q \<Rightarrow> nat \<Rightarrow> ('q \<times> nat \<times> 'a option) option"
    and add_front :: "'q \<Rightarrow> nat \<Rightarrow> 'a \<Rightarrow> 'q option" and add_back :: "'q \<Rightarrow> nat \<Rightarrow> 'a \<Rightarrow> 'q option"
    and delete :: "'q \<Rightarrow> nat \<Rightarrow> 'a \<Rightarrow> 'q option" and enable :: "'q \<Rightarrow> nat \<Rightarrow> 'q option"
  assumes usable_range: "usable q p \<Longrightarrow> p < length (levels q)"
    and occupied_usable: "inv q \<Longrightarrow> p < length (levels q) \<Longrightarrow> levels q ! p \<noteq> [] \<Longrightarrow> usable q p"
    and pop_none: "inv q \<Longrightarrow> best_level (levels q) = None \<Longrightarrow> pop q = Some (q, 0, None)"
    and pop_some: "inv q \<Longrightarrow> best_level (levels q) = Some i \<Longrightarrow>
      \<exists>q'. pop q = Some (q', i, Some (hd (levels q ! i))) \<and> inv q' \<and>
        levels q' = (levels q)[i := tl (levels q ! i)] \<and> usable q' = usable q"
    and pop_better_none: "inv q \<Longrightarrow> usable q p \<Longrightarrow> (\<And>i. i < p \<Longrightarrow> levels q ! i = []) \<Longrightarrow>
      pop_better q p = Some (q, 0, None)"
    and pop_better_some: "inv q \<Longrightarrow> usable q p \<Longrightarrow> i < p \<Longrightarrow> best_level (levels q) = Some i \<Longrightarrow>
      pop_better q p = pop q"
    and front_usable: "inv q \<Longrightarrow> usable q p \<Longrightarrow>
      \<exists>q'. add_front q p t = Some q' \<and> inv q' \<and> levels q' = (levels q)[p := t # levels q ! p] \<and>
        usable q' = usable q"
    and back_usable: "inv q \<Longrightarrow> usable q p \<Longrightarrow>
      \<exists>q'. add_back q p t = Some q' \<and> inv q' \<and> levels q' = (levels q)[p := levels q ! p @ [t]] \<and>
        usable q' = usable q"
    and delete_range: "inv q \<Longrightarrow> p < length (levels q) \<Longrightarrow>
      \<exists>q'. delete q p t = Some q' \<and> inv q' \<and> levels q' = (levels q)[p := removeAll t (levels q ! p)] \<and>
        usable q' = usable q"
    and enable_range: "inv q \<Longrightarrow> p < length (levels q) \<Longrightarrow>
      \<exists>q'. enable q p = Some q' \<and> inv q' \<and> levels q' = levels q \<and>
        (\<forall>j. usable q' j \<longleftrightarrow> j = p \<or> usable q j)"
begin

text \<open>What the two ways of popping have in common, for the levels below a bound.\<close>

definition pops_below :: "('q \<Rightarrow> bool) \<Rightarrow> ('q \<Rightarrow> ('q \<times> nat \<times> 'a option) option) \<Rightarrow> nat \<Rightarrow> bool" where
  "pops_below pre popf B \<longleftrightarrow>
     (\<forall>q. pre q \<longrightarrow> inv q \<and> B \<le> length (levels q)) \<and>
     (\<forall>q. pre q \<longrightarrow> (\<forall>i < B. levels q ! i = []) \<longrightarrow> popf q = Some (q, 0, None)) \<and>
     (\<forall>q i. pre q \<longrightarrow> i < B \<longrightarrow> best_level (levels q) = Some i \<longrightarrow>
        (\<exists>q'. popf q = Some (q', i, Some (hd (levels q ! i))) \<and> pre q' \<and>
           levels q' = (levels q)[i := tl (levels q ! i)] \<and> usable q' = usable q))"

lemma pops_below_pop: "pops_below (\<lambda>q. inv q \<and> length (levels q) = B) pop B"
  unfolding pops_below_def
  by (auto intro!: pop_none simp: best_level_None) (metis length_list_update pop_some)

lemma pops_below_pop_better: "pops_below (\<lambda>q. inv q \<and> usable q B) (\<lambda>q. pop_better q B) B"
  unfolding pops_below_def
  by (auto dest: usable_range intro: pop_better_none) (metis pop_better_some pop_some)

lemma skip_loop_restores:
  assumes popf: "pops_below pre popf B" and q: "pre q"
  shows "\<exists>q' sk r. skip_loop ok popf q skipped = Some (q', skipped @ sk, r) \<and>
    (\<exists>q''. for_each (\<lambda>(p, t) q. add_front q p t) (rev sk) q' = Some q'' \<and> inv q'' \<and>
       usable q'' = usable q \<and> take_allowed ok B (levels q) = (levels q'', r))"
  using q
proof (induction "length (ranked B (levels q))" arbitrary: q skipped rule: less_induct)
  case less
  have q: "inv q" "B \<le> length (levels q)"
    using popf less.prems by (auto simp: pops_below_def)
  show ?case
  proof (cases "\<forall>i < B. levels q ! i = []")
    case True
    then have "popf q = Some (q, 0, None)"
      using popf less.prems by (simp add: pops_below_def)
    then show ?thesis
      using True q by (subst skip_loop.simps) (simp add: take_allowed_none)
  next
    case False
    then obtain i where i: "best_level (levels q) = Some i"
      using q(2) by (cases "best_level (levels q)") (auto simp: best_level_None)
    note bl = best_level_SomeD [OF i]
    have iB: "i < B"
      using False bl(3) by (metis leI less_le_trans)
    obtain t ts where t: "levels q ! i = t # ts"
      using bl(2) by (cases "levels q ! i") auto
    obtain q1 where q1: "popf q = Some (q1, i, Some t)" "pre q1" "levels q1 = (levels q)[i := ts]"
      "usable q1 = usable q"
      using popf less.prems i iB t unfolding pops_below_def by fastforce
    then have q1i: "inv q1"
      using popf by (auto simp: pops_below_def)
    note rh = ranked_head [OF iB q(2) t bl(3)]
    note th = take_allowed_head [OF iB q(2) t bl(3), of ok]
    show ?thesis
    proof (cases "ok t")
      case True
      then show ?thesis
        using q1 q1i th by (subst skip_loop.simps) simp
    next
      case False
      have "length (ranked B (levels q1)) < length (ranked B (levels q))"
        by (simp add: rh q1)
      from less.hyps [OF this q1(2), of "skipped @ [(i, t)]"] obtain q' sk r q''
        where IH: "skip_loop ok popf q1 (skipped @ [(i, t)]) = Some (q', (skipped @ [(i, t)]) @ sk, r)"
          "for_each (\<lambda>(p, t) q. add_front q p t) (rev sk) q' = Some q''" "inv q''"
          "usable q'' = usable q1" "take_allowed ok B (levels q1) = (levels q'', r)"
        by blast
      have "usable q'' i"
        using occupied_usable [OF q(1) bl(1,2)] by (simp add: IH(4) q1(4))
      from front_usable [OF IH(3) this, of t] obtain q3
        where q3: "add_front q'' i t = Some q3" "inv q3" "levels q3 = (levels q'')[i := t # levels q'' ! i]"
          "usable q3 = usable q''"
        by blast
      have "skip_loop ok popf q skipped = Some (q', skipped @ ((i, t) # sk), r)"
        using q1 IH(1) False by (subst skip_loop.simps) simp
      moreover have "for_each (\<lambda>(p, t) q. add_front q p t) (rev ((i, t) # sk)) q' = Some q3"
        by (simp add: for_each_append IH(2) q3)
      moreover have "take_allowed ok B (levels q) = (levels q3, r)"
        using th False IH(5) q3(3) by (simp add: q1(3))
      ultimately show ?thesis
        using q3 IH(4) q1(4) by metis
    qed
  qed
qed

lemma pop_allowed_below:
  assumes "pops_below pre popf B" "pre q"
  shows "\<exists>q' r. pop_allowed ok popf add_front q = Some (q', r) \<and> inv q' \<and> usable q' = usable q \<and>
    take_allowed ok B (levels q) = (levels q', r)"
  using skip_loop_restores [OF assms, of ok "[]"] by (auto simp: pop_allowed_def)

lemma pop_allowed_pop:
  "inv q \<Longrightarrow> \<exists>q' r. pop_allowed ok pop add_front q = Some (q', r) \<and> inv q' \<and> usable q' = usable q \<and>
     take_allowed ok (length (levels q)) (levels q) = (levels q', r)"
  by (rule pop_allowed_below [OF pops_below_pop]) simp

lemma pop_allowed_pop_better:
  "inv q \<Longrightarrow> usable q p \<Longrightarrow>
   \<exists>q' r. pop_allowed ok (\<lambda>q. pop_better q p) add_front q = Some (q', r) \<and> inv q' \<and> usable q' = usable q \<and>
     take_allowed ok p (levels q) = (levels q', r)"
  by (rule pop_allowed_below [OF pops_below_pop_better]) simp

end

end
