(* ===== verification/Thread_Queue_List.thy ===== *)
theory Thread_Queue_List
  imports Ready_Queue
begin

text \<open>
  The multi-level ready queue of \<open>common/thread_queue_list.h\<close>: an array of \<open>N\<close> queues, one per
  priority, in which the levels that have ever been used are linked in ascending order through
  \<open>next_nonempty\<close>. A \<open>Queue*\<close> is null, the tag value 1 (\<open>UnlinkedTag\<close>), or the address of an array
  element. Indexing the array out of range and following the tag or null are undefined behaviour of
  the code and give \<open>None\<close>, as does a scan that never ends.
\<close>

section \<open>State\<close>

datatype link = Null | Unlinked | To nat

record 'a tql =
  first :: link
  nexts :: "link list"
  datas :: "'a list list"

abbreviation tql_size :: "'a tql \<Rightarrow> nat" where
  "tql_size q \<equiv> length (datas q)"

definition tql_new :: "nat \<Rightarrow> 'a tql" where
  "tql_new N = \<lparr>first = Null, nexts = replicate N Unlinked, datas = replicate N []\<rparr>"

section \<open>Operations\<close>

definition contains :: "'a tql \<Rightarrow> 'a \<Rightarrow> int" where
  "contains q uid =
     (case filter (\<lambda>i. uid \<in> set (datas q ! i)) [0..<tql_size q] of
        [] \<Rightarrow> 4294967295
      | i # _ \<Rightarrow> int i)"

text \<open>
  The scan shared by \<open>get_first\<close> and \<open>pop_first\<close>: the first linked level that holds a thread, or
  nothing. Following \<open>UnlinkedTag\<close> is a dereference of address 1.
\<close>

partial_function (option) scan_first :: "'a tql \<Rightarrow> link \<Rightarrow> nat option option" where
  "scan_first q cur =
     (case cur of
        Null \<Rightarrow> Some None
      | Unlinked \<Rightarrow> None
      | To i \<Rightarrow> if i < tql_size q then
                  (if datas q ! i \<noteq> [] then Some (Some i) else scan_first q (nexts q ! i))
                else None)"

definition get_first :: "'a tql \<Rightarrow> 'a option option" where
  "get_first q = do {
     r \<leftarrow> scan_first q (first q);
     Some (map_option (\<lambda>i. hd (datas q ! i)) r) }"

definition pop_level :: "'a tql \<Rightarrow> nat \<Rightarrow> 'a tql \<times> nat \<times> 'a option" where
  "pop_level q i =
     (q\<lparr>datas := (datas q)[i := tl (datas q ! i)]\<rparr>, i, Some (hd (datas q ! i)))"

definition pop_first :: "'a tql \<Rightarrow> ('a tql \<times> nat \<times> 'a option) option" where
  "pop_first q = do {
     r \<leftarrow> scan_first q (first q);
     Some (case r of None \<Rightarrow> (q, 0, None) | Some i \<Rightarrow> pop_level q i) }"

text \<open>
  \<open>pop_first_better\<close> compares addresses: \<open>cur < stop\<close> also holds for the null pointer and for the
  tag, which the body then dereferences.
\<close>

partial_function (option) scan_better :: "'a tql \<Rightarrow> nat \<Rightarrow> link \<Rightarrow> nat option option" where
  "scan_better q priority cur =
     (case cur of
        Null \<Rightarrow> None
      | Unlinked \<Rightarrow> None
      | To i \<Rightarrow> if \<not> i < priority then Some None
                else if \<not> i < tql_size q then None
                else if datas q ! i \<noteq> [] then Some (Some i)
                else scan_better q priority (nexts q ! i))"

definition pop_first_better :: "'a tql \<Rightarrow> nat \<Rightarrow> ('a tql \<times> nat \<times> 'a option) option" where
  "pop_first_better q priority = do {
     r \<leftarrow> scan_better q priority (first q);
     Some (case r of None \<Rightarrow> (q, 0, None) | Some i \<Rightarrow> pop_level q i) }"

definition push_front :: "'a tql \<Rightarrow> nat \<Rightarrow> 'a \<Rightarrow> 'a tql option" where
  "push_front q priority t = do {
     assertion (priority < tql_size q);
     Some (q\<lparr>datas := (datas q)[priority := t # datas q ! priority]\<rparr>) }"

definition push_back :: "'a tql \<Rightarrow> nat \<Rightarrow> 'a \<Rightarrow> 'a tql option" where
  "push_back q priority t = do {
     assertion (priority < tql_size q);
     Some (q\<lparr>datas := (datas q)[priority := datas q ! priority @ [t]]\<rparr>) }"

text \<open>\<open>std::remove\<close> drops every occurrence.\<close>

definition tql_remove :: "'a tql \<Rightarrow> nat \<Rightarrow> 'a \<Rightarrow> 'a tql option" where
  "tql_remove q priority t = do {
     assertion (priority < tql_size q);
     Some (q\<lparr>datas := (datas q)[priority := removeAll t (datas q ! priority)]\<rparr>) }"

definition tql_rotate :: "'a tql \<Rightarrow> nat \<Rightarrow> 'a tql option" where
  "tql_rotate q priority = do {
     assertion (priority < tql_size q);
     Some (if length (datas q ! priority) > 1
           then q\<lparr>datas := (datas q)[priority := tl (datas q ! priority) @ [hd (datas q ! priority)]]\<rparr>
           else q) }"

definition tql_clear :: "'a tql \<Rightarrow> 'a tql" where
  "tql_clear q = tql_new (tql_size q)"

definition tql_empty :: "'a tql \<Rightarrow> nat \<Rightarrow> bool option" where
  "tql_empty q priority = do {
     assertion (priority < tql_size q);
     Some (datas q ! priority = []) }"

text \<open>The downward loop of \<open>link\<close>: the closest level below \<open>i\<close> that is linked.\<close>

fun prev_linked :: "link list \<Rightarrow> nat \<Rightarrow> nat option" where
  "prev_linked ns 0 = None"
| "prev_linked ns (Suc i) = (if ns ! i \<noteq> Unlinked then Some i else prev_linked ns i)"

definition link_level :: "'a tql \<Rightarrow> nat \<Rightarrow> 'a tql" where
  "link_level q priority =
     (case prev_linked (nexts q) priority of
        Some i \<Rightarrow> q\<lparr>nexts := (nexts q)[priority := nexts q ! i, i := To priority]\<rparr>
      | None \<Rightarrow> q\<lparr>nexts := (nexts q)[priority := first q], first := To priority\<rparr>)"

definition prepare :: "'a tql \<Rightarrow> nat \<Rightarrow> 'a tql option" where
  "prepare q priority = do {
     assertion (priority < tql_size q);
     Some (if nexts q ! priority = Unlinked then link_level q priority else q) }"

definition tql_move :: "'a tql \<Rightarrow> 'a \<Rightarrow> nat \<Rightarrow> nat \<Rightarrow> 'a tql option" where
  "tql_move q t old_priority new_priority = do {
     q \<leftarrow> tql_remove q old_priority t;
     q \<leftarrow> prepare q new_priority;
     push_back q new_priority t }"

section \<open>Serialisation\<close>

text \<open>Save states store every pointer as an index: -2 for null, -1 for the tag.\<close>

fun ToIndex :: "link \<Rightarrow> int" where
  "ToIndex Null = -2"
| "ToIndex Unlinked = -1"
| "ToIndex (To i) = int i"

definition ToPointer :: "int \<Rightarrow> link" where
  "ToPointer idx = (if idx = -1 then Unlinked else if idx < 0 then Null else To (nat idx))"

definition tql_save :: "'a tql \<Rightarrow> int \<times> (int \<times> 'a list) list" where
  "tql_save q = (ToIndex (first q), zip (map ToIndex (nexts q)) (datas q))"

definition tql_load :: "int \<times> (int \<times> 'a list) list \<Rightarrow> 'a tql" where
  "tql_load ar =
     \<lparr>first = ToPointer (fst ar), nexts = map (ToPointer \<circ> fst) (snd ar), datas = map snd (snd ar)\<rparr>"

section \<open>Invariant\<close>

fun linked_chain :: "link list \<Rightarrow> link \<Rightarrow> nat list \<Rightarrow> bool" where
  "linked_chain ns l [] = (l = Null)"
| "linked_chain ns l (i # is) = (l = To i \<and> linked_chain ns (ns ! i) is)"

definition is_linked :: "'a tql \<Rightarrow> nat \<Rightarrow> bool" where
  "is_linked q i \<longleftrightarrow> nexts q ! i \<noteq> Unlinked"

definition linked_levels :: "link list \<Rightarrow> nat list" where
  "linked_levels ns = filter (\<lambda>i. ns ! i \<noteq> Unlinked) [0..<length ns]"

text \<open>
  The chain from \<open>first\<close> visits exactly the linked levels in ascending order, and a level that
  holds a thread is linked.
\<close>

definition tql_inv :: "'a tql \<Rightarrow> bool" where
  "tql_inv q \<longleftrightarrow>
     length (nexts q) = tql_size q \<and>
     linked_chain (nexts q) (first q) (linked_levels (nexts q)) \<and>
     (\<forall>i < tql_size q. datas q ! i \<noteq> [] \<longrightarrow> nexts q ! i \<noteq> Unlinked)"

section \<open>Scanning\<close>

lemma scan_first_chain:
  assumes "linked_chain (nexts q) l is" "\<forall>i \<in> set is. i < tql_size q"
  shows "scan_first q l = Some (case filter (\<lambda>i. datas q ! i \<noteq> []) is of [] \<Rightarrow> None | i # _ \<Rightarrow> Some i)"
  using assms
proof (induction "is" arbitrary: l)
  case Nil
  then show ?case by (simp add: scan_first.simps)
next
  case (Cons i "is")
  then show ?case by (subst scan_first.simps) simp
qed

lemma scan_better_chain:
  assumes "linked_chain (nexts q) l is" "sorted is" "\<forall>i \<in> set is. i < tql_size q"
    "\<exists>i \<in> set is. p \<le> i"
  shows "scan_better q p l =
    Some (case filter (\<lambda>i. i < p \<and> datas q ! i \<noteq> []) is of [] \<Rightarrow> None | i # _ \<Rightarrow> Some i)"
  using assms
proof (induction "is" arbitrary: l)
  case Nil
  then show ?case by simp
next
  case (Cons i "is")
  show ?case
  proof (cases "i < p")
    case True
    with Cons.prems have "scan_better q p (nexts q ! i) =
        Some (case filter (\<lambda>i. i < p \<and> datas q ! i \<noteq> []) is of [] \<Rightarrow> None | i # _ \<Rightarrow> Some i)"
      by (intro Cons.IH) auto
    with True Cons.prems show ?thesis
      by (subst scan_better.simps) simp
  next
    case False
    with Cons.prems have "filter (\<lambda>i. i < p \<and> datas q ! i \<noteq> []) (i # is) = []"
      by (auto simp: filter_empty_conv)
    with False Cons.prems show ?thesis
      by (subst scan_better.simps) simp
  qed
qed

lemma linked_levels_lt: "i \<in> set (linked_levels ns) \<longleftrightarrow> i < length ns \<and> ns ! i \<noteq> Unlinked"
  by (auto simp: linked_levels_def)

lemma sorted_linked_levels: "sorted (linked_levels ns)"
  by (simp add: linked_levels_def sorted_wrt_filter)

lemma nonempty_levels:
  assumes "tql_inv q"
  shows "filter (\<lambda>i. datas q ! i \<noteq> []) (linked_levels (nexts q)) =
    filter (\<lambda>i. datas q ! i \<noteq> []) [0..<tql_size q]"
  using assms by (auto simp: tql_inv_def linked_levels_def filter_filter intro!: filter_cong)

lemma scan_first_best: "tql_inv q \<Longrightarrow> scan_first q (first q) = Some (best_level (datas q))"
  by (subst scan_first_chain [of q "first q" "linked_levels (nexts q)"])
    (auto simp: tql_inv_def linked_levels_lt best_level_def nonempty_levels [unfolded tql_inv_def])

section \<open>Linking a level\<close>

fun segment :: "link list \<Rightarrow> link \<Rightarrow> nat list \<Rightarrow> link \<Rightarrow> bool" where
  "segment ns l [] m = (l = m)"
| "segment ns l (i # is) m = (l = To i \<and> segment ns (ns ! i) is m)"

lemma linked_chain_append:
  "linked_chain ns l (xs @ ys) \<longleftrightarrow> (\<exists>m. segment ns l xs m \<and> linked_chain ns m ys)"
  by (induction xs arbitrary: l) auto

lemma segment_snoc: "segment ns l (xs @ [i]) m \<longleftrightarrow> segment ns l xs (To i) \<and> ns ! i = m"
  by (induction xs arbitrary: l) auto

lemma segment_cong:
  "segment ns l xs m \<Longrightarrow> (\<And>i. i \<in> set xs \<Longrightarrow> ns' ! i = ns ! i) \<Longrightarrow> segment ns' l xs m"
  by (induction xs arbitrary: l) auto

lemma linked_chain_cong:
  "linked_chain ns l xs \<Longrightarrow> (\<And>i. i \<in> set xs \<Longrightarrow> ns' ! i = ns ! i) \<Longrightarrow> linked_chain ns' l xs"
  by (induction xs arbitrary: l) auto

lemma linked_chain_not_Unlinked: "linked_chain ns l xs \<Longrightarrow> l \<noteq> Unlinked"
  by (cases xs) auto

lemma prev_linked_filter:
  "filter (\<lambda>i. ns ! i \<noteq> Unlinked) [0..<p] =
     (case prev_linked ns p of None \<Rightarrow> []
      | Some i \<Rightarrow> filter (\<lambda>i. ns ! i \<noteq> Unlinked) [0..<i] @ [i])"
  by (induction p) (auto split: option.splits)

lemma prev_linked_SomeD: "prev_linked ns p = Some i \<Longrightarrow> i < p \<and> ns ! i \<noteq> Unlinked"
  by (induction p) (auto split: if_splits)

text \<open>What \<open>link\<close> does to the chain: it gains the new level, at its place in the order.\<close>

lemma link_level_chain:
  assumes inv: "linked_chain ns f (linked_levels ns)" and p: "p < length ns" "ns ! p = Unlinked"
    and q': "q' = link_level \<lparr>first = f, nexts = ns, datas = ds\<rparr> p"
  shows "linked_chain (nexts q') (first q') (linked_levels (nexts q'))"
    and "\<forall>j. j < length ns \<longrightarrow> nexts q' ! j \<noteq> Unlinked \<longleftrightarrow> j = p \<or> ns ! j \<noteq> Unlinked"
    and "length (nexts q') = length ns" and "datas q' = ds"
proof -
  let ?L = "\<lambda>i. ns ! i \<noteq> Unlinked"
  let ?A = "filter ?L [0..<p]" and ?B = "filter ?L [Suc p..<length ns]"
  have "[0..<length ns] = [0..<p] @ p # [Suc p..<length ns]"
    using p(1) by (rule upt_split_at)
  then have split: "linked_levels ns = ?A @ ?B"
    and split': "\<And>P. filter P [0..<length ns] =
      filter P [0..<p] @ (if P p then [p] else []) @ filter P [Suc p..<length ns]"
    using p(2) by (simp_all add: linked_levels_def)
  have new: "filter (\<lambda>j. j = p \<or> ns ! j \<noteq> Unlinked) [0..<p] = ?A"
    "filter (\<lambda>j. j = p \<or> ns ! j \<noteq> Unlinked) [Suc p..<length ns] = ?B"
    by (auto intro: filter_cong)
  have fn: "f \<noteq> Unlinked"
    using inv by (rule linked_chain_not_Unlinked)
  have "linked_chain (nexts q') (first q') (linked_levels (nexts q')) \<and>
      (\<forall>j. j < length ns \<longrightarrow> nexts q' ! j \<noteq> Unlinked \<longleftrightarrow> j = p \<or> ns ! j \<noteq> Unlinked) \<and>
      length (nexts q') = length ns \<and> datas q' = ds"
  proof (cases "prev_linked ns p")
    case None
    then have A: "?A = []"
      by (simp add: prev_linked_filter)
    let ?ns = "ns[p := f]"
    from None have q: "first q' = To p" "nexts q' = ?ns" "datas q' = ds"
      by (simp_all add: q' link_level_def)
    have iff: "?ns ! j \<noteq> Unlinked \<longleftrightarrow> j = p \<or> ns ! j \<noteq> Unlinked" if "j < length ns" for j
      using that fn p by (auto simp: nth_list_update)
    have "linked_levels ?ns = filter (\<lambda>j. j = p \<or> ns ! j \<noteq> Unlinked) [0..<length ns]"
      unfolding linked_levels_def by (rule filter_cong) (use iff in auto)
    also have "\<dots> = ?A @ p # ?B"
      by (simp add: split' new)
    finally have lv: "linked_levels ?ns = p # ?B"
      by (simp add: A)
    have "linked_chain ns f ?B"
      using inv by (simp add: split A)
    then have "linked_chain ?ns f ?B"
      by (rule linked_chain_cong) auto
    with lv p iff show ?thesis
      by (auto simp: q)
  next
    case (Some i)
    let ?ns = "ns[p := ns ! i, i := To p]"
    from prev_linked_SomeD [OF Some] have i: "i < p" "ns ! i \<noteq> Unlinked"
      by auto
    let ?Z = "filter ?L [0..<i]"
    have A: "?A = ?Z @ [i]"
      by (simp only: prev_linked_filter [of ns p] Some option.case)
    from Some have q: "first q' = f" "nexts q' = ?ns" "datas q' = ds"
      by (simp_all add: q' link_level_def)
    have iff: "?ns ! j \<noteq> Unlinked \<longleftrightarrow> j = p \<or> ns ! j \<noteq> Unlinked" if "j < length ns" for j
      using that i p by (auto simp: nth_list_update)
    have "linked_levels ?ns = filter (\<lambda>j. j = p \<or> ns ! j \<noteq> Unlinked) [0..<length ns]"
      unfolding linked_levels_def by (rule filter_cong) (use iff in auto)
    also have "\<dots> = ?A @ p # ?B"
      by (simp add: split' new)
    finally have lv: "linked_levels ?ns = ?Z @ i # p # ?B"
      by (simp add: A)
    from inv have "linked_chain ns f (?Z @ [i] @ ?B)"
      by (simp add: split A)
    then have seg: "segment ns f ?Z (To i)" and ch: "linked_chain ns (ns ! i) ?B"
      by (auto simp: linked_chain_append)
    from seg have "segment ?ns f ?Z (To i)"
      by (rule segment_cong) (use i in auto)
    moreover from ch have "linked_chain ?ns (ns ! i) ?B"
      by (rule linked_chain_cong) (use i in auto)
    ultimately have "linked_chain ?ns f (linked_levels ?ns)"
      unfolding lv linked_chain_append using i p by auto
    with iff show ?thesis
      by (simp add: q)
  qed
  then show "linked_chain (nexts q') (first q') (linked_levels (nexts q'))"
    and "\<forall>j. j < length ns \<longrightarrow> nexts q' ! j \<noteq> Unlinked \<longleftrightarrow> j = p \<or> ns ! j \<noteq> Unlinked"
    and "length (nexts q') = length ns" and "datas q' = ds"
    by auto
qed

section \<open>The operations on a well-formed queue\<close>

definition linked :: "'a tql \<Rightarrow> nat \<Rightarrow> bool" where
  "linked q p \<longleftrightarrow> p < tql_size q \<and> nexts q ! p \<noteq> Unlinked"

lemma tql_inv_new: "tql_inv (tql_new N)"
proof -
  have "linked_levels (replicate N Unlinked) = []"
    by (auto simp: linked_levels_def filter_empty_conv)
  then show ?thesis
    by (simp add: tql_inv_def tql_new_def)
qed

lemma tql_inv_datas:
  assumes "tql_inv q" "length ds = tql_size q"
    and "\<And>i. i < tql_size q \<Longrightarrow> ds ! i \<noteq> [] \<Longrightarrow> nexts q ! i \<noteq> Unlinked"
  shows "tql_inv (q\<lparr>datas := ds\<rparr>)"
  using assms by (simp add: tql_inv_def)

lemma prepare_spec:
  assumes "tql_inv q" "p < tql_size q"
  obtains q' where "prepare q p = Some q'" "tql_inv q'" "datas q' = datas q"
    "\<And>j. linked q' j \<longleftrightarrow> j = p \<or> linked q j"
proof (cases "nexts q ! p = Unlinked")
  case False
  with assms show ?thesis
    by (intro that [of q]) (auto simp: prepare_def linked_def)
next
  case True
  define q' where "q' = link_level q p"
  have q': "q' = link_level \<lparr>first = first q, nexts = nexts q, datas = datas q\<rparr> p"
    by (simp add: q'_def link_level_def split: option.split)
  have "linked_chain (nexts q) (first q) (linked_levels (nexts q))" "p < length (nexts q)"
    using assms by (simp_all add: tql_inv_def)
  from link_level_chain [OF this True q']
  have "tql_inv q'" "datas q' = datas q" "\<And>j. linked q' j \<longleftrightarrow> j = p \<or> linked q j"
    using assms by (auto simp: tql_inv_def linked_def)
  moreover have "prepare q p = Some q'"
    using True assms by (simp add: prepare_def q'_def)
  ultimately show ?thesis
    by (intro that [of q']) auto
qed

lemma pop_first_spec:
  assumes "tql_inv q"
  shows "pop_first q =
    Some (case best_level (datas q) of None \<Rightarrow> (q, 0, None) | Some i \<Rightarrow> pop_level q i)"
  by (simp add: pop_first_def scan_first_best assms)

lemma get_first_spec:
  assumes "tql_inv q"
  shows "get_first q = Some (map_option (\<lambda>i. hd (datas q ! i)) (best_level (datas q)))"
  by (simp add: get_first_def scan_first_best assms)

lemma pop_first_better_spec:
  assumes inv: "tql_inv q" and p: "linked q p"
  shows "pop_first_better q p =
    Some (case best_level (datas q) of
            None \<Rightarrow> (q, 0, None)
          | Some i \<Rightarrow> if i < p then pop_level q i else (q, 0, None))"
proof -
  let ?D = "\<lambda>i. datas q ! i \<noteq> []"
  have "linked_chain (nexts q) (first q) (linked_levels (nexts q))"
    "\<forall>i \<in> set (linked_levels (nexts q)). i < tql_size q"
    "\<exists>i \<in> set (linked_levels (nexts q)). p \<le> i"
    using inv p by (auto simp: tql_inv_def linked_levels_lt linked_def)
  from scan_better_chain [OF this(1) sorted_linked_levels this(2,3)]
  have scan: "scan_better q p (first q) = Some
      (case filter (\<lambda>i. i < p \<and> ?D i) (linked_levels (nexts q)) of [] \<Rightarrow> None | i # _ \<Rightarrow> Some i)" .
  have "filter (\<lambda>i. i < p \<and> ?D i) (linked_levels (nexts q)) =
      filter (\<lambda>i. i < p) (filter ?D (linked_levels (nexts q)))"
    by (simp add: filter_filter conj_commute)
  also have "\<dots> = filter (\<lambda>i. i < p) (filter ?D [0..<tql_size q])"
    by (simp only: nonempty_levels [OF inv])
  finally have fl: "filter (\<lambda>i. i < p \<and> ?D i) (linked_levels (nexts q)) =
      filter (\<lambda>i. i < p) (filter ?D [0..<tql_size q])" .
  have srt: "sorted (filter ?D [0..<tql_size q])"
    by (simp add: sorted_wrt_filter)
  show ?thesis
  proof (cases "filter ?D [0..<tql_size q]")
    case Nil
    then show ?thesis
      by (simp add: pop_first_better_def scan fl best_level_def)
  next
    case (Cons i "is")
    with srt have "filter (\<lambda>i. i < p) (i # is) = (if i < p then i # filter (\<lambda>i. i < p) is else [])"
      by (auto simp: filter_empty_conv)
    with Cons show ?thesis
      by (simp add: pop_first_better_def scan fl best_level_def)
  qed
qed

lemma pop_level_inv:
  assumes "tql_inv q" "best_level (datas q) = Some i"
  shows "tql_inv (q\<lparr>datas := (datas q)[i := tl (datas q ! i)]\<rparr>)"
  using assms best_level_SomeD [OF assms(2)]
  by (intro tql_inv_datas) (auto simp: nth_list_update tql_inv_def split: if_splits)

lemma push_spec:
  assumes "tql_inv q" "linked q p"
  shows "push_back q p t = Some (q\<lparr>datas := (datas q)[p := datas q ! p @ [t]]\<rparr>)"
    and "tql_inv (q\<lparr>datas := (datas q)[p := datas q ! p @ [t]]\<rparr>)"
    and "push_front q p t = Some (q\<lparr>datas := (datas q)[p := t # datas q ! p]\<rparr>)"
    and "tql_inv (q\<lparr>datas := (datas q)[p := t # datas q ! p]\<rparr>)"
  using assms
  by (auto simp: push_back_def push_front_def linked_def nth_list_update tql_inv_def)

lemma tql_remove_spec:
  assumes "tql_inv q" "p < tql_size q"
  shows "tql_remove q p t = Some (q\<lparr>datas := (datas q)[p := removeAll t (datas q ! p)]\<rparr>)"
    and "tql_inv (q\<lparr>datas := (datas q)[p := removeAll t (datas q ! p)]\<rparr>)"
proof -
  show "tql_remove q p t = Some (q\<lparr>datas := (datas q)[p := removeAll t (datas q ! p)]\<rparr>)"
    using assms by (simp add: tql_remove_def)
  show "tql_inv (q\<lparr>datas := (datas q)[p := removeAll t (datas q ! p)]\<rparr>)"
    using assms
    by (intro tql_inv_datas) (auto simp: nth_list_update tql_inv_def split: if_splits)
qed

lemma ToPointer_ToIndex: "ToPointer (ToIndex l) = l"
  by (cases l) (simp_all add: ToPointer_def)

section \<open>The list is a ready queue\<close>

interpretation rq: ready_queue tql_inv datas linked pop_first pop_first_better push_front push_back
  tql_remove prepare
proof unfold_locales
  fix q :: "'a tql" and p i :: nat and t :: 'a
  show "linked q p \<Longrightarrow> p < tql_size q"
    by (simp add: linked_def)
  show "tql_inv q \<Longrightarrow> p < tql_size q \<Longrightarrow> datas q ! p \<noteq> [] \<Longrightarrow> linked q p"
    by (simp add: tql_inv_def linked_def)
  show "tql_inv q \<Longrightarrow> best_level (datas q) = None \<Longrightarrow> pop_first q = Some (q, 0, None)"
    by (simp add: pop_first_spec)
  show "\<exists>q'. pop_first q = Some (q', i, Some (hd (datas q ! i))) \<and> tql_inv q' \<and>
        datas q' = (datas q)[i := tl (datas q ! i)] \<and> linked q' = linked q"
    if "tql_inv q" "best_level (datas q) = Some i"
    using that pop_level_inv [OF that] by (simp add: pop_first_spec pop_level_def linked_def fun_eq_iff)
  show "tql_inv q \<Longrightarrow> linked q p \<Longrightarrow> (\<And>i. i < p \<Longrightarrow> datas q ! i = []) \<Longrightarrow>
      pop_first_better q p = Some (q, 0, None)"
    by (auto simp: pop_first_better_spec split: option.splits dest: best_level_SomeD)
  show "tql_inv q \<Longrightarrow> linked q p \<Longrightarrow> i < p \<Longrightarrow> best_level (datas q) = Some i \<Longrightarrow>
      pop_first_better q p = pop_first q"
    by (simp add: pop_first_better_spec pop_first_spec)
  show "tql_inv q \<Longrightarrow> linked q p \<Longrightarrow> \<exists>q'. push_front q p t = Some q' \<and> tql_inv q' \<and>
      datas q' = (datas q)[p := t # datas q ! p] \<and> linked q' = linked q"
    by (simp add: push_spec linked_def fun_eq_iff)
  show "tql_inv q \<Longrightarrow> linked q p \<Longrightarrow> \<exists>q'. push_back q p t = Some q' \<and> tql_inv q' \<and>
      datas q' = (datas q)[p := datas q ! p @ [t]] \<and> linked q' = linked q"
    by (simp add: push_spec linked_def fun_eq_iff)
  show "tql_inv q \<Longrightarrow> p < tql_size q \<Longrightarrow> \<exists>q'. tql_remove q p t = Some q' \<and> tql_inv q' \<and>
      datas q' = (datas q)[p := removeAll t (datas q ! p)] \<and> linked q' = linked q"
    by (simp add: tql_remove_spec linked_def fun_eq_iff)
  show "\<exists>q'. prepare q p = Some q' \<and> tql_inv q' \<and> datas q' = datas q \<and>
      (\<forall>j. linked q' j \<longleftrightarrow> j = p \<or> linked q j)" if "tql_inv q" "p < tql_size q"
    by (rule prepare_spec [OF that]) blast
qed

lemma tql_load_save_eq:
  assumes "length (nexts q) = tql_size q"
  shows "tql_load (tql_save q) = q"
proof -
  have "map (ToPointer \<circ> fst) (zip (map ToIndex (nexts q)) (datas q)) =
      map ToPointer (map fst (zip (map ToIndex (nexts q)) (datas q)))"
    by simp
  also have "\<dots> = map (\<lambda>l. ToPointer (ToIndex l)) (nexts q)"
    using assms by (simp add: map_fst_zip o_def)
  finally show ?thesis
    using assms by (simp add: tql_load_def tql_save_def ToPointer_ToIndex map_snd_zip)
qed

section \<open>Properties\<close>

text \<open>On a well-formed queue, with the given priority linked, \<open>pop_first_better\<close> neither runs off
  the chain nor dereferences a null or tag pointer: it takes the oldest thread of the best
  non-empty level when that level is strictly better, leaves every other level alone, and
  otherwise reports nothing and changes nothing.
\<close>

lemma pop_first_better_correct:
  assumes "tql_inv q" "linked q p"
  shows "if \<exists>i < p. datas q ! i \<noteq> []
    then \<exists>i t ts q'. i < p \<and> datas q ! i = t # ts \<and> (\<forall>j < i. datas q ! j = []) \<and>
      pop_first_better q p = Some (q', i, Some t) \<and> tql_inv q' \<and> datas q' = (datas q)[i := ts]
    else pop_first_better q p = Some (q, 0, None)"
proof (cases "\<exists>i < p. datas q ! i \<noteq> []")
  case True
  moreover have "p < tql_size q"
    using assms(2) by (simp add: linked_def)
  ultimately obtain i where i: "best_level (datas q) = Some i"
    by (cases "best_level (datas q)") (auto simp: best_level_None)
  note bl = best_level_SomeD [OF i]
  from bl(2) obtain t ts where t: "datas q ! i = t # ts"
    by (cases "datas q ! i") auto
  have "i < p"
    using True bl(3) by (metis leI less_le_trans)
  from rq.pop_better_some [OF assms this i] rq.pop_some [OF assms(1) i] t bl(3) \<open>i < p\<close> True
  show ?thesis by auto
next
  case False
  then show ?thesis
    using rq.pop_better_none [OF assms] by auto
qed

lemma pop_first_better_correct_witness:
  "\<exists>q q1. prepare (tql_new 64) 50 = Some q \<and> prepare q 30 = Some q1 \<and>
     (\<exists>q2. push_back q1 30 (7 :: nat) = Some q2 \<and>
       (\<exists>q3. pop_first_better q2 50 = Some (q3, 30, Some 7) \<and> tql_inv q3))"
proof -
  have new: "tql_inv (tql_new 64 :: nat tql)" "50 < tql_size (tql_new 64 :: nat tql)"
    by (simp_all add: tql_inv_new) (simp add: tql_new_def)
  from prepare_spec [OF new] obtain q where q: "prepare (tql_new 64) 50 = Some q" "tql_inv q"
    "datas q = datas (tql_new 64 :: nat tql)" "\<And>j. linked q j \<longleftrightarrow> j = 50 \<or> linked (tql_new 64 :: nat tql) j"
    by blast
  have "30 < tql_size q"
    by (simp add: q tql_new_def)
  from prepare_spec [OF q(2) this] obtain q1 where q1: "prepare q 30 = Some q1" "tql_inv q1"
    "datas q1 = datas q" "\<And>j. linked q1 j \<longleftrightarrow> j = 30 \<or> linked q j"
    by blast
  have lnk: "linked q1 30" "linked q1 50"
    by (simp_all add: q1 q)
  from rq.back_usable [OF q1(2) lnk(1), of 7] obtain q2 where q2: "push_back q1 30 7 = Some q2"
    "tql_inv q2" "datas q2 = (datas q1)[30 := datas q1 ! 30 @ [7]]" "linked q2 = linked q1"
    by blast
  have d: "datas q2 = (replicate 64 [])[30 := [7]]"
    by (simp only: q2 q1 q) (simp add: tql_new_def)
  have ne: "i = 30" if "i < 50" "datas q2 ! i \<noteq> []" for i
    using that by (auto simp: d nth_list_update split: if_splits)
  have "\<exists>i < 50. datas q2 ! i \<noteq> []"
    by (intro exI [of _ 30]) (simp add: d)
  moreover have "linked q2 50"
    by (simp add: q2 lnk)
  ultimately have "\<exists>i t ts q'. i < 50 \<and> datas q2 ! i = t # ts \<and> (\<forall>j < i. datas q2 ! j = []) \<and>
      pop_first_better q2 50 = Some (q', i, Some t) \<and> tql_inv q' \<and> datas q' = (datas q2)[i := ts]"
    using pop_first_better_correct [OF q2(2), of 50] by (simp only: if_True)
  then obtain i t ts q3 where r: "i < 50" "datas q2 ! i = t # ts"
    "pop_first_better q2 50 = Some (q3, i, Some t)" "tql_inv q3"
    by blast
  have "i = 30"
    using ne r by simp
  moreover have "t = 7"
    using r(2) by (simp add: \<open>i = 30\<close> d)
  ultimately show ?thesis
    using q(1) q1(1) q2(1) r by auto
qed

text \<open>\<open>prepare\<close> on a well-formed queue links exactly the level it is given into the ascending chain
  of used levels (through \<open>link\<close>), keeps every thread where it was, and is safe for every
  priority of the array.
\<close>

lemma prepare_correct:
  assumes "tql_inv q" "p < tql_size q"
  shows "\<exists>q'. prepare q p = Some q' \<and> tql_inv q' \<and> datas q' = datas q \<and>
    linked_chain (nexts q') (first q') (filter (\<lambda>i. i = p \<or> linked q i) [0..<tql_size q])"
proof -
  from prepare_spec [OF assms] obtain q' where q': "prepare q p = Some q'" "tql_inv q'"
    "datas q' = datas q" "\<And>j. linked q' j \<longleftrightarrow> j = p \<or> linked q j"
    by blast
  have "linked_levels (nexts q') = filter (\<lambda>i. i = p \<or> linked q i) [0..<tql_size q]"
    unfolding linked_levels_def q'(4) [symmetric]
    by (rule filter_cong) (use q'(2,3) in \<open>auto simp: tql_inv_def linked_def\<close>)
  with q' show ?thesis
    by (auto simp: tql_inv_def)
qed

lemma prepare_correct_witness:
  "\<exists>q. prepare (tql_new 64 :: nat tql) 24 = Some q \<and> linked_chain (nexts q) (first q) [24]"
proof -
  have new: "tql_inv (tql_new 64 :: nat tql)" "24 < tql_size (tql_new 64 :: nat tql)"
    by (simp_all add: tql_inv_new) (simp add: tql_new_def)
  have "filter (\<lambda>i. i = 24 \<or> linked (tql_new 64 :: nat tql) i) [0..<64] = [24]"
    by (simp add: linked_def tql_new_def upt_rec)
  with prepare_correct [OF new] show ?thesis
    by (auto simp: tql_new_def)
qed

text \<open>Saving a queue and loading it again gives the same queue back: the pointers, which are stored
  as indices, the tag and null survive.
\<close>

lemma tql_load_save:
  assumes "tql_inv q"
  shows "tql_load (tql_save q) = q"
  using assms by (intro tql_load_save_eq) (simp add: tql_inv_def)

lemma tql_load_save_witness: "tql_load (tql_save (tql_new 64 :: nat tql)) = tql_new 64"
  using tql_load_save [OF tql_inv_new] .

end
