(* ===== verification/Core_Timing.thy ===== *)
theory Core_Timing
  imports Prelude "HOL-Library.Multiset"
begin

text \<open>
  The event scheduler of \<open>core/core_timing.{h,cpp}\<close>: per-core timers with a queue of timed events,
  the slice bookkeeping (\<open>slice_length\<close>, \<open>downcount\<close>, \<open>executed_ticks\<close>), the scheduling operations
  of \<open>Timing\<close>, and the \<open>Advance\<close> loop that runs the callbacks of the events that are due.

  An event queue is a binary heap ordered by \<open>(time, fifo_order)\<close> (\<open>std::push_heap\<close>,
  \<open>std::pop_heap\<close>, \<open>std::make_heap\<close> with \<open>std::greater\<close>). The model keeps its elements in the order
  in which the heap yields them, so the front of the heap is the head of the list. The queue for
  other host threads (\<open>ts_queue\<close>) is first in, first out. Event types are a type parameter; what a
  callback does is a parameter of \<open>Advance\<close>, over a state in which the timer lives.

  Signed 64-bit sums that the code computes through \<open>u64\<close> are wrapped explicitly; the other \<open>s64\<close>
  fields are mathematical integers.
\<close>

section \<open>Constants and unit conversion\<close>

definition BASE_CLOCK_RATE_ARM11 :: int where
  "BASE_CLOCK_RATE_ARM11 = 268111856"

definition MAX_VALUE_TO_MULTIPLY :: int where
  "MAX_VALUE_TO_MULTIPLY = 9223372036854775807 div BASE_CLOCK_RATE_ARM11"

definition MAX_SLICE_LENGTH :: int where
  "MAX_SLICE_LENGTH = BASE_CLOCK_RATE_ARM11 div 234"

text \<open>C++ signed division truncates towards zero.\<close>

definition trunc_div :: "int \<Rightarrow> int \<Rightarrow> int" where
  "trunc_div a b = sgn a * sgn b * (\<bar>a\<bar> div \<bar>b\<bar>)"

text \<open>
  \<open>nsToCycles(s64)\<close> and \<open>usToCycles(s64)\<close>. \<open>BASE_CLOCK_RATE_ARM11\<close> is a \<open>u64\<close>, so the products and the last
  division are unsigned 64-bit; the result is converted to \<open>s64\<close>.
\<close>

definition units_to_cycles :: "int \<Rightarrow> int \<Rightarrow> int" where
  "units_to_cycles per_second v =
     (if trunc_div v per_second > MAX_VALUE_TO_MULTIPLY then 9223372036854775807
      else if v > MAX_VALUE_TO_MULTIPLY
           then to_s64 ((BASE_CLOCK_RATE_ARM11 * (trunc_div v per_second)) mod 2 ^ 64)
      else to_s64 (((BASE_CLOCK_RATE_ARM11 * v) mod 2 ^ 64) div per_second))"

definition nsToCycles :: "int \<Rightarrow> int" where
  "nsToCycles ns = units_to_cycles 1000000000 ns"

text \<open>\<open>nsToCycles(u64)\<close> checks the unsigned value, then computes with the signed one.\<close>

definition nsToCycles_u64 :: "int \<Rightarrow> int" where
  "nsToCycles_u64 ns =
     (if ns div 1000000000 > MAX_VALUE_TO_MULTIPLY then 9223372036854775807
      else if ns > MAX_VALUE_TO_MULTIPLY
           then to_s64 ((BASE_CLOCK_RATE_ARM11 * trunc_div (to_s64 ns) 1000000000) mod 2 ^ 64)
      else to_s64 (((BASE_CLOCK_RATE_ARM11 * to_s64 ns) mod 2 ^ 64) div 1000000000))"

definition usToCycles :: "int \<Rightarrow> int" where
  "usToCycles us = units_to_cycles 1000000 us"

section \<open>State\<close>

record 'e event =
  ev_time :: int
  fifo_order :: nat
  user_data :: nat
  ev_type :: 'e

text \<open>
  \<open>clock_scale\<close> is the function from ticks to \<open>static_cast<u64>(ticks * cpu_clock_scale)\<close>, the
  truncated product with the host's \<open>double\<close>.
\<close>

record 'e timer =
  event_queue :: "'e event list"
  event_fifo_id :: nat
  ts_queue :: "'e event list"
  is_timer_sane :: bool
  slice_length :: int
  downcount :: int
  executed_ticks :: int
  idled_cycles :: int
  clock_scale :: "nat \<Rightarrow> nat"

record 'e timing =
  timers :: "'e timer list"
  current_timer :: nat
  event_queue_locked :: bool

definition new_timer :: "int \<Rightarrow> 'e timer" where
  "new_timer base_ticks =
     \<lparr>event_queue = [], event_fifo_id = 0, ts_queue = [], is_timer_sane = True,
      slice_length = MAX_SLICE_LENGTH, downcount = MAX_SLICE_LENGTH, executed_ticks = base_ticks,
      idled_cycles = 0, clock_scale = (\<lambda>t. t)\<rparr>"

text \<open>\<open>cpu_clock_scale = 100.0 / cpu_clock_percentage\<close> for every timer.\<close>

definition UpdateClockSpeed :: "(nat \<Rightarrow> nat) \<Rightarrow> 'e timing \<Rightarrow> 'e timing" where
  "UpdateClockSpeed scale tm = tm\<lparr>timers := map (\<lambda>t. t\<lparr>clock_scale := scale\<rparr>) (timers tm)\<rparr>"

definition new_timing :: "nat \<Rightarrow> (nat \<Rightarrow> nat) \<Rightarrow> int \<Rightarrow> 'e timing" where
  "new_timing num_cores scale base_ticks =
     UpdateClockSpeed scale
       \<lparr>timers = replicate num_cores (new_timer base_ticks), current_timer = 0,
        event_queue_locked = False\<rparr>"

section \<open>The event order and the heap\<close>

text \<open>\<open>Event::operator<\<close>: by time, then by the order of insertion.\<close>

definition event_less :: "'e event \<Rightarrow> 'e event \<Rightarrow> bool" where
  "event_less a b \<longleftrightarrow>
     ev_time a < ev_time b \<or> ev_time a = ev_time b \<and> fifo_order a < fifo_order b"

fun heap_push :: "'e event \<Rightarrow> 'e event list \<Rightarrow> 'e event list" where
  "heap_push e [] = [e]"
| "heap_push e (x # xs) = (if event_less e x then e # x # xs else x # heap_push e xs)"

section \<open>Timer operations\<close>

definition timer_ticks :: "'e timer \<Rightarrow> int" where
  "timer_ticks t =
     (executed_ticks t + (if is_timer_sane t then 0 else slice_length t - downcount t)) mod 2 ^ 64"

definition AddTicks :: "nat \<Rightarrow> 'e timer \<Rightarrow> 'e timer" where
  "AddTicks ticks t = t\<lparr>downcount := to_s64 (downcount t - int (clock_scale t ticks))\<rparr>"

definition ForceExceptionCheck :: "int \<Rightarrow> 'e timer \<Rightarrow> 'e timer" where
  "ForceExceptionCheck cycles t =
     (let cycles = max 0 cycles in
      if downcount t > cycles
      then t\<lparr>slice_length := slice_length t - (downcount t - cycles), downcount := cycles\<rparr>
      else t)"

definition enqueue :: "int \<Rightarrow> nat \<Rightarrow> 'e \<Rightarrow> 'e timer \<Rightarrow> 'e timer" where
  "enqueue time data ty t =
     t\<lparr>event_queue := heap_push \<lparr>ev_time = time, fifo_order = event_fifo_id t, user_data = data, ev_type = ty\<rparr>
         (event_queue t),
       event_fifo_id := event_fifo_id t + 1\<rparr>"

fun move_events :: "'e event list \<Rightarrow> 'e timer \<Rightarrow> 'e timer" where
  "move_events [] t = t"
| "move_events (e # es) t = move_events es (enqueue (ev_time e) (user_data e) (ev_type e) t)"

definition MoveEvents :: "'e timer \<Rightarrow> 'e timer" where
  "MoveEvents t = move_events (ts_queue t) (t\<lparr>ts_queue := []\<rparr>)"

definition GetMaxSliceLength :: "'e timer \<Rightarrow> int option" where
  "GetMaxSliceLength t =
     (case event_queue t of
        [] \<Rightarrow> Some MAX_SLICE_LENGTH
      | e # _ \<Rightarrow> do {
          assertion (ev_time e - executed_ticks t > 0);
          Some (ev_time e - executed_ticks t) })"

text \<open>The part of \<open>Advance\<close> before its loop.\<close>

definition advance_begin :: "'e timer \<Rightarrow> 'e timer" where
  "advance_begin t =
     (let t = MoveEvents t in
      t\<lparr>idled_cycles := 0, executed_ticks := executed_ticks t + (slice_length t - downcount t),
        slice_length := 0, downcount := 0, is_timer_sane := True\<rparr>)"

text \<open>
  The loop of \<open>Advance\<close>: \<open>get\<close> and \<open>put\<close> access the timer in the state \<open>'s\<close>, \<open>callback\<close> is
  \<open>evt.type->callback(evt.user_data, cycles_late)\<close> with \<open>cycles_late\<close> cut to \<open>int\<close>.
\<close>

partial_function (option) advance_loop ::
  "('s \<Rightarrow> 'e timer) \<Rightarrow> ('e timer \<Rightarrow> 's \<Rightarrow> 's) \<Rightarrow> ('e \<Rightarrow> nat \<Rightarrow> int \<Rightarrow> 's \<Rightarrow> 's option) \<Rightarrow> 's \<Rightarrow> 's option" where
  "advance_loop get put callback s =
     (case event_queue (get s) of
        [] \<Rightarrow> Some s
      | evt # rest \<Rightarrow>
          if ev_time evt \<le> executed_ticks (get s)
          then Option.bind
                 (callback (ev_type evt) (user_data evt)
                    (to_s32 (executed_ticks (get s) - ev_time evt))
                    (put ((get s)\<lparr>event_queue := rest\<rparr>) s))
                 (advance_loop get put callback)
          else Some s)"

definition Advance ::
  "('s \<Rightarrow> 'e timer) \<Rightarrow> ('e timer \<Rightarrow> 's \<Rightarrow> 's) \<Rightarrow> ('e \<Rightarrow> nat \<Rightarrow> int \<Rightarrow> 's \<Rightarrow> 's option) \<Rightarrow> 's \<Rightarrow> 's option" where
  "Advance get put callback s = do {
     s \<leftarrow> advance_loop get put callback (put (advance_begin (get s)) s);
     Some (put ((get s)\<lparr>is_timer_sane := False\<rparr>) s) }"

definition SetNextSlice :: "int \<Rightarrow> 'e timer \<Rightarrow> 'e timer" where
  "SetNextSlice max_slice_length t =
     (let slice = (case event_queue t of
                     [] \<Rightarrow> max_slice_length
                   | e # _ \<Rightarrow> to_s32 (min (ev_time e - executed_ticks t) max_slice_length))
      in t\<lparr>slice_length := slice, downcount := slice\<rparr>)"

definition Idle :: "'e timer \<Rightarrow> 'e timer" where
  "Idle t = t\<lparr>idled_cycles := idled_cycles t + downcount t, downcount := 0\<rparr>"

section \<open>Scheduling through Timing\<close>

text \<open>
  The default core argument (\<open>size_t\<close> max) means the current timer: \<open>None\<close> here. In thread-safe
  mode, and for the timer of another core, the event goes to \<open>ts_queue\<close> with order 0.
\<close>

definition push_ts :: "int \<Rightarrow> nat \<Rightarrow> 'e \<Rightarrow> 'e timer \<Rightarrow> 'e timer" where
  "push_ts cycles data ty t =
     t\<lparr>ts_queue := ts_queue t @ [\<lparr>ev_time = to_s64 (timer_ticks t + cycles), fifo_order = 0,
                                   user_data = data, ev_type = ty\<rparr>]\<rparr>"

definition schedule_here :: "int \<Rightarrow> nat \<Rightarrow> 'e \<Rightarrow> 'e timer \<Rightarrow> 'e timer" where
  "schedule_here cycles data ty t =
     (let timeout = to_s64 (timer_ticks t + cycles);
          t = (if is_timer_sane t then t else ForceExceptionCheck cycles t)
      in enqueue timeout data ty t)"

definition ScheduleEvent ::
  "int \<Rightarrow> 'e \<Rightarrow> nat \<Rightarrow> nat option \<Rightarrow> bool \<Rightarrow> 'e timing \<Rightarrow> 'e timing option" where
  "ScheduleEvent cycles ty data core_id thread_safe_mode tm =
     (if event_queue_locked tm then Some tm
      else do {
        let i = (case core_id of None \<Rightarrow> current_timer tm | Some c \<Rightarrow> c);
        assertion (i < length (timers tm));
        Some (tm\<lparr>timers := (timers tm)[i :=
          (if thread_safe_mode
           then push_ts (max (MAX_SLICE_LENGTH * 2) cycles) data ty (timers tm ! i)
           else if current_timer tm = i
           then schedule_here cycles data ty (timers tm ! i)
           else push_ts cycles data ty (timers tm ! i))]\<rparr>) })"

definition UnscheduleEvent :: "'e \<Rightarrow> nat \<Rightarrow> 'e timing \<Rightarrow> 'e timing" where
  "UnscheduleEvent ty data tm =
     (if event_queue_locked tm then tm
      else tm\<lparr>timers := map (\<lambda>t. t\<lparr>event_queue :=
             filter (\<lambda>e. \<not> (ev_type e = ty \<and> user_data e = data)) (event_queue t)\<rparr>) (timers tm)\<rparr>)"

definition RemoveEvent :: "'e \<Rightarrow> 'e timing \<Rightarrow> 'e timing" where
  "RemoveEvent ty tm =
     (if event_queue_locked tm then tm
      else tm\<lparr>timers := map (\<lambda>t. t\<lparr>event_queue :=
             filter (\<lambda>e. ev_type e \<noteq> ty) (event_queue t)\<rparr>) (timers tm)\<rparr>)"

definition SetCurrentTimer :: "nat \<Rightarrow> 'e timing \<Rightarrow> 'e timing" where
  "SetCurrentTimer core_id tm = tm\<lparr>current_timer := core_id\<rparr>"

definition GetTicks :: "'e timing \<Rightarrow> int" where
  "GetTicks tm = to_s64 (timer_ticks (timers tm ! current_timer tm))"

definition GetGlobalTicks :: "'e timing \<Rightarrow> int" where
  "GetGlobalTicks tm = to_s64 (Max (set (map timer_ticks (timers tm))))"

text \<open>\<open>GetGlobalTicks() * 1000000 / BASE_CLOCK_RATE_ARM11\<close>: the divisor is unsigned.\<close>

definition GetGlobalTimeUs :: "'e timing \<Rightarrow> int" where
  "GetGlobalTimeUs tm =
     to_s64 (((GetGlobalTicks tm * 1000000) mod 2 ^ 64) div BASE_CLOCK_RATE_ARM11)"

section \<open>Invariant of a timer\<close>

text \<open>The queue is in heap order and every entry is older than the next insertion number.\<close>

definition timer_inv :: "'e timer \<Rightarrow> bool" where
  "timer_inv t \<longleftrightarrow>
     sorted_wrt event_less (event_queue t) \<and> (\<forall>e \<in> set (event_queue t). fifo_order e < event_fifo_id t)"

lemma timer_inv_cong:
  "event_queue t = event_queue u \<Longrightarrow> event_fifo_id t = event_fifo_id u \<Longrightarrow>
   timer_inv t \<longleftrightarrow> timer_inv u"
  by (simp add: timer_inv_def)

lemma set_heap_push [simp]: "set (heap_push e es) = insert e (set es)"
  by (induction es) auto

lemma event_less_trans: "event_less a b \<Longrightarrow> event_less b c \<Longrightarrow> event_less a c"
  by (auto simp: event_less_def)

lemma heap_push_sorted:
  assumes "sorted_wrt event_less es" "\<And>x. x \<in> set es \<Longrightarrow> fifo_order x < fifo_order e"
  shows "sorted_wrt event_less (heap_push e es)"
  using assms
proof (induction es)
  case Nil
  then show ?case by simp
next
  case (Cons x xs)
  show ?case
  proof (cases "event_less e x")
    case True
    with Cons.prems show ?thesis by (auto intro: event_less_trans)
  next
    case False
    moreover have "fifo_order x < fifo_order e"
      using Cons.prems by simp
    ultimately have "event_less x e"
      by (auto simp: event_less_def)
    with False Cons show ?thesis by auto
  qed
qed

lemma enqueue_inv: "timer_inv t \<Longrightarrow> timer_inv (enqueue time data ty t)"
  by (auto simp: timer_inv_def enqueue_def less_Suc_eq intro!: heap_push_sorted)

lemma enqueue_simps [simp]:
  "executed_ticks (enqueue time data ty t) = executed_ticks t"
  "ts_queue (enqueue time data ty t) = ts_queue t"
  "is_timer_sane (enqueue time data ty t) = is_timer_sane t"
  "slice_length (enqueue time data ty t) = slice_length t"
  "downcount (enqueue time data ty t) = downcount t"
  "timer_ticks (enqueue time data ty t) = timer_ticks t"
  by (simp_all add: enqueue_def timer_ticks_def)

lemma enqueue_queue:
  "event_queue (enqueue time data ty t) =
     heap_push \<lparr>ev_time = time, fifo_order = event_fifo_id t, user_data = data, ev_type = ty\<rparr>
       (event_queue t)"
  by (simp add: enqueue_def)

lemma move_events_keeps:
  "executed_ticks (move_events es t) = executed_ticks t"
  "slice_length (move_events es t) = slice_length t"
  "downcount (move_events es t) = downcount t"
  "is_timer_sane (move_events es t) = is_timer_sane t"
  "ts_queue (move_events es t) = ts_queue t"
  by (induction es arbitrary: t) simp_all

lemma move_events_inv: "timer_inv t \<Longrightarrow> timer_inv (move_events es t)"
  by (induction es arbitrary: t) (simp_all add: enqueue_inv)

lemma MoveEvents_inv: "timer_inv t \<Longrightarrow> timer_inv (MoveEvents t)"
  by (simp add: MoveEvents_def move_events_inv timer_inv_cong [of "t\<lparr>ts_queue := []\<rparr>" t])

lemma advance_begin_inv: "timer_inv t \<Longrightarrow> timer_inv (advance_begin t)"
  using MoveEvents_inv [of t] by (simp add: advance_begin_def Let_def timer_inv_def)

lemma advance_begin_keeps:
  "executed_ticks (advance_begin t) = executed_ticks t + (slice_length t - downcount t)"
  "downcount (advance_begin t) = 0" "slice_length (advance_begin t) = 0"
  "is_timer_sane (advance_begin t)" "ts_queue (advance_begin t) = []"
  by (simp_all add: advance_begin_def MoveEvents_def move_events_keeps Let_def)

lemma ForceExceptionCheck_keeps:
  "event_queue (ForceExceptionCheck c t) = event_queue t"
  "event_fifo_id (ForceExceptionCheck c t) = event_fifo_id t"
  "executed_ticks (ForceExceptionCheck c t) = executed_ticks t"
  "is_timer_sane (ForceExceptionCheck c t) = is_timer_sane t"
  "timer_ticks (ForceExceptionCheck c t) = timer_ticks t"
  by (simp_all add: ForceExceptionCheck_def Let_def timer_ticks_def)

lemma ForceExceptionCheck_downcount:
  "downcount (ForceExceptionCheck c t) = min (downcount t) (max 0 c)"
  by (auto simp: ForceExceptionCheck_def Let_def)

lemma ForceExceptionCheck_inv: "timer_inv t \<Longrightarrow> timer_inv (ForceExceptionCheck c t)"
  by (simp add: timer_inv_def ForceExceptionCheck_keeps)

lemma schedule_here_inv: "timer_inv t \<Longrightarrow> timer_inv (schedule_here cycles data ty t)"
  by (simp add: schedule_here_def Let_def enqueue_inv ForceExceptionCheck_inv)

lemma push_ts_inv: "timer_inv t \<Longrightarrow> timer_inv (push_ts cycles data ty t)"
  by (simp add: push_ts_def timer_inv_def)

definition timing_inv :: "'e timing \<Rightarrow> bool" where
  "timing_inv tm \<longleftrightarrow> current_timer tm < length (timers tm) \<and> (\<forall>t \<in> set (timers tm). timer_inv t)"

lemma timing_invD: "timing_inv tm \<Longrightarrow> i < length (timers tm) \<Longrightarrow> timer_inv (timers tm ! i)"
  by (simp add: timing_inv_def)

lemma timing_inv_update:
  "timing_inv tm \<Longrightarrow> timer_inv t \<Longrightarrow> timing_inv (tm\<lparr>timers := (timers tm)[i := t]\<rparr>)"
  by (auto simp: timing_inv_def dest: set_update_subset_insert [THEN subsetD])

lemma timer_inv_new [simp]: "timer_inv (new_timer b)"
  by (simp add: timer_inv_def new_timer_def)

lemma timer_inv_filter:
  "timer_inv t \<Longrightarrow> timer_inv (t\<lparr>event_queue := filter P (event_queue t)\<rparr>)"
  by (simp add: timer_inv_def sorted_wrt_filter)

lemma ScheduleEvent_cases:
  assumes "ScheduleEvent cycles ty data core_id ts tm = Some tm'"
  obtains "event_queue_locked tm" "tm' = tm"
  | i t where "\<not> event_queue_locked tm" "i = (case core_id of None \<Rightarrow> current_timer tm | Some c \<Rightarrow> c)"
      "i < length (timers tm)" "tm' = tm\<lparr>timers := (timers tm)[i := t]\<rparr>"
      "t = (if ts then push_ts (max (MAX_SLICE_LENGTH * 2) cycles) data ty (timers tm ! i)
            else if current_timer tm = i then schedule_here cycles data ty (timers tm ! i)
            else push_ts cycles data ty (timers tm ! i))"
  using assms that by (auto simp: ScheduleEvent_def Let_def split: if_splits)

lemma ScheduleEvent_inv:
  assumes "timing_inv tm" "ScheduleEvent cycles ty data core_id ts tm = Some tm'"
  shows "timing_inv tm'"
  using assms(2)
proof (cases rule: ScheduleEvent_cases)
  case 1
  with assms(1) show ?thesis by simp
next
  case (2 i t)
  have "timer_inv t"
    using timing_invD [OF assms(1) 2(3)] by (simp add: 2(5) push_ts_inv schedule_here_inv)
  with 2 assms(1) show ?thesis by (simp add: timing_inv_update)
qed

lemma ScheduleEvent_returns:
  assumes "timing_inv tm"
  shows "\<exists>tm'. ScheduleEvent cycles ty data None ts tm = Some tm'"
  using assms by (simp add: ScheduleEvent_def timing_inv_def Let_def)

lemma UnscheduleEvent_inv: "timing_inv tm \<Longrightarrow> timing_inv (UnscheduleEvent ty data tm)"
  by (auto simp: UnscheduleEvent_def timing_inv_def intro: timer_inv_filter)

lemma RemoveEvent_inv: "timing_inv tm \<Longrightarrow> timing_inv (RemoveEvent ty tm)"
  by (auto simp: RemoveEvent_def timing_inv_def intro: timer_inv_filter)

section \<open>The Advance loop\<close>

text \<open>How much due work a queue holds: every due event counts its lateness and one more.\<close>

definition due_weight :: "'e timer \<Rightarrow> nat" where
  "due_weight t = sum_list (map (\<lambda>e. nat (executed_ticks t + 1 - ev_time e)) (event_queue t))"

definition no_due_event :: "'e timer \<Rightarrow> bool" where
  "no_due_event t \<longleftrightarrow> (\<forall>e \<in> set (event_queue t). executed_ticks t < ev_time e)"

lemma sorted_head_least:
  "sorted_wrt event_less (e # es) \<Longrightarrow> x \<in> set es \<Longrightarrow> ev_time e \<le> ev_time x"
  by (auto simp: event_less_def)

lemma head_not_due:
  assumes "timer_inv t" "event_queue t = e # es" "executed_ticks t < ev_time e"
  shows "no_due_event t"
  using assms by (auto simp: timer_inv_def no_due_event_def event_less_def)

lemma due_weight_heap_push:
  "sum_list (map f (heap_push e es)) = f e + (sum_list (map f es) :: nat)"
  by (induction es) simp_all

lemma due_weight_enqueue:
  "due_weight (enqueue time data ty t) = nat (executed_ticks t + 1 - time) + due_weight t"
  by (simp add: due_weight_def enqueue_queue due_weight_heap_push)

lemma due_weight_filter: "sum_list (map f (filter P es)) \<le> (sum_list (map f es) :: nat)"
  by (induction es) auto

text \<open>
  What the loop needs from the callbacks: they return, they leave the clock alone, and the events
  they put into the queue are later than the one that fired.
\<close>

locale event_callbacks =
  fixes get :: "'s \<Rightarrow> 'e timer" and put :: "'e timer \<Rightarrow> 's \<Rightarrow> 's"
    and callback :: "'e \<Rightarrow> nat \<Rightarrow> int \<Rightarrow> 's \<Rightarrow> 's option" and good :: "'s \<Rightarrow> bool"
  assumes get_put: "good s \<Longrightarrow> get (put t s) = t"
    and good_put_sane: "good s \<Longrightarrow> good (put ((get s)\<lparr>is_timer_sane := False\<rparr>) s)"
    and good_timer: "good s \<Longrightarrow> timer_inv (get s)"
    and callback_step: "good s \<Longrightarrow> event_queue (get s) = e # rest \<Longrightarrow>
      ev_time e \<le> executed_ticks (get s) \<Longrightarrow>
      \<exists>s'. callback (ev_type e) (user_data e) (to_s32 (executed_ticks (get s) - ev_time e))
             (put ((get s)\<lparr>event_queue := rest\<rparr>) s) = Some s' \<and>
           good s' \<and> executed_ticks (get s') = executed_ticks (get s) \<and>
           due_weight (get s') < due_weight (get s)"
begin

lemma advance_loop_total:
  "good s \<Longrightarrow> \<exists>s'. advance_loop get put callback s = Some s' \<and> good s' \<and>
     executed_ticks (get s') = executed_ticks (get s) \<and> no_due_event (get s')"
proof (induction "due_weight (get s)" arbitrary: s rule: less_induct)
  case less
  show ?case
  proof (cases "event_queue (get s)")
    case Nil
    then show ?thesis
      using less.prems by (subst advance_loop.simps) (simp add: no_due_event_def)
  next
    case (Cons e rest)
    show ?thesis
    proof (cases "ev_time e \<le> executed_ticks (get s)")
      case True
      from callback_step [OF less.prems Cons True] obtain s1
        where s1: "callback (ev_type e) (user_data e) (to_s32 (executed_ticks (get s) - ev_time e))
             (put ((get s)\<lparr>event_queue := rest\<rparr>) s) = Some s1"
          "good s1" "executed_ticks (get s1) = executed_ticks (get s)"
          "due_weight (get s1) < due_weight (get s)"
        by auto
      from less.hyps [OF s1(4) s1(2)] s1(1,3) Cons True show ?thesis
        by (subst advance_loop.simps) simp
    next
      case False
      then have "executed_ticks (get s) < ev_time e"
        by simp
      with head_not_due [OF good_timer [OF less.prems] Cons] Cons less.prems show ?thesis
        by (subst advance_loop.simps) simp
    qed
  qed
qed

lemma Advance_total:
  assumes "good (put (advance_begin (get s)) s)" "get (put (advance_begin (get s)) s) = advance_begin (get s)"
  shows "\<exists>s'. Advance get put callback s = Some s' \<and> good s' \<and>
     executed_ticks (get s') = executed_ticks (get s) + (slice_length (get s) - downcount (get s)) \<and>
     \<not> is_timer_sane (get s') \<and> no_due_event (get s')"
proof -
  from advance_loop_total [OF assms(1)] obtain s1
    where s1: "advance_loop get put callback (put (advance_begin (get s)) s) = Some s1" "good s1"
      "executed_ticks (get s1) = executed_ticks (get s) + (slice_length (get s) - downcount (get s))"
      "no_due_event (get s1)"
    by (auto simp: assms(2) advance_begin_keeps)
  with good_put_sane [OF s1(2)] get_put [OF s1(2)] show ?thesis
    by (simp add: Advance_def no_due_event_def)
qed

end

text \<open>
  When the callbacks do not touch the timer, the loop is a plain iteration over the due events, in
  the order of the queue.
\<close>

lemma advance_loop_quiet:
  assumes gp: "\<And>t s. get (put t s) = t"
    and quiet: "\<And>ty d l s s'. callback ty d l s = Some s' \<Longrightarrow> get s' = get s"
    and now: "executed_ticks (get s) = now"
  shows "advance_loop get put callback s =
    for_each (\<lambda>e s. callback (ev_type e) (user_data e) (to_s32 (now - ev_time e))
        (put ((get s)\<lparr>event_queue := tl (event_queue (get s))\<rparr>) s))
      (takeWhile (\<lambda>e. ev_time e \<le> now) (event_queue (get s))) s"
  using now
proof (induction "event_queue (get s)" arbitrary: s)
  case Nil
  then show ?case by (subst advance_loop.simps) (simp flip: Nil.hyps)
next
  case (Cons e es)
  show ?case
  proof (cases "ev_time e \<le> now")
    case True
    have q: "event_queue (get s) = e # es"
      using Cons.hyps(2) by simp
    show ?thesis
    proof (cases "callback (ev_type e) (user_data e) (to_s32 (now - ev_time e))
        (put ((get s)\<lparr>event_queue := es\<rparr>) s)")
      case None
      with q True Cons.prems show ?thesis
        by (subst advance_loop.simps) simp
    next
      case (Some s1)
      then have g: "get s1 = (get s)\<lparr>event_queue := es\<rparr>"
        using quiet [OF Some] by (simp add: gp)
      with Cons.prems have "executed_ticks (get s1) = now" "es = event_queue (get s1)"
        by simp_all
      from Cons.hyps(1) [OF this(2,1)] g q True Cons.prems Some show ?thesis
        by (subst advance_loop.simps) simp
    qed
  next
    case False
    with Cons.prems show ?thesis
      by (subst advance_loop.simps) (simp flip: Cons.hyps(2))
  qed
qed

text \<open>The prefix that \<open>takeWhile\<close> selects is the set of due events, because the queue is sorted.\<close>

lemma due_prefix:
  assumes "sorted_wrt event_less es"
  shows "takeWhile (\<lambda>e. ev_time e \<le> now) es = filter (\<lambda>e. ev_time e \<le> now) es"
  using assms
proof (induction es)
  case Nil
  then show ?case by simp
next
  case (Cons e es)
  show ?case
  proof (cases "ev_time e \<le> now")
    case True
    with Cons show ?thesis by simp
  next
    case False
    with Cons.prems have "filter (\<lambda>e. ev_time e \<le> now) es = []"
      by (auto simp: filter_empty_conv event_less_def)
    with False show ?thesis by simp
  qed
qed

lemma due_suffix:
  assumes "sorted_wrt event_less es"
  shows "dropWhile (\<lambda>e. ev_time e \<le> now) es = filter (\<lambda>e. now < ev_time e) es"
  using assms
proof (induction es)
  case Nil
  then show ?case by simp
next
  case (Cons e es)
  show ?case
  proof (cases "ev_time e \<le> now")
    case True
    with Cons show ?thesis by simp
  next
    case False
    with Cons.prems have "filter (\<lambda>e. now < ev_time e) es = es"
      by (auto simp: filter_id_conv event_less_def)
    with False show ?thesis by simp
  qed
qed

text \<open>A client that records what the loop runs.\<close>

definition with_timer :: "'e timer \<Rightarrow> 'e timer \<times> 'l \<Rightarrow> 'e timer \<times> 'l" where
  "with_timer t s = (t, snd s)"

definition log_event ::
  "'e \<Rightarrow> nat \<Rightarrow> int \<Rightarrow> 'e timer \<times> ('e \<times> nat \<times> int) list \<Rightarrow> ('e timer \<times> ('e \<times> nat \<times> int) list) option" where
  "log_event ty data late s = Some (fst s, snd s @ [(ty, data, late)])"

definition log_entry :: "int \<Rightarrow> 'e event \<Rightarrow> 'e \<times> nat \<times> int" where
  "log_entry now e = (ev_type e, user_data e, to_s32 (now - ev_time e))"

lemma log_loop:
  "for_each (\<lambda>e s. log_event (ev_type e) (user_data e) (to_s32 (now - ev_time e))
       (with_timer ((fst s)\<lparr>event_queue := tl (event_queue (fst s))\<rparr>) s)) es (t, log) =
   Some (t\<lparr>event_queue := drop (length es) (event_queue t)\<rparr>, log @ map (log_entry now) es)"
  by (induction es arbitrary: t log) (simp_all add: drop_Suc log_event_def with_timer_def log_entry_def)

lemma advance_loop_log:
  assumes "executed_ticks t = now"
  shows "advance_loop fst with_timer log_event (t, log) =
    Some (t\<lparr>event_queue := drop (length (takeWhile (\<lambda>e. ev_time e \<le> now) (event_queue t))) (event_queue t)\<rparr>,
      log @ map (log_entry now) (takeWhile (\<lambda>e. ev_time e \<le> now) (event_queue t)))"
  using advance_loop_quiet [of fst with_timer log_event "(t, log)" now] assms
  by (simp add: log_loop) (simp add: with_timer_def log_event_def)

section \<open>Unit conversion\<close>

lemma MAX_VALUE_TO_MULTIPLY_eq: "MAX_VALUE_TO_MULTIPLY = 34401209161"
  by (simp add: MAX_VALUE_TO_MULTIPLY_def BASE_CLOCK_RATE_ARM11_def)

lemma div_le_self: "0 \<le> v \<Longrightarrow> 1 \<le> k \<Longrightarrow> v div k \<le> (v :: int)"
  using zdiv_mono2 [of v 1 k] by simp

lemma nsToCycles_small:
  assumes "0 \<le> v" "v \<le> MAX_VALUE_TO_MULTIPLY"
  shows "nsToCycles v = BASE_CLOCK_RATE_ARM11 * v div 1000000000"
proof -
  have "v div 1000000000 \<le> v" "268111856 * v \<le> 9223372036854775807"
    using assms div_le_self [of v 1000000000] by (simp_all add: MAX_VALUE_TO_MULTIPLY_eq)
  moreover from this assms have "268111856 * v div 1000000000 \<le> 9223372036854775807"
    using div_le_self [of "268111856 * v" 1000000000] by simp
  ultimately show ?thesis
    using assms
    by (auto simp: nsToCycles_def units_to_cycles_def trunc_div_def BASE_CLOCK_RATE_ARM11_def sgn_if)
qed

lemma nsToCycles_large:
  assumes "MAX_VALUE_TO_MULTIPLY < v" "v < 2 ^ 63"
  shows "nsToCycles v = BASE_CLOCK_RATE_ARM11 * (v div 1000000000)"
proof -
  have "0 \<le> v div 1000000000" "v div 1000000000 \<le> 9223372036"
    using assms by (simp_all add: MAX_VALUE_TO_MULTIPLY_eq pos_imp_zdiv_nonneg_iff)
  then show ?thesis
    using assms
    by (auto simp: nsToCycles_def units_to_cycles_def trunc_div_def MAX_VALUE_TO_MULTIPLY_eq
        BASE_CLOCK_RATE_ARM11_def sgn_if)
qed

section \<open>Properties\<close>

text \<open>On any delay that is not negative, \<open>nsToCycles\<close> never exceeds the exact number of ARM11
  cycles and never wraps; it is the exact quotient rounded down while the product fits in 63 bits,
  and above that it loses at most one second's worth of cycles.
\<close>

lemma nsToCycles_correct:
  assumes "0 \<le> ns" "ns < 2 ^ 63"
  shows "0 \<le> nsToCycles ns \<and> nsToCycles ns \<le> 268111856 * ns div 1000000000 \<and>
    268111856 * ns div 1000000000 \<le> nsToCycles ns + (if ns \<le> 34401209161 then 0 else 268111856)"
proof (cases "ns \<le> MAX_VALUE_TO_MULTIPLY")
  case True
  with assms show ?thesis
    by (simp add: nsToCycles_small MAX_VALUE_TO_MULTIPLY_eq BASE_CLOCK_RATE_ARM11_def
        pos_imp_zdiv_nonneg_iff)
next
  case False
  define q r where "q = ns div 1000000000" and "r = ns mod 1000000000"
  have ns: "ns = 1000000000 * q + r" "0 \<le> r" "r < 1000000000" "0 \<le> q"
    using assms by (simp_all add: q_def r_def pos_imp_zdiv_nonneg_iff)
  have "268111856 * ns div 1000000000 = 268111856 * q + 268111856 * r div 1000000000"
  proof -
    have "268111856 * ns = 1000000000 * (268111856 * q) + 268111856 * r"
      by (simp add: ns(1) algebra_simps)
    then show ?thesis by simp
  qed
  moreover have "0 \<le> 268111856 * r div 1000000000" "268111856 * r div 1000000000 \<le> 268111856"
    using ns by (simp_all add: pos_imp_zdiv_nonneg_iff)
  moreover have "nsToCycles ns = 268111856 * q"
    using False assms nsToCycles_large [of ns] by (simp add: q_def BASE_CLOCK_RATE_ARM11_def)
  ultimately show ?thesis
    using False ns by (simp add: MAX_VALUE_TO_MULTIPLY_eq)
qed

lemma nsToCycles_correct_witness:
  "0 \<le> nsToCycles 1000000 \<and> nsToCycles 1000000 \<le> 268111 \<and> 268111 \<le> nsToCycles 1000000"
  using nsToCycles_correct [of 1000000] by simp

text \<open>The conversion of a negative delay comes out as an enormous positive one, because the
  multiplication is done in \<open>u64\<close>: a delay of \<open>-1\<close> ns or less, down to -34 s, becomes at least
  \<open>2^63 / 10^9\<close> cycles (34 s), never a delay in the past.
\<close>

lemma nsToCycles_negative:
  assumes "- 34401209161 \<le> ns" "ns < 0"
  shows "9223372036 \<le> nsToCycles ns \<and> nsToCycles ns \<le> 18446744073"
proof -
  define p where "p = 268111856 * (- ns)"
  have p: "0 < p" "p \<le> 9223372036854775808"
    using assms by (simp_all add: p_def)
  have m: "(268111856 * ns) mod 18446744073709551616 = 18446744073709551616 - p"
  proof -
    have "268111856 * ns = (18446744073709551616 - p) + 18446744073709551616 * (-1)"
      by (simp add: p_def)
    also have "\<dots> mod 18446744073709551616 = (18446744073709551616 - p) mod 18446744073709551616"
      by (rule mod_mult_self2)
    also have "\<dots> = 18446744073709551616 - p"
      by (rule mod_pos_pos_trivial) (use p in auto)
    finally show ?thesis .
  qed
  have "9223372036 \<le> (18446744073709551616 - p) div 1000000000"
    "(18446744073709551616 - p) div 1000000000 \<le> 18446744073"
    using p by auto
  moreover have "trunc_div ns 1000000000 \<le> 0"
    using assms(2) by (auto simp: trunc_div_def sgn_if pos_imp_zdiv_nonneg_iff)
  ultimately show ?thesis
    using assms
    by (simp add: nsToCycles_def units_to_cycles_def MAX_VALUE_TO_MULTIPLY_eq m BASE_CLOCK_RATE_ARM11_def)
qed

lemma nsToCycles_negative_witness: "9223372036 \<le> nsToCycles (- 2) \<and> nsToCycles (- 2) \<le> 18446744073"
  using nsToCycles_negative [of "- 2"] by simp

text \<open>Scheduling an event on the timer that is running keeps the queue in heap order, adds exactly
  that event (at now plus the delay, behind every event of the same time), does not change the
  clock, and cuts the slice that is executing so that it ends no later than the event.
\<close>

lemma ScheduleEvent_running_timer:
  assumes "timing_inv tm" "\<not> event_queue_locked tm"
    and t: "t = timers tm ! current_timer tm" and e: "e = \<lparr>ev_time = to_s64 (timer_ticks t + cycles),
      fifo_order = event_fifo_id t, user_data = data, ev_type = ty\<rparr>"
  shows "\<exists>t'. ScheduleEvent cycles ty data None False tm =
        Some (tm\<lparr>timers := (timers tm)[current_timer tm := t']\<rparr>) \<and>
      timer_inv t' \<and> mset (event_queue t') = add_mset e (mset (event_queue t)) \<and>
      (\<forall>x \<in> set (event_queue t). ev_time x = ev_time e \<longrightarrow> fifo_order x < fifo_order e) \<and>
      timer_ticks t' = timer_ticks t \<and>
      (\<not> is_timer_sane t \<longrightarrow> downcount t' = min (downcount t) (max 0 cycles))"
proof -
  have c: "current_timer tm < length (timers tm)"
    using assms(1) by (simp add: timing_inv_def)
  have inv: "timer_inv t"
    using timing_invD [OF assms(1) c] by (simp add: t)
  let ?t' = "schedule_here cycles data ty t"
  have "ScheduleEvent cycles ty data None False tm =
      Some (tm\<lparr>timers := (timers tm)[current_timer tm := ?t']\<rparr>)"
    using assms(2) c by (simp add: ScheduleEvent_def Let_def t)
  moreover have "timer_inv ?t'"
    using inv by (rule schedule_here_inv)
  moreover have "mset (heap_push x es) = add_mset x (mset es)" for x :: "'a event" and es
    by (induction es) auto
  then have "mset (event_queue ?t') = add_mset e (mset (event_queue t))"
    by (simp add: schedule_here_def enqueue_queue ForceExceptionCheck_keeps Let_def e)
  moreover have "timer_ticks ?t' = timer_ticks t"
    by (simp add: schedule_here_def ForceExceptionCheck_keeps Let_def)
  moreover have "\<not> is_timer_sane t \<longrightarrow> downcount ?t' = min (downcount t) (max 0 cycles)"
    by (simp add: schedule_here_def ForceExceptionCheck_downcount Let_def)
  ultimately show ?thesis
    using inv by (intro exI [of _ ?t']) (simp add: e timer_inv_def)
qed

lemma ScheduleEvent_running_timer_witness:
  "\<exists>t'. ScheduleEvent 500 (1 :: nat) 9 None False (new_timing 2 id 1000) =
        Some ((new_timing 2 id 1000)\<lparr>timers := (timers (new_timing 2 id 1000))[0 := t']\<rparr>) \<and>
      timer_inv t' \<and> timer_ticks t' = 1000"
proof -
  let ?tm = "new_timing 2 id 1000 :: nat timing"
  have inv: "timing_inv ?tm" "\<not> event_queue_locked ?tm" "current_timer ?tm = 0"
    "timer_ticks (timers ?tm ! 0) = 1000"
    by (auto simp: new_timing_def UpdateClockSpeed_def timing_inv_def timer_inv_def new_timer_def
        timer_ticks_def)
  from ScheduleEvent_running_timer [OF inv(1,2) refl refl, of 500 1 9] inv(3,4)
  show ?thesis by auto
qed



text \<open>After \<open>SetNextSlice\<close> with nothing due, the slice is positive, no longer than the maximum
  asked for, and ends no later than any queued event, so the core cannot run past one.
\<close>

lemma SetNextSlice_no_overrun:
  assumes "timer_inv t" "no_due_event t" "0 < max_slice" "max_slice < 2 ^ 31"
  shows "0 < slice_length (SetNextSlice max_slice t) \<and>
    slice_length (SetNextSlice max_slice t) \<le> max_slice \<and>
    downcount (SetNextSlice max_slice t) = slice_length (SetNextSlice max_slice t) \<and>
    (\<forall>e \<in> set (event_queue (SetNextSlice max_slice t)).
       executed_ticks t + slice_length (SetNextSlice max_slice t) \<le> ev_time e)"
proof (cases "event_queue t")
  case Nil
  with assms show ?thesis by (simp add: SetNextSlice_def Let_def)
next
  case (Cons e es)
  have "executed_ticks t < ev_time e"
    using assms(2) Cons by (simp add: no_due_event_def)
  moreover from this have "to_s32 (min (ev_time e - executed_ticks t) max_slice) =
      min (ev_time e - executed_ticks t) max_slice"
    using assms(3,4) by simp
  moreover have "\<forall>x \<in> set es. ev_time e \<le> ev_time x"
    using assms(1) Cons by (auto simp: timer_inv_def event_less_def)
  ultimately show ?thesis
    using assms Cons by (auto simp: SetNextSlice_def Let_def)
qed

lemma SetNextSlice_no_overrun_witness:
  "slice_length (SetNextSlice 1000 (enqueue 700 3 ''x'' (new_timer 200))) \<le> 500"
proof -
  let ?t = "enqueue 700 3 ''x'' (new_timer 200)"
  have t: "timer_inv ?t" "no_due_event ?t"
    by (auto simp: timer_inv_def no_due_event_def enqueue_def new_timer_def)
  have "\<exists>e \<in> set (event_queue (SetNextSlice 1000 ?t)). ev_time e = 700" "executed_ticks ?t = 200"
    by (simp_all add: SetNextSlice_def enqueue_def new_timer_def Let_def)
  with SetNextSlice_no_overrun [OF t, of 1000] show ?thesis by auto
qed

end
