(* ===== verification/Resource_Limit.thy ===== *)
theory Resource_Limit
  imports Prelude
begin

text \<open>
  The resource limits of \<open>core/hle/kernel/resource_limit.{h,cpp}\<close>: the four categories with their
  limit and current values, reservation and release (which count but do not refuse), and the choice
  of the application's share of core 1 from its extended header. Values are \<open>s32\<close>; a sum that leaves
  the range is undefined behaviour of the code and gives \<open>None\<close>, as does an index past the end of
  the arrays (the enumeration is not checked before it is used as an index).
\<close>

section \<open>State\<close>

datatype ResourceLimitCategory = Application | SysApplet | LibApplet | Other

datatype ResourceLimitType =
  RPriority | RCommit | RThread | REvent | RMutex | RSemaphore | RTimer | RSharedMemory |
  RAddressArbiter | RCpuTime

fun category_index :: "ResourceLimitCategory \<Rightarrow> nat" where
  "category_index Application = 0"
| "category_index SysApplet = 1"
| "category_index LibApplet = 2"
| "category_index Other = 3"

fun type_index :: "ResourceLimitType \<Rightarrow> nat" where
  "type_index RPriority = 0"
| "type_index RCommit = 1"
| "type_index RThread = 2"
| "type_index REvent = 3"
| "type_index RMutex = 4"
| "type_index RSemaphore = 5"
| "type_index RTimer = 6"
| "type_index RSharedMemory = 7"
| "type_index RAddressArbiter = 8"
| "type_index RCpuTime = 9"

record resource_limit =
  m_category :: ResourceLimitCategory
  m_limit_values :: "int list"
  m_current_values :: "int list"

definition Create :: "ResourceLimitCategory \<Rightarrow> resource_limit" where
  "Create category =
     \<lparr>m_category = category, m_limit_values = replicate 10 0, m_current_values = replicate 10 0\<rparr>"

section \<open>Operations\<close>

definition in_s32 :: "int \<Rightarrow> bool" where
  "in_s32 i \<longleftrightarrow> - 2147483648 \<le> i \<and> i < 2147483648"

definition GetCurrentValue :: "nat \<Rightarrow> resource_limit \<Rightarrow> int option" where
  "GetCurrentValue index r = do {
     assertion (index < length (m_current_values r));
     Some (m_current_values r ! index) }"

definition GetLimitValue :: "nat \<Rightarrow> resource_limit \<Rightarrow> int option" where
  "GetLimitValue index r = do {
     assertion (index < length (m_limit_values r));
     Some (m_limit_values r ! index) }"

definition SetCurrentValue :: "nat \<Rightarrow> int \<Rightarrow> resource_limit \<Rightarrow> resource_limit option" where
  "SetCurrentValue index value r = do {
     assertion (index < length (m_current_values r));
     Some (r\<lparr>m_current_values := (m_current_values r)[index := value]\<rparr>) }"

definition SetLimitValue :: "nat \<Rightarrow> int \<Rightarrow> resource_limit \<Rightarrow> resource_limit option" where
  "SetLimitValue index value r = do {
     assertion (index < length (m_limit_values r));
     Some (r\<lparr>m_limit_values := (m_limit_values r)[index := value]\<rparr>) }"

text \<open>\<open>Reserve\<close> and \<open>Release\<close> log when a limit is crossed; they count all the same and return true.\<close>

definition Reserve :: "nat \<Rightarrow> int \<Rightarrow> resource_limit \<Rightarrow> (resource_limit \<times> bool) option" where
  "Reserve index amount r = do {
     assertion (index < length (m_limit_values r) \<and> index < length (m_current_values r));
     let new_value = m_current_values r ! index + amount;
     assertion (in_s32 new_value);
     Some (r\<lparr>m_current_values := (m_current_values r)[index := new_value]\<rparr>, True) }"

definition Release :: "nat \<Rightarrow> int \<Rightarrow> resource_limit \<Rightarrow> (resource_limit \<times> bool) option" where
  "Release index amount r = do {
     assertion (index < length (m_current_values r));
     let value = m_current_values r ! index - amount;
     assertion (in_s32 value);
     Some (r\<lparr>m_current_values := (m_current_values r)[index := value]\<rparr>, True) }"

section \<open>The application's share of core 1\<close>

text \<open>\<open>Core1CpuTime\<close> constants (\<open>kernel.h\<close>) and the schedule mode.\<close>

datatype Core1ScheduleMode = Single | Multi

definition PREEMPTION_DISABLED :: int where "PREEMPTION_DISABLED = 0"
definition PREEMPTION_SYSMODULE :: int where "PREEMPTION_SYSMODULE = 1000"
definition PREEMPTION_EXCEMPTED :: int where "PREEMPTION_EXCEMPTED = 10000"

definition cpu_time_overrides :: "(u32 \<times> int) list" where
  "cpu_time_overrides =
     [(0x205, PREEMPTION_EXCEMPTED), (0x215, PREEMPTION_EXCEMPTED), (0x225, PREEMPTION_EXCEMPTED),
      (0x304, PREEMPTION_EXCEMPTED), (0x32E, PREEMPTION_EXCEMPTED),
      (0x334, 30), (0x335, 30), (0x336, 30),
      (0x348, PREEMPTION_EXCEMPTED), (0x368, PREEMPTION_EXCEMPTED), (0x562, PREEMPTION_EXCEMPTED),
      (0x349, PREEMPTION_EXCEMPTED), (0x370, PREEMPTION_EXCEMPTED), (0x389, PREEMPTION_EXCEMPTED),
      (0x490, PREEMPTION_EXCEMPTED), (0x491, PREEMPTION_EXCEMPTED)]"

definition app_cpu_setting :: "u64 \<Rightarrow> u8 \<Rightarrow> u8 \<Rightarrow> Core1ScheduleMode \<times> int \<times> int" where
  "app_cpu_setting program_id exh_mode exh_cpu_limit =
     (if exh_mode = 0 \<and> exh_cpu_limit = 0 then
        let uID = ucast (drop_bit 8 program_id AND 0xFFFFF) :: u32 in
        (case map_of cpu_time_overrides uID of
           None \<Rightarrow> (Single, 80, 25)
         | Some time \<Rightarrow>
             if time > 100 \<and> time < 200 then (Multi, time - 100, time - 100) else (Single, time, time))
      else (if exh_mode = 0 then Single else Multi, uint exh_cpu_limit, PREEMPTION_DISABLED))"

text \<open>
  \<open>ApplyAppMaxCPUSetting\<close> up to its two calls into the kernel: the limit with its new values and
  the schedule mode that \<open>SetCore1ScheduleMode\<close> is called with.
\<close>

definition apply_app_cpu_values ::
  "u64 \<Rightarrow> u8 \<Rightarrow> u8 \<Rightarrow> resource_limit \<Rightarrow> (resource_limit \<times> Core1ScheduleMode) option" where
  "apply_app_cpu_values program_id exh_mode exh_cpu_limit r =
     (case app_cpu_setting program_id exh_mode exh_cpu_limit of (mode, limit, current) \<Rightarrow> do {
        r \<leftarrow> SetLimitValue (type_index RCpuTime) limit r;
        r \<leftarrow> SetCurrentValue (type_index RCpuTime) current r;
        Some (r, mode) })"

section \<open>The four limits of the system\<close>

definition set_limits :: "(ResourceLimitType \<times> int) list \<Rightarrow> resource_limit \<Rightarrow> resource_limit" where
  "set_limits vs r =
     fold (\<lambda>(ty, v) r. r\<lparr>m_limit_values := (m_limit_values r)[type_index ty := v]\<rparr>) vs r"

definition application_limits :: "int \<Rightarrow> resource_limit" where
  "application_limits appmemalloc_size =
     set_limits [(RPriority, 0x18), (RCommit, appmemalloc_size), (RThread, 0x20), (REvent, 0x20),
       (RMutex, 0x20), (RSemaphore, 0x8), (RTimer, 0x8), (RSharedMemory, 0x10),
       (RAddressArbiter, 0x2), (RCpuTime, PREEMPTION_DISABLED)] (Create Application)"

definition sys_applet_limits :: "bool \<Rightarrow> resource_limit" where
  "sys_applet_limits is_new_3ds =
     set_limits [(RPriority, 0x4), (RCommit, if is_new_3ds then 0x5E06000 else 0x2606000),
       (RThread, if is_new_3ds then 0x1D else 0xE), (REvent, if is_new_3ds then 0xB else 0x8),
       (RMutex, 0x8), (RSemaphore, 0x4), (RTimer, 0x4), (RSharedMemory, 0x8),
       (RAddressArbiter, 0x3), (RCpuTime, PREEMPTION_EXCEMPTED)] (Create SysApplet)"

definition lib_applet_limits :: resource_limit where
  "lib_applet_limits =
     set_limits [(RPriority, 0x4), (RCommit, 0x602000), (RThread, 0xE), (REvent, 0x8),
       (RMutex, 0x8), (RSemaphore, 0x4), (RTimer, 0x4), (RSharedMemory, 0x8),
       (RAddressArbiter, 0x1), (RCpuTime, PREEMPTION_EXCEMPTED)] (Create LibApplet)"

definition other_limits :: "bool \<Rightarrow> resource_limit" where
  "other_limits is_new_3ds =
     set_limits [(RPriority, 0x4), (RCommit, if is_new_3ds then 0x2182000 else 0x1682000),
       (RThread, if is_new_3ds then 0xE1 else 0xCA), (REvent, if is_new_3ds then 0x108 else 0xF8),
       (RMutex, if is_new_3ds then 0x25 else 0x23), (RSemaphore, if is_new_3ds then 0x43 else 0x40),
       (RTimer, if is_new_3ds then 0x2C else 0x2B), (RSharedMemory, if is_new_3ds then 0x1F else 0x1E),
       (RAddressArbiter, if is_new_3ds then 0x2D else 0x2B), (RCpuTime, PREEMPTION_SYSMODULE)]
       (Create Other)"

definition ResourceLimitList :: "bool \<Rightarrow> int \<Rightarrow> resource_limit list" where
  "ResourceLimitList is_new_3ds appmemalloc_size =
     [application_limits appmemalloc_size, sys_applet_limits is_new_3ds, lib_applet_limits,
      other_limits is_new_3ds]"

definition GetForCategory :: "resource_limit list \<Rightarrow> ResourceLimitCategory \<Rightarrow> resource_limit option" where
  "GetForCategory limits category = do {
     assertion (category_index category < length limits);
     Some (limits ! category_index category) }"

section \<open>Lemmas\<close>

definition limit_wf :: "resource_limit \<Rightarrow> bool" where
  "limit_wf r \<longleftrightarrow> length (m_limit_values r) = 10 \<and> length (m_current_values r) = 10"

lemma type_index_lt: "type_index ty < 10"
  by (cases ty) simp_all

lemma limit_wf_Create [simp]: "limit_wf (Create c)"
  by (simp add: limit_wf_def Create_def)

lemma set_limits_keeps:
  "length (m_limit_values (set_limits vs r)) = length (m_limit_values r)"
  "m_current_values (set_limits vs r) = m_current_values r"
  "m_category (set_limits vs r) = m_category r"
  unfolding set_limits_def by (induction vs arbitrary: r) auto

lemma limits_defs_wf:
  "limit_wf (application_limits a)" "limit_wf (sys_applet_limits n)" "limit_wf lib_applet_limits"
  "limit_wf (other_limits n)"
  by (simp_all add: application_limits_def sys_applet_limits_def lib_applet_limits_def
      other_limits_def limit_wf_def set_limits_keeps Create_def)

section \<open>Properties\<close>


text \<open>reserving counts the amount on its resource only and never refuses; releasing the same
  amount gives back exactly the limit there was.\<close>

lemma Reserve_Release:
  assumes "limit_wf r" "in_s32 (m_current_values r ! type_index ty)" "in_s32 (m_current_values r ! type_index ty + n)"
  shows "\<exists>r'. Reserve (type_index ty) n r = Some (r', True) \<and> limit_wf r' \<and>
    (\<forall>u. m_current_values r' ! type_index u = m_current_values r ! type_index u + (if u = ty then n else 0)) \<and>
    m_limit_values r' = m_limit_values r \<and> Release (type_index ty) n r' = Some (r, True)"
proof -
  have inj: "type_index ty = type_index u \<longleftrightarrow> ty = u" for u
    by (cases u; cases ty) simp_all
  show ?thesis
    using assms type_index_lt [of ty]
    by (auto simp: Reserve_def Release_def limit_wf_def nth_list_update inj)
qed

lemma Reserve_Release_witness:
  "\<exists>r'. Reserve (type_index RThread) 3 (Create Application) = Some (r', True) \<and>
     m_current_values r' ! 2 = 3 \<and> Release (type_index RThread) 3 r' = Some (Create Application, True)"
proof -
  have "limit_wf (Create Application)" "in_s32 (m_current_values (Create Application) ! type_index RThread)"
    "in_s32 (m_current_values (Create Application) ! type_index RThread + 3)"
    by simp (simp_all add: Create_def in_s32_def)
  from Reserve_Release [OF this] obtain r' where r': "Reserve (type_index RThread) 3 (Create Application) = Some (r', True)"
    "\<forall>u. m_current_values r' ! type_index u = m_current_values (Create Application) ! type_index u + (if u = RThread then 3 else 0)"
    "Release (type_index RThread) 3 r' = Some (Create Application, True)"
    by blast
  from r'(2) have "m_current_values r' ! type_index RThread = m_current_values (Create Application) ! type_index RThread + 3"
    by (simp only: simp_thms if_True)
  with r'(1,3) show ?thesis by (auto simp: Create_def)
qed

end
