(* ===== verification/Kernel_State.thy ===== *)
theory Kernel_State
  imports Thread_Queue_List Core_Timing Resource_Limit Result_Codes
begin

text \<open>
  The state shared by the kernel components: threads (\<open>core/hle/kernel/thread.h\<close>), the objects they
  wait on (\<open>wait_object.h\<close>, \<open>mutex.h\<close>, \<open>semaphore.h\<close>, \<open>event.h\<close>, \<open>timer.h\<close>), address arbiters, one
  thread manager per core, and the event timers.

  Objects live behind \<open>shared_ptr\<close>s, so a pointer held by the kernel is never dangling: an object is
  a number (its address; the ordered sets of mutexes iterate in this order) and the object stores
  are functions from numbers. A number denotes a thread when its wait object is \<open>WThread\<close>; the
  other fields of that thread are in \<open>threads\<close>. The guest's memory is a type parameter \<open>'m\<close>. Of a
  process the kernel components here need the TLS slots and which resource limit it counts against.
\<close>

named_theorems kernel_simps

section \<open>Threads\<close>

datatype ThreadStatus =
  Running | Ready | WaitArb | WaitSleep | WaitIPC | WaitSynchAny | WaitSynchAll | WaitHleEvent |
  Dormant | Dead

text \<open>
  The wakeup callbacks of the modelled components: the one of the \<open>WaitSynchronization\<close> calls, with
  its \<open>do_output\<close>, and the one of an address arbiter. Those of the IPC layer are not modelled.
\<close>

datatype wakeup_callback = SVC_SyncCallback bool | ArbiterCallback nat

datatype ThreadWakeupReason = Signal | Timeout

record thread_context =
  cpu_registers :: "u32 list"
  cpsr :: u32
  fpscr :: u32

record thread =
  thread_id :: nat
  core_id :: nat
  status :: ThreadStatus
  nominal_priority :: nat
  current_priority :: nat
  held_mutexes :: "nat list"
  pending_mutexes :: "nat list"
  wait_objects :: "nat list"
  wait_address :: u32
  wakeup_callback :: "wakeup_callback option"
  unschedule_mode :: u32
  owner_process :: "nat option"
  resource_limit_category :: ResourceLimitCategory
  last_running_ticks :: int
  processor_id :: int
  entry_point :: u32
  stack_top :: u32
  tls_address :: u32
  context_regs :: thread_context

definition ThreadPrioLowest :: nat where
  "ThreadPrioLowest = 63"

text \<open>\<open>CanSchedule\<close>.\<close>

definition CanSchedule :: "thread \<Rightarrow> bool" where
  "CanSchedule th \<longleftrightarrow> unschedule_mode th = 0"

section \<open>Wait objects\<close>

datatype ResetType = OneShot | Sticky | Pulse

record mutex_data =
  lock_count :: int
  mutex_priority :: nat
  holding_thread :: "nat option"

record semaphore_data =
  max_count :: int
  available_count :: int

record event_data =
  event_reset :: ResetType
  event_signaled :: bool

record timer_data =
  timer_reset :: ResetType
  timer_signaled :: bool
  initial_delay :: int
  interval_delay :: int
  callback_id :: nat

datatype wait_object =
  WThread | WMutex mutex_data | WSemaphore semaphore_data | WEvent event_data | WTimer timer_data

section \<open>Kernel events\<close>

text \<open>The registered event types: a thread wakeup on a core, the kernel timers, and the ticks of the
  two CPU limiters.\<close>

datatype kernel_event = ThreadWakeup nat | TimerFired | LimiterTick Core1ScheduleMode

section \<open>Thread managers and the kernel\<close>

datatype SchedState = APP | SYS

record cpu_limiter =
  limiter_ready :: bool
  limiter_active :: bool
  app_cpu_time :: int
  curr_state :: SchedState
  sleeping_thread_ids :: "nat list"

record thread_manager =
  ready_queue :: "nat tql"
  current_thread :: "nat option"
  thread_list :: "nat list"
  wakeup_callback_table :: "nat \<rightharpoonup> nat"
  current_schedule_mode :: Core1ScheduleMode
  single_time_limiter :: cpu_limiter
  multi_time_limiter :: cpu_limiter
  cpu_context :: thread_context
  cpu_thread_uro :: u32
  cpu_process :: "nat option"

record 'm kernel =
  threads :: "nat \<Rightarrow> thread"
  wait_objs :: "nat \<Rightarrow> wait_object"
  waiting_threads :: "nat \<Rightarrow> nat list"
  arbiter_threads :: "nat \<Rightarrow> nat list"
  has_hle_notifier :: "nat \<Rightarrow> bool"
  hle_notifications :: "nat list"
  managers :: "thread_manager list"
  timing :: "kernel_event timing"
  timer_callback_table :: "nat \<rightharpoonup> nat"
  next_timer_callback_id :: nat
  next_thread_id :: nat
  resource_limits :: "resource_limit list"
  tls_slots :: "nat \<Rightarrow> bool list list"
  process_limit :: "nat \<Rightarrow> nat"
  reschedule_pending :: bool
  memory :: 'm

type_synonym ('m, 'a) kernel_monad = "'m kernel \<Rightarrow> ('a \<times> 'm kernel) option"

definition is_thread :: "'m kernel \<Rightarrow> nat \<Rightarrow> bool" where
  "is_thread k t \<longleftrightarrow> wait_objs k t = WThread"

section \<open>Updates\<close>

definition upd_thread :: "nat \<Rightarrow> (thread \<Rightarrow> thread) \<Rightarrow> 'm kernel \<Rightarrow> 'm kernel" where
  "upd_thread t f k = k\<lparr>threads := (threads k)(t := f (threads k t))\<rparr>"

definition set_object :: "nat \<Rightarrow> wait_object \<Rightarrow> 'm kernel \<Rightarrow> 'm kernel" where
  "set_object ob w k = k\<lparr>wait_objs := (wait_objs k)(ob := w)\<rparr>"

definition set_waiting :: "nat \<Rightarrow> nat list \<Rightarrow> 'm kernel \<Rightarrow> 'm kernel" where
  "set_waiting ob ts k = k\<lparr>waiting_threads := (waiting_threads k)(ob := ts)\<rparr>"

definition PrepareReschedule :: "'m kernel \<Rightarrow> 'm kernel" where
  "PrepareReschedule k = k\<lparr>reschedule_pending := True\<rparr>"

definition upd_manager :: "nat \<Rightarrow> (thread_manager \<Rightarrow> thread_manager) \<Rightarrow> 'm kernel \<Rightarrow> 'm kernel" where
  "upd_manager c f k = k\<lparr>managers := (managers k)[c := f (managers k ! c)]\<rparr>"

definition set_queue :: "nat \<Rightarrow> nat tql \<Rightarrow> 'm kernel \<Rightarrow> 'm kernel" where
  "set_queue c q = upd_manager c (\<lambda>m. m\<lparr>ready_queue := q\<rparr>)"

text \<open>An operation on the ready queue of a core.\<close>

definition on_queue :: "nat \<Rightarrow> (nat tql \<Rightarrow> nat tql option) \<Rightarrow> 'm kernel \<Rightarrow> 'm kernel option" where
  "on_queue c f k = do {
     assertion (c < length (managers k));
     q \<leftarrow> f (ready_queue (managers k ! c));
     Some (set_queue c q k) }"

section \<open>Start-up\<close>

definition new_limiter :: cpu_limiter where
  "new_limiter =
     \<lparr>limiter_ready = False, limiter_active = False, app_cpu_time = PREEMPTION_DISABLED,
      curr_state = APP, sleeping_thread_ids = []\<rparr>"

definition empty_context :: thread_context where
  "empty_context = \<lparr>cpu_registers = replicate 16 0, cpsr = 0, fpscr = 0\<rparr>"

definition new_thread_manager :: thread_manager where
  "new_thread_manager =
     \<lparr>ready_queue = tql_new 64, current_thread = None, thread_list = [],
      wakeup_callback_table = Map.empty, current_schedule_mode = Multi,
      single_time_limiter = new_limiter, multi_time_limiter = new_limiter,
      cpu_context = empty_context, cpu_thread_uro = 0, cpu_process = None\<rparr>"

definition blank_thread :: thread where
  "blank_thread =
     \<lparr>thread_id = 0, core_id = 0, status = Dormant, nominal_priority = 0, current_priority = 0,
      held_mutexes = [], pending_mutexes = [], wait_objects = [], wait_address = 0,
      wakeup_callback = None, unschedule_mode = 0, owner_process = None,
      resource_limit_category = Application, last_running_ticks = 0, processor_id = 0,
      entry_point = 0, stack_top = 0, tls_address = 0, context_regs = empty_context\<rparr>"

text \<open>
  \<open>KernelSystem::KernelSystem\<close>. No object exists yet; the stores hold filler that nothing refers to
  (no number denotes a thread).
\<close>

definition new_kernel :: "nat \<Rightarrow> kernel_event timing \<Rightarrow> resource_limit list \<Rightarrow> 'm \<Rightarrow> 'm kernel" where
  "new_kernel num_cores tm limits m =
     \<lparr>threads = (\<lambda>_. blank_thread), wait_objs = (\<lambda>_. WEvent \<lparr>event_reset = OneShot, event_signaled = False\<rparr>),
      waiting_threads = (\<lambda>_. []), arbiter_threads = (\<lambda>_. []), has_hle_notifier = (\<lambda>_. False),
      hle_notifications = [], managers = replicate num_cores new_thread_manager, timing = tm,
      timer_callback_table = Map.empty, next_timer_callback_id = 0, next_thread_id = 1,
      resource_limits = limits, tls_slots = (\<lambda>_. []), process_limit = (\<lambda>_. 0), reschedule_pending = False, memory = m\<rparr>"

section \<open>Ordered sets of objects\<close>

text \<open>\<open>boost::container::flat_set\<close> of pointers: a sorted list without duplicates.\<close>

fun set_insert :: "nat \<Rightarrow> nat list \<Rightarrow> nat list" where
  "set_insert x [] = [x]"
| "set_insert x (y # ys) =
     (if x < y then x # y # ys else if x = y then y # ys else y # set_insert x ys)"

definition set_erase :: "nat \<Rightarrow> nat list \<Rightarrow> nat list" where
  "set_erase x xs = removeAll x xs"

lemma set_set_insert [simp]: "set (set_insert x xs) = insert x (set xs)"
  by (induction xs) auto

lemma set_set_erase [simp]: "set (set_erase x xs) = set xs - {x}"
  by (simp add: set_erase_def)

lemma distinct_set_insert: "sorted_wrt (<) xs \<Longrightarrow> sorted_wrt (<) (set_insert x xs)"
  by (induction xs) auto

section \<open>Reading through updates\<close>

lemma upd_thread_simps [simp]:
  "threads (upd_thread t f k) = (threads k)(t := f (threads k t))"
  "wait_objs (upd_thread t f k) = wait_objs k"
  "waiting_threads (upd_thread t f k) = waiting_threads k"
  "arbiter_threads (upd_thread t f k) = arbiter_threads k"
  "managers (upd_thread t f k) = managers k"
  "timing (upd_thread t f k) = timing k"
  "hle_notifications (upd_thread t f k) = hle_notifications k"
  "has_hle_notifier (upd_thread t f k) = has_hle_notifier k"
  "timer_callback_table (upd_thread t f k) = timer_callback_table k"
  "is_thread (upd_thread t f k) = is_thread k"
  by (simp_all add: upd_thread_def is_thread_def fun_eq_iff)

lemma set_object_simps [simp]:
  "threads (set_object ob w k) = threads k"
  "wait_objs (set_object ob w k) = (wait_objs k)(ob := w)"
  "waiting_threads (set_object ob w k) = waiting_threads k"
  "arbiter_threads (set_object ob w k) = arbiter_threads k"
  "managers (set_object ob w k) = managers k"
  "timing (set_object ob w k) = timing k"
  "hle_notifications (set_object ob w k) = hle_notifications k"
  "has_hle_notifier (set_object ob w k) = has_hle_notifier k"
  "timer_callback_table (set_object ob w k) = timer_callback_table k"
  by (simp_all add: set_object_def)

lemma set_waiting_simps [simp]:
  "threads (set_waiting ob ts k) = threads k"
  "wait_objs (set_waiting ob ts k) = wait_objs k"
  "waiting_threads (set_waiting ob ts k) = (waiting_threads k)(ob := ts)"
  "arbiter_threads (set_waiting ob ts k) = arbiter_threads k"
  "managers (set_waiting ob ts k) = managers k"
  "timing (set_waiting ob ts k) = timing k"
  "hle_notifications (set_waiting ob ts k) = hle_notifications k"
  "has_hle_notifier (set_waiting ob ts k) = has_hle_notifier k"
  "timer_callback_table (set_waiting ob ts k) = timer_callback_table k"
  "is_thread (set_waiting ob ts k) = is_thread k"
  by (simp_all add: set_waiting_def is_thread_def fun_eq_iff)

lemma PrepareReschedule_simps [simp]:
  "threads (PrepareReschedule k) = threads k"
  "wait_objs (PrepareReschedule k) = wait_objs k"
  "waiting_threads (PrepareReschedule k) = waiting_threads k"
  "arbiter_threads (PrepareReschedule k) = arbiter_threads k"
  "managers (PrepareReschedule k) = managers k"
  "timing (PrepareReschedule k) = timing k"
  "hle_notifications (PrepareReschedule k) = hle_notifications k"
  "has_hle_notifier (PrepareReschedule k) = has_hle_notifier k"
  "timer_callback_table (PrepareReschedule k) = timer_callback_table k"
  "is_thread (PrepareReschedule k) = is_thread k"
  by (simp_all add: PrepareReschedule_def is_thread_def fun_eq_iff)

lemma upd_manager_simps [simp]:
  "threads (upd_manager c g k) = threads k"
  "wait_objs (upd_manager c g k) = wait_objs k"
  "waiting_threads (upd_manager c g k) = waiting_threads k"
  "arbiter_threads (upd_manager c g k) = arbiter_threads k"
  "managers (upd_manager c g k) = (managers k)[c := g (managers k ! c)]"
  "timing (upd_manager c g k) = timing k"
  "hle_notifications (upd_manager c g k) = hle_notifications k"
  "has_hle_notifier (upd_manager c g k) = has_hle_notifier k"
  "timer_callback_table (upd_manager c g k) = timer_callback_table k"
  "is_thread (upd_manager c g k) = is_thread k"
  by (simp_all add: upd_manager_def is_thread_def fun_eq_iff)

lemma set_queue_simps [simp]:
  "threads (set_queue c q k) = threads k"
  "wait_objs (set_queue c q k) = wait_objs k"
  "waiting_threads (set_queue c q k) = waiting_threads k"
  "arbiter_threads (set_queue c q k) = arbiter_threads k"
  "managers (set_queue c q k) = (managers k)[c := (managers k ! c)\<lparr>ready_queue := q\<rparr>]"
  "timing (set_queue c q k) = timing k"
  "hle_notifications (set_queue c q k) = hle_notifications k"
  "has_hle_notifier (set_queue c q k) = has_hle_notifier k"
  "timer_callback_table (set_queue c q k) = timer_callback_table k"
  "is_thread (set_queue c q k) = is_thread k"
  by (simp_all add: set_queue_def)

lemma on_queue_Some:
  assumes "c < length (managers k)" "f (ready_queue (managers k ! c)) = Some q"
  shows "on_queue c f k = Some (set_queue c q k)"
  using assms by (simp add: on_queue_def)

end
