(* ===== verification/Scheduler.thy ===== *)
theory Scheduler
  imports Kernel_State
begin

text \<open>
  The thread manager of \<open>core/hle/kernel/thread.{h,cpp}\<close>: priorities and their effect on the ready
  queue, waking a thread, choosing the next thread of a core and switching to it, and the CPU
  limiter of core 1. Waking threads that wait on objects is in \<open>Wait_Objects\<close>.
\<close>

section \<open>Priorities\<close>

definition move_thread :: "nat \<Rightarrow> nat \<Rightarrow> 'm kernel \<Rightarrow> 'm kernel option" where
  "move_thread t priority k =
     (let th = threads k t in
      on_queue (core_id th)
        (\<lambda>q. if status th = Ready then tql_move q t (current_priority th) priority
             else prepare q priority) k)"

definition BoostPriority :: "nat \<Rightarrow> nat \<Rightarrow> 'm kernel \<Rightarrow> 'm kernel option" where
  "BoostPriority t priority k = do {
     k \<leftarrow> move_thread t priority k;
     Some (upd_thread t (\<lambda>th. th\<lparr>current_priority := priority\<rparr>) k) }"

definition SetPriority :: "nat \<Rightarrow> nat \<Rightarrow> 'm kernel \<Rightarrow> 'm kernel option" where
  "SetPriority t priority k = do {
     assertion (priority \<le> ThreadPrioLowest);
     k \<leftarrow> move_thread t priority k;
     Some (upd_thread t (\<lambda>th. th\<lparr>nominal_priority := priority, current_priority := priority\<rparr>) k) }"

definition mutex_prio :: "wait_object \<Rightarrow> nat option" where
  "mutex_prio w = (case w of WMutex m \<Rightarrow> Some (mutex_priority m) | _ \<Rightarrow> None)"

fun best_priority :: "(nat \<Rightarrow> wait_object) \<Rightarrow> nat list \<Rightarrow> nat \<Rightarrow> nat" where
  "best_priority objs [] best = best"
| "best_priority objs (m # ms) best =
     best_priority objs ms
       (case mutex_prio (objs m) of None \<Rightarrow> best | Some p \<Rightarrow> if p < best then p else best)"

definition UpdatePriority :: "nat \<Rightarrow> 'm kernel \<Rightarrow> 'm kernel option" where
  "UpdatePriority t k =
     BoostPriority t (best_priority (wait_objs k) (held_mutexes (threads k t)) (nominal_priority (threads k t))) k"

section \<open>Waking and sleeping\<close>

definition WakeAfterDelay :: "nat \<Rightarrow> int \<Rightarrow> bool \<Rightarrow> 'm kernel \<Rightarrow> 'm kernel option" where
  "WakeAfterDelay t nanoseconds thread_safe_mode k =
     (if nanoseconds = - 1 then Some k
      else do {
        let th = threads k t;
        tm \<leftarrow> ScheduleEvent (nsToCycles nanoseconds) (ThreadWakeup (core_id th)) (thread_id th)
                (if thread_safe_mode then Some (core_id th) else None) thread_safe_mode (timing k);
        Some (k\<lparr>timing := tm\<rparr>) })"

text \<open>Queueing a thread at its current priority and marking it ready.\<close>

definition push_ready :: "nat \<Rightarrow> 'm kernel \<Rightarrow> 'm kernel option" where
  "push_ready t k = do {
     k \<leftarrow> on_queue (core_id (threads k t)) (\<lambda>q. push_back q (current_priority (threads k t)) t) k;
     Some (upd_thread t (\<lambda>th. th\<lparr>status := Ready\<rparr>) k) }"

text \<open>The part of \<open>ResumeFromWait\<close> behind its \<open>switch\<close>.\<close>

definition make_ready :: "nat \<Rightarrow> 'm kernel \<Rightarrow> 'm kernel option" where
  "make_ready t k = do {
     k \<leftarrow> push_ready t (upd_thread t (\<lambda>th. th\<lparr>wakeup_callback := None\<rparr>) k);
     Some (PrepareReschedule k) }"

definition ResumeFromWait :: "nat \<Rightarrow> 'm kernel \<Rightarrow> 'm kernel option" where
  "ResumeFromWait t k = do {
     assertion (wait_objects (threads k t) = []);
     (case status (threads k t) of
        Ready \<Rightarrow> do { assertion (wakeup_callback (threads k t) = None); Some k }
      | Running \<Rightarrow> Some k
      | Dead \<Rightarrow> Some k
      | _ \<Rightarrow> make_ready t k) }"

definition SetWaitSynchronizationResult :: "nat \<Rightarrow> u32 \<Rightarrow> 'm kernel \<Rightarrow> 'm kernel" where
  "SetWaitSynchronizationResult t result =
     upd_thread t (\<lambda>th. th\<lparr>context_regs := (context_regs th)\<lparr>cpu_registers :=
       (cpu_registers (context_regs th))[0 := result]\<rparr>\<rparr>)"

definition SetWaitSynchronizationOutput :: "nat \<Rightarrow> int \<Rightarrow> 'm kernel \<Rightarrow> 'm kernel" where
  "SetWaitSynchronizationOutput t out =
     upd_thread t (\<lambda>th. th\<lparr>context_regs := (context_regs th)\<lparr>cpu_registers :=
       (cpu_registers (context_regs th))[1 := word_of_int out]\<rparr>\<rparr>)"

text \<open>
  The position of the last occurrence of the object; when it does not occur the distance computation
  gives \<open>-1\<close>.
\<close>

fun last_index :: "nat \<Rightarrow> nat list \<Rightarrow> nat \<Rightarrow> int \<Rightarrow> int" where
  "last_index x [] i acc = acc"
| "last_index x (y # ys) i acc = last_index x ys (i + 1) (if x = y then int i else acc)"

definition GetWaitObjectIndex :: "nat \<Rightarrow> nat \<Rightarrow> 'm kernel \<Rightarrow> int option" where
  "GetWaitObjectIndex t ob k = do {
     assertion (wait_objects (threads k t) \<noteq> []);
     Some (last_index ob (wait_objects (threads k t)) 0 (- 1)) }"

definition GetCommandBufferAddress :: "nat \<Rightarrow> 'm kernel \<Rightarrow> u32" where
  "GetCommandBufferAddress t k = tls_address (threads k t) + 0x80"

definition SetUnscheduleMode :: "nat \<Rightarrow> u32 \<Rightarrow> 'm kernel \<Rightarrow> 'm kernel \<times> bool" where
  "SetUnscheduleMode t mode k =
     (let old = unschedule_mode (threads k t) in
      (upd_thread t (\<lambda>th. th\<lparr>unschedule_mode := old OR mode\<rparr>) k, old OR mode \<noteq> old))"

definition ClearUnscheduleMode :: "nat \<Rightarrow> u32 \<Rightarrow> 'm kernel \<Rightarrow> 'm kernel \<times> bool" where
  "ClearUnscheduleMode t mode k =
     (let old = unschedule_mode (threads k t) in
      (upd_thread t (\<lambda>th. th\<lparr>unschedule_mode := old AND NOT mode\<rparr>) k, old AND NOT mode \<noteq> old))"

section \<open>Lookups of a thread manager\<close>

definition GetThreadByID :: "nat \<Rightarrow> nat \<Rightarrow> 'm kernel \<Rightarrow> nat option" where
  "GetThreadByID c tid k = find (\<lambda>t. thread_id (threads k t) = tid) (thread_list (managers k ! c))"

definition HaveReadyThreads :: "nat \<Rightarrow> 'm kernel \<Rightarrow> bool option" where
  "HaveReadyThreads c k = do {
     r \<leftarrow> get_first (ready_queue (managers k ! c));
     Some (r \<noteq> None) }"

definition WaitCurrentThread_Sleep :: "nat \<Rightarrow> 'm kernel \<Rightarrow> 'm kernel option" where
  "WaitCurrentThread_Sleep c k = do {
     t \<leftarrow> current_thread (managers k ! c);
     Some (upd_thread t (\<lambda>th. th\<lparr>status := WaitSleep\<rparr>) k) }"

section \<open>The CPU limiter of core 1\<close>

text \<open>
  Both limiter objects have the class \<open>CpuLimiterMulti\<close>; the schedule mode selects the one in use.
  The float product of the tick interval and the application's share is a parameter (\<open>scaled\<close>), the
  platform test \<open>__SWITCH__\<close> a flag.
\<close>

definition get_limiter :: "Core1ScheduleMode \<Rightarrow> 'm kernel \<Rightarrow> cpu_limiter" where
  "get_limiter mode k =
     (if mode = Single then single_time_limiter (managers k ! 1) else multi_time_limiter (managers k ! 1))"

definition set_limiter :: "Core1ScheduleMode \<Rightarrow> cpu_limiter \<Rightarrow> 'm kernel \<Rightarrow> 'm kernel" where
  "set_limiter mode l =
     upd_manager 1 (\<lambda>m. if mode = Single then m\<lparr>single_time_limiter := l\<rparr> else m\<lparr>multi_time_limiter := l\<rparr>)"

definition GetCpuLimiter :: "'m kernel \<Rightarrow> Core1ScheduleMode" where
  "GetCpuLimiter k = current_schedule_mode (managers k ! 1)"

definition limiter_start :: "Core1ScheduleMode \<Rightarrow> 'm kernel \<Rightarrow> 'm kernel" where
  "limiter_start mode k =
     (let l = get_limiter mode k in
      if limiter_ready l then k
      else set_limiter mode (l\<lparr>limiter_ready := True, limiter_active := False, curr_state := APP,
                               app_cpu_time := PREEMPTION_DISABLED\<rparr>) k)"

definition WakeupSleepingThreads :: "Core1ScheduleMode \<Rightarrow> 'm kernel \<Rightarrow> 'm kernel option" where
  "WakeupSleepingThreads mode k = do {
     k \<leftarrow> for_each (\<lambda>tid k. case GetThreadByID 1 tid k of
              None \<Rightarrow> Some k
            | Some t \<Rightarrow> if status (threads k t) = WaitSleep then ResumeFromWait t k else Some k)
          (sleeping_thread_ids (get_limiter mode k)) k;
     Some (set_limiter mode ((get_limiter mode k)\<lparr>sleeping_thread_ids := []\<rparr>) k) }"

definition unschedule_tick :: "Core1ScheduleMode \<Rightarrow> 'm kernel \<Rightarrow> 'm kernel" where
  "unschedule_tick mode k = k\<lparr>timing := UnscheduleEvent (LimiterTick mode) 0 (timing k)\<rparr>"

definition limiter_end :: "Core1ScheduleMode \<Rightarrow> 'm kernel \<Rightarrow> 'm kernel option" where
  "limiter_end mode k =
     (let l = get_limiter mode k in
      if \<not> limiter_ready l then Some k
      else WakeupSleepingThreads mode
             (unschedule_tick mode (set_limiter mode (l\<lparr>limiter_ready := False, limiter_active := False\<rparr>) k)))"

text \<open>\<open>nsToCycles(2'000'000)\<close>.\<close>

definition base_tick_interval :: int where
  "base_tick_interval = BASE_CLOCK_RATE_ARM11 * 2000000 div 1000000000"

definition ChangeState :: "(int \<Rightarrow> int) \<Rightarrow> Core1ScheduleMode \<Rightarrow> int \<Rightarrow> 'm kernel \<Rightarrow> 'm kernel option" where
  "ChangeState scaled mode cycles_late k =
     (let l = get_limiter mode k;
          st = (if curr_state l = SYS then APP else SYS);
          next = scaled (app_cpu_time l);
          next = (if st = SYS then base_tick_interval - next else next);
          next = (if next > cycles_late then next - cycles_late else next)
      in do {
        let k = set_limiter mode (l\<lparr>curr_state := st\<rparr>) k;
        tm \<leftarrow> ScheduleEvent next (LimiterTick mode) 0 (Some 1) False (timing k);
        Some (k\<lparr>timing := tm\<rparr>) })"

definition OnTick :: "(int \<Rightarrow> int) \<Rightarrow> Core1ScheduleMode \<Rightarrow> int \<Rightarrow> 'm kernel \<Rightarrow> 'm kernel option" where
  "OnTick scaled mode cycles_late k = do {
     k \<leftarrow> WakeupSleepingThreads mode k;
     ChangeState scaled mode cycles_late k }"

definition limiter_disable :: "Core1ScheduleMode \<Rightarrow> 'm kernel \<Rightarrow> 'm kernel option" where
  "limiter_disable mode k =
     WakeupSleepingThreads mode
       (unschedule_tick mode (set_limiter mode ((get_limiter mode k)\<lparr>limiter_active := False\<rparr>) k))"

definition UpdateAppCpuLimit ::
  "bool \<Rightarrow> (int \<Rightarrow> int) \<Rightarrow> Core1ScheduleMode \<Rightarrow> 'm kernel \<Rightarrow> 'm kernel option" where
  "UpdateAppCpuLimit on_switch scaled mode k =
     (if \<not> limiter_ready (get_limiter mode k) then Some k
      else do {
        r \<leftarrow> GetForCategory (resource_limits k) Application;
        time \<leftarrow> GetCurrentValue (type_index RCpuTime) r;
        let k = set_limiter mode ((get_limiter mode k)\<lparr>app_cpu_time := time\<rparr>) k;
        if on_switch then limiter_disable mode k
        else if time = PREEMPTION_DISABLED then limiter_disable mode k
        else ChangeState scaled mode 0
               (set_limiter mode ((get_limiter mode k)\<lparr>limiter_active := True\<rparr>)
                 (if limiter_active (get_limiter mode k) then unschedule_tick mode k else k)) })"

definition DoTimeLimit :: "nat \<Rightarrow> 'm kernel \<Rightarrow> ('m kernel \<times> bool) option" where
  "DoTimeLimit t k =
     (let mode = GetCpuLimiter k; l = get_limiter mode k; category = resource_limit_category (threads k t) in
      if \<not> limiter_ready l \<or> \<not> limiter_active l then Some (k, False)
      else do {
        r \<leftarrow> GetForCategory (resource_limits k) category;
        limit \<leftarrow> GetLimitValue (type_index RCpuTime) r;
        if limit = PREEMPTION_EXCEMPTED then Some (k, False)
        else if category = Application \<and> curr_state l = SYS \<or> category = Other \<and> curr_state l = APP
        then Some (set_limiter mode (l\<lparr>sleeping_thread_ids := sleeping_thread_ids l @ [thread_id (threads k t)]\<rparr>)
                     (upd_thread t (\<lambda>th. th\<lparr>status := WaitSleep\<rparr>) k), True)
        else Some (k, False) })"

definition SetScheduleMode :: "Core1ScheduleMode \<Rightarrow> 'm kernel \<Rightarrow> 'm kernel option" where
  "SetScheduleMode mode k = do {
     k \<leftarrow> limiter_end (GetCpuLimiter k) k;
     let k = upd_manager 1 (\<lambda>m. m\<lparr>current_schedule_mode := mode\<rparr>) k;
     Some (limiter_start (GetCpuLimiter k) k) }"

section \<open>Choosing and switching to the next thread\<close>

definition pop_next :: "nat \<Rightarrow> 'm kernel \<Rightarrow> ('m kernel \<times> nat option) option" where
  "pop_next c k = do {
     assertion (c < length (managers k));
     let m = managers k ! c;
     let ok = (\<lambda>t. CanSchedule (threads k t));
     (q, next) \<leftarrow>
       (case current_thread m of
          Some cur \<Rightarrow>
            if status (threads k cur) = Running \<and> ok cur
            then do {
              (q, next) \<leftarrow> pop_allowed ok (\<lambda>q. pop_first_better q (current_priority (threads k cur)))
                              push_front (ready_queue m);
              Some (q, case next of None \<Rightarrow> Some cur | Some t \<Rightarrow> Some t) }
            else pop_allowed ok pop_first push_front (ready_queue m)
        | None \<Rightarrow> pop_allowed ok pop_first push_front (ready_queue m));
     Some (set_queue c q k, next) }"

partial_function (option) PopNextReadyThread ::
  "nat \<Rightarrow> 'm kernel \<Rightarrow> ('m kernel \<times> nat option) option" where
  "PopNextReadyThread c k =
     Option.bind (pop_next c k) (\<lambda>(k, next).
       case next of
         None \<Rightarrow> Some (k, None)
       | Some t \<Rightarrow>
           if c = 1
           then Option.bind (DoTimeLimit t k) (\<lambda>(k, limited).
                  if limited then PopNextReadyThread c k else Some (k, Some t))
           else Some (k, Some t))"

definition save_previous :: "nat \<Rightarrow> 'm kernel \<Rightarrow> 'm kernel option" where
  "save_previous c k =
     (case current_thread (managers k ! c) of
        None \<Rightarrow> Some k
      | Some p \<Rightarrow> do {
          assertion (c < length (timers (timing k)));
          let k = upd_thread p (\<lambda>th. th\<lparr>last_running_ticks := timer_ticks (timers (timing k) ! c),
                                        context_regs := cpu_context (managers k ! c)\<rparr>) k;
          if status (threads k p) = Running
          then do {
            k \<leftarrow> on_queue c (\<lambda>q. push_front q (current_priority (threads k p)) p) k;
            Some (upd_thread p (\<lambda>th. th\<lparr>status := Ready\<rparr>) k) }
          else Some k })"

definition previous_process :: "nat \<Rightarrow> 'm kernel \<Rightarrow> nat option" where
  "previous_process c k =
     (case current_thread (managers k ! c) of None \<Rightarrow> None | Some p \<Rightarrow> owner_process (threads k p))"

definition load_next :: "nat \<Rightarrow> nat option \<Rightarrow> nat \<Rightarrow> 'm kernel \<Rightarrow> 'm kernel option" where
  "load_next c prev_process t k = do {
     assertion (status (threads k t) = Ready);
     let k = k\<lparr>timing := UnscheduleEvent (ThreadWakeup c) (thread_id (threads k t)) (timing k)\<rparr>;
     let k = upd_manager c (\<lambda>m. m\<lparr>current_thread := Some t\<rparr>) k;
     k \<leftarrow> on_queue c (\<lambda>q. tql_remove q (current_priority (threads k t)) t) k;
     let k = upd_thread t (\<lambda>th. th\<lparr>status := Running\<rparr>) k;
     assertion (owner_process (threads k t) \<noteq> None);
     Some (upd_manager c (\<lambda>m. m\<lparr>
         cpu_process := (if prev_process \<noteq> owner_process (threads k t) then owner_process (threads k t)
                         else cpu_process m),
         cpu_context := context_regs (threads k t), cpu_thread_uro := tls_address (threads k t)\<rparr>) k) }"

definition SwitchContext :: "nat \<Rightarrow> nat option \<Rightarrow> 'm kernel \<Rightarrow> 'm kernel option" where
  "SwitchContext c new_thread k = do {
     assertion (c < length (managers k));
     let prev_process = previous_process c k;
     k \<leftarrow> save_previous c k;
     (case new_thread of
        Some t \<Rightarrow> load_next c prev_process t k
      | None \<Rightarrow> Some (upd_manager c (\<lambda>m. m\<lparr>current_thread := None\<rparr>) k)) }"

definition Reschedule :: "nat \<Rightarrow> 'm kernel \<Rightarrow> 'm kernel option" where
  "Reschedule c k = do {
     let cur = current_thread (managers k ! c);
     (k, next) \<leftarrow> PopNextReadyThread c k;
     if cur = None \<and> next = None then Some k else SwitchContext c next k }"

section \<open>Creating a thread\<close>

definition ResetThreadContext :: "thread_context \<Rightarrow> u32 \<Rightarrow> u32 \<Rightarrow> u32 \<Rightarrow> thread_context" where
  "ResetThreadContext ctx stack entry arg =
     ctx\<lparr>cpu_registers := (cpu_registers ctx)[0 := arg, 15 := entry, 13 := stack],
         cpsr := 16 OR push_bit 5 (entry AND 1)\<rparr>"

definition ResultInvalidEntryPoint :: u32 where
  "ResultInvalidEntryPoint = mk_result 1013 1 7 27"

text \<open>The new object is stored, listed, and entered into the wakeup table under its thread id.\<close>

definition register_thread :: "nat \<Rightarrow> nat \<Rightarrow> thread \<Rightarrow> 'm kernel \<Rightarrow> 'm kernel" where
  "register_thread t c th k =
     upd_thread t (\<lambda>_. th) (set_waiting t [] (set_object t WThread
       (upd_manager c (\<lambda>m. m\<lparr>thread_list := thread_list m @ [t],
            wakeup_callback_table := (wakeup_callback_table m)(thread_id th \<mapsto> t)\<rparr>)
         (k\<lparr>next_thread_id := (next_thread_id k + 1) mod 2 ^ 32\<rparr>))))"

text \<open>
  \<open>KernelSystem::CreateThread\<close>: \<open>t\<close> is the address of the new object, \<open>valid_entry\<close> the answer of
  \<open>IsValidVirtualAddress\<close>, \<open>tls\<close> that of the owner's \<open>AllocateThreadLocalStorage\<close>. Indexing
  \<open>thread_managers\<close> out of range is undefined behaviour. When the storage cannot be had, the thread
  stays behind in the thread list.
\<close>

definition CreateThread ::
  "nat \<Rightarrow> u32 \<Rightarrow> nat \<Rightarrow> u32 \<Rightarrow> int \<Rightarrow> u32 \<Rightarrow> nat \<Rightarrow> ResourceLimitCategory \<Rightarrow> bool \<Rightarrow> u32 + u32 \<Rightarrow>
   bool \<Rightarrow> 'm kernel \<Rightarrow> ('m kernel \<times> (u32 + nat)) option" where
  "CreateThread t entry priority arg processor stack owner category valid_entry tls to_ready k =
     (if priority > ThreadPrioLowest then Some (k, Inl ResultOutOfRange)
      else if processor > 4 then Some (k, Inl ResultOutOfRangeKernel)
      else if \<not> valid_entry then Some (k, Inl ResultInvalidEntryPoint)
      else do {
        let c = nat processor;
        assertion (0 \<le> processor \<and> c < length (managers k) \<and> c < length (timers (timing k)));
        let th = blank_thread\<lparr>thread_id := next_thread_id k, core_id := c, status := Dormant,
              entry_point := entry, stack_top := stack, nominal_priority := priority,
              current_priority := priority, last_running_ticks := timer_ticks (timers (timing k) ! c),
              processor_id := processor, owner_process := Some owner,
              resource_limit_category := category\<rparr>;
        k \<leftarrow> on_queue c (\<lambda>q. prepare q priority) k;
        let k = register_thread t c th k;
        (case tls of
           Inl e \<Rightarrow> Some (k, Inl e)
         | Inr addr \<Rightarrow> do {
             let k = upd_thread t (\<lambda>th. th\<lparr>tls_address := addr,
                   context_regs := ResetThreadContext (context_regs th) stack entry arg\<rparr>) k;
             k \<leftarrow> (if to_ready then push_ready t k else Some k);
             Some (k, Inr t) }) })"

section \<open>Invariant\<close>

text \<open>
  The queue of a core holds exactly the ready threads of that core, each once and at its current
  priority; every thread's current priority is a linked level of its core's queue; priorities are
  valid; a ready or running thread has no wakeup callback left.
\<close>

definition queue_ok :: "(nat \<Rightarrow> bool) \<Rightarrow> (nat \<Rightarrow> thread) \<Rightarrow> nat \<Rightarrow> nat tql \<Rightarrow> bool" where
  "queue_ok is_th ths c q \<longleftrightarrow>
     tql_inv q \<and> tql_size q = 64 \<and>
     (\<forall>p < 64. distinct (datas q ! p) \<and>
        (\<forall>t. t \<in> set (datas q ! p) \<longleftrightarrow>
           is_th t \<and> status (ths t) = Ready \<and> core_id (ths t) = c \<and> current_priority (ths t) = p))"

definition thread_ok :: "thread_manager list \<Rightarrow> thread \<Rightarrow> bool" where
  "thread_ok ms th \<longleftrightarrow>
     core_id th < length ms \<and> nominal_priority th < 64 \<and> current_priority th < 64 \<and>
     linked (ready_queue (ms ! core_id th)) (current_priority th) \<and>
     (status th \<in> {Ready, Running} \<longrightarrow> wakeup_callback th = None)"

definition sched_inv :: "'m kernel \<Rightarrow> bool" where
  "sched_inv k \<longleftrightarrow>
     (\<forall>c < length (managers k). queue_ok (is_thread k) (threads k) c (ready_queue (managers k ! c))) \<and>
     (\<forall>t. is_thread k t \<longrightarrow> thread_ok (managers k) (threads k t))"

lemma sched_inv_queue:
  "sched_inv k \<Longrightarrow> c < length (managers k) \<Longrightarrow>
   queue_ok (is_thread k) (threads k) c (ready_queue (managers k ! c))"
  by (simp add: sched_inv_def)

lemma sched_inv_thread: "sched_inv k \<Longrightarrow> is_thread k t \<Longrightarrow> thread_ok (managers k) (threads k t)"
  by (simp add: sched_inv_def)

lemma map_nth_cong: "map f xs = map f ys \<Longrightarrow> i < length xs \<Longrightarrow> f (xs ! i) = f (ys ! i)"
  by (metis length_map nth_map)

lemma sched_inv_cong:
  assumes ms: "map ready_queue (managers k') = map ready_queue (managers k)"
    and th: "is_thread k' = is_thread k"
    and fields: "\<And>t. core_id (threads k' t) = core_id (threads k t) \<and> status (threads k' t) = status (threads k t) \<and>
      nominal_priority (threads k' t) = nominal_priority (threads k t) \<and>
      current_priority (threads k' t) = current_priority (threads k t) \<and>
      (status (threads k t) \<in> {Ready, Running} \<longrightarrow>
         wakeup_callback (threads k' t) = wakeup_callback (threads k t))"
  shows "sched_inv k' \<longleftrightarrow> sched_inv k"
proof -
  have len: "length (managers k') = length (managers k)"
    using ms by (rule map_eq_imp_length_eq)
  have q: "ready_queue (managers k' ! c) = ready_queue (managers k ! c)" if "c < length (managers k)" for c
    using map_nth_cong [OF ms] that len by simp
  have "thread_ok (managers k') (threads k' t) \<longleftrightarrow> thread_ok (managers k) (threads k t)" for t
    using fields [of t] q [of "core_id (threads k t)"] by (auto simp: thread_ok_def len)
  moreover have "queue_ok (is_thread k') (threads k') c r \<longleftrightarrow> queue_ok (is_thread k) (threads k) c r" for c r
    using fields by (simp add: queue_ok_def th)
  ultimately show ?thesis
    using q by (auto simp: sched_inv_def th len)
qed

lemma sched_inv_same_threads:
  assumes "map ready_queue (managers k') = map ready_queue (managers k)" "is_thread k' = is_thread k"
    "threads k' = threads k"
  shows "sched_inv k' \<longleftrightarrow> sched_inv k"
  by (rule sched_inv_cong) (use assms in auto)

text \<open>
  The one preservation lemma behind all operations on a single thread: its record is replaced and
  the queue of its core changes accordingly.
\<close>

lemma sched_inv_update:
  assumes inv: "sched_inv k" and t: "is_thread k t" "core_id (threads k t) = c" "core_id th = c"
    and th: "nominal_priority th < 64" "current_priority th < 64"
      "status th \<in> {Ready, Running} \<Longrightarrow> wakeup_callback th = None"
    and q: "tql_inv q" "tql_size q = 64" "linked q (current_priority th)"
      "\<And>p. linked (ready_queue (managers k ! c)) p \<Longrightarrow> linked q p"
    and levels: "\<And>p. p < 64 \<Longrightarrow> distinct (datas q ! p)"
      "\<And>p. p < 64 \<Longrightarrow> set (datas q ! p) =
         (set (datas (ready_queue (managers k ! c)) ! p) - {t}) \<union>
         (if status th = Ready \<and> current_priority th = p then {t} else {})"
  shows "sched_inv (set_queue c q (upd_thread t (\<lambda>_. th) k))"
proof -
  have c: "c < length (managers k)"
    using sched_inv_thread [OF inv t(1)] t(2) by (simp add: thread_ok_def)
  let ?k = "set_queue c q (upd_thread t (\<lambda>_. th) k)"
  have "queue_ok (is_thread k) (threads ?k) d (ready_queue (managers ?k ! d))" if d: "d < length (managers k)" for d
  proof (cases "d = c")
    case True
    with sched_inv_queue [OF inv c] q(1,2) levels t c show ?thesis
      by (auto simp: queue_ok_def)
  next
    case False
    with sched_inv_queue [OF inv d] t show ?thesis
      by (auto simp: queue_ok_def)
  qed
  moreover have "thread_ok (managers ?k) (threads ?k u)" if u: "is_thread k u" for u
  proof (cases "u = t")
    case True
    with th q c t show ?thesis
      by (simp add: thread_ok_def)
  next
    case False
    with sched_inv_thread [OF inv u] q(4) c show ?thesis
      by (auto simp: thread_ok_def nth_list_update)
  qed
  ultimately show ?thesis
    by (simp add: sched_inv_def)
qed

text \<open>The same when only the thread's record changes and it neither becomes nor stops being ready.\<close>

lemma sched_inv_upd_thread:
  assumes inv: "sched_inv k" and "\<And>th. th = threads k t \<Longrightarrow>
      core_id (f th) = core_id th \<and> status (f th) = status th \<and>
      nominal_priority (f th) = nominal_priority th \<and> current_priority (f th) = current_priority th \<and>
      (status th \<in> {Ready, Running} \<longrightarrow> wakeup_callback (f th) = wakeup_callback th)"
  shows "sched_inv (upd_thread t f k)"
  by (subst sched_inv_cong [of _ k]) (use assms in auto)

section \<open>Operations keep the invariant\<close>

lemma upd_thread_const: "upd_thread t f k = upd_thread t (\<lambda>_. f (threads k t)) k"
  by (simp add: upd_thread_def)

lemma upd_thread_twice: "upd_thread t g (upd_thread t f k) = upd_thread t (\<lambda>th. g (f th)) k"
  by (simp add: upd_thread_def)

lemma set_queue_upd_thread: "set_queue c q (upd_thread t f k) = upd_thread t f (set_queue c q k)"
  by (simp add: set_queue_def upd_manager_def upd_thread_def)

lemma set_queue_twice:
  "c < length (managers k) \<Longrightarrow> set_queue c q (set_queue c q' k) = set_queue c q k"
  by (simp add: set_queue_def upd_manager_def)

lemma thread_okD:
  assumes "sched_inv k" "is_thread k t"
  shows "core_id (threads k t) < length (managers k)" "current_priority (threads k t) < 64"
    "nominal_priority (threads k t) < 64"
    "linked (ready_queue (managers k ! core_id (threads k t))) (current_priority (threads k t))"
    "status (threads k t) \<in> {Ready, Running} \<Longrightarrow> wakeup_callback (threads k t) = None"
  using sched_inv_thread [OF assms] by (simp_all add: thread_ok_def)

lemma queue_okD:
  assumes "sched_inv k" "c < length (managers k)"
  shows "tql_inv (ready_queue (managers k ! c))" "tql_size (ready_queue (managers k ! c)) = 64"
    "\<And>p. p < 64 \<Longrightarrow> distinct (datas (ready_queue (managers k ! c)) ! p)"
    "\<And>p t. p < 64 \<Longrightarrow> t \<in> set (datas (ready_queue (managers k ! c)) ! p) \<longleftrightarrow>
       is_thread k t \<and> status (threads k t) = Ready \<and> core_id (threads k t) = c \<and>
       current_priority (threads k t) = p"
  using sched_inv_queue [OF assms] by (simp_all add: queue_ok_def)

text \<open>Moving a ready thread to another level, or linking the level for one that is not ready.\<close>

lemma move_thread_spec:
  assumes inv: "sched_inv k" and t: "is_thread k t" and p: "p < 64"
    and c: "c = core_id (threads k t)" and old: "old = ready_queue (managers k ! c)"
  obtains q where "move_thread t p k = Some (set_queue c q k)" "tql_inv q" "tql_size q = 64"
    "linked q p" "\<And>j. linked old j \<Longrightarrow> linked q j" "\<And>j. j < 64 \<Longrightarrow> distinct (datas q ! j)"
    "\<And>j. j < 64 \<Longrightarrow> set (datas q ! j) = (set (datas old ! j) - {t}) \<union>
       (if status (threads k t) = Ready \<and> j = p then {t} else {})"
proof -
  note th = thread_okD [OF inv t]
  have cl: "c < length (managers k)"
    using th(1) by (simp add: c)
  note qo = queue_okD [OF inv cl, folded old]
  show thesis
  proof (cases "status (threads k t) = Ready")
    case False
    from rq.enable_range [OF qo(1), of p] p qo(2) obtain q where q: "prepare old p = Some q" "tql_inv q"
      "datas q = datas old" "\<forall>j. linked q j \<longleftrightarrow> j = p \<or> linked old j"
      by auto
    have "move_thread t p k = Some (set_queue c q k)"
      using False q(1) cl by (simp add: move_thread_def c [symmetric] Let_def old on_queue_Some)
    moreover have "t \<notin> set (datas old ! j)" if "j < 64" for j
      using qo(4) [OF that, of t] False by simp
    ultimately show thesis
      using that [of q] q qo False by auto
  next
    case True
    let ?cur = "current_priority (threads k t)"
    from rq.delete_range [OF qo(1), of ?cur t] th(2) qo(2) obtain q1
      where q1: "tql_remove old ?cur t = Some q1" "tql_inv q1"
        "datas q1 = (datas old)[?cur := removeAll t (datas old ! ?cur)]" "linked q1 = linked old"
      by auto
    from rq.enable_range [OF q1(2), of p] p qo(2) q1(3) obtain q2 where q2: "prepare q1 p = Some q2"
      "tql_inv q2" "datas q2 = datas q1" "\<forall>j. linked q2 j \<longleftrightarrow> j = p \<or> linked q1 j"
      by auto
    from rq.back_usable [OF q2(2), of p t] q2(4) obtain q3 where q3: "push_back q2 p t = Some q3"
      "tql_inv q3" "datas q3 = (datas q2)[p := datas q2 ! p @ [t]]" "linked q3 = linked q2"
      by auto
    have "tql_move old t ?cur p = Some q3"
      by (simp add: tql_move_def q1 q2 q3)
    then have "move_thread t p k = Some (set_queue c q3 k)"
      using True cl by (simp add: move_thread_def c [symmetric] Let_def old on_queue_Some)
    moreover have notin: "t \<notin> set (datas old ! j)" if "j < 64" "j \<noteq> ?cur" for j
      using qo(4) [OF that(1), of t] that(2) by simp
    moreover have "datas q3 ! j = (if j = ?cur then removeAll t (datas old ! j) else datas old ! j) @
        (if j = p then [t] else [])" if "j < 64" for j
      using that qo(2) p th(2) by (simp add: q3 q2 q1 nth_list_update)
    ultimately show thesis
      using that [of q3] q1(4) q2(4) q3(2,4) qo(2,3) p True
      by (auto simp: q3(3) q2(3) q1(3) distinct_removeAll)
  qed
qed

lemma BoostPriority_spec:
  assumes inv: "sched_inv k" and t: "is_thread k t" and p: "p < 64"
  obtains q where "BoostPriority t p k =
      Some (set_queue (core_id (threads k t)) q (upd_thread t (\<lambda>th. th\<lparr>current_priority := p\<rparr>) k))"
    "sched_inv (set_queue (core_id (threads k t)) q (upd_thread t (\<lambda>th. th\<lparr>current_priority := p\<rparr>) k))"
proof -
  from move_thread_spec [OF inv t p refl refl] obtain q
    where q: "move_thread t p k = Some (set_queue (core_id (threads k t)) q k)" "tql_inv q"
      "tql_size q = 64" "linked q p"
      "\<And>j. linked (ready_queue (managers k ! core_id (threads k t))) j \<Longrightarrow> linked q j"
      "\<And>j. j < 64 \<Longrightarrow> distinct (datas q ! j)"
      "\<And>j. j < 64 \<Longrightarrow> set (datas q ! j) =
         (set (datas (ready_queue (managers k ! core_id (threads k t))) ! j) - {t}) \<union>
         (if status (threads k t) = Ready \<and> j = p then {t} else {})"
    by blast
  note th = thread_okD [OF inv t]
  have "sched_inv (set_queue (core_id (threads k t)) q
      (upd_thread t (\<lambda>_. (threads k t)\<lparr>current_priority := p\<rparr>) k))"
    by (rule sched_inv_update [OF inv t refl]) (use q th p in auto)
  moreover have "BoostPriority t p k =
      Some (set_queue (core_id (threads k t)) q (upd_thread t (\<lambda>th. th\<lparr>current_priority := p\<rparr>) k))"
    by (simp add: BoostPriority_def q(1) set_queue_upd_thread)
  ultimately show thesis
    using that [of q] upd_thread_const [of t "\<lambda>th. th\<lparr>current_priority := p\<rparr>" k] by simp
qed

lemma SetPriority_spec:
  assumes inv: "sched_inv k" and t: "is_thread k t" and p: "p < 64"
  obtains q where "SetPriority t p k = Some (set_queue (core_id (threads k t)) q
      (upd_thread t (\<lambda>th. th\<lparr>nominal_priority := p, current_priority := p\<rparr>) k))"
    "sched_inv (set_queue (core_id (threads k t)) q
      (upd_thread t (\<lambda>th. th\<lparr>nominal_priority := p, current_priority := p\<rparr>) k))"
proof -
  from move_thread_spec [OF inv t p refl refl] obtain q
    where q: "move_thread t p k = Some (set_queue (core_id (threads k t)) q k)" "tql_inv q"
      "tql_size q = 64" "linked q p"
      "\<And>j. linked (ready_queue (managers k ! core_id (threads k t))) j \<Longrightarrow> linked q j"
      "\<And>j. j < 64 \<Longrightarrow> distinct (datas q ! j)"
      "\<And>j. j < 64 \<Longrightarrow> set (datas q ! j) =
         (set (datas (ready_queue (managers k ! core_id (threads k t))) ! j) - {t}) \<union>
         (if status (threads k t) = Ready \<and> j = p then {t} else {})"
    by blast
  note th = thread_okD [OF inv t]
  have "sched_inv (set_queue (core_id (threads k t)) q
      (upd_thread t (\<lambda>_. (threads k t)\<lparr>nominal_priority := p, current_priority := p\<rparr>) k))"
    by (rule sched_inv_update [OF inv t refl]) (use q th p in auto)
  moreover have "SetPriority t p k = Some (set_queue (core_id (threads k t)) q
      (upd_thread t (\<lambda>th. th\<lparr>nominal_priority := p, current_priority := p\<rparr>) k))"
    using p by (simp add: SetPriority_def q(1) set_queue_upd_thread ThreadPrioLowest_def)
  ultimately show thesis
    using that [of q] upd_thread_const [of t "\<lambda>th. th\<lparr>nominal_priority := p, current_priority := p\<rparr>" k]
    by simp
qed

lemma best_priority_le: "best_priority objs ms best \<le> best"
proof (induction ms arbitrary: best)
  case Nil
  then show ?case by simp
next
  case (Cons m ms)
  then show ?case
    by (auto split: option.split intro: order_trans [OF Cons.IH])
qed

text \<open>The result is the minimum of the nominal priority and the priorities of the held mutexes.\<close>

lemma best_priority_min:
  "best_priority objs ms best = Min (insert best {p. \<exists>m \<in> set ms. mutex_prio (objs m) = Some p})"
proof (induction ms arbitrary: best)
  case Nil
  then show ?case by simp
next
  case (Cons m ms)
  have fin: "finite {p. \<exists>m \<in> set ms. mutex_prio (objs m) = Some p}"
    by (rule finite_subset [of _ "(\<lambda>m. the (mutex_prio (objs m))) ` set ms"]) (auto simp: image_iff, metis option.sel)
  show ?case
  proof (cases "mutex_prio (objs m)")
    case None
    then have "{p. \<exists>x \<in> set (m # ms). mutex_prio (objs x) = Some p} =
        {p. \<exists>x \<in> set ms. mutex_prio (objs x) = Some p}"
      by auto
    with None Cons.IH show ?thesis by simp
  next
    case (Some p)
    then have "{q. \<exists>x \<in> set (m # ms). mutex_prio (objs x) = Some q} =
        insert p {q. \<exists>x \<in> set ms. mutex_prio (objs x) = Some q}"
      by auto
    with Some Cons.IH fin show ?thesis
      by (cases "{q. \<exists>x \<in> set ms. mutex_prio (objs x) = Some q} = {}") (auto simp: min_def)
  qed
qed

lemma UpdatePriority_spec:
  assumes inv: "sched_inv k" and t: "is_thread k t"
    and p: "p = best_priority (wait_objs k) (held_mutexes (threads k t)) (nominal_priority (threads k t))"
  obtains q where "UpdatePriority t k =
      Some (set_queue (core_id (threads k t)) q (upd_thread t (\<lambda>th. th\<lparr>current_priority := p\<rparr>) k))"
    "sched_inv (set_queue (core_id (threads k t)) q (upd_thread t (\<lambda>th. th\<lparr>current_priority := p\<rparr>) k))"
proof -
  have "p < 64"
    using best_priority_le [of "wait_objs k" "held_mutexes (threads k t)" "nominal_priority (threads k t)"]
      thread_okD(3) [OF inv t] p by simp
  from BoostPriority_spec [OF inv t this] show thesis
    using that p by (metis UpdatePriority_def)
qed

definition resumable :: "ThreadStatus \<Rightarrow> bool" where
  "resumable st \<longleftrightarrow> st \<notin> {Ready, Running, Dead}"

lemma push_ready_spec:
  assumes inv: "sched_inv k" and t: "is_thread k t" and st: "status (threads k t) \<noteq> Ready"
    and cb: "wakeup_callback (threads k t) = None"
  obtains q where
    "push_ready t k = Some (upd_thread t (\<lambda>th. th\<lparr>status := Ready\<rparr>) (set_queue (core_id (threads k t)) q k))"
    "sched_inv (upd_thread t (\<lambda>th. th\<lparr>status := Ready\<rparr>) (set_queue (core_id (threads k t)) q k))"
proof -
  let ?c = "core_id (threads k t)" and ?p = "current_priority (threads k t)"
  note th = thread_okD [OF inv t]
  note qo = queue_okD [OF inv th(1)]
  from rq.back_usable [OF qo(1) th(4), of t] obtain q
    where q: "push_back (ready_queue (managers k ! ?c)) ?p t = Some q" "tql_inv q"
      "datas q = (datas (ready_queue (managers k ! ?c)))[?p := datas (ready_queue (managers k ! ?c)) ! ?p @ [t]]"
      "linked q = linked (ready_queue (managers k ! ?c))"
    by blast
  let ?f = "\<lambda>th. th\<lparr>status := Ready\<rparr>"
  have ntin: "t \<notin> set (datas (ready_queue (managers k ! ?c)) ! j)" if "j < 64" for j
    using qo(4) [OF that, of t] st by simp
  have "sched_inv (set_queue ?c q (upd_thread t (\<lambda>_. ?f (threads k t)) k))"
    by (rule sched_inv_update [OF inv t refl])
      (use q th qo ntin cb in \<open>auto simp: nth_list_update\<close>)
  then have "sched_inv (upd_thread t ?f (set_queue ?c q k))"
    using upd_thread_const [of t ?f "set_queue ?c q k"] by (simp add: set_queue_upd_thread)
  moreover have "push_ready t k = Some (upd_thread t ?f (set_queue ?c q k))"
    using th(1) q(1) by (simp add: push_ready_def on_queue_Some)
  ultimately show thesis
    using that by blast
qed

lemma sched_inv_clear_callback:
  assumes "sched_inv k" "is_thread k t"
  shows "sched_inv (upd_thread t (\<lambda>th. th\<lparr>wakeup_callback := None\<rparr>) k)"
  using thread_okD(5) [OF assms] by (intro sched_inv_upd_thread [OF assms(1)]) auto

lemma make_ready_spec:
  assumes inv: "sched_inv k" and t: "is_thread k t" and st: "status (threads k t) \<noteq> Ready"
  obtains q where "make_ready t k = Some (PrepareReschedule (set_queue (core_id (threads k t)) q
      (upd_thread t (\<lambda>th. th\<lparr>wakeup_callback := None, status := Ready\<rparr>) k)))"
    "sched_inv (PrepareReschedule (set_queue (core_id (threads k t)) q
      (upd_thread t (\<lambda>th. th\<lparr>wakeup_callback := None, status := Ready\<rparr>) k)))"
proof -
  let ?k = "upd_thread t (\<lambda>th. th\<lparr>wakeup_callback := None\<rparr>) k"
  have "is_thread ?k t" "status (threads ?k t) \<noteq> Ready" "wakeup_callback (threads ?k t) = None"
    using t st by simp_all
  from push_ready_spec [OF sched_inv_clear_callback [OF inv t] this] obtain q
    where q: "push_ready t ?k = Some (upd_thread t (\<lambda>th. th\<lparr>status := Ready\<rparr>) (set_queue (core_id (threads ?k t)) q ?k))"
      "sched_inv (upd_thread t (\<lambda>th. th\<lparr>status := Ready\<rparr>) (set_queue (core_id (threads ?k t)) q ?k))"
    by blast
  have "sched_inv (PrepareReschedule k') \<longleftrightarrow> sched_inv k'" for k' :: "'a kernel"
    by (rule sched_inv_same_threads) simp_all
  with q show thesis
    using that [of q] by (simp add: make_ready_def set_queue_upd_thread upd_thread_twice)
qed

lemma ResumeFromWait_spec:
  assumes inv: "sched_inv k" and t: "is_thread k t" and w: "wait_objects (threads k t) = []"
  obtains "\<not> resumable (status (threads k t))" "ResumeFromWait t k = Some k"
  | q where "resumable (status (threads k t))" "ResumeFromWait t k = Some (PrepareReschedule
      (set_queue (core_id (threads k t)) q
        (upd_thread t (\<lambda>th. th\<lparr>wakeup_callback := None, status := Ready\<rparr>) k)))"
    "sched_inv (PrepareReschedule (set_queue (core_id (threads k t)) q
      (upd_thread t (\<lambda>th. th\<lparr>wakeup_callback := None, status := Ready\<rparr>) k)))"
proof (cases "resumable (status (threads k t))")
  case True
  then have "ResumeFromWait t k = make_ready t k" "status (threads k t) \<noteq> Ready"
    using w by (cases "status (threads k t)"; simp add: ResumeFromWait_def resumable_def)+
  with make_ready_spec [OF inv t this(2)] True that(2) show thesis by metis
next
  case False
  then have "ResumeFromWait t k = Some k"
    using w thread_okD(5) [OF inv t] by (auto simp: ResumeFromWait_def resumable_def)
  with False that(1) show thesis by blast
qed

section \<open>Choosing the next thread\<close>

abbreviation allowed :: "'m kernel \<Rightarrow> nat \<Rightarrow> bool" where
  "allowed k t \<equiv> CanSchedule (threads k t)"

abbreviation queue_of :: "'m kernel \<Rightarrow> nat \<Rightarrow> nat tql" where
  "queue_of k c \<equiv> ready_queue (managers k ! c)"

text \<open>The current thread, when it may simply go on.\<close>

definition keeps_running :: "nat \<Rightarrow> 'm kernel \<Rightarrow> nat option" where
  "keeps_running c k =
     (case current_thread (managers k ! c) of
        None \<Rightarrow> None
      | Some t \<Rightarrow> if status (threads k t) = Running \<and> allowed k t then Some t else None)"

definition rival_bound :: "nat \<Rightarrow> 'm kernel \<Rightarrow> nat" where
  "rival_bound c k = (case keeps_running c k of None \<Rightarrow> 64 | Some t \<Rightarrow> current_priority (threads k t))"

definition current_ok :: "nat \<Rightarrow> 'm kernel \<Rightarrow> bool" where
  "current_ok c k \<longleftrightarrow>
     (\<forall>t. current_thread (managers k ! c) = Some t \<longrightarrow> is_thread k t \<and> core_id (threads k t) = c)"

lemma keeps_running_ok:
  assumes "current_ok c k" "keeps_running c k = Some t"
  shows "current_thread (managers k ! c) = Some t" "status (threads k t) = Running" "allowed k t"
    "is_thread k t" "core_id (threads k t) = c"
  using assms by (auto simp: keeps_running_def current_ok_def split: option.splits if_splits)

lemma rival_bound_le:
  assumes "sched_inv k" "current_ok c k"
  shows "rival_bound c k \<le> 64"
proof (cases "keeps_running c k")
  case None
  then show ?thesis by (simp add: rival_bound_def)
next
  case (Some t)
  with thread_okD(2) [OF assms(1) keeps_running_ok(4) [OF assms(2) Some]] show ?thesis
    by (simp add: rival_bound_def)
qed

lemma pop_next_spec:
  assumes inv: "sched_inv k" and c: "c < length (managers k)" and cur: "current_ok c k"
  obtains q nxt r where "pop_next c k = Some (set_queue c q k, nxt)" "tql_inv q"
    "linked q = linked (queue_of k c)"
    "take_allowed (allowed k) (rival_bound c k) (datas (queue_of k c)) = (datas q, r)"
    "nxt = (case r of None \<Rightarrow> keeps_running c k | Some t \<Rightarrow> Some t)"
proof (cases "keeps_running c k")
  case None
  note qo = queue_okD [OF inv c]
  from rq.pop_allowed_pop [OF qo(1), of "allowed k"] obtain q r
    where q: "pop_allowed (allowed k) pop_first push_front (queue_of k c) = Some (q, r)" "tql_inv q"
      "linked q = linked (queue_of k c)"
      "take_allowed (allowed k) 64 (datas (queue_of k c)) = (datas q, r)"
    by (auto simp: qo(2))
  have "pop_next c k = Some (set_queue c q k, r)"
    using None c q(1) by (auto simp: pop_next_def keeps_running_def Let_def split: option.splits)
  with q show thesis
    by (intro that [of q r r]) (simp_all add: rival_bound_def None split: option.split)
next
  case (Some t)
  then have t: "current_thread (managers k ! c) = Some t" "status (threads k t) = Running" "allowed k t"
    by (auto simp: keeps_running_def split: option.splits if_splits)
  with cur have th: "is_thread k t" "core_id (threads k t) = c"
    by (auto simp: current_ok_def)
  note qo = queue_okD [OF inv c]
  have "linked (queue_of k c) (current_priority (threads k t))"
    using thread_okD(4) [OF inv th(1)] th(2) by simp
  from rq.pop_allowed_pop_better [OF qo(1) this, of "allowed k"] obtain q r
    where q: "pop_allowed (allowed k) (\<lambda>q. pop_first_better q (current_priority (threads k t)))
        push_front (queue_of k c) = Some (q, r)" "tql_inv q" "linked q = linked (queue_of k c)"
      "take_allowed (allowed k) (current_priority (threads k t)) (datas (queue_of k c)) = (datas q, r)"
    by auto
  have "pop_next c k = Some (set_queue c q k, case r of None \<Rightarrow> Some t | Some u \<Rightarrow> Some u)"
    using t c q(1) by (simp add: pop_next_def Let_def)
  with q show thesis
    by (intro that [of q _ r]) (simp_all add: rival_bound_def Some split: option.split)
qed

definition limiter_inactive :: "'m kernel \<Rightarrow> bool" where
  "limiter_inactive k \<longleftrightarrow>
     (let l = get_limiter (GetCpuLimiter k) k in \<not> limiter_ready l \<or> \<not> limiter_active l)"

lemma nth_queue_update:
  "single_time_limiter (ms[c := (ms ! c)\<lparr>ready_queue := q\<rparr>] ! i) = single_time_limiter (ms ! i)"
  "multi_time_limiter (ms[c := (ms ! c)\<lparr>ready_queue := q\<rparr>] ! i) = multi_time_limiter (ms ! i)"
  "current_schedule_mode (ms[c := (ms ! c)\<lparr>ready_queue := q\<rparr>] ! i) = current_schedule_mode (ms ! i)"
  "current_thread (ms[c := (ms ! c)\<lparr>ready_queue := q\<rparr>] ! i) = current_thread (ms ! i)"
  by (cases "c < length ms"; cases "c = i"; simp add: list_update_beyond)+

lemma limiter_inactive_set_queue [simp]: "limiter_inactive (set_queue c q k) \<longleftrightarrow> limiter_inactive k"
  by (simp add: limiter_inactive_def get_limiter_def GetCpuLimiter_def Let_def nth_queue_update)

lemma PopNextReadyThread_inactive:
  assumes "pop_next c k = Some (set_queue c q k, nxt)" "c = 1 \<longrightarrow> limiter_inactive k"
  shows "PopNextReadyThread c k = Some (set_queue c q k, nxt)"
proof -
  have "DoTimeLimit t (set_queue c q k) = Some (set_queue c q k, False)" if "c = 1" for t
    using assms(2) that limiter_inactive_set_queue [of c q k]
    by (simp add: DoTimeLimit_def limiter_inactive_def Let_def)
  with assms show ?thesis
    by (subst PopNextReadyThread.simps) (simp split: option.split)
qed

section \<open>Switching\<close>

definition saved :: "nat \<Rightarrow> 'm kernel \<Rightarrow> thread \<Rightarrow> thread" where
  "saved c k th = th\<lparr>last_running_ticks := timer_ticks (timers (timing k) ! c),
     context_regs := cpu_context (managers k ! c),
     status := (if status th = Running then Ready else status th)\<rparr>"

definition was_running :: "nat \<Rightarrow> 'm kernel \<Rightarrow> nat option" where
  "was_running c k =
     (case current_thread (managers k ! c) of
        None \<Rightarrow> None | Some p \<Rightarrow> if status (threads k p) = Running then Some p else None)"

lemma save_previous_spec:
  assumes c: "c < length (managers k)" "c < length (timers (timing k))"
    and q: "tql_inv (queue_of k c)"
    and l: "\<And>p. was_running c k = Some p \<Longrightarrow> linked (queue_of k c) (current_priority (threads k p))"
  obtains q where "save_previous c k = Some
      (case current_thread (managers k ! c) of None \<Rightarrow> set_queue c q k
       | Some p \<Rightarrow> upd_thread p (saved c k) (set_queue c q k))"
    "tql_inv q" "linked q = linked (queue_of k c)"
    "datas q = (case was_running c k of None \<Rightarrow> datas (queue_of k c)
       | Some p \<Rightarrow> (datas (queue_of k c))[current_priority (threads k p) :=
           p # datas (queue_of k c) ! current_priority (threads k p)])"
proof (cases "current_thread (managers k ! c)")
  case None
  have "set_queue c (queue_of k c) k = k"
    by (simp add: set_queue_def upd_manager_def)
  with None q that [of "queue_of k c"] show thesis
    by (simp add: save_previous_def was_running_def)
next
  case (Some p)
  let ?f = "\<lambda>th. th\<lparr>last_running_ticks := timer_ticks (timers (timing k) ! c),
      context_regs := cpu_context (managers k ! c)\<rparr>"
  show thesis
  proof (cases "status (threads k p) = Running")
    case False
    have "set_queue c (queue_of k c) k = k"
      by (simp add: set_queue_def upd_manager_def)
    moreover have "upd_thread p ?f k = upd_thread p (saved c k) k"
      using False by (simp add: upd_thread_def saved_def)
    moreover have "status (saved c k (threads k p)) \<noteq> Running"
      by (simp add: saved_def)
    ultimately show thesis
      using Some False q c that [of "queue_of k c"] by (simp add: save_previous_def was_running_def Let_def)
  next
    case True
    from l [of p] True Some have "linked (queue_of k c) (current_priority (threads k p))"
      by (simp add: was_running_def)
    from rq.front_usable [OF q this, of p] obtain q1
      where q1: "push_front (queue_of k c) (current_priority (threads k p)) p = Some q1" "tql_inv q1"
        "datas q1 = (datas (queue_of k c))[current_priority (threads k p) :=
           p # datas (queue_of k c) ! current_priority (threads k p)]" "linked q1 = linked (queue_of k c)"
      by blast
    have eq: "upd_thread p (\<lambda>th. th\<lparr>status := Ready\<rparr>) (set_queue c q1 (upd_thread p ?f k)) =
        upd_thread p (saved c k) (set_queue c q1 k)"
      using True by (simp add: upd_thread_def saved_def set_queue_def upd_manager_def)
    have "save_previous c k = Some (upd_thread p (saved c k) (set_queue c q1 k))"
      using Some True c q1(1) by (simp add: save_previous_def Let_def on_queue_Some eq)
    with Some True q1 that [of q1] show thesis
      by (simp add: was_running_def)
  qed
qed

lemma load_next_spec:
  assumes c: "c < length (managers k)" and t: "status (threads k t) = Ready"
    "owner_process (threads k t) \<noteq> None" "current_priority (threads k t) < tql_size (queue_of k c)"
    and q: "tql_inv (queue_of k c)"
  obtains k' q where "load_next c pp t k = Some k'"
    "threads k' = (threads k)(t := (threads k t)\<lparr>status := Running\<rparr>)"
    "is_thread k' = is_thread k" "current_thread (managers k' ! c) = Some t"
    "map ready_queue (managers k') = (map ready_queue (managers k))[c := q]"
    "tql_inv q" "linked q = linked (queue_of k c)"
    "datas q = (datas (queue_of k c))[current_priority (threads k t) :=
       removeAll t (datas (queue_of k c) ! current_priority (threads k t))]"
proof -
  from rq.delete_range [OF q t(3), of t] obtain q1
    where q1: "tql_remove (queue_of k c) (current_priority (threads k t)) t = Some q1" "tql_inv q1"
      "datas q1 = (datas (queue_of k c))[current_priority (threads k t) :=
         removeAll t (datas (queue_of k c) ! current_priority (threads k t))]"
      "linked q1 = linked (queue_of k c)"
    by blast
  obtain k' where k': "load_next c pp t k = Some k'"
    "threads k' = (threads k)(t := (threads k t)\<lparr>status := Running\<rparr>)" "is_thread k' = is_thread k"
    "current_thread (managers k' ! c) = Some t"
    "map ready_queue (managers k') = (map ready_queue (managers k))[c := q1]"
    using c t q1(1) by (simp add: load_next_def Let_def on_queue_def map_update is_thread_def fun_eq_iff)
  from that [OF k' q1(2,4,3)] show thesis .
qed

lemma sched_inv_swap_queue:
  assumes inv: "sched_inv k" and c: "c < length (managers k)"
    and q: "tql_inv q" "linked q = linked (queue_of k c)" "datas q = datas (queue_of k c)"
  shows "sched_inv (set_queue c q k)"
proof -
  let ?k = "set_queue c q k"
  have "queue_ok (is_thread k) (threads k) d (queue_of ?k d)" if d: "d < length (managers k)" for d
    using sched_inv_queue [OF inv d] q c d by (cases "d = c") (simp_all add: queue_ok_def)
  moreover have "thread_ok (managers ?k) (threads k t)" if "is_thread k t" for t
    using sched_inv_thread [OF inv that] q c by (auto simp: thread_ok_def nth_list_update)
  ultimately show ?thesis
    by (simp add: sched_inv_def)
qed

lemma was_running_ok:
  assumes "current_ok c k" "was_running c k = Some p"
  shows "current_thread (managers k ! c) = Some p" "status (threads k p) = Running" "is_thread k p"
    "core_id (threads k p) = c"
  using assms by (auto simp: was_running_def current_ok_def split: option.splits if_splits)

text \<open>Putting the previous thread back into the queue keeps the invariant.\<close>

lemma save_previous_inv:
  assumes inv: "sched_inv k" and c: "c < length (managers k)" and cur: "current_ok c k"
    and q: "tql_inv q" "linked q = linked (queue_of k c)"
      "datas q = (case was_running c k of None \<Rightarrow> datas (queue_of k c)
         | Some p \<Rightarrow> (datas (queue_of k c))[current_priority (threads k p) :=
             p # datas (queue_of k c) ! current_priority (threads k p)])"
  shows "sched_inv (case current_thread (managers k ! c) of None \<Rightarrow> set_queue c q k
     | Some p \<Rightarrow> upd_thread p (saved c k) (set_queue c q k))"
proof (cases "was_running c k")
  case None
  then have "sched_inv (set_queue c q k)"
    using q by (intro sched_inv_swap_queue [OF inv c]) simp_all
  moreover from None have "status (threads k p) \<noteq> Running" if "current_thread (managers k ! c) = Some p" for p
    using that by (auto simp: was_running_def split: if_splits)
  ultimately show ?thesis
    by (auto split: option.split simp: saved_def intro: sched_inv_upd_thread)
next
  case (Some p)
  note p = was_running_ok [OF cur Some]
  note th = thread_okD [OF inv p(3)]
  note qo = queue_okD [OF inv c]
  have "p \<notin> set (datas (queue_of k c) ! j)" if "j < 64" for j
    using qo(4) [OF that, of p] p(2) by simp
  then have "sched_inv (set_queue c q (upd_thread p (\<lambda>_. saved c k (threads k p)) k))"
    by (intro sched_inv_update [OF inv p(3,4)])
      (use p th q qo Some thread_okD(5) [OF inv p(3)] in \<open>auto simp: saved_def nth_list_update\<close>)
  with p(1) show ?thesis
    using upd_thread_const [of p "saved c k" "set_queue c q k"] by (simp add: set_queue_upd_thread)
qed

text \<open>Taking the chosen thread out of the queue and running it keeps the invariant.\<close>

lemma run_next_inv:
  assumes inv: "sched_inv k" and t: "is_thread k t" "core_id (threads k t) = c" "status (threads k t) = Ready"
    and q: "tql_inv q" "linked q = linked (queue_of k c)" "tql_size q = 64"
      "\<And>j. j < 64 \<Longrightarrow> datas q ! j = removeAll t (datas (queue_of k c) ! j)"
    and k': "threads k' = (threads k)(t := (threads k t)\<lparr>status := Running\<rparr>)" "is_thread k' = is_thread k"
      "map ready_queue (managers k') = (map ready_queue (managers k))[c := q]"
  shows "sched_inv k'"
proof -
  have c: "c < length (managers k)"
    using thread_okD(1) [OF inv t(1)] t(2) by simp
  note qo = queue_okD [OF inv c]
  have "sched_inv (set_queue c q (upd_thread t (\<lambda>_. (threads k t)\<lparr>status := Running\<rparr>) k))"
    by (rule sched_inv_update [OF inv t(1,2)])
      (use t thread_okD [OF inv t(1)] q qo in \<open>auto simp: distinct_removeAll\<close>)
  then show ?thesis
    by (subst sched_inv_same_threads) (use k' in \<open>simp_all add: map_update\<close>)
qed

text \<open>The effect of one scheduling decision on a core.\<close>

lemma Reschedule_spec:
  assumes inv: "sched_inv k" and c: "c < length (managers k)" "c < length (timers (timing k))"
    and cur: "current_ok c k" and lim: "c = 1 \<longrightarrow> limiter_inactive k"
    and owners: "\<And>t. is_thread k t \<Longrightarrow> owner_process (threads k t) \<noteq> None"
  obtains k' and q :: "nat tql" and nxt r where "Reschedule c k = Some k'" "sched_inv k'"
    "take_allowed (allowed k) (rival_bound c k) (datas (queue_of k c)) = (datas q, r)"
    "nxt = (case r of None \<Rightarrow> keeps_running c k | Some t \<Rightarrow> Some t)"
    "current_thread (managers k' ! c) = nxt" "is_thread k' = is_thread k"
    "\<And>t. threads k' t = (let th = (if current_thread (managers k ! c) = Some t then saved c k (threads k t)
        else threads k t) in if nxt = Some t then th\<lparr>status := Running\<rparr> else th)"
proof -
  note qo = queue_okD [OF inv c(1)]
  obtain q nxt r where pop: "pop_next c k = Some (set_queue c q k, nxt)" "tql_inv q"
    "linked q = linked (queue_of k c)"
    "take_allowed (allowed k) (rival_bound c k) (datas (queue_of k c)) = (datas q, r)"
    "nxt = (case r of None \<Rightarrow> keeps_running c k | Some t \<Rightarrow> Some t)"
    by (rule pop_next_spec [OF inv c(1) cur]) blast
  note Pop = PopNextReadyThread_inactive [OF pop(1) lim]
  let ?k1 = "set_queue c q k"
  let ?ds = "datas (queue_of k c)"
  have wr: "was_running c ?k1 = was_running c k" "saved c ?k1 = saved c k"
    using c(1) by (simp_all add: was_running_def saved_def fun_eq_iff split: option.split)
  have qk: "queue_of ?k1 c = q"
    using c(1) by simp
  have lk: "linked (queue_of k c) (current_priority (threads k p))" if "was_running c k = Some p" for p
    using thread_okD(4) [OF inv was_running_ok(3) [OF cur that]] was_running_ok(4) [OF cur that] by simp
  show thesis
  proof (cases "current_thread (managers k ! c) = None \<and> nxt = None")
    case True
    then have r: "r = None"
      using pop(5) by (cases r) simp_all
    with pop(4) have "datas q = ?ds"
      by (auto elim: take_allowed_cases)
    with sched_inv_swap_queue [OF inv c(1) pop(2,3)] have "sched_inv ?k1"
      by simp
    moreover have "Reschedule c k = Some ?k1"
      using True Pop by (simp add: Reschedule_def Let_def)
    ultimately show thesis
      using that [of ?k1 q r nxt] pop(4,5) True c(1) by (simp add: Let_def)
  next
    case False
    have "tql_inv (queue_of ?k1 c)" "c < length (managers ?k1)" "c < length (timers (timing ?k1))"
      "\<And>p. was_running c ?k1 = Some p \<Longrightarrow> linked (queue_of ?k1 c) (current_priority (threads ?k1 p))"
      using c pop(2,3) lk by (simp_all add: wr)
    from save_previous_spec [OF this(2,3,1,4)] obtain q2
      where q2: "save_previous c ?k1 = Some (case current_thread (managers ?k1 ! c) of None \<Rightarrow> set_queue c q2 ?k1
         | Some p \<Rightarrow> upd_thread p (saved c ?k1) (set_queue c q2 ?k1))"
        "tql_inv q2" "linked q2 = linked (queue_of ?k1 c)"
        "datas q2 = (case was_running c ?k1 of None \<Rightarrow> datas (queue_of ?k1 c)
         | Some p \<Rightarrow> (datas (queue_of ?k1 c))[current_priority (threads ?k1 p) :=
             p # datas (queue_of ?k1 c) ! current_priority (threads ?k1 p)])"
      by blast
    have q2d: "datas q2 = (case was_running c k of None \<Rightarrow> datas q
         | Some p \<Rightarrow> (datas q)[current_priority (threads k p) := p # datas q ! current_priority (threads k p)])"
      "linked q2 = linked (queue_of k c)"
      using q2(3,4) c(1) pop(3) by (simp_all add: wr cong: option.case_cong)
    obtain qA where qA: "tql_inv qA" "linked qA = linked (queue_of k c)"
        "datas qA = (case was_running c k of None \<Rightarrow> datas (queue_of k c)
         | Some p \<Rightarrow> (datas (queue_of k c))[current_priority (threads k p) :=
             p # datas (queue_of k c) ! current_priority (threads k p)])"
      by (rule save_previous_spec [OF c qo(1) lk]) blast+
    define kA where "kA = (case current_thread (managers k ! c) of None \<Rightarrow> set_queue c qA k
       | Some p \<Rightarrow> upd_thread p (saved c k) (set_queue c qA k))"
    have invA: "sched_inv kA"
      unfolding kA_def by (rule save_previous_inv [OF inv c(1) cur qA])
    have A: "managers kA = managers (set_queue c qA k)" "is_thread kA = is_thread k"
      "\<And>t. threads kA t = (if current_thread (managers k ! c) = Some t then saved c k (threads k t) else threads k t)"
      by (simp_all add: kA_def split: option.split)
    have qkA: "queue_of kA c = qA" "c < length (managers kA)"
      using c(1) by (simp_all add: A)
    define k2 where k2_def: "k2 = set_queue c q2 kA"
    have "save_previous c ?k1 = Some k2"
      using q2(1) c(1)
      by (cases "current_thread (managers k ! c)")
        (simp_all add: k2_def kA_def wr set_queue_upd_thread set_queue_twice)
    note k2 = this k2_def
    have k2': "queue_of k2 c = q2" "c < length (managers k2)" "threads k2 = threads kA" "is_thread k2 = is_thread k"
      using c(1) by (simp_all add: k2(2) A)
    have P: "datas q2 ! j = (case was_running c k of Some p \<Rightarrow>
          if j = current_priority (threads k p) then p # datas q ! j else datas q ! j | None \<Rightarrow> datas q ! j)"
      "datas qA ! j = (case was_running c k of Some p \<Rightarrow>
          if j = current_priority (threads k p) then p # ?ds ! j else ?ds ! j | None \<Rightarrow> ?ds ! j)"
      if "j < 64" for j
      using that qo(2) take_allowed_length [of "allowed k" "rival_bound c k" ?ds] pop(4)
      by (auto simp: q2d(1) qA(3) split: option.split)
    have sz: "tql_size q = 64" "tql_size q2 = 64"
      using qo(2) take_allowed_length [of "allowed k" "rival_bound c k" ?ds] pop(4)
      by (auto simp: q2d(1) split: option.split)
    show thesis
    proof (cases nxt)
      case None
      then have r: "r = None"
        using pop(5) by (cases r) simp_all
      with pop(4) have "datas q = ?ds"
        by (auto elim: take_allowed_cases)
      then have "datas q2 = datas (queue_of kA c)"
        by (simp add: qkA q2d(1) qA(3) split: option.split)
      moreover have "linked q2 = linked (queue_of kA c)"
        by (simp add: q2d(2) qA(2) qkA)
      ultimately have "sched_inv k2"
        unfolding k2(2) by (intro sched_inv_swap_queue [OF invA qkA(2) q2(2)])
      then have "sched_inv (upd_manager c (\<lambda>m. m\<lparr>current_thread := None\<rparr>) k2)"
        by (subst sched_inv_same_threads) (use k2'(2) in \<open>simp_all add: map_update list_update_same_conv\<close>)
      moreover obtain p where "current_thread (managers k ! c) = Some p"
        using False None by auto
      then have "Reschedule c k = Some (upd_manager c (\<lambda>m. m\<lparr>current_thread := None\<rparr>) k2)"
        using None c(1) Pop k2(1) by (simp add: Reschedule_def SwitchContext_def Let_def)
      ultimately show thesis
        using that [of "upd_manager c (\<lambda>m. m\<lparr>current_thread := None\<rparr>) k2" q r nxt] pop(4,5) None k2' A
        by (simp add: Let_def)
    next
      case (Some t)
      have tt: "is_thread k t \<and> core_id (threads k t) = c \<and> status (threads kA t) = Ready \<and>
          (\<forall>j < 64. j \<noteq> current_priority (threads k t) \<longrightarrow> datas q2 ! j = removeAll t (datas qA ! j)) \<and>
          removeAll t (datas q2 ! current_priority (threads k t)) = removeAll t (datas qA ! current_priority (threads k t))"
      proof (cases r)
        case None
        then have kr: "keeps_running c k = Some t" "datas q = ?ds"
          using pop(4,5) Some by (auto elim: take_allowed_cases)
        then have wt: "was_running c k = Some t" "current_thread (managers k ! c) = Some t"
          by (auto simp: keeps_running_def was_running_def split: option.splits if_splits)
        note w = was_running_ok [OF cur wt(1)]
        have "t \<notin> set (?ds ! j)" if "j < 64" for j
          using qo(4) [OF that, of t] w(2) by simp
        with w wt P kr(2) thread_okD(2) [OF inv w(3)] show ?thesis
          by (simp add: A saved_def)
      next
        case (Some u)
        with pop(5) \<open>nxt = Some t\<close> have "r = Some t"
          by simp
        with pop(4) obtain p where p: "p < rival_bound c k" "t \<in> set (?ds ! p)"
          "datas q = ?ds[p := remove1 t (?ds ! p)]"
          by (auto elim: take_allowed_cases)
        have "p < 64"
          using p(1) rival_bound_le [OF inv cur] by simp
        note t = qo(4) [OF this, of t, THEN iffD1, OF p(2)]
        have nt: "t \<notin> set (?ds ! j)" if "j < 64" "j \<noteq> p" for j
          using qo(4) [OF that(1), of t] t that(2) by simp
        have ne: "was_running c k \<noteq> Some t"
          using was_running_ok(2) [OF cur, of t] t by auto
        have eq: "remove1 t (?ds ! p) = removeAll t (?ds ! p)"
          using qo(3) [OF \<open>p < 64\<close>] by (rule distinct_remove1_removeAll)
        have qj: "datas q ! j = removeAll t (?ds ! j)" if "j < 64" for j
          using nt [OF that] that qo(2) by (cases "j = p") (simp_all add: p(3) eq)
        have "datas q2 ! j = removeAll t (datas qA ! j)" if "j < 64" for j
          using ne that by (auto simp: P qj split: option.split)
        with t \<open>p < 64\<close> show ?thesis
          by (simp add: A saved_def)
      qed
      from tt have t: "status (threads k2 t) = Ready" "current_priority (threads k2 t) < tql_size (queue_of k2 c)"
        "owner_process (threads k2 t) \<noteq> None" "current_priority (threads k2 t) = current_priority (threads k t)"
        using thread_okD(2) [OF inv, of t] owners [of t] sz by (simp_all add: k2' A saved_def)
      from q2(2) k2' have "tql_inv (queue_of k2 c)"
        by simp
      from load_next_spec [OF k2'(2) t(1,3,2) this] obtain k' q3
        where k': "load_next c (previous_process c ?k1) t k2 = Some k'"
          "threads k' = (threads k2)(t := (threads k2 t)\<lparr>status := Running\<rparr>)"
          "is_thread k' = is_thread k2" "current_thread (managers k' ! c) = Some t"
          "map ready_queue (managers k') = (map ready_queue (managers k2))[c := q3]"
          "tql_inv q3" "linked q3 = linked (queue_of k2 c)"
          "datas q3 = (datas (queue_of k2 c))[current_priority (threads k2 t) :=
            removeAll t (datas (queue_of k2 c) ! current_priority (threads k2 t))]"
        by blast
      have "Reschedule c k = Some k'"
        using Some c(1) Pop k2(1) k'(1) by (simp add: Reschedule_def SwitchContext_def Let_def)
      moreover have "sched_inv k'"
      proof (rule run_next_inv [OF invA])
        show "is_thread kA t" "core_id (threads kA t) = c" "status (threads kA t) = Ready"
          using tt by (simp_all add: A saved_def)
        show "tql_inv q3" "linked q3 = linked (queue_of kA c)" "tql_size q3 = 64"
          using k'(6,7,8) q2d(2) qA(2) sz by (simp_all add: k2' qkA)
        show "datas q3 ! j = removeAll t (datas (queue_of kA c) ! j)" if "j < 64" for j
          using tt that sz
          by (cases "j = current_priority (threads k t)") (simp_all add: k'(8) k2' qkA t(4) [unfolded k2'])
        show "map ready_queue (managers k') = (map ready_queue (managers kA))[c := q3]"
          by (simp add: k'(5) k2(2) map_update)
      qed (simp_all add: k' k2' A)
      moreover have "threads k' x = (let th = (if current_thread (managers k ! c) = Some x
          then saved c k (threads k x) else threads k x) in
          if nxt = Some x then th\<lparr>status := Running\<rparr> else th)" for x
        by (simp add: k'(2) k2'(3) A(3) Some Let_def)
      moreover have "is_thread k' = is_thread k" "current_thread (managers k' ! c) = nxt"
        using k'(3,4) k2'(4) Some by simp_all
      ultimately show thesis
        using that [of k' q r nxt] pop(4,5) by blast
    qed
  qed
qed

section \<open>New threads\<close>

lemma sched_inv_new_kernel: "sched_inv (new_kernel n tm limits m)"
proof -
  have "queue_ok is_th ths c (tql_new 64)" if "\<And>t. \<not> is_th t" for is_th ths c
    using that tql_inv_new [of 64] by (simp add: queue_ok_def) (simp add: tql_new_def)
  then show ?thesis
    by (simp add: sched_inv_def new_kernel_def new_thread_manager_def is_thread_def)
qed

lemma sched_inv_add_thread:
  assumes inv: "sched_inv k" and t: "\<not> is_thread k t" and c: "c < length (managers k)"
    and th: "core_id th = c" "nominal_priority th < 64" "current_priority th < 64" "status th = Dormant"
    and q: "tql_inv q" "datas q = datas (queue_of k c)" "linked q (current_priority th)"
      "\<And>j. linked (queue_of k c) j \<Longrightarrow> linked q j"
    and k': "threads k' = (threads k)(t := th)" "is_thread k' = (is_thread k)(t := True)"
      "map ready_queue (managers k') = (map ready_queue (managers k))[c := q]"
  shows "sched_inv k'"
proof -
  have len: "length (managers k') = length (managers k)"
    using arg_cong [OF k'(3), of length] by simp
  have rq: "queue_of k' d = (if d = c then q else queue_of k d)" if "d < length (managers k)" for d
    using arg_cong [OF k'(3), of "\<lambda>l. l ! d"] that c len by (auto simp: nth_list_update)
  have "queue_ok (is_thread k') (threads k') d (queue_of k' d)" if d: "d < length (managers k)" for d
    using sched_inv_queue [OF inv d] q(1,2) t th(4) d c
    by (auto simp: queue_ok_def rq k'(1,2))
  moreover have "thread_ok (managers k') (threads k' u)" if "is_thread k' u" for u
  proof (cases "u = t")
    case True
    with th q c show ?thesis
      by (simp add: thread_ok_def k'(1) len rq)
  next
    case False
    with that have "is_thread k u"
      by (simp add: k'(2))
    from sched_inv_thread [OF inv this] q(4) False show ?thesis
      by (auto simp: thread_ok_def k'(1) len rq)
  qed
  ultimately show ?thesis
    by (simp add: sched_inv_def len)
qed

lemma register_thread_simps:
  "threads (register_thread t c th k) = (threads k)(t := th)"
  "is_thread (register_thread t c th k) = (is_thread k)(t := True)"
  "map ready_queue (managers (register_thread t c th k)) = map ready_queue (managers k)"
  "length (managers (register_thread t c th k)) = length (managers k)"
  "timing (register_thread t c th k) = timing k"
  "current_thread (managers (register_thread t c th k) ! d) = current_thread (managers k ! d)"
  "limiter_inactive (register_thread t c th k) = limiter_inactive k"
  by (simp_all add: register_thread_def is_thread_def fun_eq_iff map_update_same nth_update_same
      limiter_inactive_def get_limiter_def GetCpuLimiter_def Let_def)

lemma CreateThread_spec:
  assumes inv: "sched_inv k" and t: "\<not> is_thread k t" and c: "c < length (managers k)" "c < 5"
    and tm: "c < length (timers (timing k))" and p: "p < 64"
  obtains k' where "CreateThread t entry p arg (int c) stack owner category True (Inr addr) to_ready k = Some (k', Inr t)"
    "sched_inv k'" "is_thread k' = (is_thread k)(t := True)" "\<And>u. u \<noteq> t \<Longrightarrow> threads k' u = threads k u"
    "status (threads k' t) = (if to_ready then Ready else Dormant)" "current_priority (threads k' t) = p"
    "core_id (threads k' t) = c" "owner_process (threads k' t) = Some owner" "unschedule_mode (threads k' t) = 0"
    "length (managers k') = length (managers k)" "timing k' = timing k"
    "\<And>d. current_thread (managers k' ! d) = current_thread (managers k ! d)"
    "limiter_inactive k' \<longleftrightarrow> limiter_inactive k"
proof -
  note qo = queue_okD [OF inv c(1)]
  from rq.enable_range [OF qo(1), of p] p qo(2) obtain q where q: "prepare (queue_of k c) p = Some q"
    "tql_inv q" "datas q = datas (queue_of k c)" "\<forall>j. linked q j \<longleftrightarrow> j = p \<or> linked (queue_of k c) j"
    by auto
  let ?th = "blank_thread\<lparr>thread_id := next_thread_id k, core_id := c, status := Dormant,
      entry_point := entry, stack_top := stack, nominal_priority := p,
      current_priority := p, last_running_ticks := timer_ticks (timers (timing k) ! c),
      processor_id := int c, owner_process := Some owner, resource_limit_category := category\<rparr>"
  let ?f = "\<lambda>th. th\<lparr>tls_address := addr, context_regs := ResetThreadContext (context_regs th) stack entry arg\<rparr>"
  define k2 where "k2 = upd_thread t ?f (register_thread t c ?th (set_queue c q k))"
  have k2: "threads k2 = (threads k)(t := ?f ?th)" "is_thread k2 = (is_thread k)(t := True)"
    "map ready_queue (managers k2) = (map ready_queue (managers k))[c := q]"
    "length (managers k2) = length (managers k)" "timing k2 = timing k"
    "\<And>d. current_thread (managers k2 ! d) = current_thread (managers k ! d)"
    "limiter_inactive k2 \<longleftrightarrow> limiter_inactive k"
    by (simp_all add: k2_def register_thread_simps map_update nth_update_same limiter_inactive_def
      get_limiter_def GetCpuLimiter_def Let_def) (simp add: upd_thread_def register_thread_def set_queue_def
      set_waiting_def set_object_def upd_manager_def nth_update_same)
  have inv2: "sched_inv k2"
    by (rule sched_inv_add_thread [OF inv t c(1) _ _ _ _ _ _ _ _ k2(1-3)])
      (use q p in \<open>simp_all add: blank_thread_def\<close>)
  have run: "CreateThread t entry p arg (int c) stack owner category True (Inr addr) to_ready k =
      do { k \<leftarrow> (if to_ready then push_ready t k2 else Some k2); Some (k, Inr t) }"
    using c tm p q(1)
    by (simp add: CreateThread_def ThreadPrioLowest_def on_queue_Some Let_def k2_def)
  have th2: "is_thread k2 t" "core_id (threads k2 t) = c" "status (threads k2 t) = Dormant"
    "wakeup_callback (threads k2 t) = None"
    using k2(1,2) by (simp_all add: blank_thread_def)
  show thesis
  proof (cases to_ready)
    case False
    with run that [of k2] inv2 k2 show thesis
      by (simp add: blank_thread_def)
  next
    case True
    from th2(3) have "status (threads k2 t) \<noteq> Ready"
      by simp
    from push_ready_spec [OF inv2 th2(1) this th2(4)] obtain q3
      where q3: "push_ready t k2 = Some (upd_thread t (\<lambda>th. th\<lparr>status := Ready\<rparr>) (set_queue c q3 k2))"
        "sched_inv (upd_thread t (\<lambda>th. th\<lparr>status := Ready\<rparr>) (set_queue c q3 k2))"
      unfolding th2(2) by blast
    have inact: "limiter_inactive (upd_thread t g k3) \<longleftrightarrow> limiter_inactive k3" for g and k3 :: "'a kernel"
      by (simp add: limiter_inactive_def get_limiter_def GetCpuLimiter_def Let_def)
    show thesis
      by (rule that [of "upd_thread t (\<lambda>th. th\<lparr>status := Ready\<rparr>) (set_queue c q3 k2)"])
        (use True run q3 k2 in \<open>simp_all add: blank_thread_def nth_update_same inact\<close>)
  qed
qed

definition same_sizes :: "'m kernel \<Rightarrow> 'm kernel \<Rightarrow> bool" where
  "same_sizes k k' \<longleftrightarrow> length (managers k') = length (managers k) \<and>
     length (timers (timing k')) = length (timers (timing k))"

lemma on_queue_sizes: "on_queue c f k = Some k' \<Longrightarrow> same_sizes k k'"
  by (auto simp: on_queue_def same_sizes_def bind_eq_Some_conv split: if_splits)

lemma save_previous_sizes: "save_previous c k = Some k' \<Longrightarrow> same_sizes k k'"
  by (auto simp: save_previous_def Let_def bind_eq_Some_conv split: option.splits if_splits
      dest!: on_queue_sizes) (simp_all add: same_sizes_def)

lemma load_next_sizes: "load_next c pp t k = Some k' \<Longrightarrow> same_sizes k k'"
  by (auto simp: load_next_def Let_def bind_eq_Some_conv split: if_splits dest!: on_queue_sizes)
    (simp_all add: same_sizes_def UnscheduleEvent_def split: if_splits)

lemma SwitchContext_sizes:
  assumes "SwitchContext c n k = Some k'"
  shows "same_sizes k k'"
proof -
  from assms obtain k1 where k1: "save_previous c k = Some k1"
    and k': "(case n of Some t \<Rightarrow> load_next c (previous_process c k) t k1
      | None \<Rightarrow> Some (upd_manager c (\<lambda>m. m\<lparr>current_thread := None\<rparr>) k1)) = Some k'"
    by (auto simp: SwitchContext_def Let_def bind_eq_Some_conv split: if_splits)
  have "same_sizes k1 k'"
    using k' by (cases n) (auto intro: load_next_sizes simp: same_sizes_def [of k1 "upd_manager c f k1" for f])
  with save_previous_sizes [OF k1] show ?thesis
    by (simp add: same_sizes_def)
qed

lemma Reschedule_keeps:
  assumes "sched_inv k" "c < length (managers k)" "current_ok c k" "c = 1 \<longrightarrow> limiter_inactive k"
    and R: "Reschedule c k = Some k'"
  shows "same_sizes k k'"
proof -
  obtain q nxt r where "pop_next c k = Some (set_queue c q k, nxt)"
    by (rule pop_next_spec [OF assms(1-3)]) blast
  note PopNextReadyThread_inactive [OF this assms(4)]
  then show ?thesis
    using R SwitchContext_sizes [of c nxt "set_queue c q k" k']
    by (auto simp: Reschedule_def Let_def same_sizes_def split: if_splits)
qed

section \<open>What the decision achieves\<close>

definition ready_on :: "nat \<Rightarrow> 'm kernel \<Rightarrow> nat \<Rightarrow> bool" where
  "ready_on c k u \<longleftrightarrow> is_thread k u \<and> core_id (threads k u) = c \<and> status (threads k u) = Ready \<and> allowed k u"

lemma ready_queued:
  assumes "sched_inv k" "c < length (managers k)" "ready_on c k u"
  shows "u \<in> set (datas (queue_of k c) ! current_priority (threads k u))"
  using queue_okD(4) [OF assms(1,2) thread_okD(2) [OF assms(1)], of u u] assms(3) by (simp add: ready_on_def)

text \<open>Every thread that was in the race is at most as urgent as the one chosen.\<close>

lemma next_beats:
  assumes inv: "sched_inv k" and c: "c < length (managers k)" and cur: "current_ok c k"
    and r: "take_allowed (allowed k) (rival_bound c k) (datas (queue_of k c)) = (ds, r)"
      "nxt = (case r of None \<Rightarrow> keeps_running c k | Some t \<Rightarrow> Some t)"
    and u: "is_thread k u" "core_id (threads k u) = c" "allowed k u"
      "keeps_running c k = Some u \<or> status (threads k u) = Ready" "nxt \<noteq> Some u"
  shows "\<exists>t. nxt = Some t \<and> current_priority (threads k t) \<le> current_priority (threads k u)"
proof -
  note p64 = thread_okD(2) [OF inv u(1)]
  have inq: "u \<in> set (datas (queue_of k c) ! current_priority (threads k u))" if "status (threads k u) = Ready"
    using ready_queued [OF inv c] u that by (simp add: ready_on_def)
  from r(1) show ?thesis
  proof (cases rule: take_allowed_cases)
    case 1
    with r(2) u(4,5) have "status (threads k u) = Ready" "nxt = keeps_running c k"
      by auto
    with 1(3) [OF _ inq] u(3) have "rival_bound c k \<le> current_priority (threads k u)"
      by (metis leI)
    with p64 \<open>nxt = keeps_running c k\<close> show ?thesis
      by (auto simp: rival_bound_def split: option.splits)
  next
    case (2 p t)
    have "p < 64"
      using 2(2) rival_bound_le [OF inv cur] by simp
    then have pt: "current_priority (threads k t) = p"
      using queue_okD(4) [OF inv c, of p t] 2(5) by simp
    have "p \<le> current_priority (threads k u)"
    proof (cases "status (threads k u) = Ready")
      case True
      with 2(6) [OF _ inq] u(3) show ?thesis
        by (metis leI)
    next
      case False
      with u(4) 2(2) show ?thesis
        by (simp add: rival_bound_def)
    qed
    with 2(1) r(2) pt show ?thesis by simp
  qed
qed

end
