(* ===== verification/Wait_Objects.thy ===== *)
theory Wait_Objects
  imports Scheduler
begin

text \<open>
  The objects a thread can wait for and how they wake it (\<open>core/hle/kernel/wait_object.cpp\<close>,
  \<open>mutex.cpp\<close>, \<open>semaphore.cpp\<close>, \<open>event.cpp\<close>, \<open>timer.cpp\<close>), and the parts of \<open>thread.cpp\<close> that go through
  them: the wakeup by timeout and the end of a thread. The virtual functions dispatch on the
  constructor of the object.
\<close>

section \<open>Waiting and acquiring\<close>

definition ShouldWait :: "'m kernel \<Rightarrow> nat \<Rightarrow> nat \<Rightarrow> bool" where
  "ShouldWait k ob t =
     (case wait_objs k ob of
        WThread \<Rightarrow> status (threads k ob) \<noteq> Dead
      | WMutex m \<Rightarrow> lock_count m > 0 \<and> holding_thread m \<noteq> Some t
      | WSemaphore s \<Rightarrow> available_count s \<le> 0
      | WEvent e \<Rightarrow> \<not> event_signaled e
      | WTimer tm \<Rightarrow> \<not> timer_signaled tm)"

definition upd_mutex :: "nat \<Rightarrow> (mutex_data \<Rightarrow> mutex_data) \<Rightarrow> 'm kernel \<Rightarrow> 'm kernel" where
  "upd_mutex ob f k = (case wait_objs k ob of WMutex m \<Rightarrow> set_object ob (WMutex (f m)) k | _ \<Rightarrow> k)"

definition mutex_acquire :: "nat \<Rightarrow> nat \<Rightarrow> 'm kernel \<Rightarrow> 'm kernel option" where
  "mutex_acquire ob t k = do {
     let k = upd_mutex ob (\<lambda>m. m\<lparr>mutex_priority := current_priority (threads k t), holding_thread := Some t\<rparr>) k;
     let k = upd_thread t (\<lambda>th. th\<lparr>held_mutexes := set_insert ob (held_mutexes th)\<rparr>) k;
     k \<leftarrow> UpdatePriority t k;
     Some (PrepareReschedule k) }"

definition Acquire :: "nat \<Rightarrow> nat \<Rightarrow> 'm kernel \<Rightarrow> 'm kernel option" where
  "Acquire ob t k =
     (case wait_objs k ob of
        WThread \<Rightarrow> do { assertion (\<not> ShouldWait k ob t); Some k }
      | WMutex m \<Rightarrow> do {
          assertion (\<not> ShouldWait k ob t);
          k \<leftarrow> (if lock_count m = 0 then mutex_acquire ob t k else Some k);
          Some (upd_mutex ob (\<lambda>m. m\<lparr>lock_count := lock_count m + 1\<rparr>) k) }
      | WSemaphore s \<Rightarrow>
          Some (if available_count s \<le> 0 then k
                else set_object ob (WSemaphore (s\<lparr>available_count := available_count s - 1\<rparr>)) k)
      | WEvent e \<Rightarrow> do {
          assertion (\<not> ShouldWait k ob t);
          Some (if event_reset e = OneShot then set_object ob (WEvent (e\<lparr>event_signaled := False\<rparr>)) k else k) }
      | WTimer tm \<Rightarrow> do {
          assertion (\<not> ShouldWait k ob t);
          Some (if timer_reset tm = OneShot then set_object ob (WTimer (tm\<lparr>timer_signaled := False\<rparr>)) k else k) })"

section \<open>The waiting lists\<close>

fun best_waiter :: "'m kernel \<Rightarrow> nat list \<Rightarrow> nat \<Rightarrow> nat" where
  "best_waiter k [] best = best"
| "best_waiter k (t # ts) best =
     best_waiter k ts (if current_priority (threads k t) < best then current_priority (threads k t) else best)"

definition mutex_UpdatePriority :: "nat \<Rightarrow> 'm kernel \<Rightarrow> 'm kernel option" where
  "mutex_UpdatePriority ob k =
     (case wait_objs k ob of
        WMutex m \<Rightarrow>
          (case holding_thread m of
             None \<Rightarrow> Some k
           | Some h \<Rightarrow>
               let best = best_waiter k (waiting_threads k ob) ThreadPrioLowest in
               if best \<noteq> mutex_priority m
               then UpdatePriority h (set_object ob (WMutex (m\<lparr>mutex_priority := best\<rparr>)) k)
               else Some k)
      | _ \<Rightarrow> Some k)"

definition AddWaitingThread :: "nat \<Rightarrow> nat \<Rightarrow> 'm kernel \<Rightarrow> 'm kernel option" where
  "AddWaitingThread ob t k =
     (let ts = waiting_threads k ob;
          k = (if t \<in> set ts then k else set_waiting ob (ts @ [t]) k)
      in case wait_objs k ob of
           WMutex _ \<Rightarrow>
             mutex_UpdatePriority ob
               (upd_thread t (\<lambda>th. th\<lparr>pending_mutexes := set_insert ob (pending_mutexes th)\<rparr>) k)
         | _ \<Rightarrow> Some k)"

definition RemoveWaitingThread :: "nat \<Rightarrow> nat \<Rightarrow> 'm kernel \<Rightarrow> 'm kernel option" where
  "RemoveWaitingThread ob t k =
     (let k = set_waiting ob (remove1 t (waiting_threads k ob)) k
      in case wait_objs k ob of
           WMutex _ \<Rightarrow>
             mutex_UpdatePriority ob
               (upd_thread t (\<lambda>th. th\<lparr>pending_mutexes := set_erase ob (pending_mutexes th)\<rparr>) k)
         | _ \<Rightarrow> Some k)"

section \<open>Waking\<close>

definition waits_on_objects :: "ThreadStatus \<Rightarrow> bool" where
  "waits_on_objects st \<longleftrightarrow> st = WaitSynchAny \<or> st = WaitSynchAll \<or> st = WaitHleEvent"

definition ready_to_run :: "'m kernel \<Rightarrow> nat \<Rightarrow> bool" where
  "ready_to_run k t \<longleftrightarrow>
     (status (threads k t) = WaitSynchAll \<longrightarrow>
        (\<forall>ob \<in> set (wait_objects (threads k t)). \<not> ShouldWait k ob t))"

fun highest_loop :: "'m kernel \<Rightarrow> nat \<Rightarrow> nat list \<Rightarrow> nat option \<Rightarrow> nat \<Rightarrow> nat option option" where
  "highest_loop k ob [] candidate candidate_priority = Some candidate"
| "highest_loop k ob (t # ts) candidate candidate_priority =
     (if \<not> waits_on_objects (status (threads k t)) then None
      else if current_priority (threads k t) \<ge> candidate_priority
      then highest_loop k ob ts candidate candidate_priority
      else if ShouldWait k ob t then highest_loop k ob ts candidate candidate_priority
      else if ready_to_run k t then highest_loop k ob ts (Some t) (current_priority (threads k t))
      else highest_loop k ob ts candidate candidate_priority)"

definition GetHighestPriorityReadyThread :: "nat \<Rightarrow> 'm kernel \<Rightarrow> nat option option" where
  "GetHighestPriorityReadyThread ob k =
     highest_loop k ob (waiting_threads k ob) None (ThreadPrioLowest + 1)"

text \<open>\<open>wakeup_callback->WakeUp\<close>; on a timeout the object is null.\<close>

definition WakeUp :: "ThreadWakeupReason \<Rightarrow> nat \<Rightarrow> nat \<Rightarrow> 'm kernel \<Rightarrow> 'm kernel option" where
  "WakeUp reason t ob k =
     (case wakeup_callback (threads k t) of
        None \<Rightarrow> Some k
      | Some (SVC_SyncCallback do_output) \<Rightarrow>
          if reason = Timeout then Some (SetWaitSynchronizationResult t ResultTimeout k)
          else do {
            let k = SetWaitSynchronizationResult t ResultSuccess k;
            if do_output
            then do { i \<leftarrow> GetWaitObjectIndex t ob k; Some (SetWaitSynchronizationOutput t i k) }
            else Some k }
      | Some (ArbiterCallback a) \<Rightarrow> do {
          assertion (reason = Timeout);
          Some (k\<lparr>arbiter_threads := (arbiter_threads k)(a := removeAll t (arbiter_threads k a))\<rparr>) })"

definition leave_objects :: "nat \<Rightarrow> 'm kernel \<Rightarrow> 'm kernel option" where
  "leave_objects t k = do {
     k \<leftarrow> for_each (\<lambda>ob. RemoveWaitingThread ob t) (wait_objects (threads k t)) k;
     Some (upd_thread t (\<lambda>th. th\<lparr>wait_objects := []\<rparr>) k) }"

text \<open>The body of the loop in \<open>WakeupAllWaitingThreads\<close>.\<close>

definition wake_one :: "nat \<Rightarrow> nat \<Rightarrow> 'm kernel \<Rightarrow> 'm kernel option" where
  "wake_one ob t k = do {
     k \<leftarrow> (if status (threads k t) \<noteq> WaitSynchAll then Acquire ob t k
          else for_each (\<lambda>x. Acquire x t) (wait_objects (threads k t)) k);
     k \<leftarrow> WakeUp Signal t ob k;
     k \<leftarrow> leave_objects t k;
     ResumeFromWait t k }"

definition notify_hle :: "nat \<Rightarrow> 'm kernel \<Rightarrow> 'm kernel" where
  "notify_hle ob k =
     (if has_hle_notifier k ob then k\<lparr>hle_notifications := hle_notifications k @ [ob]\<rparr> else k)"

partial_function (option) wakeup_loop :: "nat \<Rightarrow> 'm kernel \<Rightarrow> 'm kernel option" where
  "wakeup_loop ob k =
     Option.bind (GetHighestPriorityReadyThread ob k) (\<lambda>r.
       case r of
         None \<Rightarrow> Some (notify_hle ob k)
       | Some t \<Rightarrow> Option.bind (wake_one ob t k) (wakeup_loop ob))"

text \<open>Events and timers that are pulsed lose their signal once the waiters are awake.\<close>

definition end_pulse :: "nat \<Rightarrow> 'm kernel \<Rightarrow> 'm kernel" where
  "end_pulse ob k =
     (case wait_objs k ob of
        WEvent e \<Rightarrow> if event_reset e = Pulse then set_object ob (WEvent (e\<lparr>event_signaled := False\<rparr>)) k else k
      | WTimer tm \<Rightarrow> if timer_reset tm = Pulse then set_object ob (WTimer (tm\<lparr>timer_signaled := False\<rparr>)) k else k
      | _ \<Rightarrow> k)"

definition WakeupAllWaitingThreads :: "nat \<Rightarrow> 'm kernel \<Rightarrow> 'm kernel option" where
  "WakeupAllWaitingThreads ob k = do {
     k \<leftarrow> wakeup_loop ob k;
     Some (end_pulse ob k) }"

section \<open>Mutexes\<close>

text \<open>
  \<open>garbage\<close> is the indeterminate initial value of \<open>Mutex::priority\<close>, which \<open>CreateMutex\<close> does not set.
\<close>

definition running_thread :: "'m kernel \<Rightarrow> nat option" where
  "running_thread k =
     (if current_timer (timing k) < length (managers k)
      then current_thread (managers k ! current_timer (timing k)) else None)"

definition CreateMutex :: "nat \<Rightarrow> nat \<Rightarrow> bool \<Rightarrow> 'm kernel \<Rightarrow> 'm kernel option" where
  "CreateMutex ob garbage initial_locked k = do {
     let k = set_waiting ob [] (set_object ob
         (WMutex \<lparr>lock_count = 0, mutex_priority = garbage, holding_thread = None\<rparr>) k);
     if initial_locked then do { t \<leftarrow> running_thread k; Acquire ob t k } else Some k }"

definition mutex_Release :: "nat \<Rightarrow> nat \<Rightarrow> 'm kernel \<Rightarrow> ('m kernel \<times> u32) option" where
  "mutex_Release ob t k =
     (case wait_objs k ob of
        WMutex m \<Rightarrow>
          if holding_thread m \<noteq> Some t then Some (k, ResultWrongLockingThread)
          else if lock_count m \<le> 0 then Some (k, ResultMutexInvalidState)
          else do {
            let k = upd_mutex ob (\<lambda>m. m\<lparr>lock_count := lock_count m - 1\<rparr>) k;
            k \<leftarrow> (if lock_count m - 1 = 0
                 then do {
                   let k = upd_thread t (\<lambda>th. th\<lparr>held_mutexes := set_erase ob (held_mutexes th)\<rparr>) k;
                   k \<leftarrow> UpdatePriority t k;
                   let k = upd_mutex ob (\<lambda>m. m\<lparr>holding_thread := None\<rparr>) k;
                   k \<leftarrow> WakeupAllWaitingThreads ob k;
                   Some (PrepareReschedule k) }
                 else Some k);
            Some (k, ResultSuccess) }
      | _ \<Rightarrow> None)"

definition ReleaseThreadMutexes :: "nat \<Rightarrow> 'm kernel \<Rightarrow> 'm kernel option" where
  "ReleaseThreadMutexes t k = do {
     k \<leftarrow> for_each (\<lambda>ob k.
            WakeupAllWaitingThreads ob (upd_mutex ob (\<lambda>m. m\<lparr>lock_count := 0, holding_thread := None\<rparr>) k))
          (held_mutexes (threads k t)) k;
     Some (upd_thread t (\<lambda>th. th\<lparr>held_mutexes := []\<rparr>) k) }"

section \<open>Semaphores\<close>

definition CreateSemaphore :: "nat \<Rightarrow> int \<Rightarrow> int \<Rightarrow> 'm kernel \<Rightarrow> 'm kernel \<times> u32" where
  "CreateSemaphore ob initial maximum k =
     (if \<not> initial \<le> maximum then (k, ResultInvalidCombinationKernel)
      else (set_waiting ob [] (set_object ob (WSemaphore \<lparr>max_count = maximum, available_count = initial\<rparr>) k),
            ResultSuccess))"

text \<open>\<open>release_count + available_count\<close> is an \<open>s32\<close> sum.\<close>

definition semaphore_Release :: "nat \<Rightarrow> int \<Rightarrow> 'm kernel \<Rightarrow> ('m kernel \<times> (u32 + int)) option" where
  "semaphore_Release ob release_count k =
     (case wait_objs k ob of
        WSemaphore s \<Rightarrow> do {
          assertion (in_s32 (release_count + available_count s));
          if \<not> max_count s \<ge> release_count + available_count s then Some (k, Inl ResultOutOfRangeKernel)
          else do {
            k \<leftarrow> WakeupAllWaitingThreads ob
                  (set_object ob (WSemaphore (s\<lparr>available_count := available_count s + release_count\<rparr>)) k);
            Some (k, Inr (available_count s)) } }
      | _ \<Rightarrow> None)"

section \<open>Events\<close>

definition CreateEvent :: "nat \<Rightarrow> ResetType \<Rightarrow> 'm kernel \<Rightarrow> 'm kernel" where
  "CreateEvent ob reset k =
     set_waiting ob [] (set_object ob (WEvent \<lparr>event_reset = reset, event_signaled = False\<rparr>) k)"

definition event_Signal :: "nat \<Rightarrow> 'm kernel \<Rightarrow> 'm kernel option" where
  "event_Signal ob k =
     (case wait_objs k ob of
        WEvent e \<Rightarrow> WakeupAllWaitingThreads ob (set_object ob (WEvent (e\<lparr>event_signaled := True\<rparr>)) k)
      | _ \<Rightarrow> None)"

definition event_Clear :: "nat \<Rightarrow> 'm kernel \<Rightarrow> 'm kernel option" where
  "event_Clear ob k =
     (case wait_objs k ob of
        WEvent e \<Rightarrow> Some (set_object ob (WEvent (e\<lparr>event_signaled := False\<rparr>)) k)
      | _ \<Rightarrow> None)"

section \<open>Timers\<close>

definition CreateTimer :: "nat \<Rightarrow> ResetType \<Rightarrow> 'm kernel \<Rightarrow> 'm kernel" where
  "CreateTimer ob reset k =
     (let i = next_timer_callback_id k + 1 in
      set_waiting ob [] (set_object ob
        (WTimer \<lparr>timer_reset = reset, timer_signaled = False, initial_delay = 0, interval_delay = 0,
                 callback_id = i\<rparr>)
        (k\<lparr>next_timer_callback_id := i, timer_callback_table := (timer_callback_table k)(i \<mapsto> ob)\<rparr>)))"

definition schedule :: "int \<Rightarrow> kernel_event \<Rightarrow> nat \<Rightarrow> 'm kernel \<Rightarrow> 'm kernel option" where
  "schedule cycles ev data k = do {
     tm \<leftarrow> ScheduleEvent cycles ev data None False (timing k);
     Some (k\<lparr>timing := tm\<rparr>) }"

definition timer_Signal :: "nat \<Rightarrow> int \<Rightarrow> 'm kernel \<Rightarrow> 'm kernel option" where
  "timer_Signal ob cycles_late k =
     (case wait_objs k ob of
        WTimer tm \<Rightarrow> do {
          k \<leftarrow> WakeupAllWaitingThreads ob (set_object ob (WTimer (tm\<lparr>timer_signaled := True\<rparr>)) k);
          if interval_delay tm \<noteq> 0
          then schedule (nsToCycles_u64 (interval_delay tm) - cycles_late) TimerFired (callback_id tm) k
          else Some k }
      | _ \<Rightarrow> None)"

definition timer_Cancel :: "nat \<Rightarrow> 'm kernel \<Rightarrow> 'm kernel option" where
  "timer_Cancel ob k =
     (case wait_objs k ob of
        WTimer tm \<Rightarrow> Some (k\<lparr>timing := UnscheduleEvent TimerFired (callback_id tm) (timing k)\<rparr>)
      | _ \<Rightarrow> None)"

definition timer_Clear :: "nat \<Rightarrow> 'm kernel \<Rightarrow> 'm kernel option" where
  "timer_Clear ob k =
     (case wait_objs k ob of
        WTimer tm \<Rightarrow> Some (set_object ob (WTimer (tm\<lparr>timer_signaled := False\<rparr>)) k)
      | _ \<Rightarrow> None)"

definition timer_Set :: "nat \<Rightarrow> int \<Rightarrow> int \<Rightarrow> 'm kernel \<Rightarrow> 'm kernel option" where
  "timer_Set ob initial interval k = do {
     k \<leftarrow> timer_Cancel ob k;
     (case wait_objs k ob of
        WTimer tm \<Rightarrow> do {
          let k = set_object ob (WTimer (tm\<lparr>initial_delay := initial mod 2 ^ 64, interval_delay := interval mod 2 ^ 64\<rparr>)) k;
          if initial = 0 then timer_Signal ob 0 k
          else schedule (nsToCycles initial) TimerFired (callback_id tm) k }
      | _ \<Rightarrow> None) }"

text \<open>\<open>timer_callback_table.at\<close> throws for an unknown id.\<close>

definition TimerCallback :: "nat \<Rightarrow> int \<Rightarrow> 'm kernel \<Rightarrow> 'm kernel option" where
  "TimerCallback cid cycles_late k = do {
     ob \<leftarrow> timer_callback_table k cid;
     timer_Signal ob cycles_late k }"

section \<open>Wakeup by timeout\<close>

definition wakes_by_timeout :: "ThreadStatus \<Rightarrow> bool" where
  "wakes_by_timeout st \<longleftrightarrow>
     st = WaitSynchAny \<or> st = WaitSynchAll \<or> st = WaitArb \<or> st = WaitHleEvent"

definition ThreadWakeupCallback :: "nat \<Rightarrow> nat \<Rightarrow> 'm kernel \<Rightarrow> 'm kernel option" where
  "ThreadWakeupCallback c tid k = do {
     t \<leftarrow> wakeup_callback_table (managers k ! c) tid;
     k \<leftarrow> (if wakes_by_timeout (status (threads k t))
          then do { k \<leftarrow> WakeUp Timeout t 0 k; leave_objects t k }
          else Some k);
     ResumeFromWait t k }"

section \<open>The end of a thread\<close>

definition TLS_AREA_VADDR :: nat where
  "TLS_AREA_VADDR = 0x1FF82000"

text \<open>\<open>process->tls_slots[tls_page].reset(tls_slot)\<close> and the release of the thread count.\<close>

definition release_tls :: "nat \<Rightarrow> 'm kernel \<Rightarrow> 'm kernel option" where
  "release_tls t k =
     (case owner_process (threads k t) of
        None \<Rightarrow> Some k
      | Some p \<Rightarrow> do {
          let off = unat (tls_address (threads k t) - of_nat TLS_AREA_VADDR);
          let page = off div 0x1000;
          let slot = (off mod 0x1000) div 0x200;
          assertion (page < length (tls_slots k p));
          assertion (process_limit k p < length (resource_limits k));
          (r, _) \<leftarrow> Release (type_index RThread) 1 (resource_limits k ! process_limit k p);
          Some (k\<lparr>tls_slots := (tls_slots k)(p := (tls_slots k p)[page := (tls_slots k p ! page)[slot := False]]),
                  resource_limits := (resource_limits k)[process_limit k p := r]\<rparr>) })"

definition thread_Stop :: "nat \<Rightarrow> 'm kernel \<Rightarrow> 'm kernel option" where
  "thread_Stop t k = do {
     let c = core_id (threads k t);
     let tid = thread_id (threads k t);
     let k = k\<lparr>timing := UnscheduleEvent (ThreadWakeup c) tid (timing k)\<rparr>;
     let k = upd_manager c (\<lambda>m. m\<lparr>wakeup_callback_table := (wakeup_callback_table m)(tid := None)\<rparr>) k;
     k \<leftarrow> (if status (threads k t) = Ready
          then on_queue c (\<lambda>q. tql_remove q (current_priority (threads k t)) t) k
          else Some k);
     let k = upd_thread t (\<lambda>th. th\<lparr>status := Dead\<rparr>) k;
     k \<leftarrow> WakeupAllWaitingThreads t k;
     k \<leftarrow> leave_objects t k;
     k \<leftarrow> ReleaseThreadMutexes t k;
     release_tls t k }"

definition ExitCurrentThread :: "nat \<Rightarrow> 'm kernel \<Rightarrow> 'm kernel option" where
  "ExitCurrentThread c k = do {
     t \<leftarrow> current_thread (managers k ! c);
     k \<leftarrow> thread_Stop t k;
     Some (PrepareReschedule (upd_manager c (\<lambda>m. m\<lparr>thread_list := removeAll t (thread_list m)\<rparr>) k)) }"

text \<open>The loop erases each stopped thread from the list as it goes; the current thread goes last.\<close>

definition TerminateProcessThreads :: "nat \<Rightarrow> nat \<Rightarrow> 'm kernel \<Rightarrow> 'm kernel option" where
  "TerminateProcessThreads c process k = do {
     k \<leftarrow> for_each (\<lambda>t k.
            if Some t = current_thread (managers k ! c) \<or> owner_process (threads k t) \<noteq> Some process
            then Some k
            else do {
              k \<leftarrow> thread_Stop t k;
              Some (upd_manager c (\<lambda>m. m\<lparr>thread_list := remove1 t (thread_list m)\<rparr>) k) })
          (thread_list (managers k ! c)) k;
     (case current_thread (managers k ! c) of
        Some t \<Rightarrow> if owner_process (threads k t) = Some process then ExitCurrentThread c k else Some k
      | None \<Rightarrow> Some k) }"

end
