(* ===== verification/Wait_Invariants.thy ===== *)
theory Wait_Invariants
  imports Wait_Objects
begin

text \<open>
  The invariants of waiting threads and mutexes, and their preservation by the operations of
  \<open>Wait_Objects\<close>: no operation on an object fails an assertion, waking always ends, and a woken
  thread has left every waiting list.
\<close>

section \<open>Invariants\<close>

text \<open>
  A waiting list holds each thread once, and only threads that wait for that object: their status is
  a wait on objects and their callback is not that of an address arbiter. A thread that waits for all
  of its objects waits for different ones.
\<close>

definition wait_inv :: "'m kernel \<Rightarrow> bool" where
  "wait_inv k \<longleftrightarrow>
     (\<forall>ob. distinct (waiting_threads k ob)) \<and>
     (\<forall>ob t. t \<in> set (waiting_threads k ob) \<longrightarrow>
        is_thread k t \<and> ob \<in> set (wait_objects (threads k t)) \<and> waits_on_objects (status (threads k t)) \<and>
        (\<forall>a. wakeup_callback (threads k t) \<noteq> Some (ArbiterCallback a))) \<and>
     (\<forall>t. is_thread k t \<longrightarrow> status (threads k t) = WaitSynchAll \<longrightarrow> distinct (wait_objects (threads k t)))"

text \<open>
  A mutex is locked exactly when a thread holds it, and the threads' lists of held mutexes agree with
  the holders (a dead thread may still list mutexes it has lost); the lists are ordered sets.
\<close>

definition mutex_inv :: "'m kernel \<Rightarrow> bool" where
  "mutex_inv k \<longleftrightarrow>
     (\<forall>ob m. wait_objs k ob = WMutex m \<longrightarrow>
        0 \<le> lock_count m \<and> (holding_thread m = None \<longleftrightarrow> lock_count m = 0) \<and>
        (\<forall>t. holding_thread m = Some t \<longrightarrow> is_thread k t \<and> ob \<in> set (held_mutexes (threads k t)))) \<and>
     (\<forall>t. is_thread k t \<longrightarrow> status (threads k t) \<noteq> Dead \<longrightarrow>
        (\<forall>ob \<in> set (held_mutexes (threads k t)).
           \<exists>m. wait_objs k ob = WMutex m \<and> holding_thread m = Some t)) \<and>
     (\<forall>t. sorted_wrt (<) (held_mutexes (threads k t)))"

definition kinv :: "'m kernel \<Rightarrow> bool" where
  "kinv k \<longleftrightarrow> sched_inv k \<and> wait_inv k \<and> mutex_inv k"

text \<open>What waking and acquiring leave alone: all of a thread but its priority, mutexes and registers.\<close>

definition core_of :: "thread \<Rightarrow> thread" where
  "core_of th = th\<lparr>current_priority := 0, held_mutexes := [], pending_mutexes := [], context_regs := empty_context\<rparr>"

definition manager_rest :: "thread_manager \<Rightarrow> thread_manager" where
  "manager_rest m = m\<lparr>ready_queue := tql_new 0\<rparr>"

definition rest_same :: "'m kernel \<Rightarrow> 'm kernel \<Rightarrow> bool" where
  "rest_same k k' \<longleftrightarrow> is_thread k' = is_thread k \<and> timing k' = timing k \<and>
     map manager_rest (managers k') = map manager_rest (managers k) \<and>
     arbiter_threads k' = arbiter_threads k \<and> has_hle_notifier k' = has_hle_notifier k \<and>
     timer_callback_table k' = timer_callback_table k \<and> resource_limits k' = resource_limits k \<and>
     tls_slots k' = tls_slots k \<and> process_limit k' = process_limit k \<and> memory k' = memory k"

definition kframe :: "'m kernel \<Rightarrow> 'm kernel \<Rightarrow> bool" where
  "kframe k k' \<longleftrightarrow> rest_same k k' \<and> (\<forall>u. core_of (threads k' u) = core_of (threads k u))"

lemma rest_same_refl [simp]: "rest_same k k"
  by (simp add: rest_same_def)

lemma rest_same_trans [trans]: "rest_same k1 k2 \<Longrightarrow> rest_same k2 k3 \<Longrightarrow> rest_same k1 k3"
  by (simp add: rest_same_def)

lemma kframe_refl [simp]: "kframe k k"
  by (simp add: kframe_def)

lemma kframe_trans [trans]: "kframe k1 k2 \<Longrightarrow> kframe k2 k3 \<Longrightarrow> kframe k1 k3"
  by (auto simp: kframe_def intro: rest_same_trans)

lemma rest_same_updates [simp]:
  "rest_same k (upd_thread t f k') \<longleftrightarrow> rest_same k k'"
  "rest_same k (set_queue c q k') \<longleftrightarrow> rest_same k k'"
  "rest_same k (set_waiting ob ts k') \<longleftrightarrow> rest_same k k'"
  "rest_same k (PrepareReschedule k') \<longleftrightarrow> rest_same k k'"
proof -
  show "rest_same k (upd_thread t f k') \<longleftrightarrow> rest_same k k'"
    unfolding rest_same_def upd_thread_simps by (simp add: upd_thread_def)
  show "rest_same k (set_waiting ob ts k') \<longleftrightarrow> rest_same k k'"
    unfolding rest_same_def set_waiting_simps by (simp add: set_waiting_def)
  show "rest_same k (PrepareReschedule k') \<longleftrightarrow> rest_same k k'"
    unfolding rest_same_def PrepareReschedule_simps by (simp add: PrepareReschedule_def)
  have "map manager_rest ((managers k')[c := (managers k' ! c)\<lparr>ready_queue := q\<rparr>]) = map manager_rest (managers k')"
    by (rule map_update_same) (simp add: manager_rest_def)
  then show "rest_same k (set_queue c q k') \<longleftrightarrow> rest_same k k'"
    unfolding rest_same_def set_queue_simps by (simp add: set_queue_def upd_manager_def)
qed

lemma rest_same_set_object:
  assumes "is_thread k ob \<longleftrightarrow> w = WThread"
  shows "rest_same k (set_object ob w k)"
  using assms by (simp add: rest_same_def is_thread_def fun_eq_iff) (simp add: set_object_def)

lemma core_of_eqD:
  assumes "core_of th' = core_of th"
  shows "wait_objects th' = wait_objects th" "status th' = status th" "wakeup_callback th' = wakeup_callback th"
    "core_id th' = core_id th" "thread_id th' = thread_id th" "nominal_priority th' = nominal_priority th"
    "owner_process th' = owner_process th" "tls_address th' = tls_address th"
  by (cases th'; cases th; use assms in \<open>simp add: core_of_def\<close>)+

lemma kframeD:
  assumes "kframe k k'"
  shows "is_thread k' = is_thread k" "rest_same k k'"
    "wait_objects (threads k' u) = wait_objects (threads k u)" "status (threads k' u) = status (threads k u)"
    "wakeup_callback (threads k' u) = wakeup_callback (threads k u)"
    "core_id (threads k' u) = core_id (threads k u)" "thread_id (threads k' u) = thread_id (threads k u)"
    "owner_process (threads k' u) = owner_process (threads k u)"
proof -
  from assms have "core_of (threads k' u) = core_of (threads k u)"
    by (simp add: kframe_def)
  from core_of_eqD [OF this] assms show "is_thread k' = is_thread k" "rest_same k k'"
    "wait_objects (threads k' u) = wait_objects (threads k u)" "status (threads k' u) = status (threads k u)"
    "wakeup_callback (threads k' u) = wakeup_callback (threads k u)"
    "core_id (threads k' u) = core_id (threads k u)" "thread_id (threads k' u) = thread_id (threads k u)"
    "owner_process (threads k' u) = owner_process (threads k u)"
    by (simp_all add: kframe_def rest_same_def)
qed

lemma kframe_upd_thread:
  assumes "\<And>th. core_of (f th) = core_of th"
  shows "kframe k (upd_thread t f k)"
  using assms by (simp add: kframe_def)

lemma kframe_set_queue [simp]: "kframe k (set_queue c q k') \<longleftrightarrow> kframe k k'"
  by (simp add: kframe_def)

lemma kframe_set_waiting [simp]: "kframe k (set_waiting ob ts k') \<longleftrightarrow> kframe k k'"
  by (simp add: kframe_def)

lemma kframe_PrepareReschedule [simp]: "kframe k (PrepareReschedule k') \<longleftrightarrow> kframe k k'"
  by (simp add: kframe_def)

lemma sched_inv_simps [simp]:
  "sched_inv (set_waiting ob ts k) \<longleftrightarrow> sched_inv k"
  "sched_inv (PrepareReschedule k) \<longleftrightarrow> sched_inv k"
  by (rule sched_inv_same_threads; simp)+

lemma sched_inv_set_object:
  "(is_thread k ob \<longleftrightarrow> w = WThread) \<Longrightarrow> sched_inv (set_object ob w k) \<longleftrightarrow> sched_inv k"
  by (rule sched_inv_same_threads) (simp_all add: is_thread_def fun_eq_iff)

text \<open>A thread that is not ready may go from one such status to another.\<close>

lemma sched_inv_status:
  assumes inv: "sched_inv k" and st: "status (threads k t) \<noteq> Ready" "status (f (threads k t)) \<noteq> Ready"
    and th: "core_id (f (threads k t)) = core_id (threads k t)"
      "nominal_priority (f (threads k t)) = nominal_priority (threads k t)"
      "current_priority (f (threads k t)) = current_priority (threads k t)"
      "status (f (threads k t)) = Running \<Longrightarrow> wakeup_callback (f (threads k t)) = None"
  shows "sched_inv (upd_thread t f k)"
proof -
  have "queue_ok (is_thread k) (threads (upd_thread t f k)) c q \<longleftrightarrow> queue_ok (is_thread k) (threads k) c q" for c q
    using st by (auto simp: queue_ok_def)
  moreover have "thread_ok (managers k) (threads (upd_thread t f k) u)" if "is_thread k u" for u
    using sched_inv_thread [OF inv that] st th by (auto simp: thread_ok_def)
  ultimately show ?thesis
    using inv by (simp add: sched_inv_def)
qed

section \<open>Preservation of the invariants by their ingredients\<close>

lemma wait_invD:
  assumes "wait_inv k"
  shows "distinct (waiting_threads k ob)"
    "t \<in> set (waiting_threads k ob) \<Longrightarrow> is_thread k t"
    "t \<in> set (waiting_threads k ob) \<Longrightarrow> ob \<in> set (wait_objects (threads k t))"
    "t \<in> set (waiting_threads k ob) \<Longrightarrow> waits_on_objects (status (threads k t))"
    "t \<in> set (waiting_threads k ob) \<Longrightarrow> wakeup_callback (threads k t) \<noteq> Some (ArbiterCallback a)"
    "is_thread k t \<Longrightarrow> status (threads k t) = WaitSynchAll \<Longrightarrow> distinct (wait_objects (threads k t))"
  using assms by (auto simp: wait_inv_def)

lemma wait_inv_kframe:
  assumes "wait_inv k" "kframe k k'"
    and "\<And>ob. set (waiting_threads k' ob) \<subseteq> set (waiting_threads k ob)"
    and "\<And>ob. distinct (waiting_threads k' ob)"
  shows "wait_inv k'"
  using assms(1,3,4) by (simp add: wait_inv_def kframeD [OF assms(2)]) blast

definition erase_prio :: "wait_object \<Rightarrow> wait_object" where
  "erase_prio w = (case w of WMutex m \<Rightarrow> WMutex (m\<lparr>mutex_priority := 0\<rparr>) | _ \<Rightarrow> w)"

lemma mutex_data_prio:
  "m\<lparr>mutex_priority := 0\<rparr> = m'\<lparr>mutex_priority := 0\<rparr> \<longleftrightarrow>
   lock_count m = lock_count m' \<and> holding_thread m = holding_thread (m' :: mutex_data)"
  by (cases m; cases m') simp

definition mutex_view :: "wait_object \<Rightarrow> (int \<times> nat option) option" where
  "mutex_view w = (case w of WMutex m \<Rightarrow> Some (lock_count m, holding_thread m) | _ \<Rightarrow> None)"

lemma mutex_view_Some: "mutex_view w = Some (n, h) \<longleftrightarrow>
    (\<exists>m. w = WMutex m \<and> lock_count m = n \<and> holding_thread m = h)"
  by (auto simp: mutex_view_def split: wait_object.splits)

lemma erase_prio_view: "mutex_view (erase_prio w) = mutex_view w"
  by (auto simp: mutex_view_def erase_prio_def split: wait_object.splits)

lemma mutex_inv_view:
  "mutex_inv k \<longleftrightarrow>
     (\<forall>ob n h. mutex_view (wait_objs k ob) = Some (n, h) \<longrightarrow> 0 \<le> n \<and> (h = None \<longleftrightarrow> n = 0) \<and>
        (\<forall>t. h = Some t \<longrightarrow> is_thread k t \<and> ob \<in> set (held_mutexes (threads k t)))) \<and>
     (\<forall>t. is_thread k t \<longrightarrow> status (threads k t) \<noteq> Dead \<longrightarrow>
        (\<forall>ob \<in> set (held_mutexes (threads k t)). \<exists>n. mutex_view (wait_objs k ob) = Some (n, Some t))) \<and>
     (\<forall>t. sorted_wrt (<) (held_mutexes (threads k t)))"
  by (auto simp: mutex_inv_def mutex_view_Some)

lemma mutex_inv_cong:
  assumes "mutex_inv k"
    and "\<And>ob. mutex_view (wait_objs k' ob) = mutex_view (wait_objs k ob)"
    and "is_thread k' = is_thread k"
    and "\<And>t. held_mutexes (threads k' t) = held_mutexes (threads k t)"
    and "\<And>t. status (threads k' t) = Dead \<longleftrightarrow> status (threads k t) = Dead"
  shows "mutex_inv k'"
  using assms(1) unfolding mutex_inv_view assms(2-5) .

lemma mutex_inv_holder:
  "mutex_inv k \<Longrightarrow> wait_objs k ob = WMutex m \<Longrightarrow> holding_thread m = Some t \<Longrightarrow>
   is_thread k t \<and> ob \<in> set (held_mutexes (threads k t))"
  by (auto simp: mutex_inv_def)


section \<open>Priority updates\<close>

lemma UpdatePriority_frame:
  assumes "sched_inv k" "is_thread k t"
  obtains q p where "UpdatePriority t k =
      Some (set_queue (core_id (threads k t)) q (upd_thread t (\<lambda>th. th\<lparr>current_priority := p\<rparr>) k))"
    "sched_inv (set_queue (core_id (threads k t)) q (upd_thread t (\<lambda>th. th\<lparr>current_priority := p\<rparr>) k))"
    "kframe k (set_queue (core_id (threads k t)) q (upd_thread t (\<lambda>th. th\<lparr>current_priority := p\<rparr>) k))"
  by (rule UpdatePriority_spec [OF assms refl])
    (rule that, assumption+, simp, rule kframe_upd_thread, simp add: core_of_def)

text \<open>What \<open>RemoveWaitingThread\<close> and \<open>AddWaitingThread\<close> may touch besides the list itself.\<close>

definition pframe :: "'m kernel \<Rightarrow> 'm kernel \<Rightarrow> bool" where
  "pframe k k' \<longleftrightarrow> sched_inv k' \<and> kframe k k' \<and>
     (\<forall>u. held_mutexes (threads k' u) = held_mutexes (threads k u)) \<and>
     (\<forall>ob. erase_prio (wait_objs k' ob) = erase_prio (wait_objs k ob))"

lemma pframe_refl: "sched_inv k \<Longrightarrow> pframe k k"
  by (simp add: pframe_def)

lemma pframe_trans: "pframe k1 k2 \<Longrightarrow> pframe k2 k3 \<Longrightarrow> pframe k1 k3"
  by (auto simp: pframe_def intro: kframe_trans)

lemma pframe_sched_inv: "pframe k k' \<Longrightarrow> sched_inv k'"
  by (simp add: pframe_def)

lemma pframe_mutex_inv: "pframe k k' \<Longrightarrow> mutex_inv k \<Longrightarrow> mutex_inv k'"
  by (rule mutex_inv_cong [of k]) (auto simp: pframe_def kframeD, metis erase_prio_view)

lemma pframe_simps [simp]:
  "pframe k (set_waiting ob ts k') \<longleftrightarrow> pframe k k'"
  by (simp add: pframe_def)

lemma mutex_UpdatePriority_frame:
  assumes "sched_inv k" "\<forall>m h. wait_objs k ob = WMutex m \<longrightarrow> holding_thread m = Some h \<longrightarrow> is_thread k h"
  obtains k' where "mutex_UpdatePriority ob k = Some k'" "pframe k k'"
    "waiting_threads k' = waiting_threads k"
proof (cases "mutex_UpdatePriority ob k = Some k")
  case True
  with that pframe_refl [OF assms(1)] show thesis by blast
next
  case False
  then obtain m h where m: "wait_objs k ob = WMutex m" "holding_thread m = Some h"
    "best_waiter k (waiting_threads k ob) ThreadPrioLowest \<noteq> mutex_priority m"
    by (auto simp: mutex_UpdatePriority_def Let_def split: wait_object.splits option.splits if_splits)
  let ?k = "set_object ob (WMutex (m\<lparr>mutex_priority := best_waiter k (waiting_threads k ob) ThreadPrioLowest\<rparr>)) k"
  have nt: "\<not> is_thread k ob"
    using m(1) by (simp add: is_thread_def)
  have inv: "sched_inv ?k" "is_thread ?k h"
    using assms m nt by (auto simp: sched_inv_set_object is_thread_def)
  from UpdatePriority_frame [OF inv] obtain q p where U: "UpdatePriority h ?k =
      Some (set_queue (core_id (threads ?k h)) q (upd_thread h (\<lambda>th. th\<lparr>current_priority := p\<rparr>) ?k))"
    "sched_inv (set_queue (core_id (threads ?k h)) q (upd_thread h (\<lambda>th. th\<lparr>current_priority := p\<rparr>) ?k))"
    "kframe ?k (set_queue (core_id (threads ?k h)) q (upd_thread h (\<lambda>th. th\<lparr>current_priority := p\<rparr>) ?k))"
    by blast
  have "kframe k ?k"
    using nt by (simp add: kframe_def rest_same_set_object)
  then have "kframe k (set_queue (core_id (threads ?k h)) q (upd_thread h (\<lambda>th. th\<lparr>current_priority := p\<rparr>) ?k))"
    using U(3) by (rule kframe_trans)
  with U(2) have "pframe k (set_queue (core_id (threads ?k h)) q (upd_thread h (\<lambda>th. th\<lparr>current_priority := p\<rparr>) ?k))"
    using m by (simp add: pframe_def erase_prio_def)
  with U(1) m that show thesis
    by (simp add: mutex_UpdatePriority_def)
qed

lemma upd_pending_frame:
  assumes "sched_inv k"
  shows "pframe k (upd_thread t (\<lambda>th. th\<lparr>pending_mutexes := f th\<rparr>) k)"
  using assms by (simp add: pframe_def kframe_upd_thread core_of_def sched_inv_upd_thread)

lemma RemoveWaitingThread_frame:
  assumes inv: "sched_inv k" "mutex_inv k"
  obtains k' where "RemoveWaitingThread ob t k = Some k'" "pframe k k'"
    "waiting_threads k' = (waiting_threads k)(ob := remove1 t (waiting_threads k ob))"
proof (cases "\<exists>m. wait_objs k ob = WMutex m")
  case False
  with inv that [of "set_waiting ob (remove1 t (waiting_threads k ob)) k"] show thesis
    by (auto simp: RemoveWaitingThread_def Let_def pframe_refl split: wait_object.split)
next
  case True
  let ?k = "upd_thread t (\<lambda>th. th\<lparr>pending_mutexes := set_erase ob (pending_mutexes th)\<rparr>)
      (set_waiting ob (remove1 t (waiting_threads k ob)) k)"
  have fr: "pframe k ?k"
    using upd_pending_frame [of "set_waiting ob (remove1 t (waiting_threads k ob)) k" t] inv(1)
    by (auto intro: pframe_trans [OF _ upd_pending_frame] simp: pframe_refl)
  have "\<forall>m h. wait_objs ?k ob = WMutex m \<longrightarrow> holding_thread m = Some h \<longrightarrow> is_thread ?k h"
    using mutex_inv_holder [OF inv(2)] by simp
  from mutex_UpdatePriority_frame [where ob = ob, OF pframe_sched_inv [OF fr] this] obtain k'
    where k': "mutex_UpdatePriority ob ?k = Some k'" "pframe ?k k'" "waiting_threads k' = waiting_threads ?k"
    by blast
  show thesis
    by (rule that [OF _ pframe_trans [OF fr k'(2)]])
      (use True k' in \<open>auto simp: RemoveWaitingThread_def Let_def\<close>)
qed

lemma AddWaitingThread_frame:
  assumes inv: "sched_inv k" "mutex_inv k"
  obtains k' where "AddWaitingThread ob t k = Some k'" "pframe k k'"
    "waiting_threads k' = (waiting_threads k)(ob :=
       if t \<in> set (waiting_threads k ob) then waiting_threads k ob else waiting_threads k ob @ [t])"
proof -
  let ?k1 = "if t \<in> set (waiting_threads k ob) then k else set_waiting ob (waiting_threads k ob @ [t]) k"
  have k1: "pframe k ?k1" "wait_objs ?k1 = wait_objs k" "is_thread ?k1 = is_thread k"
    "waiting_threads ?k1 = (waiting_threads k)(ob :=
       if t \<in> set (waiting_threads k ob) then waiting_threads k ob else waiting_threads k ob @ [t])"
    using inv by (auto simp: pframe_refl)
  show thesis
  proof (cases "\<exists>m. wait_objs k ob = WMutex m")
    case False
    then have "AddWaitingThread ob t k = Some ?k1"
      by (auto simp: AddWaitingThread_def Let_def split: wait_object.split)
    with k1 that show thesis by blast
  next
    case True
    let ?k = "upd_thread t (\<lambda>th. th\<lparr>pending_mutexes := set_insert ob (pending_mutexes th)\<rparr>) ?k1"
    have "sched_inv ?k1"
      using k1(1) by (simp add: pframe_def)
    then have fr: "pframe k ?k"
      by (rule pframe_trans [OF k1(1) upd_pending_frame])
    have "\<forall>m h. wait_objs ?k ob = WMutex m \<longrightarrow> holding_thread m = Some h \<longrightarrow> is_thread ?k h"
      using mutex_inv_holder [OF inv(2)] k1(2,3) by simp
    from mutex_UpdatePriority_frame [where ob = ob, OF pframe_sched_inv [OF fr] this] obtain k'
      where k': "mutex_UpdatePriority ob ?k = Some k'" "pframe ?k k'" "waiting_threads k' = waiting_threads ?k"
      by blast
    show thesis
      by (rule that [OF _ pframe_trans [OF fr k'(2)]])
        (use True k' k1 in \<open>auto simp: AddWaitingThread_def Let_def\<close>)
  qed
qed

text \<open>Leaving all objects: the thread is gone from the list of each of them.\<close>

lemma remove_loop_frame:
  assumes "sched_inv k" "mutex_inv k" "\<And>ob. distinct (waiting_threads k ob)"
  obtains k' where "for_each (\<lambda>ob. RemoveWaitingThread ob t) obs k = Some k'" "pframe k k'"
    "\<And>x. waiting_threads k' x = (if x \<in> set obs then removeAll t (waiting_threads k x) else waiting_threads k x)"
  using assms
proof (induction obs arbitrary: k thesis)
  case Nil
  then show ?case by (simp add: pframe_refl)
next
  case (Cons ob obs)
  from RemoveWaitingThread_frame [OF Cons.prems(2,3)] obtain k1
    where k1: "RemoveWaitingThread ob t k = Some k1" "pframe k k1"
      "waiting_threads k1 = (waiting_threads k)(ob := remove1 t (waiting_threads k ob))"
    by blast
  have "sched_inv k1" "mutex_inv k1" "\<And>x. distinct (waiting_threads k1 x)"
    using k1 Cons.prems by (auto simp: pframe_def intro: pframe_mutex_inv [OF k1(2)])
  from Cons.IH [OF _ this] obtain k2 where k2: "for_each (\<lambda>ob. RemoveWaitingThread ob t) obs k1 = Some k2"
    "pframe k1 k2"
    "\<And>x. waiting_threads k2 x = (if x \<in> set obs then removeAll t (waiting_threads k1 x) else waiting_threads k1 x)"
    by blast
  have eq: "remove1 t (waiting_threads k ob) = removeAll t (waiting_threads k ob)"
    using Cons.prems(4) by (rule distinct_remove1_removeAll)
  show ?case
    by (rule Cons.prems(1) [of k2])
      (use k1 k2 eq in \<open>auto intro: pframe_trans simp: removeAll_filter_not_eq\<close>)
qed

section \<open>Acquiring\<close>

lemma sched_inv_held:
  "sched_inv k \<Longrightarrow> sched_inv (upd_thread t (\<lambda>th. th\<lparr>held_mutexes := f th\<rparr>) k)"
  by (rule sched_inv_upd_thread) simp_all

lemma kframe_held: "kframe k (upd_thread t (\<lambda>th. th\<lparr>held_mutexes := f th\<rparr>) k)"
  by (rule kframe_upd_thread) (simp add: core_of_def)

lemma kframe_set_object: "(is_thread k ob \<longleftrightarrow> w = WThread) \<Longrightarrow> kframe k (set_object ob w k)"
  by (simp add: kframe_def rest_same_set_object)

lemma mutex_inv_lock:
  assumes inv: "mutex_inv k" "is_thread k t" and m: "wait_objs k ob = WMutex m"
      "holding_thread m = None \<or> holding_thread m = Some t"
    and k': "is_thread k' = is_thread k" "wait_objs k' = (wait_objs k)(ob := WMutex m')"
      "holding_thread m' = Some t" "lock_count m' > 0" "\<And>u. status (threads k' u) = status (threads k u)"
      "\<And>u. set (held_mutexes (threads k' u)) = (if u = t then insert ob (set (held_mutexes (threads k u)))
         else set (held_mutexes (threads k u)))"
      "\<And>u. sorted_wrt (<) (held_mutexes (threads k' u))"
  shows "mutex_inv k'"
proof -
  have "ob \<notin> set (held_mutexes (threads k u))"
    if "u \<noteq> t" "is_thread k u" "status (threads k u) \<noteq> Dead" for u
    using inv(1) m that unfolding mutex_inv_def by fastforce
  with inv k' show ?thesis
    by (auto simp: mutex_inv_def)
qed

lemma mutex_acquire_frame:
  assumes inv: "sched_inv k" "is_thread k t" and m: "wait_objs k ob = WMutex m"
  obtains k' p where "mutex_acquire ob t k = Some k'" "sched_inv k'" "kframe k k'"
    "waiting_threads k' = waiting_threads k"
    "wait_objs k' = (wait_objs k)(ob := WMutex (m\<lparr>mutex_priority := p, holding_thread := Some t\<rparr>))"
    "\<And>u. held_mutexes (threads k' u) = (if u = t then set_insert ob (held_mutexes (threads k u))
       else held_mutexes (threads k u))"
proof -
  let ?p = "current_priority (threads k t)"
  let ?k1 = "set_object ob (WMutex (m\<lparr>mutex_priority := ?p, holding_thread := Some t\<rparr>)) k"
  let ?k2 = "upd_thread t (\<lambda>th. th\<lparr>held_mutexes := set_insert ob (held_mutexes th)\<rparr>) ?k1"
  have nt: "\<not> is_thread k ob"
    using m by (simp add: is_thread_def)
  have "sched_inv ?k1" "kframe k ?k1" "is_thread ?k1 t"
    using inv nt by (auto simp: sched_inv_set_object kframe_set_object is_thread_def)
  then have k2: "sched_inv ?k2" "kframe k ?k2" "is_thread ?k2 t"
    by (auto intro: sched_inv_held kframe_trans [OF _ kframe_held])
  from UpdatePriority_frame [OF k2(1,3)] obtain k3 q p where k3: "UpdatePriority t ?k2 = Some k3"
    "sched_inv k3" "kframe ?k2 k3"
    "k3 = set_queue (core_id (threads ?k2 t)) q (upd_thread t (\<lambda>th. th\<lparr>current_priority := p\<rparr>) ?k2)"
    by blast
  have "mutex_acquire ob t k = Some (PrepareReschedule k3)"
    using m k3(1) by (simp add: mutex_acquire_def upd_mutex_def)
  moreover have "kframe k k3"
    by (rule kframe_trans [OF k2(2) k3(3)])
  ultimately show thesis
    using k3(2) by (intro that [of "PrepareReschedule k3" ?p]) (simp_all add: k3(4))
qed

text \<open>What acquiring makes of an object, the priority of a mutex aside.\<close>

definition acquired :: "nat \<Rightarrow> wait_object \<Rightarrow> wait_object" where
  "acquired t w = (case w of
     WThread \<Rightarrow> WThread
   | WMutex m \<Rightarrow> WMutex (m\<lparr>holding_thread := Some t, lock_count := lock_count m + 1\<rparr>)
   | WSemaphore s \<Rightarrow>
       WSemaphore (if available_count s \<le> 0 then s else s\<lparr>available_count := available_count s - 1\<rparr>)
   | WEvent e \<Rightarrow> WEvent (if event_reset e = OneShot then e\<lparr>event_signaled := False\<rparr> else e)
   | WTimer tm \<Rightarrow> WTimer (if timer_reset tm = OneShot then tm\<lparr>timer_signaled := False\<rparr> else tm))"

lemma erase_prio_acquired: "erase_prio w = erase_prio w' \<Longrightarrow> erase_prio (acquired t w) = erase_prio (acquired t w')"
  by (cases w; cases w') (auto simp: erase_prio_def acquired_def mutex_data_prio)

lemma Acquire_frame:
  assumes inv: "sched_inv k" "mutex_inv k" "is_thread k t" and sw: "\<not> ShouldWait k ob t"
  obtains k' where "Acquire ob t k = Some k'" "sched_inv k'" "mutex_inv k'" "kframe k k'"
    "waiting_threads k' = waiting_threads k" "\<And>x. x \<noteq> ob \<Longrightarrow> wait_objs k' x = wait_objs k x"
    "erase_prio (wait_objs k' ob) = erase_prio (acquired t (wait_objs k ob))"
    "\<And>u. u \<noteq> t \<Longrightarrow> held_mutexes (threads k' u) = held_mutexes (threads k u)"
proof (cases "wait_objs k ob")
  case WThread
  with sw inv that [of k] show thesis
    by (simp add: Acquire_def acquired_def)
next
  case (WMutex m)
  have sorted: "sorted_wrt (<) (held_mutexes (threads k u))" for u
    using inv(2) by (simp add: mutex_inv_def)
  note hold = inv(2) [unfolded mutex_inv_def, THEN conjunct1, rule_format, OF WMutex]
  have free: "holding_thread m = None \<or> holding_thread m = Some t"
    using sw WMutex hold by (auto simp: ShouldWait_def)
  have nt: "\<not> is_thread k ob"
    using WMutex by (simp add: is_thread_def)
  show thesis
  proof (cases "lock_count m = 0")
    case True
    obtain k1 p where k1: "mutex_acquire ob t k = Some k1"
      "sched_inv k1" "kframe k k1" "waiting_threads k1 = waiting_threads k"
      "wait_objs k1 = (wait_objs k)(ob := WMutex (m\<lparr>mutex_priority := p, holding_thread := Some t\<rparr>))"
      "\<And>u. held_mutexes (threads k1 u) = (if u = t then set_insert ob (held_mutexes (threads k u))
         else held_mutexes (threads k u))"
      by (rule mutex_acquire_frame [OF inv(1,3) WMutex]) (rule that, assumption+)
    let ?k = "set_object ob (WMutex (m\<lparr>mutex_priority := p, holding_thread := Some t,
        lock_count := 1\<rparr>)) k1"
    have nt1: "\<not> is_thread k1 ob"
      using nt kframeD(1) [OF k1(3)] by simp
    have "Acquire ob t k = Some ?k"
      using sw WMutex True k1(1,5) by (simp add: Acquire_def upd_mutex_def)
    moreover have "sched_inv ?k" "kframe k1 ?k"
      using nt1 k1(2) by (simp_all add: sched_inv_set_object kframe_set_object)
    moreover have "mutex_inv ?k"
      by (rule mutex_inv_lock [OF inv(2,3) WMutex free])
        (use k1 True nt1 sorted in \<open>auto simp: distinct_set_insert kframeD(4) [OF k1(3)] kframeD(1) [OF \<open>kframe k1 ?k\<close>] kframeD(1) [OF k1(3)]\<close>)
    ultimately show thesis
      using k1(4,5,6) kframe_trans [OF k1(3)] True
      by (intro that [of ?k]) (simp_all add: WMutex acquired_def erase_prio_def)
  next
    case False
    let ?k = "set_object ob (WMutex (m\<lparr>lock_count := lock_count m + 1\<rparr>)) k"
    have m: "holding_thread m = Some t" "lock_count m > 0"
      using False hold free by auto
    have "Acquire ob t k = Some ?k"
      using sw WMutex False by (simp add: Acquire_def upd_mutex_def)
    moreover have fr: "sched_inv ?k" "kframe k ?k"
      using nt inv(1) by (simp_all add: sched_inv_set_object kframe_set_object)
    moreover have "ob \<in> set (held_mutexes (threads k t))"
      using hold m by simp
    then have "mutex_inv ?k"
      by (intro mutex_inv_lock [OF inv(2,3) WMutex free, where m' = "m\<lparr>lock_count := lock_count m + 1\<rparr>"])
        (use m sorted in \<open>auto simp: kframeD(1) [OF fr(2)]\<close>)
    ultimately show thesis
      using m by (intro that [of ?k]) (simp_all add: WMutex acquired_def erase_prio_def)
  qed
next
  case (WSemaphore s)
  let ?k = "if available_count s \<le> 0 then k
      else set_object ob (WSemaphore (s\<lparr>available_count := available_count s - 1\<rparr>)) k"
  have "Acquire ob t k = Some ?k" "\<not> is_thread k ob"
    using WSemaphore by (simp_all add: Acquire_def is_thread_def)
  with inv(1) have "sched_inv ?k" "kframe k ?k"
    by (simp_all add: sched_inv_set_object kframe_set_object)
  moreover from this have "mutex_inv ?k"
    by (intro mutex_inv_cong [OF inv(2)]) (auto simp: WSemaphore mutex_view_def kframeD)
  ultimately show thesis
    using \<open>Acquire ob t k = Some ?k\<close> by (intro that [of ?k]) (simp_all add: WSemaphore acquired_def)
next
  case (WEvent e)
  let ?k = "if event_reset e = OneShot then set_object ob (WEvent (e\<lparr>event_signaled := False\<rparr>)) k else k"
  have "Acquire ob t k = Some ?k" "\<not> is_thread k ob"
    using WEvent sw by (simp_all add: Acquire_def is_thread_def)
  with inv(1) have "sched_inv ?k" "kframe k ?k"
    by (simp_all add: sched_inv_set_object kframe_set_object)
  moreover from this have "mutex_inv ?k"
    by (intro mutex_inv_cong [OF inv(2)]) (auto simp: WEvent mutex_view_def kframeD)
  ultimately show thesis
    using \<open>Acquire ob t k = Some ?k\<close> by (intro that [of ?k]) (simp_all add: WEvent acquired_def)
next
  case (WTimer e)
  let ?k = "if timer_reset e = OneShot then set_object ob (WTimer (e\<lparr>timer_signaled := False\<rparr>)) k else k"
  have "Acquire ob t k = Some ?k" "\<not> is_thread k ob"
    using WTimer sw by (simp_all add: Acquire_def is_thread_def)
  with inv(1) have "sched_inv ?k" "kframe k ?k"
    by (simp_all add: sched_inv_set_object kframe_set_object)
  moreover from this have "mutex_inv ?k"
    by (intro mutex_inv_cong [OF inv(2)]) (auto simp: WTimer mutex_view_def kframeD)
  ultimately show thesis
    using \<open>Acquire ob t k = Some ?k\<close> by (intro that [of ?k]) (simp_all add: WTimer acquired_def)
qed

text \<open>Acquiring one object does not make another unavailable.\<close>

lemma ShouldWait_other:
  assumes "wait_objs k' x = wait_objs k x" "status (threads k' x) = status (threads k x)"
  shows "ShouldWait k' x t = ShouldWait k x t"
  using assms by (simp add: ShouldWait_def split: wait_object.split)

lemma Acquire_all_frame:
  assumes "sched_inv k" "mutex_inv k" "is_thread k t" "distinct obs"
    "\<And>x. x \<in> set obs \<Longrightarrow> \<not> ShouldWait k x t"
  obtains k' where "for_each (\<lambda>x. Acquire x t) obs k = Some k'" "sched_inv k'" "mutex_inv k'" "kframe k k'"
    "waiting_threads k' = waiting_threads k" "\<And>x. x \<notin> set obs \<Longrightarrow> wait_objs k' x = wait_objs k x"
    "\<And>x. x \<in> set obs \<Longrightarrow> erase_prio (wait_objs k' x) = erase_prio (acquired t (wait_objs k x))"
    "\<And>u. u \<noteq> t \<Longrightarrow> held_mutexes (threads k' u) = held_mutexes (threads k u)"
  using assms
proof (induction obs arbitrary: k thesis)
  case Nil
  then show ?case by simp
next
  case (Cons ob obs)
  from Cons.prems(6) [of ob] have "\<not> ShouldWait k ob t"
    by simp
  from Acquire_frame [OF Cons.prems(2-4) this] obtain k1
    where k1: "Acquire ob t k = Some k1" "sched_inv k1" "mutex_inv k1" "kframe k k1"
      "waiting_threads k1 = waiting_threads k" "\<And>x. x \<noteq> ob \<Longrightarrow> wait_objs k1 x = wait_objs k x"
      "erase_prio (wait_objs k1 ob) = erase_prio (acquired t (wait_objs k ob))"
      "\<And>u. u \<noteq> t \<Longrightarrow> held_mutexes (threads k1 u) = held_mutexes (threads k u)"
    by metis
  have isk: "is_thread k1 t"
    using Cons.prems(4) kframeD(1) [OF k1(4)] by simp
  have sw: "\<not> ShouldWait k1 x t" if "x \<in> set obs" for x
  proof -
    have "x \<noteq> ob"
      using that Cons.prems(5) by auto
    then have "ShouldWait k1 x t = ShouldWait k x t"
      by (intro ShouldWait_other k1(6) kframeD(4) [OF k1(4)])
    with Cons.prems(6) [of x] that show ?thesis by simp
  qed
  have "distinct obs" "ob \<notin> set obs"
    using Cons.prems(5) by simp_all
  note d = this
  obtain k2 where k2: "for_each (\<lambda>x. Acquire x t) obs k1 = Some k2" "sched_inv k2" "mutex_inv k2"
      "kframe k1 k2" "waiting_threads k2 = waiting_threads k1" "\<And>x. x \<notin> set obs \<Longrightarrow> wait_objs k2 x = wait_objs k1 x"
      "\<And>x. x \<in> set obs \<Longrightarrow> erase_prio (wait_objs k2 x) = erase_prio (acquired t (wait_objs k1 x))"
      "\<And>u. u \<noteq> t \<Longrightarrow> held_mutexes (threads k2 u) = held_mutexes (threads k1 u)"
    by (rule Cons.IH [OF _ k1(2,3) isk d(1) sw]) (assumption | rule that)+
  show ?case
  proof (rule Cons.prems(1) [of k2])
    show "for_each (\<lambda>x. Acquire x t) (ob # obs) k = Some k2" "waiting_threads k2 = waiting_threads k"
      using k1(1,5) k2(1,5) by simp_all
    show "kframe k k2"
      by (rule kframe_trans [OF k1(4) k2(4)])
    show "wait_objs k2 x = wait_objs k x" if "x \<notin> set (ob # obs)" for x
      using that k1(6) [of x] k2(6) [of x] by simp
    show "erase_prio (wait_objs k2 x) = erase_prio (acquired t (wait_objs k x))" if "x \<in> set (ob # obs)" for x
    proof (cases "x = ob")
      case True
      with k2(6) [of ob] d(2) k1(7) show ?thesis by simp
    next
      case False
      with that k2(7) [of x] k1(6) [of x] show ?thesis by simp
    qed
    show "held_mutexes (threads k2 u) = held_mutexes (threads k u)" if "u \<noteq> t" for u
      using k1(8) [OF that] k2(8) [OF that] by simp
  qed (rule k2)+
qed

end
