(* ===== verification/Waking.thy ===== *)
theory Waking
  imports Wait_Invariants
begin

text \<open>
  Waking the threads that wait on an object: which waiter is chosen, what happens to it, and that
  \<open>WakeupAllWaitingThreads\<close> returns having left nobody asleep who could go on.
\<close>

section \<open>The choice of the thread to wake\<close>

definition eligible :: "'m kernel \<Rightarrow> nat \<Rightarrow> nat \<Rightarrow> bool" where
  "eligible k ob t \<longleftrightarrow> \<not> ShouldWait k ob t \<and> ready_to_run k t"

definition best_of :: "(nat \<Rightarrow> bool) \<Rightarrow> (nat \<Rightarrow> nat) \<Rightarrow> nat list \<Rightarrow> nat \<Rightarrow> bool" where
  "best_of ok pr ts t \<longleftrightarrow> (\<exists>pre post. ts = pre @ t # post \<and> ok t \<and>
     (\<forall>u \<in> set pre. ok u \<longrightarrow> pr t < pr u) \<and> (\<forall>u \<in> set post. ok u \<longrightarrow> pr t \<le> pr u))"

lemma best_of_Cons: "best_of ok pr ts t \<Longrightarrow> (ok u \<Longrightarrow> pr t < pr u) \<Longrightarrow> best_of ok pr (u # ts) t"
  unfolding best_of_def by (metis append_Cons set_ConsD)

lemma best_of_here: "ok t \<Longrightarrow> (\<And>u. u \<in> set ts \<Longrightarrow> ok u \<Longrightarrow> pr t \<le> pr u) \<Longrightarrow> best_of ok pr (t # ts) t"
  unfolding best_of_def by (rule exI [of _ "[]"]) auto

lemma highest_loop_spec:
  assumes "\<forall>u \<in> set ts. waits_on_objects (status (threads k u))"
  obtains "highest_loop k ob ts c p = Some c"
      "\<forall>u \<in> set ts. eligible k ob u \<longrightarrow> p \<le> current_priority (threads k u)"
  | t where "highest_loop k ob ts c p = Some (Some t)" "current_priority (threads k t) < p"
      "best_of (eligible k ob) (\<lambda>u. current_priority (threads k u)) ts t"
  using assms
proof (induction ts arbitrary: c p thesis)
  case Nil
  then show ?case by simp
next
  case (Cons u ts)
  let ?pr = "\<lambda>u. current_priority (threads k u)"
  have ws: "\<forall>u \<in> set ts. waits_on_objects (status (threads k u))"
    "waits_on_objects (status (threads k u))"
    using Cons.prems(3) by simp_all
  show ?case
  proof (cases "eligible k ob u \<and> ?pr u < p")
    case True
    then have eq: "highest_loop k ob (u # ts) c p = highest_loop k ob ts (Some u) (?pr u)"
      using ws(2) by (simp add: eligible_def)
    show ?thesis
    proof (rule Cons.IH [OF _ _ ws(1), of "Some u" "?pr u"])
      assume "highest_loop k ob ts (Some u) (?pr u) = Some (Some u)"
        "\<forall>v \<in> set ts. eligible k ob v \<longrightarrow> ?pr u \<le> ?pr v"
      with True eq show ?thesis
        by (intro Cons.prems(2) [of u]) (auto intro: best_of_here)
    next
      fix t assume "highest_loop k ob ts (Some u) (?pr u) = Some (Some t)" "?pr t < ?pr u"
        "best_of (eligible k ob) ?pr ts t"
      with True eq show ?thesis
        by (intro Cons.prems(2) [of t]) (auto intro: best_of_Cons)
    qed
  next
    case False
    then have eq: "highest_loop k ob (u # ts) c p = highest_loop k ob ts c p"
      using ws(2) by (auto simp: eligible_def)
    show ?thesis
    proof (rule Cons.IH [OF _ _ ws(1), of c p])
      assume "highest_loop k ob ts c p = Some c" "\<forall>v \<in> set ts. eligible k ob v \<longrightarrow> p \<le> ?pr v"
      with False eq show ?thesis
        by (intro Cons.prems(1)) auto
    next
      fix t assume "highest_loop k ob ts c p = Some (Some t)" "?pr t < p" "best_of (eligible k ob) ?pr ts t"
      with False eq show ?thesis
        by (intro Cons.prems(2) [of t]) (auto intro: best_of_Cons)
    qed
  qed
qed

lemma GetHighest_cases:
  assumes "sched_inv k" "wait_inv k"
  obtains "GetHighestPriorityReadyThread ob k = Some None"
      "\<forall>u \<in> set (waiting_threads k ob). \<not> eligible k ob u"
  | t where "GetHighestPriorityReadyThread ob k = Some (Some t)"
      "best_of (eligible k ob) (\<lambda>u. current_priority (threads k u)) (waiting_threads k ob) t"
proof -
  have ws: "\<forall>u \<in> set (waiting_threads k ob). waits_on_objects (status (threads k u))"
    using wait_invD [OF assms(2)] by blast
  show thesis
  proof (rule highest_loop_spec [OF ws, of ob None "ThreadPrioLowest + 1"])
    assume 1: "highest_loop k ob (waiting_threads k ob) None (ThreadPrioLowest + 1) = Some None"
      "\<forall>u \<in> set (waiting_threads k ob). eligible k ob u \<longrightarrow> ThreadPrioLowest + 1 \<le> current_priority (threads k u)"
    have "current_priority (threads k u) < 64" if "u \<in> set (waiting_threads k ob)" for u
      using thread_okD(2) [OF assms(1) wait_invD(2) [OF assms(2) that]] .
    with 1 that(1) show thesis
      by (fastforce simp: GetHighestPriorityReadyThread_def ThreadPrioLowest_def)
  next
    fix t assume "highest_loop k ob (waiting_threads k ob) None (ThreadPrioLowest + 1) = Some (Some t)"
      "best_of (eligible k ob) (\<lambda>u. current_priority (threads k u)) (waiting_threads k ob) t"
    with that(2) show thesis
      by (simp add: GetHighestPriorityReadyThread_def)
  qed
qed

section \<open>Waking one thread\<close>

definition awake :: "thread \<Rightarrow> thread" where
  "awake th = th\<lparr>wait_objects := [], wakeup_callback := None, status := Ready\<rparr>"

text \<open>Exactly the threads of \<open>W\<close>, which waited for an object, have been woken.\<close>

definition woken :: "nat set \<Rightarrow> 'm kernel \<Rightarrow> 'm kernel \<Rightarrow> bool" where
  "woken W k k' \<longleftrightarrow> rest_same k k' \<and> (\<forall>u \<in> W. \<exists>x. u \<in> set (waiting_threads k x)) \<and>
     (\<forall>x. waiting_threads k' x = filter (\<lambda>t. t \<notin> W) (waiting_threads k x)) \<and>
     (\<forall>u. core_of (threads k' u) = core_of (if u \<in> W then awake (threads k u) else threads k u))"

lemma woken_empty: "kframe k k' \<Longrightarrow> waiting_threads k' = waiting_threads k \<Longrightarrow> woken {} k k'"
  by (simp add: woken_def kframe_def)

lemma core_of_awake: "core_of th = core_of th' \<Longrightarrow> core_of (awake th) = core_of (awake th')"
  by (cases th; cases th') (simp add: core_of_def awake_def)

lemma core_of_leave:
  "core_of th = core_of th' \<Longrightarrow> core_of (th\<lparr>wait_objects := ws\<rparr>) = core_of (th'\<lparr>wait_objects := ws\<rparr>)"
  by (cases th; cases th') (simp add: core_of_def)

lemma core_of_ready: "core_of th = core_of (th'\<lparr>wait_objects := []\<rparr>) \<Longrightarrow>
    core_of (th\<lparr>wakeup_callback := None, status := Ready\<rparr>) = core_of (awake th')"
  by (cases th; cases th') (simp add: core_of_def awake_def)

lemma woken_trans:
  assumes "woken V k1 k2" "woken W k2 k3"
  shows "woken (V \<union> W) k1 k3"
proof -
  have aa: "awake (awake th) = awake th" for th
    by (simp add: awake_def)
  have "core_of (threads k3 u) = core_of (if u \<in> V \<union> W then awake (threads k1 u) else threads k1 u)" for u
    using assms core_of_awake [of "threads k2 u" "if u \<in> V then awake (threads k1 u) else threads k1 u"]
    by (auto simp: woken_def aa)
  with assms show ?thesis
    by (auto simp: woken_def intro: rest_same_trans)
qed

lemma wokenD:
  assumes "woken W k k'"
  shows "rest_same k k'" "is_thread k' = is_thread k"
    "waiting_threads k' x = filter (\<lambda>t. t \<notin> W) (waiting_threads k x)"
    "status (threads k' u) = (if u \<in> W then Ready else status (threads k u))"
    "wait_objects (threads k' u) = (if u \<in> W then [] else wait_objects (threads k u))"
    "wakeup_callback (threads k' u) = (if u \<in> W then None else wakeup_callback (threads k u))"
proof -
  have "core_of (threads k' u) = core_of (if u \<in> W then awake (threads k u) else threads k u)"
    using assms by (simp add: woken_def)
  from core_of_eqD [OF this] assms show "rest_same k k'" "is_thread k' = is_thread k"
    "waiting_threads k' x = filter (\<lambda>t. t \<notin> W) (waiting_threads k x)"
    "status (threads k' u) = (if u \<in> W then Ready else status (threads k u))"
    "wait_objects (threads k' u) = (if u \<in> W then [] else wait_objects (threads k u))"
    "wakeup_callback (threads k' u) = (if u \<in> W then None else wakeup_callback (threads k u))"
    by (simp_all add: woken_def rest_same_def awake_def)
qed

lemma wait_inv_woken: "wait_inv k \<Longrightarrow> woken W k k' \<Longrightarrow> wait_inv k'"
  by (auto simp: wait_inv_def wokenD)

lemma WakeUp_Signal_frame:
  assumes inv: "sched_inv k" "mutex_inv k" and w: "wait_objects (threads k t) \<noteq> []"
    and cb: "\<And>a. wakeup_callback (threads k t) \<noteq> Some (ArbiterCallback a)"
  obtains k' where "WakeUp Signal t ob k = Some k'" "sched_inv k'" "mutex_inv k'" "kframe k k'"
    "waiting_threads k' = waiting_threads k" "wait_objs k' = wait_objs k"
    "\<And>u. held_mutexes (threads k' u) = held_mutexes (threads k u)"
proof -
  have ctx: "sched_inv (upd_thread t (\<lambda>th. th\<lparr>context_regs := f th\<rparr>) k') \<and>
      mutex_inv (upd_thread t (\<lambda>th. th\<lparr>context_regs := f th\<rparr>) k') \<and>
      kframe k (upd_thread t (\<lambda>th. th\<lparr>context_regs := f th\<rparr>) k')"
    if "sched_inv k'" "mutex_inv k'" "kframe k k'" for f k'
  proof (intro conjI)
    show "sched_inv (upd_thread t (\<lambda>th. th\<lparr>context_regs := f th\<rparr>) k')"
      using that(1) by (rule sched_inv_upd_thread) simp
    show "mutex_inv (upd_thread t (\<lambda>th. th\<lparr>context_regs := f th\<rparr>) k')"
      by (rule mutex_inv_cong [OF that(2)]) simp_all
    show "kframe k (upd_thread t (\<lambda>th. th\<lparr>context_regs := f th\<rparr>) k')"
      by (rule kframe_trans [OF that(3) kframe_upd_thread]) (simp add: core_of_def)
  qed
  show thesis
  proof (cases "wakeup_callback (threads k t)")
    case None
    with inv that [of k] show thesis by (simp add: WakeUp_def)
  next
    case (Some c)
    with cb obtain b where c: "c = SVC_SyncCallback b"
      by (cases c) auto
    let ?k1 = "SetWaitSynchronizationResult t ResultSuccess k"
    have k1: "sched_inv ?k1" "mutex_inv ?k1" "kframe k ?k1" "waiting_threads ?k1 = waiting_threads k"
      "wait_objs ?k1 = wait_objs k" "\<And>u. held_mutexes (threads ?k1 u) = held_mutexes (threads k u)"
      using ctx [OF inv kframe_refl] by (simp_all add: SetWaitSynchronizationResult_def)
    let ?k2 = "SetWaitSynchronizationOutput t (last_index ob (wait_objects (threads k t)) 0 (- 1)) ?k1"
    have k2: "sched_inv ?k2" "mutex_inv ?k2" "kframe k ?k2" "waiting_threads ?k2 = waiting_threads k"
      "wait_objs ?k2 = wait_objs k" "\<And>u. held_mutexes (threads ?k2 u) = held_mutexes (threads k u)"
      using ctx [OF k1(1-3)] k1(4,5,6) by (simp_all add: SetWaitSynchronizationOutput_def)
    have "GetWaitObjectIndex t ob ?k1 = Some (last_index ob (wait_objects (threads k t)) 0 (- 1))"
      using w by (simp add: GetWaitObjectIndex_def SetWaitSynchronizationResult_def)
    then have "WakeUp Signal t ob k = Some (if b then ?k2 else ?k1)"
      using Some c by (simp add: WakeUp_def)
    with k1 k2 that show thesis by (cases b) auto
  qed
qed

lemma leave_objects_frame:
  assumes inv: "sched_inv k" "mutex_inv k" "wait_inv k"
  obtains k' where "leave_objects t k = Some k'" "sched_inv k'" "mutex_inv k'" "rest_same k k'"
    "\<And>u. core_of (threads k' u) = core_of (if u = t then (threads k u)\<lparr>wait_objects := []\<rparr> else threads k u)"
    "\<And>x. waiting_threads k' x = removeAll t (waiting_threads k x)"
    "\<And>x. erase_prio (wait_objs k' x) = erase_prio (wait_objs k x)"
    "\<And>u. held_mutexes (threads k' u) = held_mutexes (threads k u)"
proof -
  from remove_loop_frame [OF inv(1,2) wait_invD(1) [OF inv(3)], where obs = "wait_objects (threads k t)" and t = t]
  obtain k1 where k1: "for_each (\<lambda>ob. RemoveWaitingThread ob t) (wait_objects (threads k t)) k = Some k1"
    "pframe k k1" "\<And>x. waiting_threads k1 x = (if x \<in> set (wait_objects (threads k t))
       then removeAll t (waiting_threads k x) else waiting_threads k x)"
    by blast
  let ?k = "upd_thread t (\<lambda>th. th\<lparr>wait_objects := []\<rparr>) k1"
  have fr: "kframe k k1"
    using k1(2) by (simp add: pframe_def)
  show thesis
  proof (rule that)
    show "leave_objects t k = Some ?k"
      by (simp add: leave_objects_def k1(1))
    show "sched_inv ?k"
      by (rule sched_inv_upd_thread [OF pframe_sched_inv [OF k1(2)]]) simp
    show "mutex_inv ?k"
      by (rule mutex_inv_cong [OF pframe_mutex_inv [OF k1(2) inv(2)]]) simp_all
    show "rest_same k ?k"
      using fr by (simp add: kframe_def)
    show "erase_prio (wait_objs ?k x) = erase_prio (wait_objs k x)" for x
      using k1(2) by (simp add: pframe_def)
    show "held_mutexes (threads ?k u) = held_mutexes (threads k u)" for u
      using k1(2) by (simp add: pframe_def)
    have "core_of (threads k1 u) = core_of (threads k u)" for u
      using fr by (simp add: kframe_def)
    then show "core_of (threads ?k u) = core_of (if u = t then (threads k u)\<lparr>wait_objects := []\<rparr> else threads k u)" for u
      by (auto intro: core_of_leave)
    show "waiting_threads ?k x = removeAll t (waiting_threads k x)" for x
    proof (cases "x \<in> set (wait_objects (threads k t))")
      case True
      then show ?thesis unfolding upd_thread_simps k1(3) by (simp only: if_True)
    next
      case False
      then have "t \<notin> set (waiting_threads k x)"
        using wait_invD(3) [OF inv(3)] by blast
      with False show ?thesis unfolding upd_thread_simps k1(3) by (simp only: if_False removeAll_id not_False_eq_True)
    qed
  qed
qed

text \<open>A mutex does not change hands while its holder keeps it.\<close>

definition held_by :: "'m kernel \<Rightarrow> nat \<Rightarrow> nat \<Rightarrow> bool" where
  "held_by k x v \<longleftrightarrow> (\<exists>m. wait_objs k x = WMutex m \<and> holding_thread m = Some v)"

lemma held_by_erase_prio:
  assumes "erase_prio (wait_objs k' x) = erase_prio (wait_objs k x)"
  shows "held_by k' x v \<longleftrightarrow> held_by k x v"
  using assms by (cases "wait_objs k x"; cases "wait_objs k' x")
    (auto simp: held_by_def erase_prio_def mutex_data_prio)

lemma held_by_acquired:
  assumes "erase_prio (wait_objs k x) = erase_prio (acquired t w)" "held_by k x v"
  shows "v = t"
  using assms by (cases w; cases "wait_objs k x") (auto simp: held_by_def erase_prio_def acquired_def mutex_data_prio)

lemma held_by_waits:
  assumes "mutex_inv k" "held_by k x v" "t \<noteq> v"
  shows "ShouldWait k x t"
proof -
  from assms(2) obtain m where m: "wait_objs k x = WMutex m" "holding_thread m = Some v"
    by (auto simp: held_by_def)
  then have "lock_count m > 0"
    using assms(1) unfolding mutex_inv_def by (metis option.distinct(1) order_le_less)
  with m assms(3) show ?thesis
    by (auto simp: ShouldWait_def)
qed

lemma wake_one_spec:
  assumes inv: "kinv k" and t: "t \<in> set (waiting_threads k ob)" "eligible k ob t"
  obtains k' where "wake_one ob t k = Some k'" "kinv k'" "woken {t} k k'"
    "erase_prio (wait_objs k' ob) = erase_prio (acquired t (wait_objs k ob))"
    "\<And>x v. v \<noteq> t \<Longrightarrow> held_by k' x v \<longleftrightarrow> held_by k x v"
    "\<And>u. u \<noteq> t \<Longrightarrow> held_mutexes (threads k' u) = held_mutexes (threads k u)"
proof -
  from inv have I: "sched_inv k" "wait_inv k" "mutex_inv k"
    by (simp_all add: kinv_def)
  note w = wait_invD [OF I(2)]
  note tt = w(2-4) [OF t(1)]
  obtain k1 where k1: "(if status (threads k t) \<noteq> WaitSynchAll then Acquire ob t k
      else for_each (\<lambda>x. Acquire x t) (wait_objects (threads k t)) k) = Some k1"
    "sched_inv k1" "mutex_inv k1" "kframe k k1" "waiting_threads k1 = waiting_threads k"
    "erase_prio (wait_objs k1 ob) = erase_prio (acquired t (wait_objs k ob))"
    "\<And>x. wait_objs k1 x = wait_objs k x \<or>
       \<not> ShouldWait k x t \<and> erase_prio (wait_objs k1 x) = erase_prio (acquired t (wait_objs k x))"
    "\<And>u. u \<noteq> t \<Longrightarrow> held_mutexes (threads k1 u) = held_mutexes (threads k u)"
  proof (cases "status (threads k t) = WaitSynchAll")
    case True
    with t(2) have sw: "\<And>x. x \<in> set (wait_objects (threads k t)) \<Longrightarrow> \<not> ShouldWait k x t"
      by (simp add: eligible_def ready_to_run_def)
    show thesis
    proof (rule Acquire_all_frame [OF I(1,3) tt(1) w(6) [OF tt(1) True] sw])
      fix k' assume k': "for_each (\<lambda>x. Acquire x t) (wait_objects (threads k t)) k = Some k'" "sched_inv k'"
        "mutex_inv k'" "kframe k k'" "waiting_threads k' = waiting_threads k"
        "\<And>x. x \<notin> set (wait_objects (threads k t)) \<Longrightarrow> wait_objs k' x = wait_objs k x"
        "\<And>x. x \<in> set (wait_objects (threads k t)) \<Longrightarrow> erase_prio (wait_objs k' x) = erase_prio (acquired t (wait_objs k x))"
        "\<And>u. u \<noteq> t \<Longrightarrow> held_mutexes (threads k' u) = held_mutexes (threads k u)"
      have "wait_objs k' x = wait_objs k x \<or>
          \<not> ShouldWait k x t \<and> erase_prio (wait_objs k' x) = erase_prio (acquired t (wait_objs k x))" for x
        using k'(6,7) [of x] sw [of x] by blast
      with True k' tt(2) show thesis
        by (intro that [of k']) auto
    qed
  next
    case False
    from t(2) have sw: "\<not> ShouldWait k ob t"
      by (simp add: eligible_def)
    show thesis
    proof (rule Acquire_frame [OF I(1,3) tt(1) sw])
      fix k' assume k': "Acquire ob t k = Some k'" "sched_inv k'" "mutex_inv k'" "kframe k k'"
        "waiting_threads k' = waiting_threads k" "\<And>x. x \<noteq> ob \<Longrightarrow> wait_objs k' x = wait_objs k x"
        "erase_prio (wait_objs k' ob) = erase_prio (acquired t (wait_objs k ob))"
        "\<And>u. u \<noteq> t \<Longrightarrow> held_mutexes (threads k' u) = held_mutexes (threads k u)"
      have "wait_objs k' x = wait_objs k x \<or>
          \<not> ShouldWait k x t \<and> erase_prio (wait_objs k' x) = erase_prio (acquired t (wait_objs k x))" for x
        using sw k'(6) [of x] k'(7) by (cases "x = ob") auto
      with False k' show thesis
        by (intro that [of k']) auto
    qed
  qed
  note f1 = kframeD [OF k1(4)]
  have "wait_objects (threads k1 t) \<noteq> []" "\<And>a. wakeup_callback (threads k1 t) \<noteq> Some (ArbiterCallback a)"
    using tt(2) w(5) [OF t(1)] by (auto simp: f1(3,5))
  from WakeUp_Signal_frame [where ob = ob, OF k1(2,3) this] obtain k2 where k2: "WakeUp Signal t ob k1 = Some k2"
    "sched_inv k2" "mutex_inv k2" "kframe k1 k2" "waiting_threads k2 = waiting_threads k1" "wait_objs k2 = wait_objs k1"
    "\<And>u. held_mutexes (threads k2 u) = held_mutexes (threads k1 u)"
    by metis
  have f2: "kframe k k2"
    by (rule kframe_trans [OF k1(4) k2(4)])
  have "wait_inv k2"
    by (rule wait_inv_kframe [OF I(2) f2]) (simp_all add: k1(5) k2(5) w(1))
  note w2 = this
  obtain k3 where k3: "leave_objects t k2 = Some k3"
    "sched_inv k3" "mutex_inv k3" "rest_same k2 k3"
    "\<And>u. core_of (threads k3 u) = core_of (if u = t then (threads k2 u)\<lparr>wait_objects := []\<rparr> else threads k2 u)"
    "\<And>x. waiting_threads k3 x = removeAll t (waiting_threads k2 x)"
    "\<And>x. erase_prio (wait_objs k3 x) = erase_prio (wait_objs k2 x)"
    "\<And>u. held_mutexes (threads k3 u) = held_mutexes (threads k2 u)"
    by (rule leave_objects_frame [where t = t, OF k2(2,3) w2]) (assumption | rule that)+
  have isk3: "is_thread k3 = is_thread k"
    using k3(4) kframeD(1) [OF f2] by (simp add: rest_same_def)
  note c3 = core_of_eqD [OF k3(5) [of t]]
  have t3: "wait_objects (threads k3 t) = []" "resumable (status (threads k3 t))" "is_thread k3 t"
    using c3 tt isk3 kframeD(4) [OF f2] by (auto simp: waits_on_objects_def resumable_def)
  from ResumeFromWait_spec [OF k3(2) t3(3,1)] t3(2) obtain q where k4: "ResumeFromWait t k3 = Some (PrepareReschedule
      (set_queue (core_id (threads k3 t)) q
        (upd_thread t (\<lambda>th. th\<lparr>wakeup_callback := None, status := Ready\<rparr>) k3)))"
    "sched_inv (PrepareReschedule (set_queue (core_id (threads k3 t)) q
      (upd_thread t (\<lambda>th. th\<lparr>wakeup_callback := None, status := Ready\<rparr>) k3)))"
    by blast
  let ?k = "PrepareReschedule (set_queue (core_id (threads k3 t)) q
      (upd_thread t (\<lambda>th. th\<lparr>wakeup_callback := None, status := Ready\<rparr>) k3))"
  have "wake_one ob t k = Some ?k"
    by (simp add: wake_one_def k1(1) k2(1) k3(1) k4(1))
  moreover have wk: "woken {t} k ?k"
    unfolding woken_def
  proof (intro conjI allI)
    show "rest_same k ?k"
      using rest_same_trans [OF kframeD(2) [OF f2] k3(4)] by simp
    show "\<forall>u \<in> {t}. \<exists>x. u \<in> set (waiting_threads k x)"
      using t by auto
    show "waiting_threads ?k x = filter (\<lambda>u. u \<notin> {t}) (waiting_threads k x)" for x
      unfolding PrepareReschedule_simps set_queue_simps upd_thread_simps k3(6) k2(5) k1(5) removeAll_filter_not_eq
      by (rule filter_cong) auto
    have "core_of (threads k2 u) = core_of (threads k u)" for u
      using f2 by (simp add: kframe_def)
    then have "core_of (threads k3 u) = core_of (if u = t then (threads k u)\<lparr>wait_objects := []\<rparr> else threads k u)" for u
      unfolding k3(5) by (auto intro: core_of_leave)
    then show "core_of (threads ?k u) = core_of (if u \<in> {t} then awake (threads k u) else threads k u)" for u
      by (auto intro: core_of_ready)
  qed
  moreover have "kinv ?k"
    unfolding kinv_def
  proof (intro conjI)
    show "wait_inv ?k"
      by (rule wait_inv_woken [OF I(2) wk])
    show "mutex_inv ?k"
      by (rule mutex_inv_cong [OF k3(3)]) (use t3(2) in \<open>auto simp: resumable_def\<close>)
  qed (rule k4(2))
  moreover have "erase_prio (wait_objs ?k ob) = erase_prio (acquired t (wait_objs k ob))"
    using k3(7) k2(6) k1(6) by simp
  moreover have "held_by ?k x v \<longleftrightarrow> held_by k x v" if "v \<noteq> t" for x v
  proof -
    have "held_by ?k x v \<longleftrightarrow> held_by k1 x v"
      using k3(7) [of x] k2(6) by (intro held_by_erase_prio) simp
    also have "\<dots> \<longleftrightarrow> held_by k x v"
      using k1(7) [of x]
    proof
      assume "\<not> ShouldWait k x t \<and> erase_prio (wait_objs k1 x) = erase_prio (acquired t (wait_objs k x))"
      then show ?thesis
        using held_by_waits [OF I(3), of x v t] that held_by_acquired [of k1 x t "wait_objs k x" v] by auto
    qed (simp add: held_by_def)
    finally show ?thesis .
  qed
  moreover have "held_mutexes (threads ?k u) = held_mutexes (threads k u)" if "u \<noteq> t" for u
    using that k1(8) k2(7) k3(8) by simp
  ultimately show thesis
    using that by blast
qed

section \<open>Waking all of them\<close>

lemma notify_hle_simps [simp]:
  "threads (notify_hle ob k) = threads k" "wait_objs (notify_hle ob k) = wait_objs k"
  "waiting_threads (notify_hle ob k) = waiting_threads k" "managers (notify_hle ob k) = managers k"
  "timing (notify_hle ob k) = timing k" "is_thread (notify_hle ob k) = is_thread k"
  "rest_same k' (notify_hle ob k) \<longleftrightarrow> rest_same k' k"
  by (simp_all add: notify_hle_def rest_same_def is_thread_def fun_eq_iff)

lemma kinv_notify_hle [simp]: "kinv (notify_hle ob k) \<longleftrightarrow> kinv k"
proof -
  have "sched_inv (notify_hle ob k) \<longleftrightarrow> sched_inv k"
    by (rule sched_inv_same_threads) simp_all
  then show ?thesis
    by (simp add: kinv_def wait_inv_def mutex_inv_def)
qed

lemma woken_notify_hle [simp]: "woken W k (notify_hle ob k') \<longleftrightarrow> woken W k k'"
  by (simp add: woken_def)

lemma best_of_memD: "best_of ok pr ts t \<Longrightarrow> t \<in> set ts \<and> ok t"
  by (auto simp: best_of_def)

text \<open>The threads woken in turn, each from the state the previous one left the object in.\<close>

definition should_wait :: "wait_object \<Rightarrow> nat \<Rightarrow> bool" where
  "should_wait w t = (case w of
     WThread \<Rightarrow> False
   | WMutex m \<Rightarrow> lock_count m > 0 \<and> holding_thread m \<noteq> Some t
   | WSemaphore s \<Rightarrow> available_count s \<le> 0
   | WEvent e \<Rightarrow> \<not> event_signaled e
   | WTimer tm \<Rightarrow> \<not> timer_signaled tm)"

fun wakes :: "wait_object \<Rightarrow> nat list \<Rightarrow> bool" where
  "wakes w [] \<longleftrightarrow> True"
| "wakes w (t # ts) \<longleftrightarrow> \<not> should_wait w t \<and> wakes (acquired t w) ts"

lemma should_wait_weaker: "\<not> ShouldWait k ob t \<Longrightarrow> \<not> should_wait (wait_objs k ob) t"
  by (auto simp: ShouldWait_def should_wait_def split: wait_object.splits)

lemma erase_prio_should_wait: "erase_prio w = erase_prio w' \<Longrightarrow> should_wait w t = should_wait w' t"
  by (cases w; cases w') (auto simp: erase_prio_def should_wait_def mutex_data_prio)

lemma erase_prio_wakes: "erase_prio w = erase_prio w' \<Longrightarrow> wakes w ts = wakes w' ts"
proof (induction ts arbitrary: w w')
  case (Cons t ts)
  show ?case
    using Cons.IH [OF erase_prio_acquired [OF Cons.prems, of t]] erase_prio_should_wait [OF Cons.prems, of t] by simp
qed simp

lemma erase_prio_fold:
  "erase_prio w = erase_prio w' \<Longrightarrow> erase_prio (fold acquired ts w) = erase_prio (fold acquired ts w')"
proof (induction ts arbitrary: w w')
  case (Cons t ts)
  show ?case
    using Cons.IH [OF erase_prio_acquired [OF Cons.prems, of t]] by simp
qed simp

lemma wakeup_loop_spec:
  assumes "kinv k"
  obtains k' ws where "wakeup_loop ob k = Some (notify_hle ob k')" "kinv k'" "woken (set ws) k k'"
    "set ws \<subseteq> set (waiting_threads k ob)" "\<forall>u \<in> set (waiting_threads k' ob). \<not> eligible k' ob u"
    "distinct ws" "wakes (wait_objs k ob) ws"
    "erase_prio (wait_objs k' ob) = erase_prio (fold acquired ws (wait_objs k ob))"
    "case ws of [] \<Rightarrow> \<forall>u \<in> set (waiting_threads k ob). \<not> eligible k ob u
     | t # _ \<Rightarrow> best_of (eligible k ob) (\<lambda>u. current_priority (threads k u)) (waiting_threads k ob) t"
    "\<And>x v. v \<notin> set ws \<Longrightarrow> held_by k' x v \<longleftrightarrow> held_by k x v"
    "\<And>v. v \<notin> set ws \<Longrightarrow> held_mutexes (threads k' v) = held_mutexes (threads k v)"
  using assms
proof (induction "length (waiting_threads k ob)" arbitrary: k thesis rule: less_induct)
  case less
  from less.prems(2) have I: "sched_inv k" "wait_inv k"
    by (simp_all add: kinv_def)
  show ?case
  proof (rule GetHighest_cases [OF I, of ob])
    assume "GetHighestPriorityReadyThread ob k = Some None" "\<forall>u \<in> set (waiting_threads k ob). \<not> eligible k ob u"
    then show ?thesis
      using less.prems(2) by (intro less.prems(1) [of k "[]"]) (simp_all add: wakeup_loop.simps woken_empty)
  next
    fix t assume g: "GetHighestPriorityReadyThread ob k = Some (Some t)"
      "best_of (eligible k ob) (\<lambda>u. current_priority (threads k u)) (waiting_threads k ob) t"
    note t = best_of_memD [OF g(2)]
    from wake_one_spec [OF less.prems(2)] t obtain k1 where k1: "wake_one ob t k = Some k1" "kinv k1" "woken {t} k k1"
      "erase_prio (wait_objs k1 ob) = erase_prio (acquired t (wait_objs k ob))"
      "\<And>x v. v \<noteq> t \<Longrightarrow> held_by k1 x v \<longleftrightarrow> held_by k x v"
      "\<And>u. u \<noteq> t \<Longrightarrow> held_mutexes (threads k1 u) = held_mutexes (threads k u)"
      by metis
    have w1: "waiting_threads k1 ob = filter (\<lambda>u. u \<noteq> t) (waiting_threads k ob)"
      using wokenD(3) [OF k1(3)] by simp
    then have lt: "length (waiting_threads k1 ob) < length (waiting_threads k ob)"
      using t by (simp add: length_filter_less [of t])
    obtain k2 ws where k2: "wakeup_loop ob k1 = Some (notify_hle ob k2)" "kinv k2"
      "woken (set ws) k1 k2" "set ws \<subseteq> set (waiting_threads k1 ob)" "\<forall>u \<in> set (waiting_threads k2 ob). \<not> eligible k2 ob u"
      "distinct ws" "wakes (wait_objs k1 ob) ws"
      "erase_prio (wait_objs k2 ob) = erase_prio (fold acquired ws (wait_objs k1 ob))"
      "\<And>x v. v \<notin> set ws \<Longrightarrow> held_by k2 x v \<longleftrightarrow> held_by k1 x v"
      "\<And>v. v \<notin> set ws \<Longrightarrow> held_mutexes (threads k2 v) = held_mutexes (threads k1 v)"
      by (rule less.hyps [OF lt _ k1(2)]) (rule that, assumption+)
    have w: "woken (set (t # ws)) k k2"
      using woken_trans [OF k1(3) k2(3)] by simp
    have "\<not> should_wait (wait_objs k ob) t"
      using t by (simp add: eligible_def should_wait_weaker)
    show ?thesis
    proof (rule less.prems(1) [OF _ k2(2) w _ k2(5)])
      show "wakeup_loop ob k = Some (notify_hle ob k2)"
        using g(1) k1(1) k2(1) by (simp add: wakeup_loop.simps [of ob k])
      show "set (t # ws) \<subseteq> set (waiting_threads k ob)" "distinct (t # ws)"
        using t k2(4,6) w1 by auto
      show "wakes (wait_objs k ob) (t # ws)"
        using \<open>\<not> should_wait _ _\<close> k2(7) erase_prio_wakes [OF k1(4)] by simp
      show "erase_prio (wait_objs k2 ob) = erase_prio (fold acquired (t # ws) (wait_objs k ob))"
        using k2(8) erase_prio_fold [OF k1(4)] by simp
      show "held_by k2 x v \<longleftrightarrow> held_by k x v" if "v \<notin> set (t # ws)" for x v
        using that k1(5) k2(9) by simp
      show "held_mutexes (threads k2 v) = held_mutexes (threads k v)" if "v \<notin> set (t # ws)" for v
        using that k1(6) k2(10) by simp
    qed (use g(2) in simp)
  qed
qed

lemma mutex_inv_set_object:
  assumes "mutex_inv k" "mutex_view (wait_objs k ob) = None" "mutex_view w = None"
    "is_thread k ob \<longleftrightarrow> w = WThread"
  shows "mutex_inv (set_object ob w k)"
  by (rule mutex_inv_cong [OF assms(1)])
    (use assms kframeD(1) [OF kframe_set_object [OF assms(4)]] in auto)

text \<open>Replacing the state of an object that is neither a thread nor a mutex.\<close>

lemma kinv_set_object:
  assumes "kinv k" "mutex_view (wait_objs k ob) = None" "wait_objs k ob \<noteq> WThread" "mutex_view w = None" "w \<noteq> WThread"
  shows "kinv (set_object ob w k)"
proof -
  have nt: "is_thread k ob \<longleftrightarrow> w = WThread"
    using assms by (simp add: is_thread_def)
  have "wait_inv (set_object ob w k)"
    by (rule wait_inv_kframe [OF _ kframe_set_object [OF nt]]) (use assms(1) in \<open>auto simp: kinv_def wait_inv_def\<close>)
  with assms nt show ?thesis
    by (simp add: kinv_def sched_inv_set_object mutex_inv_set_object)
qed

lemma woken_set_object_right:
  assumes "woken W k k'" "is_thread k' ob \<longleftrightarrow> w = WThread"
  shows "woken W k (set_object ob w k')"
  using assms(1) rest_same_trans [OF _ rest_same_set_object [OF assms(2)]] by (simp add: woken_def)

lemma woken_set_object_left:
  assumes "woken W (set_object ob w k) k'" "is_thread k ob \<longleftrightarrow> w = WThread"
  shows "woken W k k'"
  using assms(1) rest_same_trans [OF rest_same_set_object [OF assms(2)]] by (simp add: woken_def)

lemma end_pulse_cases:
  obtains "end_pulse ob k = k"
  | e where "wait_objs k ob = WEvent e" "end_pulse ob k = set_object ob (WEvent (e\<lparr>event_signaled := False\<rparr>)) k"
  | tm where "wait_objs k ob = WTimer tm" "end_pulse ob k = set_object ob (WTimer (tm\<lparr>timer_signaled := False\<rparr>)) k"
proof -
  have "end_pulse ob k = k \<or>
      (\<exists>e. wait_objs k ob = WEvent e \<and> end_pulse ob k = set_object ob (WEvent (e\<lparr>event_signaled := False\<rparr>)) k) \<or>
      (\<exists>tm. wait_objs k ob = WTimer tm \<and> end_pulse ob k = set_object ob (WTimer (tm\<lparr>timer_signaled := False\<rparr>)) k)"
    by (simp add: end_pulse_def split: wait_object.split)
  with that show thesis by blast
qed

lemma end_pulse_spec:
  assumes "kinv k" "woken W k0 k"
  shows "kinv (end_pulse ob k)" "woken W k0 (end_pulse ob k)" "waiting_threads (end_pulse ob k) = waiting_threads k"
    "\<And>x t. ShouldWait k x t \<Longrightarrow> ShouldWait (end_pulse ob k) x t"
  by (rule end_pulse_cases [of ob k]; use assms in \<open>auto intro!: kinv_set_object woken_set_object_right
    simp: mutex_view_def is_thread_def ShouldWait_def split: wait_object.splits if_splits\<close>)+

lemma ready_to_run_cong:
  assumes "\<And>x. ShouldWait k x t \<Longrightarrow> ShouldWait k' x t" "threads k' t = threads k t"
  shows "eligible k' ob t \<Longrightarrow> eligible k ob t"
  using assms by (auto simp: eligible_def ready_to_run_def)

definition unpulse :: "wait_object \<Rightarrow> wait_object" where
  "unpulse w = (case w of
     WEvent e \<Rightarrow> WEvent (if event_reset e = Pulse then e\<lparr>event_signaled := False\<rparr> else e)
   | WTimer tm \<Rightarrow> WTimer (if timer_reset tm = Pulse then tm\<lparr>timer_signaled := False\<rparr> else tm)
   | _ \<Rightarrow> w)"

lemma end_pulse_unpulse: "wait_objs (end_pulse ob k) = (wait_objs k)(ob := unpulse (wait_objs k ob))"
  by (auto simp: end_pulse_def unpulse_def fun_eq_iff split: wait_object.split)

lemma erase_prio_unpulse: "erase_prio w = erase_prio w' \<Longrightarrow> erase_prio (unpulse w) = erase_prio (unpulse w')"
  by (cases w; cases w') (auto simp: erase_prio_def unpulse_def mutex_data_prio)

text \<open>
  The contract of \<open>WakeupAllWaitingThreads\<close>: the threads \<open>ws\<close> are woken in turn, the first being
  the best eligible waiter, each by acquiring the object; no eligible waiter remains.
\<close>

definition woke_all :: "nat \<Rightarrow> 'm kernel \<Rightarrow> 'm kernel \<Rightarrow> nat list \<Rightarrow> bool" where
  "woke_all ob k k' ws \<longleftrightarrow> kinv k' \<and> woken (set ws) k k' \<and> set ws \<subseteq> set (waiting_threads k ob) \<and>
     (\<forall>u \<in> set (waiting_threads k' ob). \<not> eligible k' ob u) \<and> distinct ws \<and> wakes (wait_objs k ob) ws \<and>
     erase_prio (wait_objs k' ob) = erase_prio (unpulse (fold acquired ws (wait_objs k ob))) \<and>
     (\<forall>x v. v \<notin> set ws \<longrightarrow> held_by k' x v = held_by k x v) \<and>
     (\<forall>v. v \<notin> set ws \<longrightarrow> held_mutexes (threads k' v) = held_mutexes (threads k v)) \<and>
     (wait_objs k ob \<noteq> WThread \<longrightarrow> (\<forall>u \<in> set (waiting_threads k ob) - set ws.
        status (threads k u) \<noteq> WaitSynchAll \<longrightarrow> should_wait (fold acquired ws (wait_objs k ob)) u)) \<and>
     (case ws of [] \<Rightarrow> \<forall>u \<in> set (waiting_threads k ob). \<not> eligible k ob u
      | t # _ \<Rightarrow> best_of (eligible k ob) (\<lambda>u. current_priority (threads k u)) (waiting_threads k ob) t)"

lemma WakeupAll_spec:
  assumes "kinv k"
  obtains k' ws where "WakeupAllWaitingThreads ob k = Some k'" "woke_all ob k k' ws"
proof -
  obtain k1 ws where k1: "wakeup_loop ob k = Some (notify_hle ob k1)"
    "kinv k1" "woken (set ws) k k1" "set ws \<subseteq> set (waiting_threads k ob)"
    "\<forall>u \<in> set (waiting_threads k1 ob). \<not> eligible k1 ob u"
    "distinct ws" "wakes (wait_objs k ob) ws"
    "erase_prio (wait_objs k1 ob) = erase_prio (fold acquired ws (wait_objs k ob))"
    "case ws of [] \<Rightarrow> \<forall>u \<in> set (waiting_threads k ob). \<not> eligible k ob u
     | t # _ \<Rightarrow> best_of (eligible k ob) (\<lambda>u. current_priority (threads k u)) (waiting_threads k ob) t"
    "\<And>x v. v \<notin> set ws \<Longrightarrow> held_by k1 x v \<longleftrightarrow> held_by k x v"
    "\<And>v. v \<notin> set ws \<Longrightarrow> held_mutexes (threads k1 v) = held_mutexes (threads k v)"
    by (rule wakeup_loop_spec [OF assms]) (rule that, assumption+)
  let ?k = "end_pulse ob (notify_hle ob k1)"
  have e: "kinv ?k" "woken (set ws) k ?k" "waiting_threads ?k = waiting_threads k1"
    "\<And>x t. ShouldWait (notify_hle ob k1) x t \<Longrightarrow> ShouldWait ?k x t"
    using k1(2,3) end_pulse_spec [where k = "notify_hle ob k1" and W = "set ws" and ?k0.0 = k and ob = ob]
    unfolding kinv_notify_hle woken_notify_hle notify_hle_simps by blast+
  have th: "threads ?k = threads k1"
    by (rule end_pulse_cases [of ob "notify_hle ob k1"]) simp_all
  have "ShouldWait ?k x t" if "ShouldWait k1 x t" for x t
    using e(4) [of x t] that ShouldWait_other [of "notify_hle ob k1" x k1 t] by simp
  then have "eligible k1 ob u" if "eligible ?k ob u" for u
    using ready_to_run_cong [of k1 u ?k ob] that th by simp
  with k1(5) e(3) have "\<forall>u \<in> set (waiting_threads ?k ob). \<not> eligible ?k ob u"
    by auto
  moreover have "erase_prio (wait_objs ?k ob) = erase_prio (unpulse (fold acquired ws (wait_objs k ob)))"
    using erase_prio_unpulse [OF k1(8)] by (simp add: end_pulse_unpulse)
  moreover have "held_by ?k x v \<longleftrightarrow> held_by k1 x v" for x v
    by (auto simp: held_by_def end_pulse_unpulse unpulse_def split: wait_object.splits)
  moreover have "should_wait (fold acquired ws (wait_objs k ob)) u"
    if nt: "wait_objs k ob \<noteq> WThread" and u: "u \<in> set (waiting_threads k ob) - set ws" "status (threads k u) \<noteq> WaitSynchAll" for u
  proof -
    have w: "u \<in> set (waiting_threads k1 ob)" "status (threads k1 u) \<noteq> WaitSynchAll" "wait_objs k1 ob \<noteq> WThread"
      using u nt wokenD [OF k1(3)] by (auto simp: is_thread_def fun_eq_iff)
    with k1(5) have "ShouldWait k1 ob u"
      by (auto simp: eligible_def ready_to_run_def)
    with w(3) have "should_wait (wait_objs k1 ob) u"
      by (auto simp: ShouldWait_def should_wait_def split: wait_object.splits)
    with erase_prio_should_wait [OF k1(8)] show ?thesis by simp
  qed
  ultimately show thesis
    using e(1,2) th k1 that [of ?k ws] by (simp add: WakeupAllWaitingThreads_def woke_all_def)
qed

end
