(* ===== verification/Sync_Calls.thy ===== *)
theory Sync_Calls
  imports Waking
begin

text \<open>
  The system calls that make a thread wait for objects (\<open>core/hle/kernel/svc.cpp\<close>,
  \<open>WaitSynchronization1\<close> and \<open>WaitSynchronizationN\<close>). The running thread is that of the current
  core's manager. \<open>get_wait\<close> is the lookup of a wait object in the handle table of the current
  process. A result is the new state and the result code; \<open>WaitSynchronizationN\<close> also gives the
  value it stores through \<open>out\<close>, if it stores one.
\<close>

section \<open>WaitSynchronization1\<close>

definition WaitSynchronization1 ::
  "(u32 \<Rightarrow> nat option) \<Rightarrow> u32 \<Rightarrow> int \<Rightarrow> 'm kernel \<Rightarrow> ('m kernel \<times> u32) option" where
  "WaitSynchronization1 get_wait handle nano_seconds k =
     (case get_wait handle of
        None \<Rightarrow> Some (k, ResultInvalidHandle)
      | Some ob \<Rightarrow> do {
          t \<leftarrow> running_thread k;
          if ShouldWait k ob t
          then if nano_seconds = 0 then Some (k, ResultTimeout)
               else do {
                 let k = upd_thread t (\<lambda>th. th\<lparr>wait_objects := [ob]\<rparr>) k;
                 k \<leftarrow> AddWaitingThread ob t k;
                 let k = upd_thread t (\<lambda>th. th\<lparr>status := WaitSynchAny\<rparr>) k;
                 k \<leftarrow> WakeAfterDelay t nano_seconds False k;
                 let k = upd_thread t (\<lambda>th. th\<lparr>wakeup_callback := Some (SVC_SyncCallback False)\<rparr>) k;
                 Some (PrepareReschedule k, ResultTimeout) }
          else do { k \<leftarrow> Acquire ob t k; Some (k, ResultSuccess) } })"

section \<open>WaitSynchronizationN\<close>

text \<open>Reading the handles from memory; the first that names no wait object ends the call.\<close>

fun lookup_objects :: "(u32 \<Rightarrow> nat option) \<Rightarrow> u32 list \<Rightarrow> nat list option" where
  "lookup_objects get_wait [] = Some []"
| "lookup_objects get_wait (h # hs) =
     (case get_wait h of None \<Rightarrow> None
      | Some ob \<Rightarrow> map_option ((#) ob) (lookup_objects get_wait hs))"

definition handles_at :: "('m \<Rightarrow> u32 \<Rightarrow> u32) \<Rightarrow> 'm \<Rightarrow> u32 \<Rightarrow> nat \<Rightarrow> u32 list" where
  "handles_at Read32 m addr n = map (\<lambda>i. Read32 m (addr + of_nat i * 4)) [0..<n]"

text \<open>The common end of the two branches that put the thread to sleep.\<close>

definition sleep_on ::
  "nat \<Rightarrow> nat list \<Rightarrow> ThreadStatus \<Rightarrow> bool \<Rightarrow> int \<Rightarrow> 'm kernel \<Rightarrow> 'm kernel option" where
  "sleep_on t obs st do_output nano_seconds k = do {
     let k = upd_thread t (\<lambda>th. th\<lparr>status := st\<rparr>) k;
     k \<leftarrow> for_each (\<lambda>ob. AddWaitingThread ob t) obs k;
     let k = upd_thread t (\<lambda>th. th\<lparr>wait_objects := obs\<rparr>) k;
     k \<leftarrow> WakeAfterDelay t nano_seconds False k;
     let k = upd_thread t (\<lambda>th. th\<lparr>wakeup_callback := Some (SVC_SyncCallback do_output)\<rparr>) k;
     Some (PrepareReschedule k) }"

fun find_index :: "('a \<Rightarrow> bool) \<Rightarrow> 'a list \<Rightarrow> nat option" where
  "find_index P [] = None"
| "find_index P (x # xs) = (if P x then Some 0 else map_option Suc (find_index P xs))"

definition wait_all_objects ::
  "nat \<Rightarrow> nat list \<Rightarrow> int \<Rightarrow> 'm kernel \<Rightarrow> ('m kernel \<times> u32 \<times> int option) option" where
  "wait_all_objects t obs nano_seconds k =
     (if \<forall>ob \<in> set obs. \<not> ShouldWait k ob t
      then do { k \<leftarrow> for_each (\<lambda>ob. Acquire ob t) obs k; Some (k, ResultSuccess, None) }
      else if nano_seconds = 0 then Some (k, ResultTimeout, None)
      else do {
        k \<leftarrow> sleep_on t obs WaitSynchAll False nano_seconds k;
        Some (k, ResultTimeout, Some (- 1)) })"

definition wait_any_object ::
  "nat \<Rightarrow> nat list \<Rightarrow> int \<Rightarrow> 'm kernel \<Rightarrow> ('m kernel \<times> u32 \<times> int option) option" where
  "wait_any_object t obs nano_seconds k =
     (case find_index (\<lambda>ob. \<not> ShouldWait k ob t) obs of
        Some i \<Rightarrow> do { k \<leftarrow> Acquire (obs ! i) t k; Some (k, ResultSuccess, Some (int i)) }
      | None \<Rightarrow>
          if nano_seconds = 0 then Some (k, ResultTimeout, None)
          else do {
            k \<leftarrow> sleep_on t obs WaitSynchAny True nano_seconds k;
            Some (k, ResultTimeout, Some (- 1)) })"

text \<open>
  \<open>valid_address\<close> is the answer of \<open>IsValidVirtualAddress\<close> for the handle array; the code asserts
  that \<open>out\<close> is not null, which the dispatcher guarantees.
\<close>

definition WaitSynchronizationN ::
  "(u32 \<Rightarrow> nat option) \<Rightarrow> ('m \<Rightarrow> u32 \<Rightarrow> u32) \<Rightarrow> bool \<Rightarrow> u32 \<Rightarrow> int \<Rightarrow> bool \<Rightarrow> int \<Rightarrow> 'm kernel \<Rightarrow>
   ('m kernel \<times> u32 \<times> int option) option" where
  "WaitSynchronizationN get_wait Read32 valid_address addr handle_count wait_all nano_seconds k =
     (if \<not> valid_address then Some (k, ResultInvalidPointer, None)
      else if handle_count < 0 then Some (k, ResultOutOfRange, None)
      else
        case lookup_objects get_wait (handles_at Read32 (memory k) addr (nat handle_count)) of
          None \<Rightarrow> Some (k, ResultInvalidHandle, None)
        | Some obs \<Rightarrow> do {
            t \<leftarrow> running_thread k;
            if wait_all then wait_all_objects t obs nano_seconds k
            else wait_any_object t obs nano_seconds k })"

section \<open>Going to sleep\<close>

text \<open>Thread \<open>t\<close> has gone to sleep on \<open>obs\<close>; nothing else has happened.\<close>

definition asleep :: "nat \<Rightarrow> nat list \<Rightarrow> ThreadStatus \<Rightarrow> bool \<Rightarrow> 'm kernel \<Rightarrow> 'm kernel \<Rightarrow> bool" where
  "asleep t obs st do_output k k' \<longleftrightarrow> is_thread k' = is_thread k \<and>
     map manager_rest (managers k') = map manager_rest (managers k) \<and>
     arbiter_threads k' = arbiter_threads k \<and>
     length (timers (timing k')) = length (timers (timing k)) \<and> current_timer (timing k') = current_timer (timing k) \<and>
     (\<forall>x. waiting_threads k' x = (if x \<in> set obs then waiting_threads k x @ [t] else waiting_threads k x)) \<and>
     (\<forall>u. core_of (threads k' u) = core_of (if u = t then (threads k t)\<lparr>wait_objects := obs, status := st,
        wakeup_callback := Some (SVC_SyncCallback do_output)\<rparr> else threads k u))"

lemma asleepD:
  assumes "asleep t obs st b k k'"
  shows "is_thread k' = is_thread k"
    "waiting_threads k' x = (if x \<in> set obs then waiting_threads k x @ [t] else waiting_threads k x)"
    "status (threads k' u) = (if u = t then st else status (threads k u))"
    "wait_objects (threads k' u) = (if u = t then obs else wait_objects (threads k u))"
    "wakeup_callback (threads k' u) = (if u = t then Some (SVC_SyncCallback b) else wakeup_callback (threads k u))"
proof -
  from assms have "core_of (threads k' u) = core_of (if u = t then (threads k t)\<lparr>wait_objects := obs, status := st,
        wakeup_callback := Some (SVC_SyncCallback b)\<rparr> else threads k u)"
    by (simp add: asleep_def)
  from core_of_eqD [OF this] assms show "is_thread k' = is_thread k"
    "waiting_threads k' x = (if x \<in> set obs then waiting_threads k x @ [t] else waiting_threads k x)"
    "status (threads k' u) = (if u = t then st else status (threads k u))"
    "wait_objects (threads k' u) = (if u = t then obs else wait_objects (threads k u))"
    "wakeup_callback (threads k' u) = (if u = t then Some (SVC_SyncCallback b) else wakeup_callback (threads k u))"
    by (simp_all add: asleep_def)
qed

lemma asleep_wait_inv:
  assumes "wait_inv k" "is_thread k t" "\<And>x. t \<notin> set (waiting_threads k x)" "waits_on_objects st"
    "st = WaitSynchAll \<Longrightarrow> distinct obs" "asleep t obs st b k k'"
  shows "wait_inv k'"
  using assms(1-5) by (auto simp: wait_inv_def asleepD [OF assms(6)])

lemma add_loop_frame:
  assumes "sched_inv k" "mutex_inv k"
    and "\<And>x. x \<notin> A \<Longrightarrow> t \<notin> set (waiting_threads k x)" "\<And>x. x \<in> A \<Longrightarrow> t \<in> set (waiting_threads k x)"
  obtains k' where "for_each (\<lambda>ob. AddWaitingThread ob t) obs k = Some k'" "pframe k k'"
    "\<And>x. waiting_threads k' x = (if x \<in> set obs - A then waiting_threads k x @ [t] else waiting_threads k x)"
  using assms
proof (induction obs arbitrary: k A thesis)
  case Nil
  then show ?case by (simp add: pframe_refl)
next
  case (Cons ob obs)
  from AddWaitingThread_frame [OF Cons.prems(2,3)] obtain k1
    where k1: "AddWaitingThread ob t k = Some k1" "pframe k k1"
      "waiting_threads k1 = (waiting_threads k)(ob :=
         if t \<in> set (waiting_threads k ob) then waiting_threads k ob else waiting_threads k ob @ [t])"
    by blast
  have w1: "waiting_threads k1 x = (if x = ob \<and> ob \<notin> A then waiting_threads k x @ [t] else waiting_threads k x)" for x
    using Cons.prems(4,5) by (auto simp: k1(3))
  have "sched_inv k1" "mutex_inv k1" "\<And>x. x \<notin> insert ob A \<Longrightarrow> t \<notin> set (waiting_threads k1 x)"
    "\<And>x. x \<in> insert ob A \<Longrightarrow> t \<in> set (waiting_threads k1 x)"
    using pframe_sched_inv [OF k1(2)] pframe_mutex_inv [OF k1(2) Cons.prems(3)] Cons.prems(4,5) by (auto simp: w1)
  from Cons.IH [OF _ this] obtain k2 where k2: "for_each (\<lambda>ob. AddWaitingThread ob t) obs k1 = Some k2" "pframe k1 k2"
    "\<And>x. waiting_threads k2 x = (if x \<in> set obs - insert ob A then waiting_threads k1 x @ [t] else waiting_threads k1 x)"
    by blast
  show ?case
    by (rule Cons.prems(1) [OF _ pframe_trans [OF k1(2) k2(2)]])
      (auto simp: k1(1) k2(1) k2(3) w1)
qed

lemma timing_update_simps [simp]:
  "threads (k\<lparr>timing := tm\<rparr>) = threads k" "is_thread (k\<lparr>timing := tm\<rparr>) = is_thread k"
  "kinv (k\<lparr>timing := tm\<rparr>) \<longleftrightarrow> kinv k" "sched_inv (k\<lparr>timing := tm\<rparr>) \<longleftrightarrow> sched_inv k"
  "mutex_inv (k\<lparr>timing := tm\<rparr>) \<longleftrightarrow> mutex_inv k"
proof -
  have *: "is_thread (k\<lparr>timing := tm\<rparr>) = is_thread k"
    by (simp add: is_thread_def fun_eq_iff)
  moreover have "sched_inv (k\<lparr>timing := tm\<rparr>) \<longleftrightarrow> sched_inv k"
    by (rule sched_inv_same_threads) (simp_all add: *)
  ultimately show "threads (k\<lparr>timing := tm\<rparr>) = threads k" "is_thread (k\<lparr>timing := tm\<rparr>) = is_thread k"
    "kinv (k\<lparr>timing := tm\<rparr>) \<longleftrightarrow> kinv k" "sched_inv (k\<lparr>timing := tm\<rparr>) \<longleftrightarrow> sched_inv k"
    "mutex_inv (k\<lparr>timing := tm\<rparr>) \<longleftrightarrow> mutex_inv k"
    by (simp_all add: kinv_def wait_inv_def mutex_inv_def)
qed

definition timer_ok :: "'m kernel \<Rightarrow> bool" where
  "timer_ok k \<longleftrightarrow> current_timer (timing k) < length (timers (timing k))"

lemma WakeAfterDelay_returns:
  assumes "timer_ok k"
  obtains tm where "WakeAfterDelay t ns False k = Some (k\<lparr>timing := tm\<rparr>)"
    "length (timers tm) = length (timers (timing k))" "current_timer tm = current_timer (timing k)"
proof (cases "ns = - 1")
  case True
  with that [of "timing k"] show thesis
    by (simp add: WakeAfterDelay_def)
next
  case False
  have "\<exists>tm. ScheduleEvent (nsToCycles ns) (ThreadWakeup (core_id (threads k t))) (thread_id (threads k t))
      None False (timing k) = Some tm \<and> length (timers tm) = length (timers (timing k)) \<and>
      current_timer tm = current_timer (timing k)"
    using assms by (simp add: ScheduleEvent_def timer_ok_def Let_def)
  then obtain tm where "ScheduleEvent (nsToCycles ns) (ThreadWakeup (core_id (threads k t)))
      (thread_id (threads k t)) None False (timing k) = Some tm"
    "length (timers tm) = length (timers (timing k))" "current_timer tm = current_timer (timing k)"
    by blast
  with False that show thesis
    by (simp add: WakeAfterDelay_def Let_def)
qed

lemma core_of_sleep:
  "core_of th1 = core_of (th\<lparr>wait_objects := obs\<rparr>) \<Longrightarrow>
   core_of (th1\<lparr>status := st, wakeup_callback := cb\<rparr>) =
   core_of (th\<lparr>wait_objects := obs, status := st, wakeup_callback := cb\<rparr>)"
  "core_of th1 = core_of (th\<lparr>status := st\<rparr>) \<Longrightarrow>
   core_of (th1\<lparr>wait_objects := obs, wakeup_callback := cb\<rparr>) =
   core_of (th\<lparr>wait_objects := obs, status := st, wakeup_callback := cb\<rparr>)"
  by (cases th; cases th1; simp add: core_of_def)+

lemma wait_not_running:
  assumes "wait_inv k" "status (threads k t) = Running"
  shows "t \<notin> set (waiting_threads k x)"
  using wait_invD(4) [OF assms(1), of t x] assms(2) by (auto simp: waits_on_objects_def)

lemma timer_ok_kframe: "kframe k k' \<Longrightarrow> timer_ok k' \<longleftrightarrow> timer_ok k"
  by (simp add: timer_ok_def kframe_def rest_same_def)

lemma timer_ok_upd_thread [simp]: "timer_ok (upd_thread t f k) \<longleftrightarrow> timer_ok k"
  by (simp add: timer_ok_def)

text \<open>The running thread goes to sleep: the state in between and after.\<close>

lemma asleep_kinv:
  assumes inv: "kinv k" "is_thread k t" "status (threads k t) = Running"
    and st: "st = WaitSynchAny \<or> st = WaitSynchAll \<and> distinct obs"
    and sl: "asleep t obs st b k k'" and m: "sched_inv k'" "mutex_inv k'"
  shows "kinv k'"
proof -
  from inv(1) have "wait_inv k"
    by (simp add: kinv_def)
  from asleep_wait_inv [OF this inv(2) wait_not_running [OF this inv(3)] _ _ sl] st m show ?thesis
    by (auto simp: kinv_def waits_on_objects_def)
qed

lemma sleep_on_spec:
  assumes inv: "kinv k" "is_thread k t" "status (threads k t) = Running" and tm: "timer_ok k"
    and st: "st = WaitSynchAny \<or> st = WaitSynchAll \<and> distinct obs"
  obtains k' where "sleep_on t obs st b ns k = Some k'" "kinv k'" "asleep t obs st b k k'"
proof -
  from inv(1) have I: "sched_inv k" "wait_inv k" "mutex_inv k"
    by (simp_all add: kinv_def)
  let ?k1 = "upd_thread t (\<lambda>th. th\<lparr>status := st\<rparr>) k"
  have k1: "sched_inv ?k1" "mutex_inv ?k1"
    using st inv(3) by (auto intro!: sched_inv_status [OF I(1)] mutex_inv_cong [OF I(3)] split: if_splits)
  have nw: "\<And>x. x \<notin> {} \<Longrightarrow> t \<notin> set (waiting_threads ?k1 x)" "\<And>x. x \<in> {} \<Longrightarrow> t \<in> set (waiting_threads ?k1 x)"
    using wait_not_running [OF I(2) inv(3)] by simp_all
  from add_loop_frame [OF k1 nw] obtain k2 where k2: "for_each (\<lambda>ob. AddWaitingThread ob t) obs ?k1 = Some k2"
    "pframe ?k1 k2" "\<And>x. waiting_threads k2 x = (if x \<in> set obs - {} then waiting_threads ?k1 x @ [t] else waiting_threads ?k1 x)"
    by blast
  have fr: "kframe ?k1 k2" "held_mutexes (threads k2 t) = held_mutexes (threads k t)"
    using k2(2) by (simp_all add: pframe_def)
  let ?k3 = "upd_thread t (\<lambda>th. th\<lparr>wait_objects := obs\<rparr>) k2"
  have "timer_ok ?k3"
    using tm timer_ok_kframe [OF fr(1)] by simp
  from WakeAfterDelay_returns [OF this, of t ns] obtain tm' where W: "WakeAfterDelay t ns False ?k3 = Some (?k3\<lparr>timing := tm'\<rparr>)"
    "length (timers tm') = length (timers (timing ?k3))" "current_timer tm' = current_timer (timing ?k3)"
    by blast
  let ?f = "\<lambda>th. th\<lparr>wait_objects := obs, wakeup_callback := Some (SVC_SyncCallback b)\<rparr>"
  let ?k = "PrepareReschedule (upd_thread t ?f k2\<lparr>timing := tm'\<rparr>)"
  have eq: "upd_thread t (\<lambda>th. th\<lparr>wakeup_callback := Some (SVC_SyncCallback b)\<rparr>) (?k3\<lparr>timing := tm'\<rparr>) =
      upd_thread t ?f k2\<lparr>timing := tm'\<rparr>"
    by (simp add: upd_thread_def)
  have run: "sleep_on t obs st b ns k = Some ?k"
    unfolding sleep_on_def Let_def k2(1) using W(1) eq by simp
  have st2: "status (threads k2 t) = st"
    using kframeD(4) [OF fr(1), of t] by simp
  have inv2: "sched_inv (upd_thread t ?f k2)" "mutex_inv (upd_thread t ?f k2)"
    using st st2 by (auto intro!: sched_inv_status [OF pframe_sched_inv [OF k2(2)]]
      mutex_inv_cong [OF pframe_mutex_inv [OF k2(2) k1(2)]] split: if_splits)
  have core: "core_of (threads k2 u) = core_of (threads ?k1 u)" for u
    using fr(1) by (simp add: kframe_def)
  have ct: "core_of (threads k2 t) = core_of ((threads k t)\<lparr>status := st\<rparr>)"
    using core [of t] by simp
  have sl: "asleep t obs st b k ?k"
    unfolding asleep_def
  proof (intro conjI allI)
    show "waiting_threads ?k x = (if x \<in> set obs then waiting_threads k x @ [t] else waiting_threads k x)" for x
      using k2(3) by simp
    show "core_of (threads ?k u) = core_of (if u = t then (threads k t)\<lparr>wait_objects := obs, status := st,
        wakeup_callback := Some (SVC_SyncCallback b)\<rparr> else threads k u)" for u
      using core [of u] core_of_sleep(2) [OF ct] by simp
  qed (use W(2,3) kframeD(1,2) [OF fr(1)] in \<open>simp_all add: rest_same_def\<close>)
  moreover have "mutex_inv ?k"
    using inv2(2) by (simp add: mutex_inv_def)
  moreover have "sched_inv ?k"
    using inv2(1) by simp
  ultimately have "kinv ?k"
    using asleep_kinv [OF inv st] by blast
  with run sl that show thesis by blast
qed

lemma WaitSynchronization1_sleeps:
  assumes inv: "kinv k" "is_thread k t" "status (threads k t) = Running" and tm: "timer_ok k"
    and h: "get_wait h = Some ob" "running_thread k = Some t" "ShouldWait k ob t" "ns \<noteq> 0"
  obtains k' where "WaitSynchronization1 get_wait h ns k = Some (k', ResultTimeout)" "kinv k'"
    "asleep t [ob] WaitSynchAny False k k'"
proof -
  from inv(1) have I: "sched_inv k" "wait_inv k" "mutex_inv k"
    by (simp_all add: kinv_def)
  let ?k1 = "upd_thread t (\<lambda>th. th\<lparr>wait_objects := [ob]\<rparr>) k"
  have k1: "sched_inv ?k1" "mutex_inv ?k1"
    by (auto intro!: sched_inv_upd_thread [OF I(1)] mutex_inv_cong [OF I(3)] split: if_splits)
  from AddWaitingThread_frame [OF k1] obtain k2 where k2: "AddWaitingThread ob t ?k1 = Some k2"
    "pframe ?k1 k2" "waiting_threads k2 = (waiting_threads ?k1)(ob :=
       if t \<in> set (waiting_threads ?k1 ob) then waiting_threads ?k1 ob else waiting_threads ?k1 ob @ [t])"
    by blast
  have fr: "kframe ?k1 k2"
    using k2(2) by (simp add: pframe_def)
  let ?k3 = "upd_thread t (\<lambda>th. th\<lparr>status := WaitSynchAny\<rparr>) k2"
  have "timer_ok ?k3"
    using tm timer_ok_kframe [OF fr] by simp
  from WakeAfterDelay_returns [OF this, of t ns] obtain tm' where W: "WakeAfterDelay t ns False ?k3 = Some (?k3\<lparr>timing := tm'\<rparr>)"
    "length (timers tm') = length (timers (timing ?k3))" "current_timer tm' = current_timer (timing ?k3)"
    by blast
  let ?f = "\<lambda>th. th\<lparr>status := WaitSynchAny, wakeup_callback := Some (SVC_SyncCallback False)\<rparr>"
  let ?k = "PrepareReschedule (upd_thread t ?f k2\<lparr>timing := tm'\<rparr>)"
  have eq: "upd_thread t (\<lambda>th. th\<lparr>wakeup_callback := Some (SVC_SyncCallback False)\<rparr>) (?k3\<lparr>timing := tm'\<rparr>) =
      upd_thread t ?f k2\<lparr>timing := tm'\<rparr>"
    by (simp add: upd_thread_def)
  have run: "WaitSynchronization1 get_wait h ns k = Some (?k, ResultTimeout)"
    using h W(1) eq k2(1) by (simp add: WaitSynchronization1_def Let_def)
  have "status (threads k2 t) = Running"
    using kframeD(4) [OF fr, of t] inv(3) by simp
  then have inv2: "sched_inv (upd_thread t ?f k2)" "mutex_inv (upd_thread t ?f k2)"
    by (auto intro!: sched_inv_status [OF pframe_sched_inv [OF k2(2)]]
      mutex_inv_cong [OF pframe_mutex_inv [OF k2(2) k1(2)]] split: if_splits)
  have core: "core_of (threads k2 u) = core_of (threads ?k1 u)" for u
    using fr by (simp add: kframe_def)
  have ct: "core_of (threads k2 t) = core_of ((threads k t)\<lparr>wait_objects := [ob]\<rparr>)"
    using core [of t] by simp
  have sl: "asleep t [ob] WaitSynchAny False k ?k"
    unfolding asleep_def
  proof (intro conjI allI)
    show "waiting_threads ?k x = (if x \<in> set [ob] then waiting_threads k x @ [t] else waiting_threads k x)" for x
      using k2(3) wait_not_running [OF I(2) inv(3)] by simp
    show "core_of (threads ?k u) = core_of (if u = t then (threads k t)\<lparr>wait_objects := [ob], status := WaitSynchAny,
        wakeup_callback := Some (SVC_SyncCallback False)\<rparr> else threads k u)" for u
      using core [of u] core_of_sleep(1) [OF ct] by simp
  qed (use W(2,3) kframeD(1,2) [OF fr] in \<open>simp_all add: rest_same_def\<close>)
  have "kinv ?k"
    by (rule asleep_kinv [OF inv _ sl]) (use inv2 in \<open>simp_all add: mutex_inv_def\<close>)
  with run sl that show thesis by blast
qed

lemma Acquire_kinv:
  assumes inv: "kinv k" "is_thread k t" and sw: "\<not> ShouldWait k ob t"
  obtains k' where "Acquire ob t k = Some k'" "kinv k'" "kframe k k'" "waiting_threads k' = waiting_threads k"
proof -
  from inv(1) have I: "sched_inv k" "wait_inv k" "mutex_inv k"
    by (simp_all add: kinv_def)
  obtain k' where k': "Acquire ob t k = Some k'" "sched_inv k'"
    "mutex_inv k'" "kframe k k'" "waiting_threads k' = waiting_threads k"
    by (rule Acquire_frame [OF I(1,3) inv(2) sw]) (assumption | rule that)+
  have "wait_inv k'"
    by (rule wait_inv_kframe [OF I(2) k'(4)]) (simp_all add: k'(5) wait_invD(1) [OF I(2)])
  with k' that show thesis
    by (simp add: kinv_def)
qed

lemma Acquire_all_kinv:
  assumes inv: "kinv k" "is_thread k t" "distinct obs" and sw: "\<And>x. x \<in> set obs \<Longrightarrow> \<not> ShouldWait k x t"
  obtains k' where "for_each (\<lambda>ob. Acquire ob t) obs k = Some k'" "kinv k'" "kframe k k'"
    "waiting_threads k' = waiting_threads k"
proof -
  from inv(1) have I: "sched_inv k" "wait_inv k" "mutex_inv k"
    by (simp_all add: kinv_def)
  obtain k' where k': "for_each (\<lambda>ob. Acquire ob t) obs k = Some k'"
    "sched_inv k'" "mutex_inv k'" "kframe k k'" "waiting_threads k' = waiting_threads k"
    by (rule Acquire_all_frame [OF I(1,3) inv(2,3) sw]) (assumption | rule that)+
  have "wait_inv k'"
    by (rule wait_inv_kframe [OF I(2) k'(4)]) (simp_all add: k'(5) wait_invD(1) [OF I(2)])
  with k' show thesis
    by (intro that [of k']) (simp_all add: kinv_def)
qed

lemma find_index_Some:
  "find_index P xs = Some i \<Longrightarrow> i < length xs \<and> P (xs ! i) \<and> (\<forall>j < i. \<not> P (xs ! j))"
  by (induction xs arbitrary: i) (auto split: if_splits simp: less_Suc_eq_0_disj)

lemma find_index_None: "find_index P xs = None \<longleftrightarrow> (\<forall>x \<in> set xs. \<not> P x)"
  by (induction xs) auto

end
