(* ===== verification/Object_Ops.thy ===== *)
theory Object_Ops
  imports Sync_Calls
begin

text \<open>
  What the operations on events, timers, semaphores, mutexes and threads achieve, in terms of the
  contract of \<open>WakeupAllWaitingThreads\<close>; none of them fails an assertion in a kernel that satisfies
  the invariants.
\<close>

section \<open>Signalling and releasing\<close>

lemma woke_all_kinv: "woke_all ob k k' ws \<Longrightarrow> kinv k'"
  by (simp add: woke_all_def)

lemma kinv_PrepareReschedule [simp]: "kinv (PrepareReschedule k) \<longleftrightarrow> kinv k"
  by (simp add: kinv_def wait_inv_def mutex_inv_def)

lemma ShouldWait_PrepareReschedule [simp]: "ShouldWait (PrepareReschedule k) = ShouldWait k"
  by (simp add: fun_eq_iff ShouldWait_def split: wait_object.split)

lemma eligible_PrepareReschedule [simp]:
  "eligible (PrepareReschedule k) = eligible k" "held_by (PrepareReschedule k) = held_by k"
  by (simp_all add: fun_eq_iff eligible_def ready_to_run_def held_by_def)

lemma woke_all_PrepareReschedule [simp]: "woke_all ob k (PrepareReschedule k') ws \<longleftrightarrow> woke_all ob k k' ws"
  by (simp add: woke_all_def woken_def)

lemma event_Signal_spec:
  assumes "kinv k" "wait_objs k ob = WEvent e"
  obtains k' ws where "event_Signal ob k = Some k'"
    "woke_all ob (set_object ob (WEvent (e\<lparr>event_signaled := True\<rparr>)) k) k' ws"
proof -
  have "kinv (set_object ob (WEvent (e\<lparr>event_signaled := True\<rparr>)) k)"
    using assms by (intro kinv_set_object) (simp_all add: mutex_view_def)
  from WakeupAll_spec [OF this, of ob] that assms(2) show thesis
    by (simp add: event_Signal_def) blast
qed

lemma timer_Signal_spec:
  assumes "kinv k" "timer_ok k" "wait_objs k ob = WTimer tm"
  obtains k' ws tmg where "timer_Signal ob late k = Some (k'\<lparr>timing := tmg\<rparr>)"
    "woke_all ob (set_object ob (WTimer (tm\<lparr>timer_signaled := True\<rparr>)) k) k' ws"
proof -
  let ?k = "set_object ob (WTimer (tm\<lparr>timer_signaled := True\<rparr>)) k"
  have "kinv ?k"
    using assms by (intro kinv_set_object) (simp_all add: mutex_view_def)
  from WakeupAll_spec [OF this, of ob] obtain k' ws where k': "WakeupAllWaitingThreads ob ?k = Some k'"
    "woke_all ob ?k k' ws"
    by blast
  have "timing k' = timing k"
    using k'(2) by (simp add: woke_all_def woken_def rest_same_def)
  then have "\<exists>tmg. ScheduleEvent c TimerFired d None False (timing k') = Some tmg" for c d
    using assms(2) by (simp add: ScheduleEvent_def timer_ok_def Let_def)
  then obtain tmg where "ScheduleEvent (nsToCycles_u64 (interval_delay tm) - late) TimerFired (callback_id tm) None False (timing k') = Some tmg"
    by blast
  then have "timer_Signal ob late k = Some (k'\<lparr>timing := if interval_delay tm = 0 then timing k' else tmg\<rparr>)"
    using assms(3) k'(1) by (simp add: timer_Signal_def schedule_def)
  with k'(2) that show thesis by blast
qed

lemma semaphore_Release_spec:
  assumes "kinv k" "wait_objs k ob = WSemaphore s" "in_s32 (n + available_count s)"
    "n + available_count s \<le> max_count s"
  obtains k' ws where "semaphore_Release ob n k = Some (k', Inr (available_count s))"
    "woke_all ob (set_object ob (WSemaphore (s\<lparr>available_count := available_count s + n\<rparr>)) k) k' ws"
proof -
  have "kinv (set_object ob (WSemaphore (s\<lparr>available_count := available_count s + n\<rparr>)) k)"
    using assms by (intro kinv_set_object) (simp_all add: mutex_view_def)
  then obtain k' ws where "WakeupAllWaitingThreads ob (set_object ob (WSemaphore (s\<lparr>available_count := available_count s + n\<rparr>)) k) = Some k'"
    "woke_all ob (set_object ob (WSemaphore (s\<lparr>available_count := available_count s + n\<rparr>)) k) k' ws"
    by (rule WakeupAll_spec)
  note k' = this
  show thesis
    by (rule that [OF _ k'(2)]) (use assms(2-4) k'(1) in \<open>simp add: semaphore_Release_def\<close>)
qed

section \<open>Mutexes\<close>

text \<open>Taking a mutex away from its holder, who keeps none of its bookkeeping.\<close>

lemma wait_inv_same:
  assumes "wait_inv k" "kframe k k'" "waiting_threads k' = waiting_threads k"
  shows "wait_inv k'"
  by (rule wait_inv_kframe [OF assms(1,2)]) (simp_all add: assms(3) wait_invD(1) [OF assms(1)])

lemma mutex_inv_unlock:
  assumes inv: "mutex_inv k" and m: "wait_objs k ob = WMutex m" "holding_thread m = Some t"
    and k': "is_thread k' = is_thread k" "wait_objs k' = (wait_objs k)(ob := WMutex m')"
      "holding_thread m' = None" "lock_count m' = 0" "\<And>u. status (threads k' u) = status (threads k u)"
      "\<And>u. u \<noteq> t \<Longrightarrow> held_mutexes (threads k' u) = held_mutexes (threads k u)"
      "set (held_mutexes (threads k' t)) = set (held_mutexes (threads k t)) - {ob} \<or>
       status (threads k t) = Dead \<and> held_mutexes (threads k' t) = held_mutexes (threads k t)"
      "sorted_wrt (<) (held_mutexes (threads k' t))"
  shows "mutex_inv k'"
proof -
  have 1: "ob \<notin> set (held_mutexes (threads k u))" if "u \<noteq> t" "is_thread k u" "status (threads k u) \<noteq> Dead" for u
    using inv m that unfolding mutex_inv_def by fastforce
  have "0 \<le> lock_count m2 \<and> (holding_thread m2 = None \<longleftrightarrow> lock_count m2 = 0) \<and>
      (\<forall>u. holding_thread m2 = Some u \<longrightarrow> is_thread k' u \<and> x \<in> set (held_mutexes (threads k' u)))"
    if "wait_objs k' x = WMutex m2" for x m2
  proof (cases "x = ob")
    case True
    with that k' show ?thesis by simp
  next
    case False
    with that k'(2) have "wait_objs k x = WMutex m2"
      by simp
    with inv have *: "0 \<le> lock_count m2" "holding_thread m2 = None \<longleftrightarrow> lock_count m2 = 0"
      "\<And>u. holding_thread m2 = Some u \<Longrightarrow> is_thread k u \<and> x \<in> set (held_mutexes (threads k u))"
      by (auto simp: mutex_inv_def)
    with False k'(1,6,7) show ?thesis
      by (metis Diff_iff empty_iff insert_iff)
  qed
  moreover have "\<exists>m2. wait_objs k' x = WMutex m2 \<and> holding_thread m2 = Some u"
    if u: "is_thread k' u" "status (threads k' u) \<noteq> Dead" "x \<in> set (held_mutexes (threads k' u))" for x u
  proof -
    have "x \<in> set (held_mutexes (threads k u))" "x \<noteq> ob"
      using u k' 1 [of u] by (cases "u = t"; auto)+
    with u k'(1,2,5) inv show ?thesis
      by (simp add: mutex_inv_def)
  qed
  moreover have "sorted_wrt (<) (held_mutexes (threads k' u))" for u
    using inv k'(6) [of u] k'(8) by (cases "u = t") (simp_all add: mutex_inv_def)
  ultimately show ?thesis
    unfolding mutex_inv_def by blast
qed

lemma mutex_Release_spec:
  assumes inv: "kinv k" and m: "wait_objs k ob = WMutex m" "holding_thread m = Some t"
  obtains k' where "1 < lock_count m" "mutex_Release ob t k = Some (k', ResultSuccess)" "kinv k'"
      "k' = set_object ob (WMutex (m\<lparr>lock_count := lock_count m - 1\<rparr>)) k"
  | k' k1 m' ws where "lock_count m = 1" "mutex_Release ob t k = Some (k', ResultSuccess)" "kinv k1"
      "kframe k k1" "waiting_threads k1 = waiting_threads k" "wait_objs k1 = (wait_objs k)(ob := WMutex m')"
      "holding_thread m' = None" "lock_count m' = 0" "set (held_mutexes (threads k1 t)) = set (held_mutexes (threads k t)) - {ob}"
      "\<And>u. u \<noteq> t \<Longrightarrow> threads k1 u = threads k u"
      "woke_all ob k1 k' ws"
proof -
  from inv have I: "sched_inv k" "wait_inv k" "mutex_inv k"
    by (simp_all add: kinv_def)
  have pos: "lock_count m > 0" "is_thread k t"
    using I(3) m unfolding mutex_inv_def by (metis option.distinct(1) order_le_less)+
  have nt: "\<not> is_thread k ob"
    using m(1) by (simp add: is_thread_def)
  show thesis
  proof (cases "lock_count m = 1")
    case False
    let ?k = "set_object ob (WMutex (m\<lparr>lock_count := lock_count m - 1\<rparr>)) k"
    have fr: "kframe k ?k" "sched_inv ?k"
      using nt I(1) by (simp_all add: kframe_set_object sched_inv_set_object)
    have "mutex_inv ?k"
    proof (rule mutex_inv_lock [OF I(3) pos(2) m(1)])
      show "wait_objs ?k = (wait_objs k)(ob := WMutex (m\<lparr>lock_count := lock_count m - 1\<rparr>))"
        by simp
    qed (use m pos False I(3) kframeD(1) [OF fr(1)] in \<open>auto simp: mutex_inv_def\<close>)
    then have "kinv ?k"
      using fr wait_inv_same [OF I(2) fr(1)] by (simp add: kinv_def)
    with False m pos that(1) show thesis
      by (simp add: mutex_Release_def upd_mutex_def)
  next
    case True
    let ?k1 = "set_object ob (WMutex (m\<lparr>lock_count := 0\<rparr>)) k"
    let ?k2 = "upd_thread t (\<lambda>th. th\<lparr>held_mutexes := set_erase ob (held_mutexes th)\<rparr>) ?k1"
    have "sched_inv ?k1" "kframe k ?k1" "is_thread ?k1 t"
      using I(1) nt pos(2) by (auto simp: sched_inv_set_object kframe_set_object is_thread_def)
    then have k2: "sched_inv ?k2" "kframe k ?k2" "is_thread ?k2 t"
      by (auto intro: sched_inv_held kframe_trans [OF _ kframe_held])
    from UpdatePriority_frame [OF k2(1,3)] obtain q p k3 where k3: "UpdatePriority t ?k2 = Some k3" "sched_inv k3"
      "kframe ?k2 k3" "k3 = set_queue (core_id (threads ?k2 t)) q (upd_thread t (\<lambda>th. th\<lparr>current_priority := p\<rparr>) ?k2)"
      by blast
    have f3: "kframe k k3"
      by (rule kframe_trans [OF k2(2) k3(3)])
    let ?m = "m\<lparr>lock_count := 0, holding_thread := None\<rparr>"
    let ?k4 = "set_object ob (WMutex ?m) k3"
    have nt3: "\<not> is_thread k3 ob"
      using nt kframeD(1) [OF f3] by simp
    have f4: "sched_inv ?k4" "kframe k ?k4"
      using nt3 k3(2) kframe_trans [OF f3 kframe_set_object] by (simp_all add: sched_inv_set_object)
    have w4: "wait_objs ?k4 = (wait_objs k)(ob := WMutex ?m)" "waiting_threads ?k4 = waiting_threads k"
      by (simp_all add: k3(4))
    have h4: "set (held_mutexes (threads ?k4 t)) = set (held_mutexes (threads k t)) - {ob}"
      "u \<noteq> t \<Longrightarrow> threads ?k4 u = threads k u" for u
      by (simp_all add: k3(4))
    have "sorted_wrt (<) (held_mutexes (threads ?k4 t))"
      using I(3) by (simp add: k3(4) set_erase_def removeAll_filter_not_eq sorted_wrt_filter mutex_inv_def)
    then have "mutex_inv ?k4"
      by (intro mutex_inv_unlock [OF I(3) m kframeD(1) [OF f4(2)] w4(1)])
        (use h4 kframeD(4) [OF f4(2)] in auto)
    then have i4: "kinv ?k4"
      using f4 wait_inv_same [OF I(2) f4(2) w4(2)] by (simp add: kinv_def)
    obtain k5 ws where k5: "WakeupAllWaitingThreads ob ?k4 = Some k5" "woke_all ob ?k4 k5 ws"
      by (rule WakeupAll_spec [OF i4])
    have "mutex_Release ob t k = Some (PrepareReschedule k5, ResultSuccess)"
      using m True k3(1) k5(1) by (simp add: mutex_Release_def upd_mutex_def k3(4))
    moreover have "woke_all ob ?k4 (PrepareReschedule k5) ws"
      using k5(2) by simp
    ultimately show thesis
      using that(2) [OF True _ i4 f4(2) w4(2,1) _ _ h4] by simp
  qed
qed

section \<open>The end of a thread\<close>

lemma kinv_parts: "kinv k \<Longrightarrow> sched_inv k" "kinv k \<Longrightarrow> wait_inv k" "kinv k \<Longrightarrow> mutex_inv k"
  by (simp_all add: kinv_def)

lemma not_waiting:
  assumes "wait_inv k" "\<not> waits_on_objects (status (threads k t))"
  shows "t \<notin> set (waiting_threads k x)"
  using wait_invD(4) [OF assms(1)] assms(2) by blast

text \<open>One round of \<open>ReleaseThreadMutexes\<close> for a dead thread.\<close>

lemma release_one:
  assumes inv: "kinv k" and t: "status (threads k t) = Dead" "held_by k ob t"
  obtains k' ws where "WakeupAllWaitingThreads ob
      (upd_mutex ob (\<lambda>m. m\<lparr>lock_count := 0, holding_thread := None\<rparr>) k) = Some k'"
    "kinv k'" "woken (set ws) k k'" "t \<notin> set ws" "\<And>x. held_by k' x t \<longleftrightarrow> x \<noteq> ob \<and> held_by k x t"
proof -
  note I = kinv_parts [OF inv]
  from t(2) obtain m where m: "wait_objs k ob = WMutex m" "holding_thread m = Some t"
    by (auto simp: held_by_def)
  let ?m = "m\<lparr>lock_count := 0, holding_thread := None\<rparr>"
  let ?k = "set_object ob (WMutex ?m) k"
  have nt: "is_thread k ob \<longleftrightarrow> WMutex ?m = WThread"
    using m(1) by (simp add: is_thread_def)
  have fr: "kframe k ?k" "sched_inv ?k"
    using nt I(1) by (simp_all add: kframe_set_object sched_inv_set_object)
  have "mutex_inv ?k"
    by (rule mutex_inv_unlock [OF I(3) m kframeD(1) [OF fr(1)], where m' = ?m])
      (use t(1) I(3) in \<open>simp_all add: mutex_inv_def\<close>)
  then have i: "kinv ?k"
    using fr wait_inv_same [OF I(2) fr(1)] by (simp add: kinv_def)
  obtain k' ws where k': "WakeupAllWaitingThreads ob ?k = Some k'" "woke_all ob ?k k' ws"
    by (rule WakeupAll_spec [OF i])
  have "t \<notin> set (waiting_threads k ob)"
    using not_waiting [OF I(2)] t(1) by (simp add: waits_on_objects_def)
  then have "t \<notin> set ws"
    using k'(2) by (auto simp: woke_all_def)
  moreover have "woken (set ws) k k'"
    using woken_set_object_left [OF _ nt] k'(2) by (simp add: woke_all_def)
  moreover have "held_by k' x t \<longleftrightarrow> x \<noteq> ob \<and> held_by k x t" for x
  proof -
    have "held_by k' x t \<longleftrightarrow> held_by ?k x t"
      using k'(2) \<open>t \<notin> set ws\<close> by (simp add: woke_all_def)
    then show ?thesis
      by (auto simp: held_by_def)
  qed
  ultimately show thesis
    using that k' m woke_all_kinv [OF k'(2)] by (simp add: upd_mutex_def)
qed

lemma release_loop:
  assumes "kinv k" "status (threads k t) = Dead" "distinct obs" "\<And>ob. ob \<in> set obs \<Longrightarrow> held_by k ob t"
  obtains k' W where "for_each (\<lambda>ob k. WakeupAllWaitingThreads ob
      (upd_mutex ob (\<lambda>m. m\<lparr>lock_count := 0, holding_thread := None\<rparr>) k)) obs k = Some k'"
    "kinv k'" "woken W k k'" "t \<notin> W" "\<And>x. held_by k' x t \<longleftrightarrow> x \<notin> set obs \<and> held_by k x t"
  using assms
proof (induction obs arbitrary: k thesis)
  case Nil
  show ?case
    by (rule Nil.prems(1) [of k "{}"]) (use Nil.prems(2) in \<open>simp_all add: woken_empty\<close>)
next
  case (Cons ob obs)
  have "held_by k ob t"
    using Cons.prems(5) by simp
  from release_one [OF Cons.prems(2,3) this] obtain k1 ws where k1: "WakeupAllWaitingThreads ob
      (upd_mutex ob (\<lambda>m. m\<lparr>lock_count := 0, holding_thread := None\<rparr>) k) = Some k1"
    "kinv k1" "woken (set ws) k k1" "t \<notin> set ws" "\<And>x. held_by k1 x t \<longleftrightarrow> x \<noteq> ob \<and> held_by k x t"
    by metis
  have st: "status (threads k1 t) = Dead"
    using wokenD(4) [OF k1(3), of t] k1(4) Cons.prems(3) by simp
  have d: "distinct obs" "\<And>x. x \<in> set obs \<Longrightarrow> held_by k1 x t"
    using k1(5) Cons.prems(4,5) by auto
  obtain k2 W where k2: "for_each (\<lambda>ob k. WakeupAllWaitingThreads ob
      (upd_mutex ob (\<lambda>m. m\<lparr>lock_count := 0, holding_thread := None\<rparr>) k)) obs k1 = Some k2"
    "kinv k2" "woken W k1 k2" "t \<notin> W" "\<And>x. held_by k2 x t \<longleftrightarrow> x \<notin> set obs \<and> held_by k1 x t"
    by (rule Cons.IH [OF _ k1(2) st d]) (rule that, assumption+)
  show ?case
    by (rule Cons.prems(1) [OF _ k2(2) woken_trans [OF k1(3) k2(3)]]) (auto simp: k1(1,4,5) k2(1,4,5))
qed

lemma kinv_upd_thread:
  assumes inv: "kinv k" and m: "mutex_inv (upd_thread t f k)"
    and f: "core_of (f (threads k t)) = core_of (threads k t)" "current_priority (f (threads k t)) = current_priority (threads k t)"
  shows "kinv (upd_thread t f k)"
proof -
  have fr: "kframe k (upd_thread t f k)"
    using f(1) by (simp add: kframe_def)
  have "sched_inv (upd_thread t f k)"
    by (rule sched_inv_upd_thread [OF kinv_parts(1) [OF inv]]) (use f core_of_eqD [OF f(1)] in auto)
  with m wait_inv_same [OF kinv_parts(2) [OF inv] fr] show ?thesis
    by (simp add: kinv_def)
qed

lemma ReleaseThreadMutexes_spec:
  assumes inv: "kinv k" and t: "status (threads k t) = Dead"
    "\<And>ob. ob \<in> set (held_mutexes (threads k t)) \<Longrightarrow> held_by k ob t"
  obtains k' W where "ReleaseThreadMutexes t k = Some k'" "kinv k'" "woken W k k'" "t \<notin> W"
    "\<And>x. \<not> held_by k' x t"
proof -
  note I = kinv_parts [OF inv]
  have "distinct (held_mutexes (threads k t))"
    using I(3) by (auto simp: mutex_inv_def strict_sorted_iff)
  note d = this
  obtain k1 W where k1: "for_each (\<lambda>ob k. WakeupAllWaitingThreads ob
      (upd_mutex ob (\<lambda>m. m\<lparr>lock_count := 0, holding_thread := None\<rparr>) k)) (held_mutexes (threads k t)) k = Some k1"
    "kinv k1" "woken W k k1" "t \<notin> W"
    "\<And>x. held_by k1 x t \<longleftrightarrow> x \<notin> set (held_mutexes (threads k t)) \<and> held_by k x t"
    by (rule release_loop [OF inv t(1) d t(2)]) (assumption | rule that)+
  have free: "\<not> held_by k1 x t" for x
    using k1(5) [of x] I(3) by (auto simp: held_by_def mutex_inv_def)
  let ?k = "upd_thread t (\<lambda>th. th\<lparr>held_mutexes := []\<rparr>) k1"
  have "mutex_inv ?k"
    using kinv_parts(3) [OF k1(2)] free unfolding mutex_inv_def held_by_def by auto
  then have "kinv ?k"
    by (rule kinv_upd_thread [OF k1(2)]) (simp_all add: core_of_def)
  moreover have "woken W k ?k"
    using k1(3) by (auto simp: woken_def core_of_def)
  moreover have "\<not> held_by ?k x t" for x
    using free [of x] by (simp add: held_by_def)
  ultimately show thesis
    using that [of ?k W] k1(1,4) by (simp add: ReleaseThreadMutexes_def)
qed

end
