(* ===== verification/Thread_End.thy ===== *)
theory Thread_End
  imports Object_Ops
begin

text \<open>
  The end of a thread (\<open>Thread::Stop\<close>, \<open>ExitCurrentThread\<close>) and the wakeup by timeout
  (\<open>ThreadWakeupCallback\<close>).
\<close>

section \<open>Stopping a thread\<close>

definition tls_ok :: "nat \<Rightarrow> 'm kernel \<Rightarrow> bool" where
  "tls_ok t k \<longleftrightarrow> release_tls t k \<noteq> None"

lemma release_tls_frame:
  assumes "release_tls t k = Some k'"
  shows "threads k' = threads k" "wait_objs k' = wait_objs k" "waiting_threads k' = waiting_threads k"
    "managers k' = managers k" "is_thread k' = is_thread k" "timing k' = timing k" "arbiter_threads k' = arbiter_threads k"
  using assms by (auto simp: release_tls_def Let_def bind_eq_Some_conv is_thread_def fun_eq_iff
      split: option.splits if_splits)

lemma kinv_same:
  assumes "threads k' = threads k" "wait_objs k' = wait_objs k" "waiting_threads k' = waiting_threads k"
    "map ready_queue (managers k') = map ready_queue (managers k)"
  shows "kinv k' \<longleftrightarrow> kinv k"
proof -
  have th: "is_thread k' = is_thread k"
    using assms(2) by (simp add: is_thread_def fun_eq_iff)
  have "sched_inv k' \<longleftrightarrow> sched_inv k"
    by (rule sched_inv_same_threads [OF assms(4) th assms(1)])
  then show ?thesis
    by (simp add: kinv_def wait_inv_def mutex_inv_def assms th)
qed

lemma tls_ok_cong:
  assumes "owner_process (threads k' t) = owner_process (threads k t)" "tls_address (threads k' t) = tls_address (threads k t)"
    "tls_slots k' = tls_slots k" "process_limit k' = process_limit k" "resource_limits k' = resource_limits k"
  shows "tls_ok t k' \<longleftrightarrow> tls_ok t k"
  using assms by (auto simp: tls_ok_def release_tls_def Let_def split: option.splits bind_splits)

lemma tls_ok_woken:
  assumes "woken W k k'"
  shows "tls_ok t k' \<longleftrightarrow> tls_ok t k"
proof (rule tls_ok_cong)
  have "core_of (threads k' t) = core_of (if t \<in> W then awake (threads k t) else threads k t)"
    using assms by (simp add: woken_def)
  from core_of_eqD(7,8) [OF this] show "owner_process (threads k' t) = owner_process (threads k t)"
    "tls_address (threads k' t) = tls_address (threads k t)"
    by (simp_all add: awake_def)
qed (use assms in \<open>simp_all add: woken_def rest_same_def\<close>)

lemma wait_inv_leave:
  assumes inv: "wait_inv k" and th: "is_thread k' = is_thread k"
    and w: "\<And>x. waiting_threads k' x = removeAll t (waiting_threads k x)"
    and c: "\<And>u. core_of (threads k' u) = core_of (if u = t then (threads k u)\<lparr>wait_objects := []\<rparr> else threads k u)"
  shows "wait_inv k'"
proof -
  have "wait_objects (threads k' u) = (if u = t then [] else wait_objects (threads k u))"
    "status (threads k' u) = status (threads k u)" "wakeup_callback (threads k' u) = wakeup_callback (threads k u)" for u
    using core_of_eqD(1-3) [OF c [of u]] by simp_all
  with inv show ?thesis
    unfolding wait_inv_def th w by (auto simp: distinct_removeAll)
qed

lemma leave_objects_kinv:
  assumes inv: "kinv k"
  obtains k' where "leave_objects t k = Some k'" "kinv k'" "rest_same k k'"
    "\<And>u. core_of (threads k' u) = core_of (if u = t then (threads k u)\<lparr>wait_objects := []\<rparr> else threads k u)"
    "\<And>x. waiting_threads k' x = removeAll t (waiting_threads k x)"
    "\<And>x v. held_by k' x v \<longleftrightarrow> held_by k x v" "\<And>u. held_mutexes (threads k' u) = held_mutexes (threads k u)"
proof -
  note I = kinv_parts [OF inv]
  obtain k' where k': "leave_objects t k = Some k'" "sched_inv k'" "mutex_inv k'" "rest_same k k'"
    "\<And>u. core_of (threads k' u) = core_of (if u = t then (threads k u)\<lparr>wait_objects := []\<rparr> else threads k u)"
    "\<And>x. waiting_threads k' x = removeAll t (waiting_threads k x)"
    "\<And>x. erase_prio (wait_objs k' x) = erase_prio (wait_objs k x)"
    "\<And>u. held_mutexes (threads k' u) = held_mutexes (threads k u)"
    by (rule leave_objects_frame [OF I(1,3,2), of t]) (assumption | rule that)+
  have "wait_inv k'"
    by (rule wait_inv_leave [OF I(2) _ k'(6,5)]) (use k'(4) in \<open>simp add: rest_same_def\<close>)
  then have "kinv k'"
    using k'(2,3) by (simp add: kinv_def)
  from that [OF k'(1) this k'(4-6) held_by_erase_prio [OF k'(7)] k'(8)] show thesis .
qed

text \<open>Marking the thread dead, after it has left the ready queue.\<close>

lemma mark_dead:
  assumes inv: "kinv k" and t: "is_thread k t" "status (threads k t) \<noteq> Ready" "\<not> waits_on_objects (status (threads k t))"
  shows "kinv (upd_thread t (\<lambda>th. th\<lparr>status := Dead\<rparr>) k)"
proof -
  note I = kinv_parts [OF inv]
  have nw: "t \<notin> set (waiting_threads k x)" for x
    by (rule not_waiting [OF I(2) t(3)])
  have "sched_inv (upd_thread t (\<lambda>th. th\<lparr>status := Dead\<rparr>) k)"
    by (rule sched_inv_status [OF I(1)]) (use t in simp_all)
  moreover have "wait_inv (upd_thread t (\<lambda>th. th\<lparr>status := Dead\<rparr>) k)"
    using I(2) nw by (auto simp: wait_inv_def)
  moreover have "mutex_inv (upd_thread t (\<lambda>th. th\<lparr>status := Dead\<rparr>) k)"
    using I(3) by (auto simp: mutex_inv_def)
  ultimately show ?thesis
    by (simp add: kinv_def)
qed

text \<open>A ready thread leaves its queue and dies.\<close>

lemma unqueue_dead:
  assumes inv: "kinv k" and t: "is_thread k t" "status (threads k t) = Ready"
  obtains q where "on_queue (core_id (threads k t)) (\<lambda>q. tql_remove q (current_priority (threads k t)) t) k =
      Some (set_queue (core_id (threads k t)) q k)"
    "kinv (upd_thread t (\<lambda>th. th\<lparr>status := Dead\<rparr>) (set_queue (core_id (threads k t)) q k))"
proof -
  note I = kinv_parts [OF inv]
  let ?c = "core_id (threads k t)" and ?p = "current_priority (threads k t)"
  note th = thread_okD [OF I(1) t(1)]
  note qo = queue_okD [OF I(1) th(1)]
  from rq.delete_range [OF qo(1), of ?p t] th(2) qo(2) obtain q where q: "tql_remove (queue_of k ?c) ?p t = Some q"
    "tql_inv q" "datas q = (datas (queue_of k ?c))[?p := removeAll t (datas (queue_of k ?c) ! ?p)]"
    "linked q = linked (queue_of k ?c)"
    by auto
  let ?k = "upd_thread t (\<lambda>th. th\<lparr>status := Dead\<rparr>) (set_queue ?c q k)"
  have notin: "t \<notin> set (datas (queue_of k ?c) ! j)" if "j < 64" "j \<noteq> ?p" for j
    using qo(4) [OF that(1), of t] that(2) by simp
  have "sched_inv (set_queue ?c q (upd_thread t (\<lambda>_. (threads k t)\<lparr>status := Dead\<rparr>) k))"
    by (rule sched_inv_update [OF I(1) t(1) refl])
      (use q th qo notin in \<open>auto simp: nth_list_update distinct_removeAll\<close>)
  then have s: "sched_inv ?k"
    using upd_thread_const [of t "\<lambda>th. th\<lparr>status := Dead\<rparr>" "set_queue ?c q k"] by (simp add: set_queue_upd_thread)
  have "\<not> waits_on_objects (status (threads k t))"
    using t(2) by (simp add: waits_on_objects_def)
  from not_waiting [OF I(2) this] I(2) have "wait_inv ?k"
    by (auto simp: wait_inv_def)
  moreover have "mutex_inv ?k"
    using I(3) by (auto simp: mutex_inv_def)
  moreover have "on_queue ?c (\<lambda>q. tql_remove q ?p t) k = Some (set_queue ?c q k)"
    using th(1) q(1) by (simp add: on_queue_Some)
  ultimately show thesis
    using s that by (simp add: kinv_def)
qed

text \<open>
  \<open>t\<close> has been stopped and the threads of \<open>W\<close> were woken by that; its wakeup event is cancelled.
\<close>

definition manager_core :: "thread_manager \<Rightarrow> thread_manager" where
  "manager_core m = m\<lparr>ready_queue := tql_new 0, wakeup_callback_table := Map.empty\<rparr>"

lemma manager_core_rest:
  assumes "map manager_rest ms' = map manager_rest ms"
  shows "map manager_core ms' = map manager_core ms"
proof -
  have "manager_core m = (manager_rest m)\<lparr>wakeup_callback_table := Map.empty\<rparr>" for m
    by (simp add: manager_core_def manager_rest_def)
  then have "map manager_core ms = map (\<lambda>m. m\<lparr>wakeup_callback_table := Map.empty\<rparr>) (map manager_rest ms)" for ms
    by simp
  with assms show ?thesis
    by metis
qed

definition stopped :: "nat \<Rightarrow> nat set \<Rightarrow> 'm kernel \<Rightarrow> 'm kernel \<Rightarrow> bool" where
  "stopped t W k k' \<longleftrightarrow> is_thread k' = is_thread k \<and> t \<notin> W \<and>
     status (threads k' t) = Dead \<and> core_id (threads k' t) = core_id (threads k t) \<and>
     owner_process (threads k' t) = owner_process (threads k t) \<and> wait_objects (threads k' t) = [] \<and>
     (\<forall>x. \<not> held_by k' x t) \<and>
     (\<forall>u. u \<noteq> t \<longrightarrow> core_of (threads k' u) = core_of (if u \<in> W then awake (threads k u) else threads k u)) \<and>
     (\<forall>x. waiting_threads k' x = filter (\<lambda>u. u \<notin> W) (waiting_threads k x)) \<and>
     (\<forall>u \<in> W. \<exists>x. u \<in> set (waiting_threads k x)) \<and> arbiter_threads k' = arbiter_threads k \<and>
     map manager_core (managers k') = map manager_core (managers k) \<and>
     timing k' = UnscheduleEvent (ThreadWakeup (core_id (threads k t))) (thread_id (threads k t)) (timing k)"

text \<open>The part behind marking the thread dead.\<close>

lemma stop_tail:
  assumes inv: "kinv k" and t: "is_thread k t" "status (threads k t) = Dead"
    "\<And>ob. ob \<in> set (held_mutexes (threads k t)) \<Longrightarrow> held_by k ob t" and tls: "tls_ok t k"
  obtains k' W where "do { k \<leftarrow> WakeupAllWaitingThreads t k; k \<leftarrow> leave_objects t k;
      k \<leftarrow> ReleaseThreadMutexes t k; release_tls t k } = Some k'" "kinv k'" "t \<notin> W"
    "\<And>x. \<not> held_by k' x t" "is_thread k' = is_thread k" "timing k' = timing k"
    "map manager_rest (managers k') = map manager_rest (managers k)"
    "\<And>u. core_of (threads k' u) = core_of (if u = t then (threads k u)\<lparr>wait_objects := []\<rparr>
       else if u \<in> W then awake (threads k u) else threads k u)"
    "\<And>x. waiting_threads k' x = filter (\<lambda>u. u \<notin> W) (waiting_threads k x)"
    "\<And>u. u \<in> W \<Longrightarrow> \<exists>x. u \<in> set (waiting_threads k x)" "arbiter_threads k' = arbiter_threads k"
proof -
  have tw: "t \<notin> set (waiting_threads k x)" for x
    using not_waiting [OF kinv_parts(2) [OF inv]] t(2) by (simp add: waits_on_objects_def)
  obtain k1 ws where k1: "WakeupAllWaitingThreads t k = Some k1" "woke_all t k k1 ws"
    by (rule WakeupAll_spec [OF inv])
  have W1: "kinv k1" "woken (set ws) k k1" "t \<notin> set ws" "held_mutexes (threads k1 t) = held_mutexes (threads k t)"
    using k1(2) tw by (auto simp: woke_all_def)
  have h1: "held_by k1 x t \<longleftrightarrow> held_by k x t" for x
    using k1(2) W1(3) by (simp add: woke_all_def)
  obtain k2 where k2: "leave_objects t k1 = Some k2" "kinv k2" "rest_same k1 k2"
    "\<And>u. core_of (threads k2 u) = core_of (if u = t then (threads k1 u)\<lparr>wait_objects := []\<rparr> else threads k1 u)"
    "\<And>x. waiting_threads k2 x = removeAll t (waiting_threads k1 x)" "\<And>x v. held_by k2 x v \<longleftrightarrow> held_by k1 x v"
    "\<And>u. held_mutexes (threads k2 u) = held_mutexes (threads k1 u)"
    by (rule leave_objects_kinv [OF W1(1), of t]) (assumption | rule that)+
  have w2: "waiting_threads k2 x = filter (\<lambda>u. u \<notin> set ws) (waiting_threads k x)" for x
    using tw wokenD(3) [OF W1(2)] by (simp add: k2(5))
  have c1: "core_of (threads k1 u) = core_of (if u \<in> set ws then awake (threads k u) else threads k u)" for u
    using W1(2) by (simp add: woken_def)
  have c2: "core_of (threads k2 u) = core_of (if u = t then (threads k u)\<lparr>wait_objects := []\<rparr>
      else if u \<in> set ws then awake (threads k u) else threads k u)" for u
    using k2(4) [of u] c1 [of u] W1(3) core_of_leave [of "threads k1 t" "threads k t"] by auto
  have st2: "status (threads k2 t) = Dead"
    using core_of_eqD(2) [OF c2 [of t]] t(2) by simp
  have held2: "held_by k2 ob t" if "ob \<in> set (held_mutexes (threads k2 t))" for ob
    using that t(3) by (simp add: k2(6,7) h1 W1(4))
  obtain k3 V where k3: "ReleaseThreadMutexes t k2 = Some k3" "kinv k3" "woken V k2 k3" "t \<notin> V"
    "\<And>x. \<not> held_by k3 x t"
    by (rule ReleaseThreadMutexes_spec [OF k2(2) st2 held2]) (assumption | rule that)+
  have c3: "core_of (threads k3 u) = core_of (if u = t then (threads k u)\<lparr>wait_objects := []\<rparr>
      else if u \<in> set ws \<union> V then awake (threads k u) else threads k u)" for u
  proof -
    have aa: "awake (awake th) = awake th" for th
      by (simp add: awake_def)
    have "core_of (threads k3 u) = core_of (if u \<in> V then awake (threads k2 u) else threads k2 u)"
      using k3(3) by (simp add: woken_def)
    with c2 [of u] core_of_awake [OF c2 [of u]] k3(4) show ?thesis
      by (auto simp: aa)
  qed
  have w3: "waiting_threads k3 x = filter (\<lambda>u. u \<notin> set ws \<union> V) (waiting_threads k x)" for x
    using wokenD(3) [OF k3(3)] by (simp add: w2 conj_commute)
  have "rest_same k k3"
    using W1(2) k2(3) k3(3) unfolding woken_def by (blast intro: rest_same_trans)
  then have r3: "is_thread k3 = is_thread k" "timing k3 = timing k" "map manager_rest (managers k3) = map manager_rest (managers k)"
    "tls_slots k3 = tls_slots k" "process_limit k3 = process_limit k" "resource_limits k3 = resource_limits k"
    "arbiter_threads k3 = arbiter_threads k"
    by (simp_all add: rest_same_def)
  have "tls_ok t k3"
    using tls tls_ok_cong [of k3 t k] core_of_eqD(7,8) [OF c3 [of t]] r3 by simp
  then obtain k4 where k4: "release_tls t k3 = Some k4"
    by (auto simp: tls_ok_def)
  note f4 = release_tls_frame [OF k4]
  show thesis
  proof (rule that [of k4 "set ws \<union> V"])
    show "do { k \<leftarrow> WakeupAllWaitingThreads t k; k \<leftarrow> leave_objects t k;
        k \<leftarrow> ReleaseThreadMutexes t k; release_tls t k } = Some k4"
      by (simp add: k1(1) k2(1) k3(1) k4)
    show "kinv k4"
      using k3(2) kinv_same [of k4 k3] f4 by simp
    show "\<not> held_by k4 x t" for x
      using k3(5) by (simp add: held_by_def f4)
    show "\<exists>x. u \<in> set (waiting_threads k x)" if "u \<in> set ws \<union> V" for u
      using that W1(2) k3(3) by (auto simp: woken_def w2)
  qed (use W1(3) k3(4) in \<open>simp_all add: f4 r3 c3 w3\<close>)
qed

lemma thread_Stop_spec:
  assumes inv: "kinv k" and t: "is_thread k t" "status (threads k t) \<noteq> Dead" "\<not> waits_on_objects (status (threads k t))"
    and tls: "tls_ok t k"
  obtains k' W where "thread_Stop t k = Some k'" "kinv k'" "stopped t W k k'"
proof -
  let ?c = "core_id (threads k t)" and ?tid = "thread_id (threads k t)"
  define k1 where "k1 = upd_manager ?c (\<lambda>m. m\<lparr>wakeup_callback_table := (wakeup_callback_table m)(?tid := None)\<rparr>)
      (k\<lparr>timing := UnscheduleEvent (ThreadWakeup ?c) ?tid (timing k)\<rparr>)"
  have k1: "threads k1 = threads k" "wait_objs k1 = wait_objs k" "waiting_threads k1 = waiting_threads k"
    "map ready_queue (managers k1) = map ready_queue (managers k)"
    "map manager_core (managers k1) = map manager_core (managers k)"
    "timing k1 = UnscheduleEvent (ThreadWakeup ?c) ?tid (timing k)" "is_thread k1 = is_thread k"
    "arbiter_threads k1 = arbiter_threads k"
    "tls_slots k1 = tls_slots k" "process_limit k1 = process_limit k" "resource_limits k1 = resource_limits k"
    by (simp_all add: k1_def map_update_same manager_core_def) (simp_all add: upd_manager_def)
  have i1: "kinv k1"
    using inv kinv_same [OF k1(1-4)] by simp
  obtain k2 where k2: "(if status (threads k1 t) = Ready
      then on_queue ?c (\<lambda>q. tql_remove q (current_priority (threads k1 t)) t) k1 else Some k1) = Some k2"
    "kinv (upd_thread t (\<lambda>th. th\<lparr>status := Dead\<rparr>) k2)" "threads k2 = threads k" "wait_objs k2 = wait_objs k"
    "waiting_threads k2 = waiting_threads k" "map manager_core (managers k2) = map manager_core (managers k)"
    "timing k2 = timing k1" "is_thread k2 = is_thread k" "arbiter_threads k2 = arbiter_threads k"
    "tls_slots k2 = tls_slots k" "process_limit k2 = process_limit k" "resource_limits k2 = resource_limits k"
  proof (cases "status (threads k t) = Ready")
    case True
    with t(1) k1(1,7) have "is_thread k1 t" "status (threads k1 t) = Ready"
      by simp_all
    from unqueue_dead [OF i1 this] obtain q where q: "on_queue ?c (\<lambda>q. tql_remove q (current_priority (threads k1 t)) t) k1 =
        Some (set_queue ?c q k1)" "kinv (upd_thread t (\<lambda>th. th\<lparr>status := Dead\<rparr>) (set_queue ?c q k1))"
      unfolding k1(1) by blast
    show thesis
    proof (rule that [of "set_queue ?c q k1"])
      show "map manager_core (managers (set_queue ?c q k1)) = map manager_core (managers k)"
        by (simp add: map_update_same manager_core_def flip: k1(5))
      show "is_thread (set_queue ?c q k1) = is_thread k"
        using k1(7) by simp
    qed (use True q k1 in \<open>simp_all add: set_queue_def upd_manager_def\<close>)
  next
    case False
    have "kinv (upd_thread t (\<lambda>th. th\<lparr>status := Dead\<rparr>) k1)"
      by (rule mark_dead [OF i1]) (use False t k1 in simp_all)
    with False k1 show thesis
      by (intro that [of k1]) simp_all
  qed
  let ?k3 = "upd_thread t (\<lambda>th. th\<lparr>status := Dead\<rparr>) k2"
  have th3: "is_thread ?k3 t" "status (threads ?k3 t) = Dead"
    using t(1) k2(3,8) by simp_all
  have held3: "held_by ?k3 ob t" if "ob \<in> set (held_mutexes (threads ?k3 t))" for ob
    using that kinv_parts(3) [OF inv] t k2(3,4) by (auto simp: mutex_inv_def held_by_def)
  have "tls_ok t ?k3"
    using tls tls_ok_cong [of ?k3 t k] k2 by (simp add: upd_thread_def)
  note tls3 = this
  obtain k' W where k': "do { k \<leftarrow> WakeupAllWaitingThreads t ?k3; k \<leftarrow> leave_objects t k;
      k \<leftarrow> ReleaseThreadMutexes t k; release_tls t k } = Some k'" "kinv k'" "t \<notin> W"
    "\<And>x. \<not> held_by k' x t" "is_thread k' = is_thread ?k3" "timing k' = timing ?k3"
    "map manager_rest (managers k') = map manager_rest (managers ?k3)"
    "\<And>u. core_of (threads k' u) = core_of (if u = t then (threads ?k3 u)\<lparr>wait_objects := []\<rparr>
       else if u \<in> W then awake (threads ?k3 u) else threads ?k3 u)"
    "\<And>x. waiting_threads k' x = filter (\<lambda>u. u \<notin> W) (waiting_threads ?k3 x)"
    "\<And>u. u \<in> W \<Longrightarrow> \<exists>x. u \<in> set (waiting_threads ?k3 x)" "arbiter_threads k' = arbiter_threads ?k3"
    by (rule stop_tail [OF k2(2) th3 held3 tls3]) (assumption | rule that)+
  have "thread_Stop t k = Some k'"
    using k2(1) k'(1) unfolding thread_Stop_def Let_def k1_def [symmetric] by simp
  moreover have "stopped t W k k'"
    unfolding stopped_def
  proof (intro conjI allI impI)
    show "status (threads k' t) = Dead" "core_id (threads k' t) = core_id (threads k t)"
      "owner_process (threads k' t) = owner_process (threads k t)" "wait_objects (threads k' t) = []"
      using core_of_eqD(1,2,4,7) [OF k'(8) [of t]] k2(3) by simp_all
    show "core_of (threads k' u) = core_of (if u \<in> W then awake (threads k u) else threads k u)" if "u \<noteq> t" for u
      using k'(8) [of u] that k2(3) by simp
    show "map manager_core (managers k') = map manager_core (managers k)"
      using manager_core_rest [OF k'(7)] k2(6) by simp
  qed (use k' k2 k1(6) in simp_all)
  ultimately show thesis
    using that k'(2) by blast
qed

section \<open>Timeouts\<close>

text \<open>
  A timeout wakes the thread if it still waits: it leaves its objects (or its arbiter) and becomes
  ready with the result \<open>Timeout\<close>; a thread that is no longer waiting is left as it is.
\<close>

lemma WakeUp_Timeout_frame:
  assumes inv: "kinv k"
  obtains k' where "WakeUp Timeout t ob k = Some k'" "kinv k'" "waiting_threads k' = waiting_threads k"
    "is_thread k' = is_thread k" "wait_objs k' = wait_objs k" "\<And>u. core_of (threads k' u) = core_of (threads k u)"
    "rest_same k k' \<or> (\<exists>ar. k' = k\<lparr>arbiter_threads := ar\<rparr>)"
proof (cases "wakeup_callback (threads k t)")
  case None
  with that [of k] inv show thesis by (simp add: WakeUp_def)
next
  case (Some c)
  show thesis
  proof (cases c)
    case (SVC_SyncCallback b)
    let ?k = "SetWaitSynchronizationResult t ResultTimeout k"
    have "mutex_inv ?k"
      by (rule mutex_inv_cong [OF kinv_parts(3) [OF inv]]) (auto simp: SetWaitSynchronizationResult_def)
    then have "kinv ?k"
      unfolding SetWaitSynchronizationResult_def
      by (rule kinv_upd_thread [OF inv]) (simp_all add: core_of_def)
    with Some SVC_SyncCallback show thesis
      by (intro that [of ?k]) (auto simp: WakeUp_def SetWaitSynchronizationResult_def core_of_def)
  next
    case (ArbiterCallback a)
    let ?k = "k\<lparr>arbiter_threads := (arbiter_threads k)(a := removeAll t (arbiter_threads k a))\<rparr>"
    have "kinv ?k"
      using inv kinv_same [of ?k k] by simp
    with Some ArbiterCallback show thesis
      by (intro that [of ?k]) (simp_all add: WakeUp_def is_thread_def fun_eq_iff, blast)
  qed
qed

end
