(* ===== verification/Kernel_Steps.thy ===== *)
theory Kernel_Steps
  imports Thread_End
begin

text \<open>
  The kernel as a state machine: the invariant that joins the scheduler, the waiting threads, the
  mutexes and the cores, and the relation of one kernel operation after another. Every operation
  keeps the invariant, so it holds in every state the kernel can reach from its constructor.
\<close>

section \<open>The kernel invariant\<close>

text \<open>
  Besides \<open>kinv\<close>: a core's current thread is a thread of that core, every thread has an owner, there
  is one timer per core, the CPU limiter is off, and only a thread that waits for objects lists any.
\<close>

definition static_ok :: "'m kernel \<Rightarrow> bool" where
  "static_ok k \<longleftrightarrow>
     (\<forall>c < length (managers k). current_ok c k) \<and>
     (\<forall>t. is_thread k t \<longrightarrow> owner_process (threads k t) \<noteq> None) \<and>
     length (timers (timing k)) = length (managers k) \<and> current_timer (timing k) < length (managers k) \<and>
     limiter_inactive k \<and>
     (\<forall>t. is_thread k t \<longrightarrow> waits_on_objects (status (threads k t)) \<or> wait_objects (threads k t) = [])"

definition kernel_inv :: "'m kernel \<Rightarrow> bool" where
  "kernel_inv k \<longleftrightarrow> kinv k \<and> static_ok k"

definition manager_limits ::
  "thread_manager \<Rightarrow> Core1ScheduleMode \<times> cpu_limiter \<times> cpu_limiter" where
  "manager_limits m = (current_schedule_mode m, single_time_limiter m, multi_time_limiter m)"

lemma map_eq_nth:
  assumes "map f xs = map f ys"
  shows "f (xs ! i) = f (ys ! i)"
proof (cases "i < length xs")
  case True
  with assms show ?thesis by (metis map_eq_imp_length_eq nth_map)
next
  case False
  have "length xs = length ys"
    using assms by (rule map_eq_imp_length_eq)
  then have "xs ! i = ys ! i"
    using False by (induction xs ys arbitrary: i rule: list_induct2) auto
  then show ?thesis by simp
qed

lemma limiter_inactive_cong:
  assumes "map manager_limits (managers k') = map manager_limits (managers k)"
  shows "limiter_inactive k' \<longleftrightarrow> limiter_inactive k"
  using map_eq_nth [OF assms, of 1]
  by (simp add: limiter_inactive_def get_limiter_def GetCpuLimiter_def manager_limits_def)

text \<open>What an operation must leave alone, or change in a harmless way, to keep \<open>static_ok\<close>.\<close>

definition static_same :: "'m kernel \<Rightarrow> 'm kernel \<Rightarrow> bool" where
  "static_same k k' \<longleftrightarrow> is_thread k' = is_thread k \<and>
     map manager_core (managers k') = map manager_core (managers k) \<and>
     length (timers (timing k')) = length (timers (timing k)) \<and> current_timer (timing k') = current_timer (timing k) \<and>
     (\<forall>u. core_id (threads k' u) = core_id (threads k u) \<and> owner_process (threads k' u) = owner_process (threads k u) \<and>
        (waits_on_objects (status (threads k' u)) \<or> wait_objects (threads k' u) = [] \<or>
         status (threads k' u) = status (threads k u) \<and> wait_objects (threads k' u) = wait_objects (threads k u)))"

lemma manager_core_parts:
  assumes "map manager_core ms' = map manager_core ms"
  shows "map current_thread ms' = map current_thread ms" "map manager_limits ms' = map manager_limits ms"
    "length ms' = length ms"
proof -
  have "current_thread = current_thread \<circ> manager_core" "manager_limits = manager_limits \<circ> manager_core"
    by (simp_all add: fun_eq_iff manager_core_def manager_limits_def)
  with assms show "map current_thread ms' = map current_thread ms" "map manager_limits ms' = map manager_limits ms"
    by (metis map_map)+
  show "length ms' = length ms"
    using assms by (rule map_eq_imp_length_eq)
qed

lemma static_ok_same:
  assumes "static_ok k" "static_same k k'"
  shows "static_ok k'"
proof -
  from assms(2) have s: "is_thread k' = is_thread k" "map manager_core (managers k') = map manager_core (managers k)"
    "length (timers (timing k')) = length (timers (timing k))" "current_timer (timing k') = current_timer (timing k)"
    "\<And>u. core_id (threads k' u) = core_id (threads k u)" "\<And>u. owner_process (threads k' u) = owner_process (threads k u)"
    "\<And>u. waits_on_objects (status (threads k' u)) \<or> wait_objects (threads k' u) = [] \<or>
         status (threads k' u) = status (threads k u) \<and> wait_objects (threads k' u) = wait_objects (threads k u)"
    by (simp_all add: static_same_def)
  note m = manager_core_parts [OF s(2)]
  from assms(1) have ok: "\<And>c. c < length (managers k) \<Longrightarrow> current_ok c k"
    "\<And>t. is_thread k t \<Longrightarrow> owner_process (threads k t) \<noteq> None"
    "length (timers (timing k)) = length (managers k)" "current_timer (timing k) < length (managers k)"
    "limiter_inactive k" "\<And>t. is_thread k t \<Longrightarrow> waits_on_objects (status (threads k t)) \<or> wait_objects (threads k t) = []"
    by (auto simp: static_ok_def)
  have "current_ok c k'" if "c < length (managers k)" for c
    using ok(1) [OF that] map_eq_nth [OF m(1), of c] by (simp add: current_ok_def s(1,5))
  moreover have "limiter_inactive k'"
    using ok(5) limiter_inactive_cong [OF m(2)] by simp
  moreover have "waits_on_objects (status (threads k' t)) \<or> wait_objects (threads k' t) = []" if "is_thread k t" for t
    using ok(6) [OF that] s(7) [of t] by auto
  ultimately show ?thesis
    using ok(2-4) m(3) by (simp add: static_ok_def s(1,3,4,6))
qed

lemma rest_same_static:
  assumes "rest_same k k'"
  shows "is_thread k' = is_thread k" "map manager_core (managers k') = map manager_core (managers k)"
    "timing k' = timing k"
proof -
  show "map manager_core (managers k') = map manager_core (managers k)"
    by (rule manager_core_rest) (use assms in \<open>simp add: rest_same_def\<close>)
qed (use assms in \<open>simp_all add: rest_same_def\<close>)

lemma static_same_kframe:
  assumes "kframe k k'"
  shows "static_same k k'"
  using rest_same_static [OF kframeD(2) [OF assms]] by (simp add: static_same_def kframeD [OF assms])

lemma static_same_woken:
  assumes "woken W k k'"
  shows "static_same k k'"
proof -
  have "core_of (threads k' u) = core_of (if u \<in> W then awake (threads k u) else threads k u)" for u
    using assms by (simp add: woken_def)
  note c = core_of_eqD [OF this]
  have "core_id (threads k' u) = core_id (threads k u)" "owner_process (threads k' u) = owner_process (threads k u)" for u
    using c(4,7) [of u] by (simp_all add: awake_def)
  with wokenD(4,5) [OF assms] rest_same_static [OF wokenD(1) [OF assms]] show ?thesis
    by (simp add: static_same_def)
qed

lemma static_same_asleep:
  assumes "asleep t obs st b k k'" "waits_on_objects st"
  shows "static_same k k'"
proof -
  have "core_of (threads k' u) = core_of (if u = t then (threads k t)\<lparr>wait_objects := obs, status := st,
        wakeup_callback := Some (SVC_SyncCallback b)\<rparr> else threads k u)" for u
    using assms(1) by (simp add: asleep_def)
  note c = core_of_eqD [OF this]
  have "core_id (threads k' u) = core_id (threads k u)" "owner_process (threads k' u) = owner_process (threads k u)" for u
    using c(4,7) [of u] by (simp_all split: if_splits)
  moreover have "map manager_core (managers k') = map manager_core (managers k)"
    using assms(1) by (intro manager_core_rest) (simp add: asleep_def)
  ultimately show ?thesis
    using assms(2) asleepD(3,4) [OF assms(1)] assms(1) by (simp add: static_same_def asleep_def)
qed

lemma UnscheduleEvent_sizes [simp]:
  "length (timers (UnscheduleEvent ty d tm)) = length (timers tm)"
  "current_timer (UnscheduleEvent ty d tm) = current_timer tm"
  by (simp_all add: UnscheduleEvent_def)

lemma static_same_stopped:
  assumes "stopped t W k k'"
  shows "static_same k k'"
proof -
  have eq: "core_id (threads k' u) = core_id (threads k u) \<and> owner_process (threads k' u) = owner_process (threads k u) \<and>
      (waits_on_objects (status (threads k' u)) \<or> wait_objects (threads k' u) = [] \<or>
       status (threads k' u) = status (threads k u) \<and> wait_objects (threads k' u) = wait_objects (threads k u))" for u
  proof (cases "u = t")
    case True
    with assms show ?thesis by (simp add: stopped_def)
  next
    case False
    with assms have "core_of (threads k' u) = core_of (if u \<in> W then awake (threads k u) else threads k u)"
      by (simp add: stopped_def)
    from core_of_eqD(1,2,4,7) [OF this] show ?thesis
      by (auto simp: awake_def)
  qed
  with assms show ?thesis
    by (simp add: static_same_def stopped_def)
qed

lemma kernel_inv_same: "kernel_inv k \<Longrightarrow> static_same k k' \<Longrightarrow> kinv k' \<Longrightarrow> kernel_inv k'"
  by (auto simp: kernel_inv_def intro: static_ok_same)

lemma kernel_invD:
  assumes "kernel_inv k"
  shows "kinv k" "sched_inv k" "wait_inv k" "mutex_inv k" "static_ok k" "timer_ok k"
    "c < length (managers k) \<Longrightarrow> current_ok c k" "c < length (managers k) \<Longrightarrow> c < length (timers (timing k))"
    "is_thread k t \<Longrightarrow> owner_process (threads k t) \<noteq> None" "limiter_inactive k"
  using assms by (auto simp: kernel_inv_def kinv_def static_ok_def timer_ok_def)

lemma running_is_thread:
  assumes "kernel_inv k" "running_thread k = Some t"
  shows "is_thread k t"
  using assms kernel_invD(7) [OF assms(1)] by (auto simp: running_thread_def current_ok_def split: if_splits)

section \<open>Threads that wait at an arbiter\<close>

text \<open>A thread that is marked so waits in exactly one arbiter, once; its callback, if any, is that arbiter's.\<close>

definition arb_inv :: "'m kernel \<Rightarrow> bool" where
  "arb_inv k \<longleftrightarrow>
     (\<forall>a. distinct (arbiter_threads k a)) \<and>
     (\<forall>a t. t \<in> set (arbiter_threads k a) \<longrightarrow>
        is_thread k t \<and> status (threads k t) = WaitArb \<and>
        (wakeup_callback (threads k t) = None \<or> wakeup_callback (threads k t) = Some (ArbiterCallback a))) \<and>
     (\<forall>a b t. t \<in> set (arbiter_threads k a) \<longrightarrow> t \<in> set (arbiter_threads k b) \<longrightarrow> a = b) \<and>
     (\<forall>t. is_thread k t \<longrightarrow> status (threads k t) = WaitArb \<longrightarrow> (\<exists>a. t \<in> set (arbiter_threads k a)))"

lemma arb_invD:
  assumes "arb_inv k"
  shows "distinct (arbiter_threads k a)"
    "t \<in> set (arbiter_threads k a) \<Longrightarrow> is_thread k t" "t \<in> set (arbiter_threads k a) \<Longrightarrow> status (threads k t) = WaitArb"
    "t \<in> set (arbiter_threads k a) \<Longrightarrow> wakeup_callback (threads k t) = None \<or> wakeup_callback (threads k t) = Some (ArbiterCallback a)"
    "t \<in> set (arbiter_threads k a) \<Longrightarrow> t \<in> set (arbiter_threads k b) \<Longrightarrow> a = b"
    "is_thread k t \<Longrightarrow> status (threads k t) = WaitArb \<Longrightarrow> \<exists>a. t \<in> set (arbiter_threads k a)"
  using assms unfolding arb_inv_def by blast+

text \<open>What the operations of the other components leave alone.\<close>

definition arb_same :: "'m kernel \<Rightarrow> 'm kernel \<Rightarrow> bool" where
  "arb_same k k' \<longleftrightarrow> arbiter_threads k' = arbiter_threads k \<and>
     (\<forall>u. is_thread k u \<longrightarrow> is_thread k' u \<and> (status (threads k u) = WaitArb \<longrightarrow>
        status (threads k' u) = WaitArb \<and> wakeup_callback (threads k' u) = wakeup_callback (threads k u) \<and>
        wait_address (threads k' u) = wait_address (threads k u))) \<and>
     (\<forall>u. is_thread k' u \<longrightarrow> status (threads k' u) = WaitArb \<longrightarrow> is_thread k u \<and> status (threads k u) = WaitArb)"

lemma arb_same_refl [simp]: "arb_same k k"
  by (simp add: arb_same_def)

lemma arb_sameD:
  assumes "arb_same k k'"
  shows "arbiter_threads k' = arbiter_threads k" "is_thread k u \<Longrightarrow> is_thread k' u"
    "is_thread k u \<Longrightarrow> status (threads k u) = WaitArb \<Longrightarrow> status (threads k' u) = WaitArb \<and>
       wakeup_callback (threads k' u) = wakeup_callback (threads k u) \<and> wait_address (threads k' u) = wait_address (threads k u)"
    "is_thread k' u \<Longrightarrow> status (threads k' u) = WaitArb \<Longrightarrow> is_thread k u \<and> status (threads k u) = WaitArb"
  using assms unfolding arb_same_def by blast+

lemma arb_same_trans:
  assumes "arb_same k k1" "arb_same k1 k2"
  shows "arb_same k k2"
  unfolding arb_same_def
proof (intro conjI allI impI)
  fix u assume u: "is_thread k u" "status (threads k u) = WaitArb"
  note 1 = arb_sameD(2) [OF assms(1) u(1)] arb_sameD(3) [OF assms(1) u]
  with arb_sameD(3) [OF assms(2), of u] show "status (threads k2 u) = WaitArb"
    "wakeup_callback (threads k2 u) = wakeup_callback (threads k u)" "wait_address (threads k2 u) = wait_address (threads k u)"
    by simp_all
next
  fix u assume u: "is_thread k2 u" "status (threads k2 u) = WaitArb"
  from arb_sameD(4) [OF assms(2) u] have "is_thread k1 u" "status (threads k1 u) = WaitArb" by simp_all
  from arb_sameD(4) [OF assms(1) this] show "is_thread k u" "status (threads k u) = WaitArb" by simp_all
qed (use arb_sameD(1,2) [OF assms(1)] arb_sameD(1,2) [OF assms(2)] in simp_all)

lemma arb_inv_same: "arb_inv k \<Longrightarrow> arb_same k k' \<Longrightarrow> arb_inv k'"
proof -
  assume inv: "arb_inv k" and s: "arb_same k k'"
  from s have e: "arbiter_threads k' = arbiter_threads k"
    by (simp add: arb_same_def)
  have "is_thread k' t \<and> status (threads k' t) = WaitArb \<and>
      (wakeup_callback (threads k' t) = None \<or> wakeup_callback (threads k' t) = Some (ArbiterCallback a))"
    if "t \<in> set (arbiter_threads k a)" for t a
    using arb_invD(2,3,4) [OF inv that] s by (simp add: arb_same_def)
  moreover have "\<exists>a. t \<in> set (arbiter_threads k a)" if "is_thread k' t" "status (threads k' t) = WaitArb" for t
  proof -
    have "is_thread k t" "status (threads k t) = WaitArb"
      using s that by (simp_all add: arb_same_def)
    then show ?thesis by (rule arb_invD(6) [OF inv])
  qed
  ultimately show "arb_inv k'"
    using arb_invD(1,5) [OF inv] unfolding arb_inv_def e by blast
qed

lemma core_of_wait_address: "core_of th' = core_of th \<Longrightarrow> wait_address th' = wait_address th"
  by (cases th'; cases th) (simp add: core_of_def)

lemma arb_same_core:
  assumes "arbiter_threads k' = arbiter_threads k" "is_thread k' = is_thread k"
    and "\<And>u. is_thread k u \<Longrightarrow> status (threads k u) = WaitArb \<Longrightarrow> core_of (threads k' u) = core_of (threads k u)"
    and "\<And>u. is_thread k u \<Longrightarrow> status (threads k' u) = WaitArb \<Longrightarrow> status (threads k u) = WaitArb"
  shows "arb_same k k'"
proof -
  have "status (threads k' u) = WaitArb \<and> wakeup_callback (threads k' u) = wakeup_callback (threads k u) \<and>
      wait_address (threads k' u) = wait_address (threads k u)" if u: "is_thread k u" "status (threads k u) = WaitArb" for u
    using core_of_eqD(2,3) [OF assms(3) [OF u]] core_of_wait_address [OF assms(3) [OF u]] u(2) by simp
  with assms(4) show ?thesis
    unfolding arb_same_def assms(1,2) by blast
qed

lemma arb_same_kframe: "kframe k k' \<Longrightarrow> arb_same k k'"
  using kframeD(4) [of k k'] by (intro arb_same_core) (simp_all add: kframe_def rest_same_def)

lemma arb_same_woken:
  assumes "wait_inv k" "woken W k k'"
  shows "arb_same k k'"
proof (rule arb_same_core)
  fix u assume "status (threads k u) = WaitArb"
  then have "u \<notin> W"
    using assms(2) wait_invD(4) [OF assms(1), of u] unfolding woken_def by (fastforce simp: waits_on_objects_def)
  with assms(2) show "core_of (threads k' u) = core_of (threads k u)"
    by (simp add: woken_def)
next
  fix u assume "status (threads k' u) = WaitArb"
  then show "status (threads k u) = WaitArb"
    using wokenD(4) [OF assms(2), of u] by (simp split: if_splits)
qed (use assms(2) in \<open>simp_all add: woken_def rest_same_def\<close>)

lemma arb_same_asleep:
  assumes "asleep t obs st b k k'" "status (threads k t) \<noteq> WaitArb" "st \<noteq> WaitArb"
  shows "arb_same k k'"
proof (rule arb_same_core)
  fix u assume "status (threads k' u) = WaitArb"
  then show "status (threads k u) = WaitArb"
    using asleepD(3) [OF assms(1), of u] assms(3) by (simp split: if_splits)
qed (use assms in \<open>auto simp: asleep_def\<close>)

lemma arb_same_stopped:
  assumes "wait_inv k" "stopped t W k k'" "status (threads k t) \<noteq> WaitArb"
  shows "arb_same k k'"
proof (rule arb_same_core)
  fix u assume u: "status (threads k u) = WaitArb"
  then have "u \<notin> W"
    using assms(2) wait_invD(4) [OF assms(1), of u] unfolding stopped_def by (fastforce simp: waits_on_objects_def)
  with assms(2,3) u show "core_of (threads k' u) = core_of (threads k u)"
    by (cases "u = t") (simp_all add: stopped_def)
next
  fix u assume u: "status (threads k' u) = WaitArb"
  with assms(2) have "u \<noteq> t"
    by (auto simp: stopped_def)
  with assms(2) have "core_of (threads k' u) = core_of (if u \<in> W then awake (threads k u) else threads k u)"
    by (simp add: stopped_def)
  from core_of_eqD(2) [OF this] u show "status (threads k u) = WaitArb"
    by (simp add: awake_def split: if_splits)
qed (use assms(2) in \<open>simp_all add: stopped_def\<close>)

lemma arb_same_fields:
  "threads k' = threads k \<Longrightarrow> is_thread k' = is_thread k \<Longrightarrow> arbiter_threads k' = arbiter_threads k \<Longrightarrow> arb_same k k'"
  by (simp add: arb_same_def)

text \<open>A step that keeps the invariant and touches no arbiter.\<close>

definition step_ok :: "'m kernel \<Rightarrow> 'm kernel \<Rightarrow> bool" where
  "step_ok k k' \<longleftrightarrow> kernel_inv k' \<and> arb_same k k'"

lemma step_okD: "step_ok k k' \<Longrightarrow> kernel_inv k'" "step_ok k k' \<Longrightarrow> arb_same k k'"
  by (simp_all add: step_ok_def)

lemma step_ok_refl: "kernel_inv k \<Longrightarrow> step_ok k k"
  by (simp add: step_ok_def)

lemma step_ok_trans [trans]: "step_ok k k1 \<Longrightarrow> step_ok k1 k2 \<Longrightarrow> step_ok k k2"
  by (auto simp: step_ok_def intro: arb_same_trans)

lemma step_ok_kframe: "kernel_inv k \<Longrightarrow> kframe k k' \<Longrightarrow> kinv k' \<Longrightarrow> step_ok k k'"
  by (simp add: step_ok_def kernel_inv_same static_same_kframe arb_same_kframe)

section \<open>Dispatching a thread keeps the invariant\<close>

text \<open>What \<open>Reschedule\<close> on core \<open>c\<close> does not touch.\<close>

definition core_only :: "nat \<Rightarrow> 'm kernel \<Rightarrow> 'm kernel \<Rightarrow> bool" where
  "core_only c k k' \<longleftrightarrow> waiting_threads k' = waiting_threads k \<and> wait_objs k' = wait_objs k \<and>
     map manager_limits (managers k') = map manager_limits (managers k) \<and>
     (\<forall>d. d \<noteq> c \<longrightarrow> current_thread (managers k' ! d) = current_thread (managers k ! d)) \<and>
     length (timers (timing k')) = length (timers (timing k)) \<and> current_timer (timing k') = current_timer (timing k) \<and>
     arbiter_threads k' = arbiter_threads k"

lemma core_only_refl [simp]: "core_only c k k"
  by (simp add: core_only_def)

lemma core_only_trans [trans]: "core_only c k1 k2 \<Longrightarrow> core_only c k2 k3 \<Longrightarrow> core_only c k1 k3"
  by (simp add: core_only_def)

lemma core_only_updates:
  "core_only c k (set_queue c q k)" "core_only c k (upd_thread t f k)"
  "core_only c k (upd_manager c (\<lambda>m. m\<lparr>current_thread := n\<rparr>) k)"
  "core_only c k (k\<lparr>timing := UnscheduleEvent ty d (timing k)\<rparr>)"
  "core_only c k (upd_manager c (\<lambda>m. m\<lparr>cpu_process := p m, cpu_context := x, cpu_thread_uro := y\<rparr>) k)"
  by (simp_all add: core_only_def map_update_same manager_limits_def)

lemma on_queue_core_only: "on_queue c f k = Some k' \<Longrightarrow> core_only c k k'"
  by (auto simp: on_queue_def bind_eq_Some_conv core_only_updates split: if_splits)

lemma save_previous_core_only:
  assumes "save_previous c k = Some k'"
  shows "core_only c k k'"
proof (cases "current_thread (managers k ! c)")
  case None
  with assms show ?thesis by (simp add: save_previous_def)
next
  case (Some p)
  let ?k1 = "upd_thread p (\<lambda>th. th\<lparr>last_running_ticks := timer_ticks (timers (timing k) ! c),
      context_regs := cpu_context (managers k ! c)\<rparr>) k"
  from Some assms have "k' = ?k1 \<or> (\<exists>k2. on_queue c (\<lambda>q. push_front q (current_priority (threads ?k1 p)) p) ?k1 = Some k2 \<and>
      k' = upd_thread p (\<lambda>th. th\<lparr>status := Ready\<rparr>) k2)"
    by (auto simp: save_previous_def Let_def bind_eq_Some_conv split: if_splits)
  then show ?thesis
    by (meson core_only_trans core_only_updates(2) on_queue_core_only)
qed

lemma load_next_core_only:
  assumes "load_next c pp t k = Some k'"
  shows "core_only c k k'"
proof -
  let ?k1 = "upd_manager c (\<lambda>m. m\<lparr>current_thread := Some t\<rparr>)
      (k\<lparr>timing := UnscheduleEvent (ThreadWakeup c) (thread_id (threads k t)) (timing k)\<rparr>)"
  from assms obtain k2 where k2: "on_queue c (\<lambda>q. tql_remove q (current_priority (threads ?k1 t)) t) ?k1 = Some k2"
    "k' = upd_manager c (\<lambda>m. m\<lparr>
         cpu_process := (if pp \<noteq> owner_process (threads (upd_thread t (\<lambda>th. th\<lparr>status := Running\<rparr>) k2) t)
            then owner_process (threads (upd_thread t (\<lambda>th. th\<lparr>status := Running\<rparr>) k2) t) else cpu_process m),
         cpu_context := context_regs (threads (upd_thread t (\<lambda>th. th\<lparr>status := Running\<rparr>) k2) t),
         cpu_thread_uro := tls_address (threads (upd_thread t (\<lambda>th. th\<lparr>status := Running\<rparr>) k2) t)\<rparr>)
         (upd_thread t (\<lambda>th. th\<lparr>status := Running\<rparr>) k2)"
    by (auto simp: load_next_def Let_def bind_eq_Some_conv split: if_splits)
  have "core_only c k ?k1"
    by (rule core_only_trans [OF core_only_updates(4,3)])
  also have "core_only c ?k1 k2"
    using k2(1) by (rule on_queue_core_only)
  also have "core_only c k2 (upd_thread t (\<lambda>th. th\<lparr>status := Running\<rparr>) k2)"
    by (rule core_only_updates)
  also have "core_only c (upd_thread t (\<lambda>th. th\<lparr>status := Running\<rparr>) k2) k'"
    unfolding k2(2) by (rule core_only_updates)
  finally show ?thesis .
qed

lemma Reschedule_core_only:
  assumes "kernel_inv k" "c < length (managers k)" "Reschedule c k = Some k'"
  shows "core_only c k k'"
proof -
  note K = kernel_invD [OF assms(1)]
  obtain q nxt where p: "pop_next c k = Some (set_queue c q k, nxt)"
    by (rule pop_next_spec [OF K(2) assms(2) K(7) [OF assms(2)]]) blast
  have P: "PopNextReadyThread c k = Some (set_queue c q k, nxt)"
    by (rule PopNextReadyThread_inactive [OF p]) (use K(10) in simp)
  have s: "core_only c k1 k2" if "SwitchContext c nxt k1 = Some k2" for k1 k2 :: "'a kernel"
    using that by (auto simp: SwitchContext_def Let_def bind_eq_Some_conv split: if_splits option.splits
      intro: core_only_trans [OF save_previous_core_only load_next_core_only]
        core_only_trans [OF save_previous_core_only core_only_updates(3)])
  show ?thesis
    using assms(3) P core_only_updates(1) [of c k q] s
    by (auto simp: Reschedule_def Let_def intro: core_only_trans split: if_splits)
qed

lemma Reschedule_step_ok:
  assumes inv: "kernel_inv k" and c: "c < length (managers k)"
  obtains k' where "Reschedule c k = Some k'" "step_ok k k'"
proof -
  note K = kernel_invD [OF inv]
  obtain k' nxt r and q :: "nat tql" where R: "Reschedule c k = Some k'" "sched_inv k'"
    "take_allowed (allowed k) (rival_bound c k) (datas (queue_of k c)) = (datas q, r)"
    "nxt = (case r of None \<Rightarrow> keeps_running c k | Some t \<Rightarrow> Some t)"
    "current_thread (managers k' ! c) = nxt" "is_thread k' = is_thread k"
    "\<And>t. threads k' t = (let th = (if current_thread (managers k ! c) = Some t then saved c k (threads k t)
        else threads k t) in if nxt = Some t then th\<lparr>status := Running\<rparr> else th)"
    by (rule Reschedule_spec [OF K(2) c K(8) [OF c] K(7) [OF c] _ K(9)]) (use K(10) in blast)+
  note co = Reschedule_core_only [OF inv c R(1), unfolded core_only_def]
  have nxt: "is_thread k t \<and> core_id (threads k t) = c \<and> status (threads k t) \<in> {Ready, Running}" if "nxt = Some t" for t
  proof (cases r)
    case None
    with that R(4) keeps_running_ok [OF K(7) [OF c], of t] show ?thesis by simp
  next
    case (Some u)
    with that R(4) have "r = Some t"
      by simp
    with R(3) obtain p where "p < rival_bound c k" "t \<in> set (datas (queue_of k c) ! p)"
      by (auto elim: take_allowed_cases)
    with queue_okD(4) [OF K(2) c, of p t] rival_bound_le [OF K(2) K(7) [OF c]] show ?thesis
      by simp
  qed
  have st: "status (threads k' t) = status (threads k t) \<or>
      status (threads k' t) \<in> {Ready, Running} \<and> status (threads k t) \<in> {Ready, Running}" for t
    using nxt [of t] by (auto simp: R(7) Let_def saved_def)
  have same: "core_id (threads k' t) = core_id (threads k t)" "owner_process (threads k' t) = owner_process (threads k t)"
    "wait_objects (threads k' t) = wait_objects (threads k t)" "wakeup_callback (threads k' t) = wakeup_callback (threads k t)"
    "held_mutexes (threads k' t) = held_mutexes (threads k t)" for t
    by (simp_all add: R(7) Let_def saved_def)
  have w: "waits_on_objects (status (threads k' t)) = waits_on_objects (status (threads k t))"
    "status (threads k' t) = WaitSynchAll \<longleftrightarrow> status (threads k t) = WaitSynchAll"
    "status (threads k' t) = Dead \<longleftrightarrow> status (threads k t) = Dead" for t
    using st [of t] by (auto simp: waits_on_objects_def)
  have "wait_inv k'"
    using K(3) co by (simp add: wait_inv_def R(6) same w)
  moreover have "mutex_inv k'"
    by (rule mutex_inv_cong [OF K(4)]) (use co in \<open>simp_all add: R(6) same w\<close>)
  ultimately have "kinv k'"
    using R(2) by (simp add: kinv_def)
  moreover have "static_ok k'"
  proof -
    have len: "length (managers k') = length (managers k)"
      using co map_eq_imp_length_eq by blast
    have "current_ok d k'" if "d < length (managers k)" for d
    proof (cases "d = c")
      case True
      with nxt R(5) show ?thesis
        by (simp add: current_ok_def R(6) same)
    next
      case False
      with co K(7) [OF that] show ?thesis
        by (simp add: current_ok_def R(6) same)
    qed
    moreover have "limiter_inactive k'"
      using limiter_inactive_cong [of k' k] co K(10) by simp
    ultimately show ?thesis
      using K(5) co by (simp add: static_ok_def len R(6) same w)
  qed
  moreover have "arb_same k k'"
    unfolding arb_same_def R(6)
  proof (intro conjI allI impI)
    show "wait_address (threads k' t) = wait_address (threads k t)" for t
      by (simp add: R(7) Let_def saved_def)
    show "status (threads k' t) = WaitArb" if "status (threads k t) = WaitArb" for t
      using st [of t] that by simp
    show "status (threads k t) = WaitArb" if "status (threads k' t) = WaitArb" for t
      using st [of t] that by auto
  qed (use co in \<open>simp_all add: same(4)\<close>)
  ultimately show thesis
    using that R(1) by (simp add: kernel_inv_def step_ok_def)
qed

lemma Reschedule_kernel_inv:
  assumes "kernel_inv k" "c < length (managers k)"
  obtains k' where "Reschedule c k = Some k'" "kernel_inv k'"
  using Reschedule_step_ok [OF assms] step_okD(1) by blast

section \<open>New objects\<close>

text \<open>
  The address of a new object is not that of a live one: no thread lives there, and no thread waits
  for or holds what was there.
\<close>

definition fresh :: "'m kernel \<Rightarrow> nat \<Rightarrow> bool" where
  "fresh k ob \<longleftrightarrow> \<not> is_thread k ob \<and>
     (\<forall>t. is_thread k t \<longrightarrow> ob \<notin> set (held_mutexes (threads k t)) \<and> ob \<notin> set (wait_objects (threads k t)))"

lemma fresh_not_held:
  assumes "kinv k" "fresh k ob" "wait_objs k ob = WMutex m"
  shows "holding_thread m = None"
  using mutex_inv_holder [OF kinv_parts(3) [OF assms(1)] assms(3)] assms(2)
  by (cases "holding_thread m") (auto simp: fresh_def)

lemma kinv_new_object:
  assumes inv: "kinv k" and ob: "fresh k ob" and w: "w \<noteq> WThread" "mutex_view w = None \<or> mutex_view w = Some (0, None)"
  shows "kinv (set_waiting ob [] (set_object ob w k))"
proof -
  let ?k = "set_waiting ob [] (set_object ob w k)"
  note I = kinv_parts [OF inv]
  have nt: "is_thread k ob \<longleftrightarrow> w = WThread"
    using ob w(1) by (simp add: fresh_def)
  have th: "is_thread (set_object ob w k) = is_thread k"
    using kframeD(1) [OF kframe_set_object [OF nt]] .
  have "sched_inv ?k"
    using I(1) sched_inv_set_object [OF nt] by simp
  moreover have "wait_inv ?k"
    using I(2) by (simp add: wait_inv_def th)
  moreover have "mutex_inv ?k"
    unfolding mutex_inv_view
  proof (intro conjI allI impI)
    fix x n h assume m: "mutex_view (wait_objs ?k x) = Some (n, h)"
    have "0 \<le> n \<and> (h = None \<longleftrightarrow> n = 0) \<and> (\<forall>t. h = Some t \<longrightarrow> is_thread k t \<and> x \<in> set (held_mutexes (threads k t)))"
    proof (cases "x = ob")
      case True
      with m w(2) show ?thesis by auto
    next
      case False
      with m I(3) show ?thesis by (simp add: mutex_inv_view)
    qed
    then show "0 \<le> n" "h = None \<longleftrightarrow> n = 0" "\<And>t. h = Some t \<Longrightarrow> is_thread ?k t"
      "\<And>t. h = Some t \<Longrightarrow> x \<in> set (held_mutexes (threads ?k t))"
      by (simp_all add: th)
  next
    fix t assume t: "is_thread ?k t" "status (threads ?k t) \<noteq> Dead"
    show "\<forall>x \<in> set (held_mutexes (threads ?k t)). \<exists>n. mutex_view (wait_objs ?k x) = Some (n, Some t)"
    proof
      fix x assume x: "x \<in> set (held_mutexes (threads ?k t))"
      with t ob have "x \<noteq> ob"
        by (auto simp: th fresh_def)
      with I(3) t x show "\<exists>n. mutex_view (wait_objs ?k x) = Some (n, Some t)"
        by (simp add: mutex_inv_view th)
    qed
  qed (use I(3) in \<open>simp add: mutex_inv_def\<close>)
  ultimately show ?thesis
    by (simp add: kinv_def)
qed

lemma kernel_inv_new_object:
  assumes inv: "kernel_inv k" and ob: "fresh k ob" and w: "w \<noteq> WThread" "mutex_view w = None \<or> mutex_view w = Some (0, None)"
  shows "kernel_inv (set_waiting ob [] (set_object ob w k))"
proof (rule kernel_inv_same [OF inv])
  show "static_same k (set_waiting ob [] (set_object ob w k))"
    by (rule static_same_kframe) (use ob w(1) kframe_set_object [of k ob w] in \<open>simp add: fresh_def\<close>)
qed (rule kinv_new_object [OF kernel_invD(1) [OF inv] ob w])

lemma register_thread_objects:
  "wait_objs (register_thread t c th k) = (wait_objs k)(t := WThread)"
  "waiting_threads (register_thread t c th k) = (waiting_threads k)(t := [])"
  "arbiter_threads (register_thread t c th k) = arbiter_threads k"
  by (simp_all add: register_thread_def)

lemma CreateThread_guards:
  assumes "CreateThread t entry p arg proc stack owner category v tls to_ready k = Some (k', Inr t)"
  shows "p \<le> 63" "proc \<le> 4" "v" "0 \<le> proc" "nat proc < length (managers k)" "nat proc < length (timers (timing k))"
proof -
  show 1: "p \<le> 63" "proc \<le> 4" "v"
    using assms by (auto simp: CreateThread_def ThreadPrioLowest_def split: if_splits)
  show "0 \<le> proc" "nat proc < length (managers k)" "nat proc < length (timers (timing k))"
    using assms by (auto simp: CreateThread_def Let_def split: if_splits)
qed

lemma push_ready_effect:
  assumes "push_ready t k = Some k'"
  shows "wait_objs k' = wait_objs k" "waiting_threads k' = waiting_threads k" "arbiter_threads k' = arbiter_threads k"
    "held_mutexes (threads k' t) = held_mutexes (threads k t)" "wait_objects (threads k' t) = wait_objects (threads k t)"
  using assms by (auto simp: push_ready_def on_queue_def bind_eq_Some_conv split: if_splits)

lemma CreateThread_effect:
  assumes run: "CreateThread t entry p arg proc stack owner category v tls to_ready k = Some (k', Inr t)"
  shows "\<exists>addr. tls = Inr addr" "wait_objs k' = (wait_objs k)(t := WThread)"
    "waiting_threads k' = (waiting_threads k)(t := [])" "held_mutexes (threads k' t) = []"
    "wait_objects (threads k' t) = []" "arbiter_threads k' = arbiter_threads k"
proof -
  note g = CreateThread_guards [OF run]
  let ?c = "nat proc"
  let ?th = "blank_thread\<lparr>thread_id := next_thread_id k, core_id := ?c, status := Dormant,
      entry_point := entry, stack_top := stack, nominal_priority := p,
      current_priority := p, last_running_ticks := timer_ticks (timers (timing k) ! ?c),
      processor_id := proc, owner_process := Some owner, resource_limit_category := category\<rparr>"
  let ?rest = "\<lambda>k. case tls of Inl e \<Rightarrow> Some (k, Inl e) | Inr addr \<Rightarrow> do {
      let k = upd_thread t (\<lambda>th. th\<lparr>tls_address := addr,
            context_regs := ResetThreadContext (context_regs th) stack entry arg\<rparr>) k;
      k \<leftarrow> (if to_ready then push_ready t k else Some k);
      Some (k, Inr t) }"
  from g run have "(on_queue ?c (\<lambda>q. prepare q p) k \<bind> (\<lambda>k2. ?rest (register_thread t ?c ?th k2))) =
      Some (k', Inr t)"
    unfolding CreateThread_def Let_def by (simp add: ThreadPrioLowest_def)
  then obtain k2 where k2: "on_queue ?c (\<lambda>q. prepare q p) k = Some k2" "?rest (register_thread t ?c ?th k2) = Some (k', Inr t)"
    by (auto elim!: bind_eq_SomeE)
  from k2(2) show addr: "\<exists>addr. tls = Inr addr"
    by (cases tls) simp_all
  then obtain addr where a: "tls = Inr addr"
    by blast
  let ?k3 = "upd_thread t (\<lambda>th. th\<lparr>tls_address := addr,
            context_regs := ResetThreadContext (context_regs th) stack entry arg\<rparr>) (register_thread t ?c ?th k2)"
  have "k' = ?k3 \<or> push_ready t ?k3 = Some k'"
    using k2(2) a by (cases to_ready) (auto elim!: bind_eq_SomeE)
  then have "wait_objs k' = wait_objs ?k3 \<and> waiting_threads k' = waiting_threads ?k3 \<and> arbiter_threads k' = arbiter_threads ?k3 \<and>
      held_mutexes (threads k' t) = held_mutexes (threads ?k3 t) \<and> wait_objects (threads k' t) = wait_objects (threads ?k3 t)"
    using push_ready_effect [of t ?k3 k'] by blast
  moreover have "wait_objs k2 = wait_objs k" "waiting_threads k2 = waiting_threads k" "arbiter_threads k2 = arbiter_threads k"
    using k2(1) by (auto simp: on_queue_def bind_eq_Some_conv split: if_splits)
  ultimately show "wait_objs k' = (wait_objs k)(t := WThread)"
    "waiting_threads k' = (waiting_threads k)(t := [])" "held_mutexes (threads k' t) = []"
    "wait_objects (threads k' t) = []" "arbiter_threads k' = arbiter_threads k"
    by (simp_all add: register_thread_objects register_thread_simps blank_thread_def)
qed

lemma CreateThread_step_ok:
  assumes inv: "kernel_inv k" and t: "fresh k t"
    and run: "CreateThread t entry p arg proc stack owner category v tls to_ready k = Some (k', Inr t)"
  shows "step_ok k k'"
proof -
  note K = kernel_invD [OF inv]
  note g = CreateThread_guards [OF run]
  note e = CreateThread_effect [OF run]
  from e(1) obtain addr where addr: "tls = Inr addr"
    by blast
  have nt: "\<not> is_thread k t"
    using t by (simp add: fresh_def)
  have c: "nat proc < 5" "p < 64" "int (nat proc) = proc"
    using g by simp_all
  obtain k2 where k2: "CreateThread t entry p arg (int (nat proc)) stack owner category True (Inr addr) to_ready k = Some (k2, Inr t)"
    "sched_inv k2" "is_thread k2 = (is_thread k)(t := True)" "\<And>u. u \<noteq> t \<Longrightarrow> threads k2 u = threads k u"
    "status (threads k2 t) = (if to_ready then Ready else Dormant)" "current_priority (threads k2 t) = p"
    "core_id (threads k2 t) = nat proc" "owner_process (threads k2 t) = Some owner" "unschedule_mode (threads k2 t) = 0"
    "length (managers k2) = length (managers k)" "timing k2 = timing k"
    "\<And>d. current_thread (managers k2 ! d) = current_thread (managers k ! d)"
    "limiter_inactive k2 \<longleftrightarrow> limiter_inactive k"
    by (rule CreateThread_spec [OF K(2) nt g(5) c(1) g(6) c(2), where entry = entry and arg = arg and stack = stack
        and owner = owner and category = category and addr = addr and to_ready = to_ready])
      (rule that, assumption+)
  have eq: "k2 = k'"
    using k2(1) run c(3) g(3) addr by simp
  note k' = k2(2-13) [unfolded eq]
  have tw: "t \<notin> set (waiting_threads k x)" for x
    using wait_invD(2) [OF K(3)] nt by blast
  have "wait_inv k'"
    unfolding wait_inv_def
  proof (intro conjI allI impI)
    fix x u assume u: "u \<in> set (waiting_threads k' x)"
    then have *: "u \<in> set (waiting_threads k x)" "u \<noteq> t"
      using tw by (auto simp: e(3) split: if_splits)
    then show "is_thread k' u" "x \<in> set (wait_objects (threads k' u))" "waits_on_objects (status (threads k' u))"
      "\<And>a. wakeup_callback (threads k' u) \<noteq> Some (ArbiterCallback a)"
      using wait_invD(2-5) [OF K(3) *(1)] by (simp_all add: k'(2,3))
  next
    fix u assume "is_thread k' u" "status (threads k' u) = WaitSynchAll"
    then show "distinct (wait_objects (threads k' u))"
      using wait_invD(6) [OF K(3), of u] k'(2,3,4) e(5) by (cases "u = t") auto
  qed (use wait_invD(1) [OF K(3)] in \<open>simp add: e(3)\<close>)
  moreover have "mutex_inv k'"
  proof -
    have nh: "t \<notin> set (held_mutexes (threads k u))" if "is_thread k u" for u
      using t that by (simp add: fresh_def)
    have h: "u \<noteq> t" if "wait_objs k x = WMutex m" "holding_thread m = Some u" for x m u
      using mutex_inv_holder [OF K(4) that] nt by auto
    have s: "sorted_wrt (<) (held_mutexes (threads k' u))" for u
      using K(4) k'(3) e(4) by (cases "u = t") (simp_all add: mutex_inv_def)
    show ?thesis
      using K(4) unfolding mutex_inv_def
      by (auto simp: e(2,4) k'(2,3) s h split: if_splits) (use h nh k'(3) in \<open>(metis)+\<close>)
  qed
  moreover have "static_ok k'"
  proof -
    have "current_ok d k'" if "d < length (managers k)" for d
      using K(7) [OF that] nt by (auto simp: current_ok_def k'(2,3,11))
    moreover have "waits_on_objects (status (threads k' u)) \<or> wait_objects (threads k' u) = []" if "is_thread k' u" for u
      using that K(5) e(5) k'(2,3) by (cases "u = t") (auto simp: static_ok_def)
    moreover have "owner_process (threads k' u) \<noteq> None" if "is_thread k' u" for u
      using that K(9) k'(2,3,7) by (cases "u = t") auto
    ultimately show ?thesis
      using K(5) k'(9,10,12) by (simp add: static_ok_def)
  qed
  moreover have "arb_same k k'"
    using nt k'(2,3,4) by (auto simp: arb_same_def e(6) split: if_splits)
  ultimately show ?thesis
    using k'(1) by (simp add: kernel_inv_def kinv_def step_ok_def)
qed

section \<open>Timeouts\<close>

lemma ResumeFromWait_arbiters:
  "ResumeFromWait t k = Some k' \<Longrightarrow> arbiter_threads k' = arbiter_threads k \<and> is_thread k' = is_thread k"
  by (auto simp: ResumeFromWait_def make_ready_def push_ready_def on_queue_def bind_eq_Some_conv is_thread_def fun_eq_iff
      split: ThreadStatus.splits if_splits)

text \<open>A timeout takes the thread out of the arbiter it waits for.\<close>

definition timeout_arbiters :: "nat \<Rightarrow> 'm kernel \<Rightarrow> nat \<Rightarrow> nat list" where
  "timeout_arbiters t k =
     (case wakeup_callback (threads k t) of
        Some (ArbiterCallback a) \<Rightarrow>
          if wakes_by_timeout (status (threads k t)) then (arbiter_threads k)(a := removeAll t (arbiter_threads k a))
          else arbiter_threads k
      | _ \<Rightarrow> arbiter_threads k)"

lemma WakeUp_Timeout_arbiters:
  "WakeUp Timeout t ob k = Some k' \<Longrightarrow> wakes_by_timeout (status (threads k t)) \<Longrightarrow>
   arbiter_threads k' = timeout_arbiters t k"
  by (auto simp: WakeUp_def timeout_arbiters_def SetWaitSynchronizationResult_def
      split: option.splits wakeup_callback.splits)

lemma ResumeFromWait_kinv:
  assumes inv: "kinv k" and t: "is_thread k t" "wait_objects (threads k t) = []"
  obtains k' where "ResumeFromWait t k = Some k'" "kinv k'" "static_same k k'"
    "waiting_threads k' = waiting_threads k" "\<And>u. u \<noteq> t \<Longrightarrow> threads k' u = threads k u"
    "status (threads k' t) = (if resumable (status (threads k t)) then Ready else status (threads k t))"
proof -
  note I = kinv_parts [OF inv]
  have tw: "t \<notin> set (waiting_threads k x)" for x
    using wait_invD(3) [OF I(2)] t(2) by fastforce
  show thesis
  proof (rule ResumeFromWait_spec [OF I(1) t])
    assume "\<not> resumable (status (threads k t))" "ResumeFromWait t k = Some k"
    with inv that [of k] show thesis
      by (simp add: static_same_kframe)
  next
    fix q
    let ?k = "PrepareReschedule (set_queue (core_id (threads k t)) q
        (upd_thread t (\<lambda>th. th\<lparr>wakeup_callback := None, status := Ready\<rparr>) k))"
    assume r: "resumable (status (threads k t))" "ResumeFromWait t k = Some ?k" "sched_inv ?k"
    have "wait_inv ?k"
      using I(2) tw by (auto simp: wait_inv_def)
    moreover have "mutex_inv ?k"
      by (rule mutex_inv_cong [OF I(3)]) (use r(1) in \<open>auto simp: resumable_def\<close>)
    moreover have "static_same k ?k"
      using t(2) by (simp add: static_same_def map_update_same manager_core_def)
    ultimately show thesis
      using r by (intro that [of ?k]) (simp_all add: kinv_def)
  qed
qed

lemma ThreadWakeupCallback_spec:
  assumes inv: "kernel_inv k" and t: "wakeup_callback_table (managers k ! c) tid = Some t" "is_thread k t"
  obtains k' where "ThreadWakeupCallback c tid k = Some k'" "kernel_inv k'"
    "status (threads k' t) = (if resumable (status (threads k t)) then Ready else status (threads k t))"
    "\<And>x. resumable (status (threads k t)) \<Longrightarrow> t \<notin> set (waiting_threads k' x)"
    "\<And>u. u \<noteq> t \<Longrightarrow> core_of (threads k' u) = core_of (threads k u)"
    "arbiter_threads k' = timeout_arbiters t k" "is_thread k' = is_thread k"
proof -
  note K = kernel_invD [OF inv]
  have w: "\<not> waits_on_objects (status (threads k t)) \<Longrightarrow> wait_objects (threads k t) = []"
    using K(5) t(2) by (auto simp: static_ok_def)
  have gone: "t \<notin> set (waiting_threads k'' x)" if "wait_inv k''" "wait_objects (threads k'' t) = []" for k'' :: "'a kernel" and x
    using wait_invD(3) [OF that(1), of t x] that(2) by auto
  show thesis
  proof (cases "wakes_by_timeout (status (threads k t))")
    case False
    then have "wait_objects (threads k t) = []"
      using w by (auto simp: wakes_by_timeout_def waits_on_objects_def)
    from ResumeFromWait_kinv [OF K(1) t(2) this] obtain k' where k': "ResumeFromWait t k = Some k'" "kinv k'"
      "static_same k k'" "waiting_threads k' = waiting_threads k" "\<And>u. u \<noteq> t \<Longrightarrow> threads k' u = threads k u"
      "status (threads k' t) = (if resumable (status (threads k t)) then Ready else status (threads k t))"
      by blast
    have "t \<notin> set (waiting_threads k x)" for x
      by (rule gone [OF K(3) \<open>wait_objects (threads k t) = []\<close>])
    moreover have "timeout_arbiters t k = arbiter_threads k"
      using False by (simp add: timeout_arbiters_def split: option.split wakeup_callback.split)
    ultimately show thesis
      using False t k' ResumeFromWait_arbiters [OF k'(1)]
      by (intro that [OF _ kernel_inv_same [OF inv k'(3,2)] k'(6)]) (simp_all add: ThreadWakeupCallback_def)
  next
    case True
    obtain k1 where k1: "WakeUp Timeout t 0 k = Some k1" "kinv k1" "waiting_threads k1 = waiting_threads k"
      "is_thread k1 = is_thread k" "wait_objs k1 = wait_objs k" "\<And>u. core_of (threads k1 u) = core_of (threads k u)"
      "rest_same k k1 \<or> (\<exists>ar. k1 = k\<lparr>arbiter_threads := ar\<rparr>)"
      by (rule WakeUp_Timeout_frame [OF K(1), of t 0]) (assumption | rule that)+
    obtain k2 where k2: "leave_objects t k1 = Some k2" "kinv k2" "rest_same k1 k2"
      "\<And>u. core_of (threads k2 u) = core_of (if u = t then (threads k1 u)\<lparr>wait_objects := []\<rparr> else threads k1 u)"
      "\<And>x. waiting_threads k2 x = removeAll t (waiting_threads k1 x)"
      by (rule leave_objects_kinv [OF k1(2), of t]) (assumption | rule that)+
    have c2: "core_of (threads k2 u) = core_of (if u = t then (threads k u)\<lparr>wait_objects := []\<rparr> else threads k u)" for u
      using k2(4) [of u] k1(6) [of u] core_of_leave [OF k1(6) [of t]] by auto
    have st2: "status (threads k2 t) = status (threads k t)" "wait_objects (threads k2 t) = []"
      using core_of_eqD(1,2) [OF c2 [of t]] by simp_all
    have is2: "is_thread k2 = is_thread k"
      using rest_same_static(1) [OF k2(3)] k1(4) by simp
    have s2: "static_same k k2"
    proof -
      have "core_id (threads k2 u) = core_id (threads k u)" "owner_process (threads k2 u) = owner_process (threads k u)" for u
        using core_of_eqD(4,7) [OF c2 [of u]] by (simp_all split: if_splits)
      moreover have "wait_objects (threads k2 u) = [] \<or> status (threads k2 u) = status (threads k u) \<and>
          wait_objects (threads k2 u) = wait_objects (threads k u)" for u
        using core_of_eqD(1,2) [OF c2 [of u]] by (simp split: if_splits)
      moreover have "map manager_core (managers k1) = map manager_core (managers k)" "timing k1 = timing k"
        using k1(7) rest_same_static(2,3) by auto
      ultimately show ?thesis
        using rest_same_static [OF k2(3)] is2 by (simp add: static_same_def)
    qed
    have "is_thread k2 t"
      using t(2) is2 by simp
    from ResumeFromWait_kinv [OF k2(2) this st2(2)] obtain k' where k': "ResumeFromWait t k2 = Some k'" "kinv k'"
      "static_same k2 k'" "waiting_threads k' = waiting_threads k2" "\<And>u. u \<noteq> t \<Longrightarrow> threads k' u = threads k2 u"
      "status (threads k' t) = (if resumable (status (threads k2 t)) then Ready else status (threads k2 t))"
      by blast
    have "kernel_inv k2"
      by (rule kernel_inv_same [OF inv s2 k2(2)])
    then have "kernel_inv k'"
      by (rule kernel_inv_same [OF _ k'(3,2)])
    moreover have "ThreadWakeupCallback c tid k = Some k'"
      using t True k1(1) k2(1) k'(1) by (simp add: ThreadWakeupCallback_def)
    moreover have "t \<notin> set (waiting_threads k' x)" for x
      using k'(4) k2(5) by simp
    moreover have "core_of (threads k' u) = core_of (threads k u)" if "u \<noteq> t" for u
      using k'(5) [OF that] c2 [of u] that by simp
    moreover have "arbiter_threads k' = timeout_arbiters t k" "is_thread k' = is_thread k"
      using ResumeFromWait_arbiters [OF k'(1)] WakeUp_Timeout_arbiters [OF k1(1) True] k2(3) is2 by (simp_all add: rest_same_def)
    ultimately show thesis
      using that k'(6) st2(1) by simp
  qed
qed

text \<open>A thread that waits at an arbiter without a timeout has no wakeup event; any other timeout keeps the arbiters in order.\<close>

lemma ThreadWakeupCallback_arb_inv:
  assumes inv: "kernel_inv k" and arb: "arb_inv k"
    and t: "wakeup_callback_table (managers k ! c) tid = Some t" "is_thread k t"
      "status (threads k t) = WaitArb \<Longrightarrow> wakeup_callback (threads k t) \<noteq> None"
    and run: "ThreadWakeupCallback c tid k = Some k'"
  shows "arb_inv k'"
proof -
  obtain k'' where k'': "ThreadWakeupCallback c tid k = Some k''"
    "status (threads k'' t) = (if resumable (status (threads k t)) then Ready else status (threads k t))"
    "\<And>u. u \<noteq> t \<Longrightarrow> core_of (threads k'' u) = core_of (threads k u)"
    "arbiter_threads k'' = timeout_arbiters t k" "is_thread k'' = is_thread k"
    by (rule ThreadWakeupCallback_spec [OF inv t(1,2)]) blast
  have eq: "k'' = k'"
    using k''(1) run by simp
  note k' = k''(3-5) [unfolded eq]
  have st: "status (threads k' t) \<noteq> WaitArb"
    using k''(2) [unfolded eq] by (auto simp: resumable_def)
  have gone: "arbiter_threads k' a = removeAll t (arbiter_threads k a)" for a
  proof (cases "t \<in> set (arbiter_threads k a)")
    case True
    with arb_invD(3,4) [OF arb True] t(3) show ?thesis
      by (simp add: k'(2) timeout_arbiters_def wakes_by_timeout_def)
  next
    case False
    then show ?thesis
      by (auto simp: k'(2) timeout_arbiters_def split: option.split wakeup_callback.split)
  qed
  have "status (threads k' u) = status (threads k u)" "wakeup_callback (threads k' u) = wakeup_callback (threads k u)" if "u \<noteq> t" for u
    using core_of_eqD(2,3) [OF k'(1) [OF that]] by simp_all
  note o = this
  have "\<exists>a. u \<in> set (arbiter_threads k' a)" if u: "is_thread k u" "status (threads k' u) = WaitArb" for u
  proof -
    have ut: "u \<noteq> t"
      using st u(2) by auto
    from arb_invD(6) [OF arb u(1)] u(2) o(1) [OF ut] ut show ?thesis
      by (auto simp: gone)
  qed
  with arb o show ?thesis
    unfolding arb_inv_def k'(3) by (auto simp: gone distinct_removeAll)
qed

section \<open>Every operation keeps the invariant\<close>

lemma step_ok_woken:
  assumes "kernel_inv k" "woke_all ob k k' ws"
  shows "step_ok k k'"
proof -
  have "woken (set ws) k k'" "kinv k'"
    using assms(2) by (simp_all add: woke_all_def)
  then show ?thesis
    using kernel_inv_same [OF assms(1) static_same_woken] arb_same_woken [OF kernel_invD(3) [OF assms(1)]]
    by (simp add: step_ok_def)
qed

lemma step_ok_set_object:
  assumes "kernel_inv k" "mutex_view (wait_objs k ob) = None" "wait_objs k ob \<noteq> WThread" "mutex_view w = None" "w \<noteq> WThread"
  shows "step_ok k (set_object ob w k)"
  by (rule step_ok_kframe [OF assms(1) kframe_set_object])
    (use assms kinv_set_object [OF kernel_invD(1)] in \<open>simp_all add: is_thread_def\<close>)

lemma static_same_fields:
  assumes "threads k' = threads k" "is_thread k' = is_thread k" "managers k' = managers k"
    "length (timers (timing k')) = length (timers (timing k))" "current_timer (timing k') = current_timer (timing k)"
  shows "static_same k k'"
  by (simp add: static_same_def assms)

lemma event_Signal_step_ok:
  assumes inv: "kernel_inv k" and run: "event_Signal ob k = Some k'"
  shows "step_ok k k'"
proof -
  from run obtain e where e: "wait_objs k ob = WEvent e"
    by (auto simp: event_Signal_def split: wait_object.splits)
  let ?k = "set_object ob (WEvent (e\<lparr>event_signaled := True\<rparr>)) k"
  obtain k'' ws where "event_Signal ob k = Some k''" "woke_all ob ?k k'' ws"
    by (rule event_Signal_spec [OF kernel_invD(1) [OF inv] e])
  moreover have "step_ok k ?k"
    by (rule step_ok_set_object [OF inv]) (simp_all add: e mutex_view_def)
  ultimately show ?thesis
    using run step_ok_trans [OF _ step_ok_woken] step_okD(1) by fastforce
qed

lemma event_Clear_step_ok:
  assumes inv: "kernel_inv k" and run: "event_Clear ob k = Some k'"
  shows "step_ok k k'"
  using run by (auto simp: event_Clear_def mutex_view_def split: wait_object.splits
      intro!: step_ok_set_object [OF inv])

lemma semaphore_Release_step_ok:
  assumes inv: "kernel_inv k" and run: "semaphore_Release ob n k = Some (k', r)"
  shows "step_ok k k'"
proof -
  from run obtain s where s: "wait_objs k ob = WSemaphore s" "in_s32 (n + available_count s)"
    by (auto simp: semaphore_Release_def split: wait_object.splits if_splits)
  show ?thesis
  proof (cases "n + available_count s \<le> max_count s")
    case False
    with s run step_ok_refl [OF inv] show ?thesis
      by (simp add: semaphore_Release_def)
  next
    case True
    let ?k = "set_object ob (WSemaphore (s\<lparr>available_count := available_count s + n\<rparr>)) k"
    obtain k'' ws where "semaphore_Release ob n k = Some (k'', Inr (available_count s))" "woke_all ob ?k k'' ws"
      by (rule semaphore_Release_spec [OF kernel_invD(1) [OF inv] s True])
    moreover have "step_ok k ?k"
      by (rule step_ok_set_object [OF inv]) (simp_all add: s mutex_view_def)
    ultimately show ?thesis
      using run step_ok_trans [OF _ step_ok_woken] step_okD(1) by fastforce
  qed
qed

lemma mutex_Release_step_ok:
  assumes inv: "kernel_inv k" and run: "mutex_Release ob t k = Some (k', r)"
  shows "step_ok k k'"
proof -
  note K = kernel_invD [OF inv]
  from run obtain m where m: "wait_objs k ob = WMutex m"
    by (auto simp: mutex_Release_def split: wait_object.splits)
  show ?thesis
  proof (cases "holding_thread m = Some t")
    case False
    with m run step_ok_refl [OF inv] show ?thesis by (simp add: mutex_Release_def)
  next
    case True
    show ?thesis
    proof (rule mutex_Release_spec [OF K(1) m True])
      fix k'' assume k'': "mutex_Release ob t k = Some (k'', ResultSuccess)" "kinv k''"
        "k'' = set_object ob (WMutex (m\<lparr>lock_count := lock_count m - 1\<rparr>)) k"
      have "kframe k k''"
        unfolding k''(3) by (rule kframe_set_object) (simp add: m is_thread_def)
      with run k''(1,2) show ?thesis
        using step_ok_kframe [OF inv] by simp
    next
      fix k'' k1 m' ws
      assume k'': "mutex_Release ob t k = Some (k'', ResultSuccess)" "kinv k1" "kframe k k1" "woke_all ob k1 k'' ws"
      have "step_ok k k1"
        by (rule step_ok_kframe [OF inv k''(3,2)])
      with k''(1,4) run step_ok_trans [OF _ step_ok_woken] step_okD(1) show ?thesis by fastforce
    qed
  qed
qed

lemma Acquire_step_ok:
  assumes inv: "kernel_inv k" and t: "is_thread k t" "\<not> ShouldWait k ob t" and run: "Acquire ob t k = Some k'"
  shows "step_ok k k'"
proof -
  obtain k'' where "Acquire ob t k = Some k''" "kinv k''" "kframe k k''"
    by (rule Acquire_kinv [OF kernel_invD(1) [OF inv] t])
  with run step_ok_kframe [OF inv] show ?thesis by simp
qed

lemma step_ok_asleep:
  assumes "kernel_inv k" "asleep t obs st b k k'" "st = WaitSynchAny \<or> st = WaitSynchAll" "kinv k'"
    "status (threads k t) = Running"
  shows "step_ok k k'"
  unfolding step_ok_def
  by (intro conjI kernel_inv_same [OF assms(1) static_same_asleep [OF assms(2)] assms(4)] arb_same_asleep [OF assms(2)])
    (use assms(3,5) in \<open>auto simp: waits_on_objects_def\<close>)

lemma WaitSynchronization1_step_ok:
  assumes inv: "kernel_inv k" and t: "running_thread k = Some t" "status (threads k t) = Running"
    and run: "WaitSynchronization1 get_wait h ns k = Some (k', r)"
  shows "step_ok k k'"
proof -
  note K = kernel_invD [OF inv]
  note th = running_is_thread [OF inv t(1)]
  show ?thesis
  proof (cases "get_wait h")
    case None
    with run step_ok_refl [OF inv] show ?thesis by (simp add: WaitSynchronization1_def)
  next
    case (Some ob)
    show ?thesis
    proof (cases "ShouldWait k ob t")
      case False
      with Some t run obtain k2 where "Acquire ob t k = Some k2" "k' = k2"
        by (auto simp: WaitSynchronization1_def bind_eq_Some_conv)
      with Acquire_step_ok [OF inv th False] show ?thesis by simp
    next
      case True
      show ?thesis
      proof (cases "ns = 0")
        case True
        with Some t run step_ok_refl [OF inv] \<open>ShouldWait k ob t\<close> show ?thesis
          by (simp add: WaitSynchronization1_def)
      next
        case False
        obtain k2 where "WaitSynchronization1 get_wait h ns k = Some (k2, ResultTimeout)" "kinv k2"
          "asleep t [ob] WaitSynchAny False k k2"
          by (rule WaitSynchronization1_sleeps [where get_wait = get_wait and h = h, OF K(1) th t(2) K(6) Some t(1) True False])
        with run step_ok_asleep [OF inv] t(2) show ?thesis by auto
      qed
    qed
  qed
qed

lemma WaitSynchronizationN_step_ok:
  assumes inv: "kernel_inv k" and t: "running_thread k = Some t" "status (threads k t) = Running"
    and d: "\<And>obs. wait_all \<Longrightarrow> lookup_objects get_wait (handles_at Read32 (memory k) addr (nat n)) = Some obs \<Longrightarrow> distinct obs"
    and run: "WaitSynchronizationN get_wait Read32 valid addr n wait_all ns k = Some (k', r, out)"
  shows "step_ok k k'"
proof -
  note K = kernel_invD [OF inv]
  note th = running_is_thread [OF inv t(1)]
  show ?thesis
  proof (cases "valid \<and> n \<ge> 0 \<and> lookup_objects get_wait (handles_at Read32 (memory k) addr (nat n)) \<noteq> None")
    case False
    with run step_ok_refl [OF inv] show ?thesis
      by (auto simp: WaitSynchronizationN_def split: if_splits option.splits)
  next
    case True
    then obtain obs where obs: "lookup_objects get_wait (handles_at Read32 (memory k) addr (nat n)) = Some obs"
      by blast
    have sl: "step_ok k k'" if r: "sleep_on t obs st b ns k = Some k'" and s: "st = WaitSynchAny \<or> st = WaitSynchAll \<and> distinct obs" for st b
    proof -
      obtain k2 where "sleep_on t obs st b ns k = Some k2" "kinv k2" "asleep t obs st b k k2"
        by (rule sleep_on_spec [OF K(1) th t(2) K(6) s])
      with r s step_ok_asleep [OF inv] t(2) show ?thesis by auto
    qed
    show ?thesis
    proof (cases wait_all)
      case wa: True
      with True obs t run have W: "wait_all_objects t obs ns k = Some (k', r, out)"
        by (simp add: WaitSynchronizationN_def)
      show ?thesis
      proof (cases "\<forall>ob \<in> set obs. \<not> ShouldWait k ob t")
        case True
        then obtain k2 where k2: "for_each (\<lambda>ob. Acquire ob t) obs k = Some k2" "kinv k2" "kframe k k2"
          using Acquire_all_kinv [OF K(1) th d [OF wa obs]] by blast
        with W True step_ok_kframe [OF inv k2(3)] show ?thesis
          by (simp add: wait_all_objects_def)
      next
        case False
        with W step_ok_refl [OF inv] sl [of WaitSynchAll False] d [OF wa obs] show ?thesis
          by (auto simp: wait_all_objects_def bind_eq_Some_conv split: if_splits)
      qed
    next
      case wa: False
      with True obs t run have W: "wait_any_object t obs ns k = Some (k', r, out)"
        by (simp add: WaitSynchronizationN_def)
      show ?thesis
      proof (cases "find_index (\<lambda>ob. \<not> ShouldWait k ob t) obs")
        case None
        with W step_ok_refl [OF inv] sl [of WaitSynchAny True] show ?thesis
          by (auto simp: wait_any_object_def bind_eq_Some_conv split: if_splits)
      next
        case (Some i)
        with W Acquire_step_ok [OF inv th] find_index_Some [OF Some] show ?thesis
          by (auto simp: wait_any_object_def bind_eq_Some_conv)
      qed
    qed
  qed
qed

text \<open>The invariant alone.\<close>

lemmas kernel_inv_woken = step_okD(1) [OF step_ok_woken]
lemmas kernel_inv_set_object = step_okD(1) [OF step_ok_set_object]
lemmas event_Signal_kernel_inv = step_okD(1) [OF event_Signal_step_ok]
lemmas semaphore_Release_kernel_inv = step_okD(1) [OF semaphore_Release_step_ok]
lemmas mutex_Release_kernel_inv = step_okD(1) [OF mutex_Release_step_ok]
lemmas Acquire_kernel_inv = step_okD(1) [OF Acquire_step_ok]
lemmas WaitSynchronization1_kernel_inv = step_okD(1) [OF WaitSynchronization1_step_ok]
lemmas WaitSynchronizationN_kernel_inv = step_okD(1) [OF WaitSynchronizationN_step_ok]

lemma kernel_inv_timing:
  assumes "kernel_inv k" "length (timers tm) = length (timers (timing k))" "current_timer tm = current_timer (timing k)"
  shows "kernel_inv (k\<lparr>timing := tm\<rparr>)"
  by (rule kernel_inv_same [OF assms(1) static_same_fields])
    (use assms kernel_invD(1) [OF assms(1)] in \<open>simp_all add: is_thread_def fun_eq_iff kinv_same [of "k\<lparr>timing := tm\<rparr>" k]\<close>)

lemma ExitCurrentThread_spec:
  assumes inv: "kernel_inv k" and c: "c < length (managers k)" "current_thread (managers k ! c) = Some t"
    and t: "status (threads k t) = Running" "tls_ok t k"
  obtains k' k1 W where "ExitCurrentThread c k = Some k'" "step_ok k k'" "stopped t W k k1"
    "k' = PrepareReschedule (upd_manager c (\<lambda>m. m\<lparr>thread_list := removeAll t (thread_list m)\<rparr>) k1)"
proof -
  note K = kernel_invD [OF inv]
  have th: "is_thread k t"
    using K(7) [OF c(1)] c(2) by (simp add: current_ok_def)
  have st: "status (threads k t) \<noteq> Dead" "\<not> waits_on_objects (status (threads k t))"
    using t(1) by (simp_all add: waits_on_objects_def)
  obtain k1 W where k1: "thread_Stop t k = Some k1" "kinv k1" "stopped t W k k1"
    by (rule thread_Stop_spec [OF K(1) th st t(2)])
  let ?k = "PrepareReschedule (upd_manager c (\<lambda>m. m\<lparr>thread_list := removeAll t (thread_list m)\<rparr>) k1)"
  have i1: "kernel_inv k1"
    by (rule kernel_inv_same [OF inv static_same_stopped [OF k1(3)] k1(2)])
  have "kinv ?k"
    using k1(2) kinv_same [of ?k k1] by (simp add: map_update_same)
  moreover have "static_ok ?k"
  proof -
    note S = kernel_invD [OF i1]
    have l: "limiter_inactive ?k"
      using S(10) limiter_inactive_cong [of ?k k1] by (simp add: map_update_same manager_limits_def)
    have "current_ok d ?k" if "d < length (managers k1)" for d
      using S(7) [OF that] by (simp add: current_ok_def nth_update_same)
    with l S(5) show ?thesis
      by (simp add: static_ok_def)
  qed
  moreover have "arb_same k1 ?k"
    by (rule arb_same_fields) simp_all
  then have "arb_same k ?k"
    using arb_same_trans [OF arb_same_stopped [OF K(3) k1(3)]] t(1) by simp
  ultimately show thesis
    using that [of ?k W k1] k1(1,3) c(2) by (simp add: ExitCurrentThread_def kernel_inv_def step_ok_def)
qed

end
