(* ===== verification/Address_Arbiter.thy ===== *)
theory Address_Arbiter
  imports Kernel_Steps "HOL-Library.Multiset"
begin

text \<open>
  Address arbiters (\<open>core/hle/kernel/address_arbiter.cpp\<close>): threads wait until another thread signals
  an address, or a timeout passes. The list of an arbiter holds the waiting threads in the order of
  their arrival. The guest's memory is reached by \<open>Read32\<close> and \<open>Write32\<close>, parameters here.
\<close>

section \<open>Waiting and resuming\<close>

definition CreateAddressArbiter :: "nat \<Rightarrow> 'm kernel \<Rightarrow> 'm kernel" where
  "CreateAddressArbiter a k = k\<lparr>arbiter_threads := (arbiter_threads k)(a := [])\<rparr>"

definition set_arbiter :: "nat \<Rightarrow> nat list \<Rightarrow> 'm kernel \<Rightarrow> 'm kernel" where
  "set_arbiter a ts k = k\<lparr>arbiter_threads := (arbiter_threads k)(a := ts)\<rparr>"

definition WaitThread :: "nat \<Rightarrow> nat \<Rightarrow> u32 \<Rightarrow> 'm kernel \<Rightarrow> 'm kernel" where
  "WaitThread a t address k =
     (let k = upd_thread t (\<lambda>th. th\<lparr>wait_address := address, status := WaitArb\<rparr>) k
      in set_arbiter a (arbiter_threads k a @ [t]) k)"

text \<open>\<open>std::stable_partition\<close>, whose predicate asserts that every listed thread waits for an arbiter: the
  threads of other addresses, then those of this address.\<close>

definition partition_waiting :: "nat \<Rightarrow> u32 \<Rightarrow> 'm kernel \<Rightarrow> (nat list \<times> nat list) option" where
  "partition_waiting a address k = do {
     assertion (\<forall>t \<in> set (arbiter_threads k a). status (threads k t) = WaitArb);
     Some (filter (\<lambda>t. wait_address (threads k t) \<noteq> address) (arbiter_threads k a),
           filter (\<lambda>t. wait_address (threads k t) = address) (arbiter_threads k a)) }"

definition ResumeAllThreads :: "nat \<Rightarrow> u32 \<Rightarrow> 'm kernel \<Rightarrow> ('m kernel \<times> nat) option" where
  "ResumeAllThreads a address k = do {
     (others, matches) \<leftarrow> partition_waiting a address k;
     let num_threads = length matches;
     k \<leftarrow> for_each ResumeFromWait matches (set_arbiter a (others @ matches) k);
     Some (set_arbiter a others k, num_threads) }"

text \<open>\<open>std::min_element\<close>: the first of the smallest.\<close>

fun min_element :: "('a \<Rightarrow> nat) \<Rightarrow> 'a list \<Rightarrow> 'a option" where
  "min_element f [] = None"
| "min_element f (x # xs) = Some (foldl (\<lambda>b y. if f y < f b then y else b) x xs)"

definition ResumeHighestPriorityThread :: "nat \<Rightarrow> u32 \<Rightarrow> 'm kernel \<Rightarrow> ('m kernel \<times> bool) option" where
  "ResumeHighestPriorityThread a address k = do {
     (others, matches) \<leftarrow> partition_waiting a address k;
     let k = set_arbiter a (others @ matches) k;
     (case min_element (\<lambda>t. current_priority (threads k t)) matches of
        None \<Rightarrow> Some (k, False)
      | Some t \<Rightarrow> do {
          k \<leftarrow> ResumeFromWait t k;
          Some (set_arbiter a (others @ remove1 t matches) k, True) }) }"

text \<open>The loop that resumes the first \<open>n\<close> threads, counting those it resumed.\<close>

fun resume_loop :: "nat \<Rightarrow> u32 \<Rightarrow> nat \<Rightarrow> 'm kernel \<times> nat \<Rightarrow> ('m kernel \<times> nat) option" where
  "resume_loop a address 0 (k, num_threads) = Some (k, num_threads)"
| "resume_loop a address (Suc n) (k, num_threads) = do {
     (k, woke) \<leftarrow> ResumeHighestPriorityThread a address k;
     resume_loop a address n (k, num_threads + (if woke then 1 else 0)) }"

section \<open>Arbitration\<close>

datatype ArbitrationType =
  ASignal | WaitIfLessThan | DecrementAndWaitIfLessThan | WaitIfLessThanWithTimeout |
  DecrementAndWaitIfLessThanWithTimeout

definition arbitration_type :: "u32 \<Rightarrow> ArbitrationType option" where
  "arbitration_type v =
     (if v = 0 then Some ASignal
      else if v = 1 then Some WaitIfLessThan
      else if v = 2 then Some DecrementAndWaitIfLessThan
      else if v = 3 then Some WaitIfLessThanWithTimeout
      else if v = 4 then Some DecrementAndWaitIfLessThanWithTimeout
      else None)"

definition has_timeout :: "ArbitrationType \<Rightarrow> bool" where
  "has_timeout ty \<longleftrightarrow> ty = WaitIfLessThanWithTimeout \<or> ty = DecrementAndWaitIfLessThanWithTimeout"

definition decrements :: "ArbitrationType \<Rightarrow> bool" where
  "decrements ty \<longleftrightarrow> ty = DecrementAndWaitIfLessThan \<or> ty = DecrementAndWaitIfLessThanWithTimeout"

text \<open>\<open>kernel.current_cpu->GetTimer().AddTicks\<close>.\<close>

definition AddCpuTicks :: "nat \<Rightarrow> 'm kernel \<Rightarrow> 'm kernel" where
  "AddCpuTicks ticks k =
     k\<lparr>timing := (timing k)\<lparr>timers := (timers (timing k))
         [current_timer (timing k) := AddTicks ticks (timers (timing k) ! current_timer (timing k))]\<rparr>\<rparr>"

definition arbitrate_signal :: "nat \<Rightarrow> nat \<Rightarrow> u32 \<Rightarrow> int \<Rightarrow> 'm kernel \<Rightarrow> 'm kernel option" where
  "arbitrate_signal a t address v k = do {
     (k, num_threads) \<leftarrow> (if v < 0 then ResumeAllThreads a address k
                           else resume_loop a address (nat v) (k, 0));
     Some (if num_threads = 0 \<and> current_priority (threads k t) \<ge> 49 then AddCpuTicks 1614 k else k) }"

text \<open>
  The four waiting modes: compare, decrement if asked for (the word wraps where C++ overflows), set up
  the timeout if asked for, and wait.
\<close>

definition arbitrate_wait ::
  "('m \<Rightarrow> u32 \<Rightarrow> u32) \<Rightarrow> ('m \<Rightarrow> u32 \<Rightarrow> u32 \<Rightarrow> 'm) \<Rightarrow> ArbitrationType \<Rightarrow> nat \<Rightarrow> nat \<Rightarrow> u32 \<Rightarrow> int \<Rightarrow> int \<Rightarrow>
   'm kernel \<Rightarrow> 'm kernel option" where
  "arbitrate_wait Read32 Write32 ty a t address v nanoseconds k =
     (let memory_value = Read32 (memory k) address in
      if sint memory_value < v then do {
        let k = (if decrements ty then k\<lparr>memory := Write32 (memory k) address (memory_value - 1)\<rparr> else k);
        k \<leftarrow> (if has_timeout ty
             then WakeAfterDelay t nanoseconds False
                    (upd_thread t (\<lambda>th. th\<lparr>wakeup_callback := Some (ArbiterCallback a)\<rparr>) k)
             else Some k);
        Some (WaitThread a t address k) }
      else Some k)"

definition ArbitrateAddress ::
  "('m \<Rightarrow> u32 \<Rightarrow> u32) \<Rightarrow> ('m \<Rightarrow> u32 \<Rightarrow> u32 \<Rightarrow> 'm) \<Rightarrow> nat \<Rightarrow> nat \<Rightarrow> u32 \<Rightarrow> u32 \<Rightarrow> int \<Rightarrow> int \<Rightarrow>
   'm kernel \<Rightarrow> ('m kernel \<times> u32) option" where
  "ArbitrateAddress Read32 Write32 a t ty address v nanoseconds k =
     (case arbitration_type ty of
        None \<Rightarrow> Some (k, ResultInvalidEnumValueFnd)
      | Some ASignal \<Rightarrow> do { k \<leftarrow> arbitrate_signal a t address v k; Some (k, ResultSuccess) }
      | Some ty \<Rightarrow> do {
          k \<leftarrow> arbitrate_wait Read32 Write32 ty a t address v nanoseconds k;
          Some (k, if has_timeout ty then ResultTimeout else ResultSuccess) })"

text \<open>The system call; \<open>value\<close> arrives as \<open>u32\<close>.\<close>

definition svc_ArbitrateAddress ::
  "('m \<Rightarrow> u32 \<Rightarrow> u32) \<Rightarrow> ('m \<Rightarrow> u32 \<Rightarrow> u32 \<Rightarrow> 'm) \<Rightarrow> (u32 \<Rightarrow> nat option) \<Rightarrow> u32 \<Rightarrow> u32 \<Rightarrow> u32 \<Rightarrow> u32 \<Rightarrow> int \<Rightarrow>
   'm kernel \<Rightarrow> ('m kernel \<times> u32) option" where
  "svc_ArbitrateAddress Read32 Write32 get_arbiter handle address ty v nanoseconds k =
     (case get_arbiter handle of
        None \<Rightarrow> Some (k, ResultInvalidHandle)
      | Some a \<Rightarrow> do {
          t \<leftarrow> running_thread k;
          (k, r) \<leftarrow> ArbitrateAddress Read32 Write32 a t ty address (sint v) nanoseconds k;
          Some (PrepareReschedule k, r) })"

section \<open>What the arbiters promise\<close>

definition waiting_at :: "'m kernel \<Rightarrow> nat \<Rightarrow> u32 \<Rightarrow> nat list" where
  "waiting_at k a address = filter (\<lambda>t. wait_address (threads k t) = address) (arbiter_threads k a)"

definition waiting_elsewhere :: "'m kernel \<Rightarrow> nat \<Rightarrow> u32 \<Rightarrow> nat list" where
  "waiting_elsewhere k a address = filter (\<lambda>t. wait_address (threads k t) \<noteq> address) (arbiter_threads k a)"

lemma partition_waiting_returns:
  "arb_inv k \<Longrightarrow> partition_waiting a address k = Some (waiting_elsewhere k a address, waiting_at k a address)"
  by (auto simp: partition_waiting_def waiting_at_def waiting_elsewhere_def assertion_def dest: arb_invD)

lemma set_arbiter_simps [simp]:
  "threads (set_arbiter a ts k) = threads k" "wait_objs (set_arbiter a ts k) = wait_objs k"
  "waiting_threads (set_arbiter a ts k) = waiting_threads k" "managers (set_arbiter a ts k) = managers k"
  "timing (set_arbiter a ts k) = timing k" "memory (set_arbiter a ts k) = memory k"
  "arbiter_threads (set_arbiter a ts k) = (arbiter_threads k)(a := ts)"
  "is_thread (set_arbiter a ts k) = is_thread k"
  by (simp_all add: set_arbiter_def is_thread_def fun_eq_iff)

lemma memory_updates [simp]:
  "memory (PrepareReschedule k) = memory k" "memory (upd_thread t f k) = memory k" "memory (set_queue c q k) = memory k"
  by (simp_all add: PrepareReschedule_def upd_thread_def set_queue_def upd_manager_def)

lemma set_arbiter_kernel_inv: "kernel_inv k \<Longrightarrow> kernel_inv (set_arbiter a ts k)"
  by (rule kernel_inv_same [OF _ static_same_fields])
    (use kernel_invD(1) [of k] in \<open>simp_all add: kinv_same [of "set_arbiter a ts k" k]\<close>)

section \<open>Resuming one waiting thread\<close>

text \<open>Everything but one thread's status and callback, the ready queues and the pending dispatch stays.\<close>

definition resumed :: "nat set \<Rightarrow> 'm kernel \<Rightarrow> 'm kernel \<Rightarrow> bool" where
  "resumed W k k' \<longleftrightarrow>
     (\<forall>u. threads k' u = (if u \<in> W then (threads k u)\<lparr>wakeup_callback := None, status := Ready\<rparr> else threads k u)) \<and>
     is_thread k' = is_thread k \<and> arbiter_threads k' = arbiter_threads k \<and> memory k' = memory k \<and> timing k' = timing k"

lemma resumed_empty [simp]: "resumed {} k k"
  by (simp add: resumed_def)

lemma resumed_step: "resumed W k k1 \<Longrightarrow> resumed {t} k1 k2 \<Longrightarrow> resumed (insert t W) k k2"
  by (auto simp: resumed_def)

lemma resume_waiting:
  assumes inv: "kernel_inv k" and t: "is_thread k t" "status (threads k t) = WaitArb"
  obtains k' where "ResumeFromWait t k = Some k'" "kernel_inv k'" "resumed {t} k k'"
proof -
  have w: "wait_objects (threads k t) = []"
    using kernel_invD(5) [OF inv] t by (auto simp: static_ok_def waits_on_objects_def)
  obtain k' where k': "ResumeFromWait t k = Some k'" "kinv k'" "static_same k k'"
    by (rule ResumeFromWait_kinv [OF kernel_invD(1) [OF inv] t(1) w]) blast
  have "resumed {t} k k'"
    using k'(1) t(2) w
    by (auto simp: ResumeFromWait_def make_ready_def push_ready_def on_queue_def bind_eq_Some_conv resumed_def
        is_thread_def fun_eq_iff split: if_splits)
  with that k' kernel_inv_same [OF inv k'(3,2)] show thesis by blast
qed

lemma resume_each:
  assumes "kernel_inv k" "distinct ts" "\<And>t. t \<in> set ts \<Longrightarrow> is_thread k t \<and> status (threads k t) = WaitArb"
  obtains k' where "for_each ResumeFromWait ts k = Some k'" "kernel_inv k'" "resumed (set ts) k k'"
  using assms
proof (induction ts arbitrary: k thesis)
  case Nil
  then show ?case by (simp add: Nil)
next
  case (Cons t ts)
  obtain k1 where k1: "ResumeFromWait t k = Some k1" "kernel_inv k1" "resumed {t} k k1"
    by (rule resume_waiting [OF Cons.prems(2), of t]) (use Cons.prems(4) in simp_all)
  have "is_thread k1 u \<and> status (threads k1 u) = WaitArb" if "u \<in> set ts" for u
    using Cons.prems(3,4) that k1(3) by (auto simp: resumed_def)
  then obtain k2 where k2: "for_each ResumeFromWait ts k1 = Some k2" "kernel_inv k2" "resumed (set ts) k1 k2"
    using Cons.IH [OF _ k1(2)] Cons.prems(3) by auto
  have "resumed (set (t # ts)) k k2"
    using k1(3) k2(3) Cons.prems(3) by (auto simp: resumed_def)
  with Cons.prems(1) k1 k2 show ?case by simp
qed

section \<open>Signalling\<close>

lemma arb_inv_resumed:
  assumes inv: "arb_inv k" and r: "resumed W k k'" and W: "set ts = set (arbiter_threads k a) - W" "distinct ts"
    "W \<subseteq> set (arbiter_threads k a)"
  shows "arb_inv (set_arbiter a ts k')"
proof -
  have "t \<notin> W" if "t \<in> set (arbiter_threads k b)" "b \<noteq> a" for t b
    using W(3) arb_invD(5) [OF inv] that by blast
  note other = this
  let ?k = "set_arbiter a ts k'"
  have th: "threads k' u = threads k u" if "u \<notin> W" for u
    using r that by (simp add: resumed_def)
  have old: "t \<in> set (arbiter_threads k b)" "t \<notin> W" if "t \<in> set (arbiter_threads ?k b)" for t b
    using that other [of t b] r W(1) by (auto simp: resumed_def split: if_splits)
  have "\<exists>b. t \<in> set (arbiter_threads ?k b)" if t: "is_thread ?k t" "status (threads ?k t) = WaitArb" for t
  proof -
    have tW: "t \<notin> W" and k: "is_thread k t" "status (threads k t) = WaitArb"
      using t r by (auto simp: resumed_def split: if_splits)
    from arb_invD(6) [OF inv k] obtain b where "t \<in> set (arbiter_threads k b)" ..
    with tW W(1) r have "t \<in> set (arbiter_threads ?k b)"
      by (auto simp: resumed_def)
    then show ?thesis ..
  qed
  moreover have "distinct (arbiter_threads ?k b)" for b
    using arb_invD(1) [OF inv] W(2) r by (simp add: resumed_def)
  moreover have "is_thread ?k t \<and> status (threads ?k t) = WaitArb \<and>
      (wakeup_callback (threads ?k t) = None \<or> wakeup_callback (threads ?k t) = Some (ArbiterCallback b))"
    if "t \<in> set (arbiter_threads ?k b)" for t b
    using arb_invD(2-4) [OF inv old(1) [OF that]] th [OF old(2) [OF that]] r by (simp add: resumed_def)
  ultimately show ?thesis
    using arb_invD(5) [OF inv old(1) old(1)] unfolding arb_inv_def by blast
qed

text \<open>A signal with a negative value.\<close>

lemma ResumeAllThreads_spec:
  assumes inv: "kernel_inv k" and arb: "arb_inv k"
  obtains k' k1 where "ResumeAllThreads a address k = Some (k', length (waiting_at k a address))" "kernel_inv k'" "arb_inv k'"
    "k' = set_arbiter a (waiting_elsewhere k a address) k1" "resumed (set (waiting_at k a address)) k k1"
proof -
  let ?m = "waiting_at k a address" and ?o = "waiting_elsewhere k a address"
  let ?k = "set_arbiter a (?o @ ?m) k"
  have d: "distinct ?m" and m: "\<And>t. t \<in> set ?m \<Longrightarrow> is_thread ?k t \<and> status (threads ?k t) = WaitArb"
    using arb_invD [OF arb] by (auto simp: waiting_at_def)
  obtain k1 where k1: "for_each ResumeFromWait ?m ?k = Some k1" "kernel_inv k1" "resumed (set ?m) ?k k1"
    by (rule resume_each [OF set_arbiter_kernel_inv [OF inv] d m]) auto
  define k2 where "k2 = set_arbiter a (arbiter_threads k a) k1"
  have r: "resumed (set ?m) k k2"
    using k1(3) by (auto simp: resumed_def k2_def)
  have e: "set_arbiter a ?o k2 = set_arbiter a ?o k1"
    by (simp add: k2_def set_arbiter_def)
  have "arb_inv (set_arbiter a ?o k2)"
    by (rule arb_inv_resumed [OF arb r])
      (use arb_invD(1) [OF arb] in \<open>auto simp: waiting_elsewhere_def waiting_at_def\<close>)
  moreover have "ResumeAllThreads a address k = Some (set_arbiter a ?o k2, length ?m)"
    using k1(1) by (simp add: ResumeAllThreads_def partition_waiting_returns [OF arb] e)
  moreover have "kernel_inv (set_arbiter a ?o k2)"
    unfolding e by (rule set_arbiter_kernel_inv [OF k1(2)])
  ultimately show thesis
    using that r by blast
qed

lemma foldl_min:
  fixes f :: "'a \<Rightarrow> nat"
  assumes "foldl (\<lambda>b y. if f y < f b then y else b) x ys = m"
  shows "\<exists>pre post. x # ys = pre @ m # post \<and> (\<forall>y \<in> set pre. f m < f y) \<and> (\<forall>y \<in> set post. f m \<le> f y)"
  using assms
proof (induction ys arbitrary: m rule: rev_induct)
  case (snoc y ys)
  obtain b pre post where b: "b = foldl (\<lambda>b y. if f y < f b then y else b) x ys"
    "x # ys = pre @ b # post" "\<forall>y \<in> set pre. f b < f y" "\<forall>y \<in> set post. f b \<le> f y"
    using snoc.IH by blast
  show ?case
  proof (cases "f y < f b")
    case True
    with snoc.prems b(1) have "m = y" by simp
    moreover have "\<forall>z \<in> set (x # ys). f y < f z"
      unfolding b(2) using b(3,4) True by auto
    ultimately show ?thesis by (intro exI [of _ "x # ys"] exI [of _ "[]"]) simp
  next
    case False
    with snoc.prems b(1) have "m = b" by simp
    with b False show ?thesis by (intro exI [of _ pre] exI [of _ "post @ [y]"]) simp
  qed
next
  case Nil
  then show ?case by (intro exI [of _ "[]"] exI [of _ "[]"]) simp
qed

text \<open>Taking the first of the smallest away is one step of a stable sort.\<close>

lemma sort_key_min_element:
  assumes "min_element f xs = Some m"
  shows "m \<in> set xs" "sort_key f xs = m # sort_key f (remove1 m xs)"
proof -
  obtain x ys where "xs = x # ys" "foldl (\<lambda>b y. if f y < f b then y else b) x ys = m"
    using assms by (cases xs) auto
  from foldl_min [OF this(2)] this(1) obtain pre post
    where xs: "xs = pre @ m # post" "\<forall>y \<in> set pre. f m < f y" "\<forall>y \<in> set post. f m \<le> f y"
    by blast
  show "m \<in> set xs" by (simp add: xs)
  have "m \<notin> set pre"
    using xs(2) by auto
  then have r: "remove1 m xs = pre @ post"
    by (simp add: xs remove1_append)
  show "sort_key f xs = m # sort_key f (remove1 m xs)"
  proof (rule properties_for_sort_key)
    fix k assume "k \<in> set (m # sort_key f (remove1 m xs))"
    have "filter (\<lambda>x. f k = f x) pre = []" if "f k = f m"
      using that xs(2) by (auto simp: filter_empty_conv)
    moreover have "filter (\<lambda>x. f k = f x) (sort_key f (remove1 m xs)) = filter (\<lambda>x. f k = f x) (remove1 m xs)"
      by (simp only: eq_commute [of "f k"] sort_key_stable)
    ultimately show "filter (\<lambda>x. f k = f x) (m # sort_key f (remove1 m xs)) = filter (\<lambda>x. f k = f x) xs"
      unfolding r by (cases "f k = f m") (simp_all add: xs(1))
  next
    show "sorted (map f (m # sort_key f (remove1 m xs)))"
      unfolding r using xs(2,3) sorted_sort_key [of f "pre @ post"] by auto
  qed (use xs r in simp)
qed

text \<open>The threads in the order in which they are resumed: by priority, then by arrival.\<close>

definition resume_order :: "'m kernel \<Rightarrow> nat \<Rightarrow> u32 \<Rightarrow> nat list" where
  "resume_order k a address = sort_key (\<lambda>t. current_priority (threads k t)) (waiting_at k a address)"

lemma min_element_None [simp]: "min_element f xs = None \<longleftrightarrow> xs = []"
  by (cases xs) simp_all

lemma ResumeHighest_none:
  assumes arb: "arb_inv k" and "waiting_at k a address = []"
  shows "ResumeHighestPriorityThread a address k = Some (k, False)"
proof -
  have "waiting_elsewhere k a address = arbiter_threads k a"
    using assms(2) by (auto simp: waiting_at_def waiting_elsewhere_def filter_empty_conv filter_id_conv)
  then show ?thesis
    by (simp add: ResumeHighestPriorityThread_def partition_waiting_returns [OF arb] assms(2) set_arbiter_def)
qed

lemma ResumeHighest_some:
  assumes inv: "kernel_inv k" and arb: "arb_inv k" and ne: "waiting_at k a address \<noteq> []"
  obtains t k' k1 where "ResumeHighestPriorityThread a address k = Some (k', True)" "kernel_inv k'" "arb_inv k'"
    "t \<in> set (waiting_at k a address)" "resume_order k a address = t # resume_order k' a address" 
    "resumed {t} k k1" "k' = set_arbiter a (waiting_elsewhere k a address @ remove1 t (waiting_at k a address)) k1"
proof -
  let ?m = "waiting_at k a address" and ?o = "waiting_elsewhere k a address"
  let ?k = "set_arbiter a (?o @ ?m) k"
  from ne obtain t where t: "min_element (\<lambda>t. current_priority (threads k t)) ?m = Some t"
    by (cases "min_element (\<lambda>t. current_priority (threads k t)) ?m") auto
  note s = sort_key_min_element [OF t]
  have in_arb: "t \<in> set (arbiter_threads k a)" and wa: "wait_address (threads k t) = address"
    using s(1) by (auto simp: waiting_at_def)
  obtain k1 where k1: "ResumeFromWait t ?k = Some k1" "kernel_inv k1" "resumed {t} ?k k1"
    by (rule resume_waiting [of ?k t])
      (use arb_invD(2,3) [OF arb in_arb] set_arbiter_kernel_inv [OF inv] in simp_all)
  define k2 where "k2 = set_arbiter a (arbiter_threads k a) k1"
  have r: "resumed {t} k k2"
    using k1(3) by (auto simp: resumed_def k2_def)
  let ?l = "?o @ remove1 t ?m"
  have e: "set_arbiter a ?l k2 = set_arbiter a ?l k1"
    by (simp add: k2_def set_arbiter_def)
  have d: "distinct ?m" "distinct ?o" "set ?o \<subseteq> set (arbiter_threads k a) - {t}" "set ?m \<subseteq> set (arbiter_threads k a)"
      "set ?m \<inter> set ?o = {}" "set (arbiter_threads k a) \<subseteq> set ?m \<union> set ?o"
    using arb_invD(1) [OF arb] wa by (auto simp: waiting_at_def waiting_elsewhere_def)
  have "arb_inv (set_arbiter a ?l k2)"
    by (rule arb_inv_resumed [OF arb r]) (use d in_arb in auto)
  moreover have "ResumeHighestPriorityThread a address k = Some (set_arbiter a ?l k2, True)"
    using k1(1) t by (simp add: ResumeHighestPriorityThread_def partition_waiting_returns [OF arb] e)
  moreover have "kernel_inv (set_arbiter a ?l k2)"
    unfolding e by (rule set_arbiter_kernel_inv [OF k1(2)])
  moreover have "resume_order k a address = t # resume_order (set_arbiter a ?l k2) a address"
  proof -
    have wp: "wait_address (threads k2 u) = wait_address (threads k u)"
      "current_priority (threads k2 u) = current_priority (threads k u)" for u
      using r by (simp_all add: resumed_def)
    have "waiting_at (set_arbiter a ?l k2) a address = remove1 t ?m"
    proof -
      have "filter (\<lambda>t. wait_address (threads k t) = address) (?o @ remove1 t ?m) = remove1 t ?m"
        by (auto simp: waiting_at_def waiting_elsewhere_def filter_empty_conv filter_id_conv dest: subsetD [OF set_remove1_subset])
      then show ?thesis
        by (simp add: waiting_at_def [of "set_arbiter a ?l k2"] wp)
    qed
    with s(2) show ?thesis
      by (simp add: resume_order_def wp)
  qed
  ultimately show thesis
    using that s(1) r by blast
qed

text \<open>The same for any number of threads that leave the arbiter.\<close>

definition released :: "nat \<Rightarrow> nat set \<Rightarrow> 'm kernel \<Rightarrow> 'm kernel \<Rightarrow> bool" where
  "released a W k k' \<longleftrightarrow>
     (\<forall>u. threads k' u = (if u \<in> W then (threads k u)\<lparr>wakeup_callback := None, status := Ready\<rparr> else threads k u)) \<and>
     is_thread k' = is_thread k \<and> memory k' = memory k \<and> timing k' = timing k \<and>
     (\<forall>b. b \<noteq> a \<longrightarrow> arbiter_threads k' b = arbiter_threads k b) \<and>
     set (arbiter_threads k' a) = set (arbiter_threads k a) - W"

lemma released_empty [simp]: "released a {} k k"
  by (simp add: released_def)

lemma released_trans: "released a V k k1 \<Longrightarrow> released a W k1 k2 \<Longrightarrow> released a (V \<union> W) k k2"
  unfolding released_def by auto

lemma released_resumed:
  assumes "resumed W k k1" "set ts = set (arbiter_threads k a) - W"
  shows "released a W k (set_arbiter a ts k1)"
  using assms by (simp add: released_def resumed_def)

lemma resume_loop_spec:
  assumes "kernel_inv k" "arb_inv k"
  obtains k' where "resume_loop a address n (k, c) = Some (k', c + min n (length (resume_order k a address)))"
    "kernel_inv k'" "arb_inv k'" "released a (set (take n (resume_order k a address))) k k'"
  using assms
proof (induction n arbitrary: k c thesis)
  case 0
  then show ?case by (simp add: 0)
next
  case (Suc n)
  show ?case
  proof (cases "waiting_at k a address = []")
    case True
    note one = ResumeHighest_none [OF Suc.prems(3) True]
    have o: "resume_order k a address = []"
      by (simp add: resume_order_def True)
    obtain k' where "resume_loop a address n (k, c) = Some (k', c + min n (length (resume_order k a address)))"
      "kernel_inv k'" "arb_inv k'" "released a (set (take n (resume_order k a address))) k k'"
      by (rule Suc.IH [OF _ Suc.prems(2,3)])
    with Suc.prems(1) one o show ?thesis by simp
  next
    case False
    obtain t k1 k2 where one: "ResumeHighestPriorityThread a address k = Some (k1, True)" "kernel_inv k1" "arb_inv k1"
      "t \<in> set (waiting_at k a address)" "resume_order k a address = t # resume_order k1 a address"
      "resumed {t} k k2" "k1 = set_arbiter a (waiting_elsewhere k a address @ remove1 t (waiting_at k a address)) k2"
      by (rule ResumeHighest_some [OF Suc.prems(2,3) False])
    have "released a {t} k k1"
      unfolding one(7) by (rule released_resumed [OF one(6)])
        (use one(4) arb_invD(1) [OF Suc.prems(3)] in \<open>auto simp: waiting_at_def waiting_elsewhere_def\<close>)
    moreover obtain k' where k': "resume_loop a address n (k1, c + 1) = Some (k', c + 1 + min n (length (resume_order k1 a address)))"
      "kernel_inv k'" "arb_inv k'" "released a (set (take n (resume_order k1 a address))) k1 k'"
      by (rule Suc.IH [OF _ one(2,3)])
    ultimately have "released a (set (take (Suc n) (resume_order k a address))) k k'"
      using released_trans [of a "{t}" k k1] one(5) by simp
    moreover have "resume_loop a address (Suc n) (k, c) = Some (k', c + min (Suc n) (length (resume_order k a address)))"
      using one(1,5) k'(1) by simp
    ultimately show ?thesis
      using Suc.prems(1) k'(2,3) by blast
  qed
qed

text \<open>How many threads a signal with value \<open>v\<close> resumes.\<close>

definition signal_count :: "int \<Rightarrow> 'm kernel \<Rightarrow> nat \<Rightarrow> u32 \<Rightarrow> nat" where
  "signal_count v k a address =
     (if v < 0 then length (resume_order k a address) else min (nat v) (length (resume_order k a address)))"

definition signal_wakes :: "int \<Rightarrow> 'm kernel \<Rightarrow> nat \<Rightarrow> u32 \<Rightarrow> nat list" where
  "signal_wakes v k a address = take (signal_count v k a address) (resume_order k a address)"

text \<open>A signal without a waiter costs a thread of low priority some time.\<close>

definition signal_penalty :: "nat \<Rightarrow> nat list \<Rightarrow> 'm kernel \<Rightarrow> 'm kernel" where
  "signal_penalty t ws k = (if ws = [] \<and> current_priority (threads k t) \<ge> 49 then AddCpuTicks 1614 k else k)"

lemma resume_order_length [simp]: "length (resume_order k a address) = length (waiting_at k a address)"
  "set (resume_order k a address) = set (waiting_at k a address)"
  by (simp_all add: resume_order_def)

lemma arbitrate_signal_spec:
  assumes inv: "kernel_inv k" "arb_inv k"
  obtains k1 where "arbitrate_signal a t address v k = Some (signal_penalty t (signal_wakes v k a address) k1)"
    "kernel_inv k1" "arb_inv k1" "released a (set (signal_wakes v k a address)) k k1"
proof (cases "v < 0")
  case True
  obtain k' k1 where k': "ResumeAllThreads a address k = Some (k', length (waiting_at k a address))" "kernel_inv k'" "arb_inv k'"
    "k' = set_arbiter a (waiting_elsewhere k a address) k1" "resumed (set (waiting_at k a address)) k k1"
    by (rule ResumeAllThreads_spec [OF inv])
  have "released a (set (waiting_at k a address)) k k'"
    unfolding k'(4) by (rule released_resumed [OF k'(5)]) (auto simp: waiting_at_def waiting_elsewhere_def)
  moreover have w: "signal_wakes v k a address = resume_order k a address"
    by (simp add: signal_wakes_def signal_count_def True)
  moreover have "resume_order k a address = [] \<longleftrightarrow> length (waiting_at k a address) = 0"
    by (metis length_0_conv resume_order_length(1))
  ultimately show thesis
    using that [of k'] k'(1-3) True by (simp add: arbitrate_signal_def signal_penalty_def)
next
  case False
  obtain k' where k': "resume_loop a address (nat v) (k, 0) = Some (k', 0 + min (nat v) (length (resume_order k a address)))"
    "kernel_inv k'" "arb_inv k'" "released a (set (take (nat v) (resume_order k a address))) k k'"
    by (rule resume_loop_spec [OF inv])
  have w: "signal_wakes v k a address = take (nat v) (resume_order k a address)"
    by (simp add: signal_wakes_def signal_count_def False min_def)
  have "take (nat v) (resume_order k a address) = [] \<longleftrightarrow> min (nat v) (length (resume_order k a address)) = 0"
    by (simp only: length_0_conv [symmetric] length_take min.commute)
  with that [of k'] k' False show thesis
    unfolding w by (simp add: arbitrate_signal_def signal_penalty_def)
qed

section \<open>Waiting\<close>

definition put_to_wait :: "nat \<Rightarrow> nat \<Rightarrow> u32 \<Rightarrow> wakeup_callback option \<Rightarrow> 'm kernel \<Rightarrow> 'm kernel" where
  "put_to_wait a t address cb k = set_arbiter a (arbiter_threads k a @ [t])
     (upd_thread t (\<lambda>th. th\<lparr>wait_address := address, status := WaitArb, wakeup_callback := cb\<rparr>) k)"

lemma put_to_wait_simps [simp]:
  "threads (put_to_wait a t address cb k) = (threads k)(t := (threads k t)\<lparr>wait_address := address, status := WaitArb, wakeup_callback := cb\<rparr>)"
  "is_thread (put_to_wait a t address cb k) = is_thread k" "managers (put_to_wait a t address cb k) = managers k"
  "waiting_threads (put_to_wait a t address cb k) = waiting_threads k" "wait_objs (put_to_wait a t address cb k) = wait_objs k"
  "timing (put_to_wait a t address cb k) = timing k" "memory (put_to_wait a t address cb k) = memory k"
  "arbiter_threads (put_to_wait a t address cb k) = (arbiter_threads k)(a := arbiter_threads k a @ [t])"
  by (simp_all add: put_to_wait_def is_thread_def fun_eq_iff upd_thread_def)

lemma put_to_wait_kernel_inv:
  assumes inv: "kernel_inv k" and t: "is_thread k t" "status (threads k t) = Running"
  shows "kernel_inv (put_to_wait a t address cb k)"
proof (rule kernel_inv_same [OF inv])
  let ?k = "put_to_wait a t address cb k"
  have I: "sched_inv k" "wait_inv k" "mutex_inv k"
    using kernel_invD [OF inv] by simp_all
  have w: "wait_objects (threads k t) = []"
    using kernel_invD(5) [OF inv] t by (auto simp: static_ok_def waits_on_objects_def)
  then show "static_same k ?k"
    by (simp add: static_same_def)
  have nw: "t \<notin> set (waiting_threads k x)" for x
    by (rule wait_not_running [OF I(2) t(2)])
  have "sched_inv (upd_thread t (\<lambda>th. th\<lparr>wait_address := address, status := WaitArb, wakeup_callback := cb\<rparr>) k)"
    using t by (auto intro!: sched_inv_status [OF I(1)])
  then have "sched_inv ?k"
    unfolding put_to_wait_def by (subst sched_inv_same_threads) auto
  moreover have "wait_inv ?k"
    using I(2) nw by (auto simp: wait_inv_def)
  moreover have "mutex_inv ?k"
    using t by (intro mutex_inv_cong [OF I(3)]) auto
  ultimately show "kinv ?k"
    by (simp add: kinv_def)
qed

lemma put_to_wait_arb_inv:
  assumes "arb_inv k" "is_thread k t" "status (threads k t) = Running" "cb = None \<or> cb = Some (ArbiterCallback a)"
  shows "arb_inv (put_to_wait a t address cb k)"
proof -
  have n: "t \<notin> set (arbiter_threads k b)" for b
    using arb_invD(3) [OF assms(1)] assms(3) by fastforce
  let ?k = "put_to_wait a t address cb k"
  have "\<exists>b. u \<in> set (arbiter_threads ?k b)" if u: "is_thread ?k u" "status (threads ?k u) = WaitArb" for u
  proof (cases "u = t")
    case True
    then have "u \<in> set (arbiter_threads ?k a)" by simp
    then show ?thesis ..
  next
    case False
    with arb_invD(6) [OF assms(1), of u] u obtain b where "u \<in> set (arbiter_threads k b)" by auto
    then have "u \<in> set (arbiter_threads ?k b)" by auto
    then show ?thesis ..
  qed
  with n show ?thesis
    using arb_invD(1-5) [OF assms(1)] assms(2,4) unfolding arb_inv_def by (auto split: if_splits)
qed

text \<open>A thread that executes has no callback left, so a wait without timeout has none.\<close>

lemma running_no_callback:
  "kernel_inv k \<Longrightarrow> is_thread k t \<Longrightarrow> status (threads k t) = Running \<Longrightarrow> wakeup_callback (threads k t) = None"
  using thread_okD(5) [of k t] kernel_invD(2) [of k] by blast

text \<open>The state in which a thread begins to wait.\<close>

definition wait_callback :: "ArbitrationType \<Rightarrow> nat \<Rightarrow> wakeup_callback option" where
  "wait_callback ty a = (if has_timeout ty then Some (ArbiterCallback a) else None)"

definition wait_memory :: "('m \<Rightarrow> u32 \<Rightarrow> u32) \<Rightarrow> ('m \<Rightarrow> u32 \<Rightarrow> u32 \<Rightarrow> 'm) \<Rightarrow> ArbitrationType \<Rightarrow> u32 \<Rightarrow> 'm \<Rightarrow> 'm" where
  "wait_memory rd wr ty address m = (if decrements ty then wr m address (rd m address - 1) else m)"

lemma kernel_inv_memory [simp]: "kernel_inv (k\<lparr>memory := m\<rparr>) \<longleftrightarrow> kernel_inv k"
proof -
  have "kernel_inv (k\<lparr>memory := m\<rparr>)" if "kernel_inv k" for k :: "'a kernel" and m
    by (rule kernel_inv_same [OF that static_same_fields])
      (use kernel_invD(1) [OF that] in \<open>simp_all add: is_thread_def fun_eq_iff kinv_same [of "k\<lparr>memory := m\<rparr>" k]\<close>)
  from this [of "k\<lparr>memory := m\<rparr>" "memory k"] this [of k m] show ?thesis by auto
qed

lemma timing_eqD: "k\<lparr>timing := x\<rparr> = k\<lparr>timing := y\<rparr> \<Longrightarrow> x = y" "k = k\<lparr>timing := y\<rparr> \<Longrightarrow> y = timing k"
  by (auto dest: arg_cong [of _ _ timing])

lemma arbitrate_wait_sleeps:
  assumes inv: "kernel_inv k" and t: "is_thread k t" "status (threads k t) = Running"
    and less: "sint (rd (memory k) address) < v"
  obtains tm where "arbitrate_wait rd wr ty a t address v ns k =
      Some (put_to_wait a t address (wait_callback ty a)
        (k\<lparr>memory := wait_memory rd wr ty address (memory k), timing := tm\<rparr>))"
    "kernel_inv (k\<lparr>memory := wait_memory rd wr ty address (memory k), timing := tm\<rparr>)"
    "\<not> has_timeout ty \<longrightarrow> tm = timing k"
    "has_timeout ty \<longrightarrow> WakeAfterDelay t ns False k = Some (k\<lparr>timing := tm\<rparr>)"
proof -
  let ?k = "k\<lparr>memory := wait_memory rd wr ty address (memory k)\<rparr>"
  have m: "(if decrements ty then k\<lparr>memory := wr (memory k) address (rd (memory k) address - 1)\<rparr> else k) = ?k"
    by (simp add: wait_memory_def)
  have cb: "wakeup_callback (threads k t) = None"
    by (rule running_no_callback [OF inv t])
  show thesis
  proof (cases "has_timeout ty")
    case False
    have e: "WaitThread a t address ?k = put_to_wait a t address None ?k"
      using cb by (cases "threads k t") (simp add: WaitThread_def put_to_wait_def upd_thread_def set_arbiter_def)
    then have "arbitrate_wait rd wr ty a t address v ns k = Some (put_to_wait a t address None ?k)"
      using False less by (simp add: arbitrate_wait_def Let_def m)
    moreover have "?k\<lparr>timing := timing k\<rparr> = ?k" by simp
    ultimately show thesis
      using that [of "timing k"] False inv by (simp add: wait_callback_def)
  next
    case True
    let ?k1 = "upd_thread t (\<lambda>th. th\<lparr>wakeup_callback := Some (ArbiterCallback a)\<rparr>) ?k"
    obtain tm where tm: "WakeAfterDelay t ns False k = Some (k\<lparr>timing := tm\<rparr>)"
      "length (timers tm) = length (timers (timing k))" "current_timer tm = current_timer (timing k)"
      by (rule WakeAfterDelay_returns [OF kernel_invD(6) [OF inv]])
    have "WakeAfterDelay t ns False ?k1 = Some (?k1\<lparr>timing := tm\<rparr>)"
      using tm(1) by (cases "ns = - 1")
        (auto simp: WakeAfterDelay_def Let_def upd_thread_def bind_eq_Some_conv split: option.splits dest!: timing_eqD)
    moreover have "WaitThread a t address (?k1\<lparr>timing := tm\<rparr>) = put_to_wait a t address (Some (ArbiterCallback a)) (?k\<lparr>timing := tm\<rparr>)"
      by (cases "threads k t") (simp add: WaitThread_def put_to_wait_def upd_thread_def set_arbiter_def)
    ultimately have "arbitrate_wait rd wr ty a t address v ns k =
        Some (put_to_wait a t address (Some (ArbiterCallback a)) (?k\<lparr>timing := tm\<rparr>))"
      using True less by (simp add: arbitrate_wait_def Let_def m)
    moreover have "kernel_inv (?k\<lparr>timing := tm\<rparr>)"
      by (rule kernel_inv_timing) (use inv tm in simp_all)
    ultimately show thesis
      using that [of tm] True tm(1) by (simp add: wait_callback_def)
  qed
qed

lemma arbitrate_wait_passes:
  "\<not> sint (rd (memory k) address) < v \<Longrightarrow> arbitrate_wait rd wr ty a t address v ns k = Some k"
  by (simp add: arbitrate_wait_def Let_def)

section \<open>The invariants\<close>

lemma kernel_inv_updates:
  assumes "kernel_inv k"
  shows "kernel_inv (AddCpuTicks n k)" "kernel_inv (PrepareReschedule k)"
proof -
  show "kernel_inv (AddCpuTicks n k)"
    unfolding AddCpuTicks_def by (rule kernel_inv_timing [OF assms]) simp_all
  show "kernel_inv (PrepareReschedule k)"
    by (rule kernel_inv_same [OF assms static_same_fields])
      (use kernel_invD(1) [OF assms] in \<open>simp_all add: is_thread_def fun_eq_iff kinv_same [of "PrepareReschedule k" k]\<close>)
qed

lemma arb_inv_cong:
  assumes "arbiter_threads k' = arbiter_threads k" "threads k' = threads k" "is_thread k' = is_thread k"
  shows "arb_inv k' \<longleftrightarrow> arb_inv k"
  by (simp add: arb_inv_def assms)

lemma arb_inv_updates [simp]:
  "arb_inv (AddCpuTicks n k) \<longleftrightarrow> arb_inv k" "arb_inv (PrepareReschedule k) \<longleftrightarrow> arb_inv k"
  "arb_inv (k\<lparr>memory := m, timing := tm\<rparr>) \<longleftrightarrow> arb_inv k"
  by (rule arb_inv_cong; simp add: AddCpuTicks_def is_thread_def fun_eq_iff PrepareReschedule_def)+

lemma signal_penalty_inv: "kernel_inv k \<Longrightarrow> kernel_inv (signal_penalty t ws k)" "arb_inv (signal_penalty t ws k) \<longleftrightarrow> arb_inv k"
  by (simp_all add: signal_penalty_def kernel_inv_updates)

lemma arbitrate_wait_inv:
  assumes inv: "kernel_inv k" "arb_inv k" and t: "is_thread k t" "status (threads k t) = Running"
  obtains k' where "arbitrate_wait rd wr ty a t address v ns k = Some k'" "kernel_inv k'" "arb_inv k'"
proof (cases "sint (rd (memory k) address) < v")
  case False
  with that inv show thesis by (simp add: arbitrate_wait_passes)
next
  case True
  obtain tm where R: "arbitrate_wait rd wr ty a t address v ns k =
      Some (put_to_wait a t address (wait_callback ty a)
        (k\<lparr>memory := wait_memory rd wr ty address (memory k), timing := tm\<rparr>))"
    "kernel_inv (k\<lparr>memory := wait_memory rd wr ty address (memory k), timing := tm\<rparr>)"
    by (rule arbitrate_wait_sleeps [where ?rd = rd and ?wr = wr and a = a and ty = ty and ns = ns, OF inv(1) t True]) (rule that, assumption+)
  let ?k = "k\<lparr>memory := wait_memory rd wr ty address (memory k), timing := tm\<rparr>"
  have t': "is_thread ?k t" "status (threads ?k t) = Running"
    using t by (simp_all add: is_thread_def)
  have "arb_inv (put_to_wait a t address (wait_callback ty a) ?k)"
    by (rule put_to_wait_arb_inv [OF _ t']) (use inv(2) in \<open>simp_all add: wait_callback_def\<close>)
  with that R put_to_wait_kernel_inv [OF R(2) t'] show thesis by blast
qed

lemma ArbitrateAddress_inv:
  assumes inv: "kernel_inv k" "arb_inv k" and t: "is_thread k t" "status (threads k t) = Running"
  obtains k' r where "ArbitrateAddress rd wr a t ty address v ns k = Some (k', r)" "kernel_inv k'" "arb_inv k'"
proof -
  obtain k1 where "arbitrate_signal a t address v k = Some (signal_penalty t (signal_wakes v k a address) k1)"
    "kernel_inv k1" "arb_inv k1" "released a (set (signal_wakes v k a address)) k k1"
    by (rule arbitrate_signal_spec [OF inv])
  note S = this(1-3)
  show thesis
  proof (cases "arbitration_type ty")
    case None
    with that inv show thesis by (simp add: ArbitrateAddress_def)
  next
    case (Some m)
    obtain k2 where "arbitrate_wait rd wr m a t address v ns k = Some k2" "kernel_inv k2" "arb_inv k2"
      by (rule arbitrate_wait_inv [OF inv t])
    then have "\<exists>k' r. ArbitrateAddress rd wr a t ty address v ns k = Some (k', r) \<and> kernel_inv k' \<and> arb_inv k'"
      using S Some by (cases m) (simp_all add: ArbitrateAddress_def signal_penalty_inv)
    with that show thesis by blast
  qed
qed

lemma svc_ArbitrateAddress_inv:
  assumes inv: "kernel_inv k" "arb_inv k" and t: "running_thread k = Some t" "status (threads k t) = Running"
  obtains k' r where "svc_ArbitrateAddress rd wr get h address ty v ns k = Some (k', r)" "kernel_inv k'" "arb_inv k'"
proof (cases "get h")
  case None
  with that inv show thesis by (simp add: svc_ArbitrateAddress_def)
next
  case (Some a)
  obtain k1 r where R: "ArbitrateAddress rd wr a t ty address (sint v) ns k = Some (k1, r)" "kernel_inv k1" "arb_inv k1"
    by (rule ArbitrateAddress_inv [OF inv running_is_thread [OF inv(1) t(1)] t(2)])
  show thesis
    by (rule that [of "PrepareReschedule k1" r])
      (use R Some t in \<open>simp_all add: svc_ArbitrateAddress_def kernel_inv_updates\<close>)
qed

end
