(* ===== verification/Thread_Calls.thy ===== *)
theory Thread_Calls
  imports Address_Arbiter
begin

text \<open>
  The parts of the system calls \<open>SetThreadPriority\<close> and \<open>SleepThread\<close> that act on the kernel
  (\<open>core/hle/kernel/svc.cpp\<close>), and that they keep its invariant.
\<close>

section \<open>Operations\<close>

text \<open>The new priority, the thread's inherited priority, and the mutexes it waits for.\<close>

definition set_thread_priority :: "nat \<Rightarrow> nat \<Rightarrow> 'm kernel \<Rightarrow> 'm kernel option" where
  "set_thread_priority t priority k = do {
     k \<leftarrow> SetPriority t priority k;
     k \<leftarrow> UpdatePriority t k;
     k \<leftarrow> for_each mutex_UpdatePriority (pending_mutexes (threads k t)) k;
     Some (PrepareReschedule k) }"

text \<open>A sleep of no time only yields, and does nothing when no thread is ready.\<close>

definition SleepThread :: "int \<Rightarrow> 'm kernel \<Rightarrow> 'm kernel option" where
  "SleepThread nanoseconds k = do {
     let c = current_timer (timing k);
     have_ready \<leftarrow> HaveReadyThreads c k;
     if nanoseconds = 0 \<and> \<not> have_ready then Some k
     else do {
       k \<leftarrow> WaitCurrentThread_Sleep c k;
       t \<leftarrow> current_thread (managers k ! c);
       k \<leftarrow> WakeAfterDelay t nanoseconds False k;
       Some (PrepareReschedule k) } }"

section \<open>Priorities\<close>

lemma SetPriority_step_ok:
  assumes inv: "kernel_inv k" and t: "is_thread k t" and p: "p < 64"
  obtains k' where "SetPriority t p k = Some k'" "step_ok k k'"
    "threads k' = (threads k)(t := (threads k t)\<lparr>nominal_priority := p, current_priority := p\<rparr>)"
    "wait_objs k' = wait_objs k" "waiting_threads k' = waiting_threads k"
proof -
  note K = kernel_invD [OF inv]
  obtain q where q: "SetPriority t p k = Some (set_queue (core_id (threads k t)) q
      (upd_thread t (\<lambda>th. th\<lparr>nominal_priority := p, current_priority := p\<rparr>) k))"
    "sched_inv (set_queue (core_id (threads k t)) q
      (upd_thread t (\<lambda>th. th\<lparr>nominal_priority := p, current_priority := p\<rparr>) k))"
    by (rule SetPriority_spec [OF K(2) t p])
  let ?k = "set_queue (core_id (threads k t)) q (upd_thread t (\<lambda>th. th\<lparr>nominal_priority := p, current_priority := p\<rparr>) k)"
  have "wait_inv ?k"
    using K(3) by (auto simp: wait_inv_def)
  moreover have "mutex_inv ?k"
    by (rule mutex_inv_cong [OF K(4)]) auto
  moreover have "static_same k ?k"
    by (simp add: static_same_def map_update_same manager_core_def)
  moreover have "arb_same k ?k"
    by (auto simp: arb_same_def split: if_splits)
  ultimately have "step_ok k ?k"
    using q(2) kernel_inv_same [OF inv] by (simp add: step_ok_def kinv_def)
  with that [of ?k] q(1) show thesis
    by (simp add: upd_thread_def)
qed

lemma step_ok_pframe:
  assumes inv: "kernel_inv k" and p: "pframe k k'" and w: "waiting_threads k' = waiting_threads k"
  shows "step_ok k k'"
proof (rule step_ok_kframe [OF inv])
  show f: "kframe k k'"
    using p by (simp add: pframe_def)
  have "mutex_inv k'"
  proof (rule mutex_inv_cong [OF kernel_invD(4) [OF inv]])
    show "mutex_view (wait_objs k' ob) = mutex_view (wait_objs k ob)" for ob
      using p erase_prio_view [of "wait_objs k' ob"] erase_prio_view [of "wait_objs k ob"] by (simp add: pframe_def)
  qed (use p kframeD(1,4) [OF f] in \<open>simp_all add: pframe_def\<close>)
  with p wait_inv_same [OF kernel_invD(3) [OF inv] f w] show "kinv k'"
    by (simp add: kinv_def pframe_def)
qed

text \<open>The thread's own priority is the best of the new one and those of the mutexes it holds.\<close>

lemma UpdatePriority_step_ok:
  assumes inv: "kernel_inv k" and t: "is_thread k t"
  obtains k' where "UpdatePriority t k = Some k'" "step_ok k k'" "wait_objs k' = wait_objs k"
    "threads k' = (threads k)(t := (threads k t)\<lparr>current_priority :=
       best_priority (wait_objs k) (held_mutexes (threads k t)) (nominal_priority (threads k t))\<rparr>)"
proof -
  let ?p = "best_priority (wait_objs k) (held_mutexes (threads k t)) (nominal_priority (threads k t))"
  obtain q where q: "UpdatePriority t k =
      Some (set_queue (core_id (threads k t)) q (upd_thread t (\<lambda>th. th\<lparr>current_priority := ?p\<rparr>) k))"
    "sched_inv (set_queue (core_id (threads k t)) q (upd_thread t (\<lambda>th. th\<lparr>current_priority := ?p\<rparr>) k))"
    by (rule UpdatePriority_spec [OF kernel_invD(2) [OF inv] t refl])
  let ?k = "set_queue (core_id (threads k t)) q (upd_thread t (\<lambda>th. th\<lparr>current_priority := ?p\<rparr>) k)"
  have "kframe k ?k"
    by simp (rule kframe_upd_thread, simp add: core_of_def)
  then have "pframe k ?k"
    using q(2) by (simp add: pframe_def)
  then have "step_ok k ?k"
    by (rule step_ok_pframe [OF inv]) simp
  with that [of ?k] q(1) show thesis
    by (simp add: upd_thread_def)
qed

lemma mutex_holders_are_threads:
  "kernel_inv k \<Longrightarrow> \<forall>m h. wait_objs k ob = WMutex m \<longrightarrow> holding_thread m = Some h \<longrightarrow> is_thread k h"
  using mutex_inv_holder [OF kernel_invD(4), of k ob] by blast

lemma update_mutexes_step_ok:
  assumes "kernel_inv k"
  obtains k' where "for_each mutex_UpdatePriority obs k = Some k'" "step_ok k k'" "pframe k k'"
  using assms
proof (induction obs arbitrary: k thesis)
  case Nil
  then show ?case
    using step_ok_refl [of k] pframe_refl [of k] kernel_invD(2) [of k] by simp
next
  case (Cons ob obs)
  obtain k1 where k1: "mutex_UpdatePriority ob k = Some k1" "pframe k k1" "waiting_threads k1 = waiting_threads k"
    by (rule mutex_UpdatePriority_frame [OF kernel_invD(2) [OF Cons.prems(2)] mutex_holders_are_threads [OF Cons.prems(2)]])
  note s = step_ok_pframe [OF Cons.prems(2) k1(2,3)]
  obtain k2 where k2: "for_each mutex_UpdatePriority obs k1 = Some k2" "step_ok k1 k2" "pframe k1 k2"
    by (rule Cons.IH [OF _ step_okD(1) [OF s]])
  with Cons.prems(1) [OF _ step_ok_trans [OF s k2(2)] pframe_trans [OF k1(2) k2(3)]] k1(1) show ?case
    by simp
qed

lemma PrepareReschedule_step_ok: "kernel_inv k \<Longrightarrow> step_ok k (PrepareReschedule k)"
  by (simp add: step_ok_def kernel_inv_updates arb_same_fields is_thread_def fun_eq_iff)

lemma set_thread_priority_step_ok:
  assumes inv: "kernel_inv k" and t: "is_thread k t" and p: "p < 64"
  obtains k' where "set_thread_priority t p k = Some k'" "step_ok k k'"
    "\<And>u. nominal_priority (threads k' u) = (if u = t then p else nominal_priority (threads k u))"
    "\<And>u. status (threads k' u) = status (threads k u)"
proof -
  obtain k1 where k1: "SetPriority t p k = Some k1" "step_ok k k1"
    "threads k1 = (threads k)(t := (threads k t)\<lparr>nominal_priority := p, current_priority := p\<rparr>)"
    by (rule SetPriority_step_ok [OF assms])
  have t1: "is_thread k1 t"
    using step_okD(2) [OF k1(2)] t by (simp add: arb_same_def)
  obtain k2 where k2: "UpdatePriority t k1 = Some k2" "step_ok k1 k2"
    "threads k2 = (threads k1)(t := (threads k1 t)\<lparr>current_priority :=
       best_priority (wait_objs k1) (held_mutexes (threads k1 t)) (nominal_priority (threads k1 t))\<rparr>)"
    by (rule UpdatePriority_step_ok [OF step_okD(1) [OF k1(2)] t1])
  obtain k3 where k3: "for_each mutex_UpdatePriority (pending_mutexes (threads k2 t)) k2 = Some k3" "step_ok k2 k3" "pframe k2 k3"
    by (rule update_mutexes_step_ok [OF step_okD(1) [OF k2(2)]])
  have "step_ok k (PrepareReschedule k3)"
    using step_ok_trans [OF step_ok_trans [OF k1(2) k2(2)] k3(2)] PrepareReschedule_step_ok step_okD(1) step_ok_trans by blast
  moreover have "core_of (threads k3 u) = core_of (threads k2 u)" for u
    using k3(3) by (simp add: pframe_def kframe_def)
  note c = core_of_eqD(2,6) [OF this]
  have "nominal_priority (threads k3 u) = (if u = t then p else nominal_priority (threads k u))"
    "status (threads k3 u) = status (threads k u)" for u
    using c [of u] by (simp_all add: k1(3) k2(3))
  ultimately show thesis
    using that [of "PrepareReschedule k3"] k1(1) k2(1) k3(1) by (simp add: set_thread_priority_def)
qed

section \<open>Sleeping\<close>

lemma HaveReadyThreads_returns:
  assumes "kernel_inv k" "c < length (managers k)"
  shows "HaveReadyThreads c k = Some (best_level (datas (queue_of k c)) \<noteq> None)"
  using get_first_spec [of "queue_of k c"] queue_okD(1) [OF kernel_invD(2) [OF assms(1)] assms(2)]
  by (simp add: HaveReadyThreads_def)

text \<open>The running thread falls asleep, with a wakeup event unless it sleeps forever.\<close>

lemma SleepThread_step_ok:
  assumes inv: "kernel_inv k" and t: "running_thread k = Some t" "status (threads k t) = Running"
  obtains k' where "SleepThread ns k = Some k'" "step_ok k k'"
    "k' = k \<or> threads k' = (threads k)(t := (threads k t)\<lparr>status := WaitSleep\<rparr>)"
    "k' = k \<longleftrightarrow> ns = 0 \<and> best_level (datas (queue_of k (current_timer (timing k)))) = None"
proof -
  note K = kernel_invD [OF inv]
  let ?c = "current_timer (timing k)"
  have c: "?c < length (managers k)" "current_thread (managers k ! ?c) = Some t"
    using t(1) by (simp_all add: running_thread_def split: if_splits)
  have th: "is_thread k t"
    by (rule running_is_thread [OF inv t(1)])
  note h = HaveReadyThreads_returns [OF inv c(1)]
  show thesis
  proof (cases "ns = 0 \<and> best_level (datas (queue_of k ?c)) = None")
    case True
    with h that [of k] step_ok_refl [OF inv] show thesis
      by (simp add: SleepThread_def)
  next
    case False
    let ?k1 = "upd_thread t (\<lambda>th. th\<lparr>status := WaitSleep\<rparr>) k"
    have w: "wait_objects (threads k t) = []"
      using K(5) th t(2) by (auto simp: static_ok_def waits_on_objects_def)
    have nw: "t \<notin> set (waiting_threads k x)" for x
      by (rule wait_not_running [OF K(3) t(2)])
    have "sched_inv ?k1"
      using t(2) by (auto intro!: sched_inv_status [OF K(2)])
    moreover have "wait_inv ?k1"
      using K(3) nw by (auto simp: wait_inv_def)
    moreover have "mutex_inv ?k1"
      by (rule mutex_inv_cong [OF K(4)]) (use t(2) in auto)
    moreover have "static_same k ?k1"
      using w by (simp add: static_same_def)
    moreover have "arb_same k ?k1"
      using t(2) by (auto simp: arb_same_def)
    ultimately have s1: "step_ok k ?k1"
      using kernel_inv_same [OF inv] by (simp add: step_ok_def kinv_def)
    obtain tm where tm: "WakeAfterDelay t ns False ?k1 = Some (?k1\<lparr>timing := tm\<rparr>)"
      "length (timers tm) = length (timers (timing ?k1))" "current_timer tm = current_timer (timing ?k1)"
      by (rule WakeAfterDelay_returns [OF kernel_invD(6) [OF step_okD(1) [OF s1]]])
    have s2: "step_ok ?k1 (?k1\<lparr>timing := tm\<rparr>)"
      unfolding step_ok_def
      by (intro conjI kernel_inv_timing [OF step_okD(1) [OF s1] tm(2,3)] arb_same_fields) (simp_all add: is_thread_def fun_eq_iff)
    let ?k = "PrepareReschedule (?k1\<lparr>timing := tm\<rparr>)"
    have "step_ok k ?k"
      using step_ok_trans [OF s1 s2] PrepareReschedule_step_ok step_okD(1) step_ok_trans by blast
    moreover have "SleepThread ns k = Some ?k"
      using False h c tm(1) by (auto simp: SleepThread_def Let_def WaitCurrentThread_Sleep_def)
    moreover have "threads ?k = (threads k)(t := (threads k t)\<lparr>status := WaitSleep\<rparr>)"
      by (simp add: upd_thread_def)
    moreover have "?k \<noteq> k"
    proof
      assume "?k = k"
      then have "status (threads ?k t) = Running"
        using t(2) by simp
      then show False by simp
    qed
    ultimately show thesis
      using that [of ?k] False by blast
  qed
qed

end
