(* ===== verification/Kernel_Machine.thy ===== *)
theory Kernel_Machine
  imports Thread_Calls
begin

text \<open>
  The kernel as a transition system: one step is one operation that the emulator performs on it, by
  a system call of the running thread, by a service that signals an object, by a timer event or by
  the dispatcher. An operation is a step when it returns; that it does is shown per operation. What a
  process does to its thread-local storage slots and its resource limit is left open: \<open>process_data\<close>
  puts any value there, and \<open>guest_memory\<close> what the guest writes. A timeout may hit any thread at any time, except one that waits at an arbiter
  without a timeout: the dispatcher has cancelled its wakeup event when the thread last began to run.
\<close>

section \<open>Steps\<close>

text \<open>\<open>t\<close> executes guest code, so it can make system calls.\<close>

definition executes :: "'m kernel \<Rightarrow> nat \<Rightarrow> bool" where
  "executes k t \<longleftrightarrow> running_thread k = Some t \<and> status (threads k t) = Running"

inductive kernel_step :: "'m kernel \<Rightarrow> 'm kernel \<Rightarrow> bool" where
  select_core: "c < length (managers k) \<Longrightarrow>
    kernel_step k (k\<lparr>timing := SetCurrentTimer c (timing k)\<rparr>)"
| dispatch: "c < length (managers k) \<Longrightarrow> Reschedule c k = Some k' \<Longrightarrow> kernel_step k k'"
| new_thread: "fresh k t \<Longrightarrow>
    CreateThread t entry p arg processor stack owner category valid tls to_ready k = Some (k', Inr t) \<Longrightarrow>
    kernel_step k k'"
| new_event: "fresh k ob \<Longrightarrow> kernel_step k (CreateEvent ob reset k)"
| new_semaphore: "fresh k ob \<Longrightarrow> CreateSemaphore ob initial maximum k = (k', r) \<Longrightarrow> kernel_step k k'"
| new_timer: "fresh k ob \<Longrightarrow> kernel_step k (CreateTimer ob reset k)"
| new_mutex: "fresh k ob \<Longrightarrow> executes k t \<Longrightarrow> CreateMutex ob garbage initial_locked k = Some k' \<Longrightarrow>
    kernel_step k k'"
| wait_one: "executes k t \<Longrightarrow> WaitSynchronization1 get_wait h ns k = Some (k', r) \<Longrightarrow> kernel_step k k'"
| wait_many: "executes k t \<Longrightarrow>
    (wait_all \<Longrightarrow> \<forall>obs. lookup_objects get_wait (handles_at Read32 (memory k) addr (nat n)) = Some obs \<longrightarrow> distinct obs) \<Longrightarrow>
    WaitSynchronizationN get_wait Read32 valid addr n wait_all ns k = Some (k', r, out) \<Longrightarrow> kernel_step k k'"
| signal_event: "event_Signal ob k = Some k' \<Longrightarrow> kernel_step k k'"
| clear_event: "event_Clear ob k = Some k' \<Longrightarrow> kernel_step k k'"
| release_semaphore: "semaphore_Release ob amount k = Some (k', r') \<Longrightarrow> kernel_step k k'"
| release_mutex: "mutex_Release ob t k = Some (k', r) \<Longrightarrow> kernel_step k k'"
| exit_thread: "c < length (managers k) \<Longrightarrow> current_thread (managers k ! c) = Some t \<Longrightarrow>
    status (threads k t) = Running \<Longrightarrow> tls_ok t k \<Longrightarrow> ExitCurrentThread c k = Some k' \<Longrightarrow> kernel_step k k'"
| timeout: "wakeup_callback_table (managers k ! c) tid = Some t \<Longrightarrow> is_thread k t \<Longrightarrow>
    (status (threads k t) = WaitArb \<Longrightarrow> wakeup_callback (threads k t) \<noteq> None) \<Longrightarrow>
    ThreadWakeupCallback c tid k = Some k' \<Longrightarrow> kernel_step k k'"
| set_timer: "timer_Set ob initial interval k = Some k' \<Longrightarrow> kernel_step k k'"
| cancel_timer: "timer_Cancel ob k = Some k' \<Longrightarrow> kernel_step k k'"
| clear_timer: "timer_Clear ob k = Some k' \<Longrightarrow> kernel_step k k'"
| timer_fires: "TimerCallback cid late k = Some k' \<Longrightarrow> kernel_step k k'"
| new_arbiter: "arbiter_threads k a = [] \<Longrightarrow> kernel_step k (CreateAddressArbiter a k)"
| arbitrate: "executes k t \<Longrightarrow>
    svc_ArbitrateAddress Read32 Write32 get_arbiter h address ty v ns k = Some (k', r) \<Longrightarrow> kernel_step k k'"
| set_priority: "is_thread k t \<Longrightarrow> p < 64 \<Longrightarrow> set_thread_priority t p k = Some k' \<Longrightarrow> kernel_step k k'"
| sleep: "executes k t \<Longrightarrow> SleepThread ns k = Some k' \<Longrightarrow> kernel_step k k'"
| process_data: "kernel_step k (k\<lparr>tls_slots := slots, process_limit := limit, resource_limits := limits\<rparr>)"
| guest_memory: "kernel_step k (k\<lparr>memory := m\<rparr>)"
| failed_thread: "fresh k t \<Longrightarrow>
    CreateThread t entry p arg processor stack owner category valid tls to_ready k = Some (k', Inl e) \<Longrightarrow>
    kernel_step k k'"
| thread_context: "kernel_step k (upd_thread t (\<lambda>th. th\<lparr>context_regs := f (context_regs th)\<rparr>) k)"
| reschedule: "kernel_step k (PrepareReschedule k)"
| timer_end: "kernel_step k (k\<lparr>timer_callback_table := (timer_callback_table k)(i := None)\<rparr>)"

inductive reachable :: "'m kernel \<Rightarrow> bool" where
  start: "1 < n \<Longrightarrow> length (timers tm) = n \<Longrightarrow> current_timer tm < n \<Longrightarrow> reachable (new_kernel n tm limits m)"
| step: "reachable k \<Longrightarrow> kernel_step k k' \<Longrightarrow> reachable k'"

inductive_cases kernel_stepE: "kernel_step k k'"
inductive_simps reachable_iff: "reachable k"

section \<open>The initial state\<close>

lemma kernel_inv_new_kernel:
  assumes "1 < n" "length (timers tm) = n" "current_timer tm < n"
  shows "kernel_inv (new_kernel n tm limits m)"
proof -
  let ?k = "new_kernel n tm limits m"
  have nt: "\<not> is_thread ?k t" for t
    by (simp add: new_kernel_def is_thread_def)
  have f: "waiting_threads ?k x = []" "wait_objs ?k x \<noteq> WMutex mt" "held_mutexes (threads ?k x) = []"
    "length (managers ?k) = n" "timing ?k = tm" "c < n \<Longrightarrow> current_thread (managers ?k ! c) = None" for x mt c
    by (simp_all add: new_kernel_def blank_thread_def new_thread_manager_def)
  have m: "managers ?k = replicate n new_thread_manager"
    by (simp add: new_kernel_def)
  have "limiter_inactive ?k"
    using assms(1) by (simp add: limiter_inactive_def get_limiter_def GetCpuLimiter_def m new_thread_manager_def new_limiter_def)
  moreover have "kinv ?k"
    by (simp add: kinv_def sched_inv_new_kernel wait_inv_def mutex_inv_def nt f)
  ultimately show ?thesis
    using assms by (simp add: kernel_inv_def static_ok_def nt f current_ok_def)
qed

lemma arb_inv_new_kernel: "arb_inv (new_kernel n tm limits m)"
  by (simp add: arb_inv_def new_kernel_def is_thread_def)

section \<open>The invariant of all reachable states\<close>

lemma step_ok_new_object:
  assumes inv: "kernel_inv k" and ob: "fresh k ob" and w: "w \<noteq> WThread" "mutex_view w = None \<or> mutex_view w = Some (0, None)"
  shows "step_ok k (set_waiting ob [] (set_object ob w k))"
  unfolding step_ok_def
  by (intro conjI kernel_inv_new_object [OF assms] arb_same_fields)
    (use ob w in \<open>simp_all add: fresh_def is_thread_def fun_eq_iff\<close>)

lemma CreateTimer_step_ok:
  assumes inv: "kernel_inv k" and ob: "fresh k ob"
  shows "step_ok k (CreateTimer ob reset k)"
proof -
  let ?k = "k\<lparr>next_timer_callback_id := next_timer_callback_id k + 1,
      timer_callback_table := (timer_callback_table k)(next_timer_callback_id k + 1 \<mapsto> ob)\<rparr>"
  have th: "is_thread ?k = is_thread k"
    by (simp add: is_thread_def fun_eq_iff)
  have "kernel_inv ?k"
  proof (rule kernel_inv_same [OF inv])
    show "static_same k ?k"
      by (rule static_same_fields) (use th in simp_all)
    show "kinv ?k"
      using kernel_invD(1) [OF inv] kinv_same [of ?k k] by simp
  qed
  moreover have "arb_same k ?k"
    by (rule arb_same_fields) (use th in simp_all)
  moreover have "fresh ?k ob"
    using ob by (simp add: fresh_def th [simplified])
  ultimately have "step_ok k ?k" "kernel_inv ?k" "fresh ?k ob"
    by (simp_all add: step_ok_def)
  from step_ok_trans [OF this(1) step_ok_new_object [OF this(2,3)]] show ?thesis
    by (simp add: CreateTimer_def Let_def mutex_view_def)
qed

lemma CreateMutex_step_ok:
  assumes inv: "kernel_inv k" and ob: "fresh k ob" and t: "executes k t" and run: "CreateMutex ob g lock k = Some k'"
  shows "step_ok k k'"
proof -
  let ?k = "set_waiting ob [] (set_object ob (WMutex \<lparr>lock_count = 0, mutex_priority = g, holding_thread = None\<rparr>) k)"
  have s1: "step_ok k ?k"
    using inv ob by (auto intro: step_ok_new_object simp: mutex_view_def)
  note k1 = step_okD(1) [OF this]
  have rt: "running_thread ?k = Some t"
    using t by (simp add: executes_def running_thread_def split: if_splits)
  from running_is_thread [OF k1 rt] have th: "is_thread ?k t" .
  have free: "\<not> ShouldWait ?k ob t"
    by (simp add: ShouldWait_def)
  show ?thesis
  proof (cases lock)
    case False
    with run s1 show ?thesis by (simp add: CreateMutex_def Let_def)
  next
    case True
    with run rt have "Acquire ob t ?k = Some k'"
      by (simp add: CreateMutex_def Let_def)
    with step_ok_trans [OF s1 Acquire_step_ok [OF k1 th free]] show ?thesis .
  qed
qed

lemma step_ok_timing:
  assumes "kernel_inv k" "length (timers tm) = length (timers (timing k))" "current_timer tm = current_timer (timing k)"
  shows "step_ok k (k\<lparr>timing := tm\<rparr>)"
  unfolding step_ok_def using kernel_inv_timing [OF assms]
  by (intro conjI arb_same_fields) (simp_all add: is_thread_def fun_eq_iff)

lemma ScheduleEvent_keeps:
  assumes "ScheduleEvent c ty d None ts tm = Some tm'"
  shows "length (timers tm') = length (timers tm)" "current_timer tm' = current_timer tm"
  using assms by (auto simp: ScheduleEvent_def Let_def split: if_splits)

lemma schedule_step_ok:
  assumes "kernel_inv k" "schedule c ev d k = Some k'"
  shows "step_ok k k'"
  using assms(2) by (auto simp: schedule_def bind_eq_Some_conv
      intro!: step_ok_timing [OF assms(1)] dest: ScheduleEvent_keeps)

lemma timer_Signal_step_ok:
  assumes inv: "kernel_inv k" and run: "timer_Signal ob late k = Some k'"
  shows "step_ok k k'"
proof -
  from run obtain tm k1 where tm: "wait_objs k ob = WTimer tm"
    and k1: "WakeupAllWaitingThreads ob (set_object ob (WTimer (tm\<lparr>timer_signaled := True\<rparr>)) k) = Some k1"
    and k': "k' = k1 \<or> (\<exists>c d. schedule c TimerFired d k1 = Some k')"
    by (auto simp: timer_Signal_def bind_eq_Some_conv split: wait_object.splits if_splits)
  have s1: "step_ok k (set_object ob (WTimer (tm\<lparr>timer_signaled := True\<rparr>)) k)"
    by (rule step_ok_set_object [OF inv]) (simp_all add: tm mutex_view_def)
  note i1 = step_okD(1) [OF s1]
  obtain k2 ws where "WakeupAllWaitingThreads ob (set_object ob (WTimer (tm\<lparr>timer_signaled := True\<rparr>)) k) = Some k2"
    "woke_all ob (set_object ob (WTimer (tm\<lparr>timer_signaled := True\<rparr>)) k) k2 ws"
    by (rule WakeupAll_spec [OF kernel_invD(1) [OF i1]])
  with k1 step_ok_trans [OF s1 step_ok_woken [OF i1]] have s2: "step_ok k k1" by simp
  from k' show ?thesis
    using s2 step_ok_trans [OF s2 schedule_step_ok [OF step_okD(1) [OF s2]]] by blast
qed

lemma timer_Clear_step_ok: "kernel_inv k \<Longrightarrow> timer_Clear ob k = Some k' \<Longrightarrow> step_ok k k'"
  by (auto simp: timer_Clear_def mutex_view_def split: wait_object.splits intro: step_ok_set_object)

lemma timer_Cancel_step_ok: "kernel_inv k \<Longrightarrow> timer_Cancel ob k = Some k' \<Longrightarrow> step_ok k k'"
  by (auto simp: timer_Cancel_def UnscheduleEvent_def split: wait_object.splits intro: step_ok_timing)

lemma timer_Set_step_ok:
  assumes inv: "kernel_inv k" and run: "timer_Set ob initial interval k = Some k'"
  shows "step_ok k k'"
proof -
  from run obtain k1 where k1: "timer_Cancel ob k = Some k1"
    and rest: "(case wait_objs k1 ob of
         WTimer tm \<Rightarrow> do {
           let k = set_object ob (WTimer (tm\<lparr>initial_delay := initial mod 2 ^ 64, interval_delay := interval mod 2 ^ 64\<rparr>)) k1;
           if initial = 0 then timer_Signal ob 0 k
           else schedule (nsToCycles initial) TimerFired (callback_id tm) k }
       | _ \<Rightarrow> None) = Some k'"
    unfolding timer_Set_def bind_eq_Some_conv by blast
  from rest obtain tm where tm: "wait_objs k1 ob = WTimer tm"
    by (auto split: wait_object.splits)
  let ?k = "set_object ob (WTimer (tm\<lparr>initial_delay := initial mod 2 ^ 64, interval_delay := interval mod 2 ^ 64\<rparr>)) k1"
  have s: "timer_Signal ob 0 ?k = Some k' \<or> schedule (nsToCycles initial) TimerFired (callback_id tm) ?k = Some k'"
    using rest tm by (auto simp: Let_def split: if_splits)
  have "step_ok k1 ?k"
    by (rule step_ok_set_object [OF step_okD(1) [OF timer_Cancel_step_ok [OF inv k1]]]) (simp_all add: tm mutex_view_def)
  from step_ok_trans [OF timer_Cancel_step_ok [OF inv k1] this] have c: "step_ok k ?k" .
  note i = step_okD(1) [OF c]
  have "step_ok k k'" if "step_ok ?k k'"
    by (rule step_ok_trans [OF c that])
  moreover have "step_ok ?k k'"
    using s timer_Signal_step_ok [OF i] schedule_step_ok [OF i] by blast
  ultimately show ?thesis
    by blast
qed

lemma TimerCallback_step_ok: "kernel_inv k \<Longrightarrow> TimerCallback cid late k = Some k' \<Longrightarrow> step_ok k k'"
  by (auto simp: TimerCallback_def bind_eq_Some_conv intro: timer_Signal_step_ok)

lemma step_ok_outside:
  assumes inv: "kernel_inv k"
    and same: "threads k' = threads k" "wait_objs k' = wait_objs k" "waiting_threads k' = waiting_threads k"
      "managers k' = managers k" "timing k' = timing k" "arbiter_threads k' = arbiter_threads k"
  shows "step_ok k k'"
proof -
  have th: "is_thread k' = is_thread k"
    by (simp add: is_thread_def fun_eq_iff same)
  have "static_same k k'"
    by (rule static_same_fields) (use th same in simp_all)
  moreover have "kinv k'"
    using kernel_invD(1) [OF inv] kinv_same [of k' k] same by simp
  moreover have "arb_same k k'"
    by (rule arb_same_fields) (use th same in simp_all)
  ultimately show ?thesis
    using kernel_inv_same [OF inv] by (simp add: step_ok_def)
qed

lemma process_data_step_ok:
  assumes inv: "kernel_inv k"
  shows "step_ok k (k\<lparr>tls_slots := s, process_limit := p, resource_limits := r\<rparr>)"
  by (rule step_ok_outside [OF inv]) simp_all

text \<open>What the scheduler, the objects and the arbiters do not look at in a thread.\<close>

lemma step_ok_thread_data:
  assumes inv: "kernel_inv k"
  shows "step_ok k (upd_thread t (\<lambda>th. th\<lparr>tls_address := a th, context_regs := f th\<rparr>) k)"
proof -
  note K = kernel_invD [OF inv]
  let ?k = "upd_thread t (\<lambda>th. th\<lparr>tls_address := a th, context_regs := f th\<rparr>) k"
  have "sched_inv ?k"
    using K(2) by (subst sched_inv_cong [of ?k k]) auto
  moreover have "wait_inv ?k"
    using K(3) by (auto simp: wait_inv_def)
  moreover have "mutex_inv ?k"
    by (rule mutex_inv_cong [OF K(4)]) auto
  moreover have "static_same k ?k"
    by (simp add: static_same_def)
  moreover have "arb_same k ?k"
    by (auto simp: arb_same_def)
  ultimately show ?thesis
    using kernel_inv_same [OF inv] by (simp add: step_ok_def kinv_def)
qed

lemma thread_context_step_ok:
  "kernel_inv k \<Longrightarrow> step_ok k (upd_thread t (\<lambda>th. th\<lparr>context_regs := f (context_regs th)\<rparr>) k)"
  using step_ok_thread_data [of k t "\<lambda>th. f (context_regs th)" tls_address] by simp

text \<open>A thread whose storage could not be had is registered, and is never made ready.\<close>

lemma failed_thread_step_ok:
  assumes inv: "kernel_inv k" and t: "fresh k t"
    and run: "CreateThread t entry p arg proc stack owner category v tls to_ready k = Some (k', Inl e)"
  shows "step_ok k k'"
proof (cases "p > 63 \<or> proc > 4 \<or> \<not> v")
  case True
  with run step_ok_refl [OF inv] show ?thesis
    by (auto simp: CreateThread_def ThreadPrioLowest_def split: if_splits)
next
  case False
  let ?c = "nat proc"
  let ?th = "blank_thread\<lparr>thread_id := next_thread_id k, core_id := ?c, status := Dormant,
      entry_point := entry, stack_top := stack, nominal_priority := p,
      current_priority := p, last_running_ticks := timer_ticks (timers (timing k) ! ?c),
      processor_id := proc, owner_process := Some owner, resource_limit_category := category\<rparr>"
  let ?f = "\<lambda>th. th\<lparr>tls_address := 0, context_regs := ResetThreadContext (context_regs th) stack entry arg\<rparr>"
  from run False obtain k1 where k1: "on_queue ?c (\<lambda>q. prepare q p) k = Some k1" "k' = register_thread t ?c ?th k1"
    "0 \<le> proc" "?c < length (managers k)" "?c < length (timers (timing k))"
    by (cases tls; auto simp: CreateThread_def ThreadPrioLowest_def Let_def bind_eq_Some_conv split: if_splits)
  have "CreateThread t entry p arg proc stack owner category True (Inr 0) False k = Some (upd_thread t ?f k', Inr t)"
    using False k1 by (simp add: CreateThread_def ThreadPrioLowest_def Let_def)
  from CreateThread_step_ok [OF inv t this] have s: "step_ok k (upd_thread t ?f k')" .
  have eq: "upd_thread t (\<lambda>th. th\<lparr>tls_address := 0, context_regs := empty_context\<rparr>) (upd_thread t ?f k') = k'"
    by (simp add: k1(2) upd_thread_def register_thread_simps(1) blank_thread_def register_thread_def)
  from step_ok_trans [OF s step_ok_thread_data [OF step_okD(1) [OF s], of t "\<lambda>_. empty_context" "\<lambda>_. 0"]] show ?thesis
    unfolding eq .
qed

lemma outside_step_ok:
  assumes "kernel_inv k"
  shows "step_ok k (k\<lparr>timer_callback_table := table\<rparr>)" "step_ok k (k\<lparr>memory := m\<rparr>)"
  by (rule step_ok_outside [OF assms]; simp)+

lemmas CreateTimer_kernel_inv = step_okD(1) [OF CreateTimer_step_ok]
lemmas timer_Signal_kernel_inv = step_okD(1) [OF timer_Signal_step_ok]
lemmas timer_Set_kernel_inv = step_okD(1) [OF timer_Set_step_ok]

text \<open>Every step keeps both invariants; the steps that touch no arbiter are shown to be \<open>step_ok\<close>.\<close>

definition machine_inv :: "'m kernel \<Rightarrow> bool" where
  "machine_inv k \<longleftrightarrow> kernel_inv k \<and> arb_inv k"

lemma machine_invD: "machine_inv k \<Longrightarrow> kernel_inv k" "machine_inv k \<Longrightarrow> arb_inv k"
  by (simp_all add: machine_inv_def)

lemma machine_inv_step_ok: "machine_inv k \<Longrightarrow> step_ok k k' \<Longrightarrow> machine_inv k'"
  by (auto simp: machine_inv_def step_ok_def intro: arb_inv_same)

lemma select_core_step_ok:
  assumes inv: "kernel_inv k" and c: "c < length (managers k)"
  shows "step_ok k (k\<lparr>timing := SetCurrentTimer c (timing k)\<rparr>)"
proof -
  have "kinv (k\<lparr>timing := SetCurrentTimer c (timing k)\<rparr>)"
    using kernel_invD(1) [OF inv] by simp
  moreover have "limiter_inactive (k\<lparr>timing := tm\<rparr>) \<longleftrightarrow> limiter_inactive k" "current_ok d (k\<lparr>timing := tm\<rparr>) \<longleftrightarrow> current_ok d k" for tm d
    by (simp_all add: limiter_inactive_def get_limiter_def GetCpuLimiter_def current_ok_def)
  ultimately have "kernel_inv (k\<lparr>timing := SetCurrentTimer c (timing k)\<rparr>)"
    using c kernel_invD(5) [OF inv] by (simp add: kernel_inv_def static_ok_def SetCurrentTimer_def)
  moreover have "arb_same k (k\<lparr>timing := SetCurrentTimer c (timing k)\<rparr>)"
    by (rule arb_same_fields) (simp_all add: is_thread_def fun_eq_iff)
  ultimately show ?thesis
    by (simp add: step_ok_def)
qed

lemma new_object_steps:
  assumes "kernel_inv k" "fresh k ob"
  shows "step_ok k (CreateEvent ob reset k)" "CreateSemaphore ob initial maximum k = (k', r) \<Longrightarrow> step_ok k k'"
  using assms by (auto simp: CreateEvent_def CreateSemaphore_def mutex_view_def
      intro: step_ok_new_object step_ok_refl split: if_splits)

lemma kernel_step_inv: "kernel_step k k' \<Longrightarrow> machine_inv k \<Longrightarrow> machine_inv k'"
proof (induction rule: kernel_step.induct)
  case (dispatch c k k')
  then show ?case
    using Reschedule_step_ok machine_inv_step_ok machine_invD(1) by (metis option.inject)
next
  case (wait_one k t get_wait h ns k' r)
  then show ?case
    using machine_inv_step_ok [OF wait_one.prems] WaitSynchronization1_step_ok machine_invD(1) unfolding executes_def by blast
next
  case (wait_many k t wait_all get_wait Read32 addr n valid ns k' r out)
  show ?case
    by (rule machine_inv_step_ok [OF wait_many.prems],
        rule WaitSynchronizationN_step_ok [OF machine_invD(1) [OF wait_many.prems] _ _ _ wait_many.hyps(3), of t])
      (use wait_many.hyps(1,2) in \<open>auto simp: executes_def\<close>)
next
  case (exit_thread c k t k')
  show ?case
    by (rule machine_inv_step_ok [OF exit_thread.prems],
        rule ExitCurrentThread_spec [OF machine_invD(1) [OF exit_thread.prems] exit_thread.hyps(1-4)])
      (use exit_thread.hyps(5) in simp)
next
  case (timeout k c tid t k')
  note M = machine_invD [OF timeout.prems]
  have "kernel_inv k'"
    by (rule ThreadWakeupCallback_spec [OF M(1) timeout.hyps(1,2)]) (use timeout.hyps(4) in simp)
  with ThreadWakeupCallback_arb_inv [OF M timeout.hyps] show ?case
    by (simp add: machine_inv_def)
next
  case (new_arbiter k a)
  then have "CreateAddressArbiter a k = k"
    by (simp add: CreateAddressArbiter_def fun_upd_idem)
  with new_arbiter.prems show ?case by simp
next
  case (arbitrate k t rd wr get h address ty v ns k' r)
  have t: "running_thread k = Some t" "status (threads k t) = Running"
    using arbitrate.hyps(1) by (simp_all add: executes_def)
  show ?case
    by (rule svc_ArbitrateAddress_inv [OF machine_invD [OF arbitrate.prems] t, of rd wr get h address ty v ns])
      (use arbitrate.hyps(2) in \<open>simp add: machine_inv_def\<close>)
next
  case (select_core)
  show ?case
    by (rule machine_inv_step_ok [OF select_core.prems select_core_step_ok [OF machine_invD(1) [OF select_core.prems] select_core.hyps]])
next
  case (new_thread)
  show ?case
    by (rule machine_inv_step_ok [OF new_thread.prems CreateThread_step_ok [OF machine_invD(1) [OF new_thread.prems] new_thread.hyps]])
next
  case (new_event)
  show ?case
    by (rule machine_inv_step_ok [OF new_event.prems new_object_steps(1) [OF machine_invD(1) [OF new_event.prems] new_event.hyps]])
next
  case (new_semaphore)
  show ?case
    by (rule machine_inv_step_ok [OF new_semaphore.prems new_object_steps(2) [OF machine_invD(1) [OF new_semaphore.prems] new_semaphore.hyps]])
next
  case (new_timer)
  show ?case
    by (rule machine_inv_step_ok [OF new_timer.prems CreateTimer_step_ok [OF machine_invD(1) [OF new_timer.prems] new_timer.hyps]])
next
  case (new_mutex)
  show ?case
    by (rule machine_inv_step_ok [OF new_mutex.prems CreateMutex_step_ok [OF machine_invD(1) [OF new_mutex.prems] new_mutex.hyps]])
next
  case (signal_event)
  show ?case
    by (rule machine_inv_step_ok [OF signal_event.prems event_Signal_step_ok [OF machine_invD(1) [OF signal_event.prems] signal_event.hyps]])
next
  case (clear_event)
  show ?case
    by (rule machine_inv_step_ok [OF clear_event.prems event_Clear_step_ok [OF machine_invD(1) [OF clear_event.prems] clear_event.hyps]])
next
  case (release_semaphore)
  show ?case
    by (rule machine_inv_step_ok [OF release_semaphore.prems semaphore_Release_step_ok [OF machine_invD(1) [OF release_semaphore.prems] release_semaphore.hyps]])
next
  case (release_mutex)
  show ?case
    by (rule machine_inv_step_ok [OF release_mutex.prems mutex_Release_step_ok [OF machine_invD(1) [OF release_mutex.prems] release_mutex.hyps]])
next
  case (set_timer)
  show ?case
    by (rule machine_inv_step_ok [OF set_timer.prems timer_Set_step_ok [OF machine_invD(1) [OF set_timer.prems] set_timer.hyps]])
next
  case (cancel_timer)
  show ?case
    by (rule machine_inv_step_ok [OF cancel_timer.prems timer_Cancel_step_ok [OF machine_invD(1) [OF cancel_timer.prems] cancel_timer.hyps]])
next
  case (clear_timer)
  show ?case
    by (rule machine_inv_step_ok [OF clear_timer.prems timer_Clear_step_ok [OF machine_invD(1) [OF clear_timer.prems] clear_timer.hyps]])
next
  case (timer_fires)
  show ?case
    by (rule machine_inv_step_ok [OF timer_fires.prems TimerCallback_step_ok [OF machine_invD(1) [OF timer_fires.prems] timer_fires.hyps]])
next
  case (set_priority k t p k')
  show ?case
    by (rule machine_inv_step_ok [OF set_priority.prems],
        rule set_thread_priority_step_ok [OF machine_invD(1) [OF set_priority.prems] set_priority.hyps(1,2)])
      (use set_priority.hyps(3) in simp)
next
  case (sleep k t ns k')
  have t: "running_thread k = Some t" "status (threads k t) = Running"
    using sleep.hyps(1) by (simp_all add: executes_def)
  show ?case
    by (rule machine_inv_step_ok [OF sleep.prems], rule SleepThread_step_ok [OF machine_invD(1) [OF sleep.prems] t, of ns])
      (use sleep.hyps(2) in simp)
next
  case (process_data)
  show ?case
    by (rule machine_inv_step_ok [OF process_data.prems process_data_step_ok [OF machine_invD(1) [OF process_data.prems]]])
next
  case (failed_thread)
  show ?case
    by (rule machine_inv_step_ok [OF failed_thread.prems failed_thread_step_ok [OF machine_invD(1) [OF failed_thread.prems] failed_thread.hyps]])
next
  case (thread_context)
  show ?case
    by (rule machine_inv_step_ok [OF thread_context.prems thread_context_step_ok [OF machine_invD(1) [OF thread_context.prems]]])
next
  case (reschedule)
  show ?case
    by (rule machine_inv_step_ok [OF reschedule.prems PrepareReschedule_step_ok [OF machine_invD(1) [OF reschedule.prems]]])
next
  case (timer_end)
  show ?case
    by (rule machine_inv_step_ok [OF timer_end.prems outside_step_ok(1) [OF machine_invD(1) [OF timer_end.prems]]])
next
  case (guest_memory)
  show ?case
    by (rule machine_inv_step_ok [OF guest_memory.prems outside_step_ok(2) [OF machine_invD(1) [OF guest_memory.prems]]])
qed

lemma reachable_machine: "reachable k \<Longrightarrow> machine_inv k"
proof (induction rule: reachable.induct)
  case (start n tm limits m)
  show ?case
    unfolding machine_inv_def by (intro conjI kernel_inv_new_kernel [OF start] arb_inv_new_kernel)
qed (rule kernel_step_inv)

lemmas reachable_inv = machine_invD(1) [OF reachable_machine]
lemmas reachable_arb_inv = machine_invD(2) [OF reachable_machine]

end
