(* ===== verification/Scheduler_Props.thy ===== *)
theory Scheduler_Props
  imports Scheduler
begin

text \<open>
  The properties of the thread manager's scheduling decision, with an example kernel on which they
  are applied.
\<close>

section \<open>An example\<close>

text \<open>A two-core kernel with one application thread of priority 48, ready on core 0.\<close>

definition demo_ready :: "unit kernel option" where
  "demo_ready = map_option fst
     (CreateThread 1 0x100000 48 0 0 0x10000000 0 Application True (Inr 0x1FF82000) True
       (new_kernel 2 (new_timing 2 id 0) (ResourceLimitList False 0) ()))"

text \<open>The same after it was dispatched and a second thread, of priority 30, became ready.\<close>

definition demo_preempt :: "unit kernel option" where
  "demo_preempt = do {
     k \<leftarrow> demo_ready;
     k \<leftarrow> Reschedule 0 k;
     map_option fst
       (CreateThread 2 0x100000 30 0 0 0x0F000000 0 Application True (Inr 0x1FF82200) True k) }"

lemma new_kernel_simps:
  "length (managers (new_kernel n tm limits m)) = n" "timing (new_kernel n tm limits m) = tm"
  "\<not> is_thread (new_kernel n tm limits m) t"
  "0 < n \<Longrightarrow> current_thread (managers (new_kernel n tm limits m) ! 0) = None"
  by (simp_all add: new_kernel_def is_thread_def new_thread_manager_def)

lemma length_timers_new_timing: "length (timers (new_timing n f b)) = n"
  by (simp add: new_timing_def UpdateClockSpeed_def)

lemma demo_ready_spec:
  obtains k where "demo_ready = Some k" "sched_inv k" "is_thread k = (\<lambda>t. t = 1)" "length (managers k) = 2"
    "timing k = new_timing 2 id 0" "current_thread (managers k ! 0) = None" "ready_on 0 k 1"
    "current_priority (threads k 1) = 48" "owner_process (threads k 1) = Some 0"
proof -
  define k0 where "k0 = new_kernel 2 (new_timing 2 id 0) (ResourceLimitList False 0) ()"
  have inv0: "sched_inv k0"
    by (simp add: k0_def sched_inv_new_kernel)
  have "\<not> is_thread k0 1" "0 < length (managers k0)" "(0 :: nat) < 5" "0 < length (timers (timing k0))" "48 < (64 :: nat)"
    by (simp_all add: k0_def new_kernel_simps length_timers_new_timing)
  note spec = CreateThread_spec [OF inv0 this, where entry = "0x100000" and arg = 0 and
      stack = "0x10000000" and owner = 0 and category = Application and addr = "0x1FF82000" and to_ready = True]
  obtain k where "CreateThread 1 0x100000 48 0 (int 0) 0x10000000 0 Application True (Inr 0x1FF82000) True k0 = Some (k, Inr 1)"
    "sched_inv k" "is_thread k = (is_thread k0)(1 := True)" "status (threads k 1) = (if True then Ready else Dormant)"
    "current_priority (threads k 1) = 48" "core_id (threads k 1) = 0" "owner_process (threads k 1) = Some 0"
    "unschedule_mode (threads k 1) = 0" "length (managers k) = length (managers k0)" "timing k = timing k0"
    "\<And>d. current_thread (managers k ! d) = current_thread (managers k0 ! d)"
    by (rule spec) (rule that, assumption+)
  note k = this
  have "is_thread k = (\<lambda>t. t = 1)"
    using k(3) by (simp add: k0_def new_kernel_simps fun_eq_iff)
  moreover have "ready_on 0 k 1"
    using k(3,4,6,8) by (simp add: ready_on_def CanSchedule_def)
  moreover have "demo_ready = Some k"
    using k(1) by (simp add: demo_ready_def k0_def)
  moreover have "current_thread (managers k ! 0) = None"
    using k(11) [of 0] by (simp add: k0_def new_kernel_simps)
  ultimately show thesis
    using that [of k] k(2,5,7,9,10) by (simp add: k0_def new_kernel_simps)
qed

lemma demo_preempt_spec:
  obtains k where "demo_preempt = Some k" "sched_inv k" "length (managers k) = 2"
    "0 < length (timers (timing k))" "current_ok 0 k" "keeps_running 0 k = Some 1" "ready_on 0 k 2"
    "current_priority (threads k 1) = 48" "current_priority (threads k 2) = 30"
    "\<And>t. is_thread k t \<Longrightarrow> owner_process (threads k t) \<noteq> None"
proof -
  obtain k where k: "demo_ready = Some k" "sched_inv k" "is_thread k = (\<lambda>t. t = 1)" "length (managers k) = 2"
    "timing k = new_timing 2 id 0" "current_thread (managers k ! 0) = None" "ready_on 0 k 1"
    "current_priority (threads k 1) = 48" "owner_process (threads k 1) = Some 0"
    by (rule demo_ready_spec) blast
  have pre: "0 < length (managers k)" "0 < length (timers (timing k))" "current_ok 0 k"
    "(0 :: nat) = 1 \<longrightarrow> limiter_inactive k" "\<And>t. is_thread k t \<Longrightarrow> owner_process (threads k t) \<noteq> None"
    using k by (simp_all add: length_timers_new_timing current_ok_def)
  obtain k1 nxt r and q :: "nat tql" where R: "Reschedule 0 k = Some k1" "sched_inv k1"
    "take_allowed (allowed k) (rival_bound 0 k) (datas (queue_of k 0)) = (datas q, r)"
    "nxt = (case r of None \<Rightarrow> keeps_running 0 k | Some t \<Rightarrow> Some t)"
    "current_thread (managers k1 ! 0) = nxt" "is_thread k1 = is_thread k"
    "\<And>t. threads k1 t = (let th = (if current_thread (managers k ! 0) = Some t then saved 0 k (threads k t)
        else threads k t) in if nxt = Some t then th\<lparr>status := Running\<rparr> else th)"
    by (rule Reschedule_spec [OF k(2) pre]) blast+
  note keep = Reschedule_keeps [OF k(2) pre(1,3,4) R(1), unfolded same_sizes_def]
  have "nxt = Some 1"
  proof (rule ccontr)
    assume "nxt \<noteq> Some 1"
    with k(7) next_beats [OF k(2) pre(1,3) R(3,4), of 1] obtain t where t: "nxt = Some t" "t \<noteq> 1"
      by (auto simp: ready_on_def)
    have "keeps_running 0 k = None"
      by (simp add: keeps_running_def k(6))
    with R(4) t(1) have "r = Some t"
      by (cases r) simp_all
    with R(3) obtain p where "p < rival_bound 0 k" "t \<in> set (datas (queue_of k 0) ! p)"
      by (auto elim: take_allowed_cases)
    with queue_okD(4) [OF k(2) pre(1), of p t] rival_bound_le [OF k(2) pre(3)] have "is_thread k t"
      by simp
    with k(3) t(2) show False by simp
  qed
  then have th1: "threads k1 1 = (threads k 1)\<lparr>status := Running\<rparr>"
    by (simp add: R(7) k(6) Let_def)
  have c2: "\<not> is_thread k1 2" "0 < length (managers k1)" "(0 :: nat) < 5" "0 < length (timers (timing k1))" "30 < (64 :: nat)"
    using k(3,4) R(6) keep pre(2) by auto
  note spec = CreateThread_spec [OF R(2) c2, where entry = "0x100000" and arg = 0 and
      stack = "0x0F000000" and owner = 0 and category = Application and addr = "0x1FF82200" and to_ready = True]
  obtain k2 where c: "CreateThread 2 0x100000 30 0 (int 0) 0x0F000000 0 Application True (Inr 0x1FF82200) True k1 = Some (k2, Inr 2)"
    "sched_inv k2" "is_thread k2 = (is_thread k1)(2 := True)" "\<And>u. u \<noteq> 2 \<Longrightarrow> threads k2 u = threads k1 u"
    "status (threads k2 2) = (if True then Ready else Dormant)" "current_priority (threads k2 2) = 30"
    "core_id (threads k2 2) = 0" "owner_process (threads k2 2) = Some 0"
    "unschedule_mode (threads k2 2) = 0" "length (managers k2) = length (managers k1)" "timing k2 = timing k1"
    "\<And>d. current_thread (managers k2 ! d) = current_thread (managers k1 ! d)"
    by (rule spec) (rule that, assumption+)
  have "threads k2 1 = (threads k 1)\<lparr>status := Running\<rparr>"
    using c(4) [of 1] th1 by simp
  moreover from this k(7) have "current_ok 0 k2" "keeps_running 0 k2 = Some 1"
    using c(3,12) R(5,6) k(3) \<open>nxt = Some 1\<close>
    by (auto simp: current_ok_def keeps_running_def ready_on_def CanSchedule_def)
  moreover have "demo_preempt = Some k2"
    unfolding demo_preempt_def k(1) using R(1) c(1) by simp
  moreover have "ready_on 0 k2 2"
    using c(3,5,7,9) by (simp add: ready_on_def CanSchedule_def)
  moreover have "owner_process (threads k2 t) \<noteq> None" if "is_thread k2 t" for t
    using that c(3,8) R(6) k(3,9) \<open>threads k2 1 = _\<close> by (auto split: if_splits)
  ultimately show thesis
    using that [of k2] c(2,6,10,11) c2(4) keep k(4,8) by simp
qed

section \<open>Properties\<close>

text \<open>C10: One scheduling decision on a core (\<open>Reschedule\<close>) always completes without a failing assertion,
  keeps the scheduler invariant, and afterwards no ready thread of that core that may be scheduled
  has a better priority than the thread that runs: if one exists at all, some thread runs.
\<close>

theorem Reschedule_runs_best:
  assumes inv: "sched_inv k" and c: "c < length (managers k)" "c < length (timers (timing k))"
    and cur: "current_ok c k" and lim: "c = 1 \<longrightarrow> limiter_inactive k"
    and owners: "\<And>t. is_thread k t \<Longrightarrow> owner_process (threads k t) \<noteq> None"
  shows "\<exists>k'. Reschedule c k = Some k' \<and> sched_inv k' \<and>
    (\<forall>u. ready_on c k' u \<longrightarrow> (\<exists>t. current_thread (managers k' ! c) = Some t \<and>
       status (threads k' t) = Running \<and> current_priority (threads k' t) \<le> current_priority (threads k' u)))"
proof -
  obtain k' nxt r and q :: "nat tql" where R: "Reschedule c k = Some k'" "sched_inv k'"
    "take_allowed (allowed k) (rival_bound c k) (datas (queue_of k c)) = (datas q, r)"
    "nxt = (case r of None \<Rightarrow> keeps_running c k | Some t \<Rightarrow> Some t)"
    "current_thread (managers k' ! c) = nxt" "is_thread k' = is_thread k"
    "\<And>t. threads k' t = (let th = (if current_thread (managers k ! c) = Some t then saved c k (threads k t)
        else threads k t) in if nxt = Some t then th\<lparr>status := Running\<rparr> else th)"
    by (rule Reschedule_spec [OF inv c cur lim owners]) blast+
  have same: "current_priority (threads k' x) = current_priority (threads k x)"
    "core_id (threads k' x) = core_id (threads k x)" "allowed k' x \<longleftrightarrow> allowed k x" for x
    by (simp_all add: R(7) saved_def CanSchedule_def Let_def)
  have "\<exists>t. nxt = Some t \<and> current_priority (threads k t) \<le> current_priority (threads k u)"
    if u: "ready_on c k' u" for u
  proof -
    have u0: "is_thread k u" "core_id (threads k u) = c" "allowed k u" "status (threads k' u) = Ready"
      using u by (simp_all add: ready_on_def same R(6))
    then have "keeps_running c k = Some u \<or> status (threads k u) = Ready" "nxt \<noteq> Some u"
      using R(7) [of u]
      by (auto simp: keeps_running_def saved_def Let_def split: if_splits option.splits)
    from next_beats [OF inv c(1) cur R(3,4) u0(1,2,3) this] show ?thesis .
  qed
  moreover have "status (threads k' t) = Running" if "nxt = Some t" for t
    using that by (simp add: R(7) Let_def)
  ultimately show ?thesis
    using R(1,2,5) same by (metis (no_types, lifting))
qed

theorem Reschedule_runs_best_witness:
  "\<exists>k k'. demo_ready = Some k \<and> Reschedule 0 k = Some k' \<and> sched_inv k' \<and>
     (ready_on 0 k' 1 \<longrightarrow> current_thread (managers k' ! 0) \<noteq> None)"
proof -
  obtain k where k: "demo_ready = Some k" "sched_inv k" "is_thread k = (\<lambda>t. t = 1)" "length (managers k) = 2"
    "timing k = new_timing 2 id 0" "current_thread (managers k ! 0) = None" "owner_process (threads k 1) = Some 0"
    by (rule demo_ready_spec) blast
  have "0 < length (managers k)" "0 < length (timers (timing k))" "current_ok 0 k"
    "(0 :: nat) = 1 \<longrightarrow> limiter_inactive k" "\<And>t. is_thread k t \<Longrightarrow> owner_process (threads k t) \<noteq> None"
    using k by (simp_all add: length_timers_new_timing current_ok_def)
  from Reschedule_runs_best [OF k(2) this] k(1) show ?thesis by blast
qed

text \<open>A running thread that may still be scheduled loses its core only to a strictly better one;
  and of several ready threads of the best priority, the one that has been queued longest is taken.
  A preempted thread becomes ready again.
\<close>

lemma Reschedule_preempts_strictly:
  assumes inv: "sched_inv k" and c: "c < length (managers k)" "c < length (timers (timing k))"
    and cur: "current_ok c k" and lim: "c = 1 \<longrightarrow> limiter_inactive k"
    and owners: "\<And>t. is_thread k t \<Longrightarrow> owner_process (threads k t) \<noteq> None"
    and run: "keeps_running c k = Some p"
  shows "\<exists>k' t. Reschedule c k = Some k' \<and> current_thread (managers k' ! c) = Some t \<and>
    status (threads k' t) = Running \<and>
    (if \<exists>u. ready_on c k u \<and> current_priority (threads k u) < current_priority (threads k p)
     then current_priority (threads k t) < current_priority (threads k p) \<and> status (threads k' p) = Ready \<and>
       find (allowed k) (datas (queue_of k c) ! current_priority (threads k t)) = Some t
     else t = p)"
proof -
  obtain k' nxt r and q :: "nat tql" where R: "Reschedule c k = Some k'" "sched_inv k'"
    "take_allowed (allowed k) (rival_bound c k) (datas (queue_of k c)) = (datas q, r)"
    "nxt = (case r of None \<Rightarrow> keeps_running c k | Some t \<Rightarrow> Some t)"
    "current_thread (managers k' ! c) = nxt" "is_thread k' = is_thread k"
    "\<And>t. threads k' t = (let th = (if current_thread (managers k ! c) = Some t then saved c k (threads k t)
        else threads k t) in if nxt = Some t then th\<lparr>status := Running\<rparr> else th)"
    by (rule Reschedule_spec [OF inv c cur lim owners]) blast+
  note p = keeps_running_ok [OF cur run]
  have B: "rival_bound c k = current_priority (threads k p)"
    using run by (simp add: rival_bound_def)
  from R(3) show ?thesis
  proof (cases rule: take_allowed_cases)
    case 1
    have "\<not> current_priority (threads k u) < current_priority (threads k p)" if "ready_on c k u" for u
      using 1(3) [OF _ ready_queued [OF inv c(1) that]] that B by (auto simp: ready_on_def)
    moreover have "nxt = Some p"
      using R(4) 1(1) run by simp
    ultimately show ?thesis
      using R(1,5) R(7) [of p] by (auto simp: Let_def)
  next
    case (2 i t)
    have i: "i < current_priority (threads k p)" "i < 64"
      using 2(2) B rival_bound_le [OF inv cur] by simp_all
    have t: "ready_on c k t" "current_priority (threads k t) = i"
      using queue_okD(4) [OF inv c(1) i(2), of t] 2(4,5) by (simp_all add: ready_on_def)
    moreover have "nxt = Some t" "t \<noteq> p"
      using R(4) 2(1) t(1) p(2) by (auto simp: ready_on_def)
    moreover from this have "status (threads k' p) = Ready"
      using R(7) [of p] p(1,2) by (simp add: saved_def Let_def)
    ultimately show ?thesis
      using R(1,5) R(7) [of t] i 2(3) by (intro exI [of _ k'] exI [of _ t]) (auto simp: Let_def)
  qed
qed

lemma Reschedule_preempts_strictly_witness:
  "\<exists>k k'. demo_preempt = Some k \<and> Reschedule 0 k = Some k' \<and> status (threads k' 1) = Ready \<and>
     current_thread (managers k' ! 0) \<noteq> Some 1"
proof -
  obtain k where k: "demo_preempt = Some k" "sched_inv k" "length (managers k) = 2"
    "0 < length (timers (timing k))" "current_ok 0 k" "keeps_running 0 k = Some 1" "ready_on 0 k 2"
    "current_priority (threads k 1) = 48" "current_priority (threads k 2) = 30"
    "\<And>t. is_thread k t \<Longrightarrow> owner_process (threads k t) \<noteq> None"
    by (rule demo_preempt_spec) blast
  have c: "0 < length (managers k)" "(0 :: nat) = 1 \<longrightarrow> limiter_inactive k"
    using k(3) by simp_all
  have "\<exists>u. ready_on 0 k u \<and> current_priority (threads k u) < current_priority (threads k 1)"
    using k(7,8,9) by (intro exI [of _ 2]) simp
  with Reschedule_preempts_strictly [OF k(2) c(1) k(4,5) c(2) k(10,6)] obtain k' t
    where "Reschedule 0 k = Some k'" "current_thread (managers k' ! 0) = Some t"
      "current_priority (threads k t) < current_priority (threads k 1)" "status (threads k' 1) = Ready"
    by auto
  with k(1) show ?thesis
    by (intro exI [of _ k] exI [of _ k']) auto
qed

end
