(* ===== verification/Kernel_Props.thy ===== *)
theory Kernel_Props
  imports Kernel_Machine Scheduler_Props
begin

text \<open>
  The properties of waiting, waking and ending threads, in every reachable state of the kernel, and
  the example states on which they are applied.
\<close>

section \<open>Examples\<close>

text \<open>
  The running example of the scheduler: one application thread, dispatched on core 0; then an event
  or a semaphore for which it waits.
\<close>

definition demo_running :: "unit kernel option" where
  "demo_running = demo_ready \<bind> Reschedule 0"

definition demo_event :: "unit kernel option" where
  "demo_event = map_option (CreateEvent 3 OneShot) demo_running"

definition demo_waiting :: "unit kernel option" where
  "demo_waiting = do {
     k \<leftarrow> demo_event;
     (k, _) \<leftarrow> WaitSynchronization1 (\<lambda>_. Some 3) 0 (- 1) k;
     Some k }"

definition demo_mutex :: "unit kernel option" where
  "demo_mutex = demo_running \<bind> CreateMutex 3 0 True"

lemma reachable_new: "reachable (new_kernel 2 (new_timing 2 id 0) (ResourceLimitList False 0) ())"
  by (rule reachable.start) (simp_all add: length_timers_new_timing, simp add: new_timing_def UpdateClockSpeed_def)

lemma demo_running_spec:
  obtains k where "demo_running = Some k" "reachable k" "executes k 1" "is_thread k = (\<lambda>t. t = 1)"
    "wait_objects (threads k 1) = []" "held_mutexes (threads k 1) = []" "length (managers k) = 2"
    "current_thread (managers k ! 0) = Some 1" "\<And>x. waiting_threads k x = []" "\<And>x m. wait_objs k x \<noteq> WMutex m"
proof -
  let ?k0 = "new_kernel 2 (new_timing 2 id 0) (ResourceLimitList False 0) ()"
  obtain k where k: "demo_ready = Some k" "sched_inv k" "is_thread k = (\<lambda>t. t = 1)" "length (managers k) = 2"
    "timing k = new_timing 2 id 0" "current_thread (managers k ! 0) = None" "ready_on 0 k 1"
    "current_priority (threads k 1) = 48" "owner_process (threads k 1) = Some 0"
    by (rule demo_ready_spec) blast
  then obtain r where c: "CreateThread 1 0x100000 48 0 0 0x10000000 0 Application True (Inr 0x1FF82000) True ?k0 = Some (k, r)"
    by (auto simp: demo_ready_def)
  have "r = Inr 1"
    using c by (auto simp: CreateThread_def Let_def ThreadPrioLowest_def bind_eq_Some_conv split: if_splits)
  note c = c [unfolded this]
  have "fresh ?k0 1"
    by (simp add: fresh_def new_kernel_simps)
  from reachable.step [OF reachable_new kernel_step.new_thread [OF this c]] have R: "reachable k" .
  note inv = reachable_inv [OF R]
  have c0: "0 < length (managers k)"
    using k(4) by simp
  obtain k1 where k1: "Reschedule 0 k = Some k1" "kernel_inv k1"
    by (rule Reschedule_kernel_inv [OF inv c0])
  from reachable.step [OF R kernel_step.dispatch [OF c0 k1(1)]] have R1: "reachable k1" .
  note K = kernel_invD [OF inv]
  obtain nxt rr and q :: "nat tql" where D: "take_allowed (allowed k) (rival_bound 0 k) (datas (queue_of k 0)) = (datas q, rr)"
    "nxt = (case rr of None \<Rightarrow> keeps_running 0 k | Some t \<Rightarrow> Some t)"
    "current_thread (managers k1 ! 0) = nxt" "is_thread k1 = is_thread k"
    "\<And>t. threads k1 t = (let th = (if current_thread (managers k ! 0) = Some t then saved 0 k (threads k t)
        else threads k t) in if nxt = Some t then th\<lparr>status := Running\<rparr> else th)"
    by (rule Reschedule_spec [OF K(2) c0 K(8) [OF c0] K(7) [OF c0] _ K(9)]) (use k1(1) in auto)
  have "nxt = Some 1"
  proof (rule ccontr)
    assume "nxt \<noteq> Some 1"
    with k(7) next_beats [OF K(2) c0 K(7) [OF c0] D(1,2), of 1] obtain t where t: "nxt = Some t" "t \<noteq> 1"
      by (auto simp: ready_on_def)
    have "keeps_running 0 k = None"
      by (simp add: keeps_running_def k(6))
    with D(2) t(1) have "rr = Some t"
      by (cases rr) simp_all
    with D(1) obtain p where "p < rival_bound 0 k" "t \<in> set (datas (queue_of k 0) ! p)"
      by (auto elim: take_allowed_cases)
    with queue_okD(4) [OF K(2) c0, of p t] rival_bound_le [OF K(2) K(7) [OF c0]] have "is_thread k t"
      by simp
    with k(3) t(2) show False by simp
  qed
  note e = CreateThread_effect [OF c]
  note co = Reschedule_core_only [OF inv c0 k1(1), unfolded core_only_def]
  have th: "threads k1 1 = (threads k 1)\<lparr>status := Running\<rparr>"
    using \<open>nxt = Some 1\<close> k(6) by (simp add: D(5) Let_def)
  have len: "length (managers k1) = 2"
    using co map_eq_imp_length_eq k(4) by metis
  have "current_timer (timing k1) = 0"
    using co k(5) by (simp add: new_timing_def UpdateClockSpeed_def)
  then have "executes k1 1"
    using D(3) \<open>nxt = Some 1\<close> th len by (simp add: executes_def running_thread_def)
  moreover have "waiting_threads k1 x = []" for x
    using co e(3) by (simp add: new_kernel_def)
  moreover have "wait_objs k1 x \<noteq> WMutex m" for x m
    using co e(2) by (simp add: new_kernel_def)
  moreover have "demo_running = Some k1"
    by (simp add: demo_running_def k(1) k1(1))
  moreover have "is_thread k1 = (\<lambda>t. t = 1)"
    using D(4) k(3) by simp
  ultimately show thesis
    using that [of k1] R1 D(3) \<open>nxt = Some 1\<close> th e(4,5) len by simp
qed

lemma fresh_3:
  assumes "is_thread k = (\<lambda>t. t = 1)" "wait_objects (threads k 1) = []" "held_mutexes (threads k 1) = []"
  shows "fresh k 3"
  using assms by (simp add: fresh_def)

lemma demo_event_spec:
  obtains k where "demo_event = Some k" "reachable k" "executes k 1" "is_thread k = (\<lambda>t. t = 1)"
    "wait_objs k 3 = WEvent \<lparr>event_reset = OneShot, event_signaled = False\<rparr>" "\<And>x. waiting_threads k x = []"
proof -
  obtain k where k: "demo_running = Some k" "reachable k" "executes k 1" "is_thread k = (\<lambda>t. t = 1)"
    "wait_objects (threads k 1) = []" "held_mutexes (threads k 1) = []" "\<And>x. waiting_threads k x = []"
    by (rule demo_running_spec) blast
  let ?k = "CreateEvent 3 OneShot k"
  have "reachable ?k"
    by (rule reachable.step [OF k(2) kernel_step.new_event [OF fresh_3 [OF k(4-6)]]])
  moreover have "executes ?k 1" "is_thread ?k = (\<lambda>t. t = 1)"
    using k(3,4) by (auto simp: executes_def running_thread_def CreateEvent_def is_thread_def fun_eq_iff
        set_waiting_def set_object_def split: if_splits)
  moreover have "waiting_threads ?k x = []" for x
    by (simp add: CreateEvent_def k(7))
  moreover have "demo_event = Some ?k" "wait_objs ?k 3 = WEvent \<lparr>event_reset = OneShot, event_signaled = False\<rparr>"
    by (simp_all add: demo_event_def k(1) CreateEvent_def)
  ultimately show thesis
    using that [of ?k] by blast
qed

lemma demo_waiting_spec:
  obtains k where "demo_waiting = Some k" "reachable k" "waiting_threads k 3 = [1]" "status (threads k 1) = WaitSynchAny"
    "wait_objects (threads k 1) = [3]" "is_thread k = (\<lambda>t. t = 1)"
    "wait_objs k 3 = WEvent \<lparr>event_reset = OneShot, event_signaled = False\<rparr>"
proof -
  obtain k where k: "demo_event = Some k" "reachable k" "executes k 1" "is_thread k = (\<lambda>t. t = 1)"
    "wait_objs k 3 = WEvent \<lparr>event_reset = OneShot, event_signaled = False\<rparr>" "\<And>x. waiting_threads k x = []"
    by (rule demo_event_spec) blast
  note inv = reachable_inv [OF k(2)]
  note K = kernel_invD [OF inv]
  have e: "running_thread k = Some 1" "status (threads k 1) = Running" "is_thread k 1"
    using k(3,4) by (simp_all add: executes_def)
  have sw: "ShouldWait k 3 1" "(- 1 :: int) \<noteq> 0"
    by (simp_all add: ShouldWait_def k(5))
  obtain k' where k': "WaitSynchronization1 (\<lambda>_. Some 3) 0 (- 1) k = Some (k', ResultTimeout)" "kinv k'"
    "asleep 1 [3] WaitSynchAny False k k'"
    by (rule WaitSynchronization1_sleeps [where get_wait = "\<lambda>_. Some 3" and h = 0, OF K(1) e(3,2) K(6) refl e(1) sw])
  have "reachable k'"
    by (rule reachable.step [OF k(2) kernel_step.wait_one [OF k(3) k'(1)]])
  moreover have "demo_waiting = Some k'"
    by (simp add: demo_waiting_def k(1) k'(1))
  moreover have "waiting_threads k' 3 = [1]" "status (threads k' 1) = WaitSynchAny" "wait_objects (threads k' 1) = [3]"
    "is_thread k' = (\<lambda>t. t = 1)"
    using asleepD [OF k'(3)] k(4,6) by simp_all
  moreover have "wait_objs k' 3 = wait_objs k 3"
    using k'(1) e(1) sw(1) k(5)
    by (auto simp: WaitSynchronization1_def AddWaitingThread_def WakeAfterDelay_def Let_def PrepareReschedule_def split: if_splits)
  ultimately show thesis
    using that [of k'] k(5) by simp
qed

section \<open>The invariant\<close>



section \<open>Events\<close>

lemma erase_prio_event: "erase_prio w = WEvent e \<longleftrightarrow> w = WEvent e"
  "erase_prio w = WSemaphore s \<longleftrightarrow> w = WSemaphore s"
  by (cases w; simp add: erase_prio_def)+

lemma fold_acquired_event: "event_reset e \<noteq> OneShot \<Longrightarrow> fold acquired ws (WEvent e) = WEvent e"
  by (induction ws) (simp_all add: acquired_def)

lemma wakes_one_shot:
  assumes "wakes (WEvent e) ws" "event_reset e = OneShot"
  shows "ws = [] \<or> (\<exists>t. ws = [t])"
proof (cases ws)
  case (Cons t us)
  with assms show ?thesis by (cases us) (simp_all add: acquired_def should_wait_def)
qed simp

text \<open>C8: signalling an event returns. It takes the woken threads out of all waiting lists and makes
  them ready, and changes the status of no other thread. A one-shot event wakes at most one thread, the
  first of the best priority among the eligible ones, and is consumed by it; without an eligible thread
  it stays signalled. A sticky event wakes all threads that wait for any object and stays signalled; a
  pulse wakes the same threads and is over.\<close>

theorem event_Signal_wakes:
  assumes "reachable k" "wait_objs k ob = WEvent e"
  shows "\<exists>k' ws. event_Signal ob k = Some k' \<and> kernel_inv k' \<and> distinct ws \<and> set ws \<subseteq> set (waiting_threads k ob) \<and>
    (\<forall>u. status (threads k' u) = (if u \<in> set ws then Ready else status (threads k u))) \<and>
    (\<forall>x. waiting_threads k' x = filter (\<lambda>u. u \<notin> set ws) (waiting_threads k x)) \<and>
    (case event_reset e of
       OneShot \<Rightarrow>
         let ok = eligible (set_object ob (WEvent (e\<lparr>event_signaled := True\<rparr>)) k) ob in
         ws = [] \<and> (\<forall>u \<in> set (waiting_threads k ob). \<not> ok u) \<and> wait_objs k' ob = WEvent (e\<lparr>event_signaled := True\<rparr>) \<or>
         (\<exists>t. ws = [t] \<and> best_of ok (\<lambda>u. current_priority (threads k u)) (waiting_threads k ob) t \<and>
              wait_objs k' ob = WEvent (e\<lparr>event_signaled := False\<rparr>))
     | Sticky \<Rightarrow> (\<forall>u \<in> set (waiting_threads k ob). status (threads k u) \<noteq> WaitSynchAll \<longrightarrow> u \<in> set ws) \<and>
         wait_objs k' ob = WEvent (e\<lparr>event_signaled := True\<rparr>)
     | Pulse \<Rightarrow> (\<forall>u \<in> set (waiting_threads k ob). status (threads k u) \<noteq> WaitSynchAll \<longrightarrow> u \<in> set ws) \<and>
         wait_objs k' ob = WEvent (e\<lparr>event_signaled := False\<rparr>))"
proof -
  note inv = reachable_inv [OF assms(1)]
  let ?e = "e\<lparr>event_signaled := True\<rparr>"
  obtain k' ws where k': "event_Signal ob k = Some k'" "woke_all ob (set_object ob (WEvent ?e) k) k' ws"
    by (rule event_Signal_spec [OF kernel_invD(1) [OF inv] assms(2)])
  note w = k'(2) [unfolded woke_all_def]
  have wk: "woken (set ws) (set_object ob (WEvent ?e) k) k'"
    using w by blast
  have res: "wait_objs k' ob = unpulse (fold acquired ws (WEvent ?e))" if "fold acquired ws (WEvent ?e) = WEvent e'" for e'
    using w that by (simp add: unpulse_def) (simp add: erase_prio_def [of "WEvent _"] erase_prio_event)
  have left: "u \<in> set ws" if "event_reset e \<noteq> OneShot" "u \<in> set (waiting_threads k ob)" "status (threads k u) \<noteq> WaitSynchAll" for u
    using w that by (auto simp: fold_acquired_event should_wait_def)
  have "case event_reset e of
       OneShot \<Rightarrow>
         let ok = eligible (set_object ob (WEvent ?e) k) ob in
         ws = [] \<and> (\<forall>u \<in> set (waiting_threads k ob). \<not> ok u) \<and> wait_objs k' ob = WEvent ?e \<or>
         (\<exists>t. ws = [t] \<and> best_of ok (\<lambda>u. current_priority (threads k u)) (waiting_threads k ob) t \<and>
              wait_objs k' ob = WEvent (e\<lparr>event_signaled := False\<rparr>))
     | Sticky \<Rightarrow> (\<forall>u \<in> set (waiting_threads k ob). status (threads k u) \<noteq> WaitSynchAll \<longrightarrow> u \<in> set ws) \<and> wait_objs k' ob = WEvent ?e
     | Pulse \<Rightarrow> (\<forall>u \<in> set (waiting_threads k ob). status (threads k u) \<noteq> WaitSynchAll \<longrightarrow> u \<in> set ws) \<and>
         wait_objs k' ob = WEvent (e\<lparr>event_signaled := False\<rparr>)"
  proof (cases "event_reset e")
    case OneShot
    with w consider "ws = []" | t where "ws = [t]"
      using wakes_one_shot [of ?e ws] by auto
    then show ?thesis
    proof cases
      case 1
      with w OneShot res [of ?e] show ?thesis by (simp add: unpulse_def)
    next
      case (2 t)
      with w OneShot res [of "?e\<lparr>event_signaled := False\<rparr>"] show ?thesis
        by (simp add: unpulse_def acquired_def)
    qed
  next
    case Sticky
    with left res [of ?e] show ?thesis by (simp add: fold_acquired_event unpulse_def)
  next
    case Pulse
    with left res [of ?e] show ?thesis by (simp add: fold_acquired_event unpulse_def)
  qed
  moreover have "kernel_inv k'"
    by (rule event_Signal_kernel_inv [OF inv k'(1)])
  ultimately show ?thesis
    using k'(1) w wokenD(3,4) [OF wk] by (intro exI [of _ k'] exI [of _ ws]) simp
qed

lemma event_Signal_wakes_witness:
  "\<exists>k k'. demo_waiting = Some k \<and> event_Signal 3 k = Some k' \<and> status (threads k' 1) = Ready \<and>
     waiting_threads k' 3 = [] \<and> wait_objs k' 3 = WEvent \<lparr>event_reset = OneShot, event_signaled = False\<rparr>"
proof -
  obtain k where k: "demo_waiting = Some k" "reachable k" "waiting_threads k 3 = [1]" "status (threads k 1) = WaitSynchAny"
    "wait_objs k 3 = WEvent \<lparr>event_reset = OneShot, event_signaled = False\<rparr>"
    by (rule demo_waiting_spec)
  from event_Signal_wakes [OF k(2,5)] k show ?thesis
    by (auto simp: Let_def eligible_def ShouldWait_def ready_to_run_def)
qed

section \<open>Semaphores\<close>

lemma acquired_semaphore: "0 < available_count s \<Longrightarrow>
    acquired t (WSemaphore s) = WSemaphore (s\<lparr>available_count := available_count s - 1\<rparr>)"
  by (simp add: acquired_def)

lemma fold_acquired_semaphore:
  assumes "wakes (WSemaphore s) ws"
  shows "fold acquired ws (WSemaphore s) = WSemaphore (s\<lparr>available_count := available_count s - int (length ws)\<rparr>) \<and>
    (ws \<noteq> [] \<longrightarrow> int (length ws) \<le> available_count s)"
  using assms
proof (induction ws arbitrary: s)
  case (Cons t ws)
  then have pos: "0 < available_count s"
    by (simp add: should_wait_def)
  note a = acquired_semaphore [OF pos, of t]
  from Cons.prems have "wakes (WSemaphore (s\<lparr>available_count := available_count s - 1\<rparr>)) ws"
    by (simp add: a)
  from Cons.IH [OF this] pos show ?case
    by (cases "ws = []") (simp_all add: a)
qed simp

text \<open>releasing a semaphore beyond its maximum is refused and changes nothing. Otherwise the
  release returns the old count, and every unit is either handed to one woken thread or stays
  available; a thread that waits for any object is left waiting only when nothing is available.\<close>

lemma semaphore_Release_conserves:
  assumes "reachable k" "wait_objs k ob = WSemaphore s" "in_s32 (n + available_count s)"
  shows "if max_count s < n + available_count s
    then semaphore_Release ob n k = Some (k, Inl ResultOutOfRangeKernel)
    else \<exists>k' ws. semaphore_Release ob n k = Some (k', Inr (available_count s)) \<and> kernel_inv k' \<and>
      distinct ws \<and> set ws \<subseteq> set (waiting_threads k ob) \<and>
      (\<forall>u. status (threads k' u) = (if u \<in> set ws then Ready else status (threads k u))) \<and>
      (\<forall>x. waiting_threads k' x = filter (\<lambda>u. u \<notin> set ws) (waiting_threads k x)) \<and>
      wait_objs k' ob = WSemaphore (s\<lparr>available_count := available_count s + n - int (length ws)\<rparr>) \<and>
      (ws \<noteq> [] \<longrightarrow> int (length ws) \<le> available_count s + n) \<and>
      (int (length ws) < available_count s + n \<longrightarrow>
         (\<forall>u \<in> set (waiting_threads k ob). status (threads k u) \<noteq> WaitSynchAll \<longrightarrow> u \<in> set ws))"
proof (cases "max_count s < n + available_count s")
  case True
  with assms(2,3) show ?thesis by (simp add: semaphore_Release_def)
next
  case False
  note inv = reachable_inv [OF assms(1)]
  let ?s = "s\<lparr>available_count := available_count s + n\<rparr>"
  obtain k' ws where k': "semaphore_Release ob n k = Some (k', Inr (available_count s))"
    "woke_all ob (set_object ob (WSemaphore ?s) k) k' ws"
    by (rule semaphore_Release_spec [OF kernel_invD(1) [OF inv] assms(2,3)]) (use False in simp)
  note w = k'(2) [unfolded woke_all_def]
  have wk: "woken (set ws) (set_object ob (WSemaphore ?s) k) k'"
    using w by blast
  have fold: "fold acquired ws (WSemaphore ?s) = WSemaphore (s\<lparr>available_count := available_count s + n - int (length ws)\<rparr>)"
    "ws \<noteq> [] \<longrightarrow> int (length ws) \<le> available_count s + n"
    using fold_acquired_semaphore [of ?s ws] w by simp_all
  have "wait_objs k' ob = WSemaphore (s\<lparr>available_count := available_count s + n - int (length ws)\<rparr>)"
    using w fold(1) by (simp add: unpulse_def) (simp add: erase_prio_def [of "WSemaphore _"] erase_prio_event)
  moreover have "u \<in> set ws" if "int (length ws) < available_count s + n" "u \<in> set (waiting_threads k ob)"
    "status (threads k u) \<noteq> WaitSynchAll" for u
    using w that fold(1) by (auto simp: should_wait_def)
  moreover have "kernel_inv k'"
    by (rule semaphore_Release_kernel_inv [OF inv k'(1)])
  ultimately show ?thesis
    using False k'(1) w wokenD(3,4) [OF wk] fold(2) by (simp, intro exI [of _ k'] conjI exI [of _ ws]) simp_all
qed

definition demo_semaphore :: "unit kernel option" where
  "demo_semaphore = map_option (\<lambda>k. fst (CreateSemaphore 3 0 2 k)) demo_running"

lemma demo_semaphore_spec:
  obtains k where "demo_semaphore = Some k" "reachable k" "wait_objs k 3 = WSemaphore \<lparr>max_count = 2, available_count = 0\<rparr>"
    "waiting_threads k 3 = []"
proof -
  obtain k where k: "demo_running = Some k" "reachable k" "is_thread k = (\<lambda>t. t = 1)"
    "wait_objects (threads k 1) = []" "held_mutexes (threads k 1) = []"
    by (rule demo_running_spec) blast
  obtain k' r where c: "CreateSemaphore 3 0 2 k = (k', r)"
    by fastforce
  have "reachable k'"
    by (rule reachable.step [OF k(2) kernel_step.new_semaphore [OF fresh_3 [OF k(3-5)] c]])
  moreover have "demo_semaphore = Some k'"
    by (simp add: demo_semaphore_def k(1) c)
  moreover have "wait_objs k' 3 = WSemaphore \<lparr>max_count = 2, available_count = 0\<rparr>" "waiting_threads k' 3 = []"
    using c by (auto simp: CreateSemaphore_def)
  ultimately show thesis
    using that by blast
qed

lemma semaphore_Release_conserves_witness:
  "\<exists>k k'. demo_semaphore = Some k \<and> semaphore_Release 3 1 k = Some (k', Inr 0) \<and>
     wait_objs k' 3 = WSemaphore \<lparr>max_count = 2, available_count = 1\<rparr> \<and>
     semaphore_Release 3 3 k = Some (k, Inl ResultOutOfRangeKernel)"
proof -
  obtain k where k: "demo_semaphore = Some k" "reachable k" "wait_objs k 3 = WSemaphore \<lparr>max_count = 2, available_count = 0\<rparr>"
    "waiting_threads k 3 = []"
    by (rule demo_semaphore_spec)
  from semaphore_Release_conserves [OF k(2,3), of 1] semaphore_Release_conserves [OF k(2,3), of 3] k show ?thesis
    by (auto simp: in_s32_def)
qed

section \<open>Mutexes\<close>

lemma erase_prio_mutexE:
  assumes "erase_prio w = WMutex m"
  obtains m' where "w = WMutex m'" "lock_count m' = lock_count m" "holding_thread m' = holding_thread m"
  using assms by (cases w) (auto simp: erase_prio_def)

lemma wakes_mutex:
  assumes "wakes (WMutex m) ws" "distinct ws" "holding_thread m = None" "lock_count m = 0"
  shows "ws = [] \<or> (\<exists>t. ws = [t])"
proof (cases ws)
  case (Cons t us)
  with assms show ?thesis by (cases us) (auto simp: acquired_def should_wait_def)
qed simp

text \<open>C9: releasing a mutex. Only the holder can; a nested lock is just counted down. The last
  release either finds no thread that waits for any object, and the mutex is free, or hands the
  mutex, locked once, to one waiting thread, which becomes ready; that thread's priority is the best among
  the threads waiting for any object. Mutexes of other threads and their owners' lists are untouched.\<close>

theorem mutex_Release_hands_over:
  assumes "reachable k" "wait_objs k ob = WMutex m" "is_thread k t" "status (threads k t) = Running"
  shows "if holding_thread m \<noteq> Some t then mutex_Release ob t k = Some (k, ResultWrongLockingThread)
    else if lock_count m > 1
    then mutex_Release ob t k = Some (set_object ob (WMutex (m\<lparr>lock_count := lock_count m - 1\<rparr>)) k, ResultSuccess)
    else \<exists>k' m'. mutex_Release ob t k = Some (k', ResultSuccess) \<and> kernel_inv k' \<and> wait_objs k' ob = WMutex m' \<and>
      (holding_thread m' = None \<and> lock_count m' = 0 \<and>
         (\<forall>v \<in> set (waiting_threads k ob). status (threads k v) = WaitSynchAll) \<and>
         (\<forall>v. status (threads k' v) = status (threads k v)) \<or>
       (\<exists>u \<in> set (waiting_threads k ob). u \<noteq> t \<and> holding_thread m' = Some u \<and> lock_count m' = 1 \<and>
         (\<forall>v \<in> set (waiting_threads k ob). status (threads k v) \<noteq> WaitSynchAll \<longrightarrow>
            current_priority (threads k u) \<le> current_priority (threads k v)) \<and>
         (\<forall>v. status (threads k' v) = (if v = u then Ready else status (threads k v))) \<and>
         (\<forall>x. waiting_threads k' x = removeAll u (waiting_threads k x))))"
proof (cases "holding_thread m = Some t \<and> lock_count m \<le> 1")
  case False
  note inv = reachable_inv [OF assms(1)]
  show ?thesis
  proof (cases "holding_thread m = Some t")
    case True
    with False show ?thesis
      by - (rule mutex_Release_spec [OF kernel_invD(1) [OF inv] assms(2) True], simp_all)
  qed (use assms(2) in \<open>simp add: mutex_Release_def\<close>)
next
  case True
  note inv = reachable_inv [OF assms(1)]
  note K = kinv_parts [OF kernel_invD(1) [OF inv]]
  have t: "t \<notin> set (waiting_threads k ob)"
    using wait_invD(4) [OF K(2)] assms(4) by (fastforce simp: waits_on_objects_def)
  obtain k' k1 m1 ws where R: "lock_count m = 1" "mutex_Release ob t k = Some (k', ResultSuccess)" "kinv k1"
    "kframe k k1" "waiting_threads k1 = waiting_threads k" "wait_objs k1 = (wait_objs k)(ob := WMutex m1)"
    "holding_thread m1 = None" "lock_count m1 = 0" "\<And>u. u \<noteq> t \<Longrightarrow> threads k1 u = threads k u" "woke_all ob k1 k' ws"
    by (rule mutex_Release_spec [OF kernel_invD(1) [OF inv] assms(2) conjunct1 [OF True]]) (use True in \<open>linarith, blast\<close>)
  note w = R(10) [unfolded woke_all_def R(5,6) fun_upd_same]
  have st: "status (threads k1 v) = status (threads k v)" for v
    by (simp add: kframeD [OF R(4)])
  have wk: "woken (set ws) k1 k'"
    using w by blast
  have el: "eligible k1 ob v" if "status (threads k v) \<noteq> WaitSynchAll" for v
    using that R(6,8) by (simp add: eligible_def ShouldWait_def ready_to_run_def st)
  have inv': "kernel_inv k'"
    by (rule mutex_Release_kernel_inv [OF inv R(2)])
  from w R(7,8) consider "ws = []" | u where "ws = [u]"
    using wakes_mutex [of m1 ws] by auto
  then show ?thesis
  proof cases
    case 1
    with w obtain m' where m': "wait_objs k' ob = WMutex m'" "lock_count m' = 0" "holding_thread m' = None"
      by (auto simp: unpulse_def erase_prio_def [of "WMutex m1"] R(7,8) elim!: erase_prio_mutexE)
    have "status (threads k v) = WaitSynchAll" if "v \<in> set (waiting_threads k ob)" for v
    proof (rule ccontr)
      assume "status (threads k v) \<noteq> WaitSynchAll"
      from el [OF this] w 1 that show False by simp
    qed
    with m' R(1,2) inv' True wokenD(4) [OF wk] 1 st show ?thesis by auto
  next
    case (2 u)
    with w obtain m' where m': "wait_objs k' ob = WMutex m'" "lock_count m' = 1" "holding_thread m' = Some u"
      by (auto simp: unpulse_def acquired_def erase_prio_def [of "WMutex _"] R(7,8) elim!: erase_prio_mutexE)
    have u: "u \<in> set (waiting_threads k ob)" "u \<noteq> t"
      using w 2 t by auto
    have "best_of (eligible k1 ob) (\<lambda>u. current_priority (threads k1 u)) (waiting_threads k ob) u"
      using w 2 by simp
    then have best: "current_priority (threads k1 u) \<le> current_priority (threads k1 v)"
      if "v \<in> set (waiting_threads k ob)" "status (threads k v) \<noteq> WaitSynchAll" for v
      using el [OF that(2)] that(1) by (fastforce simp: best_of_def)
    have "current_priority (threads k u) \<le> current_priority (threads k v)"
      if "v \<in> set (waiting_threads k ob)" "status (threads k v) \<noteq> WaitSynchAll" for v
    proof -
      have "v \<noteq> t"
        using that t by auto
      with best [OF that] R(9) [OF u(2)] R(9) [of v] show ?thesis by simp
    qed
    moreover have "status (threads k' v) = (if v = u then Ready else status (threads k v))" for v
      using wokenD(4) [OF wk] 2 st by simp
    moreover have "waiting_threads k' x = removeAll u (waiting_threads k x)" for x
      using wokenD(3) [OF wk, of x] 2 R(5) by (auto simp: removeAll_filter_not_eq intro: filter_cong)
    ultimately show ?thesis
      using m' R(1,2) inv' True u by auto
  qed
qed

lemma demo_mutex_spec:
  obtains k m where "demo_mutex = Some k" "reachable k" "wait_objs k 3 = WMutex m" "holding_thread m = Some 1"
    "lock_count m = 1" "is_thread k = (\<lambda>t. t = 1)" "status (threads k 1) = Running" "waiting_threads k 3 = []"
    "length (managers k) = 2" "wait_objects (threads k 1) = []" "\<And>x m. x \<noteq> 3 \<Longrightarrow> wait_objs k x \<noteq> WMutex m"
proof -
  obtain k where k: "demo_running = Some k" "reachable k" "executes k 1" "is_thread k = (\<lambda>t. t = 1)"
    "wait_objects (threads k 1) = []" "held_mutexes (threads k 1) = []" "length (managers k) = 2"
    "\<And>x m. wait_objs k x \<noteq> WMutex m"
    by (rule demo_running_spec) blast
  let ?k = "set_waiting 3 [] (set_object 3 (WMutex \<lparr>lock_count = 0, mutex_priority = 0, holding_thread = None\<rparr>) k)"
  have th: "is_thread ?k = is_thread k" "is_thread ?k 1"
    using k(4) by (auto simp: is_thread_def fun_eq_iff set_waiting_def set_object_def split: if_splits)
  have inv: "kinv ?k"
    by (rule kinv_new_object [OF kernel_invD(1) [OF reachable_inv [OF k(2)]] fresh_3 [OF k(4-6)]])
      (simp_all add: mutex_view_def)
  have free: "\<not> ShouldWait ?k 3 1"
    by (simp add: ShouldWait_def)
  obtain k' where k': "Acquire 3 1 ?k = Some k'" "kframe ?k k'" "waiting_threads k' = waiting_threads ?k"
    "\<And>x. x \<noteq> 3 \<Longrightarrow> wait_objs k' x = wait_objs ?k x" "erase_prio (wait_objs k' 3) = erase_prio (acquired 1 (wait_objs ?k 3))"
    by (rule Acquire_frame [OF kinv_parts(1,3) [OF inv] th(2) free]) (rule that, assumption+)
  have "running_thread ?k = Some 1"
    using k(3) by (simp add: executes_def running_thread_def set_waiting_def set_object_def split: if_splits)
  with k'(1) have c: "CreateMutex 3 0 True k = Some k'"
    by (simp add: CreateMutex_def Let_def)
  have "reachable k'"
    by (rule reachable.step [OF k(2) kernel_step.new_mutex [OF fresh_3 [OF k(4-6)] k(3) c]])
  moreover have "demo_mutex = Some k'"
    by (simp add: demo_mutex_def k(1) c)
  moreover obtain m where "wait_objs k' 3 = WMutex m" "holding_thread m = Some 1" "lock_count m = 1"
    using k'(5) by (auto simp: acquired_def erase_prio_def [of "WMutex _"] elim!: erase_prio_mutexE)
  moreover have "status (threads k' 1) = Running" "is_thread k' = (\<lambda>t. t = 1)"
    using kframeD [OF k'(2)] k(3) th(1) k(4) by (simp_all add: executes_def)
  moreover have "length (managers k') = 2"
    using kframeD(2) [OF k'(2)] k(7) by (auto simp: rest_same_def dest: map_eq_imp_length_eq)
  moreover have "wait_objects (threads k' 1) = []"
    using kframeD(3) [OF k'(2)] k(5) by simp
  moreover have "wait_objs k' x \<noteq> WMutex m" if "x \<noteq> 3" for x m
    using k'(4) [OF that] k(8) that by simp
  ultimately show thesis
    using that [of k' m] k'(3) by simp
qed

lemma mutex_Release_hands_over_witness:
  "\<exists>k k' m. demo_mutex = Some k \<and> mutex_Release 3 1 k = Some (k', ResultSuccess) \<and> wait_objs k' 3 = WMutex m \<and>
     holding_thread m = None \<and> lock_count m = 0"
proof -
  obtain k m where k: "demo_mutex = Some k" "reachable k" "wait_objs k 3 = WMutex m" "holding_thread m = Some 1"
    "lock_count m = 1" "is_thread k = (\<lambda>t. t = 1)" "status (threads k 1) = Running" "waiting_threads k 3 = []"
    by (rule demo_mutex_spec) blast
  then have "is_thread k 1" by simp
  from mutex_Release_hands_over [OF k(2,3) this k(7)] k show ?thesis by auto
qed

section \<open>Priority inheritance\<close>

lemma best_waiter_min:
  "best_waiter k ts best = Min (insert best ((\<lambda>t. current_priority (threads k t)) ` set ts))"
proof (induction ts arbitrary: best)
  case (Cons t ts)
  have "finite ((\<lambda>t. current_priority (threads k t)) ` set ts)"
    by simp
  then have "Min (insert best (insert p ((\<lambda>t. current_priority (threads k t)) ` set ts))) =
      Min (insert (if p < best then p else best) ((\<lambda>t. current_priority (threads k t)) ` set ts))" for p
    by (cases "set ts = {}") (auto simp: min_def)
  with Cons.IH show ?case by simp
qed simp

text \<open>C12: when a thread starts to wait for a held mutex, the mutex takes the best priority among its
  waiting threads, the new one included; if that changes the mutex, its holder runs from then on at the
  best of its own nominal priority and the priorities of the mutexes it holds, so never below the new
  waiting thread. No other thread's priority changes.\<close>

theorem AddWaitingThread_inherits:
  assumes "reachable k" "wait_objs k ob = WMutex m" "holding_thread m = Some h" "is_thread k t"
    "t \<notin> set (waiting_threads k ob)"
  shows "\<exists>k' p. AddWaitingThread ob t k = Some k' \<and>
    p = Min ((\<lambda>u. current_priority (threads k u)) ` insert t (set (waiting_threads k ob))) \<and>
    waiting_threads k' = (waiting_threads k)(ob := waiting_threads k ob @ [t]) \<and>
    wait_objs k' = (wait_objs k)(ob := WMutex (m\<lparr>mutex_priority := p\<rparr>)) \<and>
    (\<forall>u. current_priority (threads k' u) =
       (if u = h \<and> p \<noteq> mutex_priority m
        then Min (insert (nominal_priority (threads k h))
               {q. \<exists>x \<in> set (held_mutexes (threads k h)). mutex_prio (wait_objs k' x) = Some q})
        else current_priority (threads k u))) \<and>
    (p \<noteq> mutex_priority m \<longrightarrow> current_priority (threads k' h) \<le> current_priority (threads k t))"
proof -
  note K = kinv_parts [OF kernel_invD(1) [OF reachable_inv [OF assms(1)]]]
  let ?pr = "\<lambda>u. current_priority (threads k u)" and ?ts = "waiting_threads k ob @ [t]"
  let ?k1 = "upd_thread t (\<lambda>th. th\<lparr>pending_mutexes := set_insert ob (pending_mutexes th)\<rparr>) (set_waiting ob ?ts k)"
  define p where "p = Min (?pr ` insert t (set (waiting_threads k ob)))"
  have nt: "\<not> is_thread k ob"
    using assms(2) by (simp add: is_thread_def)
  have hold: "is_thread k h" "ob \<in> set (held_mutexes (threads k h))"
    using mutex_inv_holder [OF K(3) assms(2,3)] by simp_all
  have le: "p \<le> ?pr t"
    by (simp add: p_def)
  have pr1: "(\<lambda>u. current_priority (threads ?k1 u)) = ?pr"
    by auto
  have "best_waiter ?k1 ?ts ThreadPrioLowest = Min (insert ThreadPrioLowest (?pr ` insert t (set (waiting_threads k ob))))"
    unfolding best_waiter_min pr1 by simp
  also have "\<dots> = p"
    using thread_okD(2) [OF K(1) assms(4)] le unfolding ThreadPrioLowest_def
    by (subst Min_insert) (simp_all add: p_def [symmetric] del: Min_insert image_insert)
  finally have best: "best_waiter ?k1 ?ts ThreadPrioLowest = p" .
  have add: "AddWaitingThread ob t k = mutex_UpdatePriority ob ?k1"
    using assms(2,5) by (simp add: AddWaitingThread_def Let_def)
  let ?k2 = "set_object ob (WMutex (m\<lparr>mutex_priority := p\<rparr>)) ?k1"
  show ?thesis
  proof (cases "p = mutex_priority m")
    case True
    then have "AddWaitingThread ob t k = Some ?k1"
      using assms(2,3) best by (simp add: add mutex_UpdatePriority_def)
    then show ?thesis
      unfolding p_def [symmetric] using True assms(2) by (intro exI [of _ ?k1] exI [of _ p]) auto
  next
    case False
    have i1: "sched_inv ?k1"
      using upd_pending_frame [of "set_waiting ob ?ts k"] K(1) by (simp add: pframe_def)
    then have i2: "sched_inv ?k2" "is_thread ?k2 h"
      using nt hold(1) by (auto simp: sched_inv_set_object is_thread_def)
    define b where "b = best_priority (wait_objs ?k2) (held_mutexes (threads ?k2 h)) (nominal_priority (threads ?k2 h))"
    obtain q where q: "UpdatePriority h ?k2 =
        Some (set_queue (core_id (threads ?k2 h)) q (upd_thread h (\<lambda>th. th\<lparr>current_priority := b\<rparr>) ?k2))"
      by (rule UpdatePriority_spec [OF i2 b_def])
    define k3 where "k3 = set_queue (core_id (threads ?k2 h)) q (upd_thread h (\<lambda>th. th\<lparr>current_priority := b\<rparr>) ?k2)"
    have run: "AddWaitingThread ob t k = Some k3"
      using assms(2,3) best False q by (simp add: add mutex_UpdatePriority_def k3_def)
    have same: "held_mutexes (threads ?k2 h) = held_mutexes (threads k h)"
      "nominal_priority (threads ?k2 h) = nominal_priority (threads k h)"
      by auto
    have objs: "wait_objs k3 = (wait_objs k)(ob := WMutex (m\<lparr>mutex_priority := p\<rparr>))" "wait_objs ?k2 = wait_objs k3"
      by (simp_all add: k3_def)
    let ?S = "insert (nominal_priority (threads k h))
        {q. \<exists>x \<in> set (held_mutexes (threads k h)). mutex_prio (wait_objs k3 x) = Some q}"
    have b: "b = Min ?S"
      unfolding b_def best_priority_min same objs(2) ..
    have "finite ?S"
      by (rule finite_subset [of _ "insert (nominal_priority (threads k h))
          ((\<lambda>x. the (mutex_prio (wait_objs k3 x))) ` set (held_mutexes (threads k h)))"]) (force simp: image_iff)+
    moreover have "p \<in> ?S"
      using hold(2) by (auto simp: objs(1) mutex_prio_def intro!: bexI [of _ ob])
    ultimately have "b \<le> p"
      unfolding b by (rule Min_le)
    with le have bt: "b \<le> ?pr t" by simp
    have cur: "current_priority (threads k3 u) = (if u = h then b else ?pr u)" for u
      by (simp add: k3_def)
    have w: "waiting_threads k3 = (waiting_threads k)(ob := ?ts)"
      by (simp add: k3_def)
    show ?thesis
      unfolding p_def [symmetric]
    proof (intro exI [of _ k3] exI [of _ p] conjI allI impI)
      show "current_priority (threads k3 u) = (if u = h \<and> p \<noteq> mutex_priority m then Min ?S else ?pr u)" for u
        using cur False by (simp only: b [symmetric]) simp
      show "current_priority (threads k3 h) \<le> ?pr t"
        using cur bt by simp
    qed (use run w objs(1) in simp_all)
  qed
qed

lemma mutex_inv_held:
  "mutex_inv k \<Longrightarrow> is_thread k t \<Longrightarrow> status (threads k t) \<noteq> Dead \<Longrightarrow> ob \<in> set (held_mutexes (threads k t)) \<Longrightarrow>
   \<exists>m. wait_objs k ob = WMutex m \<and> holding_thread m = Some t"
  unfolding mutex_inv_def by blast

text \<open>The holder of the mutex and a second thread, of better priority.\<close>

definition demo_contended :: "unit kernel option" where
  "demo_contended = demo_mutex \<bind> (\<lambda>k. map_option fst
     (CreateThread 2 0x100000 30 0 0 0x0F000000 0 Application True (Inr 0x1FF82200) True k))"

lemma demo_contended_spec:
  obtains k m where "demo_contended = Some k" "reachable k" "wait_objs k 3 = WMutex m" "holding_thread m = Some 1"
    "is_thread k 2" "waiting_threads k 3 = []" "current_priority (threads k 2) = 30"
proof -
  obtain k m where k: "demo_mutex = Some k" "reachable k" "wait_objs k 3 = WMutex m" "holding_thread m = Some 1"
    "is_thread k = (\<lambda>t. t = 1)" "waiting_threads k 3 = []" "length (managers k) = 2" "wait_objects (threads k 1) = []"
    "status (threads k 1) = Running" "\<And>x m. x \<noteq> 3 \<Longrightarrow> wait_objs k x \<noteq> WMutex m"
    by (rule demo_mutex_spec) blast
  note inv = reachable_inv [OF k(2)]
  note K = kinv_parts [OF kernel_invD(1) [OF inv]]
  have pre: "\<not> is_thread k 2" "0 < length (managers k)" "(0 :: nat) < 5" "0 < length (timers (timing k))" "30 < (64 :: nat)"
    using k(5,7) inv by (simp_all add: kernel_inv_def static_ok_def)
  have "is_thread k 1" "status (threads k 1) \<noteq> Dead"
    using k(5,9) by simp_all
  then have "2 \<notin> set (held_mutexes (threads k 1))"
    using mutex_inv_held [OF K(3)] k(10) [of 2] by force
  then have fr: "fresh k 2"
    using k(5,8) by (simp add: fresh_def)
  note spec = CreateThread_spec [OF K(1) pre, where entry = "0x100000" and arg = 0 and
      stack = "0x0F000000" and owner = 0 and category = Application and addr = "0x1FF82200" and to_ready = True]
  obtain k' where c: "CreateThread 2 0x100000 30 0 (int 0) 0x0F000000 0 Application True (Inr 0x1FF82200) True k = Some (k', Inr 2)"
    "is_thread k' = (is_thread k)(2 := True)" "current_priority (threads k' 2) = 30"
    by (rule spec) (rule that, assumption+)
  have "reachable k'"
    by (rule reachable.step [OF k(2) kernel_step.new_thread [OF fr c(1)]])
  moreover have "demo_contended = Some k'"
    using c(1) by (simp add: demo_contended_def k(1))
  moreover have "wait_objs k' 3 = WMutex m" "waiting_threads k' 3 = []"
    using CreateThread_effect(2,3) [OF c(1)] k(3,6) by simp_all
  ultimately show thesis
    using that [of k' m] c(2,3) k(4) by simp
qed

lemma AddWaitingThread_inherits_witness:
  "\<exists>k k' m. demo_contended = Some k \<and> AddWaitingThread 3 2 k = Some k' \<and> wait_objs k' 3 = WMutex m \<and>
     mutex_priority m = 30 \<and> waiting_threads k' 3 = [2]"
proof -
  obtain k m where k: "demo_contended = Some k" "reachable k" "wait_objs k 3 = WMutex m" "holding_thread m = Some 1"
    "is_thread k 2" "waiting_threads k 3 = []" "current_priority (threads k 2) = 30"
    by (rule demo_contended_spec)
  then have "2 \<notin> set (waiting_threads k 3)" by simp
  from AddWaitingThread_inherits [OF k(2-5) this] k show ?thesis by auto
qed

end
