(* ===== verification/Sync_Props.thy ===== *)
theory Sync_Props
  imports Kernel_Props
begin

text \<open>
  The properties of the waiting system calls, of wake-ups by timeout and of the end of a thread, in
  every reachable state.
\<close>

section \<open>Waiting for one object\<close>

lemma executesD:
  assumes "reachable k" "executes k t"
  shows "running_thread k = Some t" "status (threads k t) = Running" "is_thread k t" "kinv k" "timer_ok k"
  using assms running_is_thread [OF reachable_inv [OF assms(1)]] kernel_invD(1,6) [OF reachable_inv [OF assms(1)]]
  by (simp_all add: executes_def)

text \<open>\<open>WaitSynchronization1\<close>, called by the running thread, returns in every case. An unknown
  handle is refused, and with a timeout of zero an object that is not ready times out at once, both
  without any change. A ready object is acquired, no other object and no status changes. Otherwise the
  thread goes to sleep behind the others waiting for the object, and only for it.\<close>

lemma WaitSynchronization1_cases:
  assumes "reachable k" "executes k t"
  shows "case get_wait h of
      None \<Rightarrow> WaitSynchronization1 get_wait h ns k = Some (k, ResultInvalidHandle)
    | Some ob \<Rightarrow>
        if \<not> ShouldWait k ob t
        then \<exists>k'. WaitSynchronization1 get_wait h ns k = Some (k', ResultSuccess) \<and> kernel_inv k' \<and>
               erase_prio (wait_objs k' ob) = erase_prio (acquired t (wait_objs k ob)) \<and>
               (\<forall>x. x \<noteq> ob \<longrightarrow> wait_objs k' x = wait_objs k x) \<and> waiting_threads k' = waiting_threads k \<and>
               (\<forall>u. status (threads k' u) = status (threads k u))
        else if ns = 0 then WaitSynchronization1 get_wait h ns k = Some (k, ResultTimeout)
        else \<exists>k'. WaitSynchronization1 get_wait h ns k = Some (k', ResultTimeout) \<and> kernel_inv k' \<and>
               waiting_threads k' = (waiting_threads k)(ob := waiting_threads k ob @ [t]) \<and>
               wait_objects (threads k' t) = [ob] \<and>
               (\<forall>u. status (threads k' u) = (if u = t then WaitSynchAny else status (threads k u)))"
proof (cases "get_wait h")
  case None
  then show ?thesis by (simp add: WaitSynchronization1_def)
next
  case (Some ob)
  note E = executesD [OF assms]
  note inv = reachable_inv [OF assms(1)]
  show ?thesis
  proof (cases "ShouldWait k ob t")
    case False
    obtain k' where k': "Acquire ob t k = Some k'" "kframe k k'" "waiting_threads k' = waiting_threads k"
      "\<And>x. x \<noteq> ob \<Longrightarrow> wait_objs k' x = wait_objs k x" "erase_prio (wait_objs k' ob) = erase_prio (acquired t (wait_objs k ob))"
      by (rule Acquire_frame [OF kinv_parts(1,3) [OF E(4)] E(3) False]) (rule that, assumption+)
    with Some False E(1) Acquire_kernel_inv [OF inv E(3) False k'(1)] show ?thesis
      by (auto simp: WaitSynchronization1_def kframeD)
  next
    case True
    show ?thesis
    proof (cases "ns = 0")
      case True
      with Some E(1) \<open>ShouldWait k ob t\<close> show ?thesis
        by (simp add: WaitSynchronization1_def)
    next
      case False
      obtain k' where k': "WaitSynchronization1 get_wait h ns k = Some (k', ResultTimeout)" "asleep t [ob] WaitSynchAny False k k'"
        by (rule WaitSynchronization1_sleeps [where get_wait = get_wait and h = h, OF E(4,3,2,5) Some E(1) True False])
      have "waiting_threads k' = (waiting_threads k)(ob := waiting_threads k ob @ [t])"
        using asleepD(2) [OF k'(2)] by auto
      with Some True False k'(1) asleepD(3,4) [OF k'(2)] show ?thesis
        using WaitSynchronization1_kernel_inv [OF inv E(1,2) k'(1)] by simp
    qed
  qed
qed

lemma WaitSynchronization1_cases_witness:
  "\<exists>k k'. demo_event = Some k \<and> WaitSynchronization1 (\<lambda>h. if h = 7 then Some 3 else None) 8 5 k = Some (k, ResultInvalidHandle) \<and>
     WaitSynchronization1 (\<lambda>h. if h = 7 then Some 3 else None) 7 0 k = Some (k, ResultTimeout) \<and>
     WaitSynchronization1 (\<lambda>h. if h = 7 then Some 3 else None) 7 5 k = Some (k', ResultTimeout) \<and>
     waiting_threads k' 3 = [1]"
proof -
  obtain k where k: "demo_event = Some k" "reachable k" "executes k 1"
    "wait_objs k 3 = WEvent \<lparr>event_reset = OneShot, event_signaled = False\<rparr>" "\<And>x. waiting_threads k x = []"
    by (rule demo_event_spec) blast
  let ?g = "\<lambda>h :: u32. if h = 7 then Some 3 else None"
  note W = WaitSynchronization1_cases [OF k(2,3), where get_wait = ?g]
  from W [of 8 5] W [of 7 0] W [of 7 5] k(4,5) k(1) show ?thesis
    by (auto simp: ShouldWait_def)
qed

section \<open>Waiting for several objects\<close>



section \<open>Waiting, then signalling\<close>



section \<open>Timeouts\<close>

text \<open>the wake-up of a registered thread by timeout always returns. A thread that slept, in whatever
  way, becomes ready and leaves every waiting list; one that is ready, running or dead is left
  alone; no other thread changes its status.\<close>

lemma ThreadWakeupCallback_wakes:
  assumes "reachable k" "wakeup_callback_table (managers k ! c) tid = Some t" "is_thread k t"
  shows "\<exists>k'. ThreadWakeupCallback c tid k = Some k' \<and> kernel_inv k' \<and>
    (if status (threads k t) \<in> {Ready, Running, Dead} then status (threads k' t) = status (threads k t)
     else status (threads k' t) = Ready \<and> (\<forall>x. t \<notin> set (waiting_threads k' x))) \<and>
    (\<forall>u. u \<noteq> t \<longrightarrow> status (threads k' u) = status (threads k u))"
proof -
  obtain k' where k': "ThreadWakeupCallback c tid k = Some k'" "kernel_inv k'"
    "status (threads k' t) = (if resumable (status (threads k t)) then Ready else status (threads k t))"
    "\<And>x. resumable (status (threads k t)) \<Longrightarrow> t \<notin> set (waiting_threads k' x)"
    "\<And>u. u \<noteq> t \<Longrightarrow> core_of (threads k' u) = core_of (threads k u)"
    by (rule ThreadWakeupCallback_spec [OF reachable_inv [OF assms(1)] assms(2,3)]) (rule that, assumption+)
  have "status (threads k' u) = status (threads k u)" if "u \<noteq> t" for u
    using core_of_eqD(2) [OF k'(5) [OF that]] by simp
  with k'(1-4) show ?thesis
    by (auto simp: resumable_def split: if_splits)
qed

definition demo_dormant :: "unit kernel option" where
  "demo_dormant = map_option fst
     (CreateThread 1 0x100000 48 0 0 0x10000000 0 Application True (Inr 0x1FF82000) False
       (new_kernel 2 (new_timing 2 id 0) (ResourceLimitList False 0) ()))"

section \<open>The end of a thread\<close>

text \<open>C13: a running thread that exits gives up everything: it returns no matter what the thread owned,
  and afterwards the thread is dead, holds no mutex, waits for nothing and is off its core's list; every
  other thread is unchanged or was made ready.\<close>

theorem ExitCurrentThread_releases:
  assumes "reachable k" "c < length (managers k)" "current_thread (managers k ! c) = Some t"
    "status (threads k t) = Running" "tls_ok t k"
  shows "\<exists>k'. ExitCurrentThread c k = Some k' \<and> kernel_inv k' \<and> status (threads k' t) = Dead \<and>
    (\<forall>ob m. wait_objs k' ob = WMutex m \<longrightarrow> holding_thread m \<noteq> Some t) \<and>
    (\<forall>ob. t \<notin> set (waiting_threads k' ob)) \<and> t \<notin> set (thread_list (managers k' ! c)) \<and>
    (\<forall>u. u \<noteq> t \<longrightarrow> status (threads k' u) = status (threads k u) \<or> status (threads k' u) = Ready)"
proof -
  obtain k' k1 W where "ExitCurrentThread c k = Some k'" "step_ok k k'" "stopped t W k k1"
    "k' = PrepareReschedule (upd_manager c (\<lambda>m. m\<lparr>thread_list := removeAll t (thread_list m)\<rparr>) k1)"
    by (rule ExitCurrentThread_spec [OF reachable_inv [OF assms(1)] assms(2-5)])
  note R = this(1) step_okD(1) [OF this(2)] this(3,4)
  note S = R(3) [unfolded stopped_def]
  have "length (managers k1) = length (managers k)"
    using S map_eq_imp_length_eq by blast
  then have "t \<notin> set (thread_list (managers k' ! c))"
    using assms(2) by (simp add: R(4))
  moreover have "t \<notin> set (waiting_threads k' ob)" for ob
    using wait_invD(3) [OF kinv_parts(2) [OF kernel_invD(1) [OF R(2)]], of t ob] S by (auto simp: R(4))
  moreover have "status (threads k' u) = status (threads k u) \<or> status (threads k' u) = Ready" if "u \<noteq> t" for u
  proof -
    have "core_of (threads k1 u) = core_of (if u \<in> W then awake (threads k u) else threads k u)"
      using S that by blast
    from core_of_eqD(2) [OF this] show ?thesis
      by (simp add: R(4) awake_def split: if_splits)
  qed
  moreover have "holding_thread m \<noteq> Some t" if "wait_objs k' ob = WMutex m" for ob m
    using S that by (auto simp: held_by_def R(4))
  moreover have "status (threads k' t) = Dead"
    using S by (simp add: R(4))
  ultimately show ?thesis
    using R(1,2) by blast
qed

text \<open>The running thread, in a process with all its storage pages.\<close>

definition demo_exit :: "unit kernel option" where
  "demo_exit = map_option (\<lambda>k. k\<lparr>tls_slots := (\<lambda>_. replicate 0x100000 (replicate 8 True)),
     process_limit := (\<lambda>_. 0), resource_limits := [Create Application]\<rparr>) demo_running"

lemma demo_exit_spec:
  obtains k where "demo_exit = Some k" "reachable k" "0 < length (managers k)" "current_thread (managers k ! 0) = Some 1"
    "status (threads k 1) = Running" "tls_ok 1 k"
proof -
  obtain k where k: "demo_running = Some k" "reachable k" "executes k 1" "length (managers k) = 2"
    "current_thread (managers k ! 0) = Some 1"
    by (rule demo_running_spec) blast
  let ?k = "k\<lparr>tls_slots := (\<lambda>_. replicate 0x100000 (replicate 8 True)), process_limit := (\<lambda>_. 0),
      resource_limits := [Create Application]\<rparr>"
  have "reachable ?k"
    by (rule reachable.step [OF k(2) kernel_step.process_data])
  moreover have "unat (w :: u32) div 0x1000 < 0x100000" for w
    by (rule less_mult_imp_div_less) (simp add: unsigned_less [where 'a = nat, of w, simplified])
  then have "tls_ok 1 ?k"
    by (auto simp: tls_ok_def release_tls_def Let_def Release_def Create_def in_s32_def split: option.split)
  moreover have "demo_exit = Some ?k"
    by (simp add: demo_exit_def k(1))
  ultimately show thesis
    using that [of ?k] k(3-5) by (simp add: executes_def)
qed

lemma ExitCurrentThread_releases_witness:
  "\<exists>k k'. demo_exit = Some k \<and> ExitCurrentThread 0 k = Some k' \<and> status (threads k' 1) = Dead"
proof -
  obtain k where k: "demo_exit = Some k" "reachable k" "0 < length (managers k)" "current_thread (managers k ! 0) = Some 1"
    "status (threads k 1) = Running" "tls_ok 1 k"
    by (rule demo_exit_spec)
  from ExitCurrentThread_releases [OF k(2-6)] k(1) show ?thesis by auto
qed

lemma CreateThread_registers:
  assumes "CreateThread t entry p arg proc stack owner category v (Inr a) False k = Some (k', Inr t)"
    "nat proc < length (managers k)"
  shows "wakeup_callback_table (managers k' ! nat proc) (next_thread_id k) = Some t"
proof -
  note g = CreateThread_guards [OF assms(1)]
  show ?thesis
    using assms g by (auto simp: CreateThread_def Let_def register_thread_def on_queue_def bind_eq_Some_conv set_queue_def
        upd_manager_def split: if_splits)
qed

lemma ThreadWakeupCallback_wakes_witness:
  "\<exists>k k'. demo_dormant = Some k \<and> ThreadWakeupCallback 0 1 k = Some k' \<and> status (threads k' 1) = Ready"
proof -
  let ?k0 = "new_kernel 2 (new_timing 2 id 0) (ResourceLimitList False 0) ()"
  have pre: "\<not> is_thread ?k0 1" "0 < length (managers ?k0)" "(0 :: nat) < 5" "0 < length (timers (timing ?k0))" "48 < (64 :: nat)"
    by (simp_all add: new_kernel_simps length_timers_new_timing)
  note spec = CreateThread_spec [OF sched_inv_new_kernel pre, where entry = "0x100000" and arg = 0 and
      stack = "0x10000000" and owner = 0 and category = Application and addr = "0x1FF82000" and to_ready = False]
  obtain k where k: "CreateThread 1 0x100000 48 0 (int 0) 0x10000000 0 Application True (Inr 0x1FF82000) False ?k0 = Some (k, Inr 1)"
    "is_thread k = (is_thread ?k0)(1 := True)" "status (threads k 1) = (if False then Ready else Dormant)"
    by (rule spec) (rule that, assumption+)
  have "fresh ?k0 1"
    by (simp add: fresh_def new_kernel_simps)
  from reachable.step [OF reachable_new kernel_step.new_thread [OF this k(1)]] have "reachable k" .
  moreover have "wakeup_callback_table (managers k ! 0) 1 = Some 1"
    using CreateThread_registers [OF k(1)] by (simp add: new_kernel_simps) (simp add: new_kernel_def)
  moreover have "is_thread k 1"
    using k(2) by simp
  moreover have "demo_dormant = Some k"
    using k(1) by (simp add: demo_dormant_def)
  ultimately show ?thesis
    using ThreadWakeupCallback_wakes [of k 0 1 1] k(3) by auto
qed

end
