(* ===== verification/VM_Manager.thy ===== *)
theory VM_Manager
  imports Result_Codes
begin

text \<open>
  The address space of a process (\<open>core/hle/kernel/vm_manager.cpp\<close>): the map of virtual memory areas
  and the page table kept in step with it (\<open>MapPages\<close> of \<open>core/memory.cpp\<close>).

  \<^item> \<open>vma_map\<close>, a map keyed by the base of each area, is the list of the areas in the order of the
    map; an iterator is an index into it, the length stands for \<open>end()\<close>. Dereferencing \<open>end()\<close>,
    or stepping before the first element, is undefined behaviour and gives \<open>None\<close>.
  \<^item> Addresses and sizes are natural numbers below \<open>2 ^ 32\<close>, sums of them are taken modulo \<open>2 ^ 32\<close>.
  \<^item> A \<open>MemoryRef\<close> is the host address it points to with the number of bytes behind it; the null
    reference has address 0. The host-side mirror of the page table (\<open>fastmem_arena\<close>), the flush of
    the rasterizer cache and the notification of the plugin loader are left out.
\<close>

section \<open>Host memory and the page table\<close>

record memory_ref =
  ref_ptr :: nat
  ref_size :: nat

definition null_ref :: memory_ref where
  "null_ref = \<lparr>ref_ptr = 0, ref_size = 0\<rparr>"

text \<open>\<open>MemoryRef::operator+=\<close> and \<open>operator+\<close>.\<close>

definition ref_add :: "nat \<Rightarrow> memory_ref \<Rightarrow> memory_ref option" where
  "ref_add n r = do {
     assertion (n < ref_size r);
     Some \<lparr>ref_ptr = ref_ptr r + n, ref_size = ref_size r - n\<rparr> }"

definition CITRA_PAGE_SIZE :: nat where "CITRA_PAGE_SIZE = 0x1000"
definition PAGE_TABLE_NUM_ENTRIES :: nat where "PAGE_TABLE_NUM_ENTRIES = 2 ^ 20"

datatype PageType =
  Unmapped | Memory | RasterizerCachedMemory | MemoryWatchpoint | RasterizerCachedMemoryWatchpoint

record page_table =
  attributes :: "nat \<Rightarrow> PageType"
  pointers :: "nat \<Rightarrow> memory_ref"

definition clear_page_table :: "page_table \<Rightarrow> page_table" where
  "clear_page_table pt = \<lparr>attributes = (\<lambda>_. Unmapped), pointers = (\<lambda>_. null_ref)\<rparr>"

text \<open>\<open>cached\<close> answers whether the page at an address is marked in the rasterizer cache.\<close>

definition map_page :: "(nat \<Rightarrow> bool) \<Rightarrow> PageType \<Rightarrow> nat \<Rightarrow> memory_ref \<Rightarrow> page_table \<Rightarrow> page_table" where
  "map_page cached type base mem pt =
     (let pt = pt\<lparr>attributes := (attributes pt)(base := type), pointers := (pointers pt)(base := mem)\<rparr> in
      if type = Memory \<and> cached (base * CITRA_PAGE_SIZE)
      then pt\<lparr>attributes := (attributes pt)(base := RasterizerCachedMemory),
              pointers := (pointers pt)(base := null_ref)\<rparr>
      else pt)"

fun MapPages ::
  "(nat \<Rightarrow> bool) \<Rightarrow> PageType \<Rightarrow> nat \<Rightarrow> nat \<Rightarrow> memory_ref \<Rightarrow> page_table \<Rightarrow> page_table option" where
  "MapPages cached type base 0 mem pt = Some pt"
| "MapPages cached type base (Suc n) mem pt = do {
     assertion (base < PAGE_TABLE_NUM_ENTRIES);
     let pt = map_page cached type base mem pt;
     mem \<leftarrow> (if ref_ptr mem \<noteq> 0 \<and> ref_size mem > CITRA_PAGE_SIZE then ref_add CITRA_PAGE_SIZE mem
            else Some mem);
     MapPages cached type (base + 1) n mem pt }"

definition page_aligned :: "nat \<Rightarrow> bool" where
  "page_aligned n \<longleftrightarrow> n mod CITRA_PAGE_SIZE = 0"

text \<open>What \<open>MapMemoryRegion\<close> and \<open>UnmapRegion\<close> share.\<close>

definition map_region ::
  "(nat \<Rightarrow> bool) \<Rightarrow> PageType \<Rightarrow> nat \<Rightarrow> nat \<Rightarrow> memory_ref \<Rightarrow> page_table \<Rightarrow> page_table option" where
  "map_region cached type base len mem pt = do {
     assertion (page_aligned len \<and> page_aligned base);
     MapPages cached type (base div CITRA_PAGE_SIZE) (len div CITRA_PAGE_SIZE) mem pt }"

definition MapMemoryRegion ::
  "(nat \<Rightarrow> bool) \<Rightarrow> nat \<Rightarrow> nat \<Rightarrow> memory_ref \<Rightarrow> page_table \<Rightarrow> page_table option" where
  "MapMemoryRegion cached base len target pt = map_region cached Memory base len target pt"

definition UnmapRegion :: "(nat \<Rightarrow> bool) \<Rightarrow> nat \<Rightarrow> nat \<Rightarrow> page_table \<Rightarrow> page_table option" where
  "UnmapRegion cached base len pt = map_region cached Unmapped base len null_ref pt"

section \<open>Areas\<close>

datatype VMAType = Free | BackingMemory

datatype MemoryState =
  StFree | StReserved | StIO | StStatic | StCode | StPrivate | StShared | StContinuous | StAliased |
  StAlias | StAliasCode | StLocked

text \<open>\<open>VMAPermission\<close>: bit 0 read, bit 1 write, bit 2 execute.\<close>

definition PermNone :: u8 where "PermNone = 0"
definition PermRead :: u8 where "PermRead = 1"
definition PermReadWrite :: u8 where "PermReadWrite = 3"

record vma =
  vma_base :: nat
  vma_size :: nat
  vma_type :: VMAType
  vma_perms :: u8
  vma_state :: MemoryState
  vma_backing :: memory_ref

record vm =
  vma_map :: "vma list"
  page_tbl :: page_table
  vm_locked :: bool

definition MAX_ADDRESS :: nat where
  "MAX_ADDRESS = 0x40000000"

definition add32 :: "nat \<Rightarrow> nat \<Rightarrow> nat" where
  "add32 a b = (a + b) mod 2 ^ 32"

definition sub32 :: "nat \<Rightarrow> nat \<Rightarrow> nat" where
  "sub32 a b = (a + 2 ^ 32 - b) mod 2 ^ 32"

definition CanBeMergedWith :: "vma \<Rightarrow> vma \<Rightarrow> bool option" where
  "CanBeMergedWith v next = do {
     assertion (add32 (vma_base v) (vma_size v) = vma_base next);
     Some (\<not> (vma_perms v \<noteq> vma_perms next \<or> vma_state v \<noteq> vma_state next \<or> vma_type v \<noteq> vma_type next) \<and>
       \<not> (vma_type v = BackingMemory \<and> ref_ptr (vma_backing v) + vma_size v \<noteq> ref_ptr (vma_backing next))) }"

text \<open>\<open>upper_bound\<close> and \<open>lower_bound\<close> of the map.\<close>

definition upper_bound :: "nat \<Rightarrow> vma list \<Rightarrow> nat" where
  "upper_bound a m = length (takeWhile (\<lambda>v. vma_base v \<le> a) m)"

definition lower_bound :: "nat \<Rightarrow> vma list \<Rightarrow> nat" where
  "lower_bound a m = length (takeWhile (\<lambda>v. vma_base v < a) m)"

definition FindVMA :: "nat \<Rightarrow> vma list \<Rightarrow> nat option" where
  "FindVMA target m =
     (if target \<ge> MAX_ADDRESS then Some (length m)
      else if upper_bound target m = 0 then None else Some (upper_bound target m - 1))"

section \<open>Splitting and merging\<close>

definition SplitVMA :: "nat \<Rightarrow> nat \<Rightarrow> vma list \<Rightarrow> (vma list \<times> nat) option" where
  "SplitVMA i offset m = do {
     assertion (i < length m);
     let old = m ! i;
     assertion (offset < vma_size old \<and> offset > 0);
     let left = old\<lparr>vma_size := offset\<rparr>;
     let right = old\<lparr>vma_base := vma_base old + offset, vma_size := vma_size old - offset\<rparr>;
     right \<leftarrow> (case vma_type right of
         Free \<Rightarrow> Some right
       | BackingMemory \<Rightarrow> do {
           b \<leftarrow> ref_add offset (vma_backing right);
           Some (right\<lparr>vma_backing := b\<rparr>) });
     merge \<leftarrow> CanBeMergedWith left right;
     assertion merge;
     Some (take i m @ left # right # drop (Suc i) m, Suc i) }"

definition merge_next :: "nat \<Rightarrow> vma list \<Rightarrow> vma list option" where
  "merge_next i m =
     (if Suc i < length m
      then do {
        merge \<leftarrow> CanBeMergedWith (m ! i) (m ! Suc i);
        Some (if merge
              then take i m @ (m ! i)\<lparr>vma_size := vma_size (m ! i) + vma_size (m ! Suc i)\<rparr> # drop (i + 2) m
              else m) }
      else Some m)"

definition merge_prev :: "nat \<Rightarrow> vma list \<Rightarrow> (vma list \<times> nat) option" where
  "merge_prev i m =
     (if i > 0
      then do {
        merge \<leftarrow> CanBeMergedWith (m ! (i - 1)) (m ! i);
        Some (if merge
              then (take (i - 1) m @
                    (m ! (i - 1))\<lparr>vma_size := vma_size (m ! (i - 1)) + vma_size (m ! i)\<rparr> # drop (i + 1) m, i - 1)
              else (m, i)) }
      else Some (m, i))"

definition MergeAdjacent :: "nat \<Rightarrow> vma list \<Rightarrow> (vma list \<times> nat) option" where
  "MergeAdjacent i m = do {
     assertion (i < length m);
     m \<leftarrow> merge_next i m;
     merge_prev i m }"

definition UpdatePageTableForVMA :: "(nat \<Rightarrow> bool) \<Rightarrow> vma \<Rightarrow> vm \<Rightarrow> vm option" where
  "UpdatePageTableForVMA cached v vm = do {
     pt \<leftarrow> (case vma_type v of
         Free \<Rightarrow> UnmapRegion cached (vma_base v) (vma_size v) (page_tbl vm)
       | BackingMemory \<Rightarrow> MapMemoryRegion cached (vma_base v) (vma_size v) (vma_backing v) (page_tbl vm));
     Some (vm\<lparr>page_tbl := pt\<rparr>) }"

text \<open>What the operations on one area share: change it, update the page table, merge.\<close>

definition modify_vma :: "(nat \<Rightarrow> bool) \<Rightarrow> (vma \<Rightarrow> vma) \<Rightarrow> nat \<Rightarrow> vm \<Rightarrow> (vm \<times> nat) option" where
  "modify_vma cached f i vm = do {
     assertion (i < length (vma_map vm));
     let v = f (vma_map vm ! i);
     vm \<leftarrow> UpdatePageTableForVMA cached v (vm\<lparr>vma_map := (vma_map vm)[i := v]\<rparr>);
     (m, j) \<leftarrow> MergeAdjacent i (vma_map vm);
     Some (vm\<lparr>vma_map := m\<rparr>, j) }"

section \<open>Carving\<close>

definition CarveVMA :: "nat \<Rightarrow> nat \<Rightarrow> vma list \<Rightarrow> (vma list \<times> (u32 + nat)) option" where
  "CarveVMA base len m = do {
     assertion (page_aligned len \<and> page_aligned base);
     i \<leftarrow> FindVMA base m;
     if i = length m then Some (m, Inl ResultInvalidAddress)
     else if vma_type (m ! i) \<noteq> Free then Some (m, Inl ResultInvalidAddressState)
     else do {
       let start_in_vma = base - vma_base (m ! i);
       let end_in_vma = add32 start_in_vma len;
       if end_in_vma > vma_size (m ! i) then Some (m, Inl ResultInvalidAddressState)
       else do {
         m \<leftarrow> (if end_in_vma \<noteq> vma_size (m ! i) then map_option fst (SplitVMA i end_in_vma m) else Some m);
         (m, i) \<leftarrow> (if start_in_vma \<noteq> 0 then SplitVMA i start_in_vma m else Some (m, i));
         Some (m, Inr i) } } }"

definition CarveVMARange :: "nat \<Rightarrow> nat \<Rightarrow> vma list \<Rightarrow> (vma list \<times> (u32 + nat)) option" where
  "CarveVMARange target len m = do {
     assertion (page_aligned len \<and> page_aligned target);
     let target_end = add32 target len;
     assertion (target_end \<ge> target \<and> target_end \<le> MAX_ADDRESS \<and> len > 0);
     i \<leftarrow> FindVMA target m;
     let e = lower_bound target_end m;
     assertion (i \<le> e);
     if \<exists>v \<in> set (take (e - i) (drop i m)). vma_type v = Free then Some (m, Inl ResultInvalidAddressState)
     else do {
       assertion (i < length m);
       (m, i) \<leftarrow> (if target \<noteq> vma_base (m ! i) then SplitVMA i (target - vma_base (m ! i)) m else Some (m, i));
       j \<leftarrow> FindVMA target_end m;
       m \<leftarrow> (if j \<noteq> length m \<and> target_end \<noteq> vma_base (m ! j)
            then map_option fst (SplitVMA j (target_end - vma_base (m ! j)) m) else Some m);
       Some (m, Inr i) } }"

section \<open>Operations\<close>

definition Reset :: "(nat \<Rightarrow> bool) \<Rightarrow> vm \<Rightarrow> vm option" where
  "Reset cached vm = do {
     assertion (\<not> vm_locked vm);
     let initial = \<lparr>vma_base = 0, vma_size = MAX_ADDRESS, vma_type = Free, vma_perms = PermNone,
                    vma_state = StFree, vma_backing = null_ref\<rparr>;
     UpdatePageTableForVMA cached initial
       (vm\<lparr>vma_map := [initial], page_tbl := clear_page_table (page_tbl vm)\<rparr>) }"

definition MapBackingMemory ::
  "(nat \<Rightarrow> bool) \<Rightarrow> nat \<Rightarrow> memory_ref \<Rightarrow> nat \<Rightarrow> MemoryState \<Rightarrow> vm \<Rightarrow> (vm \<times> (u32 + nat)) option" where
  "MapBackingMemory cached target mem len state vm = do {
     assertion (\<not> vm_locked vm);
     assertion (ref_ptr mem \<noteq> 0);
     (m, r) \<leftarrow> CarveVMA target len (vma_map vm);
     (case r of
        Inl e \<Rightarrow> Some (vm, Inl e)
      | Inr i \<Rightarrow> do {
          assertion (vma_size (m ! i) = len);
          (vm, j) \<leftarrow> modify_vma cached (\<lambda>v. v\<lparr>vma_type := BackingMemory, vma_perms := PermReadWrite,
              vma_state := state, vma_backing := mem\<rparr>) i (vm\<lparr>vma_map := m\<rparr>);
          Some (vm, Inr j) }) }"

text \<open>\<open>std::find_if\<close> over the areas; \<open>vma_handle->second\<close> is read before the test for \<open>end()\<close>.\<close>

definition MapBackingMemoryToBase ::
  "(nat \<Rightarrow> bool) \<Rightarrow> nat \<Rightarrow> nat \<Rightarrow> memory_ref \<Rightarrow> nat \<Rightarrow> MemoryState \<Rightarrow> vm \<Rightarrow> (vm \<times> (u32 + nat)) option" where
  "MapBackingMemoryToBase cached base region_size mem len state vm = do {
     assertion (\<not> vm_locked vm);
     v \<leftarrow> List.find (\<lambda>v. vma_type v = Free \<and>
           (let vma_end = add32 (vma_base v) (vma_size v) in vma_end > base \<and> vma_end \<ge> add32 base len))
         (vma_map vm);
     let target = max base (vma_base v);
     if add32 target len > add32 base region_size then Some (vm, Inl ResultOutOfMemory)
     else do {
       (vm, r) \<leftarrow> MapBackingMemory cached target mem len state vm;
       Some (vm, map_sum id (\<lambda>_. target) r) } }"

definition Unmap :: "(nat \<Rightarrow> bool) \<Rightarrow> nat \<Rightarrow> vm \<Rightarrow> (vm \<times> nat) option" where
  "Unmap cached i vm = do {
     assertion (\<not> vm_locked vm);
     modify_vma cached (\<lambda>v. v\<lparr>vma_type := Free, vma_perms := PermNone, vma_state := StFree,
         vma_backing := null_ref\<rparr>) i vm }"

definition Reprotect :: "(nat \<Rightarrow> bool) \<Rightarrow> u8 \<Rightarrow> nat \<Rightarrow> vm \<Rightarrow> (vm \<times> nat) option" where
  "Reprotect cached new_perms i vm = do {
     assertion (\<not> vm_locked vm);
     modify_vma cached (\<lambda>v. v\<lparr>vma_perms := new_perms\<rparr>) i vm }"

text \<open>The loop over the areas below an address; each step goes on behind the area it returns.\<close>

partial_function (option) for_range ::
  "(nat \<Rightarrow> vm \<Rightarrow> (vm \<times> nat) option) \<Rightarrow> nat \<Rightarrow> nat \<Rightarrow> vm \<Rightarrow> vm option" where
  "for_range f target_end i vm =
     (if i < length (vma_map vm) \<and> vma_base (vma_map vm ! i) < target_end
      then Option.bind (f i vm) (\<lambda>(vm, j). for_range f target_end (Suc j) vm)
      else Some vm)"

definition UnmapRange :: "(nat \<Rightarrow> bool) \<Rightarrow> nat \<Rightarrow> nat \<Rightarrow> vm \<Rightarrow> (vm \<times> u32) option" where
  "UnmapRange cached target len vm = do {
     assertion (\<not> vm_locked vm);
     (m, r) \<leftarrow> CarveVMARange target len (vma_map vm);
     (case r of
        Inl e \<Rightarrow> Some (vm, e)
      | Inr i \<Rightarrow> do {
          vm \<leftarrow> for_range (Unmap cached) (add32 target len) i (vm\<lparr>vma_map := m\<rparr>);
          j \<leftarrow> FindVMA target (vma_map vm);
          assertion (j < length (vma_map vm) \<and> vma_size (vma_map vm ! j) \<ge> len);
          Some (vm, ResultSuccess) }) }"

definition ReprotectRange :: "(nat \<Rightarrow> bool) \<Rightarrow> nat \<Rightarrow> nat \<Rightarrow> u8 \<Rightarrow> vm \<Rightarrow> (vm \<times> u32) option" where
  "ReprotectRange cached target len new_perms vm = do {
     assertion (\<not> vm_locked vm);
     (m, r) \<leftarrow> CarveVMARange target len (vma_map vm);
     (case r of
        Inl e \<Rightarrow> Some (vm, e)
      | Inr i \<Rightarrow> do {
          vm \<leftarrow> for_range (Reprotect cached new_perms) (add32 target len) i (vm\<lparr>vma_map := m\<rparr>);
          Some (vm, ResultSuccess) }) }"

definition ChangeMemoryState ::
  "(nat \<Rightarrow> bool) \<Rightarrow> nat \<Rightarrow> nat \<Rightarrow> MemoryState \<Rightarrow> u8 \<Rightarrow> MemoryState \<Rightarrow> u8 \<Rightarrow> vm \<Rightarrow> (vm \<times> u32) option" where
  "ChangeMemoryState cached target len expected_state expected_perms new_state new_perms vm =
     (if vm_locked vm then Some (vm, ResultSuccess)
      else do {
        let m = vma_map vm;
        let target_end = add32 target len;
        i \<leftarrow> FindVMA target m;
        let e = lower_bound target_end m;
        if i = length m then Some (vm, ResultInvalidAddress)
        else do {
          assertion (i \<le> e);
          if \<exists>v \<in> set (take (e - i) (drop i m)).
               vma_state v \<noteq> expected_state \<or> vma_perms v AND expected_perms \<noteq> expected_perms
          then Some (vm, ResultInvalidAddressState)
          else do {
            (m, r) \<leftarrow> CarveVMARange target len m;
            (case r of
               Inl err \<Rightarrow> Some (vm, err)
             | Inr i \<Rightarrow> do {
                 vm \<leftarrow> for_range (\<lambda>i. modify_vma cached (\<lambda>v. v\<lparr>vma_perms := new_perms, vma_state := new_state\<rparr>) i)
                        target_end i (vm\<lparr>vma_map := m\<rparr>);
                 Some (vm, ResultSuccess) }) } } })"

text \<open>The blocks behind a range; the loop ends when the position reaches the end exactly.\<close>

partial_function (option) backing_blocks_loop ::
  "nat \<Rightarrow> nat \<Rightarrow> (memory_ref \<times> nat) list \<Rightarrow> vma list \<Rightarrow> (u32 + (memory_ref \<times> nat) list) option" where
  "backing_blocks_loop pos range_end blocks m =
     (if pos = range_end then Some (Inr blocks)
      else Option.bind (FindVMA pos m) (\<lambda>i.
        if i = length m then None
        else if vma_type (m ! i) \<noteq> BackingMemory then Some (Inl ResultInvalidAddressState)
        else
          (let stop = min range_end (add32 (vma_base (m ! i)) (vma_size (m ! i)))
           in Option.bind (ref_add (pos - vma_base (m ! i)) (vma_backing (m ! i))) (\<lambda>b.
                backing_blocks_loop (add32 pos (sub32 stop pos)) range_end (blocks @ [(b, sub32 stop pos)]) m))))"

definition GetBackingBlocksForRange ::
  "nat \<Rightarrow> nat \<Rightarrow> vm \<Rightarrow> (u32 + (memory_ref \<times> nat) list) option" where
  "GetBackingBlocksForRange address len vm = backing_blocks_loop address (add32 address len) [] (vma_map vm)"

definition vm_Unlock :: "vm \<Rightarrow> vm" where
  "vm_Unlock vm = vm\<lparr>vm_locked := False\<rparr>"

end
