(* ===== verification/Memory_Region.thy ===== *)
theory Memory_Region
  imports VM_Manager
begin

text \<open>
  The physical memory of the kernel (\<open>core/hle/kernel/memory.cpp\<close>): the three regions of FCRAM and the
  allocation of blocks in them.

  The free blocks are a \<open>boost::icl::interval_set<u32>\<close>: a set of numbers kept as ascending
  right-open intervals, neighbours joined. Its operations are written out on the list of intervals
  \<open>iv_\<close>\dots; the locale \<open>interval_set\<close> states what the allocator relies on.
\<close>

section \<open>Interval sets\<close>

type_synonym interval = "nat \<times> nat"
type_synonym intervals = "interval list"

text \<open>\<open>set += [a, b)\<close> and \<open>set -= [a, b)\<close>; an empty interval changes nothing.\<close>

fun iv_join :: "interval \<Rightarrow> intervals \<Rightarrow> intervals" where
  "iv_join (a, b) [] = [(a, b)]"
| "iv_join (a, b) ((c, d) # xs) =
     (if b < c then (a, b) # (c, d) # xs
      else if d < a then (c, d) # iv_join (a, b) xs
      else iv_join (min a c, max b d) xs)"

definition iv_add :: "interval \<Rightarrow> intervals \<Rightarrow> intervals" where
  "iv_add i xs = (if fst i < snd i then iv_join i xs else xs)"

fun iv_cut :: "interval \<Rightarrow> intervals \<Rightarrow> intervals" where
  "iv_cut (a, b) [] = []"
| "iv_cut (a, b) ((c, d) # xs) =
     (if c < min d a then [(c, min d a)] else []) @ (if max c b < d then [(max c b, d)] else []) @ iv_cut (a, b) xs"

definition iv_sub :: "interval \<Rightarrow> intervals \<Rightarrow> intervals" where
  "iv_sub i xs = (if fst i < snd i then iv_cut i xs else xs)"

definition iv_contains :: "intervals \<Rightarrow> interval \<Rightarrow> bool" where
  "iv_contains xs i \<longleftrightarrow> snd i \<le> fst i \<or> (\<exists>(c, d) \<in> set xs. c \<le> fst i \<and> snd i \<le> d)"

definition iv_intersects :: "intervals \<Rightarrow> interval \<Rightarrow> bool" where
  "iv_intersects xs i \<longleftrightarrow> (\<exists>(c, d) \<in> set xs. max c (fst i) < min d (snd i))"

definition iv_add_all :: "intervals \<Rightarrow> intervals \<Rightarrow> intervals" where
  "iv_add_all ys xs = foldl (\<lambda>xs i. iv_add i xs) xs ys"

definition iv_sub_all :: "intervals \<Rightarrow> intervals \<Rightarrow> intervals" where
  "iv_sub_all ys xs = foldl (\<lambda>xs i. iv_sub i xs) xs ys"

section \<open>Regions\<close>

record memory_region =
  rg_base :: nat
  rg_size :: nat
  rg_used :: nat
  free_blocks :: intervals
  rg_locked :: bool

definition region_Reset :: "nat \<Rightarrow> nat \<Rightarrow> memory_region \<Rightarrow> memory_region option" where
  "region_Reset base len r = do {
     assertion (\<not> rg_locked r);
     Some (r\<lparr>rg_base := base, rg_size := len, rg_used := 0, free_blocks := iv_add (base, add32 base len) []\<rparr>) }"

text \<open>The loop from the highest block down: what is still missing, and the blocks taken.\<close>

fun heap_loop :: "nat \<Rightarrow> intervals \<Rightarrow> intervals \<Rightarrow> nat \<times> intervals" where
  "heap_loop rest [] result = (rest, result)"
| "heap_loop rest ((l, u) # blocks) result =
     (if u - l \<ge> rest then (0, iv_add (u - rest, u) result)
      else heap_loop (rest - (u - l)) blocks (iv_add (l, u) result))"

definition region_HeapAllocate :: "nat \<Rightarrow> memory_region \<Rightarrow> (memory_region \<times> intervals) option" where
  "region_HeapAllocate len r = do {
     assertion (\<not> rg_locked r);
     let (rest, result) = heap_loop len (rev (free_blocks r)) [];
     Some (if rest \<noteq> 0 then (r, [])
           else (r\<lparr>free_blocks := iv_sub_all result (free_blocks r), rg_used := add32 (rg_used r) len\<rparr>, result)) }"

definition region_LinearAllocate_at :: "nat \<Rightarrow> nat \<Rightarrow> memory_region \<Rightarrow> (memory_region \<times> bool) option" where
  "region_LinearAllocate_at offset len r = do {
     assertion (\<not> rg_locked r);
     let i = (offset, add32 offset len);
     Some (if \<not> iv_contains (free_blocks r) i then (r, False)
           else (r\<lparr>free_blocks := iv_sub i (free_blocks r), rg_used := add32 (rg_used r) len\<rparr>, True)) }"

definition region_LinearAllocate :: "nat \<Rightarrow> memory_region \<Rightarrow> (memory_region \<times> nat option) option" where
  "region_LinearAllocate len r = do {
     assertion (\<not> rg_locked r);
     Some (case List.find (\<lambda>(l, u). u - l \<ge> len) (free_blocks r) of
         Some (l, u) \<Rightarrow>
           (r\<lparr>free_blocks := iv_sub (l, l + len) (free_blocks r), rg_used := add32 (rg_used r) len\<rparr>, Some l)
       | None \<Rightarrow> (r, None)) }"

definition region_RLinearAllocate :: "nat \<Rightarrow> memory_region \<Rightarrow> (memory_region \<times> nat option) option" where
  "region_RLinearAllocate len r = do {
     assertion (\<not> rg_locked r);
     Some (case List.find (\<lambda>(l, u). u - l \<ge> len) (rev (free_blocks r)) of
         Some (l, u) \<Rightarrow>
           (r\<lparr>free_blocks := iv_sub (u - len, u) (free_blocks r), rg_used := add32 (rg_used r) len\<rparr>, Some (u - len))
       | None \<Rightarrow> (r, None)) }"

definition region_Free :: "nat \<Rightarrow> nat \<Rightarrow> memory_region \<Rightarrow> memory_region option" where
  "region_Free offset len r =
     (if rg_locked r then Some r
      else do {
        let i = (offset, add32 offset len);
        assertion (\<not> iv_intersects (free_blocks r) i);
        Some (r\<lparr>free_blocks := iv_add i (free_blocks r), rg_used := sub32 (rg_used r) len\<rparr>) })"

definition region_Unlock :: "memory_region \<Rightarrow> memory_region" where
  "region_Unlock r = r\<lparr>rg_locked := False\<rparr>"

section \<open>The layout of FCRAM\<close>

definition FCRAM_SIZE :: nat where "FCRAM_SIZE = 0x08000000"
definition FCRAM_N3DS_SIZE :: nat where "FCRAM_N3DS_SIZE = 0x10000000"

definition memory_region_sizes :: "nat list list" where
  "memory_region_sizes =
    [[0x04000000, 0x02C00000, 0x01400000],
     [0, 0, 0],
     [0x06000000, 0x00C00000, 0x01400000],
     [0x05000000, 0x01C00000, 0x01400000],
     [0x04800000, 0x02400000, 0x01400000],
     [0x02000000, 0x04C00000, 0x01400000],
     [0x07C00000, 0x06400000, 0x02000000],
     [0x0B200000, 0x02E00000, 0x02000000]]"

text \<open>What the kernel reports in the configuration page.\<close>

record config_mem =
  app_mem_type :: nat
  app_mem_alloc :: nat
  sys_mem_alloc :: nat
  base_mem_alloc :: nat

fun reset_regions :: "nat \<Rightarrow> nat list \<Rightarrow> memory_region list \<Rightarrow> (memory_region list \<times> nat) option" where
  "reset_regions base (s # ss) (r # rs) = do {
     r \<leftarrow> region_Reset base s r;
     (rs, b) \<leftarrow> reset_regions (add32 base (rg_size r)) ss rs;
     Some (r # rs, b) }"
| "reset_regions base _ rs = Some (rs, base)"

definition MemoryInit :: "bool \<Rightarrow> nat \<Rightarrow> memory_region list \<Rightarrow> (memory_region list \<times> config_mem) option" where
  "MemoryInit is_new_3ds mode regions = do {
     assertion (mode < 8);
     (rs, base) \<leftarrow> reset_regions 0 (memory_region_sizes ! mode) regions;
     assertion (base = (if is_new_3ds then FCRAM_N3DS_SIZE else FCRAM_SIZE));
     Some (rs, \<lparr>app_mem_type = mode, app_mem_alloc = rg_size (rs ! 0), sys_mem_alloc = rg_size (rs ! 1),
       base_mem_alloc = rg_size (rs ! 2)\<rparr>) }"

definition MODE_NewProd :: nat where "MODE_NewProd = 6"
definition N3DS_MODE_Legacy :: nat where "N3DS_MODE_Legacy = 0"

definition UpdateReportedMemory :: "nat \<Rightarrow> nat \<Rightarrow> nat \<Rightarrow> config_mem \<Rightarrow> config_mem" where
  "UpdateReportedMemory system_mode mode n3ds_mode c =
     (if system_mode = MODE_NewProd \<and> n3ds_mode = N3DS_MODE_Legacy
      then c\<lparr>app_mem_alloc := memory_region_sizes ! mode ! 0\<rparr> else c)"

definition RestoreReportedMemory :: "nat \<Rightarrow> config_mem \<Rightarrow> config_mem" where
  "RestoreReportedMemory system_mode c =
     (if system_mode = MODE_NewProd then c\<lparr>app_mem_alloc := memory_region_sizes ! system_mode ! 0\<rparr> else c)"

datatype MemoryRegion = APPLICATION | SYSTEM | BASE

fun GetMemoryRegion :: "MemoryRegion \<Rightarrow> memory_region list \<Rightarrow> memory_region" where
  "GetMemoryRegion APPLICATION rs = rs ! 0"
| "GetMemoryRegion SYSTEM rs = rs ! 1"
| "GetMemoryRegion BASE rs = rs ! 2"

section \<open>Special mappings\<close>

record address_mapping =
  am_address :: nat
  am_size :: nat
  read_only :: bool
  unk_flag :: bool

record memory_area =
  vaddr_base :: nat
  paddr_base :: nat
  area_size :: nat

definition IO_AREA_PADDR :: nat where "IO_AREA_PADDR = 0x10100000"

definition memory_areas :: "memory_area list" where
  "memory_areas =
    [\<lparr>vaddr_base = 0x1F000000, paddr_base = 0x18000000, area_size = 0x00600000\<rparr>,
     \<lparr>vaddr_base = 0x1EC00000, paddr_base = IO_AREA_PADDR, area_size = 0x00400000\<rparr>,
     \<lparr>vaddr_base = 0x1FF00000, paddr_base = 0x1FF00000, area_size = 0x00080000\<rparr>,
     \<lparr>vaddr_base = 0x1E800000, paddr_base = 0x1F000000, area_size = 0x00400000 - 0x20000\<rparr>]"

text \<open>\<open>physical_ref\<close> is \<open>MemorySystem::GetPhysicalRef\<close>; \<open>Unwrap\<close> of an error is a failed assertion.\<close>

definition HandleSpecialMapping ::
  "(nat \<Rightarrow> bool) \<Rightarrow> (nat \<Rightarrow> memory_ref) \<Rightarrow> address_mapping \<Rightarrow> vm \<Rightarrow> vm option" where
  "HandleSpecialMapping cached physical_ref mapping vm =
     (let mapping_limit = add32 (am_address mapping) (am_size mapping) in
      if mapping_limit < am_address mapping then Some vm
      else case List.find (\<lambda>area. am_address mapping \<ge> vaddr_base area \<and>
                 mapping_limit \<le> vaddr_base area + area_size area) memory_areas of
          None \<Rightarrow> Some vm
        | Some area \<Rightarrow>
            let offset_into_region = am_address mapping - vaddr_base area in
            if paddr_base area = IO_AREA_PADDR then Some vm
            else do {
              let target = physical_ref (paddr_base area + offset_into_region);
              let state = (if unk_flag mapping then StStatic else StIO);
              (vm, r) \<leftarrow> MapBackingMemory cached (am_address mapping) target (am_size mapping) state vm;
              (case r of
                 Inl e \<Rightarrow> None
               | Inr v \<Rightarrow> map_option fst
                   (Reprotect cached (if read_only mapping then PermRead else PermReadWrite) v vm)) })"

definition CONFIG_MEMORY_VADDR :: nat where "CONFIG_MEMORY_VADDR = 0x1FF80000"
definition SHARED_PAGE_VADDR :: nat where "SHARED_PAGE_VADDR = 0x1FF81000"

definition map_read_only :: "(nat \<Rightarrow> bool) \<Rightarrow> nat \<Rightarrow> memory_ref \<Rightarrow> nat \<Rightarrow> vm \<Rightarrow> vm option" where
  "map_read_only cached target mem len vm = do {
     (vm, r) \<leftarrow> MapBackingMemory cached target mem len StShared vm;
     (case r of Inl e \<Rightarrow> None | Inr v \<Rightarrow> map_option fst (Reprotect cached PermRead v vm)) }"

definition MapSharedPages :: "(nat \<Rightarrow> bool) \<Rightarrow> memory_ref \<Rightarrow> memory_ref \<Rightarrow> vm \<Rightarrow> vm option" where
  "MapSharedPages cached config_ref shared_ref vm = do {
     vm \<leftarrow> map_read_only cached CONFIG_MEMORY_VADDR config_ref 0x1000 vm;
     map_read_only cached SHARED_PAGE_VADDR shared_ref 0x1000 vm }"

end
