(* ===== verification/Process_Memory.thy ===== *)
theory Process_Memory
  imports Memory_Region Resource_Limit
begin

text \<open>
  The memory of a process (\<open>core/hle/kernel/process.cpp\<close>): its heap, linear heap and thread-local
  storage, the aliasing of ranges, and the release of everything it holds.

  An operation changes the address space, the memory regions of the kernel, the resource limit and the
  process's own records together; they are one record here. \<open>fcram\<close> is the host address of FCRAM.
  A failed assertion, and reading the area behind \<open>end()\<close>, is \<open>None\<close>. The contents of memory (the
  zero fill) are not modelled.
\<close>

section \<open>State\<close>

record process =
  vm_manager :: vm
  memory_used :: nat
  memory_region_of :: MemoryRegion
  holding_memory :: intervals
  holding_tls_memory :: intervals
  tls_slots :: "bool list list"
  kernel_version :: nat
  process_limit :: resource_limit
  memory_regions :: "memory_region list"

text \<open>A process and the kernel's regions changed by an operation on one region.\<close>

fun region_index :: "MemoryRegion \<Rightarrow> nat" where
  "region_index APPLICATION = 0"
| "region_index SYSTEM = 1"
| "region_index BASE = 2"

definition own_region :: "process \<Rightarrow> memory_region" where
  "own_region p = GetMemoryRegion (memory_region_of p) (memory_regions p)"

definition set_region :: "MemoryRegion \<Rightarrow> memory_region \<Rightarrow> process \<Rightarrow> process" where
  "set_region g r p = p\<lparr>memory_regions := (memory_regions p)[region_index g := r]\<rparr>"

section \<open>FCRAM\<close>

definition GetFCRAMRef :: "nat \<Rightarrow> nat \<Rightarrow> memory_ref option" where
  "GetFCRAMRef fcram offset = do {
     assertion (offset \<le> FCRAM_N3DS_SIZE);
     Some \<lparr>ref_ptr = fcram + offset, ref_size = FCRAM_N3DS_SIZE - offset\<rparr> }"

definition GetFCRAMOffset :: "nat \<Rightarrow> nat \<Rightarrow> nat option" where
  "GetFCRAMOffset fcram pointer = do {
     assertion (fcram \<le> pointer \<and> pointer \<le> fcram + FCRAM_N3DS_SIZE);
     Some (pointer - fcram) }"

section \<open>Addresses\<close>

definition HEAP_VADDR :: nat where "HEAP_VADDR = 0x08000000"
definition HEAP_VADDR_END :: nat where "HEAP_VADDR_END = 0x10000000"
definition LINEAR_HEAP_VADDR :: nat where "LINEAR_HEAP_VADDR = 0x14000000"
definition NEW_LINEAR_HEAP_VADDR :: nat where "NEW_LINEAR_HEAP_VADDR = 0x30000000"
definition TLS_AREA_VADDR :: nat where "TLS_AREA_VADDR = 0x1FF82000"
definition TLS_ENTRY_SIZE :: nat where "TLS_ENTRY_SIZE = 0x200"

definition GetLinearHeapAreaAddress :: "process \<Rightarrow> nat" where
  "GetLinearHeapAreaAddress p = (if kernel_version p < 0x22C then LINEAR_HEAP_VADDR else NEW_LINEAR_HEAP_VADDR)"

definition GetLinearHeapBase :: "process \<Rightarrow> nat" where
  "GetLinearHeapBase p = add32 (GetLinearHeapAreaAddress p) (rg_base (own_region p))"

definition GetLinearHeapLimit :: "process \<Rightarrow> nat" where
  "GetLinearHeapLimit p = add32 (GetLinearHeapBase p) (rg_size (own_region p))"

definition outside_heap :: "nat \<Rightarrow> nat \<Rightarrow> bool" where
  "outside_heap target len \<longleftrightarrow>
     target < HEAP_VADDR \<or> add32 target len > HEAP_VADDR_END \<or> add32 target len < target"

definition outside_linear_heap :: "nat \<Rightarrow> nat \<Rightarrow> process \<Rightarrow> bool" where
  "outside_linear_heap target len p \<longleftrightarrow>
     target < GetLinearHeapBase p \<or> add32 target len > GetLinearHeapLimit p \<or> add32 target len < target"

section \<open>Mapping blocks\<close>

text \<open>What the mapping loops share: each block mapped behind the one before, then reprotected.\<close>

fun map_blocks ::
  "(nat \<Rightarrow> bool) \<Rightarrow> MemoryState \<Rightarrow> u8 \<Rightarrow> (memory_ref \<times> nat) list \<Rightarrow> nat \<Rightarrow> vm \<Rightarrow> vm option" where
  "map_blocks cached state perms [] target vm = Some vm"
| "map_blocks cached state perms ((b, n) # bs) target vm = do {
     (vm, r) \<leftarrow> MapBackingMemory cached target b n state vm;
     (case r of
        Inl e \<Rightarrow> None
      | Inr v \<Rightarrow> do {
          (vm, v) \<leftarrow> Reprotect cached perms v vm;
          map_blocks cached state perms bs (add32 target n) vm }) }"

fun fcram_blocks :: "nat \<Rightarrow> intervals \<Rightarrow> (memory_ref \<times> nat) list option" where
  "fcram_blocks fcram [] = Some []"
| "fcram_blocks fcram ((l, u) # is) = do {
     b \<leftarrow> GetFCRAMRef fcram l;
     bs \<leftarrow> fcram_blocks fcram is;
     Some ((b, u - l) # bs) }"

definition count_commit :: "nat \<Rightarrow> process \<Rightarrow> process option" where
  "count_commit len p = do {
     (l, _) \<leftarrow> Reserve (type_index RCommit) (to_s32 (int len)) (process_limit p);
     Some (p\<lparr>process_limit := l\<rparr>) }"

definition release_commit :: "nat \<Rightarrow> process \<Rightarrow> process option" where
  "release_commit len p = do {
     (l, _) \<leftarrow> Release (type_index RCommit) (to_s32 (int len)) (process_limit p);
     Some (p\<lparr>process_limit := l\<rparr>) }"

section \<open>The heap\<close>

text \<open>The test that a range is free: the area at its start is, and reaches to its end.\<close>

definition not_free :: "nat \<Rightarrow> nat \<Rightarrow> vm \<Rightarrow> bool option" where
  "not_free target len vm = do {
     i \<leftarrow> FindVMA target (vma_map vm);
     assertion (i < length (vma_map vm));
     let v = vma_map vm ! i;
     Some (vma_type v \<noteq> Free \<or> add32 (vma_base v) (vma_size v) < add32 target len) }"

definition HeapAllocate ::
  "(nat \<Rightarrow> bool) \<Rightarrow> nat \<Rightarrow> nat \<Rightarrow> nat \<Rightarrow> u8 \<Rightarrow> MemoryState \<Rightarrow> bool \<Rightarrow> process \<Rightarrow> (process \<times> (u32 + nat)) option" where
  "HeapAllocate cached fcram target len perms state skip_range_check p =
     (if outside_heap target len \<and> \<not> skip_range_check then Some (p, Inl ResultInvalidAddress)
      else do {
        used \<leftarrow> not_free target len (vm_manager p);
        if used then Some (p, Inl ResultInvalidAddressState)
        else do {
          (r, allocated) \<leftarrow> region_HeapAllocate len (own_region p);
          if allocated = [] then Some (p, Inl ResultOutOfHeapMemory)
          else do {
            blocks \<leftarrow> fcram_blocks fcram allocated;
            vm \<leftarrow> map_blocks cached state perms blocks target (vm_manager p);
            let p = set_region (memory_region_of p) r p;
            p \<leftarrow> count_commit len (p\<lparr>vm_manager := vm, holding_memory := iv_add_all allocated (holding_memory p),
              memory_used := add32 (memory_used p) len\<rparr>);
            Some (p, Inr target) } } })"

fun free_blocks_loop :: "nat \<Rightarrow> (memory_ref \<times> nat) list \<Rightarrow> process \<Rightarrow> process option" where
  "free_blocks_loop fcram [] p = Some p"
| "free_blocks_loop fcram ((b, n) # bs) p = do {
     backing_offset \<leftarrow> GetFCRAMOffset fcram (ref_ptr b);
     r \<leftarrow> region_Free backing_offset n (own_region p);
     free_blocks_loop fcram bs
       ((set_region (memory_region_of p) r p)
        \<lparr>holding_memory := iv_sub (backing_offset, add32 backing_offset n) (holding_memory p)\<rparr>) }"

definition HeapFree :: "(nat \<Rightarrow> bool) \<Rightarrow> nat \<Rightarrow> nat \<Rightarrow> nat \<Rightarrow> process \<Rightarrow> (process \<times> u32) option" where
  "HeapFree cached fcram target len p =
     (if outside_heap target len then Some (p, ResultInvalidAddress)
      else if len = 0 then Some (p, ResultSuccess)
      else do {
        b \<leftarrow> GetBackingBlocksForRange target len (vm_manager p);
        (case b of
           Inl e \<Rightarrow> Some (p, e)
         | Inr blocks \<Rightarrow> do {
             p \<leftarrow> free_blocks_loop fcram blocks p;
             (vm, result) \<leftarrow> UnmapRange cached target len (vm_manager p);
             assertion (result = ResultSuccess);
             p \<leftarrow> release_commit len (p\<lparr>vm_manager := vm, memory_used := sub32 (memory_used p) len\<rparr>);
             Some (p, ResultSuccess) }) })"

section \<open>The linear heap\<close>

text \<open>The choice of the place: target and offset, with the region after the allocation.\<close>

definition linear_place ::
  "nat \<Rightarrow> nat \<Rightarrow> process \<Rightarrow> (u32 + memory_region \<times> nat \<times> nat) option" where
  "linear_place target len p =
     (if target = 0 then do {
        (r, offset) \<leftarrow> region_LinearAllocate len (own_region p);
        Some (case offset of
            None \<Rightarrow> Inl ResultOutOfHeapMemory
          | Some physical_offset \<Rightarrow> Inr (r, add32 physical_offset (GetLinearHeapAreaAddress p), physical_offset)) }
      else if outside_linear_heap target len p then Some (Inl ResultInvalidAddress)
      else do {
        let physical_offset = sub32 target (GetLinearHeapAreaAddress p);
        (r, done) \<leftarrow> region_LinearAllocate_at physical_offset len (own_region p);
        Some (if done then Inr (r, target, physical_offset) else Inl ResultInvalidAddressState) })"

definition LinearAllocate ::
  "(nat \<Rightarrow> bool) \<Rightarrow> nat \<Rightarrow> nat \<Rightarrow> nat \<Rightarrow> u8 \<Rightarrow> process \<Rightarrow> (process \<times> (u32 + nat)) option" where
  "LinearAllocate cached fcram target len perms p = do {
     place \<leftarrow> linear_place target len p;
     (case place of
        Inl e \<Rightarrow> Some (p, Inl e)
      | Inr (r, target, physical_offset) \<Rightarrow> do {
          backing_memory \<leftarrow> GetFCRAMRef fcram physical_offset;
          vm \<leftarrow> map_blocks cached StContinuous perms [(backing_memory, len)] target (vm_manager p);
          let p = set_region (memory_region_of p) r p;
          p \<leftarrow> count_commit len (p\<lparr>vm_manager := vm,
            holding_memory := iv_add (physical_offset, add32 physical_offset len) (holding_memory p),
            memory_used := add32 (memory_used p) len\<rparr>);
          Some (p, Inr target) }) }"

definition LinearFree :: "(nat \<Rightarrow> bool) \<Rightarrow> nat \<Rightarrow> nat \<Rightarrow> process \<Rightarrow> (process \<times> u32) option" where
  "LinearFree cached target len p =
     (if outside_linear_heap target len p then Some (p, ResultInvalidAddress)
      else if len = 0 then Some (p, ResultSuccess)
      else do {
        (vm, result) \<leftarrow> UnmapRange cached target len (vm_manager p);
        if result \<noteq> ResultSuccess then Some (p\<lparr>vm_manager := vm\<rparr>, result)
        else do {
          let physical_offset = sub32 target (GetLinearHeapAreaAddress p);
          r \<leftarrow> region_Free physical_offset len (own_region p);
          let p = set_region (memory_region_of p) r p;
          p \<leftarrow> release_commit len (p\<lparr>vm_manager := vm,
            holding_memory := iv_sub (physical_offset, add32 physical_offset len) (holding_memory p),
            memory_used := sub32 (memory_used p) len\<rparr>);
          Some (p, ResultSuccess) } })"

section \<open>Thread-local storage\<close>

text \<open>The first page with a free slot, and its first free slot.\<close>

definition find_tls_slot :: "bool list list \<Rightarrow> (nat \<times> nat) option" where
  "find_tls_slot slots =
     (case List.find (\<lambda>i. False \<in> set (slots ! i)) [0..<length slots] of
        None \<Rightarrow> None
      | Some i \<Rightarrow> map_option (Pair i) (List.find (\<lambda>j. \<not> slots ! i ! j) [0..<length (slots ! i)]))"

text \<open>\<open>new_tls_page\<close> is the branch that allocates a page, from the BASE region; the result of the mapping is not looked at.\<close>

definition new_tls_page :: "(nat \<Rightarrow> bool) \<Rightarrow> nat \<Rightarrow> process \<Rightarrow> (process + u32) option" where
  "new_tls_page cached fcram p = do {
     (r, offset) \<leftarrow> region_LinearAllocate CITRA_PAGE_SIZE (GetMemoryRegion BASE (memory_regions p));
     (case offset of
        None \<Rightarrow> Some (Inr ResultOutOfMemory)
      | Some offset \<Rightarrow> do {
          b \<leftarrow> GetFCRAMRef fcram offset;
          (vm, _) \<leftarrow> MapBackingMemory cached
            (add32 TLS_AREA_VADDR ((length (tls_slots p) * CITRA_PAGE_SIZE) mod 2 ^ 32)) b CITRA_PAGE_SIZE StLocked (vm_manager p);
          Some (Inl ((set_region BASE r p)
            \<lparr>vm_manager := vm,
             holding_tls_memory := iv_add (offset, add32 offset CITRA_PAGE_SIZE) (holding_tls_memory p),
             memory_used := add32 (memory_used p) CITRA_PAGE_SIZE,
             tls_slots := tls_slots p @ [replicate 8 False]\<rparr>)) }) }"

definition AllocateThreadLocalStorage :: "(nat \<Rightarrow> bool) \<Rightarrow> nat \<Rightarrow> process \<Rightarrow> (process \<times> (u32 + nat)) option" where
  "AllocateThreadLocalStorage cached fcram p = do {
     r \<leftarrow> (case find_tls_slot (tls_slots p) of
         Some (page, slot) \<Rightarrow> Some (Inl (p, page, slot))
       | None \<Rightarrow> do {
           r \<leftarrow> new_tls_page cached fcram p;
           Some (case r of Inl p' \<Rightarrow> Inl (p', length (tls_slots p), 0) | Inr e \<Rightarrow> Inr e) });
     Some (case r of
         Inr e \<Rightarrow> (p, Inl e)
       | Inl (p, tls_page, tls_slot) \<Rightarrow>
           (p\<lparr>tls_slots := (tls_slots p)[tls_page := (tls_slots p ! tls_page)[tls_slot := True]]\<rparr>,
            Inr ((TLS_AREA_VADDR + tls_page * CITRA_PAGE_SIZE + tls_slot * TLS_ENTRY_SIZE) mod 2 ^ 32))) }"

section \<open>Aliasing\<close>

definition ranges_overlap :: "nat \<Rightarrow> nat \<Rightarrow> nat \<Rightarrow> bool" where
  "ranges_overlap target source len \<longleftrightarrow> sub32 source target < len \<or> sub32 target source < len"

definition process_Map ::
  "(nat \<Rightarrow> bool) \<Rightarrow> nat \<Rightarrow> nat \<Rightarrow> nat \<Rightarrow> u8 \<Rightarrow> bool \<Rightarrow> process \<Rightarrow> (process \<times> u32) option" where
  "process_Map cached target source len perms privileged p =
     (let vm = vm_manager p in
      if \<not> privileged \<and> outside_heap source len then Some (p, ResultInvalidAddress)
      else if ranges_overlap target source len then
        (if privileged then
           (if source = target then
              map_option (map_prod (\<lambda>vm. p\<lparr>vm_manager := vm\<rparr>) id)
                (ChangeMemoryState cached source len StPrivate PermReadWrite StAliasCode perms vm)
            else Some (p, ResultInvalidAddress))
         else Some (p, ResultInvalidAddressState))
      else do {
        used \<leftarrow> not_free target len vm;
        if used then Some (p, ResultInvalidAddressState)
        else do {
          let source_state = (if privileged then StLocked else StAliased);
          let target_state = (if privileged then StAliasCode else StAlias);
          let source_perm = (if privileged then PermNone else PermReadWrite);
          (vm, result) \<leftarrow> ChangeMemoryState cached source len StPrivate PermReadWrite source_state source_perm vm;
          if result \<noteq> ResultSuccess then Some (p\<lparr>vm_manager := vm\<rparr>, result)
          else do {
            b \<leftarrow> GetBackingBlocksForRange source len vm;
            (case b of
               Inl e \<Rightarrow> Some (p\<lparr>vm_manager := vm\<rparr>, e)
             | Inr blocks \<Rightarrow> do {
                 vm \<leftarrow> map_blocks cached target_state perms blocks target vm;
                 Some (p\<lparr>vm_manager := vm\<rparr>, ResultSuccess) }) } } })"

definition process_Unmap ::
  "(nat \<Rightarrow> bool) \<Rightarrow> nat \<Rightarrow> nat \<Rightarrow> nat \<Rightarrow> u8 \<Rightarrow> bool \<Rightarrow> process \<Rightarrow> (process \<times> u32) option" where
  "process_Unmap cached target source len perms privileged p =
     (let vm = vm_manager p in
      if \<not> privileged \<and> outside_heap source len then Some (p, ResultInvalidAddress)
      else if ranges_overlap target source len then
        (if privileged then
           (if source = target then
              map_option (map_prod (\<lambda>vm. p\<lparr>vm_manager := vm\<rparr>) id)
                (ChangeMemoryState cached source len StAliasCode PermNone StPrivate perms vm)
            else Some (p, ResultInvalidAddress))
         else Some (p, ResultInvalidAddressState))
      else do {
        let source_state = (if privileged then StLocked else StAliased);
        (vm, result) \<leftarrow> UnmapRange cached target len vm;
        if result \<noteq> ResultSuccess then Some (p\<lparr>vm_manager := vm\<rparr>, result)
        else do {
          (vm, result) \<leftarrow> ChangeMemoryState cached source len source_state PermNone StPrivate perms vm;
          Some (p\<lparr>vm_manager := vm\<rparr>, result) } })"

section \<open>The end of a process\<close>

fun free_holding :: "intervals \<Rightarrow> process \<Rightarrow> process option" where
  "free_holding [] p = Some p"
| "free_holding ((l, u) # is) p = do {
     r \<leftarrow> region_Free l (u - l) (own_region p);
     let p = set_region (memory_region_of p) r p;
     p \<leftarrow> release_commit (u - l) (p\<lparr>memory_used := sub32 (memory_used p) (u - l)\<rparr>);
     free_holding is p }"

fun free_tls :: "intervals \<Rightarrow> process \<Rightarrow> process option" where
  "free_tls [] p = Some p"
| "free_tls ((l, u) # is) p = do {
     r \<leftarrow> region_Free l (u - l) (GetMemoryRegion BASE (memory_regions p));
     let p = set_region BASE r p;
     free_tls is (p\<lparr>memory_used := sub32 (memory_used p) (u - l)\<rparr>) }"

definition FreeAllMemory :: "process \<Rightarrow> process option" where
  "FreeAllMemory p = do {
     p \<leftarrow> free_holding (holding_memory p) p;
     p \<leftarrow> free_tls (holding_tls_memory p) (p\<lparr>holding_memory := []\<rparr>);
     Some (p\<lparr>holding_tls_memory := [], tls_slots := []\<rparr>) }"

end
