(* ===== verification/VM_View.thy ===== *)
theory VM_View
  imports VM_Manager
begin

text \<open>
  What an address space means: a function from addresses to the attributes and the host address
  behind them. Splitting and merging areas does not change it; changing an area changes it there only.
\<close>

section \<open>Well-formed maps\<close>

text \<open>The areas cover an interval without gaps or overlaps.\<close>

fun covers :: "nat \<Rightarrow> vma list \<Rightarrow> nat \<Rightarrow> bool" where
  "covers a [] b \<longleftrightarrow> a = b"
| "covers a (v # vs) b \<longleftrightarrow> vma_base v = a \<and> 0 < vma_size v \<and> covers (a + vma_size v) vs b"

definition vma_end :: "vma \<Rightarrow> nat" where
  "vma_end v = vma_base v + vma_size v"

lemma covers_append: "covers a (xs @ ys) b \<longleftrightarrow> (\<exists>c. covers a xs c \<and> covers c ys b)"
  by (induction xs arbitrary: a) auto

lemma covers_le: "covers a xs b \<Longrightarrow> a \<le> b"
  by (induction xs arbitrary: a) force+

lemma covers_bounds: "covers a xs b \<Longrightarrow> v \<in> set xs \<Longrightarrow> a \<le> vma_base v \<and> vma_end v \<le> b \<and> 0 < vma_size v"
proof (induction xs arbitrary: a)
  case (Cons x xs)
  then show ?case
    using covers_le [of "a + vma_size x" xs b] by (fastforce simp: vma_end_def)
qed simp

lemma covers_unique: "covers a xs b \<Longrightarrow> covers a xs c \<Longrightarrow> b = c"
  by (induction xs arbitrary: a) auto

text \<open>
  \<open>ext p\<close> is the number of bytes of the host allocation behind \<open>p\<close>; allocations are never adjacent.
\<close>

definition host_ok :: "(nat \<Rightarrow> nat) \<Rightarrow> bool" where
  "host_ok ext \<longleftrightarrow> (\<forall>p k. k < ext p \<longrightarrow> ext (p + k) = ext p - k) \<and> (\<forall>p. 0 < ext p \<longrightarrow> ext (p + ext p) = 0)"

definition ref_ok :: "(nat \<Rightarrow> nat) \<Rightarrow> memory_ref \<Rightarrow> bool" where
  "ref_ok ext r \<longleftrightarrow> ref_ptr r \<noteq> 0 \<and> ref_size r = ext (ref_ptr r)"

definition vma_ok :: "(nat \<Rightarrow> nat) \<Rightarrow> vma \<Rightarrow> bool" where
  "vma_ok ext v \<longleftrightarrow> page_aligned (vma_base v) \<and> page_aligned (vma_size v) \<and>
     (vma_type v = BackingMemory \<longrightarrow> ref_ok ext (vma_backing v) \<and> vma_size v \<le> ref_size (vma_backing v))"

definition map_ok :: "(nat \<Rightarrow> nat) \<Rightarrow> vma list \<Rightarrow> bool" where
  "map_ok ext m \<longleftrightarrow> covers 0 m MAX_ADDRESS \<and> (\<forall>v \<in> set m. vma_ok ext v)"

lemma page_aligned_add: "page_aligned a \<Longrightarrow> page_aligned (a + b) \<longleftrightarrow> page_aligned b"
  by (auto simp: page_aligned_def CITRA_PAGE_SIZE_def mod_add_eq [symmetric, of a b])

lemma page_aligned_diff: "page_aligned a \<Longrightarrow> page_aligned b \<Longrightarrow> page_aligned (a - b)"
  by (auto simp: page_aligned_def CITRA_PAGE_SIZE_def elim!: dvdE simp flip: dvd_eq_mod_eq_0 simp: dvd_diff_nat)

section \<open>The view\<close>

type_synonym page_view = "VMAType \<times> u8 \<times> MemoryState \<times> nat"

definition attr :: "vma \<Rightarrow> nat \<Rightarrow> page_view" where
  "attr v a = (vma_type v, vma_perms v, vma_state v,
     if vma_type v = BackingMemory then ref_ptr (vma_backing v) + (a - vma_base v) else 0)"

definition inside :: "vma \<Rightarrow> nat \<Rightarrow> bool" where
  "inside v a \<longleftrightarrow> vma_base v \<le> a \<and> a < vma_end v"

definition view :: "vma list \<Rightarrow> nat \<Rightarrow> page_view option" where
  "view m a = map_option (\<lambda>v. attr v a) (List.find (\<lambda>v. inside v a) m)"

lemma view_Nil [simp]: "view [] a = None"
  by (simp add: view_def)

lemma view_Cons: "view (v # m) a = (if inside v a then Some (attr v a) else view m a)"
  by (simp add: view_def)

lemma view_append: "view (xs @ ys) a = (case view xs a of None \<Rightarrow> view ys a | Some p \<Rightarrow> Some p)"
  by (induction xs) (simp_all add: view_Cons)

lemma view_cong: "view ys = view zs \<Longrightarrow> view (xs @ ys @ ws) = view (xs @ zs @ ws)"
  by (rule ext, simp add: view_append [of xs] view_append [of ys] view_append [of zs] split: option.split)

lemma view_None_outside: "covers b xs c \<Longrightarrow> a < b \<or> c \<le> a \<Longrightarrow> view xs a = None"
proof (induction xs arbitrary: b)
  case (Cons v xs)
  then show ?case
    using covers_le [of "b + vma_size v" xs c] by (auto simp: view_Cons inside_def vma_end_def)
qed simp

lemma view_Some_inside: "covers b xs c \<Longrightarrow> b \<le> a \<Longrightarrow> a < c \<Longrightarrow> \<exists>v \<in> set xs. inside v a \<and> view xs a = Some (attr v a)"
proof (induction xs arbitrary: b)
  case (Cons v xs)
  show ?case
  proof (cases "a < b + vma_size v")
    case True
    with Cons.prems show ?thesis by (auto simp: view_Cons inside_def vma_end_def)
  next
    case False
    with Cons.IH [of "b + vma_size v"] Cons.prems show ?thesis
      by (auto simp: view_Cons inside_def vma_end_def)
  qed
qed simp

text \<open>In a covering list, an address inside an area sees that area.\<close>

lemma view_at:
  assumes "covers b (xs @ v # ys) c" "inside v a"
  shows "view (xs @ v # ys) a = Some (attr v a)"
proof -
  from assms obtain d where "covers b xs d" "d = vma_base v"
    by (auto simp: covers_append)
  with assms have "view xs a = None"
    by (auto intro: view_None_outside simp: inside_def)
  with assms show ?thesis
    by (simp add: view_append view_Cons)
qed

lemma view_not_at:
  assumes "\<not> inside v a" "\<not> inside w a"
  shows "view (xs @ v # ys) a = view (xs @ w # ys) a"
  using assms by (simp add: view_append view_Cons split: option.split)

section \<open>Finding areas\<close>

lemma takeWhile_base:
  assumes "covers b m c"
  shows "\<exists>ys. m = takeWhile (\<lambda>v. vma_base v \<le> a) m @ ys \<and> (\<forall>v \<in> set ys. a < vma_base v) \<and>
    (a < b \<longrightarrow> takeWhile (\<lambda>v. vma_base v \<le> a) m = [])"
  using assms
proof (induction m arbitrary: b)
  case (Cons v m)
  show ?case
  proof (cases "vma_base v \<le> a")
    case True
    with Cons.IH [of "b + vma_size v"] Cons.prems show ?thesis by auto
  next
    case False
    have "\<forall>w \<in> set m. vma_base v \<le> vma_base w"
      using Cons.prems covers_bounds [of "b + vma_size v" m c] by fastforce
    with False Cons.prems show ?thesis by fastforce
  qed
qed simp

lemma upper_bound_covers:
  assumes "covers b m c" "b \<le> a" "a < c"
  obtains xs v ys where "m = xs @ v # ys" "upper_bound a m = Suc (length xs)" "inside v a"
  using assms
proof (induction m arbitrary: b thesis)
  case (Cons v m)
  show ?case
  proof (cases "a < b + vma_size v")
    case True
    have "takeWhile (\<lambda>v. vma_base v \<le> a) m = []"
      using Cons.prems(2) takeWhile_base [of "b + vma_size v" m c a] True by auto
    with Cons.prems True show ?thesis
      by (intro Cons.prems(1) [of "[]" v m]) (auto simp: upper_bound_def inside_def vma_end_def)
  next
    case False
    from Cons.prems(2) have "covers (b + vma_size v) m c" by simp
    from Cons.IH [OF _ this] False Cons.prems(4) obtain xs w ys where m: "m = xs @ w # ys"
      "upper_bound a m = Suc (length xs)" "inside w a"
      by (metis linorder_not_less)
    have "upper_bound a (v # m) = Suc (upper_bound a m)"
      using Cons.prems(2,3) by (simp add: upper_bound_def)
    with m show ?thesis
      by (intro Cons.prems(1) [of "v # xs" w ys]) simp_all
  qed
qed simp

lemma FindVMA_covers:
  assumes "covers 0 m MAX_ADDRESS" "a < MAX_ADDRESS"
  obtains xs v ys where "m = xs @ v # ys" "FindVMA a m = Some (length xs)" "inside v a"
proof -
  obtain xs v ys where "m = xs @ v # ys" "upper_bound a m = Suc (length xs)" "inside v a"
    by (rule upper_bound_covers [OF assms(1) _ assms(2)]) simp_all
  with assms(2) show thesis
    by (intro that [of xs v ys]) (simp_all add: FindVMA_def)
qed

lemma FindVMA_end: "MAX_ADDRESS \<le> a \<Longrightarrow> FindVMA a m = Some (length m)"
  by (simp add: FindVMA_def)

section \<open>Splitting\<close>

lemma add32_small: "a + b < 2 ^ 32 \<Longrightarrow> add32 a b = a + b"
  by (simp add: add32_def)

lemma sub32_small:
  assumes "b \<le> a" "a < 2 ^ 32"
  shows "sub32 a b = a - b"
proof -
  have "a + 2 ^ 32 - b = (a - b) + 2 ^ 32" using assms(1) by simp
  then show ?thesis using assms(2) unfolding sub32_def by (simp only: mod_add_self2) simp
qed

lemma MAX_small: "MAX_ADDRESS < 2 ^ 32"
  by (simp add: MAX_ADDRESS_def)

definition same_attr :: "vma \<Rightarrow> vma \<Rightarrow> bool" where
  "same_attr v w \<longleftrightarrow> vma_perms v = vma_perms w \<and> vma_state v = vma_state w \<and> vma_type v = vma_type w \<and>
     (vma_type v = BackingMemory \<longrightarrow> ref_ptr (vma_backing v) + vma_size v = ref_ptr (vma_backing w))"

lemma CanBeMergedWith_same:
  assumes "vma_base w = vma_end v" "vma_end v < 2 ^ 32"
  shows "CanBeMergedWith v w = Some (same_attr v w)"
  using assms by (auto simp: CanBeMergedWith_def same_attr_def vma_end_def add32_small)

text \<open>The two halves of an area.\<close>

definition left_of :: "nat \<Rightarrow> vma \<Rightarrow> vma" where
  "left_of n v = v\<lparr>vma_size := n\<rparr>"

definition right_of :: "nat \<Rightarrow> vma \<Rightarrow> vma" where
  "right_of n v = v\<lparr>vma_base := vma_base v + n, vma_size := vma_size v - n,
     vma_backing := (if vma_type v = BackingMemory
       then \<lparr>ref_ptr = ref_ptr (vma_backing v) + n, ref_size = ref_size (vma_backing v) - n\<rparr> else vma_backing v)\<rparr>"

lemma view_halves:
  assumes "n < vma_size v"
  shows "view [left_of n v, right_of n v] = view [v]"
  using assms by (auto simp: fun_eq_iff view_Cons inside_def vma_end_def left_of_def right_of_def attr_def)

lemma halves_ok:
  assumes "vma_ok ext v" "host_ok ext" "n < vma_size v" "page_aligned n"
  shows "vma_ok ext (left_of n v)" "vma_ok ext (right_of n v)"
proof -
  show "vma_ok ext (left_of n v)"
    using assms by (auto simp: vma_ok_def left_of_def)
  have "page_aligned (vma_size v - n)"
    using assms by (auto intro: page_aligned_diff simp: vma_ok_def)
  moreover have "ext (p + n) = ext p - n" if "n < ext p" for p
    using assms(2) that by (auto simp: host_ok_def)
  ultimately show "vma_ok ext (right_of n v)"
    using assms page_aligned_add [of "vma_base v" n] by (auto simp: vma_ok_def right_of_def ref_ok_def)
qed

lemma SplitVMA_spec:
  assumes "covers 0 (xs @ v # ys) MAX_ADDRESS" "vma_ok ext v" "0 < n" "n < vma_size v"
  shows "SplitVMA (length xs) n (xs @ v # ys) = Some (xs @ left_of n v # right_of n v # ys, Suc (length xs))"
proof -
  have "vma_end v \<le> MAX_ADDRESS"
    using covers_bounds [OF assms(1), of v] by simp
  then have e: "vma_base v + n < 2 ^ 32"
    using assms(4) MAX_small by (simp add: vma_end_def)
  have "CanBeMergedWith (left_of n v) (right_of n v) = Some True"
    using e by (subst CanBeMergedWith_same) (auto simp: left_of_def right_of_def vma_end_def same_attr_def)
  moreover have "ref_add n (vma_backing v) = Some \<lparr>ref_ptr = ref_ptr (vma_backing v) + n, ref_size = ref_size (vma_backing v) - n\<rparr>"
    if "vma_type v = BackingMemory"
    using assms(2,4) that by (simp add: ref_add_def vma_ok_def)
  ultimately show ?thesis
    using assms(3,4) by (cases "vma_type v") (simp_all add: SplitVMA_def left_of_def right_of_def)
qed

lemma covers_halves:
  "0 < n \<Longrightarrow> n < vma_size v \<Longrightarrow> covers b (xs @ left_of n v # right_of n v # ys) c \<longleftrightarrow> covers b (xs @ v # ys) c"
  by (auto simp: covers_append left_of_def right_of_def)

end
