(* ===== verification/Region_Props.thy ===== *)
theory Region_Props
  imports Memory_Region VM_View
begin

text \<open>
  The allocator of a memory region: its blocks as a set of numbers, the laws of interval sets (locale
  \<open>interval_set\<close>, interpreted on the lists of the model), what each allocation takes, and the accounting.
\<close>

section \<open>Interval sets as sets of numbers\<close>

definition iv_points :: "intervals \<Rightarrow> nat set" where
  "iv_points xs = (\<Union>(c, d) \<in> set xs. {c..<d})"

fun iv_wf :: "nat \<Rightarrow> intervals \<Rightarrow> bool" where
  "iv_wf lo [] \<longleftrightarrow> True"
| "iv_wf lo ((c, d) # xs) \<longleftrightarrow> lo \<le> c \<and> c < d \<and> iv_wf (Suc d) xs"

lemma iv_points_simps [simp]:
  "iv_points [] = {}" "iv_points ((c, d) # xs) = {c..<d} \<union> iv_points xs"
  "iv_points (xs @ ys) = iv_points xs \<union> iv_points ys"
  by (auto simp: iv_points_def)

lemma finite_iv_points [simp]: "finite (iv_points xs)"
  by (auto simp: iv_points_def)

lemma iv_wf_mono: "iv_wf lo xs \<Longrightarrow> lo' \<le> lo \<Longrightarrow> iv_wf lo' xs"
  by (cases xs) auto

lemma iv_wf_bound: "iv_wf lo xs \<Longrightarrow> x \<in> iv_points xs \<Longrightarrow> lo \<le> x"
  by (induction lo xs rule: iv_wf.induct) auto

lemma iv_wf_append:
  "iv_wf lo (xs @ [(l, u)]) \<longleftrightarrow> iv_wf lo xs \<and> lo \<le> l \<and> l < u \<and> (\<forall>x \<in> iv_points xs. Suc x < l)"
proof (induction lo xs rule: iv_wf.induct)
  case (2 lo c d xs)
  show ?case
  proof (cases "lo \<le> c \<and> c < d")
    case True
    have "(\<forall>x \<in> {c..<d} \<union> iv_points xs. Suc x < l) \<longleftrightarrow> d < l \<and> (\<forall>x \<in> iv_points xs. Suc x < l)"
      using True by (auto dest: bspec [of _ _ "d - 1"])
    with True 2 show ?thesis by auto
  qed (use 2 in auto)
qed simp

lemma iv_join_spec:
  "a < b \<Longrightarrow> lo \<le> a \<Longrightarrow> iv_wf lo xs \<Longrightarrow>
    iv_points (iv_join (a, b) xs) = {a..<b} \<union> iv_points xs \<and> iv_wf lo (iv_join (a, b) xs)"
proof (induction xs arbitrary: a b lo)
  case (Cons x xs)
  obtain c d where x: "x = (c, d)" by force
  with Cons.prems have w: "lo \<le> c" "c < d" "iv_wf (Suc d) xs" "iv_wf lo xs" "iv_wf c xs"
    using iv_wf_mono [of "Suc d" xs] by auto
  consider "b < c" | "\<not> b < c" "d < a" | "\<not> b < c" "\<not> d < a" by blast
  then show ?case
  proof cases
    case 1
    with Cons.prems x w show ?thesis by simp
  next
    case 2
    with Cons.IH [of a b "Suc d"] Cons.prems x w show ?thesis by auto
  next
    case 3
    have "{min a c..<max b d} = {a..<b} \<union> {c..<d}"
      using 3 Cons.prems(1) w(2) by auto
    with Cons.IH [of "min a c" "max b d" lo] 3 Cons.prems x w show ?thesis by auto
  qed
qed auto

lemma piece_points: "iv_points (if p < q then [(p, q)] else []) = {p..<q}"
  by simp

lemma iv_cut_spec:
  "a < b \<Longrightarrow> iv_wf lo xs \<Longrightarrow>
    iv_points (iv_cut (a, b) xs) = iv_points xs - {a..<b} \<and> iv_wf lo (iv_cut (a, b) xs)"
proof (induction xs arbitrary: lo)
  case (Cons x xs)
  obtain c d where x: "x = (c, d)" by force
  have IH: "iv_points (iv_cut (a, b) xs) = iv_points xs - {a..<b}" "iv_wf (Suc d) (iv_cut (a, b) xs)"
    using Cons.IH [of "Suc d"] Cons.prems x by simp_all
  have "{c..<d} - {a..<b} = {c..<min d a} \<union> {max c b..<d}" using Cons.prems(1) by auto
  then have "iv_points (iv_cut (a, b) (x # xs)) = iv_points (x # xs) - {a..<b}"
    using IH(1) x by (simp only: iv_cut.simps iv_points_simps piece_points Un_Diff Un_assoc)
  moreover have "iv_wf (Suc (min d a)) (iv_cut (a, b) xs)" "iv_wf lo (iv_cut (a, b) xs)"
    using IH(2) Cons.prems x by (auto intro: iv_wf_mono)
  with IH(2) Cons.prems x have "iv_wf lo (iv_cut (a, b) (x # xs))" by auto
  ultimately show ?case ..
qed auto

lemma iv_contains_points:
  assumes "iv_wf lo xs" "a < b"
  shows "(\<exists>(c, d) \<in> set xs. c \<le> a \<and> b \<le> d) \<longleftrightarrow> {a..<b} \<subseteq> iv_points xs"
  using assms
proof (induction lo xs rule: iv_wf.induct)
  case (2 lo c d xs)
  have IH: "(\<exists>(c, d) \<in> set xs. c \<le> a \<and> b \<le> d) \<longleftrightarrow> {a..<b} \<subseteq> iv_points xs"
    using 2 by auto
  have far: "Suc d \<le> x" if "x \<in> iv_points xs" for x
    using 2(2) iv_wf_bound [of "Suc d" xs x] that by simp
  show ?case
  proof
    assume "{a..<b} \<subseteq> iv_points ((c, d) # xs)"
    then have sub: "{a..<b} \<subseteq> {c..<d} \<union> iv_points xs" by simp
    show "\<exists>(c, d) \<in> set ((c, d) # xs). c \<le> a \<and> b \<le> d"
    proof (cases "a < d")
      case True
      with sub far [of a] 2(3) have "c \<le> a" by fastforce
      moreover have "b \<le> d"
      proof (rule ccontr)
        assume "\<not> b \<le> d"
        with True have "d \<in> {a..<b}" by simp
        with sub have "d \<in> {c..<d} \<union> iv_points xs" by blast
        with far [of d] show False by auto
      qed
      ultimately show ?thesis by auto
    next
      case False
      with sub have "{a..<b} \<subseteq> iv_points xs" by fastforce
      with IH show ?thesis by auto
    qed
  next
    assume "\<exists>(c, d) \<in> set ((c, d) # xs). c \<le> a \<and> b \<le> d"
    then show "{a..<b} \<subseteq> iv_points ((c, d) # xs)" by (auto simp: iv_points_def)
  qed
qed auto

lemma iv_unique:
  "iv_wf lo xs \<Longrightarrow> iv_wf lo ys \<Longrightarrow> iv_points xs = iv_points ys \<Longrightarrow> xs = ys"
proof (induction xs arbitrary: lo ys)
  case Nil
  then show ?case by (cases ys) auto
next
  case (Cons x xs)
  obtain c d where x: "x = (c, d)" by force
  from Cons.prems x obtain c' d' zs where y: "ys = (c', d') # zs"
    by (cases ys) auto
  have w: "c < d" "c' < d'" "iv_wf (Suc d) xs" "iv_wf (Suc d') zs"
    and e: "{c..<d} \<union> iv_points xs = {c'..<d'} \<union> iv_points zs"
    using Cons.prems x y by auto
  have far: "Suc d \<le> z" if "z \<in> iv_points xs" for z using iv_wf_bound [OF w(3) that] .
  have far': "Suc d' \<le> z" if "z \<in> iv_points zs" for z using iv_wf_bound [OF w(4) that] .
  have "c = c'"
  proof -
    have "c \<in> {c'..<d'} \<union> iv_points zs" "c' \<in> {c..<d} \<union> iv_points xs"
      using e w(1,2) by auto
    with far [of c'] far' [of c] w(1,2) show ?thesis by force
  qed
  moreover have "d = d'"
  proof (rule ccontr)
    assume "d \<noteq> d'"
    then consider "d < d'" | "d' < d" by linarith
    then show False
    proof cases
      case 1
      with \<open>c = c'\<close> w(1) have "d \<in> {c..<d} \<union> iv_points xs" unfolding e by auto
      with far [of d] show False by auto
    next
      case 2
      with \<open>c = c'\<close> w(2) have "d' \<in> {c'..<d'} \<union> iv_points zs" unfolding e [symmetric] by auto
      with far' [of d'] show False by auto
    qed
  qed
  moreover have "iv_points xs = iv_points zs"
  proof -
    have "iv_points xs = ({c..<d} \<union> iv_points xs) - {c..<d}" using far by fastforce
    also have "\<dots> = ({c'..<d'} \<union> iv_points zs) - {c'..<d'}"
      using e \<open>c = c'\<close> \<open>d = d'\<close> by simp
    also have "\<dots> = iv_points zs" using far' by fastforce
    finally show ?thesis .
  qed
  ultimately show ?case
    using Cons.IH [OF w(3), of zs] w(4) x y by simp
qed

section \<open>The interface\<close>

locale interval_set =
  fixes add sub :: "interval \<Rightarrow> 's \<Rightarrow> 's"
    and points :: "'s \<Rightarrow> nat set"
    and inv :: "'s \<Rightarrow> bool"
    and contains intersects :: "'s \<Rightarrow> interval \<Rightarrow> bool"
  assumes fin: "finite (points s)"
    and add_law: "inv s \<Longrightarrow> inv (add (a, b) s) \<and> points (add (a, b) s) = points s \<union> {a..<b}"
    and sub_law: "inv s \<Longrightarrow> inv (sub (a, b) s) \<and> points (sub (a, b) s) = points s - {a..<b}"
    and contains_law: "inv s \<Longrightarrow> contains s (a, b) \<longleftrightarrow> {a..<b} \<subseteq> points s"
    and intersects_law: "inv s \<Longrightarrow> intersects s (a, b) \<longleftrightarrow> {a..<b} \<inter> points s \<noteq> {}"
    and unique: "inv s \<Longrightarrow> inv t \<Longrightarrow> points s = points t \<Longrightarrow> s = t"
begin

lemma take_give: "inv s \<Longrightarrow> contains s (a, b) \<Longrightarrow> add (a, b) (sub (a, b) s) = s"
  using add_law [of "sub (a, b) s" a b] sub_law [of s a b] contains_law [of s a b]
  by (intro unique) auto

lemma give_take: "inv s \<Longrightarrow> \<not> intersects s (a, b) \<Longrightarrow> sub (a, b) (add (a, b) s) = s"
  using add_law [of s a b] sub_law [of "add (a, b) s" a b] intersects_law [of s a b]
  by (intro unique) auto

lemma card_sub: "inv s \<Longrightarrow> contains s (a, b) \<Longrightarrow> card (points (sub (a, b) s)) + (b - a) = card (points s)"
  using sub_law [of s a b] contains_law [of s a b] fin [of s]
  by (simp add: card_Diff_subset card_mono le_add_diff_inverse2)
     (metis card_atLeastLessThan card_mono le_add_diff_inverse2)

lemma card_add: "inv s \<Longrightarrow> \<not> intersects s (a, b) \<Longrightarrow> card (points (add (a, b) s)) = card (points s) + (b - a)"
  using add_law [of s a b] intersects_law [of s a b] fin [of s]
  by (simp add: card_Un_disjoint Int_commute)

lemma sub_free: "inv s \<Longrightarrow> contains s (a, b) \<Longrightarrow> \<not> intersects (sub (a, b) s) (a, b)"
  using sub_law [of s a b] intersects_law [of "sub (a, b) s" a b] by auto

lemma fold_sub: "inv s \<Longrightarrow> inv (foldl (\<lambda>s i. sub i s) s xs) \<and> points (foldl (\<lambda>s i. sub i s) s xs) = points s - iv_points xs"
proof (induction xs arbitrary: s)
  case (Cons x xs)
  then show ?case using sub_law [of s] by (cases x) auto
qed simp

lemma fold_add: "inv s \<Longrightarrow> inv (foldl (\<lambda>s i. add i s) s xs) \<and> points (foldl (\<lambda>s i. add i s) s xs) = points s \<union> iv_points xs"
proof (induction xs arbitrary: s)
  case (Cons x xs)
  then show ?case using add_law [of s] by (cases x) auto
qed simp

end

interpretation iv: interval_set iv_add iv_sub iv_points "iv_wf 0" iv_contains iv_intersects
proof unfold_locales
  fix s t :: intervals and a b
  show "finite (iv_points s)" by simp
  assume s: "iv_wf 0 s"
  show "iv_wf 0 (iv_add (a, b) s) \<and> iv_points (iv_add (a, b) s) = iv_points s \<union> {a..<b}"
    using iv_join_spec [of a b 0 s] s by (auto simp: iv_add_def)
  show "iv_wf 0 (iv_sub (a, b) s) \<and> iv_points (iv_sub (a, b) s) = iv_points s - {a..<b}"
    using iv_cut_spec [of a b 0 s] s by (auto simp: iv_sub_def)
  show "iv_contains s (a, b) \<longleftrightarrow> {a..<b} \<subseteq> iv_points s"
    using iv_contains_points [OF s, of a b] by (cases "a < b") (simp_all add: iv_contains_def)
  show "iv_intersects s (a, b) \<longleftrightarrow> {a..<b} \<inter> iv_points s \<noteq> {}"
  proof -
    have "max c a < min d b \<longleftrightarrow> (\<exists>x. a \<le> x \<and> x < b \<and> c \<le> x \<and> x < d)" for c d :: nat
      by (rule iffI, rule exI [of _ "max c a"]) auto
    then have "iv_intersects s (a, b) \<longleftrightarrow> (\<exists>(c, d) \<in> set s. \<exists>x. a \<le> x \<and> x < b \<and> c \<le> x \<and> x < d)"
      by (simp add: iv_intersects_def)
    also have "\<dots> \<longleftrightarrow> {a..<b} \<inter> iv_points s \<noteq> {}"
      unfolding iv_points_def by (auto 4 3)
    finally show ?thesis .
  qed
  show "iv_wf 0 t \<Longrightarrow> iv_points s = iv_points t \<Longrightarrow> s = t"
    using iv_unique s by blast
qed

section \<open>Regions\<close>

definition free_set :: "memory_region \<Rightarrow> nat set" where
  "free_set r = iv_points (free_blocks r)"

text \<open>The blocks lie in the region, and what is not free is used.\<close>

definition region_ok :: "memory_region \<Rightarrow> bool" where
  "region_ok r \<longleftrightarrow> iv_wf 0 (free_blocks r) \<and> free_set r \<subseteq> {rg_base r..<rg_base r + rg_size r} \<and>
     rg_base r + rg_size r < 2 ^ 32 \<and> rg_used r + card (free_set r) = rg_size r"

lemma region_okD:
  assumes "region_ok r"
  shows "iv_wf 0 (free_blocks r)" "free_set r \<subseteq> {rg_base r..<rg_base r + rg_size r}"
    "rg_base r + rg_size r < 2 ^ 32" "rg_used r + card (free_set r) = rg_size r"
  using assms by (simp_all add: region_ok_def)

lemma region_ok_Reset:
  assumes "\<not> rg_locked r" "base + len < 2 ^ 32"
  shows "\<exists>r'. region_Reset base len r = Some r' \<and> region_ok r' \<and> \<not> rg_locked r' \<and> free_set r' = {base..<base + len} \<and>
    rg_base r' = base \<and> rg_size r' = len"
  using assms iv.add_law [of "[]" base "base + len"]
  by (simp add: region_Reset_def add32_small region_ok_def free_set_def)

text \<open>What every allocation does: the points \<open>T\<close> are taken and accounted for.\<close>

lemma region_take:
  assumes "region_ok r" "iv_wf 0 fb" "iv_points fb = free_set r - T" "T \<subseteq> free_set r" "card T = n"
  shows "region_ok (r\<lparr>free_blocks := fb, rg_used := add32 (rg_used r) n\<rparr>)"
proof -
  note ok = region_okD [OF assms(1)]
  have f: "finite (free_set r)" by (simp add: free_set_def)
  then have c: "card (free_set r - T) = card (free_set r) - n" "n \<le> card (free_set r)"
    using assms(4,5) by (auto simp: card_Diff_subset finite_subset card_mono)
  with ok(3,4) have "add32 (rg_used r) n = rg_used r + n"
    by (simp add: add32_small)
  with c ok assms(2,3) show ?thesis
    by (auto simp: region_ok_def free_set_def)
qed

subsection \<open>The heap\<close>

text \<open>The loop takes the highest points, as many as wanted, or all there are.\<close>

lemma heap_loop_spec:
  assumes "iv_wf 0 xs" "iv_wf 0 acc"
  shows "if rest \<le> card (iv_points xs)
    then \<exists>res T. heap_loop rest (rev xs) acc = (0, res) \<and> iv_wf 0 res \<and> iv_points res = iv_points acc \<union> T \<and>
      T \<subseteq> iv_points xs \<and> card T = rest \<and> (\<forall>x \<in> T. \<forall>y \<in> iv_points xs - T. y < x)
    else fst (heap_loop rest (rev xs) acc) \<noteq> 0"
  using assms
proof (induction xs arbitrary: rest acc rule: rev_induct)
  case (snoc x xs)
  obtain l u where x: "x = (l, u)" by force
  with snoc.prems(1) have w: "iv_wf 0 xs" "l < u" "\<forall>y \<in> iv_points xs. Suc y < l"
    by (simp_all add: iv_wf_append)
  have dis: "iv_points xs \<inter> {l..<u} = {}" using w(3) by fastforce
  have card: "card (iv_points (xs @ [x])) = card (iv_points xs) + (u - l)"
    using dis x by (simp add: card_Un_disjoint)
  show ?case
  proof (cases "rest \<le> u - l")
    case True
    have "iv_wf 0 (iv_add (u - rest, u) acc)" "iv_points (iv_add (u - rest, u) acc) = iv_points acc \<union> {u - rest..<u}"
      using iv.add_law [OF snoc.prems(2)] by auto
    moreover have "{u - rest..<u} \<subseteq> iv_points (xs @ [x])" "card {u - rest..<u} = rest"
      using True x w(2) by auto
    moreover have "\<forall>p \<in> {u - rest..<u}. \<forall>y \<in> iv_points (xs @ [x]) - {u - rest..<u}. y < p"
      using True x w(3) by fastforce
    moreover have "heap_loop rest (rev (xs @ [x])) acc = (0, iv_add (u - rest, u) acc)" "rest \<le> card (iv_points (xs @ [x]))"
      using True x card by simp_all
    ultimately show ?thesis
      by (subst if_P) (assumption, blast)
  next
    case False
    let ?acc = "iv_add (l, u) acc"
    have a: "iv_wf 0 ?acc" "iv_points ?acc = iv_points acc \<union> {l..<u}"
      using iv.add_law [OF snoc.prems(2)] by auto
    have step: "heap_loop rest (rev (xs @ [x])) acc = heap_loop (rest - (u - l)) (rev xs) ?acc"
      using False x by simp
    have iff: "rest \<le> card (iv_points (xs @ [x])) \<longleftrightarrow> rest - (u - l) \<le> card (iv_points xs)"
      using False card by linarith
    show ?thesis
    proof (cases "rest - (u - l) \<le> card (iv_points xs)")
      case True
      with snoc.IH [OF w(1) a(1), of "rest - (u - l)"] obtain res T where T:
        "heap_loop (rest - (u - l)) (rev xs) ?acc = (0, res)" "iv_wf 0 res" "iv_points res = iv_points ?acc \<union> T"
        "T \<subseteq> iv_points xs" "card T = rest - (u - l)" "\<forall>x \<in> T. \<forall>y \<in> iv_points xs - T. y < x"
        by auto
      have "card (T \<union> {l..<u}) = rest"
        using T(4,5) dis False finite_subset [OF T(4)] by (subst card_Un_disjoint) auto
      moreover have "\<forall>p \<in> T \<union> {l..<u}. \<forall>y \<in> iv_points (xs @ [x]) - (T \<union> {l..<u}). y < p"
        using T(6) x w(3) by fastforce
      moreover have "T \<union> {l..<u} \<subseteq> iv_points (xs @ [x])" "iv_points res = iv_points acc \<union> (T \<union> {l..<u})"
        using T(3,4) x a(2) by auto
      moreover have "rest \<le> card (iv_points (xs @ [x]))" "heap_loop rest (rev (xs @ [x])) acc = (0, res)"
        using True T(1) iff step by simp_all
      ultimately show ?thesis
        using T(2) by (subst if_P) (assumption, blast)
    next
      case False
      with snoc.IH [OF w(1) a(1), of "rest - (u - l)"] show ?thesis
        unfolding iff step by simp
    qed
  qed
qed auto

lemma HeapAllocate_spec:
  assumes "region_ok r" "\<not> rg_locked r"
  shows "if len \<le> card (free_set r)
    then \<exists>r' res. region_HeapAllocate len r = Some (r', res) \<and> region_ok r' \<and> \<not> rg_locked r' \<and> iv_wf 0 res \<and>
      card (iv_points res) = len \<and> iv_points res \<subseteq> free_set r \<and> free_set r' = free_set r - iv_points res \<and>
      (\<forall>x \<in> iv_points res. \<forall>y \<in> free_set r'. y < x) \<and> rg_used r' = rg_used r + len \<and>
      rg_base r' = rg_base r \<and> rg_size r' = rg_size r
    else region_HeapAllocate len r = Some (r, [])"
proof -
  note ok = region_okD [OF assms(1)]
  have h: "if len \<le> card (free_set r)
    then \<exists>res T. heap_loop len (rev (free_blocks r)) [] = (0, res) \<and> iv_wf 0 res \<and> iv_points res = T \<and>
      T \<subseteq> free_set r \<and> card T = len \<and> (\<forall>x \<in> T. \<forall>y \<in> free_set r - T. y < x)
    else fst (heap_loop len (rev (free_blocks r)) []) \<noteq> 0"
    using heap_loop_spec [OF ok(1), of "[]" len] by (cases "len \<le> card (free_set r)") (auto simp: free_set_def)
  show ?thesis
  proof (cases "len \<le> card (free_set r)")
    case True
    with h obtain res where res: "heap_loop len (rev (free_blocks r)) [] = (0, res)" "iv_wf 0 res"
      "iv_points res \<subseteq> free_set r" "card (iv_points res) = len" "\<forall>x \<in> iv_points res. \<forall>y \<in> free_set r - iv_points res. y < x"
      by auto
    let ?fb = "iv_sub_all res (free_blocks r)"
    have fb: "iv_wf 0 ?fb" "iv_points ?fb = free_set r - iv_points res"
      using iv.fold_sub [OF ok(1), of res] by (simp_all add: iv_sub_all_def free_set_def)
    have "add32 (rg_used r) len = rg_used r + len"
      using True ok(3,4) by (simp add: add32_small)
    with res fb region_take [OF assms(1) fb res(3,4)] assms(2) True show ?thesis
      by (auto simp: region_HeapAllocate_def Let_def free_set_def)
  next
    case False
    with h assms(2) show ?thesis
      by (auto simp: region_HeapAllocate_def Let_def split: prod.split)
  qed
qed

subsection \<open>The linear heap\<close>

lemma find_first_fit:
  assumes "iv_wf lo xs" "0 < len"
  shows "case List.find (\<lambda>(l, u). u - l \<ge> len) xs of
      None \<Rightarrow> \<forall>b. \<not> {b..<b + len} \<subseteq> iv_points xs
    | Some (l, u) \<Rightarrow> {l..<l + len} \<subseteq> iv_points xs \<and> (\<forall>b < l. \<not> {b..<b + len} \<subseteq> iv_points xs)"
  using assms
proof (induction lo xs rule: iv_wf.induct)
  case (2 lo c d xs)
  note fits = iv_contains_points [of lo "(c, d) # xs"]
  show ?case
  proof (cases "d - c \<ge> len")
    case True
    have "{c..<c + len} \<subseteq> iv_points ((c, d) # xs)" using True 2(3) by auto
    moreover have "\<not> {b..<b + len} \<subseteq> iv_points ((c, d) # xs)" if "b < c" for b
    proof -
      have "b \<notin> iv_points ((c, d) # xs)"
        using that 2(2) iv_wf_bound [of "Suc d" xs b] by auto
      moreover have "b \<in> {b..<b + len}" using 2(3) by simp
      ultimately show ?thesis by blast
    qed
    ultimately show ?thesis using True by simp
  next
    case False
    have here: "{b..<b + len} \<subseteq> iv_points ((c, d) # xs) \<longleftrightarrow> {b..<b + len} \<subseteq> iv_points xs" for b
      using fits [of b "b + len"] iv_contains_points [of "Suc d" xs b "b + len"] 2(2,3) False by auto
    show ?thesis
      using 2(1) 2(2,3) False unfolding here by (auto split: option.splits)
  qed
qed auto

lemma find_last_fit:
  assumes "iv_wf 0 xs" "0 < len"
  shows "case List.find (\<lambda>(l, u). u - l \<ge> len) (rev xs) of
      None \<Rightarrow> \<forall>b. \<not> {b..<b + len} \<subseteq> iv_points xs
    | Some (l, u) \<Rightarrow> len \<le> u \<and> {u - len..<u} \<subseteq> iv_points xs \<and> (\<forall>b > u - len. \<not> {b..<b + len} \<subseteq> iv_points xs)"
  using assms
proof (induction xs rule: rev_induct)
  case (snoc x xs)
  obtain c d where x: "x = (c, d)" by force
  with snoc.prems have w: "iv_wf 0 xs" "c < d" "\<forall>p \<in> iv_points xs. Suc p < c"
    by (simp_all add: iv_wf_append)
  show ?case
  proof (cases "d - c \<ge> len")
    case True
    have "{d - len..<d} \<subseteq> iv_points (xs @ [x])" using True x by auto
    moreover have "\<not> {b..<b + len} \<subseteq> iv_points (xs @ [x])" if "d - len < b" for b
    proof -
      have "b + len - 1 \<in> {b..<b + len}" "d \<le> b + len - 1" using that snoc.prems(2) True by auto
      moreover have "p < d" if "p \<in> iv_points (xs @ [x])" for p using that x w(2,3) by fastforce
      ultimately show ?thesis by fastforce
    qed
    ultimately show ?thesis using True x by simp
  next
    case False
    have here: "{b..<b + len} \<subseteq> iv_points (xs @ [x]) \<longleftrightarrow> {b..<b + len} \<subseteq> iv_points xs" for b
      using iv_contains_points [OF snoc.prems(1), of b "b + len"] iv_contains_points [OF w(1), of b "b + len"]
        snoc.prems(2) False x by auto
    show ?thesis
      using snoc.IH [OF w(1) snoc.prems(2)] False x unfolding here by (auto split: option.splits)
  qed
qed auto

lemma linear_take:
  assumes "region_ok r" "{a..<a + len} \<subseteq> free_set r"
  shows "region_ok (r\<lparr>free_blocks := iv_sub (a, a + len) (free_blocks r), rg_used := add32 (rg_used r) len\<rparr>)"
    "free_set (r\<lparr>free_blocks := iv_sub (a, a + len) (free_blocks r), rg_used := u\<rparr>) = free_set r - {a..<a + len}"
  using iv.sub_law [OF region_okD(1) [OF assms(1)], of a "a + len"] region_take [OF assms(1) _ _ assms(2)]
  by (simp_all add: free_set_def)

lemma LinearAllocate_spec:
  assumes "region_ok r" "\<not> rg_locked r" "0 < len"
  shows "case region_LinearAllocate len r of
      None \<Rightarrow> False
    | Some (r', None) \<Rightarrow> r' = r \<and> (\<forall>b. \<not> {b..<b + len} \<subseteq> free_set r)
    | Some (r', Some a) \<Rightarrow> region_ok r' \<and> \<not> rg_locked r' \<and> {a..<a + len} \<subseteq> free_set r \<and>
        free_set r' = free_set r - {a..<a + len} \<and> (\<forall>b < a. \<not> {b..<b + len} \<subseteq> free_set r)"
  using find_first_fit [OF region_okD(1) [OF assms(1)] assms(3)] linear_take [OF assms(1)] assms(2)
  by (auto simp: region_LinearAllocate_def free_set_def split: option.splits)

lemma RLinearAllocate_spec:
  assumes "region_ok r" "\<not> rg_locked r" "0 < len"
  shows "case region_RLinearAllocate len r of
      None \<Rightarrow> False
    | Some (r', None) \<Rightarrow> r' = r \<and> (\<forall>b. \<not> {b..<b + len} \<subseteq> free_set r)
    | Some (r', Some a) \<Rightarrow> region_ok r' \<and> \<not> rg_locked r' \<and> {a..<a + len} \<subseteq> free_set r \<and>
        free_set r' = free_set r - {a..<a + len} \<and> (\<forall>b > a. \<not> {b..<b + len} \<subseteq> free_set r)"
proof (cases "List.find (\<lambda>(l, u). u - l \<ge> len) (rev (free_blocks r))")
  case None
  with find_last_fit [OF region_okD(1) [OF assms(1)] assms(3)] assms(2) show ?thesis
    by (simp add: region_RLinearAllocate_def free_set_def)
next
  case (Some i)
  obtain l u where i: "i = (l, u)" by force
  have fit: "len \<le> u" "{u - len..<u} \<subseteq> free_set r" "\<forall>b > u - len. \<not> {b..<b + len} \<subseteq> free_set r"
    using find_last_fit [OF region_okD(1) [OF assms(1)] assms(3)] Some i by (simp_all add: free_set_def)
  have e: "u - len + len = u" using fit(1) by simp
  note t = linear_take [OF assms(1), of "u - len" len, unfolded e, OF fit(2)]
  show ?thesis
    using Some i fit t assms(2) by (simp add: region_RLinearAllocate_def e)
qed

lemma Free_spec:
  assumes "region_ok r" "\<not> rg_locked r" "{a..<a + len} \<inter> free_set r = {}"
    "{a..<a + len} \<subseteq> {rg_base r..<rg_base r + rg_size r}" "0 < len"
  shows "\<exists>r'. region_Free a len r = Some r' \<and> region_ok r' \<and> \<not> rg_locked r' \<and> free_set r' = free_set r \<union> {a..<a + len} \<and>
    rg_used r' = rg_used r - len"
proof -
  note ok = region_okD [OF assms(1)]
  have "a + len \<le> rg_base r + rg_size r"
    using assms(4,5) by (auto dest: subsetD [of _ _ "a + len - 1"])
  then have e: "add32 a len = a + len" using ok(3) by (simp add: add32_small)
  have ni: "\<not> iv_intersects (free_blocks r) (a, a + len)"
    using iv.intersects_law [OF ok(1), of a "a + len"] assms(3) by (simp add: free_set_def)
  note add = iv.add_law [OF ok(1), of a "a + len"]
  have c: "card (free_set r \<union> {a..<a + len}) = card (free_set r) + len"
    using iv.card_add [OF ok(1) ni] add by (simp add: free_set_def)
  have "card (free_set r \<union> {a..<a + len}) \<le> card {rg_base r..<rg_base r + rg_size r}"
    using ok(2) assms(4) by (intro card_mono) auto
  with c ok(4) have "len \<le> rg_used r" by simp
  moreover have "sub32 (rg_used r) len = rg_used r - len"
    using calculation ok(3,4) by (simp add: sub32_small)
  ultimately show ?thesis
    using add ni e c ok assms(2,4) by (simp add: region_Free_def region_ok_def free_set_def)
qed

section \<open>Properties\<close>

definition blank_region :: memory_region where
  "blank_region = \<lparr>rg_base = 0, rg_size = 0, rg_used = 0, free_blocks = [], rg_locked = False\<rparr>"

definition demo_region :: memory_region where
  "demo_region = \<lparr>rg_base = 0x1000, rg_size = 0x5000, rg_used = 0x1000,
     free_blocks = [(0x1000, 0x3000), (0x4000, 0x6000)], rg_locked = False\<rparr>"

lemma demo_region_free: "free_set demo_region = {0x1000..<0x3000} \<union> {0x4000..<0x6000}"
  by (simp add: free_set_def demo_region_def)

lemma demo_region_ok: "region_ok demo_region" "\<not> rg_locked demo_region"
  unfolding region_ok_def demo_region_free by (simp_all add: demo_region_def card_Un_disjoint)

text \<open>An allocation from the heap is all or nothing: when enough bytes are free it takes exactly
  as many as asked for, the highest free ones, and accounts for them; otherwise it changes nothing.\<close>

lemma HeapAllocate_highest:
  assumes "region_ok r" "\<not> rg_locked r"
  shows "if len \<le> card (free_set r)
    then \<exists>r' res. region_HeapAllocate len r = Some (r', res) \<and> region_ok r' \<and> card (iv_points res) = len \<and>
      iv_points res \<subseteq> free_set r \<and> free_set r' = free_set r - iv_points res \<and>
      (\<forall>x \<in> iv_points res. \<forall>y \<in> free_set r'. y < x) \<and> rg_used r' = rg_used r + len
    else region_HeapAllocate len r = Some (r, [])"
  using HeapAllocate_spec [OF assms, of len] by (auto split: if_splits)

lemma HeapAllocate_highest_witness:
  "\<exists>r' res. region_HeapAllocate 0x3000 demo_region = Some (r', res) \<and> card (iv_points res) = 0x3000 \<and>
     rg_used r' = 0x4000"
proof -
  have "card (free_set demo_region) = 0x4000"
    by (simp add: demo_region_free card_Un_disjoint)
  then show ?thesis
    using HeapAllocate_highest [OF demo_region_ok, of "0x3000"] by (auto simp: demo_region_def)
qed

text \<open>Allocations from the linear heap return the lowest place (\<open>LinearAllocate\<close>) or the highest
  place (\<open>RLinearAllocate\<close>) at which the whole block is free, take exactly that block, and fail, changing
  nothing, only when there is no such place.\<close>

lemma LinearAllocate_extreme:
  assumes "region_ok r" "\<not> rg_locked r" "0 < len"
  shows "(case region_LinearAllocate len r of
      None \<Rightarrow> False
    | Some (r', None) \<Rightarrow> r' = r \<and> (\<forall>b. \<not> {b..<b + len} \<subseteq> free_set r)
    | Some (r', Some a) \<Rightarrow> region_ok r' \<and> {a..<a + len} \<subseteq> free_set r \<and>
        free_set r' = free_set r - {a..<a + len} \<and> (\<forall>b < a. \<not> {b..<b + len} \<subseteq> free_set r)) \<and>
    (case region_RLinearAllocate len r of
      None \<Rightarrow> False
    | Some (r', None) \<Rightarrow> r' = r \<and> (\<forall>b. \<not> {b..<b + len} \<subseteq> free_set r)
    | Some (r', Some a) \<Rightarrow> region_ok r' \<and> {a..<a + len} \<subseteq> free_set r \<and>
        free_set r' = free_set r - {a..<a + len} \<and> (\<forall>b > a. \<not> {b..<b + len} \<subseteq> free_set r))"
  using LinearAllocate_spec [OF assms] RLinearAllocate_spec [OF assms] by (auto split: option.splits)

lemma LinearAllocate_extreme_witness:
  "\<exists>r'. region_LinearAllocate 0x2000 demo_region = Some (r', Some 0x1000) \<and> free_set r' = {0x4000..<0x6000}"
proof -
  have "\<not> {b..<b + 0x2000} \<subseteq> {0x1000..<0x3000} \<union> {0x4000..<0x6000}" if "b < 0x1000" for b :: nat
  proof
    assume "{b..<b + 0x2000} \<subseteq> {0x1000..<0x3000} \<union> {0x4000..<0x6000}"
    then have "b \<in> {0x1000..<0x3000} \<union> {0x4000..<0x6000}" by (rule subsetD) simp
    with that show False by simp
  qed
  moreover have "map_option snd (region_LinearAllocate 0x2000 demo_region) = Some (Some 0x1000)"
    by (simp add: region_LinearAllocate_def demo_region_def)
  moreover have "{0x1000..<0x3000} \<union> {0x4000..<0x6000} - {0x1000..<0x3000} = {0x4000..<0x6000::nat}" by auto
  ultimately show ?thesis
    using LinearAllocate_extreme [OF demo_region_ok, of "0x2000"] by (auto simp: demo_region_free split: option.splits)
qed

text \<open>Freeing a block that was allocated from the linear heap gives back the region exactly as it
  was, its list of free blocks included.\<close>

lemma LinearAllocate_Free:
  assumes "region_ok r" "0 < len" "region_LinearAllocate len r = Some (r1, Some a)"
  shows "region_Free a len r1 = Some r"
proof -
  note ok = region_okD [OF assms(1)]
  have u: "\<not> rg_locked r" using assms(3) by (auto simp: region_LinearAllocate_def assertion_def split: if_splits)
  have f: "{a..<a + len} \<subseteq> free_set r"
    using LinearAllocate_spec [OF assms(1) u assms(2)] assms(3) by auto
  have r1: "r1 = r\<lparr>free_blocks := iv_sub (a, a + len) (free_blocks r), rg_used := add32 (rg_used r) len\<rparr>"
    using assms(3) u by (auto simp: region_LinearAllocate_def split: option.splits)
  have c: "iv_contains (free_blocks r) (a, a + len)"
    using iv.contains_law [OF ok(1), of a "a + len"] f by (simp add: free_set_def)
  have "len \<le> card (free_set r)"
    using card_mono [OF _ f] by (simp add: free_set_def)
  then have used: "add32 (rg_used r) len = rg_used r + len" "sub32 (rg_used r + len) len = rg_used r"
    using ok(3,4) by (simp_all add: add32_small sub32_small)
  have "a + len \<le> rg_base r + rg_size r"
    using subset_trans [OF f ok(2)] assms(2) by (auto dest: subsetD [of _ _ "a + len - 1"])
  then have "add32 a len = a + len"
    using ok(3) by (simp add: add32_small)
  then show ?thesis
    using u iv.sub_free [OF ok(1) c] iv.take_give [OF ok(1) c] used by (simp add: region_Free_def r1)
qed

lemma LinearAllocate_Free_witness:
  "\<exists>r1. region_LinearAllocate 0x1000 demo_region = Some (r1, Some 0x1000) \<and> region_Free 0x1000 0x1000 r1 = Some demo_region"
proof -
  obtain r1 where r1: "region_LinearAllocate 0x1000 demo_region = Some (r1, Some 0x1000)"
    by (simp add: region_LinearAllocate_def demo_region_def)
  with LinearAllocate_Free [OF demo_region_ok(1) _ r1] show ?thesis by simp
qed

definition layout :: "nat list \<Rightarrow> memory_region list" where
  "layout ss = map (\<lambda>(b, s). blank_region\<lparr>rg_base := b, rg_size := s, free_blocks := [(b, b + s)]\<rparr>)
     [(0, ss ! 0), (ss ! 0, ss ! 1), (ss ! 0 + ss ! 1, ss ! 2)]"

lemma reset_regions_layout:
  assumes "0 < a" "0 < b" "0 < c" "a + b + c < 2 ^ 32"
  shows "reset_regions 0 [a, b, c] (replicate 3 blank_region) = Some (layout [a, b, c], a + b + c)"
  using assms by (simp add: numeral_3_eq_3 region_Reset_def blank_region_def add32_small iv_add_def layout_def)

lemma sizes_nth:
  "memory_region_sizes ! 0 = [0x04000000, 0x02C00000, 0x01400000]" "memory_region_sizes ! 1 = [0, 0, 0]"
  "memory_region_sizes ! 2 = [0x06000000, 0x00C00000, 0x01400000]" "memory_region_sizes ! 3 = [0x05000000, 0x01C00000, 0x01400000]"
  "memory_region_sizes ! 4 = [0x04800000, 0x02400000, 0x01400000]" "memory_region_sizes ! 5 = [0x02000000, 0x04C00000, 0x01400000]"
  "memory_region_sizes ! 6 = [0x07C00000, 0x06400000, 0x02000000]" "memory_region_sizes ! 7 = [0x0B200000, 0x02E00000, 0x02000000]"
  by (simp_all add: memory_region_sizes_def)

lemma layout_nth: "rg_size (layout ss ! 0) = ss ! 0" "rg_size (layout ss ! 1) = ss ! 1" "rg_size (layout ss ! 2) = ss ! 2"
  by (simp_all add: layout_def)

lemma MemoryInit_eval:
  assumes "mode < 8" "memory_region_sizes ! mode = [a, b, c]" "0 < a" "0 < b" "0 < c" "a + b + c < 2 ^ 32"
  shows "MemoryInit n3ds mode (replicate 3 blank_region) =
    (if a + b + c = (if n3ds then FCRAM_N3DS_SIZE else FCRAM_SIZE)
     then Some (layout (memory_region_sizes ! mode), \<lparr>app_mem_type = mode, app_mem_alloc = a, sys_mem_alloc = b, base_mem_alloc = c\<rparr>)
     else None)"
  using assms by (simp add: MemoryInit_def reset_regions_layout layout_nth [unfolded One_nat_def])

text \<open>Every memory mode of the hardware it belongs to splits FCRAM: the three regions are unused,
  adjacent and fill FCRAM to the end, and the configuration page reports their sizes; on the other
  hardware, or with the unused mode, the initialisation stops at its assertion.\<close>

lemma MemoryInit_splits_FCRAM:
  "(\<forall>mode \<in> {0, 2, 3, 4, 5, 6, 7}. MemoryInit (mode \<ge> 6) mode (replicate 3 blank_region) =
      Some (layout (memory_region_sizes ! mode),
        \<lparr>app_mem_type = mode, app_mem_alloc = memory_region_sizes ! mode ! 0,
         sys_mem_alloc = memory_region_sizes ! mode ! 1, base_mem_alloc = memory_region_sizes ! mode ! 2\<rparr>) \<and>
      sum_list (memory_region_sizes ! mode) = (if mode \<ge> 6 then FCRAM_N3DS_SIZE else FCRAM_SIZE) \<and>
      MemoryInit (\<not> mode \<ge> 6) mode (replicate 3 blank_region) = None) \<and>
    MemoryInit b 1 (replicate 3 blank_region) = None"
proof
  note eval = MemoryInit_eval FCRAM_SIZE_def FCRAM_N3DS_SIZE_def sizes_nth
  have "MemoryInit (mode \<ge> 6) mode (replicate 3 blank_region) =
      Some (layout (memory_region_sizes ! mode),
        \<lparr>app_mem_type = mode, app_mem_alloc = memory_region_sizes ! mode ! 0,
         sys_mem_alloc = memory_region_sizes ! mode ! 1, base_mem_alloc = memory_region_sizes ! mode ! 2\<rparr>) \<and>
    sum_list (memory_region_sizes ! mode) = (if mode \<ge> 6 then FCRAM_N3DS_SIZE else FCRAM_SIZE) \<and>
    MemoryInit (\<not> mode \<ge> 6) mode (replicate 3 blank_region) = None"
    if "mode = 0 \<or> mode = 2 \<or> mode = 3 \<or> mode = 4 \<or> mode = 5 \<or> mode = 6 \<or> mode = 7" for mode
    using that by (elim disjE; hypsubst) (simp_all add: eval)
  then show "\<forall>mode \<in> {0, 2, 3, 4, 5, 6, 7}. MemoryInit (mode \<ge> 6) mode (replicate 3 blank_region) =
      Some (layout (memory_region_sizes ! mode),
        \<lparr>app_mem_type = mode, app_mem_alloc = memory_region_sizes ! mode ! 0,
         sys_mem_alloc = memory_region_sizes ! mode ! 1, base_mem_alloc = memory_region_sizes ! mode ! 2\<rparr>) \<and>
      sum_list (memory_region_sizes ! mode) = (if mode \<ge> 6 then FCRAM_N3DS_SIZE else FCRAM_SIZE) \<and>
      MemoryInit (\<not> mode \<ge> 6) mode (replicate 3 blank_region) = None"
    by simp
  show "MemoryInit b 1 (replicate 3 blank_region) = None"
    by (simp add: MemoryInit_def memory_region_sizes_def numeral_3_eq_3 region_Reset_def blank_region_def add32_def
        FCRAM_SIZE_def FCRAM_N3DS_SIZE_def)
qed

lemma MemoryInit_splits_FCRAM_witness:
  "MemoryInit True 6 (replicate 3 blank_region) = Some (layout [0x07C00000, 0x06400000, 0x02000000],
     \<lparr>app_mem_type = 6, app_mem_alloc = 0x07C00000, sys_mem_alloc = 0x06400000, base_mem_alloc = 0x02000000\<rparr>)"
  using MemoryInit_splits_FCRAM [THEN conjunct1, THEN bspec, of 6] by (simp add: sizes_nth)

end
