(* ===== verification/VM_Ops.thy ===== *)
theory VM_Ops
  imports VM_View
begin

text \<open>
  Merging, the page table, and the loop over the areas of a range.
\<close>

section \<open>Merging\<close>

definition joined :: "vma \<Rightarrow> vma \<Rightarrow> vma" where
  "joined v w = v\<lparr>vma_size := vma_size v + vma_size w\<rparr>"

lemma view_joined:
  assumes "vma_base w = vma_end v" "same_attr v w"
  shows "view [joined v w] = view [v, w]"
  using assms by (auto simp: fun_eq_iff view_Cons inside_def vma_end_def joined_def attr_def same_attr_def)

lemma joined_ok:
  assumes "vma_ok ext v" "vma_ok ext w" "host_ok ext" "vma_base w = vma_end v" "same_attr v w" "0 < vma_size w"
  shows "vma_ok ext (joined v w)"
proof -
  have "vma_size v + vma_size w \<le> ext (ref_ptr (vma_backing v))" if t: "vma_type v = BackingMemory"
  proof -
    let ?p = "ref_ptr (vma_backing v)"
    have p: "vma_size v \<le> ext ?p" "vma_size w \<le> ext (?p + vma_size v)" "vma_type w = BackingMemory"
      using assms t by (auto simp: vma_ok_def same_attr_def ref_ok_def)
    have "vma_size v \<noteq> ext ?p"
    proof
      assume e: "vma_size v = ext ?p"
      show False
      proof (cases "ext ?p = 0")
        case True
        with e p(2) assms(6) show False by simp
      next
        case False
        then have "ext (?p + ext ?p) = 0"
          using assms(3) by (auto simp: host_ok_def)
        with e p(2) assms(6) show False by simp
      qed
    qed
    with p(1) have "ext (?p + vma_size v) = ext ?p - vma_size v"
      using assms(3) by (auto simp: host_ok_def)
    with p(1,2) show ?thesis by simp
  qed
  then show ?thesis
    using assms page_aligned_add [of "vma_size v" "vma_size w"]
    by (auto simp: vma_ok_def joined_def ref_ok_def)
qed

lemma same_attr_joined:
  "same_attr v w \<Longrightarrow> same_attr (joined v w) u \<longleftrightarrow> same_attr w u"
  "same_attr u (joined v w) \<longleftrightarrow> same_attr u v"
  by (auto simp: same_attr_def joined_def)

lemma vma_end_joined: "vma_base w = vma_end v \<Longrightarrow> vma_end (joined v w) = vma_end w"
  by (simp add: joined_def vma_end_def)

text \<open>No two neighbouring free areas are left to be merged.\<close>

abbreviation canonical :: "vma list \<Rightarrow> bool" where
  "canonical \<equiv> successively (\<lambda>v w. same_attr v w \<longrightarrow> vma_type v \<noteq> Free)"

lemma same_attr_type: "same_attr v w \<Longrightarrow> vma_type v = vma_type w"
  by (simp add: same_attr_def)

lemma map_ok_pair:
  assumes "map_ok ext (xs @ v # w # ys)"
  shows "vma_base w = vma_end v" "vma_end v < 2 ^ 32" "vma_ok ext v" "vma_ok ext w" "0 < vma_size w"
proof -
  show "vma_base w = vma_end v" "vma_ok ext v" "vma_ok ext w" "0 < vma_size w"
    using assms by (auto simp: map_ok_def covers_append vma_end_def)
  have "vma_end v \<le> MAX_ADDRESS"
    using covers_bounds [of 0 "xs @ v # w # ys" MAX_ADDRESS v] assms by (simp add: map_ok_def)
  then show "vma_end v < 2 ^ 32"
    using MAX_small by simp
qed

lemma join_pair:
  assumes "map_ok ext (xs @ v # w # ys)" "host_ok ext" "same_attr v w"
  shows "map_ok ext (xs @ joined v w # ys)" "view (xs @ joined v w # ys) = view (xs @ v # w # ys)"
proof -
  note p = map_ok_pair [OF assms(1)]
  have "covers 0 (xs @ joined v w # ys) MAX_ADDRESS"
    using assms(1) by (auto simp: map_ok_def covers_append joined_def add.assoc)
  moreover have "vma_ok ext (joined v w)"
    by (rule joined_ok [OF p(3,4) assms(2) p(1) assms(3) p(5)])
  ultimately show "map_ok ext (xs @ joined v w # ys)"
    using assms(1) by (auto simp: map_ok_def)
  show "view (xs @ joined v w # ys) = view (xs @ v # w # ys)"
    using view_cong [OF view_joined [OF p(1) assms(3)], of xs ys] by simp
qed

lemma merge_next_spec:
  assumes "map_ok ext (xs @ v # ys)" "host_ok ext"
  obtains w ys' where "merge_next (length xs) (xs @ v # ys) = Some (xs @ w # ys')" "map_ok ext (xs @ w # ys')"
    "view (xs @ w # ys') = view (xs @ v # ys)" "vma_base w = vma_base v"
    "w = v \<and> ys' = ys \<and> (ys \<noteq> [] \<longrightarrow> \<not> same_attr v (hd ys)) \<or>
     (\<exists>y. ys = y # ys' \<and> w = joined v y \<and> same_attr v y \<and> vma_base y = vma_end v)"
proof (cases ys)
  case Nil
  with assms that [of v "[]"] show thesis
    by (simp add: merge_next_def)
next
  case (Cons y zs)
  note p = map_ok_pair [OF assms(1) [unfolded Cons]]
  note c = CanBeMergedWith_same [OF p(1,2)]
  show thesis
  proof (cases "same_attr v y")
    case True
    note j = join_pair [OF assms(1) [unfolded Cons] assms(2) True]
    show thesis
      by (rule that [of "joined v y" zs]) (use Cons c True j p(1) in \<open>simp_all add: merge_next_def joined_def nth_append\<close>)
  next
    case False
    show thesis
      by (rule that [of v ys]) (use Cons c False assms(1) in \<open>simp_all add: merge_next_def nth_append\<close>)
  qed
qed

lemma merge_prev_spec:
  assumes "map_ok ext (xs @ v # ys)" "host_ok ext"
  obtains xs' w where "merge_prev (length xs) (xs @ v # ys) = Some (xs' @ w # ys, length xs')" "map_ok ext (xs' @ w # ys)"
    "view (xs' @ w # ys) = view (xs @ v # ys)" "vma_base w \<le> vma_base v" "vma_end w = vma_end v"
    "\<And>u. same_attr w u = same_attr v u" "canonical xs \<Longrightarrow> canonical (xs' @ [w])"
proof (cases xs rule: rev_cases)
  case Nil
  with assms show thesis
    by (intro that [of "[]" v]) (simp_all add: merge_prev_def)
next
  case (snoc zs x)
  have m: "xs @ v # ys = zs @ x # v # ys"
    by (simp add: snoc)
  note p = map_ok_pair [OF assms(1) [unfolded m]]
  note c = CanBeMergedWith_same [OF p(1,2)]
  show thesis
  proof (cases "same_attr x v")
    case True
    note j = join_pair [OF assms(1) [unfolded m] assms(2) True]
    show thesis
    proof (rule that [of zs "joined x v"])
      show "canonical (zs @ [joined x v])" if "canonical xs"
        using that snoc by (auto simp: successively_append_iff same_attr_joined)
    qed (use c True j p(1) snoc in \<open>simp_all add: merge_prev_def joined_def vma_end_def nth_append same_attr_joined [unfolded joined_def]\<close>)
  next
    case False
    show thesis
    proof (rule that [of xs v])
      show "canonical (xs @ [v])" if "canonical xs"
        using that snoc False by (auto simp: successively_append_iff)
    qed (use c False snoc assms(1) in \<open>simp_all add: merge_prev_def nth_append\<close>)
  qed
qed

lemma MergeAdjacent_spec:
  assumes "map_ok ext (xs @ v # ys)" "host_ok ext"
  obtains xs' w ys' where "MergeAdjacent (length xs) (xs @ v # ys) = Some (xs' @ w # ys', length xs')"
    "map_ok ext (xs' @ w # ys')" "view (xs' @ w # ys') = view (xs @ v # ys)"
    "vma_base w \<le> vma_base v" "canonical xs \<Longrightarrow> canonical (xs' @ [w])"
    "vma_end w = vma_end v \<and> ys' = ys \<and> (ys \<noteq> [] \<longrightarrow> \<not> same_attr w (hd ys)) \<or>
     (\<exists>y. ys = y # ys' \<and> vma_end w = vma_end y \<and> vma_base y = vma_end v \<and> same_attr v y \<and>
        (\<forall>u. same_attr w u = same_attr y u))"
proof -
  obtain w1 ys' where n: "merge_next (length xs) (xs @ v # ys) = Some (xs @ w1 # ys')" "map_ok ext (xs @ w1 # ys')"
    "view (xs @ w1 # ys') = view (xs @ v # ys)" "vma_base w1 = vma_base v"
    "w1 = v \<and> ys' = ys \<and> (ys \<noteq> [] \<longrightarrow> \<not> same_attr v (hd ys)) \<or>
     (\<exists>y. ys = y # ys' \<and> w1 = joined v y \<and> same_attr v y \<and> vma_base y = vma_end v)"
    by (rule merge_next_spec [OF assms])
  obtain xs' w where p: "merge_prev (length xs) (xs @ w1 # ys') = Some (xs' @ w # ys', length xs')" "map_ok ext (xs' @ w # ys')"
    "view (xs' @ w # ys') = view (xs @ w1 # ys')" "vma_base w \<le> vma_base w1" "vma_end w = vma_end w1"
    "\<And>u. same_attr w u = same_attr w1 u" "canonical xs \<Longrightarrow> canonical (xs' @ [w])"
    by (rule merge_prev_spec [OF n(2) assms(2)]) (rule that, assumption+)
  show thesis
  proof (rule that [of xs' w ys'])
    show "MergeAdjacent (length xs) (xs @ v # ys) = Some (xs' @ w # ys', length xs')"
      using n(1) p(1) by (simp add: MergeAdjacent_def)
    from n(5) show "vma_end w = vma_end v \<and> ys' = ys \<and> (ys \<noteq> [] \<longrightarrow> \<not> same_attr w (hd ys)) \<or>
     (\<exists>y. ys = y # ys' \<and> vma_end w = vma_end y \<and> vma_base y = vma_end v \<and> same_attr v y \<and>
        (\<forall>u. same_attr w u = same_attr y u))"
      by (auto simp: p(5,6) same_attr_joined vma_end_joined)
  qed (use n(3,4) p in simp_all)
qed

section \<open>The page table\<close>

definition page_entry :: "page_table \<Rightarrow> nat \<Rightarrow> PageType \<times> nat" where
  "page_entry pt p = (attributes pt p, ref_ptr (pointers pt p))"

definition mapped_entry :: "(nat \<Rightarrow> bool) \<Rightarrow> PageType \<Rightarrow> nat \<Rightarrow> nat \<Rightarrow> PageType \<times> nat" where
  "mapped_entry cached type p q =
     (if type = Memory \<and> cached (p * CITRA_PAGE_SIZE) then (RasterizerCachedMemory, 0) else (type, q))"

lemma MapPages_spec:
  assumes "base + n \<le> PAGE_TABLE_NUM_ENTRIES" "ref_ptr mem = 0 \<or> n * CITRA_PAGE_SIZE \<le> ref_size mem"
  shows "\<exists>pt'. MapPages cached type base n mem pt = Some pt' \<and>
    (\<forall>p. page_entry pt' p = (if base \<le> p \<and> p < base + n
       then mapped_entry cached type p (if ref_ptr mem = 0 then 0 else ref_ptr mem + (p - base) * CITRA_PAGE_SIZE)
       else page_entry pt p))"
  using assms
proof (induction n arbitrary: base mem pt)
  case (Suc n)
  let ?pt = "map_page cached type base mem pt"
  have e: "page_entry ?pt p = (if p = base then mapped_entry cached type p (ref_ptr mem) else page_entry pt p)" for p
    by (simp add: map_page_def page_entry_def mapped_entry_def Let_def null_ref_def)
  obtain mem' where m: "(if ref_ptr mem \<noteq> 0 \<and> ref_size mem > CITRA_PAGE_SIZE then ref_add CITRA_PAGE_SIZE mem else Some mem) = Some mem'"
    "ref_ptr mem = 0 \<longrightarrow> ref_ptr mem' = 0"
    "ref_ptr mem \<noteq> 0 \<longrightarrow> n \<noteq> 0 \<longrightarrow> ref_ptr mem' = ref_ptr mem + CITRA_PAGE_SIZE \<and> n * CITRA_PAGE_SIZE \<le> ref_size mem'"
  proof (cases "ref_ptr mem \<noteq> 0 \<and> ref_size mem > CITRA_PAGE_SIZE")
    case True
    with Suc.prems(2) show thesis
      by (intro that [of "\<lparr>ref_ptr = ref_ptr mem + CITRA_PAGE_SIZE, ref_size = ref_size mem - CITRA_PAGE_SIZE\<rparr>"])
        (simp_all add: ref_add_def le_diff_conv2 add.commute)
  next
    case False
    with Suc.prems(2) show thesis
      by (intro that [of mem]) (auto simp: CITRA_PAGE_SIZE_def)
  qed
  show ?case
  proof (cases "n = 0")
    case True
    have "MapPages cached type base (Suc n) mem pt = Some ?pt"
      using m(1) Suc.prems(1) True by simp
    moreover have "base \<le> p \<and> p < base + Suc n \<longleftrightarrow> p = base" for p
      using True by auto
    ultimately show ?thesis
      by (simp only: e) (simp add: e)
  next
    case False
    have "Suc base + n \<le> PAGE_TABLE_NUM_ENTRIES" "ref_ptr mem' = 0 \<or> n * CITRA_PAGE_SIZE \<le> ref_size mem'"
      using Suc.prems m False by auto
    from Suc.IH [OF this, of ?pt] obtain pt' where pt': "MapPages cached type (Suc base) n mem' ?pt = Some pt'"
      "\<And>p. page_entry pt' p = (if Suc base \<le> p \<and> p < Suc base + n
       then mapped_entry cached type p (if ref_ptr mem' = 0 then 0 else ref_ptr mem' + (p - Suc base) * CITRA_PAGE_SIZE)
       else page_entry ?pt p)"
      by blast
    have z: "ref_ptr mem' = 0 \<longleftrightarrow> ref_ptr mem = 0"
      using m(2,3) False by auto
    have "page_entry pt' p = (if base \<le> p \<and> p < base + Suc n
       then mapped_entry cached type p (if ref_ptr mem = 0 then 0 else ref_ptr mem + (p - base) * CITRA_PAGE_SIZE)
       else page_entry pt p)" for p
    proof (cases "Suc base \<le> p \<and> p < Suc base + n")
      case True
      then have "(p - base) * CITRA_PAGE_SIZE = CITRA_PAGE_SIZE + (p - Suc base) * CITRA_PAGE_SIZE"
        by (metis Suc_diff_Suc Suc_le_lessD mult_Suc)
      with True m(3) False z show ?thesis
        by (auto simp: pt'(2) add.assoc)
    next
      case False
      then show ?thesis
        by (auto simp: pt'(2) e)
    qed
    with pt'(1) m(1) Suc.prems(1) show ?thesis
      by auto
  qed
qed auto

text \<open>The page table shows what the map says; a page may be withheld for the rasterizer cache.\<close>

definition entry_ok :: "page_view option \<Rightarrow> PageType \<times> nat \<Rightarrow> bool" where
  "entry_ok pv e = (case pv of
     None \<Rightarrow> True
   | Some (ty, _, _, q) \<Rightarrow> if ty = Free then e = (Unmapped, 0) else e = (Memory, q) \<or> e = (RasterizerCachedMemory, 0))"

definition table_ok :: "vma list \<Rightarrow> page_table \<Rightarrow> bool" where
  "table_ok m pt \<longleftrightarrow> (\<forall>p < MAX_ADDRESS div CITRA_PAGE_SIZE. entry_ok (view m (p * CITRA_PAGE_SIZE)) (page_entry pt p))"

lemma page_inside:
  assumes "page_aligned b" "page_aligned s"
  shows "b \<le> p * CITRA_PAGE_SIZE \<and> p * CITRA_PAGE_SIZE < b + s \<longleftrightarrow>
    b div CITRA_PAGE_SIZE \<le> p \<and> p < b div CITRA_PAGE_SIZE + s div CITRA_PAGE_SIZE"
  using assms by (auto simp: page_aligned_def CITRA_PAGE_SIZE_def elim!: dvdE simp flip: dvd_eq_mod_eq_0)

lemma map_region_spec:
  assumes "page_aligned b" "page_aligned s" "b + s \<le> MAX_ADDRESS" "ref_ptr mem = 0 \<or> s \<le> ref_size mem"
  shows "\<exists>pt'. map_region cached type b s mem pt = Some pt' \<and>
    (\<forall>p. page_entry pt' p = (if b \<le> p * CITRA_PAGE_SIZE \<and> p * CITRA_PAGE_SIZE < b + s
       then mapped_entry cached type p (if ref_ptr mem = 0 then 0 else ref_ptr mem + (p * CITRA_PAGE_SIZE - b))
       else page_entry pt p))"
proof -
  let ?C = CITRA_PAGE_SIZE
  have d: "b = b div ?C * ?C" "s = s div ?C * ?C"
    using assms(1,2) by (auto simp: page_aligned_def CITRA_PAGE_SIZE_def)
  have "b div ?C + s div ?C \<le> PAGE_TABLE_NUM_ENTRIES"
    using assms(3) by (simp add: MAX_ADDRESS_def CITRA_PAGE_SIZE_def PAGE_TABLE_NUM_ENTRIES_def)
  moreover have "ref_ptr mem = 0 \<or> s div ?C * ?C \<le> ref_size mem"
    using assms(4) d(2) by simp
  ultimately obtain pt' where pt': "MapPages cached type (b div ?C) (s div ?C) mem pt = Some pt'"
    "\<And>p. page_entry pt' p = (if b div ?C \<le> p \<and> p < b div ?C + s div ?C
       then mapped_entry cached type p (if ref_ptr mem = 0 then 0 else ref_ptr mem + (p - b div ?C) * ?C)
       else page_entry pt p)"
    using MapPages_spec [of "b div ?C" "s div ?C" mem cached type pt] by blast
  have "(p - b div ?C) * ?C = p * ?C - b" for p
    using d(1) by (simp add: diff_mult_distrib)
  with pt' assms(1,2) show ?thesis
    by (auto simp: map_region_def page_inside [OF assms(1,2)])
qed

lemma UpdatePageTableForVMA_spec:
  assumes "vma_ok ext v" "vma_end v \<le> MAX_ADDRESS"
  obtains pt' where "UpdatePageTableForVMA cached v vm = Some (vm\<lparr>page_tbl := pt'\<rparr>)"
    "\<And>p. inside v (p * CITRA_PAGE_SIZE) \<Longrightarrow> entry_ok (Some (attr v (p * CITRA_PAGE_SIZE))) (page_entry pt' p)"
    "\<And>p. \<not> inside v (p * CITRA_PAGE_SIZE) \<Longrightarrow> page_entry pt' p = page_entry (page_tbl vm) p"
proof -
  let ?mem = "if vma_type v = Free then null_ref else vma_backing v"
  let ?ty = "if vma_type v = Free then Unmapped else Memory"
  have al: "page_aligned (vma_base v)" "page_aligned (vma_size v)" "vma_base v + vma_size v \<le> MAX_ADDRESS"
    "ref_ptr ?mem = 0 \<or> vma_size v \<le> ref_size ?mem" "vma_type v \<noteq> Free \<Longrightarrow> ref_ptr ?mem \<noteq> 0"
    using assms by (auto simp: vma_ok_def vma_end_def null_ref_def ref_ok_def intro: VMAType.exhaust [of "vma_type v"])
  obtain pt' where pt': "map_region cached ?ty (vma_base v) (vma_size v) ?mem (page_tbl vm) = Some pt'"
    "\<And>p. page_entry pt' p = (if vma_base v \<le> p * CITRA_PAGE_SIZE \<and> p * CITRA_PAGE_SIZE < vma_base v + vma_size v
       then mapped_entry cached ?ty p (if ref_ptr ?mem = 0 then 0 else ref_ptr ?mem + (p * CITRA_PAGE_SIZE - vma_base v))
       else page_entry (page_tbl vm) p)"
    using map_region_spec [OF al(1-4), of cached ?ty "page_tbl vm"] by blast
  show thesis
  proof (rule that)
    show "UpdatePageTableForVMA cached v vm = Some (vm\<lparr>page_tbl := pt'\<rparr>)"
      using pt'(1) by (cases "vma_type v") (simp_all add: UpdatePageTableForVMA_def UnmapRegion_def MapMemoryRegion_def)
    show "entry_ok (Some (attr v (p * CITRA_PAGE_SIZE))) (page_entry pt' p)" if "inside v (p * CITRA_PAGE_SIZE)" for p
      using that al(5) by (cases "vma_type v") (auto simp: pt'(2) inside_def vma_end_def entry_ok_def attr_def mapped_entry_def null_ref_def)
    show "page_entry pt' p = page_entry (page_tbl vm) p" if "\<not> inside v (p * CITRA_PAGE_SIZE)" for p
      using that by (auto simp: pt'(2) inside_def vma_end_def)
  qed
qed

section \<open>Changing one area\<close>

lemma modify_vma_spec:
  assumes ok: "map_ok ext (xs @ v # ys)" "host_ok ext" "table_ok (xs @ v # ys) (page_tbl vm)" "vma_map vm = xs @ v # ys"
    and f: "vma_base (f v) = vma_base v" "vma_size (f v) = vma_size v" "vma_ok ext (f v)"
  obtains xs' w ys' pt where
    "modify_vma cached f (length xs) vm = Some (vm\<lparr>page_tbl := pt, vma_map := xs' @ w # ys'\<rparr>, length xs')"
    "map_ok ext (xs' @ w # ys')" "table_ok (xs' @ w # ys') pt"
    "\<And>a. view (xs' @ w # ys') a = (if inside v a then Some (attr (f v) a) else view (xs @ v # ys) a)"
    "vma_base w \<le> vma_base v" "canonical xs \<Longrightarrow> canonical (xs' @ [w])"
    "vma_end w = vma_end v \<and> ys' = ys \<and> (ys \<noteq> [] \<longrightarrow> \<not> same_attr w (hd ys)) \<or>
     (\<exists>y. ys = y # ys' \<and> vma_end w = vma_end y \<and> vma_base y = vma_end v \<and> same_attr (f v) y \<and>
        (\<forall>u. same_attr w u = same_attr y u))"
proof -
  let ?m = "xs @ f v # ys"
  have m: "map_ok ext ?m"
    using ok(1) f by (auto simp: map_ok_def covers_append)
  have i: "inside (f v) a \<longleftrightarrow> inside v a" "vma_end (f v) = vma_end v" for a
    using f by (simp_all add: inside_def vma_end_def)
  have e: "vma_end (f v) \<le> MAX_ADDRESS"
    using covers_bounds [of 0 ?m MAX_ADDRESS "f v"] m by (simp add: map_ok_def)
  obtain pt where pt: "UpdatePageTableForVMA cached (f v) (vm\<lparr>vma_map := ?m\<rparr>) = Some (vm\<lparr>vma_map := ?m, page_tbl := pt\<rparr>)"
    "\<And>p. inside (f v) (p * CITRA_PAGE_SIZE) \<Longrightarrow> entry_ok (Some (attr (f v) (p * CITRA_PAGE_SIZE))) (page_entry pt p)"
    "\<And>p. \<not> inside (f v) (p * CITRA_PAGE_SIZE) \<Longrightarrow> page_entry pt p = page_entry (page_tbl vm) p"
    by (rule UpdatePageTableForVMA_spec [OF f(3) e, of cached "vm\<lparr>vma_map := ?m\<rparr>"]) simp
  have view: "view ?m a = (if inside v a then Some (attr (f v) a) else view (xs @ v # ys) a)" for a
    using view_at [of 0 xs "f v" ys MAX_ADDRESS a] view_not_at [of v a "f v" xs ys] m i by (auto simp: map_ok_def)
  have t: "table_ok ?m pt"
    using ok(3) pt(2,3) i by (auto simp: table_ok_def view)
  obtain xs' w ys' where w: "MergeAdjacent (length xs) ?m = Some (xs' @ w # ys', length xs')"
    "map_ok ext (xs' @ w # ys')" "view (xs' @ w # ys') = view ?m"
    "vma_base w \<le> vma_base (f v)" "canonical xs \<Longrightarrow> canonical (xs' @ [w])"
    "vma_end w = vma_end (f v) \<and> ys' = ys \<and> (ys \<noteq> [] \<longrightarrow> \<not> same_attr w (hd ys)) \<or>
     (\<exists>y. ys = y # ys' \<and> vma_end w = vma_end y \<and> vma_base y = vma_end (f v) \<and> same_attr (f v) y \<and>
        (\<forall>u. same_attr w u = same_attr y u))"
    by (rule MergeAdjacent_spec [OF m ok(2)]) (rule that, assumption+)
  show thesis
  proof (rule that [of xs' w ys' pt])
    show "modify_vma cached f (length xs) vm = Some (vm\<lparr>page_tbl := pt, vma_map := xs' @ w # ys'\<rparr>, length xs')"
      using ok(4) pt(1) w(1) by (simp add: modify_vma_def Let_def)
    show "table_ok (xs' @ w # ys') pt"
      using t by (simp add: table_ok_def w(3))
  qed (use w view f(1) i(2) in simp_all)
qed

section \<open>The loop over the areas of a range\<close>

text \<open>What the change \<open>f\<close> of an area means for the view: the function \<open>h\<close>.\<close>

definition area_change :: "(nat \<Rightarrow> nat) \<Rightarrow> (vma \<Rightarrow> vma) \<Rightarrow> (page_view \<Rightarrow> page_view) \<Rightarrow> vma list \<Rightarrow> bool" where
  "area_change ext f h vs \<longleftrightarrow>
     (\<forall>v \<in> set vs. vma_base (f v) = vma_base v \<and> vma_size (f v) = vma_size v \<and> vma_ok ext (f v) \<and>
        (\<forall>a. attr (f v) a = h (attr v a))) \<and>
     (\<forall>v \<in> set vs. \<forall>y \<in> set vs. same_attr (f v) y \<longrightarrow> (\<forall>a. h (attr y a) = attr y a))"

lemma area_changeD:
  assumes "area_change ext f h vs" "v \<in> set vs"
  shows "vma_base (f v) = vma_base v" "vma_size (f v) = vma_size v" "vma_ok ext (f v)" "attr (f v) a = h (attr v a)"
  using assms by (auto simp: area_change_def)

lemma area_change_fix:
  "area_change ext f h vs \<Longrightarrow> v \<in> set vs \<Longrightarrow> y \<in> set vs \<Longrightarrow> same_attr (f v) y \<Longrightarrow> h (attr y a) = attr y a"
  unfolding area_change_def by blast

lemma area_change_subset: "area_change ext f h vs \<Longrightarrow> set ws \<subseteq> set vs \<Longrightarrow> area_change ext f h ws"
  unfolding area_change_def by blast

lemma inside_disjoint:
  assumes "covers b (xs @ v # ys) c" "u \<in> set ys" "inside u a"
  shows "\<not> inside v a"
proof -
  from assms(1) obtain d where "covers d (v # ys) c" by (auto simp: covers_append)
  then have "covers (vma_end v) ys c" by (simp add: vma_end_def)
  from covers_bounds [OF this assms(2)] assms(3) show ?thesis
    by (simp add: inside_def)
qed

lemma view_member:
  assumes "covers b m c" "u \<in> set m" "inside u a"
  shows "view m a = Some (attr u a)"
proof -
  from assms(2) obtain xs ys where "m = xs @ u # ys"
    by (auto dest: split_list)
  with assms view_at [of b xs u ys c a] show ?thesis
    by simp
qed

text \<open>One step: what is left of the areas to visit, and the view that holds then.\<close>

lemma for_range_step:
  assumes ok: "map_ok ext (xs @ (v # vs) @ tail)" "host_ok ext" "table_ok (xs @ (v # vs) @ tail) (page_tbl vm)"
      "vma_map vm = xs @ (v # vs) @ tail"
    and f: "area_change ext f h (v # vs)"
  obtains xs' vs' tail' pt where
    "modify_vma cached f (length xs) vm = Some (vm\<lparr>page_tbl := pt, vma_map := xs' @ vs' @ tail'\<rparr>, length xs' - 1)"
    "xs' \<noteq> []" "map_ok ext (xs' @ vs' @ tail')" "table_ok (xs' @ vs' @ tail') pt"
    "\<And>a. view (xs' @ vs' @ tail') a = (if inside v a then map_option h (view (xs @ (v # vs) @ tail) a)
        else view (xs @ (v # vs) @ tail) a)"
    "set vs' \<subseteq> set vs" "length vs' \<le> length vs" "set tail' \<subseteq> set tail" "canonical tail \<Longrightarrow> canonical tail'"
    "\<And>y a. y \<in> set vs \<Longrightarrow> y \<notin> set vs' \<Longrightarrow> h (attr y a) = attr y a"
    "canonical xs \<Longrightarrow> canonical xs'"
    "canonical xs \<Longrightarrow> canonical tail \<Longrightarrow> vs = [] \<Longrightarrow> canonical (xs' @ vs' @ tail')"
    "canonical xs \<Longrightarrow> canonical tail \<Longrightarrow> \<forall>y \<in> set vs. same_attr (f v) y \<longrightarrow> vma_type y \<noteq> Free \<Longrightarrow> vs \<noteq> [] \<Longrightarrow> vs' = [] \<Longrightarrow>
      canonical (xs' @ tail')"
proof -
  note fv = area_changeD [OF f, of v, simplified]
  have m: "map_ok ext (xs @ v # vs @ tail)" "table_ok (xs @ v # vs @ tail) (page_tbl vm)" "vma_map vm = xs @ v # vs @ tail"
    using ok by simp_all
  obtain xs' w ys' pt where s:
    "modify_vma cached f (length xs) vm = Some (vm\<lparr>page_tbl := pt, vma_map := xs' @ w # ys'\<rparr>, length xs')"
    "map_ok ext (xs' @ w # ys')" "table_ok (xs' @ w # ys') pt"
    "\<And>a. view (xs' @ w # ys') a = (if inside v a then Some (attr (f v) a) else view (xs @ v # vs @ tail) a)"
    "vma_base w \<le> vma_base v" "canonical xs \<Longrightarrow> canonical (xs' @ [w])"
    "vma_end w = vma_end v \<and> ys' = vs @ tail \<and> (vs @ tail \<noteq> [] \<longrightarrow> \<not> same_attr w (hd (vs @ tail))) \<or>
     (\<exists>y. vs @ tail = y # ys' \<and> vma_end w = vma_end y \<and> vma_base y = vma_end v \<and> same_attr (f v) y \<and>
        (\<forall>u. same_attr w u = same_attr y u))"
    by (rule modify_vma_spec [where f = f and xs = xs and v = v and ys = "vs @ tail", OF m(1) ok(2) m(2,3) fv(1-3)])
      (rule that, assumption+)
  have view: "view (xs' @ w # ys') a = (if inside v a then map_option h (view (xs @ (v # vs) @ tail) a)
        else view (xs @ (v # vs) @ tail) a)" for a
    using s(4) [of a] fv(4) view_member [of 0 "xs @ v # vs @ tail" MAX_ADDRESS v a] m(1) by (auto simp: map_ok_def)
  consider (none) "ys' = vs @ tail" "vs @ tail \<noteq> [] \<longrightarrow> \<not> same_attr w (hd (vs @ tail))"
    | (mid) y vs' where "vs = y # vs'" "ys' = vs' @ tail" "same_attr (f v) y" "\<And>u. same_attr w u = same_attr y u"
    | (last) y tail' where "vs = []" "tail = y # tail'" "ys' = tail'" "\<And>u. same_attr w u = same_attr y u"
    using s(7) by (cases vs) auto
  then show thesis
  proof cases
    case none
    show thesis
      by (rule that [of "xs' @ [w]" vs tail pt])
        (use s(1-3,6) view none in \<open>auto simp: successively_append_iff successively_Cons\<close>)
  next
    case (mid y vs')
    show thesis
      by (rule that [of "xs' @ [w]" vs' tail pt])
        (use s(1-3,6) view mid area_change_fix [OF f, of v y] same_attr_type [of y] same_attr_type [of w] in
          \<open>auto simp: successively_append_iff successively_Cons\<close>)
  next
    case (last y tail')
    show thesis
      by (rule that [of "xs' @ [w]" "[]" tail' pt])
        (use s(1-3,6) view last same_attr_type [of y] same_attr_type [of w] in \<open>auto simp: successively_append_iff successively_Cons\<close>)
  qed
qed

text \<open>The whole loop: it returns, and the areas of the range have changed by \<open>h\<close>, the others not at all.\<close>

lemma for_range_spec:
  assumes "vma_map vm = xs @ vs @ tail" "map_ok ext (xs @ vs @ tail)" "host_ok ext"
      "table_ok (xs @ vs @ tail) (page_tbl vm)" "\<not> vm_locked vm"
    and "area_change ext f h vs"
    and "\<forall>v \<in> set vs. vma_base v < e" "\<forall>v \<in> set tail. e \<le> vma_base v"
    and g: "\<And>i vm. \<not> vm_locked vm \<Longrightarrow> g i vm = modify_vma cached f i vm"
  shows "\<exists>vm'. for_range g e (length xs) vm = Some vm' \<and> map_ok ext (vma_map vm') \<and>
    table_ok (vma_map vm') (page_tbl vm') \<and> \<not> vm_locked vm' \<and>
    (\<forall>a. view (vma_map vm') a = (if \<exists>v \<in> set vs. inside v a then map_option h (view (vma_map vm) a)
       else view (vma_map vm) a)) \<and>
    (canonical xs \<longrightarrow> canonical tail \<longrightarrow> (vs = [] \<longrightarrow> canonical (xs @ tail)) \<longrightarrow>
      (\<forall>v \<in> set vs. \<forall>y \<in> set vs. same_attr (f v) y \<longrightarrow> vma_type y \<noteq> Free) \<longrightarrow> canonical (vma_map vm'))"
  using assms(1-8)
proof (induction "length vs" arbitrary: xs vs tail vm rule: less_induct)
  case less
  show ?case
  proof (cases vs)
    case Nil
    have "for_range g e (length xs) vm = Some vm"
    proof (cases tail)
      case Nil' : Nil
      with Nil less.prems(1) show ?thesis by (subst for_range.simps) simp
    next
      case (Cons t ts)
      with Nil less.prems(1,8) show ?thesis by (subst for_range.simps) simp
    qed
    with Nil less.prems show ?thesis by simp
  next
    case (Cons v ws)
    note p = less.prems [unfolded Cons]
    obtain xs' vs' tail' pt where s:
      "modify_vma cached f (length xs) vm = Some (vm\<lparr>page_tbl := pt, vma_map := xs' @ vs' @ tail'\<rparr>, length xs' - 1)"
      "xs' \<noteq> []" "map_ok ext (xs' @ vs' @ tail')" "table_ok (xs' @ vs' @ tail') pt"
      "\<And>a. view (xs' @ vs' @ tail') a = (if inside v a then map_option h (view (xs @ (v # ws) @ tail) a)
          else view (xs @ (v # ws) @ tail) a)"
      "set vs' \<subseteq> set ws" "length vs' \<le> length ws" "set tail' \<subseteq> set tail" "canonical tail \<Longrightarrow> canonical tail'"
      "\<And>y a. y \<in> set ws \<Longrightarrow> y \<notin> set vs' \<Longrightarrow> h (attr y a) = attr y a"
      "canonical xs \<Longrightarrow> canonical xs'"
      "canonical xs \<Longrightarrow> canonical tail \<Longrightarrow> ws = [] \<Longrightarrow> canonical (xs' @ vs' @ tail')"
      "canonical xs \<Longrightarrow> canonical tail \<Longrightarrow> \<forall>y \<in> set ws. same_attr (f v) y \<longrightarrow> vma_type y \<noteq> Free \<Longrightarrow> ws \<noteq> [] \<Longrightarrow> vs' = [] \<Longrightarrow>
        canonical (xs' @ tail')"
      by (rule for_range_step [where xs = xs and v = v and vs = ws and tail = tail,
            OF p(2,3,4,1,6)]) (rule that, assumption+)
    let ?vm = "vm\<lparr>page_tbl := pt, vma_map := xs' @ vs' @ tail'\<rparr>"
    have run: "for_range g e (length xs) vm = for_range g e (length xs') ?vm"
      using p(1,5,7) s(1,2) by (subst for_range.simps) (simp add: g)
    have "\<exists>vm'. for_range g e (length xs') ?vm = Some vm' \<and> map_ok ext (vma_map vm') \<and>
      table_ok (vma_map vm') (page_tbl vm') \<and> \<not> vm_locked vm' \<and>
      (\<forall>a. view (vma_map vm') a = (if \<exists>v \<in> set vs'. inside v a then map_option h (view (vma_map ?vm) a)
         else view (vma_map ?vm) a)) \<and>
      (canonical xs' \<longrightarrow> canonical tail' \<longrightarrow> (vs' = [] \<longrightarrow> canonical (xs' @ tail')) \<longrightarrow>
        (\<forall>v \<in> set vs'. \<forall>y \<in> set vs'. same_attr (f v) y \<longrightarrow> vma_type y \<noteq> Free) \<longrightarrow> canonical (vma_map vm'))"
      by (rule less.hyps)
        (use Cons s(3,4,6-8) p(3,5,7,8) area_change_subset [OF p(6), of vs'] in auto)
    then obtain vm' where vm': "for_range g e (length xs') ?vm = Some vm'" "map_ok ext (vma_map vm')"
      "table_ok (vma_map vm') (page_tbl vm')" "\<not> vm_locked vm'"
      "\<And>a. view (vma_map vm') a = (if \<exists>v \<in> set vs'. inside v a then map_option h (view (xs' @ vs' @ tail') a)
         else view (xs' @ vs' @ tail') a)"
      "canonical xs' \<Longrightarrow> canonical tail' \<Longrightarrow> (vs' = [] \<longrightarrow> canonical (xs' @ tail')) \<Longrightarrow>
        (\<forall>v \<in> set vs'. \<forall>y \<in> set vs'. same_attr (f v) y \<longrightarrow> vma_type y \<noteq> Free) \<Longrightarrow> canonical (vma_map vm')"
      by - (elim exE conjE, rule that, simp_all)
    have c: "covers 0 (xs @ v # ws @ tail) MAX_ADDRESS"
      using p(2) by (simp add: map_ok_def)
    have mem: "view (xs @ (v # ws) @ tail) a = Some (attr u a)" if "u \<in> set ws" "inside u a" for u a
      using view_member [OF c] that by simp
    have "view (vma_map vm') a = (if \<exists>u \<in> set (v # ws). inside u a then map_option h (view (xs @ (v # ws) @ tail) a)
       else view (xs @ (v # ws) @ tail) a)" for a
    proof (cases "inside v a")
      case True
      then have "\<not> (\<exists>u \<in> set vs'. inside u a)"
        using inside_disjoint [OF c] s(6) by auto
      with True show ?thesis by (simp add: vm'(5) s(5))
    next
      case False
      then show ?thesis
        using s(6,10) mem by (auto simp: vm'(5) s(5))
    qed
    moreover have "canonical (vma_map vm')"
      if "canonical xs" "canonical tail" "\<forall>v \<in> set vs. \<forall>y \<in> set vs. same_attr (f v) y \<longrightarrow> vma_type y \<noteq> Free"
    proof (rule vm'(6))
      show "vs' = [] \<longrightarrow> canonical (xs' @ tail')"
        using s(12,13) that Cons by (cases "ws = []") auto
    qed (use s(6,9,11) that Cons in auto)
    ultimately show ?thesis
      using vm'(1-4) Cons p(1) by (simp add: run)
  qed
qed

end
