(* ===== verification/VM_Carve.thy ===== *)
theory VM_Carve
  imports VM_Ops
begin

text \<open>
  Cutting the map at an address, and the two carving operations built on it: they change the areas
  but not the view, and hand back the areas that make up the range exactly.
\<close>

section \<open>Cutting at one address\<close>

lemma same_attr_halves:
  "same_attr u (left_of n v) \<longleftrightarrow> same_attr u v"
  "n < vma_size v \<Longrightarrow> same_attr (right_of n v) u \<longleftrightarrow> same_attr v u"
  by (auto simp: same_attr_def left_of_def right_of_def)

lemma halves_fields [simp]:
  "vma_base (left_of n v) = vma_base v" "vma_size (left_of n v) = n" "vma_type (left_of n v) = vma_type v"
  "vma_base (right_of n v) = vma_base v + n" "vma_size (right_of n v) = vma_size v - n" "vma_type (right_of n v) = vma_type v"
  by (simp_all add: left_of_def right_of_def)

lemma canonical_halves:
  assumes "canonical (xs @ v # ys)" "n < vma_size v"
  shows "canonical (xs @ [left_of n v])" "canonical (right_of n v # ys)"
  using assms by (auto simp: successively_append_iff successively_Cons same_attr_halves)

lemma map_ok_split:
  assumes "map_ok ext (xs @ v # ys)" "host_ok ext" "0 < n" "n < vma_size v" "page_aligned n"
  shows "map_ok ext (xs @ left_of n v # right_of n v # ys)"
    "view (xs @ left_of n v # right_of n v # ys) = view (xs @ v # ys)"
    "SplitVMA (length xs) n (xs @ v # ys) = Some (xs @ left_of n v # right_of n v # ys, Suc (length xs))"
proof -
  have v: "vma_ok ext v" "covers 0 (xs @ v # ys) MAX_ADDRESS"
    using assms(1) by (simp_all add: map_ok_def)
  show "map_ok ext (xs @ left_of n v # right_of n v # ys)"
    using assms(1) covers_halves [OF assms(3,4)] halves_ok [OF v(1) assms(2,4,5)] by (simp add: map_ok_def)
  show "view (xs @ left_of n v # right_of n v # ys) = view (xs @ v # ys)"
    using view_cong [OF view_halves [OF assms(4)], of xs ys] by simp
  show "SplitVMA (length xs) n (xs @ v # ys) = Some (xs @ left_of n v # right_of n v # ys, Suc (length xs))"
    by (rule SplitVMA_spec [OF v(2,1) assms(3,4)])
qed

lemma FindVMA_behind:
  assumes "map_ok ext (ps @ qs)" "covers 0 ps t" "t \<le> a" "a < MAX_ADDRESS"
  obtains us v rest where "qs = us @ v # rest" "FindVMA a (ps @ qs) = Some (length (ps @ us))" "inside v a"
proof -
  have c: "covers 0 (ps @ qs) MAX_ADDRESS"
    using assms(1) by (simp add: map_ok_def)
  obtain xs v rest where m: "ps @ qs = xs @ v # rest" "FindVMA a (ps @ qs) = Some (length xs)" "inside v a"
    by (rule FindVMA_covers [OF c assms(4)])
  have "v \<notin> set ps"
    using covers_bounds [OF assms(2), of v] m(3) assms(3) by (auto simp: inside_def)
  with m(1) obtain us where "xs = ps @ us" "qs = us @ v # rest"
    by (auto simp: append_eq_append_conv2 append_eq_Cons_conv Cons_eq_append_conv)
  with m show thesis
    by (intro that [of us v rest]) simp_all
qed

lemma cut_spec:
  assumes "map_ok ext (ps @ qs)" "host_ok ext" "covers 0 ps t" "t \<le> a" "a < MAX_ADDRESS" "page_aligned a"
  obtains i vs ys where "FindVMA a (ps @ qs) = Some i" "i < length (ps @ qs)"
    "(if a \<noteq> vma_base ((ps @ qs) ! i) then SplitVMA i (a - vma_base ((ps @ qs) ! i)) (ps @ qs)
      else Some (ps @ qs, i)) = Some (ps @ vs @ ys, length (ps @ vs))"
    "map_ok ext (ps @ vs @ ys)" "view (ps @ vs @ ys) = view (ps @ qs)" "covers t vs a" "covers a ys MAX_ADDRESS"
    "canonical qs \<Longrightarrow> canonical vs" "canonical qs \<Longrightarrow> canonical ys"
proof -
  obtain us v rest where q: "qs = us @ v # rest" "FindVMA a (ps @ qs) = Some (length (ps @ us))" "inside v a"
    by (rule FindVMA_behind [OF assms(1,3-5)])
  have m: "map_ok ext ((ps @ us) @ v # rest)"
    using assms(1) q(1) by simp
  have nth: "(ps @ qs) ! length (ps @ us) = v"
    by (simp add: q(1) nth_append)
  have cov: "covers t us (vma_base v)" "covers (vma_end v) rest MAX_ADDRESS"
    using m assms(3) by (auto simp: map_ok_def covers_append vma_end_def) (metis assms(3) covers_unique)+
  show thesis
  proof (cases "a = vma_base v")
    case True
    then show thesis
      using q m nth cov by (intro that [of "length (ps @ us)" us "v # rest"])
        (auto simp: successively_append_iff vma_end_def map_ok_def covers_append)
  next
    case False
    let ?n = "a - vma_base v"
    have n: "0 < ?n" "?n < vma_size v" "page_aligned ?n" "vma_base v + ?n = a"
      using False q(3) assms(6) m by (auto simp: inside_def vma_end_def map_ok_def vma_ok_def intro: page_aligned_diff)
    note s = map_ok_split [OF m assms(2) n(1-3)]
    show thesis
    proof (rule that [of "length (ps @ us)" "us @ [left_of ?n v]" "right_of ?n v # rest"])
      show "covers t (us @ [left_of ?n v]) a" "covers a (right_of ?n v # rest) MAX_ADDRESS"
        using cov n by (auto simp: covers_append left_of_def right_of_def vma_end_def add.commute)
      show "canonical (us @ [left_of ?n v])" "canonical (right_of ?n v # rest)" if "canonical qs"
        using that q(1) n(2) by (auto simp: successively_append_iff successively_Cons same_attr_halves)
    qed (use q(1,2) s nth False in simp_all)
  qed
qed

section \<open>Carving a range of one area\<close>

definition type_at :: "vma list \<Rightarrow> nat \<Rightarrow> VMAType option" where
  "type_at m a = map_option fst (view m a)"

lemma type_at_member:
  "covers b m c \<Longrightarrow> v \<in> set m \<Longrightarrow> inside v a \<Longrightarrow> type_at m a = Some (vma_type v)"
  by (simp add: type_at_def view_member attr_def)

definition holds :: "nat \<Rightarrow> nat \<Rightarrow> vma \<Rightarrow> bool" where
  "holds target len v \<longleftrightarrow> vma_type v = Free \<and> vma_base v \<le> target \<and> target + len \<le> vma_end v"

lemma CarveVMA_spec:
  assumes "map_ok ext m" "host_ok ext" "page_aligned base" "page_aligned len" "0 < len" "base + len < 2 ^ 32"
  shows "\<exists>v \<in> set m. holds base len v \<Longrightarrow>
      \<exists>xs v ys. CarveVMA base len m = Some (xs @ v # ys, Inr (length xs)) \<and> map_ok ext (xs @ v # ys) \<and>
        view (xs @ v # ys) = view m \<and> vma_base v = base \<and> vma_size v = len \<and> vma_type v = Free \<and>
        (canonical m \<longrightarrow> canonical xs \<and> canonical ys)"
    and "\<not> (\<exists>v \<in> set m. holds base len v) \<Longrightarrow>
      CarveVMA base len m = Some (m, Inl (if MAX_ADDRESS \<le> base then ResultInvalidAddress else ResultInvalidAddressState))"
proof -
  have c: "covers 0 m MAX_ADDRESS"
    using assms(1) by (simp add: map_ok_def)
  note start = CarveVMA_def assms(3,4) assertion_def
  show "CarveVMA base len m = Some (m, Inl (if MAX_ADDRESS \<le> base then ResultInvalidAddress else ResultInvalidAddressState))"
    if no: "\<not> (\<exists>v \<in> set m. holds base len v)"
  proof (cases "MAX_ADDRESS \<le> base")
    case True
    then show ?thesis by (simp add: start FindVMA_end)
  next
    case False
    then obtain xs v ys where f: "m = xs @ v # ys" "FindVMA base m = Some (length xs)" "inside v base"
      using FindVMA_covers [OF c, of base thesis] by auto
    with no have "vma_type v \<noteq> Free \<or> vma_end v < base + len"
      by (auto simp: holds_def inside_def)
    moreover have "add32 (base - vma_base v) len = base - vma_base v + len"
      using assms(6) by (intro add32_small) simp
    ultimately show ?thesis
      using f False by (auto simp: start inside_def vma_end_def nth_append Let_def)
  qed
  show "\<exists>xs v ys. CarveVMA base len m = Some (xs @ v # ys, Inr (length xs)) \<and> map_ok ext (xs @ v # ys) \<and>
        view (xs @ v # ys) = view m \<and> vma_base v = base \<and> vma_size v = len \<and> vma_type v = Free \<and>
        (canonical m \<longrightarrow> canonical xs \<and> canonical ys)" if yes: "\<exists>v \<in> set m. holds base len v"
  proof -
    from yes obtain u where u: "u \<in> set m" "holds base len u" by blast
    then have ub: "inside u base" "base < MAX_ADDRESS"
      using assms(5) covers_bounds [OF c u(1)] by (auto simp: holds_def inside_def)
    obtain xs v ys where f: "m = xs @ v # ys" "FindVMA base m = Some (length xs)" "inside v base"
      by (rule FindVMA_covers [OF c ub(2)])
    have "u = v"
    proof (rule ccontr)
      assume "u \<noteq> v"
      with u(1) f(1) have "u \<in> set xs \<or> u \<in> set ys" by auto
      then show False
      proof
        assume "u \<in> set xs"
        then obtain as bs where "xs = as @ u # bs" by (auto dest: split_list)
        with c f inside_disjoint [of 0 as u "bs @ v # ys" MAX_ADDRESS v base] ub(1) show False by simp
      next
        assume "u \<in> set ys"
        with c f inside_disjoint [of 0 xs v ys MAX_ADDRESS u base] ub(1) show False by simp
      qed
    qed
    with u have v: "vma_type v = Free" "vma_base v \<le> base" "base + len \<le> vma_end v" "vma_ok ext v"
      using assms(1) f(1) by (auto simp: holds_def map_ok_def)
    define s where "s = base - vma_base v"
    define e where "e = s + len"
    have ae: "add32 s len = e"
      using assms(6) by (simp add: add32_small s_def e_def)
    have se: "s < e" "e \<le> vma_size v" "page_aligned s" "page_aligned e" "vma_base v + s = base"
      using v assms(3-5) by (auto simp: s_def e_def vma_end_def vma_ok_def intro: page_aligned_diff
          intro!: page_aligned_add [THEN iffD2])
    have m: "map_ok ext (xs @ v # ys)"
      using assms(1) f(1) by simp
    \<comment> \<open>the split at the end\<close>
    obtain w zs where w: "(if e \<noteq> vma_size v then map_option fst (SplitVMA (length xs) e (xs @ v # ys)) else Some (xs @ v # ys))
        = Some (xs @ w # zs)" "map_ok ext (xs @ w # zs)" "view (xs @ w # zs) = view m" "vma_base w = vma_base v"
        "vma_size w = e" "vma_type w = Free" "canonical m \<Longrightarrow> canonical (xs @ [w])" "canonical m \<Longrightarrow> canonical zs"
    proof (cases "e = vma_size v")
      case True
      then show thesis
        using f(1) m v(1) by (intro that [of v ys]) (auto simp: successively_append_iff successively_Cons)
    next
      case False
      note sp = map_ok_split [OF m assms(2), of e]
      show thesis
      proof (rule that [of "left_of e v" "right_of e v # ys"])
        show "canonical (xs @ [left_of e v])" "canonical (right_of e v # ys)" if "canonical m"
          using canonical_halves [of xs v ys e] that f(1) False se(2) by simp_all
      qed (use False se v(1) f(1) sp in simp_all)
    qed
    \<comment> \<open>the split at the start\<close>
    have "CarveVMA base len m = Option.bind
        (if e \<noteq> vma_size v then map_option fst (SplitVMA (length xs) e (xs @ v # ys)) else Some (xs @ v # ys))
        (\<lambda>m. Option.bind (if s \<noteq> 0 then SplitVMA (length xs) s m else Some (m, length xs)) (\<lambda>(m, i). Some (m, Inr i)))"
      using f v ae se by (simp add: start nth_append Let_def flip: s_def)
    then have go: "CarveVMA base len m = Option.bind
        (if s \<noteq> 0 then SplitVMA (length xs) s (xs @ w # zs) else Some (xs @ w # zs, length xs)) (\<lambda>(m, i). Some (m, Inr i))"
      unfolding w(1) by simp
    show ?thesis
    proof (cases "s = 0")
      case True
      with go w se show ?thesis
        by (intro exI [of _ xs] exI [of _ w] exI [of _ zs]) (auto simp: e_def successively_append_iff)
    next
      case False
      note sp = map_ok_split [OF w(2) assms(2), of s]
      have "canonical (xs @ [left_of s w])" if "canonical m"
        using w(7) [OF that] by (auto simp: successively_append_iff same_attr_halves)
      with False go w se sp show ?thesis
        by (intro exI [of _ "xs @ [left_of s w]"] exI [of _ "right_of s w"] exI [of _ zs]) (simp add: e_def)
    qed
  qed
qed

section \<open>Carving a range of several areas\<close>

lemma takeWhile_below:
  assumes "covers b m c"
  shows "set (takeWhile (\<lambda>v. vma_base v < e) m) = {v \<in> set m. vma_base v < e}"
  using assms
proof (induction m arbitrary: b)
  case (Cons v m)
  have "\<forall>w \<in> set m. vma_base v \<le> vma_base w"
    using Cons.prems covers_bounds [of "b + vma_size v" m c] by fastforce
  with Cons.IH [of "b + vma_size v"] Cons.prems show ?case
    by (auto dest: order_le_less_trans)
qed simp

text \<open>The areas the loops look at first are those that meet the range.\<close>

lemma visited_areas:
  assumes "covers 0 m MAX_ADDRESS" "t < e" "t < MAX_ADDRESS"
  obtains i where "FindVMA t m = Some i" "i < length m" "i \<le> lower_bound e m"
    "set (take (lower_bound e m - i) (drop i m)) = {v \<in> set m. vma_base v < e \<and> t < vma_end v}"
proof -
  obtain xs v ys where f: "m = xs @ v # ys" "FindVMA t m = Some (length xs)" "inside v t"
    by (rule FindVMA_covers [OF assms(1,3)])
  have b: "covers 0 xs (vma_base v)" "covers (vma_end v) ys MAX_ADDRESS"
    using assms(1) f(1) by (auto simp: covers_append vma_end_def)
  have xs: "vma_base u < e \<and> \<not> t < vma_end u" if "u \<in> set xs" for u
    using covers_bounds [OF b(1) that] f(3) assms(2) by (auto simp: inside_def vma_end_def)
  have ys: "t < vma_end u" if "u \<in> set ys" for u
    using covers_bounds [OF b(2) that] f(3) by (auto simp: inside_def vma_end_def)
  have tw: "takeWhile (\<lambda>v. vma_base v < e) m = xs @ v # takeWhile (\<lambda>v. vma_base v < e) ys"
    using xs f assms(2) by (simp add: takeWhile_append inside_def)
  then have "lower_bound e m = length xs + Suc (length (takeWhile (\<lambda>v. vma_base v < e) ys))"
    by (simp add: lower_bound_def)
  moreover have "take (Suc (length (takeWhile (\<lambda>v. vma_base v < e) ys))) (v # ys) = v # takeWhile (\<lambda>v. vma_base v < e) ys"
    by (simp add: takeWhile_eq_take [symmetric])
  ultimately have "take (lower_bound e m - length xs) (drop (length xs) m) = v # takeWhile (\<lambda>v. vma_base v < e) ys"
    using f(1) by simp
  moreover have "length xs \<le> lower_bound e m" "length xs < length m"
    using tw f(1) by (simp_all add: lower_bound_def)
  ultimately show thesis
    using f xs ys takeWhile_below [OF b(2), of e] assms(2)
    by (intro that [of "length xs"]) (auto simp: inside_def)
qed

lemma meets_range:
  assumes "covers 0 m MAX_ADDRESS" "t < e" "e \<le> MAX_ADDRESS"
  shows "(\<exists>v \<in> set m. vma_base v < e \<and> t < vma_end v \<and> Q v) \<longleftrightarrow>
    (\<exists>v \<in> set m. \<exists>a. t \<le> a \<and> a < e \<and> inside v a \<and> Q v)"
proof -
  have "\<exists>a. t \<le> a \<and> a < e \<and> inside v a" if "v \<in> set m" "vma_base v < e" "t < vma_end v" for v
    using that covers_bounds [OF assms(1) that(1)] assms(2)
    by (intro exI [of _ "max t (vma_base v)"]) (auto simp: inside_def vma_end_def)
  moreover have "vma_base v < e \<and> t < vma_end v" if "t \<le> a" "a < e" "inside v a" for v a
    using that by (simp add: inside_def)
  ultimately show ?thesis
    by blast
qed

lemma meets_range_page:
  assumes "covers 0 m MAX_ADDRESS" "t < e" "e \<le> MAX_ADDRESS" and Q: "\<And>v a. Q v \<longleftrightarrow> P (attr v a)"
  shows "(\<exists>v \<in> set m. vma_base v < e \<and> t < vma_end v \<and> Q v) \<longleftrightarrow>
    (\<exists>a. t \<le> a \<and> a < e \<and> (\<exists>pv. view m a = Some pv \<and> P pv))"
proof
  assume "\<exists>v \<in> set m. vma_base v < e \<and> t < vma_end v \<and> Q v"
  then obtain v a where v: "v \<in> set m" "t \<le> a" "a < e" "inside v a" "Q v"
    unfolding meets_range [OF assms(1-3)] by blast
  then show "\<exists>a. t \<le> a \<and> a < e \<and> (\<exists>pv. view m a = Some pv \<and> P pv)"
    using view_member [OF assms(1) v(1,4)] Q by blast
next
  assume "\<exists>a. t \<le> a \<and> a < e \<and> (\<exists>pv. view m a = Some pv \<and> P pv)"
  then obtain a pv where a: "t \<le> a" "a < e" "view m a = Some pv" "P pv" by blast
  then obtain v where v: "v \<in> set m" "inside v a" "view m a = Some (attr v a)"
    using view_Some_inside [OF assms(1), of a] assms(3) by auto
  with a(3,4) have "Q v" using Q [of v a] by simp
  with v a show "\<exists>v \<in> set m. vma_base v < e \<and> t < vma_end v \<and> Q v"
    by (intro bexI [of _ v]) (simp_all add: inside_def)
qed

lemma meets_range_type:
  assumes "covers 0 m MAX_ADDRESS" "t < e" "e \<le> MAX_ADDRESS"
  shows "(\<exists>v \<in> set m. vma_base v < e \<and> t < vma_end v \<and> vma_type v = Free) \<longleftrightarrow>
    (\<exists>a. t \<le> a \<and> a < e \<and> type_at m a = Some Free)"
  using meets_range_page [OF assms, of "\<lambda>v. vma_type v = Free" "\<lambda>pv. fst pv = Free"]
  by (simp add: attr_def type_at_def)

lemma CarveVMARange_spec:
  assumes "map_ok ext m" "host_ok ext" "page_aligned t" "page_aligned len" "0 < len" "t + len \<le> MAX_ADDRESS"
  shows "\<exists>a. t \<le> a \<and> a < t + len \<and> type_at m a = Some Free \<Longrightarrow>
      CarveVMARange t len m = Some (m, Inl ResultInvalidAddressState)"
    and "\<not> (\<exists>a. t \<le> a \<and> a < t + len \<and> type_at m a = Some Free) \<Longrightarrow>
      \<exists>xs vs tail. CarveVMARange t len m = Some (xs @ vs @ tail, Inr (length xs)) \<and> map_ok ext (xs @ vs @ tail) \<and>
        view (xs @ vs @ tail) = view m \<and> covers 0 xs t \<and> covers t vs (t + len) \<and> covers (t + len) tail MAX_ADDRESS \<and>
        (canonical m \<longrightarrow> canonical xs \<and> canonical vs \<and> canonical tail)"
proof -
  have c: "covers 0 m MAX_ADDRESS"
    using assms(1) by (simp add: map_ok_def)
  have e: "add32 t len = t + len"
    using assms(6) MAX_small by (simp add: add32_small)
  obtain i where i: "FindVMA t m = Some i" "i < length m" "i \<le> lower_bound (t + len) m"
    "set (take (lower_bound (t + len) m - i) (drop i m)) = {v \<in> set m. vma_base v < t + len \<and> t < vma_end v}"
    by (rule visited_areas [OF c, of t "t + len"]) (use assms(5,6) in simp_all)
  have free: "(\<exists>v \<in> set (take (lower_bound (t + len) m - i) (drop i m)). vma_type v = Free) \<longleftrightarrow>
    (\<exists>a. t \<le> a \<and> a < t + len \<and> type_at m a = Some Free)"
    using meets_range_type [OF c, of t "t + len"] assms(5,6) by (auto simp: i(4))
  note start = CarveVMARange_def Let_def assertion_def e assms(3-6) i(1-3) free
  show "CarveVMARange t len m = Some (m, Inl ResultInvalidAddressState)"
    if "\<exists>a. t \<le> a \<and> a < t + len \<and> type_at m a = Some Free"
    using that by (simp add: start)
  show "\<exists>xs vs tail. CarveVMARange t len m = Some (xs @ vs @ tail, Inr (length xs)) \<and> map_ok ext (xs @ vs @ tail) \<and>
        view (xs @ vs @ tail) = view m \<and> covers 0 xs t \<and> covers t vs (t + len) \<and> covers (t + len) tail MAX_ADDRESS \<and>
        (canonical m \<longrightarrow> canonical xs \<and> canonical vs \<and> canonical tail)"
    if no: "\<not> (\<exists>a. t \<le> a \<and> a < t + len \<and> type_at m a = Some Free)"
  proof -
    have m0: "map_ok ext ([] @ m)" "t < MAX_ADDRESS"
      using assms by simp_all
    obtain i' xs qs where s1: "FindVMA t ([] @ m) = Some i'" "i' < length ([] @ m)"
      "(if t \<noteq> vma_base (([] @ m) ! i') then SplitVMA i' (t - vma_base (([] @ m) ! i')) ([] @ m)
        else Some ([] @ m, i')) = Some ([] @ xs @ qs, length ([] @ xs))"
      "map_ok ext ([] @ xs @ qs)" "view ([] @ xs @ qs) = view ([] @ m)" "covers 0 xs t" "covers t qs MAX_ADDRESS"
      "canonical m \<Longrightarrow> canonical xs" "canonical m \<Longrightarrow> canonical qs"
      by (rule cut_spec [OF m0(1) assms(2) _ _ m0(2) assms(3), of 0]) (simp, simp, rule that, assumption+)
    have first: "(if t \<noteq> vma_base (m ! i) then SplitVMA i (t - vma_base (m ! i)) m else Some (m, i)) = Some (xs @ qs, length xs)"
    proof -
      have "i' = i" using s1(1) i(1) by simp
      with s1(3) show ?thesis by (simp only: append_Nil)
    qed
    have go: "CarveVMARange t len m = do {
       (m, i) \<leftarrow> (if t \<noteq> vma_base (m ! i) then SplitVMA i (t - vma_base (m ! i)) m else Some (m, i));
       j \<leftarrow> FindVMA (t + len) m;
       m \<leftarrow> (if j \<noteq> length m \<and> t + len \<noteq> vma_base (m ! j)
            then map_option fst (SplitVMA j (t + len - vma_base (m ! j)) m) else Some m);
       Some (m, Inr i) }"
      by (simp add: start no del: not_ex)
    show ?thesis
    proof (cases "t + len = MAX_ADDRESS")
      case True
      with go first s1(4-9) show ?thesis
        by (intro exI [of _ xs] exI [of _ qs] exI [of _ "[]"]) (simp add: FindVMA_end)
    next
      case False
      have m1: "map_ok ext (xs @ qs)" "t \<le> t + len" "t + len < MAX_ADDRESS" "page_aligned (t + len)"
        using s1(4) False assms(6) page_aligned_add [OF assms(3)] assms(4) by simp_all
      obtain j vs tail where s2: "FindVMA (t + len) (xs @ qs) = Some j" "j < length (xs @ qs)"
        "(if t + len \<noteq> vma_base ((xs @ qs) ! j) then SplitVMA j (t + len - vma_base ((xs @ qs) ! j)) (xs @ qs)
          else Some (xs @ qs, j)) = Some (xs @ vs @ tail, length (xs @ vs))"
        "map_ok ext (xs @ vs @ tail)" "view (xs @ vs @ tail) = view (xs @ qs)" "covers t vs (t + len)"
        "covers (t + len) tail MAX_ADDRESS"
        "canonical qs \<Longrightarrow> canonical vs" "canonical qs \<Longrightarrow> canonical tail"
        by (rule cut_spec [OF m1(1) assms(2) s1(6) m1(2-4)]) (rule that, assumption+)
      have "(if j \<noteq> length (xs @ qs) \<and> t + len \<noteq> vma_base ((xs @ qs) ! j)
            then map_option fst (SplitVMA j (t + len - vma_base ((xs @ qs) ! j)) (xs @ qs)) else Some (xs @ qs))
          = map_option fst (Some (xs @ vs @ tail, length (xs @ vs)))"
        using s2(2) by (subst s2(3) [symmetric]) simp
      then have "CarveVMARange t len m = Some (xs @ vs @ tail, Inr (length xs))"
        unfolding go first using s2(1) by simp
      with s1 s2 show ?thesis
        by (intro exI [of _ xs] exI [of _ vs] exI [of _ tail]) simp
    qed
  qed
qed

end
