(* ===== verification/VM_Props.thy ===== *)
theory VM_Props
  imports VM_Carve
begin

text \<open>
  What the operations on an address space do, told by the view: the invariant they keep, the pages
  they change, the errors they give, and that none of the assertions fails.
\<close>

section \<open>The invariant\<close>

text \<open>
  The areas cover the address space and lie in host memory, the page table agrees with them, and a
  free page has no permissions and the free state. Neighbouring free areas are merged.
\<close>

definition free_page :: page_view where
  "free_page = (Free, PermNone, StFree, 0)"

definition free_plain :: "vma list \<Rightarrow> bool" where
  "free_plain m \<longleftrightarrow> (\<forall>a. type_at m a = Some Free \<longrightarrow> view m a = Some free_page)"

definition vm_ok :: "(nat \<Rightarrow> nat) \<Rightarrow> vm \<Rightarrow> bool" where
  "vm_ok ext vm \<longleftrightarrow> map_ok ext (vma_map vm) \<and> table_ok (vma_map vm) (page_tbl vm) \<and> free_plain (vma_map vm) \<and>
     canonical (vma_map vm)"

lemma vm_okD:
  assumes "vm_ok ext vm"
  shows "map_ok ext (vma_map vm)" "table_ok (vma_map vm) (page_tbl vm)" "free_plain (vma_map vm)"
    "canonical (vma_map vm)"
  using assms by (simp_all add: vm_ok_def)

lemma map_ok_covers: "map_ok ext m \<Longrightarrow> covers 0 m MAX_ADDRESS"
  by (simp add: map_ok_def)

lemma table_ok_view: "view m = view m' \<Longrightarrow> table_ok m pt \<longleftrightarrow> table_ok m' pt"
  by (simp add: table_ok_def)

lemma free_plain_view: "view m = view m' \<Longrightarrow> free_plain m \<longleftrightarrow> free_plain m'"
  by (simp add: free_plain_def type_at_def)

lemma free_plain_list:
  assumes "covers 0 m MAX_ADDRESS"
  shows "free_plain m \<longleftrightarrow> (\<forall>v \<in> set m. vma_type v = Free \<longrightarrow> vma_perms v = PermNone \<and> vma_state v = StFree)"
proof
  assume p: "free_plain m"
  show "\<forall>v \<in> set m. vma_type v = Free \<longrightarrow> vma_perms v = PermNone \<and> vma_state v = StFree"
  proof (intro ballI impI)
    fix v assume v: "v \<in> set m" "vma_type v = Free"
    then have i: "inside v (vma_base v)"
      using covers_bounds [OF assms v(1)] by (simp add: inside_def vma_end_def)
    from type_at_member [OF assms v(1) i] v(2) p view_member [OF assms v(1) i]
    show "vma_perms v = PermNone \<and> vma_state v = StFree"
      by (auto simp: free_plain_def attr_def free_page_def)
  qed
next
  assume l: "\<forall>v \<in> set m. vma_type v = Free \<longrightarrow> vma_perms v = PermNone \<and> vma_state v = StFree"
  show "free_plain m"
    unfolding free_plain_def
  proof (intro allI impI)
    fix a assume t: "type_at m a = Some Free"
    then have "a < MAX_ADDRESS"
      using view_None_outside [OF assms, of a] by (fastforce simp: type_at_def)
    then obtain v where v: "v \<in> set m" "inside v a" "view m a = Some (attr v a)"
      using view_Some_inside [OF assms, of a] by auto
    with t l show "view m a = Some free_page"
      by (auto simp: type_at_def attr_def free_page_def)
  qed
qed

section \<open>Changing an area for good\<close>

lemma canonical_merged:
  assumes "canonical (xs' @ [w])" "canonical ys"
    "vma_end w = vma_end v \<and> ys' = ys \<and> (ys \<noteq> [] \<longrightarrow> \<not> same_attr w (hd ys)) \<or>
     (\<exists>y. ys = y # ys' \<and> vma_end w = vma_end y \<and> vma_base y = vma_end v \<and> same_attr fv y \<and>
        (\<forall>u. same_attr w u = same_attr y u))"
  shows "canonical (xs' @ w # ys')"
  using assms(3)
proof
  assume "\<exists>y. ys = y # ys' \<and> vma_end w = vma_end y \<and> vma_base y = vma_end v \<and> same_attr fv y \<and>
    (\<forall>u. same_attr w u = same_attr y u)"
  then obtain y where "ys = y # ys'" "\<And>u. same_attr w u = same_attr y u" by blast
  with assms(1,2) show ?thesis
    using same_attr_type [of w "hd ys'"] same_attr_type [of y "hd ys'"]
    by (auto simp: successively_append_iff successively_Cons)
qed (use assms(1,2) in \<open>auto simp: successively_append_iff successively_Cons\<close>)

text \<open>The pages of a range replaced.\<close>

definition override :: "nat \<Rightarrow> nat \<Rightarrow> (nat \<Rightarrow> page_view) \<Rightarrow> (nat \<Rightarrow> page_view option) \<Rightarrow> nat \<Rightarrow> page_view option" where
  "override t len p w a = (if t \<le> a \<and> a < t + len then Some (p a) else w a)"

definition mapped_page :: "nat \<Rightarrow> memory_ref \<Rightarrow> MemoryState \<Rightarrow> nat \<Rightarrow> page_view" where
  "mapped_page t mem state a = (BackingMemory, PermReadWrite, state, ref_ptr mem + (a - t))"

lemma MapBackingMemory_spec:
  assumes vm: "vm_ok ext vm" "\<not> vm_locked vm" and host: "host_ok ext"
    and args: "page_aligned t" "page_aligned len" "0 < len" "t + len < 2 ^ 32" "ref_ok ext mem" "len \<le> ref_size mem"
  shows "\<exists>v \<in> set (vma_map vm). holds t len v \<Longrightarrow>
      \<exists>vm' j. MapBackingMemory cached t mem len state vm = Some (vm', Inr j) \<and> vm_ok ext vm' \<and> \<not> vm_locked vm' \<and>
        view (vma_map vm') = override t len (mapped_page t mem state) (view (vma_map vm)) \<and> j < length (vma_map vm') \<and>
        (\<forall>a. t \<le> a \<and> a < t + len \<longrightarrow> inside (vma_map vm' ! j) a)"
    and "\<not> (\<exists>v \<in> set (vma_map vm). holds t len v) \<Longrightarrow>
      MapBackingMemory cached t mem len state vm =
        Some (vm, Inl (if MAX_ADDRESS \<le> t then ResultInvalidAddress else ResultInvalidAddressState))"
proof -
  note ok = vm_okD [OF vm(1)]
  note carve = CarveVMA_spec [OF ok(1) host args(1-4)]
  have mem: "ref_ptr mem \<noteq> 0"
    using args(5) by (simp add: ref_ok_def)
  note start = MapBackingMemory_def mem vm(2)
  show "MapBackingMemory cached t mem len state vm =
        Some (vm, Inl (if MAX_ADDRESS \<le> t then ResultInvalidAddress else ResultInvalidAddressState))"
    if "\<not> (\<exists>v \<in> set (vma_map vm). holds t len v)"
    using carve(2) [OF that] by (simp add: start)
  show "\<exists>vm' j. MapBackingMemory cached t mem len state vm = Some (vm', Inr j) \<and> vm_ok ext vm' \<and> \<not> vm_locked vm' \<and>
        view (vma_map vm') = override t len (mapped_page t mem state) (view (vma_map vm)) \<and> j < length (vma_map vm') \<and>
        (\<forall>a. t \<le> a \<and> a < t + len \<longrightarrow> inside (vma_map vm' ! j) a)"
    if yes: "\<exists>v \<in> set (vma_map vm). holds t len v"
  proof -
    obtain xs v ys where c: "CarveVMA t len (vma_map vm) = Some (xs @ v # ys, Inr (length xs))" "map_ok ext (xs @ v # ys)"
      "view (xs @ v # ys) = view (vma_map vm)" "vma_base v = t" "vma_size v = len" "vma_type v = Free"
      "canonical (vma_map vm) \<longrightarrow> canonical xs \<and> canonical ys"
      using carve(1) [OF yes] by blast
    define f :: "vma \<Rightarrow> vma" where "f = (\<lambda>v. v\<lparr>vma_type := BackingMemory, vma_perms := PermReadWrite, vma_state := state, vma_backing := mem\<rparr>)"
    let ?vm = "vm\<lparr>vma_map := xs @ v # ys\<rparr>"
    have fv: "vma_base (f v) = vma_base v" "vma_size (f v) = vma_size v" "vma_ok ext (f v)"
      "attr (f v) a = mapped_page t mem state a" for a
      using args c(4,5) by (simp_all add: f_def vma_ok_def attr_def mapped_page_def)
    have t: "table_ok (xs @ v # ys) (page_tbl ?vm)" "vma_map ?vm = xs @ v # ys"
      using ok(2) table_ok_view [OF c(3)] by simp_all
    obtain xs' w ys' pt where s:
      "modify_vma cached f (length xs) ?vm = Some (?vm\<lparr>page_tbl := pt, vma_map := xs' @ w # ys'\<rparr>, length xs')"
      "map_ok ext (xs' @ w # ys')" "table_ok (xs' @ w # ys') pt"
      "\<And>a. view (xs' @ w # ys') a = (if inside v a then Some (attr (f v) a) else view (xs @ v # ys) a)"
      "vma_base w \<le> vma_base v" "canonical xs \<Longrightarrow> canonical (xs' @ [w])"
      "vma_end w = vma_end v \<and> ys' = ys \<and> (ys \<noteq> [] \<longrightarrow> \<not> same_attr w (hd ys)) \<or>
       (\<exists>y. ys = y # ys' \<and> vma_end w = vma_end y \<and> vma_base y = vma_end v \<and> same_attr (f v) y \<and>
          (\<forall>u. same_attr w u = same_attr y u))"
      by (rule modify_vma_spec [where f = f and cached = cached and xs = xs and v = v and ys = ys and vm = ?vm, OF c(2) host t fv(1-3)])
        (rule that, assumption+)
    let ?vm' = "?vm\<lparr>page_tbl := pt, vma_map := xs' @ w # ys'\<rparr>"
    have view: "view (xs' @ w # ys') = override t len (mapped_page t mem state) (view (vma_map vm))"
      using c(3-5) by (auto simp: fun_eq_iff s(4) fv(4) inside_def vma_end_def override_def)
    have "free_plain (xs' @ w # ys')"
      using ok(3) unfolding free_plain_def type_at_def view by (simp add: override_def mapped_page_def)
    moreover have "inside w a" if "t \<le> a" "a < t + len" for a
    proof -
      have "vma_end v \<le> vma_end w"
        using s(7) covers_bounds [OF map_ok_covers [OF c(2)]] by (auto simp: vma_end_def)
      then show ?thesis using s(5) c(4,5) that by (simp add: inside_def vma_end_def)
    qed
    moreover have "MapBackingMemory cached t mem len state vm = Some (?vm', Inr (length xs'))"
      using c s(1) by (simp add: start f_def)
    moreover have "canonical (xs' @ w # ys')"
      using canonical_merged [OF s(6) _ s(7)] c(7) ok(4) by simp
    ultimately show ?thesis
      using s(2,3) view vm(2) by (intro exI [of _ ?vm'] exI [of _ "length xs'"]) (simp add: vm_ok_def)
  qed
qed

section \<open>Changing a range\<close>

definition changed :: "nat \<Rightarrow> nat \<Rightarrow> (page_view \<Rightarrow> page_view) \<Rightarrow> (nat \<Rightarrow> page_view option) \<Rightarrow> nat \<Rightarrow> page_view option" where
  "changed t len h w a = (if t \<le> a \<and> a < t + len then map_option h (w a) else w a)"

lemma covers_inside_iff:
  assumes "covers t vs e"
  shows "(\<exists>v \<in> set vs. inside v a) \<longleftrightarrow> t \<le> a \<and> a < e"
  using view_Some_inside [OF assms, of a] covers_bounds [OF assms] by (fastforce simp: inside_def)

text \<open>
  The three range operations carve and then run the loop with a change \<open>f\<close> of each area.
\<close>

lemma change_range:
  assumes vm: "vm_ok ext vm" "\<not> vm_locked vm" and host: "host_ok ext"
    and args: "page_aligned t" "page_aligned len" "0 < len" "t + len \<le> MAX_ADDRESS"
    and used: "\<not> (\<exists>a. t \<le> a \<and> a < t + len \<and> type_at (vma_map vm) a = Some Free)"
    and f: "\<And>v. vma_ok ext v \<Longrightarrow> vma_base (f v) = vma_base v \<and> vma_size (f v) = vma_size v \<and> vma_ok ext (f v)"
      "\<And>v a. attr (f v) a = h (attr v a)" "\<And>v y a. same_attr (f v) y \<Longrightarrow> h (attr y a) = attr y a"
    and g: "\<And>i vm. \<not> vm_locked vm \<Longrightarrow> g i vm = modify_vma cached f i vm"
  obtains m i vm' where "CarveVMARange t len (vma_map vm) = Some (m, Inr i)"
    "for_range g (t + len) i (vm\<lparr>vma_map := m\<rparr>) = Some vm'"
    "map_ok ext (vma_map vm')" "table_ok (vma_map vm') (page_tbl vm')" "\<not> vm_locked vm'"
    "view (vma_map vm') = changed t len h (view (vma_map vm))"
    "canonical (vma_map vm')"
proof -
  note ok = vm_okD [OF vm(1)]
  obtain xs vs tail where c: "CarveVMARange t len (vma_map vm) = Some (xs @ vs @ tail, Inr (length xs))"
    "map_ok ext (xs @ vs @ tail)" "view (xs @ vs @ tail) = view (vma_map vm)" "covers 0 xs t" "covers t vs (t + len)"
    "covers (t + len) tail MAX_ADDRESS" "canonical (vma_map vm) \<longrightarrow> canonical xs \<and> canonical vs \<and> canonical tail"
    using CarveVMARange_spec(2) [OF ok(1) host args used] by blast
  let ?vm = "vm\<lparr>vma_map := xs @ vs @ tail\<rparr>"
  have vs: "vma_ok ext v" "vma_base v < t + len" "t \<le> vma_base v" "view (vma_map vm) (vma_base v) = Some (attr v (vma_base v))"
    if "v \<in> set vs" for v
  proof -
    show "vma_ok ext v" using c(2) that by (simp add: map_ok_def)
    have b: "t \<le> vma_base v" "vma_end v \<le> t + len" "0 < vma_size v"
      using covers_bounds [OF c(5) that] by simp_all
    then show "vma_base v < t + len" "t \<le> vma_base v" by (simp_all add: vma_end_def)
    show "view (vma_map vm) (vma_base v) = Some (attr v (vma_base v))"
      using view_member [OF map_ok_covers [OF c(2)], of v "vma_base v"] that b(3)
      by (simp add: c(3) [symmetric] inside_def vma_end_def)
  qed
  have ac: "area_change ext f h vs"
    using f vs(1) unfolding area_change_def by blast
  have tl: "\<forall>v \<in> set tail. t + len \<le> vma_base v"
    using covers_bounds [OF c(6)] by blast
  have "\<exists>vm'. for_range g (t + len) (length xs) ?vm = Some vm' \<and> map_ok ext (vma_map vm') \<and>
    table_ok (vma_map vm') (page_tbl vm') \<and> \<not> vm_locked vm' \<and>
    (\<forall>a. view (vma_map vm') a = (if \<exists>v \<in> set vs. inside v a then map_option h (view (vma_map ?vm) a)
       else view (vma_map ?vm) a)) \<and>
    (canonical xs \<longrightarrow> canonical tail \<longrightarrow> (vs = [] \<longrightarrow> canonical (xs @ tail)) \<longrightarrow>
      (\<forall>v \<in> set vs. \<forall>y \<in> set vs. same_attr (f v) y \<longrightarrow> vma_type y \<noteq> Free) \<longrightarrow> canonical (vma_map vm'))"
    by (rule for_range_spec [where cached = cached])
      (use c(2) host vs(2) tl ac g vm(2) ok(2) table_ok_view [OF c(3)] in simp_all)
  then obtain vm' where v': "for_range g (t + len) (length xs) ?vm = Some vm'" "map_ok ext (vma_map vm')"
    "table_ok (vma_map vm') (page_tbl vm')" "\<not> vm_locked vm'"
    "\<forall>a. view (vma_map vm') a = (if \<exists>v \<in> set vs. inside v a then map_option h (view (vma_map ?vm) a)
       else view (vma_map ?vm) a)"
    "canonical xs \<longrightarrow> canonical tail \<longrightarrow> (vs = [] \<longrightarrow> canonical (xs @ tail)) \<longrightarrow>
      (\<forall>v \<in> set vs. \<forall>y \<in> set vs. same_attr (f v) y \<longrightarrow> vma_type y \<noteq> Free) \<longrightarrow> canonical (vma_map vm')"
    by blast
  have ne: "vs \<noteq> []"
    using c(5) args(3) by auto
  show thesis
  proof (rule that [OF c(1) v'(1-4)])
    show "view (vma_map vm') = changed t len h (view (vma_map vm))"
      using v'(5) by (simp add: fun_eq_iff changed_def covers_inside_iff [OF c(5)] c(3))
    have "vma_type y \<noteq> Free" if "y \<in> set vs" for y
      using vs(2-4) [OF that] used by (auto simp: type_at_def attr_def)
    then show "canonical (vma_map vm')"
      using v'(6) ne c(7) ok(4) by blast
  qed
qed

text \<open>In a canonical map a free range lies in one area.\<close>

lemma free_range_in_area:
  assumes "covers 0 m MAX_ADDRESS" "canonical m" "free_plain m" "t < e" "e \<le> MAX_ADDRESS"
    "\<And>a. t \<le> a \<Longrightarrow> a < e \<Longrightarrow> type_at m a = Some Free"
  obtains xs v ys where "m = xs @ v # ys" "FindVMA t m = Some (length xs)" "inside v t" "e \<le> vma_end v" "vma_type v = Free"
proof -
  obtain xs v ys where f: "m = xs @ v # ys" "FindVMA t m = Some (length xs)" "inside v t"
    by (rule FindVMA_covers [OF assms(1), of t]) (use assms(4,5) in simp_all)
  have v: "vma_type v = Free"
    using type_at_member [OF assms(1), of v t] f assms(4,6) by simp
  moreover have "e \<le> vma_end v"
  proof (rule ccontr)
    assume e: "\<not> e \<le> vma_end v"
    have b: "covers (vma_end v) ys MAX_ADDRESS"
      using assms(1) f(1) by (auto simp: covers_append vma_end_def)
    with e assms(5) obtain w ws where y: "ys = w # ws" "vma_base w = vma_end v" "0 < vma_size w"
      by (cases ys) auto
    then have "vma_type w = Free"
      using type_at_member [OF assms(1), of w "vma_end v"] assms(6) [of "vma_end v"] e f
      by (simp add: inside_def vma_end_def)
    with v have "same_attr v w"
      using assms(3) [unfolded free_plain_list [OF assms(1)]] f(1) y(1) by (simp add: same_attr_def)
    with assms(2) f(1) y(1) v show False
      by (simp add: successively_append_iff successively_Cons)
  qed
  ultimately show thesis
    using f by (intro that [of xs v ys])
qed

section \<open>The operations on ranges\<close>

definition reprotected :: "u8 \<Rightarrow> page_view \<Rightarrow> page_view" where
  "reprotected p pv = (case pv of (ty, _, s, q) \<Rightarrow> (ty, p, s, q))"

definition with_state :: "MemoryState \<Rightarrow> u8 \<Rightarrow> page_view \<Rightarrow> page_view" where
  "with_state s p pv = (case pv of (ty, _, _, q) \<Rightarrow> (ty, p, s, q))"

definition range_used :: "nat \<Rightarrow> nat \<Rightarrow> vma list \<Rightarrow> bool" where
  "range_used t len m \<longleftrightarrow> \<not> (\<exists>a. t \<le> a \<and> a < t + len \<and> type_at m a = Some Free)"

definition range_args :: "nat \<Rightarrow> nat \<Rightarrow> bool" where
  "range_args t len \<longleftrightarrow> page_aligned t \<and> page_aligned len \<and> 0 < len \<and> t + len \<le> MAX_ADDRESS"

lemma range_argsD:
  assumes "range_args t len"
  shows "page_aligned t" "page_aligned len" "0 < len" "t + len \<le> MAX_ADDRESS" "add32 t len = t + len"
  using assms MAX_small by (simp_all add: range_args_def add32_small)

lemma carve_free:
  "vm_ok ext vm \<Longrightarrow> host_ok ext \<Longrightarrow> range_args t len \<Longrightarrow> \<not> range_used t len (vma_map vm) \<Longrightarrow>
    CarveVMARange t len (vma_map vm) = Some (vma_map vm, Inl ResultInvalidAddressState)"
  by (rule CarveVMARange_spec(1)) (auto simp: range_used_def range_args_def dest: vm_okD)

lemma free_plain_changed:
  assumes "free_plain m" "view m' = changed t len h (view m)"
    "\<And>a pv. t \<le> a \<Longrightarrow> a < t + len \<Longrightarrow> view m a = Some pv \<Longrightarrow> fst (h pv) = Free \<Longrightarrow> h pv = free_page"
  shows "free_plain m'"
  unfolding free_plain_def
proof (intro allI impI)
  fix a assume a: "type_at m' a = Some Free"
  show "view m' a = Some free_page"
  proof (cases "t \<le> a \<and> a < t + len")
    case True
    with a obtain pv where "view m a = Some pv" "view m' a = Some (h pv)" "fst (h pv) = Free"
      by (auto simp: type_at_def assms(2) changed_def)
    with assms(3) [of a pv] True show ?thesis by simp
  next
    case False
    with a assms(1) show ?thesis
      by (auto simp: free_plain_def type_at_def assms(2) changed_def)
  qed
qed

lemma UnmapRange_spec:
  assumes "vm_ok ext vm" "\<not> vm_locked vm" "host_ok ext" "range_args t len"
  shows "range_used t len (vma_map vm) \<Longrightarrow>
      \<exists>vm'. UnmapRange cached t len vm = Some (vm', ResultSuccess) \<and> vm_ok ext vm' \<and> \<not> vm_locked vm' \<and>
        view (vma_map vm') = changed t len (\<lambda>_. free_page) (view (vma_map vm))"
    and "\<not> range_used t len (vma_map vm) \<Longrightarrow> UnmapRange cached t len vm = Some (vm, ResultInvalidAddressState)"
proof -
  note args = range_argsD [OF assms(4)]
  show "UnmapRange cached t len vm = Some (vm, ResultInvalidAddressState)" if "\<not> range_used t len (vma_map vm)"
    using carve_free [OF assms(1,3,4) that] assms(2) by (simp add: UnmapRange_def)
  show "\<exists>vm'. UnmapRange cached t len vm = Some (vm', ResultSuccess) \<and> vm_ok ext vm' \<and> \<not> vm_locked vm' \<and>
        view (vma_map vm') = changed t len (\<lambda>_. free_page) (view (vma_map vm))" if used: "range_used t len (vma_map vm)"
  proof -
    let ?f = "\<lambda>v :: vma. v\<lparr>vma_type := Free, vma_perms := PermNone, vma_state := StFree, vma_backing := null_ref\<rparr>"
    obtain m i vm' where r: "CarveVMARange t len (vma_map vm) = Some (m, Inr i)"
      "for_range (Unmap cached) (t + len) i (vm\<lparr>vma_map := m\<rparr>) = Some vm'"
      "map_ok ext (vma_map vm')" "table_ok (vma_map vm') (page_tbl vm')" "\<not> vm_locked vm'"
      "view (vma_map vm') = changed t len (\<lambda>_. free_page) (view (vma_map vm))" "canonical (vma_map vm')"
    proof (rule change_range [OF assms(1-3) args(1-4) used [unfolded range_used_def], of ?f "\<lambda>_. free_page" "Unmap cached" cached])
      show "\<And>v. vma_ok ext v \<Longrightarrow> vma_base (?f v) = vma_base v \<and> vma_size (?f v) = vma_size v \<and> vma_ok ext (?f v)"
        by (simp add: vma_ok_def)
      show "attr (?f v) a = free_page" for v a
        by (simp add: attr_def free_page_def)
      show "\<And>v y a. same_attr (?f v) y \<Longrightarrow> free_page = attr y a"
        by (auto simp: same_attr_def attr_def free_page_def)
      show "\<And>i vm. \<not> vm_locked vm \<Longrightarrow> Unmap cached i vm = modify_vma cached ?f i vm"
        by (simp add: Unmap_def)
    qed (rule that, assumption+)
    have fp: "free_plain (vma_map vm')"
      by (rule free_plain_changed [OF vm_okD(3) [OF assms(1)] r(6)]) simp
    have free: "type_at (vma_map vm') a = Some Free" if a: "t \<le> a" "a < t + len" for a
    proof -
      obtain v where "view (vma_map vm) a = Some (attr v a)"
        using view_Some_inside [OF map_ok_covers [OF vm_okD(1) [OF assms(1)]], of a] a args(4) by auto
      with a show ?thesis by (simp add: type_at_def r(6) changed_def free_page_def)
    qed
    obtain xs v ys where v: "vma_map vm' = xs @ v # ys" "FindVMA t (vma_map vm') = Some (length xs)" "inside v t"
      "t + len \<le> vma_end v" "vma_type v = Free"
    proof (rule free_range_in_area [OF map_ok_covers [OF r(3)] r(7) fp _ args(4) free])
      show "t < t + len" using args(3) by simp
    qed (assumption, assumption, rule that, assumption+)
    have "len \<le> vma_size v"
      using v(3,4) by (simp add: inside_def vma_end_def)
    with v r(1,2) assms(2) have "UnmapRange cached t len vm = Some (vm', ResultSuccess)"
      by (simp add: UnmapRange_def args(5) nth_append)
    with r fp show ?thesis by (auto simp: vm_ok_def)
  qed
qed

lemma ReprotectRange_spec:
  assumes "vm_ok ext vm" "\<not> vm_locked vm" "host_ok ext" "range_args t len"
  shows "range_used t len (vma_map vm) \<Longrightarrow>
      \<exists>vm'. ReprotectRange cached t len p vm = Some (vm', ResultSuccess) \<and> vm_ok ext vm' \<and> \<not> vm_locked vm' \<and>
        view (vma_map vm') = changed t len (reprotected p) (view (vma_map vm))"
    and "\<not> range_used t len (vma_map vm) \<Longrightarrow> ReprotectRange cached t len p vm = Some (vm, ResultInvalidAddressState)"
proof -
  note args = range_argsD [OF assms(4)]
  show "ReprotectRange cached t len p vm = Some (vm, ResultInvalidAddressState)" if "\<not> range_used t len (vma_map vm)"
    using carve_free [OF assms(1,3,4) that] assms(2) by (simp add: ReprotectRange_def)
  show "\<exists>vm'. ReprotectRange cached t len p vm = Some (vm', ResultSuccess) \<and> vm_ok ext vm' \<and> \<not> vm_locked vm' \<and>
        view (vma_map vm') = changed t len (reprotected p) (view (vma_map vm))" if used: "range_used t len (vma_map vm)"
  proof -
    let ?f = "\<lambda>v :: vma. v\<lparr>vma_perms := p\<rparr>"
    obtain m i vm' where r: "CarveVMARange t len (vma_map vm) = Some (m, Inr i)"
      "for_range (Reprotect cached p) (t + len) i (vm\<lparr>vma_map := m\<rparr>) = Some vm'"
      "map_ok ext (vma_map vm')" "table_ok (vma_map vm') (page_tbl vm')" "\<not> vm_locked vm'"
      "view (vma_map vm') = changed t len (reprotected p) (view (vma_map vm))" "canonical (vma_map vm')"
    proof (rule change_range [OF assms(1-3) args(1-4) used [unfolded range_used_def], of ?f "reprotected p" "Reprotect cached p" cached])
      show "\<And>v. vma_ok ext v \<Longrightarrow> vma_base (?f v) = vma_base v \<and> vma_size (?f v) = vma_size v \<and> vma_ok ext (?f v)"
        by (simp add: vma_ok_def)
      show "attr (?f v) a = reprotected p (attr v a)" for v a
        by (simp add: attr_def reprotected_def)
      show "\<And>v y a. same_attr (?f v) y \<Longrightarrow> reprotected p (attr y a) = attr y a"
        by (auto simp: same_attr_def attr_def reprotected_def)
      show "\<And>i vm. \<not> vm_locked vm \<Longrightarrow> Reprotect cached p i vm = modify_vma cached ?f i vm"
        by (simp add: Reprotect_def)
    qed (rule that, assumption+)
    have "free_plain (vma_map vm')"
      by (rule free_plain_changed [OF vm_okD(3) [OF assms(1)] r(6)])
        (use used in \<open>auto simp: range_used_def type_at_def reprotected_def split: prod.splits\<close>)
    moreover have "ReprotectRange cached t len p vm = Some (vm', ResultSuccess)"
      using r(1,2) assms(2) by (simp add: ReprotectRange_def args(5))
    ultimately show ?thesis using r by (auto simp: vm_ok_def)
  qed
qed

text \<open>The pages a change of state is allowed on.\<close>

definition page_expected :: "MemoryState \<Rightarrow> u8 \<Rightarrow> page_view \<Rightarrow> bool" where
  "page_expected s p pv \<longleftrightarrow> (case pv of (_, p', s', _) \<Rightarrow> s' = s \<and> p' AND p = p)"

definition range_expected :: "nat \<Rightarrow> nat \<Rightarrow> MemoryState \<Rightarrow> u8 \<Rightarrow> vma list \<Rightarrow> bool" where
  "range_expected t len s p m \<longleftrightarrow>
     \<not> (\<exists>a. t \<le> a \<and> a < t + len \<and> (\<exists>pv. view m a = Some pv \<and> \<not> page_expected s p pv))"

lemma ChangeMemoryState_spec:
  assumes "vm_ok ext vm" "\<not> vm_locked vm" "host_ok ext" "range_args t len"
  shows "range_used t len (vma_map vm) \<Longrightarrow> range_expected t len es ep (vma_map vm) \<Longrightarrow>
      \<exists>vm'. ChangeMemoryState cached t len es ep ns np vm = Some (vm', ResultSuccess) \<and> vm_ok ext vm' \<and>
        \<not> vm_locked vm' \<and> view (vma_map vm') = changed t len (with_state ns np) (view (vma_map vm))"
    and "\<not> (range_used t len (vma_map vm) \<and> range_expected t len es ep (vma_map vm)) \<Longrightarrow>
      ChangeMemoryState cached t len es ep ns np vm = Some (vm, ResultInvalidAddressState)"
proof -
  note args = range_argsD [OF assms(4)]
  note cov = map_ok_covers [OF vm_okD(1) [OF assms(1)]]
  let ?m = "vma_map vm"
  obtain i where i: "FindVMA t ?m = Some i" "i < length ?m" "i \<le> lower_bound (t + len) ?m"
    "set (take (lower_bound (t + len) ?m - i) (drop i ?m)) = {v \<in> set ?m. vma_base v < t + len \<and> t < vma_end v}"
    by (rule visited_areas [OF cov, of t "t + len"]) (use args in simp_all)
  have bad: "(\<exists>v \<in> set (take (lower_bound (t + len) ?m - i) (drop i ?m)).
      vma_state v \<noteq> es \<or> vma_perms v AND ep \<noteq> ep) \<longleftrightarrow> \<not> range_expected t len es ep ?m"
  proof -
    let ?Q = "\<lambda>v. vma_state v \<noteq> es \<or> vma_perms v AND ep \<noteq> ep"
    have "(\<exists>v \<in> set (take (lower_bound (t + len) ?m - i) (drop i ?m)). ?Q v) \<longleftrightarrow>
        (\<exists>v \<in> set ?m. vma_base v < t + len \<and> t < vma_end v \<and> ?Q v)"
      unfolding i(4) by blast
    also have "\<dots> \<longleftrightarrow> (\<exists>a. t \<le> a \<and> a < t + len \<and> (\<exists>pv. view ?m a = Some pv \<and> \<not> page_expected es ep pv))"
      by (rule meets_range_page [OF cov]) (use args in \<open>simp_all add: page_expected_def attr_def\<close>)
    finally show ?thesis unfolding range_expected_def by blast
  qed
  then have bad': "(\<exists>v \<in> set (take (lower_bound (t + len) ?m - i) (drop i ?m)).
      vma_state v = es \<longrightarrow> vma_perms v AND ep \<noteq> ep) \<longleftrightarrow> \<not> range_expected t len es ep ?m"
    "(\<forall>v \<in> set (take (lower_bound (t + len) ?m - i) (drop i ?m)).
      vma_state v = es \<and> vma_perms v AND ep = ep) \<longleftrightarrow> range_expected t len es ep ?m"
    by blast+
  note start = ChangeMemoryState_def Let_def args(5) i(1,3) less_imp_neq [OF i(2)] bad' assms(2)
  show "ChangeMemoryState cached t len es ep ns np vm = Some (vm, ResultInvalidAddressState)"
    if "\<not> (range_used t len (vma_map vm) \<and> range_expected t len es ep (vma_map vm))"
    using that carve_free [OF assms(1,3,4)] by (cases "range_used t len ?m") (simp_all add: start)
  show "\<exists>vm'. ChangeMemoryState cached t len es ep ns np vm = Some (vm', ResultSuccess) \<and> vm_ok ext vm' \<and>
        \<not> vm_locked vm' \<and> view (vma_map vm') = changed t len (with_state ns np) (view (vma_map vm))"
    if used: "range_used t len (vma_map vm)" and expected: "range_expected t len es ep (vma_map vm)"
  proof -
    let ?f = "\<lambda>v :: vma. v\<lparr>vma_perms := np, vma_state := ns\<rparr>"
    obtain m j vm' where r: "CarveVMARange t len (vma_map vm) = Some (m, Inr j)"
      "for_range (\<lambda>i. modify_vma cached ?f i) (t + len) j (vm\<lparr>vma_map := m\<rparr>) = Some vm'"
      "map_ok ext (vma_map vm')" "table_ok (vma_map vm') (page_tbl vm')" "\<not> vm_locked vm'"
      "view (vma_map vm') = changed t len (with_state ns np) (view (vma_map vm))" "canonical (vma_map vm')"
    proof (rule change_range [OF assms(1-3) args(1-4) used [unfolded range_used_def], of ?f "with_state ns np"
          "\<lambda>i. modify_vma cached ?f i" cached])
      show "\<And>v. vma_ok ext v \<Longrightarrow> vma_base (?f v) = vma_base v \<and> vma_size (?f v) = vma_size v \<and> vma_ok ext (?f v)"
        by (simp add: vma_ok_def)
      show "attr (?f v) a = with_state ns np (attr v a)" for v a
        by (simp add: attr_def with_state_def)
      show "\<And>v y a. same_attr (?f v) y \<Longrightarrow> with_state ns np (attr y a) = attr y a"
        by (auto simp: same_attr_def attr_def with_state_def)
    qed (rule refl, rule that, assumption+)
    have "free_plain (vma_map vm')"
      by (rule free_plain_changed [OF vm_okD(3) [OF assms(1)] r(6)])
        (use used in \<open>auto simp: range_used_def type_at_def with_state_def split: prod.splits\<close>)
    moreover have "ChangeMemoryState cached t len es ep ns np vm = Some (vm', ResultSuccess)"
      using r(1,2) expected by (simp add: start)
    ultimately show ?thesis using r by (auto simp: vm_ok_def)
  qed
qed

end
