(* ===== verification/Address_Space.thy ===== *)
theory Address_Space
  imports VM_Props
begin

text \<open>
  The promises of the VM manager: the properties of mapping, unmapping, reprotecting and changing the
  state of a range, of the search for a free place, of the host blocks behind a range, and of every
  sequence of operations from the reset on.
\<close>

section \<open>The blocks behind a range\<close>

definition host_at :: "vma list \<Rightarrow> nat \<Rightarrow> nat option" where
  "host_at m a = (case view m a of Some (BackingMemory, _, _, q) \<Rightarrow> Some q | _ \<Rightarrow> None)"

definition block_bytes :: "(memory_ref \<times> nat) list \<Rightarrow> nat list" where
  "block_bytes bs = concat (map (\<lambda>(b, n). [ref_ptr b..<ref_ptr b + n]) bs)"

lemma host_at_member:
  "covers 0 m c \<Longrightarrow> v \<in> set m \<Longrightarrow> inside v a \<Longrightarrow>
    host_at m a = (if vma_type v = BackingMemory then Some (ref_ptr (vma_backing v) + (a - vma_base v)) else None)"
  by (cases "vma_type v") (simp_all add: host_at_def view_member attr_def)

lemma upt_host:
  assumes "b \<le> p" "p \<le> s"
  shows "[q + (p - b)..<q + (p - b) + (s - p)] = map (\<lambda>a. q + (a - b)) [p..<s]"
  using assms by (intro nth_equalityI) auto

lemma backing_blocks_loop_spec:
  assumes "map_ok ext m" "pos \<le> e" "e \<le> MAX_ADDRESS"
  shows "(\<forall>a. pos \<le> a \<longrightarrow> a < e \<longrightarrow> host_at m a \<noteq> None) \<Longrightarrow>
      \<exists>bs. backing_blocks_loop pos e acc m = Some (Inr (acc @ bs)) \<and>
        map Some (block_bytes bs) = map (host_at m) [pos..<e]"
    and "\<not> (\<forall>a. pos \<le> a \<longrightarrow> a < e \<longrightarrow> host_at m a \<noteq> None) \<Longrightarrow>
      backing_blocks_loop pos e acc m = Some (Inl ResultInvalidAddressState)"
proof -
  have c: "covers 0 m MAX_ADDRESS"
    using assms(1) by (simp add: map_ok_def)
  have "(if \<forall>a. pos \<le> a \<longrightarrow> a < e \<longrightarrow> host_at m a \<noteq> None
     then \<exists>bs. backing_blocks_loop pos e acc m = Some (Inr (acc @ bs)) \<and> map Some (block_bytes bs) = map (host_at m) [pos..<e]
     else backing_blocks_loop pos e acc m = Some (Inl ResultInvalidAddressState))"
    using assms(2)
  proof (induction "e - pos" arbitrary: pos acc rule: less_induct)
    case less
    show ?case
    proof (cases "pos = e")
      case True
      then show ?thesis
        by (auto simp: backing_blocks_loop.simps block_bytes_def)
    next
      case False
      with less.prems have lt: "pos < e" by simp
      with assms(3) obtain xs v ys where f: "m = xs @ v # ys" "FindVMA pos m = Some (length xs)" "inside v pos"
        using FindVMA_covers [OF c, of pos thesis] by auto
      have v: "v \<in> set m" "vma_ok ext v" "vma_end v \<le> MAX_ADDRESS"
        using f(1) assms(1) covers_bounds [OF c, of v] by (simp_all add: map_ok_def)
      show ?thesis
      proof (cases "vma_type v = BackingMemory")
        case False
        then have "backing_blocks_loop pos e acc m = Some (Inl ResultInvalidAddressState)"
          using f lt by (subst backing_blocks_loop.simps) (simp add: nth_append)
        moreover have "host_at m pos = None"
          using host_at_member [OF c v(1) f(3)] False by simp
        ultimately show ?thesis using lt by auto
      next
        case True
        define stop where "stop = min e (vma_end v)"
        define b where "b = \<lparr>ref_ptr = ref_ptr (vma_backing v) + (pos - vma_base v),
          ref_size = ref_size (vma_backing v) - (pos - vma_base v)\<rparr>"
        have stop: "pos < stop" "stop \<le> e" "stop \<le> vma_end v"
          using lt f(3) by (simp_all add: stop_def inside_def)
        have a32: "add32 (vma_base v) (vma_size v) = vma_end v" "sub32 stop pos = stop - pos"
            "add32 pos (stop - pos) = stop"
          using v(3) stop assms(3) MAX_small by (simp_all add: add32_small sub32_small vma_end_def)
        have "ref_add (pos - vma_base v) (vma_backing v) = Some b"
          using v(2) True f(3) by (auto simp: ref_add_def b_def vma_ok_def inside_def vma_end_def)
        then have step: "backing_blocks_loop pos e acc m = backing_blocks_loop stop e (acc @ [(b, stop - pos)]) m"
          using f True lt by (subst backing_blocks_loop.simps) (simp add: nth_append a32 flip: stop_def)
        have host: "host_at m a = Some (ref_ptr (vma_backing v) + (a - vma_base v))" if "pos \<le> a" "a < stop" for a
          using host_at_member [OF c v(1), of a] True that f(3) stop(3) by (simp add: inside_def)
        have "map Some [ref_ptr b..<ref_ptr b + (stop - pos)] = map (host_at m) [pos..<stop]"
          using upt_host [of "vma_base v" pos stop "ref_ptr (vma_backing v)"] f(3) stop(1) host
          by (simp add: b_def inside_def)
        then have bytes: "map Some (block_bytes ((b, stop - pos) # bs)) = map (host_at m) [pos..<e] \<longleftrightarrow>
            map Some (block_bytes bs) = map (host_at m) [stop..<e]" for bs
          using upt_add_eq_append [of pos stop "e - stop"] stop by (simp add: block_bytes_def)
        have all: "(\<forall>a. pos \<le> a \<longrightarrow> a < e \<longrightarrow> host_at m a \<noteq> None) \<longleftrightarrow> (\<forall>a. stop \<le> a \<longrightarrow> a < e \<longrightarrow> host_at m a \<noteq> None)"
          using host stop by (metis linorder_not_less nat_le_linear option.distinct(1) order_trans less_imp_le)
        have "if \<forall>a. stop \<le> a \<longrightarrow> a < e \<longrightarrow> host_at m a \<noteq> None
          then \<exists>bs. backing_blocks_loop stop e (acc @ [(b, stop - pos)]) m = Some (Inr ((acc @ [(b, stop - pos)]) @ bs)) \<and>
            map Some (block_bytes bs) = map (host_at m) [stop..<e]
          else backing_blocks_loop stop e (acc @ [(b, stop - pos)]) m = Some (Inl ResultInvalidAddressState)"
          by (rule less.hyps) (use stop in simp_all)
        then show ?thesis
          unfolding all step by (auto split: if_splits simp: bytes [symmetric])
      qed
    qed
  qed
  then show "(\<forall>a. pos \<le> a \<longrightarrow> a < e \<longrightarrow> host_at m a \<noteq> None) \<Longrightarrow>
      \<exists>bs. backing_blocks_loop pos e acc m = Some (Inr (acc @ bs)) \<and>
        map Some (block_bytes bs) = map (host_at m) [pos..<e]"
    "\<not> (\<forall>a. pos \<le> a \<longrightarrow> a < e \<longrightarrow> host_at m a \<noteq> None) \<Longrightarrow>
      backing_blocks_loop pos e acc m = Some (Inl ResultInvalidAddressState)"
    by (simp_all only: if_True if_False)
qed

section \<open>Sequences of operations\<close>

text \<open>The operations with their arguments, and the change of the view each of them promises.\<close>

datatype vm_op =
  OpMap nat memory_ref nat MemoryState
| OpUnmap nat nat
| OpReprotect nat nat u8
| OpChange nat nat MemoryState u8 MemoryState u8

fun run_vm_op :: "(nat \<Rightarrow> bool) \<Rightarrow> vm_op \<Rightarrow> vm \<Rightarrow> vm option" where
  "run_vm_op cached (OpMap t mem len s) vm = map_option fst (MapBackingMemory cached t mem len s vm)"
| "run_vm_op cached (OpUnmap t len) vm = map_option fst (UnmapRange cached t len vm)"
| "run_vm_op cached (OpReprotect t len p) vm = map_option fst (ReprotectRange cached t len p vm)"
| "run_vm_op cached (OpChange t len es ep ns np) vm = map_option fst (ChangeMemoryState cached t len es ep ns np vm)"

fun run_vm_ops :: "(nat \<Rightarrow> bool) \<Rightarrow> vm_op list \<Rightarrow> vm \<Rightarrow> vm option" where
  "run_vm_ops cached [] vm = Some vm"
| "run_vm_ops cached (op # ops) vm = Option.bind (run_vm_op cached op vm) (run_vm_ops cached ops)"

type_synonym address_view = "nat \<Rightarrow> page_view option"

definition all_free :: "nat \<Rightarrow> nat \<Rightarrow> address_view \<Rightarrow> bool" where
  "all_free t len w \<longleftrightarrow> (\<forall>a. t \<le> a \<and> a < t + len \<longrightarrow> map_option fst (w a) = Some Free)"

definition none_free :: "nat \<Rightarrow> nat \<Rightarrow> address_view \<Rightarrow> bool" where
  "none_free t len w \<longleftrightarrow> (\<forall>a. t \<le> a \<and> a < t + len \<longrightarrow> map_option fst (w a) \<noteq> Some Free)"

definition all_expected :: "nat \<Rightarrow> nat \<Rightarrow> MemoryState \<Rightarrow> u8 \<Rightarrow> address_view \<Rightarrow> bool" where
  "all_expected t len s p w \<longleftrightarrow> (\<forall>a. t \<le> a \<and> a < t + len \<longrightarrow> (\<forall>pv. w a = Some pv \<longrightarrow> page_expected s p pv))"

fun spec_vm_op :: "vm_op \<Rightarrow> address_view \<Rightarrow> address_view" where
  "spec_vm_op (OpMap t mem len s) w = (if all_free t len w then override t len (mapped_page t mem s) w else w)"
| "spec_vm_op (OpUnmap t len) w = (if none_free t len w then changed t len (\<lambda>_. free_page) w else w)"
| "spec_vm_op (OpReprotect t len p) w = (if none_free t len w then changed t len (reprotected p) w else w)"
| "spec_vm_op (OpChange t len es ep ns np) w =
     (if none_free t len w \<and> all_expected t len es ep w then changed t len (with_state ns np) w else w)"

fun vm_op_args :: "(nat \<Rightarrow> nat) \<Rightarrow> vm_op \<Rightarrow> bool" where
  "vm_op_args ext (OpMap t mem len s) \<longleftrightarrow>
     page_aligned t \<and> page_aligned len \<and> 0 < len \<and> t + len < 2 ^ 32 \<and> ref_ok ext mem \<and> len \<le> ref_size mem"
| "vm_op_args ext (OpUnmap t len) \<longleftrightarrow> range_args t len"
| "vm_op_args ext (OpReprotect t len p) \<longleftrightarrow> range_args t len"
| "vm_op_args ext (OpChange t len es ep ns np) \<longleftrightarrow> range_args t len"

lemma range_used_view: "range_used t len m \<longleftrightarrow> none_free t len (view m)"
  by (auto simp: range_used_def none_free_def type_at_def)

lemma range_expected_view: "range_expected t len s p m \<longleftrightarrow> all_expected t len s p (view m)"
  unfolding range_expected_def all_expected_def by blast

lemma holds_view:
  assumes "vm_ok ext vm" "0 < len"
  shows "(\<exists>v \<in> set (vma_map vm). holds t len v) \<longleftrightarrow> all_free t len (view (vma_map vm))"
proof -
  note ok = vm_okD [OF assms(1)]
  note c = map_ok_covers [OF ok(1)]
  show ?thesis
  proof
    assume "\<exists>v \<in> set (vma_map vm). holds t len v"
    then obtain v where v: "v \<in> set (vma_map vm)" "holds t len v" by blast
    have "type_at (vma_map vm) a = Some Free" if "t \<le> a" "a < t + len" for a
      using type_at_member [OF c v(1), of a] v(2) that by (simp add: holds_def inside_def)
    then show "all_free t len (view (vma_map vm))"
      by (simp add: all_free_def type_at_def)
  next
    assume f: "all_free t len (view (vma_map vm))"
    then have ty: "type_at (vma_map vm) a = Some Free" if "t \<le> a" "a < t + len" for a
      using that by (simp add: all_free_def type_at_def)
    have "t + len \<le> MAX_ADDRESS"
    proof (rule ccontr)
      assume "\<not> t + len \<le> MAX_ADDRESS"
      then have "view (vma_map vm) (t + len - 1) = None"
        using assms(2) by (intro view_None_outside [OF c]) auto
      moreover have "t \<le> t + len - 1" "t + len - 1 < t + len"
        using assms(2) by arith+
      ultimately show False
        using ty [of "t + len - 1"] by (simp add: type_at_def)
    qed
    moreover have "t < t + len" using assms(2) by simp
    ultimately obtain xs v ys where "vma_map vm = xs @ v # ys" "inside v t" "t + len \<le> vma_end v" "vma_type v = Free"
      by - (erule (1) free_range_in_area [OF c ok(4,3) _ _ ty]; (assumption | rule that))
    then show "\<exists>v \<in> set (vma_map vm). holds t len v"
      by (auto simp: holds_def inside_def)
  qed
qed

lemma run_vm_op_refines:
  assumes "vm_ok ext vm" "\<not> vm_locked vm" "host_ok ext" "vm_op_args ext op"
  shows "\<exists>vm'. run_vm_op cached op vm = Some vm' \<and> vm_ok ext vm' \<and> \<not> vm_locked vm' \<and>
    view (vma_map vm') = spec_vm_op op (view (vma_map vm))"
proof (cases op)
  case (OpMap t mem len s)
  then have args: "page_aligned t" "page_aligned len" "0 < len" "t + len < 2 ^ 32" "ref_ok ext mem" "len \<le> ref_size mem"
    using assms(4) by simp_all
  note m = MapBackingMemory_spec [OF assms(1-3) args, of cached s, unfolded holds_view [OF assms(1) args(3)]]
  show ?thesis
  proof (cases "all_free t len (view (vma_map vm))")
    case True
    from m(1) [OF this] show ?thesis using True by (auto simp: OpMap)
  next
    case False
    from m(2) [OF this] show ?thesis using False assms(1,2) by (simp add: OpMap)
  qed
next
  case (OpUnmap t len)
  note u = UnmapRange_spec [OF assms(1-3), of t len cached, unfolded range_used_view]
  show ?thesis
    using u assms by (cases "none_free t len (view (vma_map vm))") (auto simp: OpUnmap)
next
  case (OpReprotect t len p)
  note u = ReprotectRange_spec [OF assms(1-3), of t len cached p, unfolded range_used_view]
  show ?thesis
    using u assms by (cases "none_free t len (view (vma_map vm))") (auto simp: OpReprotect)
next
  case (OpChange t len es ep ns np)
  note u = ChangeMemoryState_spec [OF assms(1-3), of t len es ep cached ns np, unfolded range_used_view range_expected_view]
  show ?thesis
    using u assms by (cases "none_free t len (view (vma_map vm)) \<and> all_expected t len es ep (view (vma_map vm))") (auto simp: OpChange)
qed

text \<open>The address space after a reset.\<close>

lemma Reset_spec:
  assumes "\<not> vm_locked vm"
  shows "\<exists>vm'. Reset cached vm = Some vm' \<and> vm_ok ext vm' \<and> \<not> vm_locked vm' \<and>
    view (vma_map vm') = (\<lambda>a. if a < MAX_ADDRESS then Some free_page else None)"
proof -
  let ?v = "\<lparr>vma_base = 0, vma_size = MAX_ADDRESS, vma_type = Free, vma_perms = PermNone,
    vma_state = StFree, vma_backing = null_ref\<rparr>"
  let ?vm = "vm\<lparr>vma_map := [?v], page_tbl := clear_page_table (page_tbl vm)\<rparr>"
  have v: "vma_ok ext ?v" "vma_end ?v \<le> MAX_ADDRESS" "0 < MAX_ADDRESS"
    by (simp_all add: vma_ok_def vma_end_def page_aligned_def MAX_ADDRESS_def CITRA_PAGE_SIZE_def)
  obtain pt where pt: "UpdatePageTableForVMA cached ?v ?vm = Some (?vm\<lparr>page_tbl := pt\<rparr>)"
    "\<And>p. inside ?v (p * CITRA_PAGE_SIZE) \<Longrightarrow> entry_ok (Some (attr ?v (p * CITRA_PAGE_SIZE))) (page_entry pt p)"
    by (rule UpdatePageTableForVMA_spec [OF v(1,2), of cached ?vm]) (rule that, assumption+)
  have view: "view [?v] = (\<lambda>a. if a < MAX_ADDRESS then Some free_page else None)"
    by (simp add: fun_eq_iff view_Cons inside_def vma_end_def attr_def free_page_def)
  have "map_ok ext [?v]" using v by (simp add: map_ok_def)
  moreover have "table_ok [?v] pt"
    unfolding table_ok_def
  proof (intro allI impI)
    fix p assume "p < MAX_ADDRESS div CITRA_PAGE_SIZE"
    then have "inside ?v (p * CITRA_PAGE_SIZE)"
      by (simp add: inside_def vma_end_def MAX_ADDRESS_def CITRA_PAGE_SIZE_def)
    with pt(2) [OF this] show "entry_ok (view [?v] (p * CITRA_PAGE_SIZE)) (page_entry pt p)"
      by (simp add: view_Cons)
  qed
  moreover have "free_plain [?v]"
    unfolding free_plain_def type_at_def view by simp
  ultimately show ?thesis
    using assms pt(1) view by (auto simp: Reset_def Let_def vm_ok_def)
qed

section \<open>The search for a free place\<close>

lemma find_split:
  assumes "List.find P xs = Some x"
  obtains ys zs where "xs = ys @ x # zs" "P x" "\<forall>y \<in> set ys. \<not> P y"
  using assms
proof (induction xs arbitrary: thesis)
  case (Cons a xs)
  show ?case
  proof (cases "P a")
    case True
    with Cons.prems show ?thesis by (intro Cons.prems(1) [of "[]" xs]) auto
  next
    case False
    with Cons.prems(2) have "List.find P xs = Some x" by simp
    from Cons.IH [OF _ this] obtain ys zs where "xs = ys @ x # zs" "P x" "\<forall>y \<in> set ys. \<not> P y" by blast
    with False show ?thesis by (intro Cons.prems(1) [of "a # ys" zs]) auto
  qed
qed simp

lemma MapBackingMemoryToBase_spec:
  assumes vm: "vm_ok ext vm" "\<not> vm_locked vm" and host: "host_ok ext"
    and args: "page_aligned base" "page_aligned len" "0 < len" "base + len < 2 ^ 32" "base + region < 2 ^ 32"
      "len \<le> MAX_ADDRESS" "ref_ok ext mem" "len \<le> ref_size mem"
  shows "case MapBackingMemoryToBase cached base region mem len state vm of
      None \<Rightarrow> \<forall>t \<ge> base. \<not> all_free t len (view (vma_map vm))
    | Some (vm', Inl e) \<Rightarrow> vm' = vm
    | Some (vm', Inr target) \<Rightarrow>
        base \<le> target \<and> target + len \<le> base + region \<and> all_free target len (view (vma_map vm)) \<and>
        (\<forall>t. base \<le> t \<and> t < target \<longrightarrow> \<not> all_free t len (view (vma_map vm))) \<and>
        vm_ok ext vm' \<and> view (vma_map vm') = override target len (mapped_page target mem state) (view (vma_map vm))"
proof -
  note c = map_ok_covers [OF vm_okD(1) [OF vm(1)]]
  define P :: "vma \<Rightarrow> bool" where "P = (\<lambda>v. vma_type v = Free \<and>
      base < add32 (vma_base v) (vma_size v) \<and> add32 base len \<le> add32 (vma_base v) (vma_size v))"
  have P: "P v \<longleftrightarrow> vma_type v = Free \<and> base < vma_end v \<and> base + len \<le> vma_end v" if "v \<in> set (vma_map vm)" for v
    using covers_bounds [OF c that] MAX_small args(4) by (simp add: P_def vma_end_def add32_small)
  have fits: "\<exists>u \<in> set (vma_map vm). P u \<and> vma_base u \<le> t" if "base \<le> t" "all_free t len (view (vma_map vm))" for t
    using that(2) unfolding holds_view [OF vm(1) args(3), symmetric] using that(1) args(3) P by (fastforce simp: holds_def)
  show ?thesis
  proof (cases "List.find P (vma_map vm)")
    case None
    then have "\<forall>t \<ge> base. \<not> all_free t len (view (vma_map vm))"
      using fits by (auto simp: find_None_iff)
    moreover have "MapBackingMemoryToBase cached base region mem len state vm = None"
      using None vm(2) by (simp add: MapBackingMemoryToBase_def Let_def flip: P_def)
    ultimately show ?thesis by simp
  next
    case (Some v)
    then obtain xs ys where m: "vma_map vm = xs @ v # ys" "P v" "\<forall>y \<in> set xs. \<not> P y"
      by (rule find_split)
    let ?t = "max base (vma_base v)"
    have v: "vma_type v = Free" "base < vma_end v" "vma_end v \<le> MAX_ADDRESS" "vma_ok ext v"
      using P [of v] m covers_bounds [OF c, of v] vm_okD(1) [OF vm(1)] by (auto simp: map_ok_def)
    have "vma_base v \<le> vma_base u" if "u \<in> set (v # ys)" for u
    proof -
      have "covers (vma_base v) (v # ys) MAX_ADDRESS"
        using c m(1) by (auto simp: covers_append)
      from covers_bounds [OF this that] show ?thesis by simp
    qed
    then have lowest: "\<not> all_free t len (view (vma_map vm))" if "base \<le> t" "t < ?t" for t
      using fits [OF that(1)] that m by fastforce
    have t: "page_aligned ?t" "?t + len < 2 ^ 32"
      using args(1,4,6) v(3,4) covers_bounds [OF c, of v] m(1)
      by (auto simp: max_def vma_ok_def vma_end_def MAX_ADDRESS_def)
    have a32: "add32 ?t len = ?t + len" "add32 base region = base + region"
      using t(2) args(5) by (simp_all add: add32_small)
    have start: "MapBackingMemoryToBase cached base region mem len state vm =
       (if ?t + len > base + region then Some (vm, Inl ResultOutOfMemory)
        else map_option (\<lambda>(vm, r). (vm, map_sum id (\<lambda>_. ?t) r)) (MapBackingMemory cached ?t mem len state vm))"
      using Some vm(2) a32 by (simp add: MapBackingMemoryToBase_def Let_def map_option_case split: option.splits flip: P_def)
    note mp = MapBackingMemory_spec [OF vm host t(1) args(2,3) t(2) args(7,8), of cached state,
        unfolded holds_view [OF vm(1) args(3)]]
    show ?thesis
    proof (cases "?t + len > base + region")
      case True
      then show ?thesis by (simp add: start)
    next
      case False
      show ?thesis
      proof (cases "all_free ?t len (view (vma_map vm))")
        case True
        from mp(1) [OF this] obtain vm' j where "MapBackingMemory cached ?t mem len state vm = Some (vm', Inr j)"
          "vm_ok ext vm'" "view (vma_map vm') = override ?t len (mapped_page ?t mem state) (view (vma_map vm))"
          by blast
        moreover have "MapBackingMemoryToBase cached base region mem len state vm = Some (vm', Inr ?t)"
          using False calculation(1) by (simp add: start)
        ultimately show ?thesis
          using False True lowest by simp
      next
        case False': False
        show ?thesis using False mp(2) [OF False'] by (simp add: start)
      qed
    qed
  qed
qed

section \<open>Example\<close>

text \<open>One host allocation of 32 KiB at \<open>0x1000\<close>, and the address space after a reset.\<close>

definition demo_host :: "nat \<Rightarrow> nat" where
  "demo_host p = (if 0x1000 \<le> p \<and> p < 0x9000 then 0x9000 - p else 0)"

definition demo_ref :: memory_ref where
  "demo_ref = \<lparr>ref_ptr = 0x1000, ref_size = 0x8000\<rparr>"

definition blank_vm :: vm where
  "blank_vm = \<lparr>vma_map = [], page_tbl = \<lparr>attributes = (\<lambda>_. Unmapped), pointers = (\<lambda>_. null_ref)\<rparr>, vm_locked = False\<rparr>"

definition demo_vm :: vm where
  "demo_vm = the (Reset (\<lambda>_. False) blank_vm)"

definition reset_view :: address_view where
  "reset_view a = (if a < MAX_ADDRESS then Some free_page else None)"

lemma demo_host_ok: "host_ok demo_host"
  by (auto simp: host_ok_def demo_host_def)

lemma demo_vm_ok: "vm_ok demo_host demo_vm" "\<not> vm_locked demo_vm" "view (vma_map demo_vm) = reset_view"
  "Reset (\<lambda>_. False) blank_vm = Some demo_vm"
  using Reset_spec [of blank_vm "\<lambda>_. False" demo_host]
  by (auto simp: demo_vm_def blank_vm_def reset_view_def fun_eq_iff)

lemma demo_args:
  "page_aligned 0x100000" "page_aligned 0x2000" "page_aligned 0x1000" "ref_ok demo_host demo_ref"
  "ref_size demo_ref = 0x8000" "ref_ptr demo_ref = 0x1000"
  "range_args 0x100000 0x2000" "range_args 0x101000 0x1000"
  by (simp_all add: page_aligned_def CITRA_PAGE_SIZE_def ref_ok_def demo_host_def demo_ref_def range_args_def MAX_ADDRESS_def)

lemma demo_free: "t + len \<le> MAX_ADDRESS \<Longrightarrow> all_free t len reset_view"
  by (simp add: all_free_def reset_view_def free_page_def)

section \<open>Properties\<close>

text \<open>C4: Every sequence of mappings, unmappings, reprotections and changes of state, started on the
  address space that a reset makes, returns (no assertion fails), keeps the invariant of the areas and of
  the page table, and changes the view of the address space exactly as the abstract operations do:
  a mapping only where all pages are free, the other operations only where none is.\<close>

theorem vm_ops_refine:
  assumes "host_ok ext" "\<not> vm_locked vm" "list_all (vm_op_args ext) ops"
  shows "\<exists>vm'. Option.bind (Reset cached vm) (run_vm_ops cached ops) = Some vm' \<and> vm_ok ext vm' \<and>
    view (vma_map vm') = fold spec_vm_op ops reset_view"
proof -
  have run: "\<exists>vm'. run_vm_ops cached ops vm = Some vm' \<and> vm_ok ext vm' \<and>
      view (vma_map vm') = fold spec_vm_op ops (view (vma_map vm))"
    if "vm_ok ext vm" "\<not> vm_locked vm" for vm
    using assms(3) that
  proof (induction ops arbitrary: vm)
    case (Cons op ops)
    then obtain vm1 where "run_vm_op cached op vm = Some vm1" "vm_ok ext vm1" "\<not> vm_locked vm1"
      "view (vma_map vm1) = spec_vm_op op (view (vma_map vm))"
      using run_vm_op_refines [OF Cons.prems(2,3) assms(1), of op cached] by auto
    with Cons.IH [of vm1] Cons.prems(1) show ?case by simp
  qed simp
  from Reset_spec [OF assms(2), of cached ext] obtain vm0 where "Reset cached vm = Some vm0" "vm_ok ext vm0"
    "\<not> vm_locked vm0" "view (vma_map vm0) = reset_view"
    unfolding reset_view_def by blast
  with run [of vm0] show ?thesis by simp
qed

theorem vm_ops_refine_witness:
  "\<exists>vm'. Option.bind (Reset (\<lambda>_. False) blank_vm) (run_vm_ops (\<lambda>_. False)
      [OpMap 0x100000 demo_ref 0x2000 StPrivate, OpReprotect 0x101000 0x1000 PermRead, OpUnmap 0x100000 0x1000]) = Some vm' \<and>
    view (vma_map vm') 0x100004 = Some free_page \<and>
    view (vma_map vm') 0x101004 = Some (BackingMemory, PermRead, StPrivate, 0x2004)"
proof -
  let ?ops = "[OpMap 0x100000 demo_ref 0x2000 StPrivate, OpReprotect 0x101000 0x1000 PermRead, OpUnmap 0x100000 0x1000]"
  have "list_all (vm_op_args demo_host) ?ops"
    by (simp add: demo_args range_args_def) (simp add: page_aligned_def CITRA_PAGE_SIZE_def MAX_ADDRESS_def)
  moreover have "fold spec_vm_op ?ops reset_view 0x100004 = Some free_page \<and>
      fold spec_vm_op ?ops reset_view 0x101004 = Some (BackingMemory, PermRead, StPrivate, 0x2004)"
    by (simp add: demo_free none_free_def all_free_def changed_def override_def mapped_page_def reprotected_def
        free_page_def reset_view_def MAX_ADDRESS_def demo_args)
  ultimately show ?thesis
    using vm_ops_refine [OF demo_host_ok, of blank_vm ?ops "\<lambda>_. False"] by (auto simp: blank_vm_def)
qed

text \<open>C22: Mapping a block and unmapping the same range again gives back the view of the address space.\<close>

theorem map_then_unmap:
  assumes "vm_ok ext vm" "\<not> vm_locked vm" "host_ok ext" "ref_ok ext mem" "len \<le> ref_size mem"
    and "range_args t len" "all_free t len (view (vma_map vm))"
  shows "\<exists>vm1 j vm2. MapBackingMemory cached t mem len state vm = Some (vm1, Inr j) \<and>
    UnmapRange cached t len vm1 = Some (vm2, ResultSuccess) \<and> vm_ok ext vm2 \<and> view (vma_map vm2) = view (vma_map vm)"
proof -
  note a = range_argsD [OF assms(6)]
  have lt: "t + len < 2 ^ 32" using a(4) MAX_small by simp
  obtain vm1 j where m: "MapBackingMemory cached t mem len state vm = Some (vm1, Inr j)" "vm_ok ext vm1" "\<not> vm_locked vm1"
    "view (vma_map vm1) = override t len (mapped_page t mem state) (view (vma_map vm))"
    using MapBackingMemory_spec(1) [OF assms(1-3) a(1-3) lt assms(4,5), of cached state]
    unfolding holds_view [OF assms(1) a(3)] using assms(7) by blast
  have "none_free t len (view (vma_map vm1))"
    by (simp add: none_free_def m(4) override_def mapped_page_def)
  then obtain vm2 where u: "UnmapRange cached t len vm1 = Some (vm2, ResultSuccess)" "vm_ok ext vm2"
    "view (vma_map vm2) = changed t len (\<lambda>_. free_page) (view (vma_map vm1))"
    using UnmapRange_spec(1) [OF m(2,3) assms(3,6), of cached] unfolding range_used_view by blast
  have "view (vma_map vm) a = Some free_page" if "t \<le> a" "a < t + len" for a
    using vm_okD(3) [OF assms(1)] assms(7) that by (simp add: free_plain_def all_free_def type_at_def)
  then have "view (vma_map vm2) = view (vma_map vm)"
    by (simp add: u(3) m(4) fun_eq_iff changed_def override_def)
  with m(1) u(1,2) show ?thesis by blast
qed

theorem map_then_unmap_witness:
  "\<exists>vm1 j vm2. MapBackingMemory (\<lambda>_. False) 0x100000 demo_ref 0x2000 StPrivate demo_vm = Some (vm1, Inr j) \<and>
    UnmapRange (\<lambda>_. False) 0x100000 0x2000 vm1 = Some (vm2, ResultSuccess) \<and> view (vma_map vm2) 0x100000 = Some free_page"
  using map_then_unmap [OF demo_vm_ok(1,2) demo_host_ok demo_args(4) _ demo_args(7), where cached = "\<lambda>_. False" and state = StPrivate]
    demo_free [of "0x100000" "0x2000"]
  by (fastforce simp: demo_vm_ok(3) demo_args(5) reset_view_def MAX_ADDRESS_def)

text \<open>A change of the state of a range is all or nothing: it succeeds exactly when no page of the
  range is free and every page has the expected state and at least the expected permissions, and then every
  page of the range has the new state and the new permissions; otherwise it is refused with
  \<open>ResultInvalidAddressState\<close> and the address space is as before.\<close>

lemma ChangeMemoryState_all_or_nothing:
  assumes "vm_ok ext vm" "\<not> vm_locked vm" "host_ok ext" "range_args t len"
  shows "if none_free t len (view (vma_map vm)) \<and> all_expected t len es ep (view (vma_map vm))
    then \<exists>vm'. ChangeMemoryState cached t len es ep ns np vm = Some (vm', ResultSuccess) \<and> vm_ok ext vm' \<and>
        view (vma_map vm') = changed t len (with_state ns np) (view (vma_map vm))
    else ChangeMemoryState cached t len es ep ns np vm = Some (vm, ResultInvalidAddressState)"
  using ChangeMemoryState_spec [OF assms, of es ep cached ns np] unfolding range_used_view range_expected_view
  by (simp only: split: if_split) blast

lemma ChangeMemoryState_all_or_nothing_witness:
  "ChangeMemoryState (\<lambda>_. False) 0x100000 0x2000 StPrivate PermRead StAliased PermNone demo_vm =
     Some (demo_vm, ResultInvalidAddressState)"
proof -
  have "\<not> none_free 0x100000 0x2000 reset_view"
    by (auto simp: none_free_def reset_view_def free_page_def MAX_ADDRESS_def intro!: exI [of _ "0x100000"])
  then show ?thesis
    using ChangeMemoryState_all_or_nothing [OF demo_vm_ok(1,2) demo_host_ok demo_args(7),
        of StPrivate PermRead "\<lambda>_. False" StAliased PermNone]
    by (simp add: demo_vm_ok(3))
qed

text \<open>The search for a free place in a region maps the block at the lowest address of the region
  from its base on where it fits: a place it returns was free, lies in the region, holds the block
  afterwards, and no lower address would do; an error leaves the address space as it was.\<close>

lemma MapBackingMemoryToBase_lowest:
  assumes "vm_ok ext vm" "\<not> vm_locked vm" "host_ok ext" "page_aligned base" "page_aligned len" "0 < len"
    "base + len < 2 ^ 32" "base + region < 2 ^ 32" "len \<le> MAX_ADDRESS" "ref_ok ext mem" "len \<le> ref_size mem"
  shows "case MapBackingMemoryToBase cached base region mem len state vm of
      None \<Rightarrow> \<forall>t \<ge> base. \<not> all_free t len (view (vma_map vm))
    | Some (vm', Inl e) \<Rightarrow> vm' = vm
    | Some (vm', Inr target) \<Rightarrow>
        base \<le> target \<and> target + len \<le> base + region \<and> all_free target len (view (vma_map vm)) \<and>
        (\<forall>t. base \<le> t \<and> t < target \<longrightarrow> \<not> all_free t len (view (vma_map vm))) \<and>
        vm_ok ext vm' \<and> view (vma_map vm') = override target len (mapped_page target mem state) (view (vma_map vm))"
  by (rule MapBackingMemoryToBase_spec [OF assms])

lemma MapBackingMemoryToBase_lowest_witness:
  "case MapBackingMemoryToBase (\<lambda>_. False) 0x100000 0x10000 demo_ref 0x2000 StPrivate demo_vm of
     None \<Rightarrow> False | Some (vm', Inl e) \<Rightarrow> vm' = demo_vm | Some (vm', Inr target) \<Rightarrow> target = 0x100000"
proof -
  have a: "all_free t 0x2000 reset_view \<longleftrightarrow> t + 0x2000 \<le> MAX_ADDRESS" for t
  proof
    assume "all_free t 0x2000 reset_view"
    then have "map_option fst (reset_view (t + 0x1FFF)) = Some Free" by (simp add: all_free_def)
    then show "t + 0x2000 \<le> MAX_ADDRESS" by (auto simp: reset_view_def split: if_splits)
  qed (simp add: demo_free)
  have "case MapBackingMemoryToBase (\<lambda>_. False) 0x100000 0x10000 demo_ref 0x2000 StPrivate demo_vm of
      None \<Rightarrow> \<forall>t \<ge> 0x100000. \<not> all_free t 0x2000 reset_view
    | Some (vm', Inl e) \<Rightarrow> vm' = demo_vm
    | Some (vm', Inr target) \<Rightarrow>
        0x100000 \<le> target \<and> target + 0x2000 \<le> 0x100000 + 0x10000 \<and> all_free target 0x2000 reset_view \<and>
        (\<forall>t. 0x100000 \<le> t \<and> t < target \<longrightarrow> \<not> all_free t 0x2000 reset_view) \<and>
        vm_ok demo_host vm' \<and> view (vma_map vm') = override target 0x2000 (mapped_page target demo_ref StPrivate) reset_view"
    using MapBackingMemoryToBase_lowest [OF demo_vm_ok(1,2) demo_host_ok demo_args(1,2) _ _ _ _ demo_args(4),
        where region = "0x10000" and cached = "\<lambda>_. False" and state = StPrivate]
    unfolding demo_vm_ok(3) by (simp add: demo_args(5) MAX_ADDRESS_def)
  moreover have "target = 0x100000" if "\<forall>t < target. \<not> 0x100000 \<le> t" "0x100000 \<le> target" for target :: nat
    using that(1) [THEN spec, of "0x100000"] that(2) by simp
  moreover have "\<not> (\<forall>t \<ge> 0x100000. \<not> t + 0x2000 \<le> MAX_ADDRESS)"
    by (intro notI) (drule spec [of _ "0x100000"], simp add: MAX_ADDRESS_def)
  ultimately show ?thesis
    unfolding a by (auto split: option.splits sum.splits)
qed

text \<open>The search for the host blocks behind a range ends; it is refused exactly when some page of the
  range is not backed, and otherwise the blocks, one after the other, are the host addresses of the
  range byte by byte.\<close>

lemma GetBackingBlocksForRange_blocks:
  assumes "vm_ok ext vm" "a + len \<le> MAX_ADDRESS"
  shows "case GetBackingBlocksForRange a len vm of
      None \<Rightarrow> False
    | Some (Inl e) \<Rightarrow> e = ResultInvalidAddressState \<and> (\<exists>x. a \<le> x \<and> x < a + len \<and> host_at (vma_map vm) x = None)
    | Some (Inr blocks) \<Rightarrow> map Some (block_bytes blocks) = map (host_at (vma_map vm)) [a..<a + len]"
proof -
  have e: "add32 a len = a + len"
    using assms(2) MAX_small by (simp add: add32_small)
  note b = backing_blocks_loop_spec [OF vm_okD(1) [OF assms(1)], of a "a + len" "[]"]
  show ?thesis
  proof (cases "\<forall>x. a \<le> x \<longrightarrow> x < a + len \<longrightarrow> host_at (vma_map vm) x \<noteq> None")
    case True
    with b(1) assms(2) show ?thesis by (auto simp: GetBackingBlocksForRange_def e)
  next
    case False
    then have "\<exists>x. a \<le> x \<and> x < a + len \<and> host_at (vma_map vm) x = None" by (simp only: not_all not_imp not_not)
    moreover have "backing_blocks_loop a (a + len) [] (vma_map vm) = Some (Inl ResultInvalidAddressState)"
      by (rule b(2) [OF _ assms(2) False]) simp
    ultimately show ?thesis by (simp add: GetBackingBlocksForRange_def e)
  qed
qed

lemma GetBackingBlocksForRange_blocks_witness:
  "GetBackingBlocksForRange 0x100000 0x10 demo_vm = Some (Inl ResultInvalidAddressState)"
proof -
  have n: "host_at (vma_map demo_vm) x = None" for x
    by (simp add: host_at_def demo_vm_ok(3) reset_view_def free_page_def)
  show ?thesis
    using GetBackingBlocksForRange_blocks [OF demo_vm_ok(1), where a = "0x100000" and len = "0x10"]
    by (auto simp: n MAX_ADDRESS_def split: option.splits sum.splits)
qed

text \<open>
  \<open>vm_manager.h\<close> asks that mergeable neighbours are always merged. \<open>merged_map\<close> says so; the example
  has three pages in one host block, the last two of them read-only.
\<close>

definition merged_map :: "vma list \<Rightarrow> bool" where
  "merged_map = successively (\<lambda>v w. \<not> same_attr v w)"

definition demo_area :: "nat \<Rightarrow> nat \<Rightarrow> u8 \<Rightarrow> vma" where
  "demo_area base len p = \<lparr>vma_base = base, vma_size = len, vma_type = BackingMemory, vma_perms = p,
     vma_state = StPrivate, vma_backing = \<lparr>ref_ptr = 0x1000 + base, ref_size = 0x8000 - base\<rparr>\<rparr>"

definition demo_rest :: vma where
  "demo_rest = \<lparr>vma_base = 0x3000, vma_size = 0x3FFFD000, vma_type = Free, vma_perms = PermNone,
     vma_state = StFree, vma_backing = null_ref\<rparr>"

definition demo_three :: "vm" where
  "demo_three = blank_vm\<lparr>vma_map := [demo_area 0 0x1000 PermReadWrite, demo_area 0x1000 0x2000 PermRead, demo_rest]\<rparr>"

text \<open>Changing the permissions of a range can leave two neighbouring areas that could be merged:
  when the last area of the range is cut and its front part is swallowed by the area before it, the rest is
  never compared with the merged area.\<close>

lemma ReprotectRange_leaves_mergeable:
  "map_ok demo_host (vma_map demo_three) \<and> merged_map (vma_map demo_three) \<and>
   map_option (\<lambda>(vm, r). (vma_map vm, r)) (ReprotectRange (\<lambda>_. False) 0 0x2000 PermRead demo_three) =
     Some ([demo_area 0 0x2000 PermRead, demo_area 0x2000 0x1000 PermRead, demo_rest], ResultSuccess) \<and>
   \<not> merged_map [demo_area 0 0x2000 PermRead, demo_area 0x2000 0x1000 PermRead, demo_rest]"
  by (simp add: merged_map_def same_attr_def map_ok_def vma_ok_def ref_ok_def demo_host_def demo_rest_def demo_three_def demo_area_def blank_vm_def PermReadWrite_def PermRead_def
      ReprotectRange_def CarveVMARange_def FindVMA_def upper_bound_def lower_bound_def MAX_ADDRESS_def add32_def
      page_aligned_def CITRA_PAGE_SIZE_def SplitVMA_def ref_add_def CanBeMergedWith_def for_range.simps Reprotect_def
      modify_vma_def UpdatePageTableForVMA_def MapMemoryRegion_def map_region_def map_page_def MergeAdjacent_def
      merge_next_def merge_prev_def PAGE_TABLE_NUM_ENTRIES_def Let_def)

text \<open>
  A map whose first free area behind the base, at \<open>0x2000\<close>, is one page: a block of two pages does not
  go there, but would go behind the second used area.
\<close>

definition demo_hole :: "vm" where
  "demo_hole = blank_vm\<lparr>vma_map := [demo_area 0 0x2000 PermReadWrite,
     demo_rest\<lparr>vma_base := 0x2000, vma_size := 0x1000\<rparr>, demo_area 0x3000 0x1000 PermRead,
     demo_rest\<lparr>vma_base := 0x4000, vma_size := 0x3FFFC000\<rparr>]\<rparr>"

text \<open>The search for a free place stops at the first free area that ends behind the wanted
  block laid at the base, even where that area is too small from its own start on: it fails with
  \<open>ResultInvalidAddressState\<close> although the region has room further up.\<close>

lemma MapBackingMemoryToBase_misses_room:
  "map_ok demo_host (vma_map demo_hole) \<and> holds 0x4000 0x2000 (vma_map demo_hole ! 3) \<and>
   MapBackingMemoryToBase (\<lambda>_. False) 0x1000 0x100000 demo_ref 0x2000 StPrivate demo_hole =
     Some (demo_hole, Inl ResultInvalidAddressState)"
  by (simp add: map_ok_def vma_ok_def ref_ok_def demo_host_def demo_rest_def demo_hole_def demo_area_def blank_vm_def
      demo_ref_def null_ref_def holds_def vma_end_def MapBackingMemoryToBase_def MapBackingMemory_def CarveVMA_def
      FindVMA_def upper_bound_def MAX_ADDRESS_def add32_def page_aligned_def CITRA_PAGE_SIZE_def Let_def)

end
