(* ===== verification/Process_Props.thy ===== *)
theory Process_Props
  imports Process_Memory Region_Props Address_Space
begin

text \<open>
  The memory of a process across its parts: what a heap allocation maps and accounts for, what the end
  of a process gives back, the slots of thread-local storage, and a defect of the reprotection.
\<close>

section \<open>Reprotecting one area\<close>

lemma Reprotect_spec:
  assumes "vm_ok ext vm" "\<not> vm_locked vm" "host_ok ext" "j < length (vma_map vm)" "vma_type (vma_map vm ! j) = BackingMemory"
  shows "\<exists>vm' k. Reprotect cached p j vm = Some (vm', k) \<and> vm_ok ext vm' \<and> \<not> vm_locked vm' \<and>
    (\<forall>a. view (vma_map vm') a = (if inside (vma_map vm ! j) a then map_option (reprotected p) (view (vma_map vm) a)
       else view (vma_map vm) a))"
proof -
  note ok = vm_okD [OF assms(1)]
  define v where "v = vma_map vm ! j"
  define xs where "xs = take j (vma_map vm)"
  define ys where "ys = drop (Suc j) (vma_map vm)"
  have m: "vma_map vm = xs @ v # ys" "length xs = j"
    using assms(4) by (simp_all add: xs_def ys_def v_def id_take_nth_drop [symmetric])
  define f :: "vma \<Rightarrow> vma" where "f = (\<lambda>v. v\<lparr>vma_perms := p\<rparr>)"
  have okm: "map_ok ext (xs @ v # ys)" "table_ok (xs @ v # ys) (page_tbl vm)" "canonical (xs @ v # ys)"
    using ok m by simp_all
  have fv: "vma_base (f v) = vma_base v" "vma_size (f v) = vma_size v" "vma_ok ext (f v)"
    using okm(1) by (auto simp: f_def map_ok_def vma_ok_def)
  obtain xs' w ys' pt where s:
    "modify_vma cached f (length xs) vm = Some (vm\<lparr>page_tbl := pt, vma_map := xs' @ w # ys'\<rparr>, length xs')"
    "map_ok ext (xs' @ w # ys')" "table_ok (xs' @ w # ys') pt"
    "\<And>a. view (xs' @ w # ys') a = (if inside v a then Some (attr (f v) a) else view (xs @ v # ys) a)"
    "vma_base w \<le> vma_base v" "canonical xs \<Longrightarrow> canonical (xs' @ [w])"
    "vma_end w = vma_end v \<and> ys' = ys \<and> (ys \<noteq> [] \<longrightarrow> \<not> same_attr w (hd ys)) \<or>
     (\<exists>y. ys = y # ys' \<and> vma_end w = vma_end y \<and> vma_base y = vma_end v \<and> same_attr (f v) y \<and>
        (\<forall>u. same_attr w u = same_attr y u))"
    by (rule modify_vma_spec [where f = f and cached = cached and xs = xs and v = v and ys = ys and vm = vm,
          OF okm(1) assms(3) okm(2) m(1) fv]) (rule that, assumption+)
  have view: "view (xs' @ w # ys') a = (if inside v a then map_option (reprotected p) (view (vma_map vm) a)
       else view (vma_map vm) a)" for a
    using view_member [OF map_ok_covers [OF ok(1)], of v a] m(1)
    by (simp add: s(4) f_def attr_def reprotected_def)
  have "free_plain (xs' @ w # ys')"
    unfolding free_plain_def
  proof (intro allI impI)
    fix a assume a: "type_at (xs' @ w # ys') a = Some Free"
    have "\<not> inside v a"
      using a assms(5) [folded v_def] view_member [OF map_ok_covers [OF ok(1)], of v a] m(1)
      by (auto simp: type_at_def view attr_def reprotected_def)
    with a ok(3) show "view (xs' @ w # ys') a = Some free_page"
      by (simp add: view free_plain_def type_at_def)
  qed
  moreover have "canonical (xs' @ w # ys')"
  proof (rule canonical_merged [OF s(6) _ s(7)])
    show "canonical xs" "canonical ys"
      using okm(3) by (auto simp: successively_append_iff successively_Cons)
  qed
  ultimately have "vm_ok ext (vm\<lparr>page_tbl := pt, vma_map := xs' @ w # ys'\<rparr>)"
    using s(2,3) by (simp add: vm_ok_def)
  moreover have "Reprotect cached p j vm = Some (vm\<lparr>page_tbl := pt, vma_map := xs' @ w # ys'\<rparr>, length xs')"
    using s(1) assms(2) m(2) by (simp add: Reprotect_def f_def)
  ultimately show ?thesis
    using view assms(2) by (intro exI conjI) (assumption+, auto simp: v_def)
qed

section \<open>Mapping blocks\<close>

definition blocks_len :: "(memory_ref \<times> nat) list \<Rightarrow> nat" where
  "blocks_len bs = sum_list (map snd bs)"

lemma length_block_bytes: "length (block_bytes bs) = blocks_len bs"
  by (induction bs) (auto simp: block_bytes_def blocks_len_def)

text \<open>A page keeps what it is, up to a reprotection with the given permissions.\<close>

definition maybe_reprotected :: "u8 \<Rightarrow> page_view option \<Rightarrow> page_view option \<Rightarrow> bool" where
  "maybe_reprotected p w w' \<longleftrightarrow> w' = w \<or> w' = map_option (reprotected p) w"

lemma maybe_reprotected_type: "maybe_reprotected p w w' \<Longrightarrow> map_option fst w' = map_option fst w"
  by (cases w) (auto simp: maybe_reprotected_def reprotected_def split: prod.splits)

lemma reprotected_idem: "reprotected p (reprotected p pv) = reprotected p pv"
  by (simp add: reprotected_def split: prod.splits)

lemma maybe_reprotected_trans:
  "maybe_reprotected p u v \<Longrightarrow> maybe_reprotected p v w \<Longrightarrow> maybe_reprotected p u w"
  by (auto simp: maybe_reprotected_def option.map_comp comp_def reprotected_idem)

lemma maybe_reprotected_done:
  "maybe_reprotected p (Some (ty, p, s, q)) w \<Longrightarrow> w = Some (ty, p, s, q)"
  by (auto simp: maybe_reprotected_def reprotected_def)

lemma map_blocks_spec:
  assumes "vm_ok ext vm" "\<not> vm_locked vm" "host_ok ext"
    and "\<forall>(b, n) \<in> set bs. ref_ok ext b \<and> n \<le> ref_size b \<and> page_aligned n \<and> 0 < n"
    and "page_aligned t" "all_free t (blocks_len bs) (view (vma_map vm))" "t + blocks_len bs < 2 ^ 32"
  shows "\<exists>vm'. map_blocks cached state p bs t vm = Some vm' \<and> vm_ok ext vm' \<and> \<not> vm_locked vm' \<and>
    (\<forall>a. t \<le> a \<and> a < t + blocks_len bs \<longrightarrow>
       view (vma_map vm') a = Some (BackingMemory, p, state, block_bytes bs ! (a - t))) \<and>
    (\<forall>a. \<not> (t \<le> a \<and> a < t + blocks_len bs) \<longrightarrow> maybe_reprotected p (view (vma_map vm) a) (view (vma_map vm') a))"
  using assms
proof (induction bs arbitrary: t vm)
  case Nil
  then show ?case by (auto simp: blocks_len_def maybe_reprotected_def)
next
  case (Cons bn bs)
  obtain b n where bn: "bn = (b, n)" by force
  let ?w = "view (vma_map vm)" and ?L = "blocks_len bs"
  have L: "blocks_len (bn # bs) = n + ?L" by (simp add: bn blocks_len_def)
  have b: "ref_ok ext b" "n \<le> ref_size b" "page_aligned n" "0 < n"
    using Cons.prems(4) bn by simp_all
  have f: "all_free t n ?w" "all_free (t + n) ?L ?w"
    using Cons.prems(6) by (auto simp: all_free_def L)
  have tn: "t + n < 2 ^ 32" using Cons.prems(7) by (simp add: L)
  obtain vm1 j where m: "MapBackingMemory cached t b n state vm = Some (vm1, Inr j)" "vm_ok ext vm1" "\<not> vm_locked vm1"
    "view (vma_map vm1) = override t n (mapped_page t b state) ?w" "j < length (vma_map vm1)"
    "\<forall>a. t \<le> a \<and> a < t + n \<longrightarrow> inside (vma_map vm1 ! j) a"
    using MapBackingMemory_spec(1) [OF Cons.prems(1-3,5) b(3,4) tn b(1,2), of cached state]
    unfolding holds_view [OF Cons.prems(1) b(4)] using f(1) by blast
  have "vma_type (vma_map vm1 ! j) = BackingMemory"
    using m(4-6) b(4) view_member [OF map_ok_covers [OF vm_okD(1) [OF m(2)]], of "vma_map vm1 ! j" t]
    by (simp add: override_def mapped_page_def attr_def)
  from Reprotect_spec [OF m(2,3) Cons.prems(3) m(5) this, of cached p] obtain vm2 k where
    r: "Reprotect cached p j vm1 = Some (vm2, k)" "vm_ok ext vm2" "\<not> vm_locked vm2"
    "\<And>a. view (vma_map vm2) a = (if inside (vma_map vm1 ! j) a then map_option (reprotected p) (view (vma_map vm1) a)
       else view (vma_map vm1) a)"
    by blast
  have here: "view (vma_map vm2) a = Some (BackingMemory, p, state, ref_ptr b + (a - t))" if "t \<le> a" "a < t + n" for a
    using m(4,6) that by (simp add: r(4) override_def mapped_page_def reprotected_def)
  have there: "maybe_reprotected p (?w a) (view (vma_map vm2) a)" if "\<not> (t \<le> a \<and> a < t + n)" for a
    using that by (auto simp: r(4) m(4) override_def maybe_reprotected_def)
  have "all_free (t + n) ?L (view (vma_map vm2))"
    using f(2) maybe_reprotected_type [OF there] by (simp add: all_free_def)
  moreover have "page_aligned (t + n)" using Cons.prems(5) b(3) by (simp add: page_aligned_add)
  moreover have "\<forall>(b, n) \<in> set bs. ref_ok ext b \<and> n \<le> ref_size b \<and> page_aligned n \<and> 0 < n" "t + n + ?L < 2 ^ 32"
    using Cons.prems(4,7) by (simp_all add: L)
  ultimately have "\<exists>vm'. map_blocks cached state p bs (t + n) vm2 = Some vm' \<and> vm_ok ext vm' \<and> \<not> vm_locked vm' \<and>
    (\<forall>a. t + n \<le> a \<and> a < t + n + ?L \<longrightarrow>
       view (vma_map vm') a = Some (BackingMemory, p, state, block_bytes bs ! (a - (t + n)))) \<and>
    (\<forall>a. \<not> (t + n \<le> a \<and> a < t + n + ?L) \<longrightarrow> maybe_reprotected p (view (vma_map vm2) a) (view (vma_map vm') a))"
    using Cons.IH [OF r(2,3) Cons.prems(3)] by blast
  then obtain vm' where v: "map_blocks cached state p bs (t + n) vm2 = Some vm'" "vm_ok ext vm'" "\<not> vm_locked vm'"
    "\<And>a. t + n \<le> a \<Longrightarrow> a < t + n + ?L \<Longrightarrow> view (vma_map vm') a = Some (BackingMemory, p, state, block_bytes bs ! (a - (t + n)))"
    "\<And>a. \<not> (t + n \<le> a \<and> a < t + n + ?L) \<Longrightarrow> maybe_reprotected p (view (vma_map vm2) a) (view (vma_map vm') a)"
    by blast
  have bytes: "block_bytes (bn # bs) = [ref_ptr b..<ref_ptr b + n] @ block_bytes bs"
    by (simp add: bn block_bytes_def)
  have "view (vma_map vm') a = Some (BackingMemory, p, state, block_bytes (bn # bs) ! (a - t))"
    if a: "t \<le> a" "a < t + (n + ?L)" for a
  proof (cases "a < t + n")
    case True
    then have "view (vma_map vm') a = Some (BackingMemory, p, state, ref_ptr b + (a - t))"
      using v(5) [of a] here [OF a(1) True] by (auto dest: maybe_reprotected_done)
    moreover have "a - t < n" using True a(1) by simp
    ultimately show ?thesis by (simp add: bytes nth_append)
  next
    case False
    then have "\<not> a - t < n" "a - t - n = a - (t + n)" using a(1) by auto
    with False v(4) [of a] a show ?thesis by (simp add: bytes nth_append)
  qed
  moreover have "maybe_reprotected p (?w a) (view (vma_map vm') a)" if "\<not> (t \<le> a \<and> a < t + (n + ?L))" for a
    using maybe_reprotected_trans [OF there v(5), of a] that by auto
  moreover have "map_blocks cached state p (bn # bs) t vm = Some vm'"
    using m(1) r(1) v(1) tn by (simp add: bn add32_small)
  ultimately show ?case
    using v(2,3) unfolding L by blast
qed

section \<open>Blocks of FCRAM\<close>

definition iv_list :: "intervals \<Rightarrow> nat list" where
  "iv_list xs = concat (map (\<lambda>(l, u). [l..<u]) xs)"

lemma iv_list_sorted:
  assumes "iv_wf lo xs"
  shows "iv_list xs = sorted_list_of_set (iv_points xs)"
proof -
  have "sorted (iv_list xs) \<and> distinct (iv_list xs) \<and> set (iv_list xs) = iv_points xs"
    using assms
  proof (induction lo xs rule: iv_wf.induct)
    case (2 lo c d xs)
    have far: "Suc d \<le> x" if "x \<in> iv_points xs" for x
      using 2(2) iv_wf_bound [of "Suc d" xs x] that by simp
    from 2 have IH: "sorted (iv_list xs)" "distinct (iv_list xs)" "set (iv_list xs) = iv_points xs" by simp_all
    have l: "iv_list ((c, d) # xs) = [c..<d] @ iv_list xs" by (simp add: iv_list_def)
    show ?case
      unfolding l using IH far by (fastforce simp: sorted_append)
  qed (simp add: iv_list_def)
  then show ?thesis
    using sorted_list_of_set.idem_if_sorted_distinct [of "iv_list xs"] by simp
qed

lemma iv_list_length: "length (iv_list xs) = sum_list (map (\<lambda>(l, u). u - l) xs)"
  by (induction xs) (auto simp: iv_list_def)

lemma iv_card:
  "iv_wf lo xs \<Longrightarrow> sum_list (map (\<lambda>(l, u). u - l) xs) = card (iv_points xs)"
  using iv_list_sorted [of lo xs] by (simp flip: iv_list_length)

definition iv_aligned :: "intervals \<Rightarrow> bool" where
  "iv_aligned xs \<longleftrightarrow> (\<forall>(l, u) \<in> set xs. page_aligned l \<and> page_aligned u)"

lemma iv_aligned_Cons: "iv_aligned ((l, u) # xs) \<longleftrightarrow> page_aligned l \<and> page_aligned u \<and> iv_aligned xs"
  by (simp add: iv_aligned_def)

lemma iv_aligned_add: "iv_aligned xs \<Longrightarrow> page_aligned a \<Longrightarrow> page_aligned b \<Longrightarrow> iv_aligned (iv_add (a, b) xs)"
proof -
  have "iv_aligned (iv_join (a, b) xs)" if "iv_aligned xs" "page_aligned a" "page_aligned b"
    using that
  proof (induction xs arbitrary: a b)
    case (Cons x xs)
    then show ?case by (cases x) (auto simp: iv_aligned_Cons min_def max_def)
  qed (simp add: iv_aligned_def)
  then show "iv_aligned xs \<Longrightarrow> page_aligned a \<Longrightarrow> page_aligned b \<Longrightarrow> iv_aligned (iv_add (a, b) xs)"
    by (simp add: iv_add_def)
qed

lemma iv_aligned_sub: "iv_aligned xs \<Longrightarrow> page_aligned a \<Longrightarrow> page_aligned b \<Longrightarrow> iv_aligned (iv_sub (a, b) xs)"
proof -
  have "iv_aligned (iv_cut (a, b) xs)" if "iv_aligned xs" "page_aligned a" "page_aligned b"
    using that
  proof (induction xs)
    case (Cons x xs)
    then show ?case by (cases x) (auto simp: iv_aligned_Cons min_def max_def)
  qed simp
  then show "iv_aligned xs \<Longrightarrow> page_aligned a \<Longrightarrow> page_aligned b \<Longrightarrow> iv_aligned (iv_sub (a, b) xs)"
    by (simp add: iv_sub_def)
qed

lemma iv_aligned_sub_all: "iv_aligned ys \<Longrightarrow> iv_aligned xs \<Longrightarrow> iv_aligned (iv_sub_all ys xs)"
proof (induction ys arbitrary: xs)
  case (Cons y ys)
  then show ?case by (cases y) (simp add: iv_sub_all_def iv_aligned_Cons iv_aligned_sub)
qed (simp add: iv_sub_all_def)

lemma heap_loop_aligned:
  "iv_aligned blocks \<Longrightarrow> iv_aligned acc \<Longrightarrow> page_aligned rest \<Longrightarrow> iv_aligned (snd (heap_loop rest blocks acc))"
proof (induction blocks arbitrary: rest acc)
  case (Cons x blocks)
  obtain l u where x: "x = (l, u)" by force
  with Cons show ?case
    by (auto simp: iv_aligned_Cons intro!: iv_aligned_add Cons.IH page_aligned_diff)
qed simp

lemma region_HeapAllocate_aligned:
  assumes "region_HeapAllocate len r = Some (r', res)" "iv_aligned (free_blocks r)" "page_aligned len"
  shows "iv_aligned res" "iv_aligned (free_blocks r')"
proof -
  obtain rest result where h: "heap_loop len (rev (free_blocks r)) [] = (rest, result)" by force
  have "iv_aligned (rev (free_blocks r))" "iv_aligned []"
    using assms(2) by (simp_all add: iv_aligned_def)
  from heap_loop_aligned [OF this assms(3)] h have "iv_aligned result" by simp
  with assms(1,2) h show "iv_aligned res" "iv_aligned (free_blocks r')"
    by (auto simp: region_HeapAllocate_def Let_def assertion_def iv_aligned_sub_all iv_aligned_def [of "[]"] split: if_splits)
qed

text \<open>The host memory behind FCRAM.\<close>

definition fcram_host :: "nat \<Rightarrow> (nat \<Rightarrow> nat) \<Rightarrow> bool" where
  "fcram_host fcram ext \<longleftrightarrow> host_ok ext \<and> 0 < fcram \<and> (\<forall>k < FCRAM_N3DS_SIZE. ext (fcram + k) = FCRAM_N3DS_SIZE - k)"

lemma fcram_blocks_spec:
  assumes "fcram_host fcram ext" "iv_aligned xs" "\<forall>(l, u) \<in> set xs. l < u \<and> u \<le> FCRAM_N3DS_SIZE"
  shows "\<exists>bs. fcram_blocks fcram xs = Some bs \<and> block_bytes bs = map ((+) fcram) (iv_list xs) \<and>
    blocks_len bs = sum_list (map (\<lambda>(l, u). u - l) xs) \<and>
    (\<forall>(b, n) \<in> set bs. ref_ok ext b \<and> n \<le> ref_size b \<and> page_aligned n \<and> 0 < n)"
  using assms(2,3)
proof (induction xs)
  case Nil
  then show ?case by (simp add: block_bytes_def iv_list_def blocks_len_def)
next
  case (Cons x xs)
  obtain l u where x: "x = (l, u)" by force
  let ?b = "\<lparr>ref_ptr = fcram + l, ref_size = FCRAM_N3DS_SIZE - l\<rparr>"
  from Cons obtain bs where bs: "fcram_blocks fcram xs = Some bs" "block_bytes bs = map ((+) fcram) (iv_list xs)"
    "blocks_len bs = sum_list (map (\<lambda>(l, u). u - l) xs)"
    "\<forall>(b, n) \<in> set bs. ref_ok ext b \<and> n \<le> ref_size b \<and> page_aligned n \<and> 0 < n"
    using x by (auto simp: iv_aligned_Cons)
  have lu: "l < u" "u \<le> FCRAM_N3DS_SIZE" "page_aligned l" "page_aligned u"
    using Cons.prems x by (simp_all add: iv_aligned_Cons)
  have "ref_ok ext ?b" "u - l \<le> ref_size ?b" "page_aligned (u - l)"
    using assms(1) lu by (auto simp: ref_ok_def fcram_host_def intro: page_aligned_diff)
  moreover have "map ((+) fcram) [l..<u] = [fcram + l..<fcram + l + (u - l)]"
    using lu(1) by (intro nth_equalityI) auto
  ultimately show ?case
    using bs lu x by (intro exI [of _ "(?b, u - l) # bs"])
      (simp add: GetFCRAMRef_def block_bytes_def iv_list_def blocks_len_def)
qed

section \<open>The invariant of a process\<close>

lemma GetMemoryRegion_nth: "GetMemoryRegion g rs = rs ! region_index g"
  by (cases g) simp_all

lemma region_index_inj [simp]: "region_index g = region_index g' \<longleftrightarrow> g = g'"
  by (cases g; cases g') simp_all

lemma region_index_lt [simp]: "region_index g < 3"
  by (cases g) simp_all

definition region_of :: "MemoryRegion \<Rightarrow> process \<Rightarrow> memory_region" where
  "region_of g p = GetMemoryRegion g (memory_regions p)"

lemma own_region_of: "own_region p = region_of (memory_region_of p) p"
  by (simp add: own_region_def region_of_def)

lemma set_region_simps [simp]:
  "vm_manager (set_region g r p) = vm_manager p" "memory_used (set_region g r p) = memory_used p"
  "memory_region_of (set_region g r p) = memory_region_of p" "holding_memory (set_region g r p) = holding_memory p"
  "holding_tls_memory (set_region g r p) = holding_tls_memory p" "tls_slots (set_region g r p) = tls_slots p"
  "kernel_version (set_region g r p) = kernel_version p" "process_limit (set_region g r p) = process_limit p"
  "length (memory_regions (set_region g r p)) = length (memory_regions p)"
  by (simp_all add: set_region_def)

lemma region_of_set [simp]:
  "length (memory_regions p) = 3 \<Longrightarrow> region_of g' (set_region g r p) = (if g' = g then r else region_of g' p)"
  by (simp add: region_of_def set_region_def GetMemoryRegion_nth nth_list_update)

lemma region_of_cong: "memory_regions p = memory_regions p' \<Longrightarrow> region_of g p = region_of g p'"
  by (simp add: region_of_def)

text \<open>A region of FCRAM in pages.\<close>

definition fcram_region :: "memory_region \<Rightarrow> bool" where
  "fcram_region r \<longleftrightarrow> region_ok r \<and> \<not> rg_locked r \<and> iv_aligned (free_blocks r) \<and> rg_base r + rg_size r \<le> FCRAM_N3DS_SIZE"

definition region_range :: "memory_region \<Rightarrow> nat set" where
  "region_range r = {rg_base r..<rg_base r + rg_size r}"

text \<open>What the process holds is allocated, and is what it counts.\<close>

definition commit_of :: "process \<Rightarrow> int" where
  "commit_of p = m_current_values (process_limit p) ! type_index RCommit"

definition holdings_ok :: "process \<Rightarrow> bool" where
  "holdings_ok p \<longleftrightarrow> iv_wf 0 (holding_memory p) \<and> iv_wf 0 (holding_tls_memory p) \<and>
     iv_points (holding_memory p) \<subseteq> region_range (own_region p) - free_set (own_region p) \<and>
     iv_points (holding_tls_memory p) \<subseteq> region_range (region_of BASE p) - free_set (region_of BASE p) \<and>
     (memory_region_of p = BASE \<longrightarrow> iv_points (holding_memory p) \<inter> iv_points (holding_tls_memory p) = {}) \<and>
     memory_used p = card (iv_points (holding_memory p)) + card (iv_points (holding_tls_memory p))"

definition process_ok :: "(nat \<Rightarrow> nat) \<Rightarrow> process \<Rightarrow> bool" where
  "process_ok ext p \<longleftrightarrow> vm_ok ext (vm_manager p) \<and> \<not> vm_locked (vm_manager p) \<and>
     length (memory_regions p) = 3 \<and> (\<forall>g. fcram_region (region_of g p)) \<and> holdings_ok p \<and>
     length (m_limit_values (process_limit p)) = 10 \<and> length (m_current_values (process_limit p)) = 10"

lemma process_okD:
  assumes "process_ok ext p"
  shows "vm_ok ext (vm_manager p)" "\<not> vm_locked (vm_manager p)" "length (memory_regions p) = 3"
    "fcram_region (region_of g p)" "holdings_ok p" "length (m_limit_values (process_limit p)) = 10"
    "length (m_current_values (process_limit p)) = 10"
  using assms by (simp_all add: process_ok_def)

lemma count_commit_spec:
  assumes "length (m_limit_values (process_limit p)) = 10" "length (m_current_values (process_limit p)) = 10"
    "len < 2 ^ 31" "in_s32 (commit_of p + int len)"
  shows "\<exists>l. count_commit len p = Some (p\<lparr>process_limit := l\<rparr>) \<and> length (m_limit_values l) = 10 \<and>
    length (m_current_values l) = 10 \<and> m_current_values l ! type_index RCommit = commit_of p + int len"
  using assms by (intro exI [of _ "(process_limit p)\<lparr>m_current_values :=
      (m_current_values (process_limit p))[type_index RCommit := commit_of p + int len]\<rparr>"])
    (simp add: count_commit_def Reserve_def commit_of_def)

lemma release_commit_spec:
  assumes "length (m_limit_values (process_limit p)) = 10" "length (m_current_values (process_limit p)) = 10"
    "len < 2 ^ 31" "in_s32 (commit_of p - int len)"
  shows "\<exists>l. release_commit len p = Some (p\<lparr>process_limit := l\<rparr>) \<and> length (m_limit_values l) = 10 \<and>
    length (m_current_values l) = 10 \<and> m_current_values l ! type_index RCommit = commit_of p - int len"
  using assms by (intro exI [of _ "(process_limit p)\<lparr>m_current_values :=
      (m_current_values (process_limit p))[type_index RCommit := commit_of p - int len]\<rparr>"])
    (simp add: release_commit_def Release_def commit_of_def)

lemma card_range_le:
  assumes "fcram_region r" "T \<subseteq> region_range r"
  shows "card T \<le> FCRAM_N3DS_SIZE" "finite T"
proof -
  show f: "finite T" using assms(2) finite_subset by (auto simp: region_range_def)
  have "card T \<le> card (region_range r)"
    using assms(2) by (intro card_mono) (simp_all add: region_range_def)
  with assms(1) show "card T \<le> FCRAM_N3DS_SIZE"
    by (simp add: region_range_def fcram_region_def)
qed

lemma iv_wf_member: "iv_wf lo xs \<Longrightarrow> (l, u) \<in> set xs \<Longrightarrow> l < u"
  by (induction lo xs rule: iv_wf.induct) auto

lemma outside_heapD:
  assumes "\<not> outside_heap t len" "len \<le> FCRAM_N3DS_SIZE"
  shows "t + len \<le> HEAP_VADDR_END" "HEAP_VADDR \<le> t" "t + len < 2 ^ 32"
proof -
  have a: "HEAP_VADDR \<le> t" "add32 t len \<le> HEAP_VADDR_END" "t \<le> add32 t len"
    using assms(1) by (simp_all add: outside_heap_def)
  then show "t + len < 2 ^ 32"
    using assms(2) by (simp add: HEAP_VADDR_END_def FCRAM_N3DS_SIZE_def)
  with a show "t + len \<le> HEAP_VADDR_END" "HEAP_VADDR \<le> t"
    by (simp_all add: add32_small)
qed

lemma not_free_all_free:
  assumes "vm_ok ext vm" "all_free t len (view (vma_map vm))" "0 < len" "t + len \<le> MAX_ADDRESS"
  shows "not_free t len vm = Some False"
proof -
  note ok = vm_okD [OF assms(1)]
  note c = map_ok_covers [OF ok(1)]
  have ty: "type_at (vma_map vm) a = Some Free" if "t \<le> a" "a < t + len" for a
    using assms(2) that by (simp add: all_free_def type_at_def)
  have "t < t + len" using assms(3) by simp
  then obtain xs v ys where f: "vma_map vm = xs @ v # ys" "FindVMA t (vma_map vm) = Some (length xs)" "inside v t"
    "t + len \<le> vma_end v" "vma_type v = Free"
    by (rule free_range_in_area [OF c ok(4,3) _ assms(4) ty]) (assumption, assumption, rule that, assumption+)
  have "vma_end v \<le> MAX_ADDRESS" using covers_bounds [OF c, of v] f(1) by simp
  with f assms(4) MAX_small show ?thesis
    by (simp add: not_free_def Let_def nth_append add32_small vma_end_def)
qed

section \<open>A heap allocation\<close>

lemma HeapAllocate_process:
  assumes p: "process_ok ext p" and host: "fcram_host fcram ext"
    and args: "page_aligned t" "page_aligned len" "0 < len" "\<not> outside_heap t len" "all_free t len (view (vma_map (vm_manager p)))"
    and room: "len \<le> card (free_set (own_region p))" and lim: "in_s32 (commit_of p + int len)"
  shows "\<exists>p' T. HeapAllocate cached fcram t len perms state False p = Some (p', Inr t) \<and> process_ok ext p' \<and>
    T \<subseteq> free_set (own_region p) \<and> card T = len \<and> (\<forall>x \<in> T. \<forall>y \<in> free_set (own_region p) - T. y < x) \<and>
    free_set (own_region p') = free_set (own_region p) - T \<and>
    iv_points (holding_memory p') = iv_points (holding_memory p) \<union> T \<and>
    memory_used p' = memory_used p + len \<and> commit_of p' = commit_of p + int len \<and>
    (\<forall>a. t \<le> a \<and> a < t + len \<longrightarrow>
       view (vma_map (vm_manager p')) a = Some (BackingMemory, perms, state, fcram + sorted_list_of_set T ! (a - t))) \<and>
    (\<forall>a. \<not> (t \<le> a \<and> a < t + len) \<longrightarrow>
       maybe_reprotected perms (view (vma_map (vm_manager p)) a) (view (vma_map (vm_manager p')) a))"
proof -
  note ok = process_okD [OF p]
  note reg = ok(4) [of "memory_region_of p", folded own_region_of]
  have r: "region_ok (own_region p)" "\<not> rg_locked (own_region p)" "iv_aligned (free_blocks (own_region p))"
    "rg_base (own_region p) + rg_size (own_region p) \<le> FCRAM_N3DS_SIZE"
    using reg by (simp_all add: fcram_region_def)
  obtain r' res where h: "region_HeapAllocate len (own_region p) = Some (r', res)" "region_ok r'" "\<not> rg_locked r'"
    "iv_wf 0 res" "card (iv_points res) = len" "iv_points res \<subseteq> free_set (own_region p)"
    "free_set r' = free_set (own_region p) - iv_points res" "\<forall>x \<in> iv_points res. \<forall>y \<in> free_set r'. y < x"
    "rg_base r' = rg_base (own_region p)" "rg_size r' = rg_size (own_region p)"
    using HeapAllocate_spec [OF r(1,2), of len] room by auto
  have al: "iv_aligned res" "iv_aligned (free_blocks r')"
    using region_HeapAllocate_aligned [OF h(1) r(3) args(2)] by auto
  have inr: "iv_points res \<subseteq> region_range (own_region p)"
    using h(6) region_okD(2) [OF r(1)] by (auto simp: region_range_def)
  have "\<forall>(l, u) \<in> set res. l < u \<and> u \<le> FCRAM_N3DS_SIZE"
  proof (intro ballI, clarify)
    fix l u assume lu: "(l, u) \<in> set res"
    have "l < u" using iv_wf_member [OF h(4) lu] .
    moreover have "u - 1 \<in> iv_points res" using lu calculation by (auto simp: iv_points_def intro!: bexI [of _ "(l, u)"])
    ultimately show "l < u \<and> u \<le> FCRAM_N3DS_SIZE"
      using inr r(4) by (fastforce simp: region_range_def)
  qed
  from fcram_blocks_spec [OF host al(1) this] obtain bs where bs: "fcram_blocks fcram res = Some bs"
    "block_bytes bs = map ((+) fcram) (iv_list res)" "blocks_len bs = len"
    "\<forall>(b, n) \<in> set bs. ref_ok ext b \<and> n \<le> ref_size b \<and> page_aligned n \<and> 0 < n"
    using iv_card [OF h(4)] h(5) by auto
  have len: "len \<le> FCRAM_N3DS_SIZE"
    using h(5) card_range_le(1) [OF reg inr] by simp
  have heap: "t + len \<le> MAX_ADDRESS" "t + len < 2 ^ 32" "len < 2 ^ 31"
    using outside_heapD [OF args(4) len] len by (simp_all add: HEAP_VADDR_END_def MAX_ADDRESS_def FCRAM_N3DS_SIZE_def)
  obtain vm where vm: "map_blocks cached state perms bs t (vm_manager p) = Some vm" "vm_ok ext vm" "\<not> vm_locked vm"
    "\<forall>a. t \<le> a \<and> a < t + len \<longrightarrow> view (vma_map vm) a = Some (BackingMemory, perms, state, block_bytes bs ! (a - t))"
    "\<forall>a. \<not> (t \<le> a \<and> a < t + len) \<longrightarrow> maybe_reprotected perms (view (vma_map (vm_manager p)) a) (view (vma_map vm) a)"
    using map_blocks_spec [OF ok(1,2) _ bs(4) args(1), of cached state perms] host args(5) heap(2)
    unfolding bs(3) by (auto simp: fcram_host_def)
  define T where "T = iv_points res"
  have T: "finite T" "card T = len" "T \<subseteq> free_set (own_region p)" "T \<subseteq> region_range (own_region p)"
    using h(5,6) inr by (simp_all add: T_def)
  have hold: "iv_wf 0 (iv_add_all res (holding_memory p))" "iv_points (iv_add_all res (holding_memory p)) = iv_points (holding_memory p) \<union> T"
    using iv.fold_add [of "holding_memory p" res] ok(5) by (simp_all add: iv_add_all_def holdings_ok_def T_def)
  let ?q = "(set_region (memory_region_of p) r' p)\<lparr>vm_manager := vm, holding_memory := iv_add_all res (holding_memory p),
    memory_used := add32 (memory_used p) len\<rparr>"
  have disj: "iv_points (holding_memory p) \<inter> T = {}" "memory_region_of p = BASE \<Longrightarrow> iv_points (holding_tls_memory p) \<inter> T = {}"
    using ok(5) T(3) unfolding holdings_ok_def own_region_of by auto
  have used: "add32 (memory_used p) len = memory_used p + len"
  proof -
    have "card (iv_points (holding_memory p)) \<le> FCRAM_N3DS_SIZE" "card (iv_points (holding_tls_memory p)) \<le> FCRAM_N3DS_SIZE"
      using card_range_le(1) [OF reg, of "iv_points (holding_memory p)"] card_range_le(1) [OF ok(4) [of BASE], of "iv_points (holding_tls_memory p)"]
        ok(5) by (auto simp: holdings_ok_def)
    with ok(5) len show ?thesis
      by (intro add32_small) (simp add: holdings_ok_def FCRAM_N3DS_SIZE_def)
  qed
  have cq: "commit_of ?q = commit_of p" by (simp add: commit_of_def)
  obtain l where l: "count_commit len ?q = Some (?q\<lparr>process_limit := l\<rparr>)" "length (m_limit_values l) = 10"
    "length (m_current_values l) = 10" "m_current_values l ! type_index RCommit = commit_of p + int len"
    using count_commit_spec [of ?q len] ok(6,7) heap(3) lim unfolding cq by auto
  let ?p = "?q\<lparr>process_limit := l\<rparr>"
  have regs: "region_of g ?p = (if g = memory_region_of p then r' else region_of g p)" for g
    using region_of_cong [of ?p "set_region (memory_region_of p) r' p"] ok(3) by simp
  have own: "own_region ?p = r'"
    by (simp add: own_region_of regs)
  have range: "region_range r' = region_range (own_region p)"
    using h(9,10) by (simp add: region_range_def)
  have "fcram_region r'"
    using h(2,3,9,10) al(2) r(4) by (simp add: fcram_region_def)
  then have fr: "fcram_region (region_of g ?p)" for g
    using ok(4) by (simp add: regs)
  have fs: "free_set r' = free_set (own_region p) - T" using h(7) by (simp add: T_def)
  have "holdings_ok ?p"
    unfolding holdings_ok_def own
  proof (intro conjI)
    show "iv_points (holding_memory ?p) \<subseteq> region_range r' - free_set r'"
      using ok(5) T(4) by (auto simp: hold(2) range fs holdings_ok_def)
    show "iv_points (holding_tls_memory ?p) \<subseteq> region_range (region_of BASE ?p) - free_set (region_of BASE ?p)"
    proof -
      have "region_range (region_of BASE ?p) = region_range (region_of BASE p)"
        "free_set (region_of BASE ?p) \<subseteq> free_set (region_of BASE p)"
        using regs [of BASE] range fs own_region_of [of p] by (cases "memory_region_of p = BASE"; auto)+
      moreover have "iv_points (holding_tls_memory p) \<subseteq> region_range (region_of BASE p) - free_set (region_of BASE p)"
        using ok(5) by (simp add: holdings_ok_def)
      ultimately show ?thesis by auto
    qed
    show "memory_region_of ?p = BASE \<longrightarrow> iv_points (holding_memory ?p) \<inter> iv_points (holding_tls_memory ?p) = {}"
      using ok(5) disj(2) by (auto simp: hold(2) holdings_ok_def)
    show "memory_used ?p = card (iv_points (holding_memory ?p)) + card (iv_points (holding_tls_memory ?p))"
    proof -
      have "memory_used p = card (iv_points (holding_memory p)) + card (iv_points (holding_tls_memory p))"
        using ok(5) by (simp add: holdings_ok_def)
      then show ?thesis
        using disj(1) T(1,2) used by (simp add: hold(2) card_Un_disjoint)
    qed
  qed (use hold(1) ok(5) in \<open>simp_all add: holdings_ok_def\<close>)
  then have pok: "process_ok ext ?p"
    using vm(2,3) ok(3) fr l(2,3) by (simp add: process_ok_def)
  have res: "res \<noteq> []" using h(5) args(3) by auto
  have run: "HeapAllocate cached fcram t len perms state False p = Some (?p, Inr t)"
    using args(4) not_free_all_free [OF ok(1) args(5,3) heap(1)] h(1) bs(1) vm(1) l(1) res
    by (simp add: HeapAllocate_def Let_def)
  have "block_bytes bs ! (a - t) = fcram + sorted_list_of_set T ! (a - t)" if "t \<le> a" "a < t + len" for a
    using that iv_list_sorted [OF h(4)] T(2) by (simp add: bs(2) T_def)
  with vm(4) have vm4: "\<forall>a. t \<le> a \<and> a < t + len \<longrightarrow>
      view (vma_map vm) a = Some (BackingMemory, perms, state, fcram + sorted_list_of_set T ! (a - t))"
    by simp
  show ?thesis
    by (intro exI [of _ ?p] exI [of _ T] conjI)
      (use run pok T h(8) fs own hold(2) used l(4) vm4 vm(5) in \<open>simp_all add: T_def commit_of_def\<close>)
qed

section \<open>The end of a process\<close>

lemma region_Free_range: "region_Free a len r = Some r' \<Longrightarrow> region_range r' = region_range r"
  by (auto simp: region_Free_def region_range_def assertion_def Let_def split: if_splits)

lemma iv_points_block: "(l, u) \<in> set xs \<Longrightarrow> {l..<u} \<subseteq> iv_points xs"
  by (auto simp: iv_points_def)

text \<open>One block given back: it joins the free blocks of its region, the other regions stay.\<close>

lemma give_back:
  assumes "length (memory_regions p) = 3" "region_ok (region_of g p)" "\<not> rg_locked (region_of g p)"
    "l < u" "{l..<u} \<subseteq> region_range (region_of g p) - free_set (region_of g p)"
  obtains r where "region_Free l (u - l) (region_of g p) = Some r" "region_ok r" "\<not> rg_locked r"
    "free_set r = free_set (region_of g p) \<union> {l..<u}" "region_range r = region_range (region_of g p)"
proof -
  have e: "l + (u - l) = u" using assms(4) by simp
  have "{l..<l + (u - l)} \<inter> free_set (region_of g p) = {}"
    "{l..<l + (u - l)} \<subseteq> {rg_base (region_of g p)..<rg_base (region_of g p) + rg_size (region_of g p)}"
    using assms(5) unfolding e region_range_def by blast+
  from Free_spec [OF assms(2,3) this] assms(4) obtain r where
    "region_Free l (u - l) (region_of g p) = Some r" "region_ok r" "\<not> rg_locked r"
    "free_set r = free_set (region_of g p) \<union> {l..<u}"
    unfolding e by auto
  with region_Free_range that show thesis by blast
qed

definition regions_ok :: "process \<Rightarrow> bool" where
  "regions_ok p \<longleftrightarrow> length (memory_regions p) = 3 \<and> (\<forall>g. region_ok (region_of g p) \<and> \<not> rg_locked (region_of g p))"

lemma free_holding_spec:
  assumes "regions_ok p" "iv_wf lo is" "iv_points is \<subseteq> region_range (own_region p) - free_set (own_region p)"
    "card (iv_points is) \<le> memory_used p" "memory_used p < 2 ^ 31"
    "length (m_limit_values (process_limit p)) = 10" "length (m_current_values (process_limit p)) = 10"
    "in_s32 (commit_of p)" "in_s32 (commit_of p - int (card (iv_points is)))"
  shows "\<exists>p'. free_holding is p = Some p' \<and> regions_ok p' \<and> memory_region_of p' = memory_region_of p \<and>
    (\<forall>g. free_set (region_of g p') = free_set (region_of g p) \<union> (if g = memory_region_of p then iv_points is else {}) \<and>
       region_range (region_of g p') = region_range (region_of g p)) \<and>
    memory_used p' = memory_used p - card (iv_points is) \<and> commit_of p' = commit_of p - int (card (iv_points is)) \<and>
    vm_manager p' = vm_manager p \<and> holding_tls_memory p' = holding_tls_memory p"
  using assms
proof (induction "is" arbitrary: lo p)
  case Nil
  then show ?case by simp
next
  case (Cons x xs)
  obtain l u where x: "x = (l, u)" by force
  let ?g = "memory_region_of p"
  have w: "l < u" "iv_wf (Suc u) xs" using Cons.prems(2) x by simp_all
  have far: "Suc u \<le> y" if "y \<in> iv_points xs" for y using iv_wf_bound [OF w(2) that] .
  have dis: "{l..<u} \<inter> iv_points xs = {}" using far by fastforce
  have card: "card (iv_points (x # xs)) = (u - l) + card (iv_points xs)"
    using dis x by (simp add: card_Un_disjoint)
  have len: "length (memory_regions p) = 3" using Cons.prems(1) by (simp add: regions_ok_def)
  obtain r where r: "region_Free l (u - l) (region_of ?g p) = Some r" "region_ok r" "\<not> rg_locked r"
    "free_set r = free_set (region_of ?g p) \<union> {l..<u}" "region_range r = region_range (region_of ?g p)"
    by (rule give_back [OF len, of ?g l u])
      (use Cons.prems(1,3) w(1) x in \<open>auto simp: regions_ok_def own_region_of\<close>)
  have used: "sub32 (memory_used p) (u - l) = memory_used p - (u - l)"
    using Cons.prems(4,5) card by (intro sub32_small) simp_all
  let ?q = "(set_region ?g r p)\<lparr>memory_used := memory_used p - (u - l)\<rparr>"
  have cq: "commit_of ?q = commit_of p" by (simp add: commit_of_def)
  have "in_s32 (commit_of ?q - int (u - l))"
    using Cons.prems(8,9) card by (simp add: cq in_s32_def)
  then obtain lim where lim: "release_commit (u - l) ?q = Some (?q\<lparr>process_limit := lim\<rparr>)" "length (m_limit_values lim) = 10"
    "length (m_current_values lim) = 10" "m_current_values lim ! type_index RCommit = commit_of p - int (u - l)"
    using release_commit_spec [of ?q "u - l"] Cons.prems(4-7) card unfolding cq by auto
  let ?p = "?q\<lparr>process_limit := lim\<rparr>"
  have regs: "region_of g ?p = (if g = ?g then r else region_of g p)" for g
    using region_of_cong [of ?p "set_region ?g r p"] len by simp
  have cp: "commit_of ?p = commit_of p - int (u - l)"
    using lim(4) by (simp add: commit_of_def)
  have "\<exists>p'. free_holding xs ?p = Some p' \<and> regions_ok p' \<and> memory_region_of p' = memory_region_of ?p \<and>
    (\<forall>g. free_set (region_of g p') = free_set (region_of g ?p) \<union> (if g = memory_region_of ?p then iv_points xs else {}) \<and>
       region_range (region_of g p') = region_range (region_of g ?p)) \<and>
    memory_used p' = memory_used ?p - card (iv_points xs) \<and> commit_of p' = commit_of ?p - int (card (iv_points xs)) \<and>
    vm_manager p' = vm_manager ?p \<and> holding_tls_memory p' = holding_tls_memory ?p"
  proof (rule Cons.IH)
    show "regions_ok ?p" using Cons.prems(1) r(2,3) regs by (simp add: regions_ok_def)
    show "iv_points xs \<subseteq> region_range (own_region ?p) - free_set (own_region ?p)"
      using Cons.prems(3) dis x r(4,5) regs [of ?g] by (auto simp: own_region_of)
    show "in_s32 (commit_of ?p)" "in_s32 (commit_of ?p - int (card (iv_points xs)))"
      using Cons.prems(8,9) card by (simp_all add: cp in_s32_def)
  qed (use w(2) Cons.prems(4,5) card lim(2,3) in auto)
  moreover have "free_holding (x # xs) p = free_holding xs ?p"
    using r(1) lim(1) used x by (simp add: own_region_of)
  ultimately show ?case
    using card cp r(4,5) regs x by (auto simp: Un_assoc)
qed

lemma free_tls_spec:
  assumes "regions_ok p" "iv_wf lo is" "iv_points is \<subseteq> region_range (region_of BASE p) - free_set (region_of BASE p)"
    "card (iv_points is) \<le> memory_used p" "memory_used p < 2 ^ 31"
  shows "\<exists>p'. free_tls is p = Some p' \<and> regions_ok p' \<and>
    (\<forall>g. free_set (region_of g p') = free_set (region_of g p) \<union> (if g = BASE then iv_points is else {})) \<and>
    memory_used p' = memory_used p - card (iv_points is) \<and> process_limit p' = process_limit p \<and> vm_manager p' = vm_manager p \<and>
    holding_memory p' = holding_memory p"
  using assms
proof (induction "is" arbitrary: lo p)
  case Nil
  then show ?case by simp
next
  case (Cons x xs)
  obtain l u where x: "x = (l, u)" by force
  have w: "l < u" "iv_wf (Suc u) xs" using Cons.prems(2) x by simp_all
  have far: "Suc u \<le> y" if "y \<in> iv_points xs" for y using iv_wf_bound [OF w(2) that] .
  have dis: "{l..<u} \<inter> iv_points xs = {}" using far by fastforce
  have card: "card (iv_points (x # xs)) = (u - l) + card (iv_points xs)"
    using dis x by (simp add: card_Un_disjoint)
  have len: "length (memory_regions p) = 3" using Cons.prems(1) by (simp add: regions_ok_def)
  obtain r where r: "region_Free l (u - l) (region_of BASE p) = Some r" "region_ok r" "\<not> rg_locked r"
    "free_set r = free_set (region_of BASE p) \<union> {l..<u}" "region_range r = region_range (region_of BASE p)"
    by (rule give_back [OF len, of BASE l u]) (use Cons.prems(1,3) w(1) x in \<open>auto simp: regions_ok_def\<close>)
  have used: "sub32 (memory_used p) (u - l) = memory_used p - (u - l)"
    using Cons.prems(4,5) card by (intro sub32_small) simp_all
  let ?p = "(set_region BASE r p)\<lparr>memory_used := memory_used p - (u - l)\<rparr>"
  have regs: "region_of g ?p = (if g = BASE then r else region_of g p)" for g
    using region_of_cong [of ?p "set_region BASE r p"] len by simp
  have "\<exists>p'. free_tls xs ?p = Some p' \<and> regions_ok p' \<and>
    (\<forall>g. free_set (region_of g p') = free_set (region_of g ?p) \<union> (if g = BASE then iv_points xs else {})) \<and>
    memory_used p' = memory_used ?p - card (iv_points xs) \<and> process_limit p' = process_limit ?p \<and> vm_manager p' = vm_manager ?p \<and>
    holding_memory p' = holding_memory ?p"
  proof (rule Cons.IH)
    show "regions_ok ?p" using Cons.prems(1) r(2,3) regs by (simp add: regions_ok_def)
    show "iv_points xs \<subseteq> region_range (region_of BASE ?p) - free_set (region_of BASE ?p)"
      using Cons.prems(3) dis x r(4,5) regs [of BASE] by auto
  qed (use w(2) Cons.prems(4,5) card in auto)
  moreover have "free_tls (x # xs) p = free_tls xs ?p"
    using r(1) used x by (simp add: region_of_def)
  ultimately show ?case
    using card r(4) regs x by (auto simp: Un_assoc)
qed

lemma holdings_card:
  assumes "process_ok ext p"
  shows "memory_used p < 2 ^ 31"
proof -
  note ok = process_okD [OF assms]
  have "card (iv_points (holding_memory p)) \<le> FCRAM_N3DS_SIZE" "card (iv_points (holding_tls_memory p)) \<le> FCRAM_N3DS_SIZE"
    using card_range_le(1) [OF ok(4) [of "memory_region_of p"], of "iv_points (holding_memory p)"]
      card_range_le(1) [OF ok(4) [of BASE], of "iv_points (holding_tls_memory p)"] ok(5)
    by (auto simp: holdings_ok_def own_region_of)
  with ok(5) show ?thesis by (simp add: holdings_ok_def FCRAM_N3DS_SIZE_def)
qed

lemma FreeAllMemory_process:
  assumes "process_ok ext p" "in_s32 (commit_of p)" "in_s32 (commit_of p - int (card (iv_points (holding_memory p))))"
  shows "\<exists>p'. FreeAllMemory p = Some p' \<and> regions_ok p' \<and>
    (\<forall>g. free_set (region_of g p') = free_set (region_of g p) \<union>
       (if g = memory_region_of p then iv_points (holding_memory p) else {}) \<union>
       (if g = BASE then iv_points (holding_tls_memory p) else {})) \<and>
    holding_memory p' = [] \<and> holding_tls_memory p' = [] \<and> tls_slots p' = [] \<and> memory_used p' = 0 \<and>
    commit_of p' = commit_of p - int (card (iv_points (holding_memory p)))"
proof -
  note ok = process_okD [OF assms(1)]
  let ?H = "iv_points (holding_memory p)" and ?T = "iv_points (holding_tls_memory p)"
  have h: "iv_wf 0 (holding_memory p)" "iv_wf 0 (holding_tls_memory p)"
    "?H \<subseteq> region_range (own_region p) - free_set (own_region p)"
    "?T \<subseteq> region_range (region_of BASE p) - free_set (region_of BASE p)"
    "memory_region_of p = BASE \<Longrightarrow> ?H \<inter> ?T = {}" "memory_used p = card ?H + card ?T"
    using ok(5) by (simp_all add: holdings_ok_def)
  have ro: "regions_ok p" using ok(3,4) by (simp add: regions_ok_def fcram_region_def)
  obtain p1 where p1: "free_holding (holding_memory p) p = Some p1" "regions_ok p1"
    "\<And>g. free_set (region_of g p1) = free_set (region_of g p) \<union> (if g = memory_region_of p then ?H else {})"
    "\<And>g. region_range (region_of g p1) = region_range (region_of g p)"
    "memory_used p1 = card ?T" "commit_of p1 = commit_of p - int (card ?H)" "holding_tls_memory p1 = holding_tls_memory p"
    using free_holding_spec [OF ro h(1,3) _ holdings_card [OF assms(1)] ok(6,7) assms(2,3)] h(6) by auto
  let ?q = "p1\<lparr>holding_memory := []\<rparr>"
  have regs: "region_of g ?q = region_of g p1" for g by (rule region_of_cong) simp
  have "regions_ok ?q" using p1(2) regs by (simp add: regions_ok_def)
  moreover have "?T \<subseteq> region_range (region_of BASE ?q) - free_set (region_of BASE ?q)"
    using h(4,5) p1(3,4) [of BASE] by (auto simp: regs split: if_splits)
  ultimately obtain p2 where p2: "free_tls (holding_tls_memory p) ?q = Some p2" "regions_ok p2"
    "\<And>g. free_set (region_of g p2) = free_set (region_of g p1) \<union> (if g = BASE then ?T else {})"
    "memory_used p2 = 0" "process_limit p2 = process_limit p1" "holding_memory p2 = []"
    using free_tls_spec [of ?q 0 "holding_tls_memory p"] h(2,6) p1(5) holdings_card [OF assms(1)] regs by auto
  let ?p = "p2\<lparr>holding_tls_memory := [], tls_slots := []\<rparr>"
  have regs2: "region_of g ?p = region_of g p2" for g by (rule region_of_cong) simp
  have "FreeAllMemory p = Some ?p"
    using p1(1,7) p2(1) by (simp add: FreeAllMemory_def)
  moreover have "regions_ok ?p" using p2(2) regs2 by (simp add: regions_ok_def)
  ultimately show ?thesis
    using p1(6) p2(4-6) by (intro exI [of _ ?p] conjI) (simp_all add: regs2 p2(3) p1(3) commit_of_def)
qed

section \<open>Thread-local storage\<close>

definition tls_address :: "nat \<Rightarrow> nat \<Rightarrow> nat" where
  "tls_address i j = TLS_AREA_VADDR + i * CITRA_PAGE_SIZE + j * TLS_ENTRY_SIZE"

text \<open>The addresses in use, and pages of eight slots.\<close>

definition tls_used :: "process \<Rightarrow> nat set" where
  "tls_used p = {tls_address i j | i j. i < length (tls_slots p) \<and> j < 8 \<and> tls_slots p ! i ! j}"

definition tls_pages_ok :: "process \<Rightarrow> bool" where
  "tls_pages_ok p \<longleftrightarrow> (\<forall>page \<in> set (tls_slots p). length page = 8) \<and> length (tls_slots p) < 2 ^ 16"

lemma tls_address_inj:
  assumes "tls_address i j = tls_address i' j'" "j < 8" "j' < 8"
  shows "i = i' \<and> j = j'"
proof -
  have "(i * 8 + j) * 0x200 = (i' * 8 + j') * 0x200"
    using assms(1) by (simp add: tls_address_def CITRA_PAGE_SIZE_def TLS_ENTRY_SIZE_def)
  then have e: "i * 8 + j = i' * 8 + j'" by simp
  then have "(i * 8 + j) div 8 = (i' * 8 + j') div 8" by simp
  with assms(2,3) have "i = i'" by simp
  with e show ?thesis by simp
qed

lemma find_tls_slot_Some:
  assumes "find_tls_slot slots = Some (i, j)"
  shows "i < length slots" "j < length (slots ! i)" "\<not> slots ! i ! j"
  using assms by (auto simp: find_tls_slot_def find_Some_iff split: option.splits)

lemma find_tls_slot_None:
  assumes "find_tls_slot slots = None"
  shows "\<forall>page \<in> set slots. False \<notin> set page"
proof -
  have "List.find (\<lambda>j. \<not> slots ! i ! j) [0..<length (slots ! i)] \<noteq> None" if "False \<in> set (slots ! i)" for i
    using that by (auto simp: find_None_iff in_set_conv_nth)
  moreover have "False \<in> set (slots ! i)" if "List.find (\<lambda>i. False \<in> set (slots ! i)) [0..<length slots] = Some i" for i
    using that by (auto simp: find_Some_iff)
  ultimately have "List.find (\<lambda>i. False \<in> set (slots ! i)) [0..<length slots] = None"
    using assms by (cases "List.find (\<lambda>i. False \<in> set (slots ! i)) [0..<length slots]") (fastforce simp: find_tls_slot_def)+
  then show ?thesis
    by (auto simp: find_None_iff in_set_conv_nth)
qed

text \<open>Marking a slot: exactly its address becomes used.\<close>

lemma mark_slot:
  assumes "tls_pages_ok p" "i < length (tls_slots p)" "j < 8" "\<not> tls_slots p ! i ! j"
  shows "tls_address i j \<notin> tls_used p"
    "tls_used (p\<lparr>tls_slots := (tls_slots p)[i := (tls_slots p ! i)[j := True]]\<rparr>) = insert (tls_address i j) (tls_used p)"
    "tls_pages_ok (p\<lparr>tls_slots := (tls_slots p)[i := (tls_slots p ! i)[j := True]]\<rparr>)"
proof -
  have l: "length (tls_slots p ! i) = 8"
    using assms(1,2) by (simp add: tls_pages_ok_def)
  show "tls_address i j \<notin> tls_used p"
    using assms(3,4) by (auto simp: tls_used_def dest!: tls_address_inj)
  show "tls_used (p\<lparr>tls_slots := (tls_slots p)[i := (tls_slots p ! i)[j := True]]\<rparr>) = insert (tls_address i j) (tls_used p)"
    (is "?L = ?R")
  proof (rule set_eqI)
    fix a
    have "a \<in> ?L \<longleftrightarrow> (\<exists>i' j'. a = tls_address i' j' \<and> i' < length (tls_slots p) \<and> j' < 8 \<and>
        (i' = i \<and> j' = j \<or> tls_slots p ! i' ! j'))"
    proof -
      have "(tls_slots p)[i := (tls_slots p ! i)[j := True]] ! i' ! j' \<longleftrightarrow> i' = i \<and> j' = j \<or> tls_slots p ! i' ! j'"
        if "i' < length (tls_slots p)" for i' j'
        using l assms(2,3) that by (cases "i' = i"; cases "j' = j") simp_all
      then show ?thesis unfolding tls_used_def by (simp cong: conj_cong)
    qed
    also have "\<dots> \<longleftrightarrow> a \<in> ?R"
      using assms(2,3) by (auto simp: tls_used_def)
    finally show "a \<in> ?L \<longleftrightarrow> a \<in> ?R" .
  qed
  show "tls_pages_ok (p\<lparr>tls_slots := (tls_slots p)[i := (tls_slots p ! i)[j := True]]\<rparr>)"
    using assms(1) l by (auto simp: tls_pages_ok_def dest!: set_update_subset_insert [THEN subsetD])
qed

lemma new_tls_page_spec:
  assumes "process_ok ext p" "fcram_host fcram ext" "tls_pages_ok p" "length (tls_slots p) + 1 < 2 ^ 16"
  shows "(\<exists>p'. new_tls_page cached fcram p = Some (Inl p') \<and> tls_slots p' = tls_slots p @ [replicate 8 False]) \<or>
    new_tls_page cached fcram p = Some (Inr ResultOutOfMemory) \<and>
      (\<forall>b. \<not> {b..<b + CITRA_PAGE_SIZE} \<subseteq> free_set (region_of BASE p))"
proof -
  note ok = process_okD [OF assms(1)]
  let ?r = "region_of BASE p"
  have r: "region_ok ?r" "\<not> rg_locked ?r" "rg_base ?r + rg_size ?r \<le> FCRAM_N3DS_SIZE"
    using ok(4) [of BASE] by (simp_all add: fcram_region_def)
  have C: "0 < CITRA_PAGE_SIZE" by (simp add: CITRA_PAGE_SIZE_def)
  note la = LinearAllocate_spec [OF r(1,2) C]
  show ?thesis
  proof (cases "region_LinearAllocate CITRA_PAGE_SIZE ?r")
    case None
    with la show ?thesis by simp
  next
    case (Some s)
    obtain r' o' where s: "s = (r', o')" by force
    show ?thesis
    proof (cases o')
      case None
      with la Some s show ?thesis by (auto simp: new_tls_page_def region_of_def)
    next
      case o: (Some off)
      have "{off..<off + CITRA_PAGE_SIZE} \<subseteq> free_set ?r" using la Some s o by simp
      moreover have "off + CITRA_PAGE_SIZE - 1 \<in> {off..<off + CITRA_PAGE_SIZE}"
        using C by auto
      ultimately have "off + CITRA_PAGE_SIZE - 1 \<in> {rg_base ?r..<rg_base ?r + rg_size ?r}"
        using region_okD(2) [OF r(1)] by blast
      then have off: "off + CITRA_PAGE_SIZE \<le> FCRAM_N3DS_SIZE" using r(3) C unfolding atLeastLessThan_iff by arith
      let ?b = "\<lparr>ref_ptr = fcram + off, ref_size = FCRAM_N3DS_SIZE - off\<rparr>"
      let ?t = "TLS_AREA_VADDR + length (tls_slots p) * CITRA_PAGE_SIZE"
      have b: "ref_ok ext ?b" "CITRA_PAGE_SIZE \<le> ref_size ?b"
        using assms(2) off C by (auto simp: ref_ok_def fcram_host_def)
      have al: "page_aligned ?t" "page_aligned CITRA_PAGE_SIZE"
        by (simp_all add: page_aligned_def TLS_AREA_VADDR_def CITRA_PAGE_SIZE_def mod_add_eq [symmetric])
      have lt: "?t + CITRA_PAGE_SIZE < 2 ^ 32"
        using assms(4) by (simp add: TLS_AREA_VADDR_def CITRA_PAGE_SIZE_def)
      have t: "add32 TLS_AREA_VADDR ((length (tls_slots p) * CITRA_PAGE_SIZE) mod 4294967296) = ?t"
        using lt by (simp add: add32_def TLS_AREA_VADDR_def CITRA_PAGE_SIZE_def)
      have "host_ok ext" using assms(2) by (simp add: fcram_host_def)
      from MapBackingMemory_spec [OF ok(1,2) this al(1,2) C lt b, of cached StLocked]
      obtain vm res where "MapBackingMemory cached ?t ?b CITRA_PAGE_SIZE StLocked (vm_manager p) = Some (vm, res)"
        by (cases "\<exists>v \<in> set (vma_map (vm_manager p)). holds ?t CITRA_PAGE_SIZE v") auto
      with Some s o off show ?thesis
        by (auto simp: new_tls_page_def region_of_def GetFCRAMRef_def t)
    qed
  qed
qed

section \<open>Properties\<close>

text \<open>A process with nothing allocated; three small regions.\<close>

definition demo_fcram_host :: "nat \<Rightarrow> nat" where
  "demo_fcram_host a = (if 0x1000 \<le> a \<and> a < 0x1000 + FCRAM_N3DS_SIZE then 0x1000 + FCRAM_N3DS_SIZE - a else 0)"

definition whole_region :: "nat \<Rightarrow> nat \<Rightarrow> memory_region" where
  "whole_region b s = \<lparr>rg_base = b, rg_size = s, rg_used = 0, free_blocks = [(b, b + s)], rg_locked = False\<rparr>"

definition demo_process :: process where
  "demo_process = \<lparr>vm_manager = demo_vm, memory_used = 0, memory_region_of = APPLICATION, holding_memory = [],
     holding_tls_memory = [], tls_slots = [], kernel_version = 0, process_limit = Create Application,
     memory_regions = [demo_region, whole_region 0x6000 0x1000, whole_region 0x7000 0x1000]\<rparr>"

lemma demo_fcram_host: "fcram_host 0x1000 demo_fcram_host"
  by (auto simp: fcram_host_def host_ok_def demo_fcram_host_def)

lemma fcram_region_whole: "0 < s \<Longrightarrow> b + s \<le> FCRAM_N3DS_SIZE \<Longrightarrow> page_aligned b \<Longrightarrow> page_aligned s \<Longrightarrow> fcram_region (whole_region b s)"
  by (simp add: fcram_region_def region_ok_def whole_region_def free_set_def iv_aligned_def page_aligned_add FCRAM_N3DS_SIZE_def)

lemma demo_process_ok: "process_ok demo_fcram_host demo_process"
proof -
  have vm: "vm_ok demo_fcram_host demo_vm" "\<not> vm_locked demo_vm"
    using Reset_spec [of blank_vm "\<lambda>_. False" demo_fcram_host] by (auto simp: demo_vm_def blank_vm_def)
  have "fcram_region demo_region"
    using demo_region_ok by (simp add: fcram_region_def demo_region_def iv_aligned_def page_aligned_def CITRA_PAGE_SIZE_def FCRAM_N3DS_SIZE_def)
  moreover have "fcram_region (whole_region 0x6000 0x1000)" "fcram_region (whole_region 0x7000 0x1000)"
    by (simp_all add: fcram_region_whole page_aligned_def CITRA_PAGE_SIZE_def FCRAM_N3DS_SIZE_def)
  ultimately have "fcram_region (region_of g demo_process)" for g
    by (cases g) (simp_all add: region_of_def demo_process_def numeral_2_eq_2)
  with vm show ?thesis
    by (simp add: process_ok_def holdings_ok_def demo_process_def Create_def)
qed

text \<open>C19: A heap allocation that is in the heap, on free pages, and for which the region has room
  succeeds: it maps the range, byte by byte in ascending order, onto the highest free bytes of the region,
  with the wanted state and permissions, takes them from the region, adds them to what the process holds,
  and counts them in the process and in its resource limit; no other page changes but for its permissions;
  and the invariant of the process holds again.\<close>

theorem HeapAllocate_maps:
  assumes "process_ok ext p" "fcram_host fcram ext" "page_aligned t" "page_aligned len" "0 < len"
    "\<not> outside_heap t len" "all_free t len (view (vma_map (vm_manager p)))" "len \<le> card (free_set (own_region p))"
    "in_s32 (commit_of p + int len)"
  shows "\<exists>p' T. HeapAllocate cached fcram t len perms state False p = Some (p', Inr t) \<and> process_ok ext p' \<and>
    T \<subseteq> free_set (own_region p) \<and> card T = len \<and> (\<forall>x \<in> T. \<forall>y \<in> free_set (own_region p) - T. y < x) \<and>
    free_set (own_region p') = free_set (own_region p) - T \<and>
    iv_points (holding_memory p') = iv_points (holding_memory p) \<union> T \<and>
    memory_used p' = memory_used p + len \<and> commit_of p' = commit_of p + int len \<and>
    (\<forall>a. t \<le> a \<and> a < t + len \<longrightarrow>
       view (vma_map (vm_manager p')) a = Some (BackingMemory, perms, state, fcram + sorted_list_of_set T ! (a - t))) \<and>
    (\<forall>a. \<not> (t \<le> a \<and> a < t + len) \<longrightarrow>
       maybe_reprotected perms (view (vma_map (vm_manager p)) a) (view (vma_map (vm_manager p')) a))"
  by (rule HeapAllocate_process [OF assms])

theorem HeapAllocate_maps_witness:
  "\<exists>p'. HeapAllocate (\<lambda>_. False) 0x1000 0x08000000 0x2000 PermReadWrite StPrivate False demo_process =
      Some (p', Inr 0x08000000) \<and> memory_used p' = 0x2000 \<and> commit_of p' = 0x2000"
proof -
  have a: "all_free 0x08000000 0x2000 (view (vma_map (vm_manager demo_process)))"
    by (simp add: demo_process_def demo_vm_ok(3) demo_free MAX_ADDRESS_def)
  have f: "0x2000 \<le> card (free_set (own_region demo_process))"
    by (simp add: own_region_def demo_process_def demo_region_free card_Un_disjoint)
  have c: "commit_of demo_process = 0" "memory_used demo_process = 0"
    by (simp_all add: commit_of_def demo_process_def Create_def)
  have "page_aligned 0x08000000" "\<not> outside_heap 0x08000000 0x2000" "in_s32 (commit_of demo_process + int 0x2000)"
    by (simp_all add: page_aligned_def CITRA_PAGE_SIZE_def outside_heap_def HEAP_VADDR_def HEAP_VADDR_END_def add32_def c in_s32_def)
  then obtain p' where "HeapAllocate (\<lambda>_. False) 0x1000 0x08000000 0x2000 PermReadWrite StPrivate False demo_process =
      Some (p', Inr 0x08000000)" "memory_used p' = memory_used demo_process + 0x2000"
      "commit_of p' = commit_of demo_process + int 0x2000"
    using HeapAllocate_maps [OF demo_process_ok demo_fcram_host _ demo_args(2) _ _ a f,
        where cached = "\<lambda>_. False" and perms = PermReadWrite and state = StPrivate]
    by (metis zero_less_numeral)
  then show ?thesis by (simp add: c)
qed



text \<open>C21: A thread gets a slot of thread-local storage that no other thread of the process has: the
  address was not in use, and afterwards exactly it is added; the request is refused, changing nothing,
  only when all slots are taken and the BASE region has no free page.\<close>

theorem AllocateThreadLocalStorage_fresh:
  assumes "process_ok ext p" "fcram_host fcram ext" "tls_pages_ok p" "length (tls_slots p) + 1 < 2 ^ 16"
  shows "case AllocateThreadLocalStorage cached fcram p of
      None \<Rightarrow> False
    | Some (p', Inl e) \<Rightarrow> p' = p \<and> e = ResultOutOfMemory \<and> (\<forall>page \<in> set (tls_slots p). False \<notin> set page) \<and>
        (\<forall>b. \<not> {b..<b + CITRA_PAGE_SIZE} \<subseteq> free_set (region_of BASE p))
    | Some (p', Inr a) \<Rightarrow> a \<notin> tls_used p \<and> tls_used p' = insert a (tls_used p) \<and> tls_pages_ok p'"
proof -
  have address: "(TLS_AREA_VADDR + i * CITRA_PAGE_SIZE + j * TLS_ENTRY_SIZE) mod 2 ^ 32 = tls_address i j"
    if "i < 2 ^ 16" "j < 8" for i j
    using that by (simp add: tls_address_def TLS_AREA_VADDR_def CITRA_PAGE_SIZE_def TLS_ENTRY_SIZE_def)
  show ?thesis
  proof (cases "find_tls_slot (tls_slots p)")
    case (Some ij)
    obtain i j where ij: "ij = (i, j)" by force
    have f: "i < length (tls_slots p)" "j < 8" "\<not> tls_slots p ! i ! j" "i < 2 ^ 16"
      using find_tls_slot_Some [OF Some [unfolded ij]] assms(3) by (auto simp: tls_pages_ok_def)
    show ?thesis
      using Some ij mark_slot [OF assms(3) f(1-3)] address [OF f(4,2)]
      by (simp add: AllocateThreadLocalStorage_def)
  next
    case None
    note full = find_tls_slot_None [OF None]
    from new_tls_page_spec [OF assms, of cached] show ?thesis
    proof
      assume "\<exists>p'. new_tls_page cached fcram p = Some (Inl p') \<and> tls_slots p' = tls_slots p @ [replicate 8 False]"
      then obtain p1 where p1: "new_tls_page cached fcram p = Some (Inl p1)" "tls_slots p1 = tls_slots p @ [replicate 8 False]"
        by blast
      have ok1: "tls_pages_ok p1" using assms(3,4) p1(2) by (auto simp: tls_pages_ok_def)
      have used: "tls_used p1 = tls_used p"
        unfolding tls_used_def p1(2) by (auto simp: nth_append less_Suc_eq)
      have n: "length (tls_slots p) < length (tls_slots p1)" "\<not> tls_slots p1 ! length (tls_slots p) ! 0"
        "length (tls_slots p) < 2 ^ 16"
        using p1(2) assms(4) by simp_all
      show ?thesis
        using None p1 mark_slot [OF ok1 n(1) _ n(2)] address [OF n(3), of 0]
        by (simp add: AllocateThreadLocalStorage_def used)
    qed (use None full in \<open>simp add: AllocateThreadLocalStorage_def\<close>)
  qed
qed

theorem AllocateThreadLocalStorage_fresh_witness:
  "case AllocateThreadLocalStorage (\<lambda>_. False) 0x1000 demo_process of
     Some (p', Inr a) \<Rightarrow> tls_used p' = {a} | _ \<Rightarrow> False"
proof -
  have f: "{0x7000..<0x7000 + CITRA_PAGE_SIZE} \<subseteq> free_set (region_of BASE demo_process)"
    by (simp add: region_of_def demo_process_def numeral_2_eq_2 whole_region_def free_set_def CITRA_PAGE_SIZE_def)
  have "tls_pages_ok demo_process" "length (tls_slots demo_process) + 1 < 2 ^ 16" "tls_used demo_process = {}"
    by (simp_all add: tls_pages_ok_def demo_process_def tls_used_def)
  with AllocateThreadLocalStorage_fresh [OF demo_process_ok demo_fcram_host this(1,2), of "\<lambda>_. False"] f show ?thesis
    by (auto split: option.splits sum.splits)
qed

text \<open>A process that holds one page of the linear heap, readable and writable.\<close>

definition linear_area :: "nat \<Rightarrow> nat \<Rightarrow> u8 \<Rightarrow> vma" where
  "linear_area offset len perms = \<lparr>vma_base = LINEAR_HEAP_VADDR + offset, vma_size = len, vma_type = BackingMemory,
     vma_perms = perms, vma_state = StContinuous,
     vma_backing = \<lparr>ref_ptr = 0x1000 + offset, ref_size = FCRAM_N3DS_SIZE - offset\<rparr>\<rparr>"

definition free_area :: "nat \<Rightarrow> nat \<Rightarrow> vma" where
  "free_area base len = \<lparr>vma_base = base, vma_size = len, vma_type = Free, vma_perms = PermNone, vma_state = StFree,
     vma_backing = null_ref\<rparr>"

definition demo_linear :: process where
  "demo_linear = demo_process\<lparr>
     vm_manager := blank_vm\<lparr>vma_map := [free_area 0 LINEAR_HEAP_VADDR, linear_area 0 0x1000 PermReadWrite,
       free_area (LINEAR_HEAP_VADDR + 0x1000) (MAX_ADDRESS - LINEAR_HEAP_VADDR - 0x1000)]\<rparr>,
     memory_used := 0x1000, holding_memory := [(0, 0x1000)],
     memory_regions := [(whole_region 0 0x6000)\<lparr>rg_used := 0x1000, free_blocks := [(0x1000, 0x6000)]\<rparr>,
       whole_region 0x6000 0x1000, whole_region 0x7000 0x1000]\<rparr>"

lemma MapPages_two: "MapPages cached ty b 2 mem pt = MapPages cached ty b (Suc (Suc 0)) mem pt"
  by (simp add: numeral_2_eq_2)

text \<open>An allocation can change the permissions of memory the process already had: the new block is
  merged with the area before it as soon as it is mapped, and the reprotection that follows is of the merged
  area. Here a second page of the linear heap, allocated read-only, takes the right to write from the first.\<close>

lemma LinearAllocate_reprotects_neighbour:
  "map_option (\<lambda>(p, r). (vma_map (vm_manager p), r)) (LinearAllocate (\<lambda>_. False) 0x1000 0 0x1000 PermRead demo_linear) =
     Some ([free_area 0 LINEAR_HEAP_VADDR, linear_area 0 0x2000 PermRead,
       free_area (LINEAR_HEAP_VADDR + 0x2000) (MAX_ADDRESS - LINEAR_HEAP_VADDR - 0x2000)], Inr (LINEAR_HEAP_VADDR + 0x1000)) \<and>
   view (vma_map (vm_manager demo_linear)) LINEAR_HEAP_VADDR = Some (BackingMemory, PermReadWrite, StContinuous, 0x1000) \<and>
   view [free_area 0 LINEAR_HEAP_VADDR, linear_area 0 0x2000 PermRead,
       free_area (LINEAR_HEAP_VADDR + 0x2000) (MAX_ADDRESS - LINEAR_HEAP_VADDR - 0x2000)] LINEAR_HEAP_VADDR =
     Some (BackingMemory, PermRead, StContinuous, 0x1000)"
  by (simp add: demo_linear_def demo_process_def blank_vm_def linear_area_def free_area_def whole_region_def view_Cons
      inside_def vma_end_def attr_def LinearAllocate_def linear_place_def own_region_def region_LinearAllocate_def
      GetLinearHeapAreaAddress_def LINEAR_HEAP_VADDR_def MAX_ADDRESS_def GetFCRAMRef_def FCRAM_N3DS_SIZE_def
      MapBackingMemory_def CarveVMA_def FindVMA_def upper_bound_def add32_def page_aligned_def CITRA_PAGE_SIZE_def
      SplitVMA_def CanBeMergedWith_def modify_vma_def UpdatePageTableForVMA_def MapMemoryRegion_def map_region_def
      map_page_def MergeAdjacent_def merge_next_def merge_prev_def PAGE_TABLE_NUM_ENTRIES_def null_ref_def
      Reprotect_def PermReadWrite_def PermRead_def PermNone_def count_commit_def Reserve_def Create_def in_s32_def
      set_region_def ref_add_def MapPages_two Let_def)

end
