(* ===== verification/Timer_Callbacks.thy ===== *)
theory Timer_Callbacks
  imports Kernel_Machine
begin

text \<open>
  The event loop of a core on the real kernel: the callbacks that the kernel registers with
  \<open>Timing::RegisterEvent\<close> (the wakeup of a thread, the kernel timers, the ticks of the CPU limiters)
  run by \<open>Timer::Advance\<close>. The kernel interprets the interface \<open>event_callbacks\<close> of the event loop, so
  advancing a core always comes to an end.
\<close>

section \<open>The registered callbacks\<close>

text \<open>\<open>scaled\<close> is the limiter's float product, as in \<open>ChangeState\<close>.\<close>

definition kernel_callback ::
  "(int \<Rightarrow> int) \<Rightarrow> kernel_event \<Rightarrow> nat \<Rightarrow> int \<Rightarrow> 'm kernel \<Rightarrow> 'm kernel option" where
  "kernel_callback scaled ev data late =
     (case ev of
        ThreadWakeup c \<Rightarrow> ThreadWakeupCallback c data
      | TimerFired \<Rightarrow> TimerCallback data late
      | LimiterTick mode \<Rightarrow> OnTick scaled mode late)"

definition core_timer :: "nat \<Rightarrow> 'm kernel \<Rightarrow> kernel_event timer" where
  "core_timer c k = timers (timing k) ! c"

definition put_core_timer :: "nat \<Rightarrow> kernel_event timer \<Rightarrow> 'm kernel \<Rightarrow> 'm kernel" where
  "put_core_timer c t k = k\<lparr>timing := (timing k)\<lparr>timers := (timers (timing k))[c := t]\<rparr>\<rparr>"

definition AdvanceCore :: "(int \<Rightarrow> int) \<Rightarrow> nat \<Rightarrow> 'm kernel \<Rightarrow> 'm kernel option" where
  "AdvanceCore scaled c = Advance (core_timer c) (put_core_timer c) (kernel_callback scaled)"

section \<open>What the kernel operations leave alone\<close>

text \<open>Of an object, an event refers to whether it is a thread, and to a timer's id and interval.\<close>

definition timer_view :: "wait_object \<Rightarrow> (nat \<times> int) option" where
  "timer_view w = (case w of WTimer tm \<Rightarrow> Some (callback_id tm, interval_delay tm) | _ \<Rightarrow> None)"

definition event_frame :: "'m kernel \<Rightarrow> 'm kernel \<Rightarrow> bool" where
  "event_frame k k' \<longleftrightarrow> timing k' = timing k \<and> timer_callback_table k' = timer_callback_table k \<and>
     map wakeup_callback_table (managers k') = map wakeup_callback_table (managers k) \<and>
     is_thread k' = is_thread k \<and> (\<forall>x. timer_view (wait_objs k' x) = timer_view (wait_objs k x))"

lemma event_frame_refl [simp]: "event_frame k k"
  by (simp add: event_frame_def)

lemma event_frame_trans [trans]: "event_frame k1 k2 \<Longrightarrow> event_frame k2 k3 \<Longrightarrow> event_frame k1 k3"
  by (simp add: event_frame_def)

named_theorems event_frames

lemma event_frame_upd_thread [event_frames]: "event_frame k k' \<Longrightarrow> event_frame k (upd_thread t f k')"
  by (simp add: event_frame_def)

lemma event_frame_set_waiting [event_frames]: "event_frame k k' \<Longrightarrow> event_frame k (set_waiting ob ts k')"
  by (simp add: event_frame_def is_thread_def)

lemma event_frame_PrepareReschedule [event_frames]: "event_frame k k' \<Longrightarrow> event_frame k (PrepareReschedule k')"
  by (simp add: event_frame_def is_thread_def)

lemma event_frame_set_object [event_frames]:
  "event_frame k k' \<Longrightarrow> timer_view w = timer_view (wait_objs k' ob) \<Longrightarrow> (w = WThread \<longleftrightarrow> is_thread k' ob) \<Longrightarrow>
   event_frame k (set_object ob w k')"
  by (auto simp: event_frame_def is_thread_def fun_eq_iff)

lemma event_frame_upd_mutex [event_frames]: "event_frame k k' \<Longrightarrow> event_frame k (upd_mutex ob f k')"
  by (auto simp: upd_mutex_def timer_view_def is_thread_def intro!: event_frames split: wait_object.split)

lemma event_frame_set_queue [event_frames]: "event_frame k k' \<Longrightarrow> event_frame k (set_queue c q k')"
  by (simp add: event_frame_def is_thread_def set_queue_def map_update_same)

lemma event_frame_fields [event_frames]:
  "event_frame k k' \<Longrightarrow> event_frame k (k'\<lparr>hle_notifications := ns\<rparr>)"
  "event_frame k k' \<Longrightarrow> event_frame k (k'\<lparr>arbiter_threads := ar\<rparr>)"
  by (simp_all add: event_frame_def is_thread_def fun_eq_iff)

text \<open>The same for an operation that may fail, from a state \<open>k\<close> before it.\<close>

definition frames :: "'m kernel \<Rightarrow> 'm kernel option \<Rightarrow> bool" where
  "frames k r \<longleftrightarrow> (\<forall>k'. r = Some k' \<longrightarrow> event_frame k k')"

lemma frames_simps [simp]: "frames k None" "frames k (Some k') \<longleftrightarrow> event_frame k k'"
  by (simp_all add: frames_def)

lemma frames_bind [event_frames]:
  "frames k r \<Longrightarrow> (\<And>k'. event_frame k k' \<Longrightarrow> frames k (f k')) \<Longrightarrow> frames k (Option.bind r f)"
  by (cases r) simp_all

lemma frames_value: "(\<And>x. frames k (f x)) \<Longrightarrow> frames k (Option.bind r f)"
  by (cases r) simp_all

lemma frames_guard [event_frames]: "(P \<Longrightarrow> frames k r) \<Longrightarrow> frames k (Option.bind (assertion P) (\<lambda>_. r))"
  by (cases P) simp_all

lemma frames_if [event_frames]: "(P \<Longrightarrow> frames k r) \<Longrightarrow> (\<not> P \<Longrightarrow> frames k s) \<Longrightarrow> frames k (if P then r else s)"
  by simp

lemma event_frame_if [event_frames]: "(P \<Longrightarrow> event_frame k r) \<Longrightarrow> (\<not> P \<Longrightarrow> event_frame k s) \<Longrightarrow> event_frame k (if P then r else s)"
  by simp

lemma frames_for_each [event_frames]:
  "(\<And>x k'. event_frame k k' \<Longrightarrow> frames k (f x k')) \<Longrightarrow> event_frame k k1 \<Longrightarrow> frames k (for_each f xs k1)"
  by (induction xs arbitrary: k1) (auto intro: frames_bind)

lemma frames_on_queue [event_frames]: "event_frame k k1 \<Longrightarrow> frames k (on_queue c f k1)"
  unfolding on_queue_def by (cases "c < length (managers k1)"; cases "f (ready_queue (managers k1 ! c))")
    (simp_all add: event_frames)

lemma frames_UpdatePriority [event_frames]: "event_frame k k1 \<Longrightarrow> frames k (UpdatePriority t k1)"
  unfolding UpdatePriority_def BoostPriority_def move_thread_def Let_def by (intro event_frames | simp)+

lemma frames_Acquire [event_frames]: "event_frame k k1 \<Longrightarrow> frames k (Acquire ob t k1)"
  unfolding Acquire_def mutex_acquire_def Let_def
  by (cases "wait_objs k1 ob")
    (auto simp: timer_view_def is_thread_def intro!: event_frames)

lemma frames_mutex_UpdatePriority [event_frames]: "event_frame k k1 \<Longrightarrow> frames k (mutex_UpdatePriority ob k1)"
  unfolding mutex_UpdatePriority_def
  by (auto simp: Let_def timer_view_def is_thread_def split: wait_object.split option.split intro!: event_frames)

lemma frames_RemoveWaitingThread [event_frames]: "event_frame k k1 \<Longrightarrow> frames k (RemoveWaitingThread ob t k1)"
  by (auto simp: RemoveWaitingThread_def Let_def split: wait_object.split intro!: event_frames)

lemma frames_WakeUp [event_frames]: "event_frame k k1 \<Longrightarrow> frames k (WakeUp reason t ob k1)"
  by (auto simp: WakeUp_def Let_def SetWaitSynchronizationResult_def SetWaitSynchronizationOutput_def
      split: option.split wakeup_callback.split intro!: event_frames frames_value)

lemma frames_leave_objects [event_frames]: "event_frame k k1 \<Longrightarrow> frames k (leave_objects t k1)"
  by (auto simp: leave_objects_def intro!: event_frames)

lemma frames_ResumeFromWait [event_frames]: "event_frame k k1 \<Longrightarrow> frames k (ResumeFromWait t k1)"
  unfolding ResumeFromWait_def make_ready_def push_ready_def
  by (cases "status (threads k1 t)") (auto intro!: event_frames)

lemma frames_wake_one [event_frames]: "event_frame k k1 \<Longrightarrow> frames k (wake_one ob t k1)"
  by (auto simp: wake_one_def intro!: event_frames)

lemma wakeup_loop_frame:
  assumes "wakeup_loop ob k = Some k'"
  shows "event_frame k k'"
proof (rule wakeup_loop.raw_induct [OF _ assms])
  fix loop ob and k k' :: "'a kernel"
  assume IH: "\<And>ob k k'. loop ob k = Some k' \<Longrightarrow> event_frame k (k' :: 'a kernel)"
    and "Option.bind (GetHighestPriorityReadyThread ob k) (\<lambda>r. case r of
      None \<Rightarrow> Some (notify_hle ob k) | Some t \<Rightarrow> Option.bind (wake_one ob t k) (loop ob)) = Some k'"
  then obtain r where r: "GetHighestPriorityReadyThread ob k = Some r"
    "(case r of None \<Rightarrow> Some (notify_hle ob k) | Some t \<Rightarrow> Option.bind (wake_one ob t k) (loop ob)) = Some k'"
    by (auto simp: bind_eq_Some_conv)
  show "event_frame k k'"
  proof (cases r)
    case None
    with r show ?thesis by (auto simp: notify_hle_def intro!: event_frames)
  next
    case (Some t)
    with r obtain k1 where k1: "wake_one ob t k = Some k1" "loop ob k1 = Some k'"
      by (auto simp: bind_eq_Some_conv)
    with frames_wake_one [OF event_frame_refl [of k], of ob t] have "event_frame k k1"
      by simp
    with IH [OF k1(2)] event_frame_trans show ?thesis
      by blast
  qed
qed

lemma frames_WakeupAll [event_frames]:
  assumes "event_frame k k1"
  shows "frames k (WakeupAllWaitingThreads ob k1)"
proof -
  have "frames k (wakeup_loop ob k1)"
    using wakeup_loop_frame [of ob k1] assms event_frame_trans by (auto simp: frames_def)
  then show ?thesis
    unfolding WakeupAllWaitingThreads_def
    by (rule frames_bind)
      (auto simp: end_pulse_def timer_view_def is_thread_def split: wait_object.split intro!: event_frames)
qed

lemma ThreadWakeupCallback_frame: "ThreadWakeupCallback c tid k = Some k' \<Longrightarrow> event_frame k k'"
proof -
  have "frames k (ThreadWakeupCallback c tid k)"
    unfolding ThreadWakeupCallback_def
    by (cases "wakeup_callback_table (managers k ! c) tid") (auto intro!: event_frames)
  then show "ThreadWakeupCallback c tid k = Some k' \<Longrightarrow> event_frame k k'"
    by simp
qed

section \<open>The states in which the events can be run\<close>

text \<open>
  Intervals for which a periodic timer moves forward: at least one ARM11 cycle, which takes 4 ns, and
  in the range of the \<open>s64\<close> that \<open>Timer::Set\<close> is given.
\<close>

definition period_ok :: "int \<Rightarrow> bool" where
  "period_ok p \<longleftrightarrow> p = 0 \<or> 4 \<le> p \<and> p < 2 ^ 63"

text \<open>An event finds what its callback looks up.\<close>

definition event_ok :: "'m kernel \<Rightarrow> kernel_event event \<Rightarrow> bool" where
  "event_ok k e = (case ev_type e of
     ThreadWakeup d \<Rightarrow> d < length (managers k) \<and>
       (\<exists>t. wakeup_callback_table (managers k ! d) (user_data e) = Some t \<and> is_thread k t)
   | TimerFired \<Rightarrow> (\<exists>ob p. timer_callback_table k (user_data e) = Some ob \<and>
       timer_view (wait_objs k ob) = Some (user_data e, p) \<and> period_ok p)
   | LimiterTick mode \<Rightarrow> False)"

definition timer_events :: "'e timer \<Rightarrow> 'e event set" where
  "timer_events t = set (event_queue t) \<union> set (ts_queue t)"

definition events_ok :: "'m kernel \<Rightarrow> bool" where
  "events_ok k \<longleftrightarrow> (\<forall>t \<in> set (timers (timing k)). \<forall>e \<in> timer_events t. event_ok k e)"

text \<open>
  The clock at \<open>now\<close> is in range (\<open>2^62\<close> ticks are 545 years) and no event is later than the
  \<open>int\<close> that \<open>cycles_late\<close> is cut to can hold.
\<close>

definition clock_ok :: "int \<Rightarrow> 'e timer \<Rightarrow> bool" where
  "clock_ok now t \<longleftrightarrow> timer_inv t \<and> 0 \<le> now \<and> now < 2 ^ 62 \<and>
     (\<forall>e \<in> timer_events t. now - ev_time e < 2 ^ 31)"

definition in_loop :: "nat \<Rightarrow> 'm kernel \<Rightarrow> bool" where
  "in_loop c k \<longleftrightarrow> kernel_inv k \<and> current_timer (timing k) = c \<and> events_ok k \<and>
     (let t = core_timer c k in clock_ok (executed_ticks t) t \<and> slice_length t = 0 \<and> downcount t = 0)"

text \<open>The timers of the other cores.\<close>

definition others :: "nat \<Rightarrow> 'm kernel \<Rightarrow> kernel_event timer list \<times> kernel_event timer list" where
  "others c k = (take c (timers (timing k)), drop (Suc c) (timers (timing k)))"

lemma others_put [simp]: "others c (put_core_timer c t k) = others c k"
  by (simp add: others_def put_core_timer_def)

lemma in_loopD:
  assumes "in_loop c k"
  shows "kernel_inv k" "current_timer (timing k) = c" "c < length (timers (timing k))" "c < length (managers k)"
    "events_ok k" "clock_ok (executed_ticks (core_timer c k)) (core_timer c k)"
    "slice_length (core_timer c k) = 0" "downcount (core_timer c k) = 0"
  using assms kernel_invD(5,6) [of k] by (auto simp: in_loop_def Let_def static_ok_def)

lemma core_timer_put [simp]:
  "c < length (timers (timing k)) \<Longrightarrow> core_timer c (put_core_timer c t k) = t"
  "d \<noteq> c \<Longrightarrow> core_timer d (put_core_timer c t k) = core_timer d k"
  by (simp_all add: core_timer_def put_core_timer_def)

lemma put_core_timer_simps [simp]:
  "managers (put_core_timer c t k) = managers k" "wait_objs (put_core_timer c t k) = wait_objs k"
  "is_thread (put_core_timer c t k) = is_thread k" "threads (put_core_timer c t k) = threads k"
  "timer_callback_table (put_core_timer c t k) = timer_callback_table k"
  "current_timer (timing (put_core_timer c t k)) = current_timer (timing k)"
  "timers (timing (put_core_timer c t k)) = (timers (timing k))[c := t]"
  by (simp_all add: put_core_timer_def is_thread_def fun_eq_iff)

lemma kernel_inv_put: "kernel_inv k \<Longrightarrow> kernel_inv (put_core_timer c t k)"
  unfolding put_core_timer_def by (rule kernel_inv_timing) simp_all

lemma event_ok_put [simp]: "event_ok (put_core_timer c t k) = event_ok k"
  by (simp add: event_ok_def fun_eq_iff split: kernel_event.split)

lemma event_ok_frame:
  assumes "event_frame k k'"
  shows "event_ok k' = event_ok k"
proof -
  have m: "map wakeup_callback_table (managers k') = map wakeup_callback_table (managers k)"
    using assms by (simp add: event_frame_def)
  then have "length (managers k') = length (managers k)"
    by (rule map_eq_imp_length_eq)
  moreover from m this have "wakeup_callback_table (managers k' ! d) = wakeup_callback_table (managers k ! d)"
    if "d < length (managers k)" for d
    by (metis nth_map that)
  ultimately show ?thesis
    using assms by (auto simp: event_ok_def event_frame_def fun_eq_iff split: kernel_event.split)
qed

lemma events_ok_put:
  assumes "events_ok k" "\<And>e. e \<in> timer_events t \<Longrightarrow> event_ok k e"
  shows "events_ok (put_core_timer c t k)"
  using assms set_update_subset_insert [of "timers (timing k)" c t] by (auto simp: events_ok_def)

lemma in_loop_put:
  assumes "in_loop c k" "\<And>e. e \<in> timer_events t \<Longrightarrow> event_ok k e" "clock_ok (executed_ticks t) t"
    "slice_length t = 0" "downcount t = 0"
  shows "in_loop c (put_core_timer c t k)"
  using assms events_ok_put [OF in_loopD(5) [OF assms(1)] assms(2)]
  by (simp add: in_loop_def Let_def in_loopD(3) [OF assms(1)] kernel_inv_put)

lemma in_loop_frame:
  assumes "in_loop c k" "event_frame k k'" "kernel_inv k'"
  shows "in_loop c k'"
  using assms by (simp add: in_loop_def Let_def events_ok_def event_ok_frame [OF assms(2)] core_timer_def event_frame_def)

lemma core_timer_events: "in_loop c k \<Longrightarrow> e \<in> timer_events (core_timer c k) \<Longrightarrow> event_ok k e"
  using in_loopD(3,5) [of c k] by (auto simp: events_ok_def core_timer_def)

section \<open>A callback moves its event forward\<close>

text \<open>An interval is at least a cycle, and far from the end of the \<open>s64\<close>.\<close>

lemma nsToCycles_u64_period:
  assumes "period_ok p" "p \<noteq> 0"
  shows "1 \<le> nsToCycles_u64 p \<and> nsToCycles_u64 p < 2 ^ 62"
proof -
  have p: "4 \<le> p" "p < 9223372036854775808"
    using assms by (simp_all add: period_ok_def)
  then have s: "to_s64 p = p" "p div 1000000000 \<le> 9223372036" "0 < sgn p"
    by simp_all
  show ?thesis
  proof (cases "p > MAX_VALUE_TO_MULTIPLY")
    case True
    then have "34 \<le> p div 1000000000"
      by (simp add: MAX_VALUE_TO_MULTIPLY_eq)
    with True p s show ?thesis
      by (simp add: nsToCycles_u64_def trunc_div_def MAX_VALUE_TO_MULTIPLY_eq BASE_CLOCK_RATE_ARM11_def)
  next
    case False
    then have "1 \<le> 268111856 * p div 1000000000" "268111856 * p div 1000000000 \<le> 9223372037"
      using p by (simp_all add: MAX_VALUE_TO_MULTIPLY_eq)
    with False p s show ?thesis
      by (simp add: nsToCycles_u64_def MAX_VALUE_TO_MULTIPLY_eq BASE_CLOCK_RATE_ARM11_def)
  qed
qed

lemma clock_ok_enqueue:
  assumes "clock_ok now t" "now - time < 2 ^ 31"
  shows "clock_ok now (enqueue time data ty t)"
  using assms by (auto simp: clock_ok_def enqueue_inv timer_events_def enqueue_queue)

text \<open>Scheduling from inside the loop, where no slice is running.\<close>

lemma schedule_in_loop:
  assumes k: "in_loop c k" and cyc: "\<bar>cycles\<bar> < 2 ^ 62"
  shows "schedule cycles ty d k =
    Some (if event_queue_locked (timing k) then k
          else put_core_timer c (enqueue (executed_ticks (core_timer c k) + cycles) d ty (core_timer c k)) k)"
proof -
  note L = in_loopD [OF k]
  let ?t = "core_timer c k"
  have now: "0 \<le> executed_ticks ?t" "executed_ticks ?t < 2 ^ 62"
    using L(6) by (simp_all add: clock_ok_def)
  have "timer_ticks ?t = executed_ticks ?t"
    using now L(7,8) by (simp add: timer_ticks_def)
  moreover have "ForceExceptionCheck cycles ?t = ?t"
    using L(8) by (simp add: ForceExceptionCheck_def Let_def)
  moreover have "to_s64 (executed_ticks ?t + cycles) = executed_ticks ?t + cycles"
    using now cyc by (intro to_s64_id) (simp_all add: abs_less_iff)
  ultimately have "schedule_here cycles d ty ?t = enqueue (executed_ticks ?t + cycles) d ty ?t"
    by (simp add: schedule_here_def Let_def)
  with L(2,3) show ?thesis
    by (simp add: schedule_def ScheduleEvent_def put_core_timer_def core_timer_def)
qed

lemma due_weight_pop:
  assumes "event_queue t = e # rest"
  shows "due_weight t = nat (executed_ticks t + 1 - ev_time e) + due_weight (t\<lparr>event_queue := rest\<rparr>)"
  using assms by (simp add: due_weight_def)

text \<open>A timer's callback signals it and, when it repeats, queues it at least one cycle later than it was due.\<close>

lemma TimerCallback_step:
  assumes k: "in_loop c k" and e: "event_ok k \<lparr>ev_time = v, fifo_order = f, user_data = d, ev_type = TimerFired\<rparr>"
    and late: "0 \<le> late" "late < 2 ^ 31"
  obtains k' where "TimerCallback d late k = Some k'" "in_loop c k'"
    "executed_ticks (core_timer c k') = executed_ticks (core_timer c k)"
    "due_weight (core_timer c k') \<le> due_weight (core_timer c k) + nat late" "others c k' = others c k"
proof -
  note L = in_loopD [OF k]
  from e obtain ob p where ob: "timer_callback_table k d = Some ob" "timer_view (wait_objs k ob) = Some (d, p)" "period_ok p"
    by (auto simp: event_ok_def)
  then obtain tm where tm: "wait_objs k ob = WTimer tm" "callback_id tm = d" "interval_delay tm = p"
    by (auto simp: timer_view_def split: wait_object.splits)
  let ?k0 = "set_object ob (WTimer (tm\<lparr>timer_signaled := True\<rparr>)) k"
  have i0: "kernel_inv ?k0"
    by (rule kernel_inv_set_object [OF L(1)]) (simp_all add: tm mutex_view_def)
  have f0: "event_frame k ?k0"
    by (rule event_frame_set_object) (simp_all add: tm timer_view_def is_thread_def)
  obtain k1 ws where k1: "WakeupAllWaitingThreads ob ?k0 = Some k1" "woke_all ob ?k0 k1 ws"
    by (rule WakeupAll_spec [OF kernel_invD(1) [OF i0]])
  have f1: "event_frame k k1"
    using frames_WakeupAll [OF f0, of ob] k1(1) by simp
  have l1: "in_loop c k1"
    by (rule in_loop_frame [OF k f1 kernel_inv_woken [OF i0 k1(2)]])
  have t1: "core_timer c k1 = core_timer c k" "others c k1 = others c k"
    using f1 by (simp_all add: event_frame_def core_timer_def others_def)
  have run: "TimerCallback d late k = (if p \<noteq> 0 then schedule (nsToCycles_u64 p - late) TimerFired d k1 else Some k1)"
    using ob(1) tm k1(1) by (simp add: TimerCallback_def timer_Signal_def)
  show thesis
  proof (cases "p \<noteq> 0 \<and> \<not> event_queue_locked (timing k1)")
    case False
    have "\<bar>nsToCycles_u64 p - late\<bar> < 2 ^ 62" if "p \<noteq> 0"
      using nsToCycles_u64_period [OF ob(3) that] late by (simp add: abs_less_iff)
    with False run l1 have "TimerCallback d late k = Some k1"
      by (auto simp: schedule_in_loop)
    with l1 t1 that show thesis by simp
  next
    case True
    note cyc = nsToCycles_u64_period [OF ob(3) conjunct1 [OF True]]
    let ?t = "core_timer c k1" and ?time = "executed_ticks (core_timer c k1) + (nsToCycles_u64 p - late)"
    have "TimerCallback d late k = Some (put_core_timer c (enqueue ?time d TimerFired ?t) k1)"
      using True run l1 cyc late by (simp add: schedule_in_loop abs_less_iff)
    moreover have "in_loop c (put_core_timer c (enqueue ?time d TimerFired ?t) k1)"
    proof (rule in_loop_put [OF l1])
      show "event_ok k1 e'" if "e' \<in> timer_events (enqueue ?time d TimerFired ?t)" for e'
        using that core_timer_events [OF l1, of e'] ob
        by (auto simp: timer_events_def enqueue_queue event_ok_frame [OF f1] event_ok_def)
      show "clock_ok (executed_ticks (enqueue ?time d TimerFired ?t)) (enqueue ?time d TimerFired ?t)"
        using in_loopD(6) [OF l1] cyc late by (intro clock_ok_enqueue) simp_all
    qed (use in_loopD [OF l1] in simp_all)
    moreover have "nat (executed_ticks ?t + 1 - ?time) \<le> nat late"
      using cyc by (intro nat_mono) simp
    ultimately show thesis
      using that in_loopD(3) [OF l1] t1 by (simp add: due_weight_enqueue)
  qed
qed

lemma kernel_callback_step:
  assumes k: "in_loop c k" and q: "event_queue (core_timer c k) = e # rest"
    and due: "ev_time e \<le> executed_ticks (core_timer c k)"
  shows "\<exists>k'. kernel_callback scaled (ev_type e) (user_data e) (to_s32 (executed_ticks (core_timer c k) - ev_time e))
      (put_core_timer c ((core_timer c k)\<lparr>event_queue := rest\<rparr>) k) = Some k' \<and>
    (in_loop c k' \<and> others c k' = others c k) \<and>
    executed_ticks (core_timer c k') = executed_ticks (core_timer c k) \<and>
    due_weight (core_timer c k') < due_weight (core_timer c k)"
proof -
  note L = in_loopD [OF k]
  define late where "late = executed_ticks (core_timer c k) - ev_time e"
  let ?t = "(core_timer c k)\<lparr>event_queue := rest\<rparr>"
  let ?k = "put_core_timer c ?t k"
  have sub: "timer_events ?t \<subseteq> timer_events (core_timer c k)" "e \<in> timer_events (core_timer c k)"
    using q by (auto simp: timer_events_def)
  have late: "0 \<le> late" "late < 2 ^ 31" "to_s32 late = late"
    using L(6) sub(2) due by (auto simp: late_def clock_ok_def)
  have "timer_inv ?t"
    using L(6) q by (auto simp: clock_ok_def timer_inv_def)
  then have i: "in_loop c ?k"
    using L sub core_timer_events [OF k] by (intro in_loop_put [OF k]) (auto simp: clock_ok_def)
  have e: "event_ok ?k e"
    using core_timer_events [OF k sub(2)] by simp
  have t: "core_timer c ?k = ?t" "due_weight (core_timer c k) = nat (late + 1) + due_weight ?t"
    using L(3) due_weight_pop [OF q] by (simp_all add: late_def)
  have goal: ?thesis if "kernel_callback scaled (ev_type e) (user_data e) late ?k = Some k'" "in_loop c k'"
    "others c k' = others c ?k"
    "executed_ticks (core_timer c k') = executed_ticks ?t" "due_weight (core_timer c k') \<le> due_weight ?t + nat late" for k'
    using that t(2) late by (auto simp flip: late_def)
  show ?thesis
  proof (cases "ev_type e")
    case (ThreadWakeup d)
    with e obtain t0 where t0: "wakeup_callback_table (managers ?k ! d) (user_data e) = Some t0" "is_thread ?k t0"
      by (auto simp: event_ok_def)
    obtain k' where k': "ThreadWakeupCallback d (user_data e) ?k = Some k'" "kernel_inv k'"
      by (rule ThreadWakeupCallback_spec [OF in_loopD(1) [OF i] t0])
    note f = ThreadWakeupCallback_frame [OF k'(1)]
    show ?thesis
      by (rule goal [OF _ in_loop_frame [OF i f k'(2)]])
        (use f k'(1) ThreadWakeup t(1) in \<open>simp_all add: kernel_callback_def event_frame_def core_timer_def others_def\<close>)
  next
    case TimerFired
    with e have e': "event_ok ?k \<lparr>ev_time = ev_time e, fifo_order = fifo_order e, user_data = user_data e, ev_type = TimerFired\<rparr>"
      by (simp add: event_ok_def)
    obtain k' where k': "TimerCallback (user_data e) late ?k = Some k'" "in_loop c k'"
      "executed_ticks (core_timer c k') = executed_ticks (core_timer c ?k)"
      "due_weight (core_timer c k') \<le> due_weight (core_timer c ?k) + nat late" "others c k' = others c ?k"
      by (rule TimerCallback_step [OF i e' late(1,2)])
    show ?thesis
      by (rule goal [OF _ k'(2)]) (use k' TimerFired t(1) in \<open>simp_all add: kernel_callback_def\<close>)
  next
    case (LimiterTick mode)
    with e show ?thesis by (simp add: event_ok_def)
  qed
qed

text \<open>So the kernel provides what the event loop asks of its callbacks, on every core.\<close>

interpretation kt: event_callbacks "core_timer c" "put_core_timer c" "kernel_callback scaled"
  "\<lambda>k. in_loop c k \<and> others c k = os" for c scaled os
proof unfold_locales
  fix k :: "'a kernel"
  assume k: "in_loop c k \<and> others c k = os"
  note L = in_loopD [OF conjunct1 [OF k]]
  show "core_timer c (put_core_timer c t k) = t" for t
    using L(3) by simp
  show "in_loop c (put_core_timer c ((core_timer c k)\<lparr>is_timer_sane := False\<rparr>) k) \<and>
      others c (put_core_timer c ((core_timer c k)\<lparr>is_timer_sane := False\<rparr>) k) = os"
    using L k core_timer_events [OF conjunct1 [OF k]]
    by (auto intro!: in_loop_put simp: clock_ok_def timer_events_def timer_inv_def)
  show "timer_inv (core_timer c k)"
    using L(6) by (simp add: clock_ok_def)
qed (use kernel_callback_step in blast)

section \<open>Advancing a core\<close>

text \<open>The ticks of a core with the running slice counted, and the states in which it can advance.\<close>

definition timer_now :: "'e timer \<Rightarrow> int" where
  "timer_now t = executed_ticks t + (slice_length t - downcount t)"

definition advance_ready :: "nat \<Rightarrow> 'm kernel \<Rightarrow> bool" where
  "advance_ready c k \<longleftrightarrow> kernel_inv k \<and> current_timer (timing k) = c \<and> events_ok k \<and>
     clock_ok (timer_now (core_timer c k)) (core_timer c k)"

lemma move_events_from:
  "e \<in> set (event_queue (move_events es t)) \<Longrightarrow>
   \<exists>e' \<in> set es \<union> set (event_queue t). ev_time e' = ev_time e \<and> user_data e' = user_data e \<and> ev_type e' = ev_type e"
proof (induction es arbitrary: t)
  case Nil
  then show ?case by auto
next
  case (Cons x es)
  from Cons.IH [of "enqueue (ev_time x) (user_data x) (ev_type x) t"] Cons.prems show ?case
    by (auto simp: enqueue_queue)
qed

lemma advance_begin_from:
  assumes "e \<in> timer_events (advance_begin t)"
  obtains e' where "e' \<in> timer_events t" "ev_time e' = ev_time e" "user_data e' = user_data e" "ev_type e' = ev_type e"
proof -
  have "e \<in> set (event_queue (move_events (ts_queue t) (t\<lparr>ts_queue := []\<rparr>)))"
    using assms by (auto simp: timer_events_def advance_begin_keeps) (simp_all add: advance_begin_def MoveEvents_def Let_def)
  from move_events_from [OF this] that show thesis
    by (auto simp: timer_events_def)
qed

lemma event_ok_same: "ev_type e' = ev_type e \<Longrightarrow> user_data e' = user_data e \<Longrightarrow> event_ok k e' = event_ok k e"
  by (simp add: event_ok_def split: kernel_event.split)

lemma advance_ready_in_loop:
  assumes k: "advance_ready c k"
  shows "in_loop c (put_core_timer c (advance_begin (core_timer c k)) k)" "c < length (timers (timing k))"
proof -
  let ?t = "core_timer c k"
  from k have K: "kernel_inv k" "current_timer (timing k) = c" "events_ok k" "clock_ok (timer_now ?t) ?t"
    by (simp_all add: advance_ready_def)
  show c: "c < length (timers (timing k))"
    using K(1,2) by (auto simp: kernel_inv_def static_ok_def)
  have ev: "event_ok k e \<and> timer_now ?t - ev_time e < 2 ^ 31" if "e \<in> timer_events (advance_begin ?t)" for e
  proof -
    from that obtain e' where e': "e' \<in> timer_events ?t" "ev_time e' = ev_time e" "user_data e' = user_data e" "ev_type e' = ev_type e"
      by (rule advance_begin_from)
    from e'(1) K(3) c have "event_ok k e'"
      by (auto simp: events_ok_def core_timer_def)
    with e' K(4) show ?thesis
      by (auto simp: clock_ok_def event_ok_same [OF e'(4,3)])
  qed
  have "clock_ok (timer_now ?t) (advance_begin ?t)"
    using K(4) ev by (auto simp: clock_ok_def advance_begin_inv)
  with ev K c show "in_loop c (put_core_timer c (advance_begin ?t) k)"
    by (simp add: in_loop_def Let_def kernel_inv_put events_ok_put advance_begin_keeps timer_now_def)
qed

lemma AdvanceCore_spec:
  assumes "advance_ready c k"
  obtains k' where "AdvanceCore scaled c k = Some k'" "in_loop c k'" "others c k' = others c k"
    "executed_ticks (core_timer c k') = timer_now (core_timer c k)" "\<not> is_timer_sane (core_timer c k')"
    "no_due_event (core_timer c k')"
proof -
  note I = advance_ready_in_loop [OF assms]
  have g: "in_loop c (put_core_timer c (advance_begin (core_timer c k)) k) \<and>
      others c (put_core_timer c (advance_begin (core_timer c k)) k) = others c k"
    using I by simp
  have "core_timer c (put_core_timer c (advance_begin (core_timer c k)) k) = advance_begin (core_timer c k)"
    using I(2) by simp
  from kt.Advance_total [OF g this] that show thesis
    by (auto simp: AdvanceCore_def timer_now_def)
qed

lemma others_core_timer:
  assumes "others c k' = others c k" "d \<noteq> c" "length (timers (timing k')) = length (timers (timing k))" "d < length (timers (timing k))"
  shows "core_timer d k' = core_timer d k"
proof (cases "d < c")
  case True
  then have "core_timer d k' = fst (others c k') ! d" "core_timer d k = fst (others c k) ! d"
    by (simp_all add: others_def core_timer_def)
  with assms(1) show ?thesis by simp
next
  case False
  with assms(2-4) have "core_timer d k' = snd (others c k') ! (d - Suc c)" "core_timer d k = snd (others c k) ! (d - Suc c)"
    by (simp_all add: others_def core_timer_def)
  with assms(1) show ?thesis by simp
qed

lemma others_length:
  assumes "others c k' = others c k" "c < length (timers (timing k'))" "c < length (timers (timing k))"
  shows "length (timers (timing k')) = length (timers (timing k))"
proof -
  have "length (snd (others c k')) = length (snd (others c k))"
    using assms(1) by simp
  with assms(2,3) show ?thesis
    by (simp add: others_def)
qed

end
