(* ===== verification/Core_Loop.thy ===== *)
theory Core_Loop
  imports Timer_Callbacks
begin

text \<open>
  The part of \<open>System::RunLoop\<close> (\<open>core/core.cpp\<close>) that runs the cores: it brings cores that lag behind
  to the global time, otherwise advances every core's events, dispatches its thread, and runs the cores
  one after the other for a common slice that ends before the next event of any of them.

  The CPU itself (\<open>ARM_Interface::Run\<close> and \<open>Step\<close>: the translated or interpreted guest code, with the
  system calls it makes) is a parameter \<open>cpu\<close>; so is the limiter's float product. Which core runs is
  the timing's current timer. \<open>ARM_Interface::PrepareReschedule\<close> only tells the CPU to leave its
  execution loop, so it does not appear. Of what \<open>SetRunningCPU\<close> does, the process of each core is kept
  with its thread manager here, which leaves the choice of the timer. The diagnostics
  are compiled out.
\<close>

section \<open>The loop over the cores\<close>

definition SetRunningCPU :: "nat \<Rightarrow> 'm kernel \<Rightarrow> 'm kernel" where
  "SetRunningCPU c k = k\<lparr>timing := SetCurrentTimer c (timing k)\<rparr>"

definition upd_core_timer :: "nat \<Rightarrow> (kernel_event timer \<Rightarrow> kernel_event timer) \<Rightarrow> 'm kernel \<Rightarrow> 'm kernel" where
  "upd_core_timer c f k = put_core_timer c (f (core_timer c k)) k"

text \<open>\<open>Advance\<close> on the running core's timer, then the dispatch of its thread.\<close>

definition advance_core :: "(int \<Rightarrow> int) \<Rightarrow> nat \<Rightarrow> 'm kernel \<Rightarrow> 'm kernel option" where
  "advance_core scaled c k = do {
     k \<leftarrow> AdvanceCore scaled c (SetRunningCPU c k);
     Reschedule c k }"

text \<open>
  The scan for cores behind \<open>global_ticks\<close>: its state is the kernel, \<open>max_delay\<close> and
  \<open>current_core_to_execute\<close>.
\<close>

definition delay_step ::
  "(int \<Rightarrow> int) \<Rightarrow> int \<Rightarrow> nat \<Rightarrow> 'm kernel \<times> int \<times> nat option \<Rightarrow> ('m kernel \<times> int \<times> nat option) option" where
  "delay_step scaled global_ticks c = (\<lambda>(k, max_delay, chosen).
     if timer_ticks (core_timer c k) < global_ticks
     then do {
       let delay = to_s64 (global_ticks - timer_ticks (core_timer c k));
       k \<leftarrow> advance_core scaled c k;
       let k = upd_core_timer c (SetNextSlice delay) k;
       Some (if max_delay < delay then (k, delay, Some c) else (k, max_delay, chosen)) }
     else Some (k, max_delay, chosen))"

text \<open>A core without a thread idles to its next event, another executes guest code.\<close>

definition run_core :: "(nat \<Rightarrow> 'm kernel \<Rightarrow> 'm kernel option) \<Rightarrow> nat \<Rightarrow> 'm kernel \<Rightarrow> 'm kernel option" where
  "run_core cpu c k =
     (case current_thread (managers k ! c) of
        None \<Rightarrow> Some (PrepareReschedule (upd_core_timer c Idle k))
      | Some _ \<Rightarrow> cpu c k)"

definition run_delayed ::
  "(nat \<Rightarrow> 'm kernel \<Rightarrow> 'm kernel option) \<Rightarrow> nat \<Rightarrow> 'm kernel \<Rightarrow> 'm kernel option" where
  "run_delayed cpu c k = run_core cpu c (if current_timer (timing k) \<noteq> c then SetRunningCPU c k else k)"

definition sync_step :: "(int \<Rightarrow> int) \<Rightarrow> nat \<Rightarrow> 'm kernel \<times> int \<Rightarrow> ('m kernel \<times> int) option" where
  "sync_step scaled c = (\<lambda>(k, max_slice). do {
     k \<leftarrow> advance_core scaled c k;
     m \<leftarrow> GetMaxSliceLength (core_timer c k);
     Some (k, min max_slice m) })"

definition slice_step ::
  "(nat \<Rightarrow> 'm kernel \<Rightarrow> 'm kernel option) \<Rightarrow> nat \<Rightarrow> 'm kernel \<times> int \<Rightarrow> ('m kernel \<times> int) option" where
  "slice_step cpu c = (\<lambda>(k, max_slice). do {
     let k = upd_core_timer c (SetNextSlice max_slice) k;
     let start_ticks = timer_ticks (core_timer c k);
     k \<leftarrow> run_core cpu c (SetRunningCPU c k);
     Some (k, to_s64 (timer_ticks (core_timer c k) - start_ticks)) })"

definition System_Reschedule :: "'m kernel \<Rightarrow> 'm kernel option" where
  "System_Reschedule k =
     (if \<not> reschedule_pending k then Some k
      else for_each Reschedule [0..<length (managers k)] (k\<lparr>reschedule_pending := False\<rparr>))"

definition min_delay :: int where
  "min_delay = 100"

definition run_cores ::
  "(int \<Rightarrow> int) \<Rightarrow> (nat \<Rightarrow> 'm kernel \<Rightarrow> 'm kernel option) \<Rightarrow> 'm kernel \<Rightarrow> 'm kernel option" where
  "run_cores scaled cpu k = do {
     let cores = [0..<length (managers k)];
     let global_ticks = GetGlobalTicks (timing k) mod 2 ^ 64;
     (k, max_delay, chosen) \<leftarrow> for_each (delay_step scaled global_ticks) cores (k, 0, None);
     k \<leftarrow> (if max_delay > min_delay
          then do { c \<leftarrow> chosen; run_delayed cpu c k }
          else do {
            (k, max_slice) \<leftarrow> for_each (sync_step scaled) cores (k, MAX_SLICE_LENGTH);
            (k, _) \<leftarrow> for_each (slice_step cpu) cores (k, max_slice);
            Some k });
     System_Reschedule k }"

section \<open>What a dispatch leaves alone\<close>

text \<open>It takes the wakeup of the thread it switches to out of the queues, and nothing else.\<close>

definition trim :: "('e event \<Rightarrow> bool) \<Rightarrow> 'e timer \<Rightarrow> 'e timer" where
  "trim P t = t\<lparr>event_queue := filter P (event_queue t)\<rparr>"

definition dispatched :: "'m kernel \<Rightarrow> 'm kernel \<Rightarrow> bool" where
  "dispatched k k' \<longleftrightarrow> event_frame k (k'\<lparr>timing := timing k\<rparr>) \<and>
     (\<exists>P. timing k' = (timing k)\<lparr>timers := map (trim P) (timers (timing k))\<rparr>)"

lemma trim_True [simp]: "trim (\<lambda>_. True) t = t"
  by (simp add: trim_def)

lemma trim_trim: "trim P (trim Q t) = trim (\<lambda>e. Q e \<and> P e) t"
  by (simp add: trim_def conj_commute)

lemma dispatched_event_frame:
  assumes "event_frame k k'"
  shows "dispatched k k'"
  unfolding dispatched_def using assms
  by (intro conjI exI [of _ "\<lambda>_. True"]) (simp_all add: event_frame_def is_thread_def fun_eq_iff map_idI)

lemma dispatched_trans [trans]:
  assumes "dispatched k1 k2" "dispatched k2 k3"
  shows "dispatched k1 k3"
proof -
  from assms obtain P Q where "timing k2 = (timing k1)\<lparr>timers := map (trim P) (timers (timing k1))\<rparr>"
    "timing k3 = (timing k2)\<lparr>timers := map (trim Q) (timers (timing k2))\<rparr>"
    by (auto simp: dispatched_def)
  then have "timing k3 = (timing k1)\<lparr>timers := map (trim (\<lambda>e. P e \<and> Q e)) (timers (timing k1))\<rparr>"
    by (simp add: trim_trim)
  with assms show ?thesis
    by (auto simp: dispatched_def event_frame_def is_thread_def fun_eq_iff)
qed

lemma dispatched_Unschedule: "dispatched k (k\<lparr>timing := UnscheduleEvent ty d (timing k)\<rparr>)"
proof (cases "event_queue_locked (timing k)")
  case True
  then show ?thesis
    by (simp add: UnscheduleEvent_def dispatched_event_frame)
next
  case False
  then show ?thesis unfolding dispatched_def UnscheduleEvent_def
    by (intro conjI exI [of _ "\<lambda>e. \<not> (ev_type e = ty \<and> user_data e = d)"])
      (simp_all add: event_frame_def is_thread_def fun_eq_iff trim_def)
qed

lemma event_frame_upd_manager [event_frames]:
  "(\<And>m. wakeup_callback_table (f m) = wakeup_callback_table m) \<Longrightarrow> event_frame k k' \<Longrightarrow> event_frame k (upd_manager c f k')"
  by (simp add: event_frame_def is_thread_def map_update_same)

lemma frames_save_previous [event_frames]: "event_frame k k1 \<Longrightarrow> frames k (save_previous c k1)"
  by (auto simp: save_previous_def Let_def split: option.split intro!: event_frames)

lemma load_next_dispatched:
  assumes "load_next c pp t k = Some k'"
  shows "dispatched k k'"
proof -
  let ?k1 = "k\<lparr>timing := UnscheduleEvent (ThreadWakeup c) (thread_id (threads k t)) (timing k)\<rparr>"
  have "frames ?k1 (load_next c pp t k)"
    unfolding load_next_def Let_def
    by (cases "status (threads k t) = Ready") (auto intro!: event_frames)
  with assms have "event_frame ?k1 k'"
    by simp
  with dispatched_trans [OF dispatched_Unschedule dispatched_event_frame] show ?thesis by blast
qed

lemma Reschedule_dispatched:
  assumes "kernel_inv k" "c < length (managers k)" "Reschedule c k = Some k'"
  shows "dispatched k k'"
proof -
  note K = kernel_invD [OF assms(1)]
  obtain q nxt where p: "pop_next c k = Some (set_queue c q k, nxt)"
    by (rule pop_next_spec [OF K(2) assms(2) K(7) [OF assms(2)]]) blast
  have P: "PopNextReadyThread c k = Some (set_queue c q k, nxt)"
    by (rule PopNextReadyThread_inactive [OF p]) (use K(10) in simp)
  have f: "event_frame k (set_queue c q k)"
    by (intro event_frames) simp
  show ?thesis
  proof (cases "current_thread (managers k ! c) = None \<and> nxt = None")
    case True
    with P assms(3) f show ?thesis
      by (simp add: Reschedule_def dispatched_event_frame)
  next
    case False
    with P assms(3) obtain k2 where k2: "save_previous c (set_queue c q k) = Some k2"
      "(case nxt of Some t \<Rightarrow> load_next c (previous_process c (set_queue c q k)) t k2
         | None \<Rightarrow> Some (upd_manager c (\<lambda>m. m\<lparr>current_thread := None\<rparr>) k2)) = Some k'"
      by (auto simp: Reschedule_def SwitchContext_def Let_def bind_eq_Some_conv split: if_splits)
    from frames_save_previous [OF f, of c] k2(1) have f2: "event_frame k k2"
      by simp
    show ?thesis
    proof (cases nxt)
      case None
      with k2(2) f2 show ?thesis
        by (auto intro!: dispatched_event_frame event_frames)
    next
      case (Some t)
      with k2(2) load_next_dispatched dispatched_trans [OF dispatched_event_frame [OF f2]] show ?thesis
        by fastforce
    qed
  qed
qed

section \<open>Advancing and dispatching one core\<close>

text \<open>The core has run all its due events at time \<open>g\<close> and has no slice yet.\<close>

definition settled :: "int \<Rightarrow> 'e timer \<Rightarrow> bool" where
  "settled g t \<longleftrightarrow> executed_ticks t = g \<and> slice_length t = 0 \<and> downcount t = 0 \<and> \<not> is_timer_sane t \<and>
     no_due_event t \<and> clock_ok g t"

lemma trim_simps [simp]:
  "executed_ticks (trim P t) = executed_ticks t" "slice_length (trim P t) = slice_length t"
  "downcount (trim P t) = downcount t" "is_timer_sane (trim P t) = is_timer_sane t"
  "event_queue (trim P t) = filter P (event_queue t)" "ts_queue (trim P t) = ts_queue t"
  "timer_now (trim P t) = timer_now t" "timer_ticks (trim P t) = timer_ticks t"
  by (simp_all add: trim_def timer_now_def timer_ticks_def)

lemma trim_events: "timer_events (trim P t) \<subseteq> timer_events t"
  by (auto simp: timer_events_def)

lemma clock_ok_trim: "clock_ok g t \<Longrightarrow> clock_ok g (trim P t)"
  using trim_events [of P t] timer_inv_filter [of t P] by (auto simp: clock_ok_def trim_def)

lemma settled_trim: "settled g t \<Longrightarrow> settled g (trim P t)"
  by (auto simp: settled_def no_due_event_def clock_ok_trim)

lemma dispatched_timers:
  assumes "dispatched k k'"
  obtains P where "\<And>d. d < length (timers (timing k)) \<Longrightarrow> core_timer d k' = trim P (core_timer d k)"
    "length (timers (timing k')) = length (timers (timing k))" "current_timer (timing k') = current_timer (timing k)"
  using assms by (auto simp: dispatched_def core_timer_def)

lemma dispatched_events_ok:
  assumes "dispatched k k'" "events_ok k"
  shows "events_ok k'"
proof -
  from assms(1) obtain P where P: "timing k' = (timing k)\<lparr>timers := map (trim P) (timers (timing k))\<rparr>"
    "event_frame k (k'\<lparr>timing := timing k\<rparr>)"
    by (auto simp: dispatched_def)
  have "event_ok k' = event_ok (k'\<lparr>timing := timing k\<rparr>)"
    by (simp add: event_ok_def is_thread_def fun_eq_iff split: kernel_event.split)
  with event_ok_frame [OF P(2)] assms(2) trim_events [of P] show ?thesis
    by (fastforce simp: events_ok_def P(1))
qed

lemma SetRunningCPU_simps [simp]:
  "managers (SetRunningCPU c k) = managers k" "core_timer d (SetRunningCPU c k) = core_timer d k"
  "timers (timing (SetRunningCPU c k)) = timers (timing k)" "current_timer (timing (SetRunningCPU c k)) = c"
  "event_ok (SetRunningCPU c k) = event_ok k" "events_ok (SetRunningCPU c k) = events_ok k"
  by (simp_all add: SetRunningCPU_def SetCurrentTimer_def core_timer_def event_ok_def events_ok_def is_thread_def
      fun_eq_iff split: kernel_event.split)

lemma SetRunningCPU_inv: "kernel_inv k \<Longrightarrow> c < length (managers k) \<Longrightarrow> kernel_inv (SetRunningCPU c k)"
  unfolding SetRunningCPU_def by (rule step_okD(1) [OF select_core_step_ok])

lemma kernel_inv_lengths: "kernel_inv k \<Longrightarrow> length (timers (timing k)) = length (managers k)"
  by (simp add: kernel_inv_def static_ok_def)

lemma advance_core_spec:
  assumes inv: "kernel_inv k" "events_ok k" "c < length (managers k)"
    and clock: "clock_ok (timer_now (core_timer c k)) (core_timer c k)"
  obtains k' P where "advance_core scaled c k = Some k'" "kernel_inv k'" "events_ok k'"
    "current_timer (timing k') = c" "length (managers k') = length (managers k)"
    "settled (timer_now (core_timer c k)) (core_timer c k')"
    "\<And>d. d < length (managers k) \<Longrightarrow> d \<noteq> c \<Longrightarrow> core_timer d k' = trim P (core_timer d k)"
proof -
  have "advance_ready c (SetRunningCPU c k)"
    using inv clock by (simp add: advance_ready_def SetRunningCPU_inv)
  then obtain k1 where k1: "AdvanceCore scaled c (SetRunningCPU c k) = Some k1" "in_loop c k1"
    "others c k1 = others c (SetRunningCPU c k)"
    "executed_ticks (core_timer c k1) = timer_now (core_timer c (SetRunningCPU c k))"
    "\<not> is_timer_sane (core_timer c k1)" "no_due_event (core_timer c k1)"
    by (rule AdvanceCore_spec)
  note L = in_loopD [OF k1(2)]
  have n: "length (timers (timing k)) = length (managers k)"
    using inv(1) by (rule kernel_inv_lengths)
  have n1: "length (timers (timing k1)) = length (managers k)"
    using others_length [OF k1(3) L(3)] inv(3) n by simp
  then have m1: "length (managers k1) = length (managers k)"
    using kernel_inv_lengths [OF L(1)] by simp
  obtain k' where k': "Reschedule c k1 = Some k'" "kernel_inv k'"
    by (rule Reschedule_kernel_inv [OF L(1,4)])
  note dis = Reschedule_dispatched [OF L(1,4) k'(1)]
  obtain P where P: "\<And>d. d < length (timers (timing k1)) \<Longrightarrow> core_timer d k' = trim P (core_timer d k1)"
    "length (timers (timing k')) = length (timers (timing k1))" "current_timer (timing k') = current_timer (timing k1)"
    by (rule dispatched_timers [OF dis]) (rule that, assumption+)
  have o: "core_timer d k1 = core_timer d k" if "d < length (managers k)" "d \<noteq> c" for d
    using others_core_timer [OF k1(3) that(2)] that(1) n n1 by simp
  show thesis
  proof (rule that [of k' P])
    show "advance_core scaled c k = Some k'"
      using k1(1) k'(1) by (simp add: advance_core_def)
    show "settled (timer_now (core_timer c k)) (core_timer c k')"
      using P(1) [OF L(3)] L(6-8) k1(4-6) settled_trim [of _ "core_timer c k1" P] by (simp add: settled_def)
    show "length (managers k') = length (managers k)"
      using kernel_inv_lengths [OF k'(2)] P(2) n1 by simp
  qed (use k' L(2,5) P(1,3) n1 o dispatched_events_ok [OF dis] in auto)
qed

section \<open>The pass that advances every core\<close>

lemma for_each_upto:
  assumes "I 0 s" "\<And>c s. c < n \<Longrightarrow> I c s \<Longrightarrow> \<exists>t. f c s = Some t \<and> I (Suc c) t"
  shows "\<exists>t. for_each f [0..<n] s = Some t \<and> I n t"
proof -
  have "\<exists>t. for_each f [0..<m] s = Some t \<and> I m t" if "m \<le> n" for m
    using that
  proof (induction m)
    case 0
    with assms(1) show ?case by simp
  next
    case (Suc m)
    then obtain t where "for_each f [0..<m] s = Some t" "I m t"
      by auto
    moreover from assms(2) [OF _ this(2)] Suc.prems obtain u where "f m t = Some u" "I (Suc m) u"
      by auto
    ultimately show ?case
      by (simp add: for_each_append)
  qed
  then show ?thesis by simp
qed

definition events_after :: "int \<Rightarrow> 'e timer \<Rightarrow> bool" where
  "events_after time t \<longleftrightarrow> (\<forall>e \<in> set (event_queue t). time \<le> ev_time e)"

lemma events_after_trim: "events_after v t \<Longrightarrow> events_after v (trim P t)"
  by (simp add: events_after_def)

lemma events_after_mono: "events_after v t \<Longrightarrow> w \<le> v \<Longrightarrow> events_after w t"
  by (force simp: events_after_def)

text \<open>After \<open>m\<close> cores, from the kernel \<open>k\<close>, with the slice \<open>S\<close> so far.\<close>

definition advanced :: "'m kernel \<Rightarrow> nat \<Rightarrow> 'm kernel \<times> int \<Rightarrow> bool" where
  "advanced k m = (\<lambda>(k', S). kernel_inv k' \<and> events_ok k' \<and> length (managers k') = length (managers k) \<and>
     0 < S \<and> S \<le> MAX_SLICE_LENGTH \<and>
     (\<forall>c < m. settled (timer_now (core_timer c k)) (core_timer c k') \<and>
        events_after (timer_now (core_timer c k) + S) (core_timer c k')) \<and>
     (\<forall>c < length (managers k). m \<le> c \<longrightarrow> (\<exists>P. core_timer c k' = trim P (core_timer c k))))"

lemma GetMaxSliceLength_settled:
  assumes "settled g t"
  obtains S where "GetMaxSliceLength t = Some S" "0 < S" "events_after (g + S) t"
proof (cases "event_queue t")
  case Nil
  with that [of MAX_SLICE_LENGTH] show thesis
    by (simp add: GetMaxSliceLength_def events_after_def MAX_SLICE_LENGTH_def BASE_CLOCK_RATE_ARM11_def)
next
  case (Cons e es)
  then have "g < ev_time e" "executed_ticks t = g" "\<And>x. x \<in> set es \<Longrightarrow> ev_time e \<le> ev_time x"
    using assms by (auto simp: settled_def no_due_event_def clock_ok_def timer_inv_def event_less_def)
  with that [of "ev_time e - g"] Cons show thesis
    by (simp add: GetMaxSliceLength_def events_after_def)
qed

lemma sync_step_advanced:
  assumes clock: "\<And>c. c < length (managers k) \<Longrightarrow> clock_ok (timer_now (core_timer c k)) (core_timer c k)"
    and m: "m < length (managers k)" and adv: "advanced k m (k1, S1)"
  shows "\<exists>r. sync_step scaled m (k1, S1) = Some r \<and> advanced k (Suc m) r"
proof -
  from adv have A: "kernel_inv k1" "events_ok k1" "length (managers k1) = length (managers k)" "0 < S1" "S1 \<le> MAX_SLICE_LENGTH"
    "\<And>c. c < m \<Longrightarrow> settled (timer_now (core_timer c k)) (core_timer c k1) \<and>
        events_after (timer_now (core_timer c k) + S1) (core_timer c k1)"
    "\<And>c. c < length (managers k) \<Longrightarrow> m \<le> c \<Longrightarrow> \<exists>P. core_timer c k1 = trim P (core_timer c k)"
    by (auto simp: advanced_def)
  from A(7) [OF m] obtain P0 where P0: "core_timer m k1 = trim P0 (core_timer m k)"
    by auto
  have m1: "m < length (managers k1)" "clock_ok (timer_now (core_timer m k1)) (core_timer m k1)"
    using m A(3) clock [OF m] by (simp_all add: P0 clock_ok_trim)
  obtain k2 P where k2: "advance_core scaled m k1 = Some k2" "kernel_inv k2" "events_ok k2"
    "current_timer (timing k2) = m" "length (managers k2) = length (managers k1)"
    "settled (timer_now (core_timer m k1)) (core_timer m k2)"
    "\<And>d. d < length (managers k1) \<Longrightarrow> d \<noteq> m \<Longrightarrow> core_timer d k2 = trim P (core_timer d k1)"
    by (rule advance_core_spec [OF A(1,2) m1]) (rule that, assumption+)
  obtain S where S: "GetMaxSliceLength (core_timer m k2) = Some S" "0 < S" "events_after (timer_now (core_timer m k1) + S) (core_timer m k2)"
    by (rule GetMaxSliceLength_settled [OF k2(6)])
  have now: "timer_now (core_timer m k1) = timer_now (core_timer m k)"
    by (simp add: P0)
  have "settled (timer_now (core_timer c k)) (core_timer c k2) \<and>
      events_after (timer_now (core_timer c k) + min S1 S) (core_timer c k2)" if "c < Suc m" for c
  proof (cases "c = m")
    case True
    with k2(6) S(3) now show ?thesis by (auto intro: events_after_mono)
  next
    case False
    with that have c: "c < m" by simp
    then have "core_timer c k2 = trim P (core_timer c k1)"
      using k2(7) m A(3) by simp
    with A(6) [OF c] show ?thesis
      by (auto intro: settled_trim events_after_trim events_after_mono)
  qed
  moreover have "\<exists>P. core_timer c k2 = trim P (core_timer c k)" if "c < length (managers k)" "Suc m \<le> c" for c
    using A(7) [of c] k2(7) [of c] that A(3) by (auto simp: trim_trim)
  ultimately have "advanced k (Suc m) (k2, min S1 S)"
    using k2(2,3,5) S(2) A(3-5) by (simp add: advanced_def)
  with k2(1) S(1) show ?thesis
    by (simp add: sync_step_def)
qed

lemma sync_pass:
  assumes "kernel_inv k" "events_ok k"
    and "\<And>c. c < length (managers k) \<Longrightarrow> clock_ok (timer_now (core_timer c k)) (core_timer c k)"
  obtains k' S where "for_each (sync_step scaled) [0..<length (managers k)] (k, MAX_SLICE_LENGTH) = Some (k', S)"
    "advanced k (length (managers k)) (k', S)"
proof -
  have "advanced k 0 (k, MAX_SLICE_LENGTH)"
    using assms(1,2) trim_True by (auto simp: advanced_def MAX_SLICE_LENGTH_def BASE_CLOCK_RATE_ARM11_def intro!: exI [of _ "\<lambda>_. True"])
  from for_each_upto [where f = "sync_step scaled" and I = "advanced k" and n = "length (managers k)", OF this]
  obtain r where "for_each (sync_step scaled) [0..<length (managers k)] (k, MAX_SLICE_LENGTH) = Some r"
    "advanced k (length (managers k)) r"
    using sync_step_advanced [OF assms(3)] by force
  with that show thesis by (cases r) simp
qed

section \<open>Running the cores\<close>

text \<open>
  What the loop relies on from \<open>ARM_Interface::Run\<close>: it returns, it keeps the kernel consistent (each
  system call does), it counts the ticks it executes on its own timer only, and it stops at most
  \<open>over\<close> ticks after its slice has run out. Other cores keep their slices, and none of their queued
  events is new (events for another core go to its \<open>ts_queue\<close>).
\<close>

definition cpu_ran :: "int \<Rightarrow> 'e timer \<Rightarrow> 'e timer \<Rightarrow> bool" where
  "cpu_ran over t t' \<longleftrightarrow> executed_ticks t' = executed_ticks t \<and> is_timer_sane t' = is_timer_sane t \<and>
     slice_length t - downcount t \<le> slice_length t' - downcount t' \<and>
     slice_length t' - downcount t' \<le> slice_length t - min 0 (downcount t) + over"

definition left_alone :: "'e timer \<Rightarrow> 'e timer \<Rightarrow> bool" where
  "left_alone t t' \<longleftrightarrow> executed_ticks t' = executed_ticks t \<and> slice_length t' = slice_length t \<and>
     downcount t' = downcount t \<and> is_timer_sane t' = is_timer_sane t \<and> set (event_queue t') \<subseteq> set (event_queue t)"

definition cpu_contract :: "int \<Rightarrow> (nat \<Rightarrow> 'm kernel \<Rightarrow> 'm kernel option) \<Rightarrow> bool" where
  "cpu_contract over cpu \<longleftrightarrow> 0 \<le> over \<and>
     (\<forall>c k. kernel_inv k \<longrightarrow> current_timer (timing k) = c \<longrightarrow> current_thread (managers k ! c) \<noteq> None \<longrightarrow>
        (\<exists>k'. cpu c k = Some k' \<and> kernel_inv k' \<and> length (managers k') = length (managers k) \<and>
           cpu_ran over (core_timer c k) (core_timer c k') \<and>
           (\<forall>d < length (managers k). d \<noteq> c \<longrightarrow> left_alone (core_timer d k) (core_timer d k'))))"

lemma left_alone_refl [simp]: "left_alone t t"
  by (simp add: left_alone_def)

lemma left_alone_now: "left_alone t t' \<Longrightarrow> timer_now t' = timer_now t"
  by (simp add: left_alone_def timer_now_def)

lemma kernel_inv_PrepareReschedule: "kernel_inv k \<Longrightarrow> kernel_inv (PrepareReschedule k)"
  by (rule kernel_inv_same [OF _ static_same_fields])
    (use kernel_invD(1) [of k] in \<open>simp_all add: is_thread_def fun_eq_iff kinv_same [of "PrepareReschedule k" k]\<close>)

lemma upd_core_timer_simps [simp]:
  "managers (upd_core_timer c f k) = managers k" "current_timer (timing (upd_core_timer c f k)) = current_timer (timing k)"
  "length (timers (timing (upd_core_timer c f k))) = length (timers (timing k))"
  "d \<noteq> c \<Longrightarrow> core_timer d (upd_core_timer c f k) = core_timer d k"
  "c < length (timers (timing k)) \<Longrightarrow> core_timer c (upd_core_timer c f k) = f (core_timer c k)"
  "core_timer d (PrepareReschedule k) = core_timer d k"
  by (simp_all add: upd_core_timer_def core_timer_def [of _ "PrepareReschedule k"]) (simp add: core_timer_def)

lemma kernel_inv_upd_core_timer: "kernel_inv k \<Longrightarrow> kernel_inv (upd_core_timer c f k)"
  unfolding upd_core_timer_def by (rule kernel_inv_put)

lemma run_core_spec:
  assumes cpu: "cpu_contract over cpu" and k: "kernel_inv k" "current_timer (timing k) = c" "c < length (managers k)"
  obtains k' where "run_core cpu c k = Some k'" "kernel_inv k'" "length (managers k') = length (managers k)"
    "cpu_ran over (core_timer c k) (core_timer c k') \<or> core_timer c k' = Idle (core_timer c k)"
    "\<And>d. d < length (managers k) \<Longrightarrow> d \<noteq> c \<Longrightarrow> left_alone (core_timer d k) (core_timer d k')"
proof (cases "current_thread (managers k ! c)")
  case None
  with k that [of "PrepareReschedule (upd_core_timer c Idle k)"] show thesis
    by (simp add: run_core_def kernel_inv_PrepareReschedule kernel_inv_upd_core_timer kernel_inv_lengths)
next
  case (Some t)
  with cpu k that show thesis
    unfolding cpu_contract_def run_core_def by fastforce
qed

text \<open>A settled core with a new slice.\<close>

lemma SetNextSlice_settled:
  assumes t: "executed_ticks t = g" "no_due_event t"
    and ms: "0 \<le> ms" "ms < 2 ^ 31"
  shows "slice_length (SetNextSlice ms t) = downcount (SetNextSlice ms t)" "0 \<le> slice_length (SetNextSlice ms t)"
    "slice_length (SetNextSlice ms t) \<le> ms" "executed_ticks (SetNextSlice ms t) = g"
    "is_timer_sane (SetNextSlice ms t) = is_timer_sane t" "event_queue (SetNextSlice ms t) = event_queue t"
    "0 < ms \<Longrightarrow> 0 < slice_length (SetNextSlice ms t)"
  using assms by (auto simp: SetNextSlice_def Let_def no_due_event_def split: list.split)

lemma run_core_elapsed:
  assumes t: "slice_length t = downcount t" "0 \<le> slice_length t"
    and r: "cpu_ran over t t' \<or> t' = Idle t" and over: "0 \<le> over"
  shows "executed_ticks t' = executed_ticks t" "is_timer_sane t' = is_timer_sane t" "executed_ticks t \<le> timer_now t'"
    "timer_now t' \<le> executed_ticks t + slice_length t + over"
  using assms by (auto simp: cpu_ran_def Idle_def timer_now_def)

lemma timer_ticks_now:
  assumes "\<not> is_timer_sane t" "0 \<le> timer_now t" "timer_now t < 2 ^ 64"
  shows "timer_ticks t = timer_now t"
  using assms by (simp add: timer_ticks_def timer_now_def)

text \<open>The state of the second pass after \<open>m\<close> cores: \<open>ms\<close> is what the core before has executed.\<close>

definition elapsed :: "'e timer \<Rightarrow> int" where
  "elapsed t = slice_length t - downcount t"

definition sliced :: "int \<Rightarrow> 'm kernel \<Rightarrow> int \<Rightarrow> nat \<Rightarrow> 'm kernel \<times> int \<Rightarrow> bool" where
  "sliced over k S m = (\<lambda>(k', ms). kernel_inv k' \<and> length (managers k') = length (managers k) \<and>
     (\<forall>c < length (managers k). executed_ticks (core_timer c k') = executed_ticks (core_timer c k) \<and>
        \<not> is_timer_sane (core_timer c k')) \<and>
     (\<forall>c < m. 0 \<le> elapsed (core_timer c k') \<and> elapsed (core_timer c k') \<le> S + over * (int c + 1) \<and>
        (0 < c \<longrightarrow> elapsed (core_timer c k') \<le> elapsed (core_timer (c - 1) k') + over)) \<and>
     ms = (if m = 0 then S else elapsed (core_timer (m - 1) k')) \<and>
     (\<forall>c < length (managers k). m \<le> c \<longrightarrow> no_due_event (core_timer c k')))"

lemma left_alone_elapsed: "left_alone t t' \<Longrightarrow> elapsed t' = elapsed t"
  by (simp add: left_alone_def elapsed_def)

lemma left_alone_no_due: "left_alone t t' \<Longrightarrow> no_due_event t \<Longrightarrow> no_due_event t'"
  by (auto simp: left_alone_def no_due_event_def)

lemma slice_step_sliced:
  assumes cpu: "cpu_contract over cpu" and m: "m < length (managers k)"
    and bounds: "0 \<le> S" "S + over * int (length (managers k)) < 2 ^ 31"
    and clock: "0 \<le> executed_ticks (core_timer m k)" "executed_ticks (core_timer m k) < 2 ^ 62"
    and sl: "sliced over k S m (k1, ms)"
  shows "\<exists>r. slice_step cpu m (k1, ms) = Some r \<and> sliced over k S (Suc m) r"
proof -
  have over: "0 \<le> over"
    using cpu by (simp add: cpu_contract_def)
  from sl have A: "kernel_inv k1" "length (managers k1) = length (managers k)"
    "\<And>c. c < length (managers k) \<Longrightarrow> executed_ticks (core_timer c k1) = executed_ticks (core_timer c k) \<and>
        \<not> is_timer_sane (core_timer c k1)"
    "\<And>c. c < m \<Longrightarrow> 0 \<le> elapsed (core_timer c k1) \<and> elapsed (core_timer c k1) \<le> S + over * (int c + 1) \<and>
        (0 < c \<longrightarrow> elapsed (core_timer c k1) \<le> elapsed (core_timer (c - 1) k1) + over)"
    "ms = (if m = 0 then S else elapsed (core_timer (m - 1) k1))"
    "\<And>c. c < length (managers k) \<Longrightarrow> m \<le> c \<Longrightarrow> no_due_event (core_timer c k1)"
    by (auto simp: sliced_def)
  have mm: "over * (int m + 1) \<le> over * int (length (managers k))"
    using over m by (intro mult_left_mono) simp_all
  have ms: "0 \<le> ms" "ms \<le> S + over * int m" "ms < 2 ^ 31"
  proof -
    show 1: "0 \<le> ms" "ms \<le> S + over * int m"
      using A(4) [of "m - 1"] A(5) bounds(1) by (cases m; simp add: algebra_simps)+
    have "over * int m \<le> over * int (length (managers k))"
      using over m by (intro mult_left_mono) simp_all
    with 1 bounds(2) show "ms < 2 ^ 31" by simp
  qed
  let ?k2 = "SetRunningCPU m (upd_core_timer m (SetNextSlice ms) k1)"
  have m1: "m < length (managers k1)" "m < length (timers (timing k1))"
    using m A(2) kernel_inv_lengths [OF A(1)] by simp_all
  have t: "core_timer m ?k2 = SetNextSlice ms (core_timer m k1)"
    using m1 by simp
  note N = SetNextSlice_settled [OF refl A(6) [OF m le_refl] ms(1,3)]
  have inv2: "kernel_inv ?k2"
    using m1(1) by (intro SetRunningCPU_inv kernel_inv_upd_core_timer A(1)) simp
  have cur: "current_timer (timing ?k2) = m" "m < length (managers ?k2)"
    using m1 by simp_all
  obtain k' where k': "run_core cpu m ?k2 = Some k'" "kernel_inv k'" "length (managers k') = length (managers ?k2)"
    "cpu_ran over (core_timer m ?k2) (core_timer m k') \<or> core_timer m k' = Idle (core_timer m ?k2)"
    "\<And>d. d < length (managers ?k2) \<Longrightarrow> d \<noteq> m \<Longrightarrow> left_alone (core_timer d ?k2) (core_timer d k')"
    by (rule run_core_spec [OF cpu inv2 cur]) (rule that, assumption+)
  have la: "left_alone (core_timer d k1) (core_timer d k')" if "d < length (managers k)" "d \<noteq> m" for d
    using k'(5) [of d] that A(2) by simp
  note E = run_core_elapsed [OF N(1,2) k'(4) [unfolded t] over]
  have el: "elapsed (core_timer m k') = timer_now (core_timer m k') - executed_ticks (core_timer m k)"
    using E(1) N(4) A(3) [OF m] by (simp add: elapsed_def timer_now_def)
  then have el': "0 \<le> elapsed (core_timer m k')" "elapsed (core_timer m k') \<le> ms + over"
    using E N A(3) [OF m] by simp_all
  have ticks: "timer_ticks (core_timer m k') - timer_ticks (core_timer m ?k2) = elapsed (core_timer m k')"
  proof -
    have "timer_ticks (core_timer m ?k2) = executed_ticks (core_timer m k)"
      using timer_ticks_now [of "core_timer m ?k2"] N A(3) [OF m] clock t by (simp add: timer_now_def)
    moreover have "timer_ticks (core_timer m k') = timer_now (core_timer m k')"
      using E N A(3) [OF m] clock ms mm bounds el' el by (intro timer_ticks_now) (simp_all add: algebra_simps)
    ultimately show ?thesis
      using el by simp
  qed
  have "elapsed (core_timer m k') < 2 ^ 63"
    using el' ms mm bounds by (simp add: algebra_simps)
  then have run: "slice_step cpu m (k1, ms) = Some (k', elapsed (core_timer m k'))"
    using k'(1) ticks el'(1) by (simp add: slice_step_def Let_def)
  have "sliced over k S (Suc m) (k', elapsed (core_timer m k'))"
    unfolding sliced_def
  proof (clarsimp, intro conjI allI impI)
    show "kernel_inv k'" by (rule k'(2))
    show "length (managers k') = length (managers k)"
      using k'(3) A(2) by simp
    show "executed_ticks (core_timer c k') = executed_ticks (core_timer c k)" "\<not> is_timer_sane (core_timer c k')"
      if "c < length (managers k)" for c
      using la [OF that] A(3) [OF that] E(1,2) N(4,5) by (cases "c = m"; simp add: left_alone_def)+
    fix c assume c: "c < Suc m"
    have c': "c < length (managers k)"
      using c m by simp
    have lower: "elapsed (core_timer d k') = elapsed (core_timer d k1)" if "d < m" for d
      using left_alone_elapsed [OF la] that m by simp
    show "0 \<le> elapsed (core_timer c k')" "elapsed (core_timer c k') \<le> S + over * (int c + 1)"
      using c lower [of c] A(4) [of c] el' ms by (cases "c = m"; simp add: algebra_simps)+
    show "elapsed (core_timer c k') \<le> elapsed (core_timer (c - Suc 0) k') + over" if "0 < c"
      using c that lower [of c] lower [of "c - 1"] A(4) [of c] A(5) el' by (cases "c = m") simp_all
  next
    show "no_due_event (core_timer c k')" if "c < length (managers k)" "Suc m \<le> c" for c
      using left_alone_no_due [OF la A(6)] that by simp
  qed
  with run show ?thesis by blast
qed

lemma slice_pass:
  assumes cpu: "cpu_contract over cpu" and k: "kernel_inv k" and bounds: "0 \<le> S" "S + over * int (length (managers k)) < 2 ^ 31"
    and t: "\<And>c. c < length (managers k) \<Longrightarrow> 0 \<le> executed_ticks (core_timer c k) \<and> executed_ticks (core_timer c k) < 2 ^ 62 \<and>
      \<not> is_timer_sane (core_timer c k) \<and> no_due_event (core_timer c k)"
  obtains k' ms where "for_each (slice_step cpu) [0..<length (managers k)] (k, S) = Some (k', ms)"
    "sliced over k S (length (managers k)) (k', ms)"
proof -
  have 0: "sliced over k S 0 (k, S)"
    using k t by (simp add: sliced_def)
  have "\<exists>r. for_each (slice_step cpu) [0..<length (managers k)] (k, S) = Some r \<and> sliced over k S (length (managers k)) r"
  proof (rule for_each_upto [where f = "slice_step cpu" and I = "sliced over k S", OF 0])
    fix m and s :: "'a kernel \<times> int"
    assume "m < length (managers k)" "sliced over k S m s"
    with t [OF this(1)] slice_step_sliced [OF cpu _ bounds, of m "fst s" "snd s"]
    show "\<exists>r. slice_step cpu m s = Some r \<and> sliced over k S (Suc m) r"
      by simp
  qed
  with that show thesis by auto
qed

lemma System_Reschedule_spec:
  assumes k: "kernel_inv k"
  obtains k' where "System_Reschedule k = Some k'" "kernel_inv k'" "length (managers k') = length (managers k)"
    "\<And>c. c < length (managers k) \<Longrightarrow> \<exists>P. core_timer c k' = trim P (core_timer c k)"
proof (cases "reschedule_pending k")
  case False
  have "\<exists>P. core_timer c k = trim P (core_timer c k)" for c
    by (rule exI [of _ "\<lambda>_. True"]) simp
  with False k that [of k] show thesis
    by (simp add: System_Reschedule_def)
next
  case True
  let ?k = "k\<lparr>reschedule_pending := False\<rparr>"
  let ?I = "\<lambda>_ k'. kernel_inv k' \<and> dispatched ?k k'"
  have inv: "kernel_inv ?k"
    by (rule kernel_inv_same [OF k static_same_fields])
      (use kernel_invD(1) [OF k] in \<open>simp_all add: is_thread_def fun_eq_iff kinv_same [of ?k k]\<close>)
  have "\<exists>k'. for_each Reschedule [0..<length (managers k)] ?k = Some k' \<and> ?I (length (managers k)) k'"
  proof (rule for_each_upto [where f = Reschedule and I = ?I])
    show "?I 0 ?k"
      using inv by (simp add: dispatched_event_frame)
    fix c k1
    assume c: "c < length (managers k)" and I: "?I c k1"
    have "length (managers k1) = length (managers k)"
    proof -
      have "length (timers (timing k1)) = length (timers (timing k))"
        using I by (auto simp: dispatched_def)
      with kernel_inv_lengths [OF k] kernel_inv_lengths [of k1] I show ?thesis by simp
    qed
    with c have c1: "c < length (managers k1)" by simp
    with I obtain k2 where k2: "Reschedule c k1 = Some k2" "kernel_inv k2"
      using Reschedule_kernel_inv [of k1 c] by blast
    with dispatched_trans [OF conjunct2 [OF I] Reschedule_dispatched [OF conjunct1 [OF I] c1 k2(1)]]
    show "\<exists>k2. Reschedule c k1 = Some k2 \<and> ?I (Suc c) k2"
      by blast
  qed
  then obtain k' where k': "for_each Reschedule [0..<length (managers k)] ?k = Some k'" "kernel_inv k'" "dispatched ?k k'"
    by auto
  obtain P where P: "\<And>d. d < length (timers (timing ?k)) \<Longrightarrow> core_timer d k' = trim P (core_timer d ?k)"
    "length (timers (timing k')) = length (timers (timing ?k))"
    by (rule dispatched_timers [OF k'(3)]) (rule that, assumption+)
  show thesis
  proof (rule that [of k'])
    show "System_Reschedule k = Some k'"
      using True k'(1) by (simp add: System_Reschedule_def)
    show "length (managers k') = length (managers k)"
      using P(2) kernel_inv_lengths [OF k] kernel_inv_lengths [OF k'(2)] by simp
    show "\<exists>P. core_timer c k' = trim P (core_timer c k)" if "c < length (managers k)" for c
      using P(1) [of c] that kernel_inv_lengths [OF k] by (auto simp: core_timer_def)
  qed (rule k'(2))
qed

section \<open>Catching up\<close>

lemma set_core_timers: "t \<in> set (timers (timing k)) \<longleftrightarrow> (\<exists>c < length (timers (timing k)). t = core_timer c k)"
  by (auto simp: in_set_conv_nth core_timer_def)

lemma events_ok_core: "events_ok k \<Longrightarrow> c < length (timers (timing k)) \<Longrightarrow> e \<in> timer_events (core_timer c k) \<Longrightarrow> event_ok k e"
  by (auto simp: events_ok_def core_timer_def)

text \<open>The scan for cores that lag behind \<open>g\<close>, after \<open>m\<close> cores.\<close>

definition lagging :: "int \<Rightarrow> 'm kernel \<Rightarrow> nat \<Rightarrow> bool" where
  "lagging g k c \<longleftrightarrow> timer_now (core_timer c k) < g"

definition scanned :: "int \<Rightarrow> 'm kernel \<Rightarrow> nat \<Rightarrow> 'm kernel \<times> int \<times> nat option \<Rightarrow> bool" where
  "scanned g k m = (\<lambda>(k', mx, ch). kernel_inv k' \<and> events_ok k' \<and> length (managers k') = length (managers k) \<and>
     (\<forall>c < m. lagging g k c \<longrightarrow> executed_ticks (core_timer c k') = timer_now (core_timer c k) \<and>
        slice_length (core_timer c k') = downcount (core_timer c k') \<and> 0 \<le> slice_length (core_timer c k') \<and>
        slice_length (core_timer c k') \<le> g - timer_now (core_timer c k)) \<and>
     (\<forall>c < length (managers k). m \<le> c \<or> \<not> lagging g k c \<longrightarrow> (\<exists>P. core_timer c k' = trim P (core_timer c k))) \<and>
     (\<forall>c < m. g - timer_now (core_timer c k) \<le> mx) \<and>
     (case ch of None \<Rightarrow> mx = 0 | Some c \<Rightarrow> c < m \<and> lagging g k c \<and> mx = g - timer_now (core_timer c k)))"

lemma scannedD:
  assumes "scanned g k m (k', mx, ch)"
  shows "kernel_inv k'" "events_ok k'" "length (managers k') = length (managers k)"
    "c < m \<Longrightarrow> lagging g k c \<Longrightarrow> executed_ticks (core_timer c k') = timer_now (core_timer c k) \<and>
        slice_length (core_timer c k') = downcount (core_timer c k') \<and> 0 \<le> slice_length (core_timer c k') \<and>
        slice_length (core_timer c k') \<le> g - timer_now (core_timer c k)"
    "c < length (managers k) \<Longrightarrow> m \<le> c \<or> \<not> lagging g k c \<Longrightarrow> \<exists>P. core_timer c k' = trim P (core_timer c k)"
    "c < m \<Longrightarrow> g - timer_now (core_timer c k) \<le> mx"
    "ch = None \<Longrightarrow> mx = 0" "ch = Some c \<Longrightarrow> c < m \<and> lagging g k c \<and> mx = g - timer_now (core_timer c k)"
  using assms by (auto simp: scanned_def)

lemma delay_step_scanned:
  assumes clock: "\<And>c. c < length (managers k) \<Longrightarrow> clock_ok (timer_now (core_timer c k)) (core_timer c k) \<and>
      timer_ticks (core_timer c k) = timer_now (core_timer c k) \<and> g - timer_now (core_timer c k) < 2 ^ 31"
    and m: "m < length (managers k)" and sc: "scanned g k m (k1, mx, ch)"
  shows "\<exists>r. delay_step scaled g m (k1, mx, ch) = Some r \<and> scanned g k (Suc m) r"
proof -
  note A = scannedD [OF sc]
  from A(5) [OF m] obtain P0 where P0: "core_timer m k1 = trim P0 (core_timer m k)"
    by auto
  have now: "timer_now (core_timer m k1) = timer_now (core_timer m k)" "timer_ticks (core_timer m k1) = timer_now (core_timer m k)"
    using clock [OF m] by (simp_all add: P0)
  have mx: "0 \<le> mx"
    using A(7,8) by (cases ch) (auto simp: lagging_def)
  show ?thesis
  proof (cases "lagging g k m")
    case False
    have "scanned g k (Suc m) (k1, mx, ch)"
      using sc False mx by (auto simp: scanned_def less_Suc_eq lagging_def Suc_le_eq split: option.splits)
    moreover have "delay_step scaled g m (k1, mx, ch) = Some (k1, mx, ch)"
      using False now by (simp add: delay_step_def lagging_def)
    ultimately show ?thesis by blast
  next
    case True
    have m1: "m < length (managers k1)" "clock_ok (timer_now (core_timer m k1)) (core_timer m k1)"
      using m A(3) clock [OF m] by (simp_all add: P0 clock_ok_trim)
    obtain k2 P where k2: "advance_core scaled m k1 = Some k2" "kernel_inv k2" "events_ok k2"
      "current_timer (timing k2) = m" "length (managers k2) = length (managers k1)"
      "settled (timer_now (core_timer m k1)) (core_timer m k2)"
      "\<And>d. d < length (managers k1) \<Longrightarrow> d \<noteq> m \<Longrightarrow> core_timer d k2 = trim P (core_timer d k1)"
      by (rule advance_core_spec [OF A(1,2) m1]) (rule that, assumption+)
    define delay where "delay = g - timer_now (core_timer m k)"
    define k3 where "k3 = upd_core_timer m (SetNextSlice delay) k2"
    have d: "0 < delay" "delay < 2 ^ 31"
      using True clock [OF m] by (simp_all add: delay_def lagging_def)
    have st: "executed_ticks (core_timer m k2) = timer_now (core_timer m k)" "no_due_event (core_timer m k2)"
      using k2(6) now by (simp_all add: settled_def)
    note N = SetNextSlice_settled [OF st less_imp_le [OF d(1)] d(2)]
    have len: "m < length (timers (timing k2))"
      using kernel_inv_lengths [OF k2(2)] k2(5) m1(1) by simp
    have t3: "core_timer m k3 = SetNextSlice delay (core_timer m k2)"
      "core_timer c k3 = trim P (core_timer c k1)" if "c < length (managers k)" "c \<noteq> m" for c
      using len k2(7) [of c] that A(3) by (simp_all add: k3_def)
    have tm: "core_timer m k3 = SetNextSlice delay (core_timer m k2)"
      using len by (simp add: k3_def)
    have run: "delay_step scaled g m (k1, mx, ch) = Some (if mx < delay then (k3, delay, Some m) else (k3, mx, ch))"
      using k2(1) now True d by (simp add: delay_step_def lagging_def Let_def flip: delay_def k3_def)
    have ev: "events_ok k3"
      unfolding k3_def upd_core_timer_def
    proof (rule events_ok_put [OF k2(3)])
      show "event_ok k2 e" if "e \<in> timer_events (SetNextSlice delay (core_timer m k2))" for e
        using that by (intro events_ok_core [OF k2(3) len]) (simp add: timer_events_def SetNextSlice_def Let_def)
    qed
    have "scanned g k (Suc m) (k3, max mx delay, if mx < delay then Some m else ch)"
      unfolding scanned_def prod.case
    proof (intro conjI allI impI)
      show "kernel_inv k3" "events_ok k3" "length (managers k3) = length (managers k)"
        using kernel_inv_upd_core_timer [OF k2(2)] ev k2(5) A(3) by (simp_all add: k3_def)
    next
      fix c assume c: "c < Suc m" "lagging g k c"
      show "executed_ticks (core_timer c k3) = timer_now (core_timer c k)"
        "slice_length (core_timer c k3) = downcount (core_timer c k3)" "0 \<le> slice_length (core_timer c k3)"
        "slice_length (core_timer c k3) \<le> g - timer_now (core_timer c k)"
        using c m A(4) [of c] t3(2) [of c] tm N by (cases "c = m"; simp add: delay_def)+
    next
      fix c assume c: "c < length (managers k)" "Suc m \<le> c \<or> \<not> lagging g k c"
      with True have "c \<noteq> m" by auto
      from A(5) [OF c(1)] c(2) obtain Q where "core_timer c k1 = trim Q (core_timer c k)"
        by auto
      with t3(2) [OF c(1) \<open>c \<noteq> m\<close>] have "core_timer c k3 = trim (\<lambda>e. Q e \<and> P e) (core_timer c k)"
        by (simp add: trim_trim)
      then show "\<exists>P. core_timer c k3 = trim P (core_timer c k)" by (intro exI)
    next
      show "g - timer_now (core_timer c k) \<le> max mx delay" if "c < Suc m" for c
        using that A(6) [of c] by (cases "c = m") (simp_all add: delay_def le_max_iff_disj)
    next
      show "case if mx < delay then Some m else ch of None \<Rightarrow> max mx delay = 0
        | Some c \<Rightarrow> c < Suc m \<and> lagging g k c \<and> max mx delay = g - timer_now (core_timer c k)"
        using A(7,8) True d(1) by (auto simp: delay_def split: option.split)
    qed
    with run show ?thesis by (simp add: max_def split: if_splits)
  qed
qed

end
