(* ===== verification/Loop_Props.thy ===== *)
theory Loop_Props
  imports Core_Loop
begin

text \<open>
  What the event loop and \<open>System::RunLoop\<close> guarantee on the kernel: advancing a core always ends, the
  cores stay in lock step, and a core that lags behind catches up and no more.
\<close>

section \<open>Properties\<close>

lemma no_delay:
  assumes "\<And>c. c \<in> set cs \<Longrightarrow> \<not> timer_ticks (core_timer c k) < g"
  shows "for_each (delay_step scaled g) cs (k, d, ch) = Some (k, d, ch)"
  using assms by (induction cs) (simp_all add: delay_step_def)

lemma GetGlobalTicks_same:
  assumes "timers tm \<noteq> []" "\<And>t. t \<in> set (timers tm) \<Longrightarrow> timer_ticks t = g" "0 \<le> g" "g < 2 ^ 62"
  shows "GetGlobalTicks tm = g"
proof -
  have "timer_ticks ` set (timers tm) = {g}"
    using assms(1,2) by (cases "timers tm") auto
  with assms(3,4) show ?thesis
    by (simp add: GetGlobalTicks_def)
qed

lemma run_cores_in_step:
  assumes k: "kernel_inv k" "events_ok k"
    and same: "\<forall>c < length (managers k). timer_ticks (core_timer c k) = g \<and> timer_now (core_timer c k) = g \<and>
      clock_ok g (core_timer c k)"
    and cpu: "cpu_contract over cpu" "over * int (length (managers k)) < 2 ^ 30"
  shows "\<exists>k1 S k'. for_each (sync_step scaled) [0..<length (managers k)] (k, MAX_SLICE_LENGTH) = Some (k1, S) \<and>
    0 < S \<and> S \<le> MAX_SLICE_LENGTH \<and>
    (\<forall>c < length (managers k). \<forall>e \<in> set (event_queue (core_timer c k1)). g + S \<le> ev_time e) \<and>
    run_cores scaled cpu k = Some k' \<and> kernel_inv k' \<and>
    (\<forall>c < length (managers k). g \<le> timer_now (core_timer c k') \<and>
       timer_now (core_timer c k') \<le> g + S + over * (int c + 1) \<and>
       (0 < c \<longrightarrow> timer_now (core_timer c k') \<le> timer_now (core_timer (c - 1) k') + over))"
proof -
  let ?n = "length (managers k)"
  have clock: "clock_ok (timer_now (core_timer c k)) (core_timer c k)" if "c < ?n" for c
    using same that by auto
  have n: "0 < ?n" "length (timers (timing k)) = ?n"
    using k(1) kernel_inv_lengths [OF k(1)] by (auto simp: kernel_inv_def static_ok_def)
  then have g: "0 \<le> g" "g < 2 ^ 62"
    using same by (auto simp: clock_ok_def)
  have "GetGlobalTicks (timing k) = g"
    by (rule GetGlobalTicks_same) (use n g same in \<open>auto simp: set_core_timers\<close>)
  then have delay: "for_each (delay_step scaled (GetGlobalTicks (timing k) mod 2 ^ 64)) [0..<?n] (k, 0, None) = Some (k, 0, None)"
    using same g by (intro no_delay) auto
  obtain k1 S where k1: "for_each (sync_step scaled) [0..<?n] (k, MAX_SLICE_LENGTH) = Some (k1, S)" "advanced k ?n (k1, S)"
    by (rule sync_pass [OF k clock]) (assumption | rule that)+
  have A: "kernel_inv k1" "length (managers k1) = ?n" "0 < S" "S \<le> MAX_SLICE_LENGTH"
    "\<And>c. c < ?n \<Longrightarrow> settled g (core_timer c k1) \<and> events_after (g + S) (core_timer c k1)"
    using k1(2) same by (auto simp: advanced_def)
  have bounds: "0 \<le> S" "S + over * int (length (managers k1)) < 2 ^ 31"
    using A(2-4) cpu(2) by (simp_all add: MAX_SLICE_LENGTH_def BASE_CLOCK_RATE_ARM11_def)
  have ex: "executed_ticks (core_timer c k1) = g" if "c < ?n" for c
    using A(5) [OF that] by (simp add: settled_def)
  obtain k2 ms where k2: "for_each (slice_step cpu) [0..<length (managers k1)] (k1, S) = Some (k2, ms)"
    "sliced over k1 S (length (managers k1)) (k2, ms)"
    by (rule slice_pass [OF cpu(1) A(1) bounds]) (use A(2,5) g ex in \<open>auto simp: settled_def intro: that\<close>)
  have B: "kernel_inv k2" "length (managers k2) = ?n"
    "\<And>c. c < ?n \<Longrightarrow> timer_now (core_timer c k2) = g + elapsed (core_timer c k2)"
    "\<And>c. c < ?n \<Longrightarrow> 0 \<le> elapsed (core_timer c k2) \<and> elapsed (core_timer c k2) \<le> S + over * (int c + 1) \<and>
        (0 < c \<longrightarrow> elapsed (core_timer c k2) \<le> elapsed (core_timer (c - 1) k2) + over)"
    using k2(2) ex A(2) by (auto simp: sliced_def timer_now_def elapsed_def)
  obtain k' where k': "System_Reschedule k2 = Some k'" "kernel_inv k'"
    "\<And>c. c < length (managers k2) \<Longrightarrow> \<exists>P. core_timer c k' = trim P (core_timer c k2)"
    by (rule System_Reschedule_spec [OF B(1)]) (rule that, assumption+)
  have now: "timer_now (core_timer c k') = g + elapsed (core_timer c k2)" if "c < ?n" for c
    using k'(3) [of c] B(2,3) that by auto
  have "run_cores scaled cpu k = Some k'"
    using delay k1(1) k2(1) k'(1) A(2) by (simp add: run_cores_def Let_def min_delay_def)
  moreover have "\<forall>c < ?n. \<forall>e \<in> set (event_queue (core_timer c k1)). g + S \<le> ev_time e"
    using A(5) by (simp add: events_after_def)
  moreover have "\<forall>c < ?n. g \<le> timer_now (core_timer c k') \<and> timer_now (core_timer c k') \<le> g + S + over * (int c + 1) \<and>
       (0 < c \<longrightarrow> timer_now (core_timer c k') \<le> timer_now (core_timer (c - 1) k') + over)"
    using B(4) now by (simp add: less_imp_diff_less)
  ultimately show ?thesis
    using k1(1) A(3,4) k'(2) by blast
qed



text \<open>A kernel with a timer that fires after 1000 ns and then every 5000 ns, at 1000 ticks.\<close>

definition demo_periodic :: "unit kernel option" where
  "demo_periodic = do {
     k \<leftarrow> timer_Set 7 1000 5000 (CreateTimer 7 OneShot (new_kernel 2 (new_timing 2 id 0) [] ()));
     Some (upd_core_timer 0 (AddTicks 1000) k) }"

lemma demo_periodic_spec:
  obtains k where "demo_periodic = Some k" "kernel_inv k" "current_timer (timing k) = 0"
    "core_timer 0 k = \<lparr>event_queue = [\<lparr>ev_time = 268, fifo_order = 0, user_data = 1, ev_type = TimerFired\<rparr>],
       event_fifo_id = 1, ts_queue = [], is_timer_sane = True, slice_length = 1145777, downcount = 1144777,
       executed_ticks = 0, idled_cycles = 0, clock_scale = id\<rparr>"
    "timer_events (core_timer 1 k) = {}" "length (timers (timing k)) = 2"
    "timer_callback_table k 1 = Some 7" "timer_view (wait_objs k 7) = Some (1, 5000)"
proof -
  define k0 :: "unit kernel" where "k0 = CreateTimer 7 OneShot (new_kernel 2 (new_timing 2 id 0) [] ())"
  define t0 :: "kernel_event timer" where "t0 = new_timer 0"
  have tm: "timing k0 = \<lparr>timers = [t0, t0], current_timer = 0, event_queue_locked = False\<rparr>"
    by (simp add: k0_def t0_def CreateTimer_def Let_def new_kernel_def set_waiting_def set_object_def new_timing_def
      UpdateClockSpeed_def numeral_2_eq_2 new_timer_def id_def)
  have t0: "event_queue t0 = []" "t0\<lparr>event_queue := []\<rparr> = t0"
    by (simp_all add: t0_def new_timer_def)
  have w: "wait_objs k0 7 = WTimer \<lparr>timer_reset = OneShot, timer_signaled = False, initial_delay = 0, interval_delay = 0, callback_id = 1\<rparr>"
    by (simp add: k0_def CreateTimer_def Let_def new_kernel_def)
  have cb: "timer_callback_table k0 1 = Some 7"
    by (simp add: k0_def CreateTimer_def Let_def new_kernel_def)
  have ns: "nsToCycles 1000 = 268"
    by (simp add: nsToCycles_small MAX_VALUE_TO_MULTIPLY_eq BASE_CLOCK_RATE_ARM11_def)
  have i0: "kernel_inv k0"
    unfolding k0_def by (intro CreateTimer_kernel_inv kernel_inv_new_kernel)
      (simp_all add: new_timing_def UpdateClockSpeed_def fresh_def new_kernel_def is_thread_def)
  define k where "k = set_object 7 (WTimer \<lparr>timer_reset = OneShot, timer_signaled = False,
       initial_delay = 1000, interval_delay = 5000, callback_id = 1\<rparr>)
      (k0\<lparr>timing := \<lparr>timers = [schedule_here 268 1 TimerFired t0, t0], current_timer = 0, event_queue_locked = False\<rparr>\<rparr>)"
  have run: "timer_Set 7 1000 5000 k0 = Some k"
    by (simp add: timer_Set_def timer_Cancel_def schedule_def ScheduleEvent_def UnscheduleEvent_def Let_def w tm ns t0
        k_def set_object_def)
  have kt: "timing k = \<lparr>timers = [schedule_here 268 1 TimerFired t0, t0], current_timer = 0, event_queue_locked = False\<rparr>"
    "timer_callback_table k 1 = Some 7" "timer_view (wait_objs k 7) = Some (1, 5000)"
    using cb by (simp_all add: k_def timer_view_def set_object_def)
  have sh: "schedule_here 268 1 TimerFired t0 =
     \<lparr>event_queue = [\<lparr>ev_time = 268, fifo_order = 0, user_data = 1, ev_type = TimerFired\<rparr>],
       event_fifo_id = 1, ts_queue = [], is_timer_sane = True, slice_length = 1145777, downcount = 1145777,
       executed_ticks = 0, idled_cycles = 0, clock_scale = id\<rparr>"
    by (simp add: t0_def new_timer_def schedule_here_def Let_def timer_ticks_def enqueue_def id_def
          MAX_SLICE_LENGTH_def BASE_CLOCK_RATE_ARM11_def)
  have inv: "kernel_inv (upd_core_timer 0 (AddTicks 1000) k)"
    by (rule kernel_inv_upd_core_timer [OF timer_Set_kernel_inv [OF i0 run]])
  show thesis
    by (rule that [OF _ inv])
      (use run kt sh in
        \<open>simp_all add: demo_periodic_def k0_def [symmetric] upd_core_timer_def core_timer_def put_core_timer_def
          AddTicks_def timer_events_def t0_def new_timer_def\<close>)
qed


text \<open>A CPU that uses up its slice and does nothing else.\<close>

definition demo_cpu :: "nat \<Rightarrow> 'm kernel \<Rightarrow> 'm kernel option" where
  "demo_cpu c k = Some (upd_core_timer c (\<lambda>t. t\<lparr>downcount := min 0 (downcount t)\<rparr>) k)"

lemma demo_cpu_contract: "cpu_contract 0 demo_cpu"
proof -
  have "\<exists>k'. demo_cpu c k = Some k' \<and> kernel_inv k' \<and> length (managers k') = length (managers k) \<and>
      cpu_ran 0 (core_timer c k) (core_timer c k') \<and>
      (\<forall>d < length (managers k). d \<noteq> c \<longrightarrow> left_alone (core_timer d k) (core_timer d k'))"
    if "kernel_inv k" "current_timer (timing k) = c" for c and k :: "'a kernel"
  proof -
    have "c < length (timers (timing k))"
      using that kernel_invD(6) [of k] by (simp add: timer_ok_def)
    with that show ?thesis
      by (auto simp: demo_cpu_def kernel_inv_upd_core_timer cpu_ran_def)
  qed
  then show ?thesis
    by (simp add: cpu_contract_def)
qed

lemma demo_start:
  defines "k \<equiv> new_kernel 2 (new_timing 2 id 0) [] () :: unit kernel"
  shows "kernel_inv k" "events_ok k" "length (managers k) = 2"
    "\<forall>c < length (managers k). timer_ticks (core_timer c k) = 0 \<and> timer_now (core_timer c k) = 0 \<and> clock_ok 0 (core_timer c k)"
proof -
  let ?k = "new_kernel 2 (new_timing 2 id 0) [] () :: unit kernel"
  have inv: "kernel_inv ?k"
    by (rule kernel_inv_new_kernel) (simp_all add: new_timing_def UpdateClockSpeed_def)
  have n: "length (managers ?k) = 2" "length (timers (timing ?k)) = 2"
    by (simp_all add: new_kernel_def new_timing_def UpdateClockSpeed_def)
  have t: "core_timer c ?k = \<lparr>event_queue = [], event_fifo_id = 0, ts_queue = [], is_timer_sane = True,
      slice_length = MAX_SLICE_LENGTH, downcount = MAX_SLICE_LENGTH, executed_ticks = 0, idled_cycles = 0, clock_scale = id\<rparr>"
    if "c < 2" for c
    using less_2_cases [OF that] by (auto simp: new_kernel_def new_timing_def UpdateClockSpeed_def new_timer_def
      core_timer_def numeral_2_eq_2)
  have ev: "events_ok ?k"
    using t by (auto simp: events_ok_def set_core_timers timer_events_def n(2))
  have "\<forall>c < length (managers ?k). timer_ticks (core_timer c ?k) = 0 \<and> timer_now (core_timer c ?k) = 0 \<and> clock_ok 0 (core_timer c ?k)"
    using t by (auto simp: n timer_ticks_def timer_now_def clock_ok_def timer_inv_def timer_events_def)
  with inv ev n(1) show "kernel_inv k" "events_ok k" "length (managers k) = 2"
    "\<forall>c < length (managers k). timer_ticks (core_timer c k) = 0 \<and> timer_now (core_timer c k) = 0 \<and> clock_ok 0 (core_timer c k)"
    by (simp_all only: k_def)
qed

lemma demo_start_runs:
  obtains k' where "run_cores id demo_cpu (new_kernel 2 (new_timing 2 id 0) [] () :: unit kernel) = Some k'"
  using run_cores_in_step [OF demo_start(1,2,4) demo_cpu_contract, of id] by auto


lemma GetGlobalTicks_Max:
  assumes "timers tm \<noteq> []" "\<And>t. t \<in> set (timers tm) \<Longrightarrow> 0 \<le> timer_ticks t \<and> timer_ticks t < 2 ^ 62"
  shows "GetGlobalTicks tm = Max (timer_ticks ` set (timers tm))"
proof -
  have "Max (timer_ticks ` set (timers tm)) \<in> timer_ticks ` set (timers tm)"
    using assms(1) by (intro Max_in) auto
  with assms(2) show ?thesis
    by (fastforce simp: GetGlobalTicks_def)
qed

text \<open>When some core lags behind the global time by more than 100 ticks, \<open>RunLoop\<close> runs exactly one
  core, the one that lags most (the first such), and only up to the global time, but for the ticks by
  which the CPU oversteps its slice; the clocks of the other cores stand still.
\<close>

lemma run_cores_catches_up:
  assumes k: "kernel_inv k" "events_ok k"
    and clocks: "\<forall>c < length (managers k). timer_ticks (core_timer c k) = timer_now (core_timer c k) \<and>
      clock_ok (timer_now (core_timer c k)) (core_timer c k) \<and> GetGlobalTicks (timing k) - timer_now (core_timer c k) < 2 ^ 31"
    and behind: "\<exists>c < length (managers k). timer_now (core_timer c k) + 100 < GetGlobalTicks (timing k)"
    and cpu: "cpu_contract over cpu"
  shows "\<exists>c k'. run_cores scaled cpu k = Some k' \<and> kernel_inv k' \<and> c < length (managers k) \<and>
    (\<forall>d < length (managers k). timer_now (core_timer c k) \<le> timer_now (core_timer d k)) \<and>
    timer_now (core_timer c k) \<le> timer_now (core_timer c k') \<and>
    timer_now (core_timer c k') \<le> GetGlobalTicks (timing k) + over \<and>
    (\<forall>d < length (managers k). d \<noteq> c \<longrightarrow> timer_now (core_timer d k') = timer_now (core_timer d k))"
proof -
  let ?n = "length (managers k)"
  define g where "g = GetGlobalTicks (timing k)"
  have n: "0 < ?n" "length (timers (timing k)) = ?n"
    using k(1) kernel_inv_lengths [OF k(1)] by (auto simp: kernel_inv_def static_ok_def)
  have ticks: "0 \<le> timer_ticks t \<and> timer_ticks t < 2 ^ 62" if "t \<in> set (timers (timing k))" for t
    using that clocks n(2) by (auto simp: set_core_timers clock_ok_def)
  have g_max: "g = Max (timer_ticks ` set (timers (timing k)))"
    unfolding g_def by (rule GetGlobalTicks_Max [OF _ ticks]) (use n in auto)
  have g: "timer_now (core_timer c k) \<le> g" if "c < ?n" for c
    using that clocks n(2) by (force simp: g_max set_core_timers intro!: Max_ge)
  have "g \<in> timer_ticks ` set (timers (timing k))"
    unfolding g_max using n by (intro Max_in) auto
  with ticks have g62: "0 \<le> g" "g < 2 ^ 62"
    by auto
  have clock: "clock_ok (timer_now (core_timer c k)) (core_timer c k) \<and>
      timer_ticks (core_timer c k) = timer_now (core_timer c k) \<and> g - timer_now (core_timer c k) < 2 ^ 31" if "c < ?n" for c
    using clocks that by (simp add: g_def)
  have 0: "scanned g k 0 (k, 0, None)"
    using k by (auto simp: scanned_def intro!: exI [of _ "\<lambda>_. True"])
  have "\<exists>r. for_each (delay_step scaled g) [0..<?n] (k, 0, None) = Some r \<and> scanned g k ?n r"
  proof (rule for_each_upto [where f = "delay_step scaled g" and I = "scanned g k", OF 0])
    fix m and s :: "'a kernel \<times> int \<times> nat option"
    assume "m < ?n" "scanned g k m s"
    with delay_step_scanned [OF clock, of m "fst s" "fst (snd s)" "snd (snd s)"]
    show "\<exists>r. delay_step scaled g m s = Some r \<and> scanned g k (Suc m) r"
      by simp
  qed
  then obtain k1 mx ch where k1: "for_each (delay_step scaled g) [0..<?n] (k, 0, None) = Some (k1, mx, ch)"
    "scanned g k ?n (k1, mx, ch)"
    by auto
  note A = scannedD [OF k1(2)]
  from behind obtain c0 where "c0 < ?n" "timer_now (core_timer c0 k) + 100 < g"
    by (auto simp: g_def)
  with A(6) [of c0] have mx: "100 < mx"
    by simp
  with A(7) obtain c where ch: "ch = Some c" by fastforce
  note C = A(8) [OF ch]
  have c: "c < ?n" "timer_now (core_timer c k) < g" "mx = g - timer_now (core_timer c k)"
    using C by (simp_all add: lagging_def)
  let ?k2 = "if current_timer (timing k1) \<noteq> c then SetRunningCPU c k1 else k1"
  have k2: "kernel_inv ?k2" "current_timer (timing ?k2) = c" "c < length (managers ?k2)"
    "length (managers ?k2) = ?n" "core_timer d ?k2 = core_timer d k1" for d
    using A(1,3) c(1) SetRunningCPU_inv [OF A(1), of c] by simp_all
  obtain k3 where k3: "run_core cpu c ?k2 = Some k3" "kernel_inv k3" "length (managers k3) = length (managers ?k2)"
    "cpu_ran over (core_timer c ?k2) (core_timer c k3) \<or> core_timer c k3 = Idle (core_timer c ?k2)"
    "\<And>d. d < length (managers ?k2) \<Longrightarrow> d \<noteq> c \<Longrightarrow> left_alone (core_timer d ?k2) (core_timer d k3)"
    by (rule run_core_spec [OF cpu k2(1-3)]) (rule that, assumption+)
  have over: "0 \<le> over"
    using cpu by (simp add: cpu_contract_def)
  have tc: "executed_ticks (core_timer c k1) = timer_now (core_timer c k)"
    "slice_length (core_timer c k1) = downcount (core_timer c k1)" "0 \<le> slice_length (core_timer c k1)"
    "slice_length (core_timer c k1) \<le> g - timer_now (core_timer c k)"
    using A(4) [of c] C by simp_all
  note E = run_core_elapsed [OF tc(2,3) k3(4) [unfolded k2(5)] over]
  have ot: "timer_now (core_timer d k3) = timer_now (core_timer d k)" if "d < ?n" "d \<noteq> c" for d
  proof -
    have "timer_now (core_timer d k3) = timer_now (core_timer d k1)"
      using k3(5) [of d] that k2(4,5) left_alone_now by auto
    also have "\<dots> = timer_now (core_timer d k)"
    proof (cases "lagging g k d")
      case True
      with A(4) [of d] that show ?thesis by (simp add: timer_now_def)
    next
      case False
      with A(5) [of d] that show ?thesis by auto
    qed
    finally show ?thesis .
  qed
  obtain k' where k': "System_Reschedule k3 = Some k'" "kernel_inv k'"
    "\<And>c. c < length (managers k3) \<Longrightarrow> \<exists>P. core_timer c k' = trim P (core_timer c k3)"
    by (rule System_Reschedule_spec [OF k3(2)]) (rule that, assumption+)
  have now: "timer_now (core_timer d k') = timer_now (core_timer d k3)" if "d < ?n" for d
    using k'(3) [of d] that k3(3) k2(4) by auto
  have "run_cores scaled cpu k = Some k'"
    using k1(1) k3(1) k'(1) mx ch g62 by (simp add: run_cores_def Let_def min_delay_def run_delayed_def flip: g_def)
  moreover have "\<forall>d < ?n. timer_now (core_timer c k) \<le> timer_now (core_timer d k)"
    using A(6) c(3) by fastforce
  ultimately show ?thesis
    using k'(2) c(1) E tc now [OF c(1)] now ot by (intro exI [of _ c] exI [of _ k']) (auto simp flip: g_def)
qed

lemma run_cores_catches_up_witness:
  "\<exists>c k'. run_cores id demo_cpu (upd_core_timer 1 (\<lambda>t. t\<lparr>executed_ticks := 1000\<rparr>)
       (new_kernel 2 (new_timing 2 id 0) [] ())) = Some k' \<and> c < 2 \<and> timer_now (core_timer c k') \<le> 1000 + 0"
proof -
  define t0 :: "int \<Rightarrow> kernel_event timer" where "t0 g = (new_timer g)" for g
  let ?k = "upd_core_timer 1 (\<lambda>t. t\<lparr>executed_ticks := 1000\<rparr>) (new_kernel 2 (new_timing 2 id 0) [] ()) :: unit kernel"
  have inv: "kernel_inv ?k"
    by (intro kernel_inv_upd_core_timer kernel_inv_new_kernel) (simp_all add: new_timing_def UpdateClockSpeed_def)
  have tm: "timers (timing ?k) = [t0 0, t0 1000]" "length (managers ?k) = 2"
    by (simp_all add: t0_def new_kernel_def new_timing_def UpdateClockSpeed_def new_timer_def numeral_2_eq_2
        upd_core_timer_def put_core_timer_def core_timer_def id_def)
  have t: "core_timer 0 ?k = t0 0" "core_timer 1 ?k = t0 1000" "core_timer (Suc 0) ?k = t0 1000"
    by (simp_all only: core_timer_def tm) simp_all
  have f: "event_queue (t0 g) = []" "ts_queue (t0 g) = []" "timer_now (t0 g) = g" "0 \<le> g \<Longrightarrow> g < 2 ^ 62 \<Longrightarrow> timer_ticks (t0 g) = g" for g
    by (simp_all add: t0_def new_timer_def timer_now_def timer_ticks_def)
  have gl: "GetGlobalTicks (timing ?k) = 1000"
    unfolding GetGlobalTicks_def tm(1) by (simp add: f)
  have ev: "events_ok ?k"
    unfolding events_ok_def tm(1) by (simp add: timer_events_def f)
  have cl: "\<forall>c < length (managers ?k). timer_ticks (core_timer c ?k) = timer_now (core_timer c ?k) \<and>
      clock_ok (timer_now (core_timer c ?k)) (core_timer c ?k) \<and> GetGlobalTicks (timing ?k) - timer_now (core_timer c ?k) < 2 ^ 31"
    unfolding tm(2) gl by (auto simp only: less_2_cases_iff t) (simp_all add: f clock_ok_def timer_inv_def timer_events_def)
  have b: "\<exists>c < length (managers ?k). timer_now (core_timer c ?k) + 100 < GetGlobalTicks (timing ?k)"
    unfolding tm(2) gl by (rule exI [of _ 0]) (simp only: t f, simp)
  from run_cores_catches_up [OF inv ev cl b demo_cpu_contract, of id] show ?thesis
    unfolding tm(2) gl by blast
qed

end
