(* ===== verification/System_Loop.thy ===== *)
theory System_Loop
  imports Loop_Props
begin

text \<open>
  \<open>System::RunLoop\<close> as a whole (\<open>core/core.cpp\<close>): the signal that the frontend sends (reset, shutdown,
  save or load a state), the state machine of a save-state request, which waits until the kernel has no
  asynchronous operation pending, and then the run of the cores of \<open>Core_Loop\<close>.

  Saving, loading and resetting the whole system, the host's clock and whether asynchronous
  operations are pending are parameters, collected in \<open>host\<close>; an exception of the first two is \<open>None\<close>.
  The optional GDB stub is not modelled. The clock counts nanoseconds.
\<close>

section \<open>State\<close>

datatype system_signal = NoSignal | Shutdown | Reset | Save | Load

datatype SaveStateStatus = NONE | LOADING | SAVING

datatype ResultStatus =
  Success | ErrorNotInitialized | ErrorGetLoader | ErrorSystemMode | ErrorLoader |
  ErrorLoader_ErrorEncrypted | ErrorLoader_ErrorInvalidFormat | ErrorLoader_ErrorGbaTitle |
  ErrorLoader_ErrorPatches | ErrorLoader_ErrorPatchesInvalidTitle | ErrorSystemFiles | ErrorSavestate |
  ErrorArticDisconnected | ErrorN3DSApplication | ErrorCoreExceptionRaised |
  ErrorMemoryExceptionRaised | ShutdownRequested | ErrorUnknown

record 'm system =
  sys_kernel :: "'m kernel"
  powered_on :: bool
  current_signal :: system_signal
  signal_param :: nat
  request_status :: SaveStateStatus
  request_slot :: nat
  request_time :: int

text \<open>\<open>run_status\<close> is the status that the run of the cores leaves (\<open>SetStatus\<close>).\<close>

record 'm host =
  initial_setup :: bool
  signal_time :: int
  check_time :: int
  async_pending :: bool
  load_state :: "nat \<Rightarrow> 'm system \<Rightarrow> 'm system option"
  save_state :: "nat \<Rightarrow> 'm system \<Rightarrow> 'm system option"
  reset_system :: "'m system \<Rightarrow> 'm system"
  run_status :: "'m kernel \<Rightarrow> ResultStatus"

section \<open>Operations\<close>

definition SendSignal :: "system_signal \<Rightarrow> nat \<Rightarrow> 'm system \<Rightarrow> 'm system \<times> bool" where
  "SendSignal sig param s =
     (if current_signal s \<noteq> sig \<and> current_signal s \<noteq> NoSignal then (s, False)
      else (s\<lparr>current_signal := sig, signal_param := param\<rparr>, True))"

text \<open>A step of \<open>RunLoop\<close> either ends the call with a status or goes on.\<close>

definition start_request ::
  "'m host \<Rightarrow> SaveStateStatus \<Rightarrow> nat \<Rightarrow> 'm system \<Rightarrow> 'm system \<times> ResultStatus option" where
  "start_request h request slot s =
     (if request_status s \<noteq> NONE then (s, Some ErrorSavestate)
      else (s\<lparr>request_slot := slot, request_time := signal_time h, request_status := request\<rparr>, None))"

definition take_signal :: "'m host \<Rightarrow> 'm system \<Rightarrow> 'm system \<times> ResultStatus option" where
  "take_signal h s0 =
     (let s = s0\<lparr>current_signal := NoSignal\<rparr> in
      case current_signal s0 of
        NoSignal \<Rightarrow> (s, None)
      | Reset \<Rightarrow> if initial_setup h then (s, Some ShutdownRequested) else (reset_system h s, Some Success)
      | Shutdown \<Rightarrow> (s, Some ShutdownRequested)
      | Load \<Rightarrow> start_request h LOADING (signal_param s0) s
      | Save \<Rightarrow> start_request h SAVING (signal_param s0) s)"

definition handle_request :: "'m host \<Rightarrow> 'm system \<Rightarrow> 'm system \<times> ResultStatus option" where
  "handle_request h s =
     (if request_status s = LOADING \<and> \<not> async_pending h
      then (case load_state h (request_slot s) (s\<lparr>request_status := NONE\<rparr>) of
              None \<Rightarrow> (s\<lparr>request_status := NONE\<rparr>, Some ErrorSavestate)
            | Some s' \<Rightarrow> (s', Some Success))
      else if request_status s = SAVING \<and> \<not> async_pending h
      then (case save_state h (request_slot s) (s\<lparr>request_status := NONE\<rparr>) of
              None \<Rightarrow> (s\<lparr>request_status := NONE\<rparr>, Some ErrorSavestate)
            | Some s' \<Rightarrow> (s', Some Success))
      else if request_status s \<noteq> NONE \<and> check_time h - request_time s > 5 * 10 ^ 9
      then (s\<lparr>request_status := NONE\<rparr>, Some ErrorSavestate)
      else (s, None))"

definition RunLoop ::
  "'m host \<Rightarrow> (int \<Rightarrow> int) \<Rightarrow> (nat \<Rightarrow> 'm kernel \<Rightarrow> 'm kernel option) \<Rightarrow> 'm system \<Rightarrow>
   ('m system \<times> ResultStatus) option" where
  "RunLoop h scaled cpu s =
     (if \<not> powered_on s then Some (s, ErrorNotInitialized)
      else case take_signal h s of
        (s, Some r) \<Rightarrow> Some (s, r)
      | (s, None) \<Rightarrow>
          (case handle_request h s of
             (s, Some r) \<Rightarrow> Some (s, r)
           | (s, None) \<Rightarrow> do {
               k \<leftarrow> run_cores scaled cpu (sys_kernel s);
               Some (s\<lparr>sys_kernel := k\<rparr>, run_status h k) }))"

section \<open>The life of a save-state request\<close>

text \<open>\<open>n\<close> calls of \<open>RunLoop\<close>, each with the host as it is then.\<close>

fun run_loops ::
  "(int \<Rightarrow> int) \<Rightarrow> (nat \<Rightarrow> 'm kernel \<Rightarrow> 'm kernel option) \<Rightarrow> 'm host list \<Rightarrow> 'm system \<Rightarrow> ('m system \<times> ResultStatus list) option" where
  "run_loops scaled cpu [] s = Some (s, [])"
| "run_loops scaled cpu (h # hs) s = do {
     (s, r) \<leftarrow> RunLoop h scaled cpu s;
     (s, rs) \<leftarrow> run_loops scaled cpu hs s;
     Some (s, r # rs) }"

lemma RunLoop_waits:
  assumes "powered_on s" "current_signal s = NoSignal" "request_status s \<noteq> NONE" "async_pending h"
    "check_time h - request_time s \<le> 5 * 10 ^ 9" "RunLoop h scaled cpu s = Some (s', r)"
  shows "\<exists>k. run_cores scaled cpu (sys_kernel s) = Some k \<and> s' = s\<lparr>sys_kernel := k\<rparr>"
proof -
  have "s\<lparr>current_signal := NoSignal\<rparr> = s"
    using assms(2) by simp
  with assms show ?thesis
    by (auto simp: RunLoop_def take_signal_def handle_request_def bind_eq_Some_conv Let_def)
qed

text \<open>As long as asynchronous operations are pending and five seconds have not passed, a request waits.\<close>

lemma run_loops_wait:
  assumes "powered_on s" "current_signal s = NoSignal" "request_status s = q" "q \<noteq> NONE"
    "\<forall>h \<in> set hs. async_pending h \<and> check_time h - request_time s \<le> 5 * 10 ^ 9"
    "run_loops scaled cpu hs s = Some (s', rs)"
  shows "\<exists>k. s' = s\<lparr>sys_kernel := k\<rparr>"
  using assms
proof (induction hs arbitrary: s rs)
  case Nil
  then show ?case by (auto intro: exI [of _ "sys_kernel s"])
next
  case (Cons h hs)
  then obtain s1 r rs1 where s1: "RunLoop h scaled cpu s = Some (s1, r)" "run_loops scaled cpu hs s1 = Some (s', rs1)"
    by (auto simp: bind_eq_Some_conv)
  from RunLoop_waits [OF _ _ _ _ _ s1(1)] Cons.prems obtain k where "s1 = s\<lparr>sys_kernel := k\<rparr>"
    by auto
  with Cons.IH [OF _ _ _ _ _ s1(2)] Cons.prems show ?case
    by auto
qed



definition demo_system :: "unit system" where
  "demo_system = \<lparr>sys_kernel = new_kernel 2 (new_timing 2 id 0) [] (), powered_on = True, current_signal = NoSignal,
     signal_param = 0, request_status = NONE, request_slot = 0, request_time = 0\<rparr>"

definition demo_host :: "int \<Rightarrow> bool \<Rightarrow> unit host" where
  "demo_host now busy = \<lparr>initial_setup = False, signal_time = now, check_time = now, async_pending = busy,
     load_state = (\<lambda>_. Some), save_state = (\<lambda>_ _. None), reset_system = id, run_status = (\<lambda>_. Success)\<rparr>"


end
