(* ===== verification/Cache_Batch.thy ===== *)
theory Cache_Batch
  imports Prelude
begin

text \<open>
  The invalidation of the CPUs' instruction caches by \<open>System\<close> (\<open>core/core.cpp\<close>): at once, or collected in a
  batch whose ranges are sorted and merged when the outermost batch ends. Every CPU gets the same
  calls; the model keeps the list of them, each a start address and a length.
\<close>

section \<open>Ranges\<close>

text \<open>\<open>std::pair<u32, u64>\<close>: a start address and the end behind the range.\<close>

datatype cache_range = Range (range_begin: nat) (range_end: nat)

text \<open>The order of pairs that \<open>std::sort\<close> uses.\<close>

instantiation cache_range :: linorder
begin

definition less_cache_range :: "cache_range \<Rightarrow> cache_range \<Rightarrow> bool" where
  "less_cache_range a b \<longleftrightarrow>
     range_begin a < range_begin b \<or> range_begin a = range_begin b \<and> range_end a < range_end b"

definition less_eq_cache_range :: "cache_range \<Rightarrow> cache_range \<Rightarrow> bool" where
  "less_eq_cache_range a b \<longleftrightarrow>
     range_begin a < range_begin b \<or> range_begin a = range_begin b \<and> range_end a \<le> range_end b"

instance
proof
  show "a \<le> b \<Longrightarrow> b \<le> a \<Longrightarrow> a = b" for a b :: cache_range
    by (cases a; cases b) (auto simp: less_eq_cache_range_def)
qed (auto simp: less_cache_range_def less_eq_cache_range_def)

end

definition addresses :: "cache_range \<Rightarrow> nat set" where
  "addresses r = {range_begin r..<range_end r}"

section \<open>The operations\<close>

record invalidation =
  batch_depth :: nat
  pending :: "cache_range list"
  issued :: "(nat \<times> nat) list"

text \<open>The length is a \<open>size_t\<close>; the sum with the start address does not wrap in a \<open>u64\<close> for the lengths that exist.\<close>

definition range_size :: "nat \<Rightarrow> nat \<Rightarrow> nat" where
  "range_size b e = nat ((int e - int b) mod 2 ^ 64)"

definition InvalidateCacheRange :: "nat \<Rightarrow> nat \<Rightarrow> invalidation \<Rightarrow> invalidation" where
  "InvalidateCacheRange start len s =
     (if len = 0 then s
      else let e = min ((start + len) mod 2 ^ 64) (2 ^ 32) in
        if batch_depth s \<noteq> 0 then s\<lparr>pending := pending s @ [Range start e]\<rparr>
        else s\<lparr>issued := issued s @ [(start, range_size start e)]\<rparr>)"

definition BeginCacheInvalidationBatch :: "invalidation \<Rightarrow> invalidation" where
  "BeginCacheInvalidationBatch s = s\<lparr>batch_depth := batch_depth s + 1\<rparr>"

fun merge_ranges :: "nat \<Rightarrow> nat \<Rightarrow> cache_range list \<Rightarrow> (nat \<times> nat) list" where
  "merge_ranges b e [] = [(b, range_size b e)]"
| "merge_ranges b e (r # rs) =
     (if range_begin r \<le> e then merge_ranges b (max e (range_end r)) rs
      else (b, range_size b e) # merge_ranges (range_begin r) (range_end r) rs)"

definition EndCacheInvalidationBatch :: "invalidation \<Rightarrow> invalidation option" where
  "EndCacheInvalidationBatch s = do {
     assertion (batch_depth s \<noteq> 0);
     let s = s\<lparr>batch_depth := batch_depth s - 1\<rparr>;
     Some (if batch_depth s \<noteq> 0 then s
           else case sort (pending s) of
             [] \<Rightarrow> s
           | r # rs \<Rightarrow> s\<lparr>issued := issued s @ merge_ranges (range_begin r) (range_end r) rs, pending := []\<rparr>) }"

section \<open>Merging\<close>

definition call_addresses :: "nat \<times> nat \<Rightarrow> nat set" where
  "call_addresses c = {fst c..<fst c + snd c}"

text \<open>A range inside the 32-bit address space.\<close>

definition range_ok :: "cache_range \<Rightarrow> bool" where
  "range_ok r \<longleftrightarrow> range_begin r < range_end r \<and> range_end r \<le> 2 ^ 32"

lemma call_addresses_range: "b \<le> e \<Longrightarrow> e \<le> 2 ^ 32 \<Longrightarrow> call_addresses (b, range_size b e) = {b..<e}"
  by (simp add: call_addresses_def range_size_def nat_diff_distrib')

lemma merge_ranges_addresses:
  assumes "b < e" "e \<le> 2 ^ 32" "\<forall>r \<in> set rs. range_ok r \<and> b \<le> range_begin r" "sorted rs"
  shows "(\<Union>c \<in> set (merge_ranges b e rs). call_addresses c) = {b..<e} \<union> (\<Union>r \<in> set rs. addresses r)"
  using assms
proof (induction b e rs rule: merge_ranges.induct)
  case (1 b e)
  then show ?case by (simp add: call_addresses_range)
next
  case (2 b e r rs)
  have rs: "\<forall>x \<in> set rs. range_ok x \<and> range_begin r \<le> range_begin x"
    using 2(5,6) by (auto simp: less_eq_cache_range_def)
  have r: "range_begin r < range_end r" "range_end r \<le> 2 ^ 32" "b \<le> range_begin r"
    using 2(5) by (auto simp: range_ok_def)
  show ?case
  proof (cases "range_begin r \<le> e")
    case True
    then have "{b..<e} \<union> {range_begin r..<range_end r} = {b..<max e (range_end r)}"
      using r by auto
    with True 2(1) [OF True] 2(3-6) r show ?thesis
      by (simp add: addresses_def Un_assoc [symmetric])
  next
    case False
    with 2(2) [OF False r(1,2) rs] 2(3-6) show ?thesis
      by (simp add: call_addresses_range addresses_def)
  qed
qed

text \<open>The calls are in ascending order with a gap between any two.\<close>

definition gap :: "nat \<times> nat \<Rightarrow> nat \<times> nat \<Rightarrow> bool" where
  "gap c d \<longleftrightarrow> fst c + snd c < fst d"

lemma merge_ranges_first: "c \<in> set (merge_ranges b e rs) \<Longrightarrow> sorted rs \<Longrightarrow> \<forall>r \<in> set rs. b \<le> range_begin r \<Longrightarrow> b \<le> fst c"
proof (induction b e rs rule: merge_ranges.induct)
  case (2 b e r rs)
  then show ?case
    by (force simp: less_eq_cache_range_def split: if_splits)
qed simp

lemma merge_ranges_gaps:
  assumes "b < e" "e \<le> 2 ^ 32" "\<forall>r \<in> set rs. range_ok r \<and> b \<le> range_begin r" "sorted rs"
  shows "sorted_wrt gap (merge_ranges b e rs)"
  using assms
proof (induction b e rs rule: merge_ranges.induct)
  case (2 b e r rs)
  have rs: "\<forall>x \<in> set rs. range_ok x \<and> range_begin r \<le> range_begin x"
    using 2(5,6) by (auto simp: less_eq_cache_range_def)
  have r: "range_begin r < range_end r" "range_end r \<le> 2 ^ 32" "b \<le> range_begin r"
    using 2(5) by (auto simp: range_ok_def)
  show ?case
  proof (cases "range_begin r \<le> e")
    case True
    with 2(1) [OF True] 2(3-6) r show ?thesis by simp
  next
    case False
    have "gap (b, range_size b e) c" if "c \<in> set (merge_ranges (range_begin r) (range_end r) rs)" for c
      using merge_ranges_first [OF that] rs 2(3,4,6) False by (simp add: gap_def range_size_def nat_diff_distrib')
    with False 2(2) [OF False r(1,2) rs] 2(6) show ?thesis by simp
  qed
qed simp

lemma merge_ranges_length: "length (merge_ranges b e rs) \<le> Suc (length rs)"
  by (induction b e rs rule: merge_ranges.induct) (auto intro: le_SucI)

section \<open>A batch invalidates what its requests ask for\<close>

definition invalidate_all :: "(nat \<times> nat) list \<Rightarrow> invalidation \<Rightarrow> invalidation" where
  "invalidate_all reqs s = fold (\<lambda>(start, len). InvalidateCacheRange start len) reqs s"

text \<open>The addresses of a request: what is beyond the 32-bit space does not count.\<close>

definition wanted :: "nat \<times> nat \<Rightarrow> nat set" where
  "wanted r = {fst r..<min (fst r + snd r) (2 ^ 32)}"

definition request_ok :: "nat \<times> nat \<Rightarrow> bool" where
  "request_ok r \<longleftrightarrow> fst r < 2 ^ 32 \<and> snd r < 2 ^ 63"

definition request_range :: "nat \<times> nat \<Rightarrow> cache_range" where
  "request_range r = Range (fst r) (min (fst r + snd r) (2 ^ 32))"

lemma request_range_ok: "request_ok r \<Longrightarrow> snd r \<noteq> 0 \<Longrightarrow> range_ok (request_range r)"
  by (auto simp: request_ok_def range_ok_def request_range_def)

lemma addresses_request_range [simp]: "addresses (request_range r) = wanted r"
  by (simp add: addresses_def request_range_def wanted_def)

lemma invalidate_pending:
  assumes "batch_depth s \<noteq> 0" "\<forall>r \<in> set reqs. request_ok r"
  shows "invalidate_all reqs s = s\<lparr>pending := pending s @ map request_range (filter (\<lambda>r. snd r \<noteq> 0) reqs)\<rparr>"
  using assms
proof (induction reqs arbitrary: s)
  case Nil
  then show ?case by (simp add: invalidate_all_def)
next
  case (Cons r reqs)
  let ?s = "InvalidateCacheRange (fst r) (snd r) s"
  have s: "?s = (if snd r = 0 then s else s\<lparr>pending := pending s @ [request_range r]\<rparr>)"
    using Cons.prems by (auto simp: InvalidateCacheRange_def Let_def request_range_def request_ok_def)
  then have "batch_depth ?s \<noteq> 0"
    using Cons.prems(1) by simp
  with Cons.IH [of ?s] Cons.prems(2) s show ?case
    by (simp add: invalidate_all_def case_prod_beta)
qed

lemma invalidate_issued:
  assumes "batch_depth s = 0" "\<forall>r \<in> set reqs. request_ok r"
  shows "\<exists>calls. invalidate_all reqs s = s\<lparr>issued := issued s @ calls\<rparr> \<and>
    (\<Union>c \<in> set calls. call_addresses c) = (\<Union>r \<in> set reqs. wanted r) \<and>
    length calls = length (filter (\<lambda>r. snd r \<noteq> 0) reqs)"
  using assms
proof (induction reqs arbitrary: s)
  case Nil
  then show ?case by (simp add: invalidate_all_def)
next
  case (Cons r reqs)
  let ?s = "InvalidateCacheRange (fst r) (snd r) s"
  let ?call = "(fst r, range_size (fst r) (min (fst r + snd r) (2 ^ 32)))"
  have s: "?s = (if snd r = 0 then s else s\<lparr>issued := issued s @ [?call]\<rparr>)"
    using Cons.prems by (auto simp: InvalidateCacheRange_def Let_def request_ok_def)
  then have d: "batch_depth ?s = 0"
    using Cons.prems(1) by simp
  from Cons.IH [OF this] Cons.prems(2) obtain calls where
    c: "invalidate_all reqs ?s = ?s\<lparr>issued := issued ?s @ calls\<rparr>"
      "(\<Union>c \<in> set calls. call_addresses c) = (\<Union>r \<in> set reqs. wanted r)"
      "length calls = length (filter (\<lambda>r. snd r \<noteq> 0) reqs)"
    by auto
  have r: "call_addresses ?call = wanted r"
    using Cons.prems(2) unfolding wanted_def
    by (intro call_addresses_range) (auto simp: request_ok_def)
  have "invalidate_all (r # reqs) s = invalidate_all reqs ?s"
    by (simp add: invalidate_all_def case_prod_beta)
  with c s r show ?case
    by (intro exI [of _ "(if snd r = 0 then [] else [?call]) @ calls"]) (auto simp: wanted_def)
qed

section \<open>Properties\<close>

text \<open>C35: A batch invalidates exactly the addresses that its requests would have invalidated at once, on
  every CPU, with at most as many calls, in ascending order and with a gap between any two; the batch
  is empty afterwards.
\<close>

theorem batch_invalidates_same:
  assumes s: "batch_depth s = 0" "pending s = []" and reqs: "\<forall>r \<in> set reqs. request_ok r"
  shows "\<exists>calls direct. EndCacheInvalidationBatch (invalidate_all reqs (BeginCacheInvalidationBatch s)) =
      Some (s\<lparr>issued := issued s @ calls\<rparr>) \<and> invalidate_all reqs s = s\<lparr>issued := issued s @ direct\<rparr> \<and>
    (\<Union>c \<in> set calls. call_addresses c) = (\<Union>c \<in> set direct. call_addresses c) \<and>
    length calls \<le> length direct \<and> sorted_wrt gap calls"
proof -
  let ?rs = "map request_range (filter (\<lambda>r. snd r \<noteq> 0) reqs)"
  obtain direct where d: "invalidate_all reqs s = s\<lparr>issued := issued s @ direct\<rparr>"
    "(\<Union>c \<in> set direct. call_addresses c) = (\<Union>r \<in> set reqs. wanted r)"
    "length direct = length (filter (\<lambda>r. snd r \<noteq> 0) reqs)"
    using invalidate_issued [OF s(1) reqs] by blast
  have b: "invalidate_all reqs (BeginCacheInvalidationBatch s) = s\<lparr>batch_depth := 1, pending := ?rs\<rparr>"
    using s reqs by (subst invalidate_pending) (simp_all add: BeginCacheInvalidationBatch_def)
  have w: "(\<Union>r \<in> set ?rs. addresses r) = (\<Union>r \<in> set reqs. wanted r)"
    by (auto simp: wanted_def)
  have ok: "range_ok r" if "r \<in> set ?rs" for r
    using that reqs request_range_ok by auto
  show ?thesis
  proof (cases "sort ?rs")
    case Nil
    then have "?rs = []"
      by (metis length_0_conv length_sort)
    moreover have "s\<lparr>pending := [], batch_depth := 0\<rparr> = s"
      using s by simp
    moreover have "pending s = []" by (rule s(2))
    ultimately show ?thesis
      using d b w by (intro exI [of _ "[]"] exI [of _ direct]) (auto simp: EndCacheInvalidationBatch_def)
  next
    case (Cons r rs)
    let ?calls = "merge_ranges (range_begin r) (range_end r) rs"
    have set: "set (r # rs) = set ?rs" and len: "length (r # rs) = length ?rs" and sorted: "sorted (r # rs)"
      unfolding Cons [symmetric] by simp_all
    have rok: "range_begin r < range_end r" "range_end r \<le> 2 ^ 32"
      using ok [of r] set by (auto simp: range_ok_def)
    have "range_ok x" if "x \<in> set (r # rs)" for x
      using that unfolding set by (rule ok)
    then have rsok: "\<forall>x \<in> set rs. range_ok x \<and> range_begin r \<le> range_begin x"
      using sorted by (auto simp: less_eq_cache_range_def)
    have "(\<Union>c \<in> set ?calls. call_addresses c) = addresses r \<union> (\<Union>x \<in> set rs. addresses x)"
      using merge_ranges_addresses [OF rok rsok] sorted by (simp add: addresses_def)
    also have "\<dots> = (\<Union>x \<in> set ?rs. addresses x)"
      unfolding set [symmetric] by simp
    finally have u: "(\<Union>c \<in> set ?calls. call_addresses c) = (\<Union>r \<in> set reqs. wanted r)"
      using w by simp
    have e: "EndCacheInvalidationBatch (s\<lparr>batch_depth := 1, pending := ?rs\<rparr>) =
        Some (s\<lparr>issued := issued s @ ?calls\<rparr>)"
      using Cons s by (simp add: EndCacheInvalidationBatch_def)
    have "length ?calls \<le> length direct"
      using merge_ranges_length [of "range_begin r" "range_end r" rs] len d(3) by simp
    moreover have "sorted_wrt gap ?calls"
      using merge_ranges_gaps [OF rok rsok] sorted by simp
    ultimately show ?thesis
      using b e d(1,2) u by (intro exI [of _ ?calls] exI [of _ direct]) simp
  qed
qed

theorem batch_invalidates_same_witness:
  "\<exists>calls. EndCacheInvalidationBatch (invalidate_all [(0x5000, 0x1000), (0x1000, 0x800), (0x1800, 0x10)]
       (BeginCacheInvalidationBatch \<lparr>batch_depth = 0, pending = [], issued = []\<rparr>)) =
     Some \<lparr>batch_depth = 0, pending = [], issued = calls\<rparr> \<and> sorted_wrt gap calls"
  using batch_invalidates_same [of "\<lparr>batch_depth = 0, pending = [], issued = []\<rparr>"
      "[(0x5000, 0x1000), (0x1000, 0x800), (0x1800, 0x10)]"]
  by (auto simp: request_ok_def)

end
