(* ===== verification/Arbiter_Props.thy ===== *)
theory Arbiter_Props
  imports Kernel_Props
begin

text \<open>
  The properties of address arbiters in every reachable state of the kernel, and the example state on
  which they are applied: one thread waits at an arbiter while another one executes.
\<close>

section \<open>An example with two threads\<close>

text \<open>The dispatcher picks the only ready thread of a core whose thread no longer runs.\<close>

lemma dispatch_only_ready:
  assumes R: "reachable k" and c: "c < length (managers k)"
    and cur: "keeps_running c k = None" "current_thread (managers k ! c) \<noteq> Some t"
    and t: "ready_on c k t" "\<And>u. ready_on c k u \<Longrightarrow> u = t" and tm: "current_timer (timing k) = c"
  obtains k' where "Reschedule c k = Some k'" "reachable k'" "executes k' t" "is_thread k' = is_thread k"
    "arb_same k k'" "length (managers k') = length (managers k)"
proof -
  note inv = reachable_inv [OF R]
  note K = kernel_invD [OF inv]
  obtain k' where k': "Reschedule c k = Some k'" "step_ok k k'"
    by (rule Reschedule_step_ok [OF inv c])
  obtain nxt rr and q :: "nat tql" where D: "take_allowed (allowed k) (rival_bound c k) (datas (queue_of k c)) = (datas q, rr)"
    "nxt = (case rr of None \<Rightarrow> keeps_running c k | Some t \<Rightarrow> Some t)"
    "current_thread (managers k' ! c) = nxt" "is_thread k' = is_thread k"
    "\<And>t. threads k' t = (let th = (if current_thread (managers k ! c) = Some t then saved c k (threads k t)
        else threads k t) in if nxt = Some t then th\<lparr>status := Running\<rparr> else th)"
    by (rule Reschedule_spec [OF K(2) c K(8) [OF c] K(7) [OF c] _ K(9)]) (use k'(1) K(10) in auto)
  have nxt: "nxt = Some t"
  proof (rule ccontr)
    assume n: "nxt \<noteq> Some t"
    with t(1) next_beats [OF K(2) c K(7) [OF c] D(1,2), of t] obtain u where u: "nxt = Some u"
      by (auto simp: ready_on_def)
    with D(2) cur(1) have "rr = Some u"
      by (cases rr) simp_all
    with D(1) obtain p where "p < rival_bound c k" "u \<in> set (datas (queue_of k c) ! p)" "allowed k u"
      by (auto elim: take_allowed_cases)
    with queue_okD(4) [OF K(2) c, of p u] rival_bound_le [OF K(2) K(7) [OF c]] have "ready_on c k u"
      by (simp add: ready_on_def)
    with t(2) n u show False by simp
  qed
  note co = Reschedule_core_only [OF inv c k'(1), unfolded core_only_def]
  have len: "length (managers k') = length (managers k)"
    using co map_eq_imp_length_eq by metis
  have "executes k' t"
    using D(3,5) nxt co tm len c by (simp add: executes_def running_thread_def Let_def)
  with that k' D(4) len reachable.step [OF R kernel_step.dispatch [OF c k'(1)]] step_okD(2) [OF k'(2)] show thesis
    by blast
qed

definition demo_arbiter :: "unit kernel option" where
  "demo_arbiter = do {
     k \<leftarrow> demo_running;
     (k, _) \<leftarrow> CreateThread 2 0x100000 49 0 0 0x10000000 0 Application True (Inr 0x1FF82200) True k;
     (k, _) \<leftarrow> svc_ArbitrateAddress (\<lambda>_ _. 0) (\<lambda>m _ _. m) (\<lambda>_. Some 5) 0 0x1000 1 1 (- 1) k;
     Reschedule 0 k }"

lemma demo_arbiter_spec:
  obtains k where "demo_arbiter = Some k" "reachable k" "executes k 2" "is_thread k 1"
    "status (threads k 1) = WaitArb" "wait_address (threads k 1) = 0x1000" "arbiter_threads k 5 = [1]"
proof -
  obtain k where k: "demo_running = Some k" "reachable k" "executes k 1" "is_thread k = (\<lambda>t. t = 1)"
    "wait_objects (threads k 1) = []" "held_mutexes (threads k 1) = []" "length (managers k) = 2"
    "current_thread (managers k ! 0) = Some 1" "\<And>x. waiting_threads k x = []"
    by (rule demo_running_spec) blast
  note K = kernel_invD [OF reachable_inv [OF k(2)]]
  have c0: "0 < length (managers k)" "current_timer (timing k) < length (managers k)"
    using k(3,7) by (simp_all add: executes_def running_thread_def split: if_splits)
  have tm: "current_timer (timing k) = 0"
    using K(7) [OF c0(1)] K(7) [OF c0(2)] k(3,8) c0(2) by (simp add: current_ok_def executes_def running_thread_def)
  have f: "fresh k 2"
    using k(4-6,9) by (simp add: fresh_def)
  have n2: "\<not> is_thread k 2" "0 < (5 :: nat)" "49 < (64 :: nat)"
    using k(4) by simp_all
  obtain k1 where k1: "CreateThread 2 0x100000 49 0 (int 0) 0x10000000 0 Application True (Inr 0x1FF82200) True k = Some (k1, Inr 2)"
    "is_thread k1 = (is_thread k)(2 := True)" "\<And>u. u \<noteq> 2 \<Longrightarrow> threads k1 u = threads k u"
    "status (threads k1 2) = (if True then Ready else Dormant)" "core_id (threads k1 2) = 0"
    "unschedule_mode (threads k1 2) = 0" "length (managers k1) = length (managers k)" "timing k1 = timing k"
    "\<And>d. current_thread (managers k1 ! d) = current_thread (managers k ! d)"
    by (rule CreateThread_spec [OF K(2) n2(1) c0(1) n2(2) K(8) [OF c0(1)] n2(3), where entry = "0x100000" and arg = 0 and
      stack = "0x10000000" and owner = 0 and category = Application and addr = "0x1FF82200" and to_ready = True])
      (rule that, assumption+)
  have r1: "reachable k1"
    by (rule reachable.step [OF k(2) kernel_step.new_thread [OF f k1(1)]])
  have e1: "executes k1 1"
    using k(3) k1(3,7,8,9) by (simp add: executes_def running_thread_def split: if_splits)
  note M1 = machine_invD [OF reachable_machine [OF r1]]
  have t1: "is_thread k1 1" "status (threads k1 1) = Running" "running_thread k1 = Some 1"
    using e1 k(4) k1(2) by (simp_all add: executes_def)
  have empty: "arbiter_threads k1 5 = []"
  proof (cases "arbiter_threads k1 5")
    case (Cons u us)
    then have "u \<in> set (arbiter_threads k1 5)" by simp
    from arb_invD(2,3) [OF M1(2) this] k1(2,4) t1(2) k(4) show ?thesis
      by (auto split: if_splits)
  qed
  have less: "sint ((\<lambda>_ _. 0 :: u32) (memory k1) (0x1000 :: u32)) < 1" by simp
  obtain tm1 where w: "arbitrate_wait (\<lambda>_ _. 0) (\<lambda>m _ _. m) WaitIfLessThan 5 1 0x1000 1 (- 1) k1 =
      Some (put_to_wait 5 1 0x1000 (wait_callback WaitIfLessThan 5)
        (k1\<lparr>memory := wait_memory (\<lambda>_ _. 0) (\<lambda>m _ _. m) WaitIfLessThan 0x1000 (memory k1), timing := tm1\<rparr>))"
    "\<not> has_timeout WaitIfLessThan \<longrightarrow> tm1 = timing k1"
    by (rule arbitrate_wait_sleeps [where ?rd = "\<lambda>_ _. 0" and address = "0x1000" and v = 1 and ?wr = "\<lambda>m _ _. m"
        and ty = WaitIfLessThan and a = 5 and ns = "- 1", OF M1(1) t1(1,2) less])
      (rule that, assumption+)
  let ?k1 = "k1\<lparr>memory := wait_memory (\<lambda>_ _. 0) (\<lambda>m _ _. m) WaitIfLessThan 0x1000 (memory k1), timing := tm1\<rparr>"
  define k2 where "k2 = PrepareReschedule (put_to_wait 5 1 0x1000 (wait_callback WaitIfLessThan 5) ?k1)"
  have tm1: "tm1 = timing k1"
    using w(2) by (simp add: has_timeout_def)
  have s: "svc_ArbitrateAddress (\<lambda>_ _. 0) (\<lambda>m _ _. m) (\<lambda>_. Some 5) 0 0x1000 1 1 (- 1) k1 = Some (k2, ResultSuccess)"
    using t1(3) w(1) by (simp add: svc_ArbitrateAddress_def ArbitrateAddress_def arbitration_type_def has_timeout_def k2_def)
  have r2: "reachable k2"
    by (rule reachable.step [OF r1 kernel_step.arbitrate [OF e1 s]])
  have k2: "is_thread k2 = is_thread k1" "managers k2 = managers k1" "timing k2 = timing k1" "arbiter_threads k2 5 = [1]"
    "status (threads k2 1) = WaitArb" "wait_address (threads k2 1) = 0x1000" "threads k2 2 = threads k1 2"
    using empty by (simp_all add: k2_def tm1 is_thread_def fun_eq_iff)
  have c2: "0 < length (managers k2)"
    using c0(1) k1(7) k2(2) by simp
  obtain k3 where k3: "Reschedule 0 k2 = Some k3" "reachable k3" "executes k3 2" "is_thread k3 = is_thread k2" "arb_same k2 k3"
  proof (rule dispatch_only_ready [OF r2 c2])
    show "keeps_running 0 k2 = None" "current_thread (managers k2 ! 0) \<noteq> Some 2"
      using k(8) k1(9) k2(2,5) by (simp_all add: keeps_running_def)
    show "ready_on 0 k2 2"
      using k1(2,4,5,6) k2(1,7) by (simp add: ready_on_def CanSchedule_def)
    show "u = 2" if "ready_on 0 k2 u" for u
      using that k(4) k1(2) k2(1,5) by (auto simp: ready_on_def split: if_splits)
    show "current_timer (timing k2) = 0"
      using tm k1(8) k2(3) by simp
  qed (rule that, assumption+)
  have th: "is_thread k2 1" "status (threads k2 1) = WaitArb"
    using t1(1) k2(1,5) by simp_all
  have "demo_arbiter = Some k3"
    using k1(1) s k3(1) by (simp add: demo_arbiter_def k(1))
  with that [of k3] k3 arb_sameD(1) [OF k3(5)] arb_sameD(3) [OF k3(5) th] th k2(4,6) show thesis
    by simp
qed

section \<open>Signals\<close>

lemma signal_spec:
  assumes R: "reachable k" and t: "executes k t" and a: "get_arbiter h = Some a"
  shows "\<exists>k'. svc_ArbitrateAddress rd wr get_arbiter h address 0 v ns k = Some (k', ResultSuccess) \<and>
    (let ws = (if sint v < 0 then resume_order k a address else take (nat (sint v)) (resume_order k a address)) in
       (\<forall>u. status (threads k' u) = (if u \<in> set ws then Ready else status (threads k u))) \<and>
       set (arbiter_threads k' a) = set (arbiter_threads k a) - set ws) \<and>
    (\<forall>b. b \<noteq> a \<longrightarrow> arbiter_threads k' b = arbiter_threads k b) \<and> memory k' = memory k"
proof -
  note M = machine_invD [OF reachable_machine [OF R]]
  let ?ws = "signal_wakes (sint v) k a address"
  obtain k1 where k1: "arbitrate_signal a t address (sint v) k = Some (signal_penalty t ?ws k1)"
    "released a (set ?ws) k k1"
    by (rule arbitrate_signal_spec [OF M])
  have ws: "?ws = (if sint v < 0 then resume_order k a address else take (nat (sint v)) (resume_order k a address))"
    by (simp add: signal_wakes_def signal_count_def min_def)
  have p: "threads (signal_penalty t ?ws k1) = threads k1" "arbiter_threads (signal_penalty t ?ws k1) = arbiter_threads k1"
    "memory (signal_penalty t ?ws k1) = memory k1"
    by (simp_all add: signal_penalty_def AddCpuTicks_def)
  have "svc_ArbitrateAddress rd wr get_arbiter h address 0 v ns k =
      Some (PrepareReschedule (signal_penalty t ?ws k1), ResultSuccess)"
    using t a k1(1) by (simp add: svc_ArbitrateAddress_def ArbitrateAddress_def arbitration_type_def executes_def)
  then show ?thesis
    unfolding ws [symmetric] Let_def
    using k1(2) by (intro exI [of _ "PrepareReschedule (signal_penalty t ?ws k1)"]) (auto simp: released_def p)
qed

text \<open>C15: a signal returns and resumes the threads that wait for the address at this arbiter, exactly
  the first ones in the order of their priorities and then of their arrival: all of them for a negative
  value, at most that many otherwise. They leave the arbiter; all other threads, the other arbiters and
  the memory stay as they are.
\<close>

theorem signal_resumes_in_order:
  assumes "reachable k" "executes k t" "get_arbiter h = Some a"
  shows "\<exists>k'. svc_ArbitrateAddress rd wr get_arbiter h address 0 v ns k = Some (k', ResultSuccess) \<and>
    (let ws = (if sint v < 0 then resume_order k a address else take (nat (sint v)) (resume_order k a address)) in
       (\<forall>u. status (threads k' u) = (if u \<in> set ws then Ready else status (threads k u))) \<and>
       set (arbiter_threads k' a) = set (arbiter_threads k a) - set ws) \<and>
    (\<forall>b. b \<noteq> a \<longrightarrow> arbiter_threads k' b = arbiter_threads k b) \<and> memory k' = memory k"
  by (rule signal_spec) (fact assms)+

lemma resume_order_singleton: "waiting_at k a address = [t] \<Longrightarrow> resume_order k a address = [t]"
  by (simp add: resume_order_def)

theorem signal_resumes_in_order_witness:
  "\<exists>k k'. demo_arbiter = Some k \<and> status (threads k 1) = WaitArb \<and>
     svc_ArbitrateAddress (\<lambda>_ _. 0) (\<lambda>m _ _. m) (\<lambda>_. Some 5) 0 0x1000 0 1 0 k = Some (k', ResultSuccess) \<and>
     status (threads k' 1) = Ready \<and> arbiter_threads k' 5 = []"
proof -
  obtain k where k: "demo_arbiter = Some k" "reachable k" "executes k 2" "is_thread k 1"
    "status (threads k 1) = WaitArb" "wait_address (threads k 1) = 0x1000" "arbiter_threads k 5 = [1]"
    by (rule demo_arbiter_spec)
  have "waiting_at k 5 0x1000 = [1]"
    using k(6,7) by (simp add: waiting_at_def)
  then have "resume_order k 5 0x1000 = [1]"
    by (rule resume_order_singleton)
  with signal_resumes_in_order [OF k(2,3), where get_arbiter = "\<lambda>_. Some 5" and h = 0 and a = 5 and address = "0x1000" and v = 1 and ns = 0] k(1,5,7)
  show ?thesis
    by (fastforce simp: Let_def)
qed

section \<open>Waiting\<close>

lemma wait_spec:
  assumes R: "reachable k" and t: "executes k t" and a: "get_arbiter h = Some a"
    and ty: "arbitration_type ty = Some m" "m \<noteq> ASignal"
  shows "\<exists>k'. svc_ArbitrateAddress rd wr get_arbiter h address ty v ns k =
      Some (k', if has_timeout m then ResultTimeout else ResultSuccess) \<and>
    (if sint (rd (memory k) address) < sint v
     then status (threads k' t) = WaitArb \<and> wait_address (threads k' t) = address \<and>
       wakeup_callback (threads k' t) = (if has_timeout m then Some (ArbiterCallback a) else None) \<and>
       arbiter_threads k' = (arbiter_threads k)(a := arbiter_threads k a @ [t]) \<and>
       memory k' = (if decrements m then wr (memory k) address (rd (memory k) address - 1) else memory k) \<and>
       (\<forall>u. u \<noteq> t \<longrightarrow> threads k' u = threads k u)
     else k' = PrepareReschedule k)"
proof -
  note M = machine_invD [OF reachable_machine [OF R]]
  have e: "running_thread k = Some t" "status (threads k t) = Running" "is_thread k t"
    using t running_is_thread [OF M(1)] by (simp_all add: executes_def)
  have run: "svc_ArbitrateAddress rd wr get_arbiter h address ty v ns k =
      Some (PrepareReschedule k1, if has_timeout m then ResultTimeout else ResultSuccess)"
    if "arbitrate_wait rd wr m a t address (sint v) ns k = Some k1" for k1
    using that e(1) a ty by (cases m) (simp_all add: svc_ArbitrateAddress_def ArbitrateAddress_def)
  show ?thesis
  proof (cases "sint (rd (memory k) address) < sint v")
    case False
    with run [OF arbitrate_wait_passes [where ?rd = rd and address = address and k = k, OF False]] show ?thesis by simp
  next
    case True
    obtain tm where w: "arbitrate_wait rd wr m a t address (sint v) ns k =
        Some (put_to_wait a t address (wait_callback m a)
          (k\<lparr>memory := wait_memory rd wr m address (memory k), timing := tm\<rparr>))"
      by (rule arbitrate_wait_sleeps [where ?rd = rd and ?wr = wr and a = a and ty = m and ns = ns, OF M(1) e(3,2) True]) blast
    from run [OF w] True show ?thesis
      by (simp add: wait_callback_def wait_memory_def)
  qed
qed



section \<open>No waiting thread is lost\<close>

text \<open>a thread that waits for arbitration is always listed at one arbiter, so a signal of its address
  at that arbiter with a negative value, by whichever thread executes, makes it ready.
\<close>

lemma waiting_thread_resumed:
  assumes "reachable k" "executes k t" "is_thread k u" "status (threads k u) = WaitArb"
  shows "\<exists>a. u \<in> set (arbiter_threads k a) \<and>
    (\<forall>get_arbiter h v. get_arbiter h = Some a \<longrightarrow> sint v < 0 \<longrightarrow>
       (\<exists>k'. svc_ArbitrateAddress rd wr get_arbiter h (wait_address (threads k u)) 0 v ns k = Some (k', ResultSuccess) \<and>
          status (threads k' u) = Ready))"
proof -
  from arb_invD(6) [OF reachable_arb_inv [OF assms(1)] assms(3,4)] obtain a where a: "u \<in> set (arbiter_threads k a)" ..
  then have o: "u \<in> set (resume_order k a (wait_address (threads k u)))"
    by (simp add: waiting_at_def)
  have "\<exists>k'. svc_ArbitrateAddress rd wr get_arbiter h (wait_address (threads k u)) 0 v ns k = Some (k', ResultSuccess) \<and>
      status (threads k' u) = Ready" if g: "get_arbiter h = Some a" "sint v < 0" for get_arbiter h v
    using signal_spec [where get_arbiter = get_arbiter and h = h and rd = rd and wr = wr and v = v
        and address = "wait_address (threads k u)" and ns = ns, OF assms(1,2) g(1)] g(2) o
    by (auto simp: Let_def)
  with a show ?thesis by blast
qed

lemma waiting_thread_resumed_witness:
  "\<exists>k k'. demo_arbiter = Some k \<and>
     svc_ArbitrateAddress (\<lambda>_ _. 0) (\<lambda>m _ _. m) (\<lambda>_. Some 5) 0 0x1000 0 (- 1) 0 k = Some (k', ResultSuccess) \<and>
     status (threads k' 1) = Ready"
proof -
  obtain k where k: "demo_arbiter = Some k" "reachable k" "executes k 2" "is_thread k 1"
    "status (threads k 1) = WaitArb" "wait_address (threads k 1) = 0x1000" "arbiter_threads k 5 = [1]"
    by (rule demo_arbiter_spec)
  from waiting_thread_resumed [OF k(2,3,4,5), where rd = "\<lambda>_ _. 0" and wr = "\<lambda>m _ _. m" and ns = 0] obtain a where
    a: "1 \<in> set (arbiter_threads k a)" "\<And>get_arbiter h v. get_arbiter h = Some a \<Longrightarrow> sint v < 0 \<Longrightarrow>
       \<exists>k'. svc_ArbitrateAddress (\<lambda>_ _. 0) (\<lambda>m _ _. m) get_arbiter h (wait_address (threads k 1)) 0 v 0 k = Some (k', ResultSuccess) \<and>
          status (threads k' 1) = Ready"
    by blast
  have "a = 5"
    by (rule arb_invD(5) [OF reachable_arb_inv [OF k(2)] a(1)]) (simp add: k(7))
  with a(2) [of "\<lambda>_. Some 5" 0 "- 1"] k(1,6) show ?thesis by auto
qed

end
