(* ===== verification/Svc_Calls.thy ===== *)
theory Svc_Calls
  imports Kernel_Machine Handle_Table
begin

text \<open>
  The system calls on threads, mutexes, semaphores, events, timers and address arbiters
  (\<open>core/hle/kernel/svc.cpp\<close>): they look the handle up in the table of the current process, count the
  new object against the process's resource limit, act on the kernel and hand out a handle.

  \<^item> A handle table holds kernel objects: the wait objects (threads included), arbiters, processes,
    resource limits, and other objects that cannot be waited for (shared memory, client ports and
    sessions). Server ports and sessions, which can, belong to the IPC layer and are left out.
  \<^item> The address of a new object is an argument. \<open>obj_limit\<close> and \<open>arb_limit\<close> are the \<open>resource_limit\<close>
    members of the objects; those that a service created have none.
  \<^item> Whether a handle was the last reference to its object depends on the services and is an argument
    of \<open>CloseHandle\<close>; the destructors are modelled for the objects above.
\<close>

section \<open>State\<close>

datatype kobject = OWait nat | OArbiter nat | OProcess nat | OLimit nat | OOther nat

record process_info =
  ideal_processor :: u8
  no_thread_restrictions :: bool

record 'm system =
  krn :: "'m kernel"
  handle_tables :: "nat \<Rightarrow> kobject handle_table"
  current_process :: nat
  processes :: "nat \<Rightarrow> process_info"
  obj_limit :: "nat \<Rightarrow> nat option"
  arb_limit :: "nat \<Rightarrow> nat option"

definition current_table :: "'m system \<Rightarrow> kobject handle_table" where
  "current_table s = handle_tables s (current_process s)"

definition current_limit :: "'m system \<Rightarrow> nat" where
  "current_limit s = process_limit (krn s) (current_process s)"

definition on_krn :: "('m kernel \<Rightarrow> 'm kernel) \<Rightarrow> 'm system \<Rightarrow> 'm system" where
  "on_krn f s = s\<lparr>krn := f (krn s)\<rparr>"

section \<open>Looking up handles\<close>

text \<open>\<open>handle_table.Get<T>\<close>: the object, when it is of type \<open>T\<close>.\<close>

definition get_object :: "'m system \<Rightarrow> u32 \<Rightarrow> kobject option" where
  "get_object s handle =
     GetGeneric (map_option OWait (running_thread (krn s))) (Some (OProcess (current_process s)))
       (current_table s) handle"

definition get_wait :: "'m system \<Rightarrow> u32 \<Rightarrow> nat option" where
  "get_wait s handle = (case get_object s handle of Some (OWait ob) \<Rightarrow> Some ob | _ \<Rightarrow> None)"

definition get_kind :: "(wait_object \<Rightarrow> bool) \<Rightarrow> 'm system \<Rightarrow> u32 \<Rightarrow> nat option" where
  "get_kind kind s handle =
     (case get_wait s handle of
        Some ob \<Rightarrow> if kind (wait_objs (krn s) ob) then Some ob else None
      | None \<Rightarrow> None)"

definition get_thread :: "'m system \<Rightarrow> u32 \<Rightarrow> nat option" where
  "get_thread = get_kind (\<lambda>w. case w of WThread \<Rightarrow> True | _ \<Rightarrow> False)"

definition get_mutex :: "'m system \<Rightarrow> u32 \<Rightarrow> nat option" where
  "get_mutex = get_kind (\<lambda>w. case w of WMutex _ \<Rightarrow> True | _ \<Rightarrow> False)"

definition get_semaphore :: "'m system \<Rightarrow> u32 \<Rightarrow> nat option" where
  "get_semaphore = get_kind (\<lambda>w. case w of WSemaphore _ \<Rightarrow> True | _ \<Rightarrow> False)"

definition get_event :: "'m system \<Rightarrow> u32 \<Rightarrow> nat option" where
  "get_event = get_kind (\<lambda>w. case w of WEvent _ \<Rightarrow> True | _ \<Rightarrow> False)"

definition get_timer :: "'m system \<Rightarrow> u32 \<Rightarrow> nat option" where
  "get_timer = get_kind (\<lambda>w. case w of WTimer _ \<Rightarrow> True | _ \<Rightarrow> False)"

definition get_arbiter :: "'m system \<Rightarrow> u32 \<Rightarrow> nat option" where
  "get_arbiter s handle = (case get_object s handle of Some (OArbiter a) \<Rightarrow> Some a | _ \<Rightarrow> None)"

definition get_limit :: "'m system \<Rightarrow> u32 \<Rightarrow> nat option" where
  "get_limit s handle = (case get_object s handle of Some (OLimit i) \<Rightarrow> Some i | _ \<Rightarrow> None)"

definition get_process :: "'m system \<Rightarrow> u32 \<Rightarrow> nat option" where
  "get_process s handle = (case get_object s handle of Some (OProcess p) \<Rightarrow> Some p | _ \<Rightarrow> None)"

section \<open>Resource counts\<close>

text \<open>\<open>Result(ErrCodes::OutOf..., ErrorModule::OS, ErrorSummary::OutOfResource, ErrorLevel::Status)\<close>.\<close>

definition out_of :: "u32 \<Rightarrow> u32" where
  "out_of code = mk_result code 6 3 25"

definition with_limit ::
  "nat \<Rightarrow> (resource_limit \<Rightarrow> (resource_limit \<times> 'a) option) \<Rightarrow> 'm system \<Rightarrow> ('m system \<times> 'a) option" where
  "with_limit i f s = do {
     assertion (i < length (resource_limits (krn s)));
     (r, v) \<leftarrow> f (resource_limits (krn s) ! i);
     Some (on_krn (\<lambda>k. k\<lparr>resource_limits := (resource_limits k)[i := r]\<rparr>) s, v) }"

definition reserve :: "ResourceLimitType \<Rightarrow> 'm system \<Rightarrow> ('m system \<times> bool) option" where
  "reserve ty s = with_limit (current_limit s) (Reserve (type_index ty) 1) s"

definition release :: "ResourceLimitType \<Rightarrow> nat option \<Rightarrow> 'm system \<Rightarrow> 'm system option" where
  "release ty limit s =
     (case limit of
        None \<Rightarrow> Some s
      | Some i \<Rightarrow> map_option fst (with_limit i (Release (type_index ty) 1) s))"

text \<open>\<open>resource_limit->GetLimitValue(ResourceLimitType::Priority)\<close>, converted to \<open>u32\<close>.\<close>

definition max_priority :: "'m system \<Rightarrow> nat option" where
  "max_priority s = do {
     assertion (current_limit s < length (resource_limits (krn s)));
     v \<leftarrow> GetLimitValue (type_index RPriority) (resource_limits (krn s) ! current_limit s);
     Some (nat (v mod 2 ^ 32)) }"

section \<open>The end of objects\<close>

text \<open>The destructors of \<open>Mutex\<close>, \<open>Semaphore\<close>, \<open>Event\<close>, \<open>Timer\<close> and \<open>AddressArbiter\<close>.\<close>

definition destroy :: "kobject \<Rightarrow> 'm system \<Rightarrow> 'm system option" where
  "destroy obj s =
     (case obj of
        OWait ob \<Rightarrow>
          (case wait_objs (krn s) ob of
             WThread \<Rightarrow> Some s
           | WMutex _ \<Rightarrow> release RMutex (obj_limit s ob) s
           | WSemaphore _ \<Rightarrow> release RSemaphore (obj_limit s ob) s
           | WEvent _ \<Rightarrow> release REvent (obj_limit s ob) s
           | WTimer tm \<Rightarrow> do {
               k \<leftarrow> timer_Cancel ob (krn s);
               release RTimer (obj_limit s ob)
                 (s\<lparr>krn := k\<lparr>timer_callback_table := (timer_callback_table k)(callback_id tm := None)\<rparr>\<rparr>) })
      | OArbiter a \<Rightarrow> release RAddressArbiter (arb_limit s a) s
      | _ \<Rightarrow> Some s)"

section \<open>Handing out handles\<close>

definition add_handle :: "kobject \<Rightarrow> 'm system \<Rightarrow> 'm system \<times> (u32 + u32)" where
  "add_handle obj s =
     (let (ht, r) = handle_create (current_table s) obj
      in (s\<lparr>handle_tables := (handle_tables s)(current_process s := ht)\<rparr>, r))"

text \<open>
  The last line of every creating call. When the table is full, the \<open>shared_ptr\<close> that the call holds
  goes away; \<open>only\<close> tells whether it was the only one.
\<close>

definition publish :: "kobject \<Rightarrow> bool \<Rightarrow> 'm system \<Rightarrow> ('m system \<times> (u32 + u32)) option" where
  "publish obj only s =
     (case add_handle obj s of
        (s, Inr h) \<Rightarrow> Some (s, Inr h)
      | (s, Inl e) \<Rightarrow> do { s \<leftarrow> (if only then destroy obj s else Some s); Some (s, Inl e) })"

definition svc_DuplicateHandle :: "u32 \<Rightarrow> 'm system \<Rightarrow> 'm system \<times> (u32 + u32)" where
  "svc_DuplicateHandle handle s =
     (let (ht, r) = handle_duplicate (map_option OWait (running_thread (krn s)))
                      (Some (OProcess (current_process s))) (current_table s) handle
      in (s\<lparr>handle_tables := (handle_tables s)(current_process s := ht)\<rparr>, r))"

definition svc_CloseHandle :: "bool \<Rightarrow> u32 \<Rightarrow> 'm system \<Rightarrow> ('m system \<times> u32) option" where
  "svc_CloseHandle last_reference handle s =
     (let (ht, r) = handle_close (current_table s) handle;
          s' = s\<lparr>handle_tables := (handle_tables s)(current_process s := ht)\<rparr>
      in case handle_map (current_table s) handle of
           Some obj \<Rightarrow>
             if last_reference then do { s' \<leftarrow> destroy obj s'; Some (s', r) } else Some (s', r)
         | None \<Rightarrow> Some (s', r))"

section \<open>Threads\<close>

text \<open>
  \<open>CreateThread\<close>: the processor is chosen, then the thread is counted and made. \<open>valid_entry\<close> and
  \<open>tls\<close> are the answers of the address space and of the allocation of local storage; \<open>t\<close> is the
  address of the new thread, which its manager's list keeps alive.
\<close>

definition target_core :: "int \<Rightarrow> int option" where
  "target_core processor =
     (if processor = - 1 then Some 0
      else if 0 \<le> processor \<and> processor \<le> 3 then Some processor else None)"

definition FPSCR_INIT :: u32 where
  "FPSCR_INIT = 0x03C00000"

definition svc_CreateThread ::
  "nat \<Rightarrow> bool \<Rightarrow> u32 + u32 \<Rightarrow> u32 \<Rightarrow> u32 \<Rightarrow> u32 \<Rightarrow> u32 \<Rightarrow> int \<Rightarrow> 'm system \<Rightarrow>
   ('m system \<times> (u32 + u32)) option" where
  "svc_CreateThread t valid_entry tls entry arg stack priority processor s =
     (if \<not> unat priority \<le> ThreadPrioLowest then Some (s, Inl ResultOutOfRange)
      else do {
        let process = processes s (current_process s);
        mp \<leftarrow> max_priority s;
        if \<not> (mp \<le> unat priority \<or> no_thread_restrictions process) then Some (s, Inl ResultNotAuthorized)
        else do {
          let processor = (if processor = - 2 then uint (ideal_processor process) else processor);
          assertion (processor \<noteq> - 2);
          (case target_core processor of
             None \<Rightarrow> Some (s, Inl ResultOutOfRange)
           | Some core \<Rightarrow> do {
               (s, reserved) \<leftarrow> reserve RThread s;
               if \<not> reserved then Some (s, Inl (out_of 12))
               else do {
                 (k, r) \<leftarrow> CreateThread t entry (unat priority) arg core stack (current_process s)
                   (m_category (resource_limits (krn s) ! current_limit s)) valid_entry tls True (krn s);
                 (case r of
                    Inl e \<Rightarrow> Some (s\<lparr>krn := k\<rparr>, Inl e)
                  | Inr t \<Rightarrow>
                      publish (OWait t) False
                        (s\<lparr>krn := PrepareReschedule
                             (upd_thread t (\<lambda>th. th\<lparr>context_regs := (context_regs th)\<lparr>fpscr := FPSCR_INIT\<rparr>\<rparr>) k)\<rparr>)) } }) } })"

definition svc_ExitThread :: "'m system \<Rightarrow> 'm system option" where
  "svc_ExitThread s = do {
     k \<leftarrow> ExitCurrentThread (current_timer (timing (krn s))) (krn s);
     Some (s\<lparr>krn := PrepareReschedule k\<rparr>) }"

definition svc_GetThreadPriority :: "u32 \<Rightarrow> 'm system \<Rightarrow> u32 + nat" where
  "svc_GetThreadPriority handle s =
     (case get_thread s handle of
        None \<Rightarrow> Inl ResultInvalidHandle
      | Some t \<Rightarrow> Inr (current_priority (threads (krn s) t)))"

definition svc_GetThreadId :: "u32 \<Rightarrow> 'm system \<Rightarrow> u32 + nat" where
  "svc_GetThreadId handle s =
     (case get_thread s handle of
        None \<Rightarrow> Inl ResultInvalidHandle
      | Some t \<Rightarrow> Inr (thread_id (threads (krn s) t)))"

definition svc_SetThreadPriority :: "u32 \<Rightarrow> u32 \<Rightarrow> 'm system \<Rightarrow> ('m system \<times> u32) option" where
  "svc_SetThreadPriority handle priority s =
     (if \<not> unat priority \<le> ThreadPrioLowest then Some (s, ResultOutOfRange)
      else
        case get_thread s handle of
          None \<Rightarrow> Some (s, ResultInvalidHandle)
        | Some t \<Rightarrow> do {
            mp \<leftarrow> max_priority s;
            if \<not> mp \<le> unat priority then Some (s, ResultNotAuthorized)
            else do {
              k \<leftarrow> set_thread_priority t (unat priority) (krn s);
              Some (s\<lparr>krn := k\<rparr>, ResultSuccess) } })"

definition svc_SleepThread :: "int \<Rightarrow> 'm system \<Rightarrow> 'm system option" where
  "svc_SleepThread nanoseconds s = do { k \<leftarrow> SleepThread nanoseconds (krn s); Some (s\<lparr>krn := k\<rparr>) }"

text \<open>\<open>OpenThread\<close> searches the thread lists of the cores in turn.\<close>

definition ResultThreadNotFound :: u32 where
  "ResultThreadNotFound = mk_result 25 6 8 27"

definition svc_OpenThread :: "u32 \<Rightarrow> nat \<Rightarrow> 'm system \<Rightarrow> 'm system \<times> (u32 + u32)" where
  "svc_OpenThread process_handle tid s =
     (if process_handle = 0 then (s, Inl ResultThreadNotFound)
      else
        case get_process s process_handle of
          None \<Rightarrow> (s, Inl ResultInvalidHandle)
        | Some p \<Rightarrow>
            (case List.find (\<lambda>t. owner_process (threads (krn s) t) = Some p \<and> thread_id (threads (krn s) t) = tid)
                    (concat (map thread_list (managers (krn s)))) of
               None \<Rightarrow> (s, Inl ResultThreadNotFound)
             | Some t \<Rightarrow> add_handle (OWait t) s))"

section \<open>Mutexes, semaphores, events and timers\<close>

definition svc_CreateMutex :: "nat \<Rightarrow> nat \<Rightarrow> u32 \<Rightarrow> 'm system \<Rightarrow> ('m system \<times> (u32 + u32)) option" where
  "svc_CreateMutex ob garbage initial_locked s = do {
     (s, reserved) \<leftarrow> reserve RMutex s;
     if \<not> reserved then Some (s, Inl (out_of 13))
     else do {
       k \<leftarrow> CreateMutex ob garbage (initial_locked \<noteq> 0) (krn s);
       publish (OWait ob) (initial_locked = 0)
         (s\<lparr>krn := k, obj_limit := (obj_limit s)(ob := Some (current_limit s))\<rparr>) } }"

definition svc_ReleaseMutex :: "u32 \<Rightarrow> 'm system \<Rightarrow> ('m system \<times> u32) option" where
  "svc_ReleaseMutex handle s =
     (case get_mutex s handle of
        None \<Rightarrow> Some (s, ResultInvalidHandle)
      | Some ob \<Rightarrow> do {
          t \<leftarrow> running_thread (krn s);
          (k, r) \<leftarrow> mutex_Release ob t (krn s);
          Some (s\<lparr>krn := k\<rparr>, r) })"

definition svc_CreateSemaphore :: "nat \<Rightarrow> int \<Rightarrow> int \<Rightarrow> 'm system \<Rightarrow> ('m system \<times> (u32 + u32)) option" where
  "svc_CreateSemaphore ob initial maximum s = do {
     (s, reserved) \<leftarrow> reserve RSemaphore s;
     if \<not> reserved then Some (s, Inl (out_of 14))
     else
       let (k, r) = CreateSemaphore ob initial maximum (krn s) in
       if r \<noteq> ResultSuccess then Some (s, Inl r)
       else publish (OWait ob) True
              (s\<lparr>krn := k, obj_limit := (obj_limit s)(ob := Some (current_limit s))\<rparr>) }"

definition svc_ReleaseSemaphore :: "u32 \<Rightarrow> int \<Rightarrow> 'm system \<Rightarrow> ('m system \<times> (u32 + int)) option" where
  "svc_ReleaseSemaphore handle release_count s =
     (case get_semaphore s handle of
        None \<Rightarrow> Some (s, Inl ResultInvalidHandle)
      | Some ob \<Rightarrow> do {
          (k, r) \<leftarrow> semaphore_Release ob release_count (krn s);
          Some (s\<lparr>krn := k\<rparr>, r) })"

text \<open>
  The reset type arrives unchecked; a value that names none behaves like \<open>Sticky\<close>, as the code only
  compares with the other two.
\<close>

definition reset_of :: "u32 \<Rightarrow> ResetType" where
  "reset_of v = (if v = 0 then OneShot else if v = 2 then Pulse else Sticky)"

definition svc_CreateEvent :: "nat \<Rightarrow> u32 \<Rightarrow> 'm system \<Rightarrow> ('m system \<times> (u32 + u32)) option" where
  "svc_CreateEvent ob reset s = do {
     (s, reserved) \<leftarrow> reserve REvent s;
     if \<not> reserved then Some (s, Inl (out_of 15))
     else publish (OWait ob) True
            (s\<lparr>krn := CreateEvent ob (reset_of reset) (krn s),
               obj_limit := (obj_limit s)(ob := Some (current_limit s))\<rparr>) }"

definition svc_SignalEvent :: "u32 \<Rightarrow> 'm system \<Rightarrow> ('m system \<times> u32) option" where
  "svc_SignalEvent handle s =
     (case get_event s handle of
        None \<Rightarrow> Some (s, ResultInvalidHandle)
      | Some ob \<Rightarrow> do { k \<leftarrow> event_Signal ob (krn s); Some (s\<lparr>krn := k\<rparr>, ResultSuccess) })"

definition svc_ClearEvent :: "u32 \<Rightarrow> 'm system \<Rightarrow> ('m system \<times> u32) option" where
  "svc_ClearEvent handle s =
     (case get_event s handle of
        None \<Rightarrow> Some (s, ResultInvalidHandle)
      | Some ob \<Rightarrow> do { k \<leftarrow> event_Clear ob (krn s); Some (s\<lparr>krn := k\<rparr>, ResultSuccess) })"

definition svc_CreateTimer :: "nat \<Rightarrow> u32 \<Rightarrow> 'm system \<Rightarrow> ('m system \<times> (u32 + u32)) option" where
  "svc_CreateTimer ob reset s = do {
     (s, reserved) \<leftarrow> reserve RTimer s;
     if \<not> reserved then Some (s, Inl (out_of 16))
     else publish (OWait ob) True
            (s\<lparr>krn := CreateTimer ob (reset_of reset) (krn s),
               obj_limit := (obj_limit s)(ob := Some (current_limit s))\<rparr>) }"

definition svc_ClearTimer :: "u32 \<Rightarrow> 'm system \<Rightarrow> ('m system \<times> u32) option" where
  "svc_ClearTimer handle s =
     (case get_timer s handle of
        None \<Rightarrow> Some (s, ResultInvalidHandle)
      | Some ob \<Rightarrow> do { k \<leftarrow> timer_Clear ob (krn s); Some (s\<lparr>krn := k\<rparr>, ResultSuccess) })"

definition svc_SetTimer :: "u32 \<Rightarrow> int \<Rightarrow> int \<Rightarrow> 'm system \<Rightarrow> ('m system \<times> u32) option" where
  "svc_SetTimer handle initial interval s =
     (if \<not> (initial \<ge> 0 \<and> interval \<ge> 0) then Some (s, ResultOutOfRangeKernel)
      else
        case get_timer s handle of
          None \<Rightarrow> Some (s, ResultInvalidHandle)
        | Some ob \<Rightarrow> do { k \<leftarrow> timer_Set ob initial interval (krn s); Some (s\<lparr>krn := k\<rparr>, ResultSuccess) })"

definition svc_CancelTimer :: "u32 \<Rightarrow> 'm system \<Rightarrow> ('m system \<times> u32) option" where
  "svc_CancelTimer handle s =
     (case get_timer s handle of
        None \<Rightarrow> Some (s, ResultInvalidHandle)
      | Some ob \<Rightarrow> do { k \<leftarrow> timer_Cancel ob (krn s); Some (s\<lparr>krn := k\<rparr>, ResultSuccess) })"

section \<open>Arbiters and waiting\<close>

definition svc_CreateAddressArbiter :: "nat \<Rightarrow> 'm system \<Rightarrow> ('m system \<times> (u32 + u32)) option" where
  "svc_CreateAddressArbiter a s = do {
     (s, reserved) \<leftarrow> reserve RAddressArbiter s;
     if \<not> reserved then Some (s, Inl (out_of 51))
     else publish (OArbiter a) True
            (s\<lparr>krn := CreateAddressArbiter a (krn s), arb_limit := (arb_limit s)(a := Some (current_limit s))\<rparr>) }"

definition arbitrate_by_handle ::
  "('m \<Rightarrow> u32 \<Rightarrow> u32) \<Rightarrow> ('m \<Rightarrow> u32 \<Rightarrow> u32 \<Rightarrow> 'm) \<Rightarrow> u32 \<Rightarrow> u32 \<Rightarrow> u32 \<Rightarrow> u32 \<Rightarrow> int \<Rightarrow>
   'm system \<Rightarrow> ('m system \<times> u32) option" where
  "arbitrate_by_handle Read32 Write32 handle address ty v nanoseconds s = do {
     (k, r) \<leftarrow> svc_ArbitrateAddress Read32 Write32 (get_arbiter s) handle address ty v nanoseconds (krn s);
     Some (s\<lparr>krn := k\<rparr>, r) }"

definition wait_one_by_handle :: "u32 \<Rightarrow> int \<Rightarrow> 'm system \<Rightarrow> ('m system \<times> u32) option" where
  "wait_one_by_handle handle nano_seconds s = do {
     (k, r) \<leftarrow> WaitSynchronization1 (get_wait s) handle nano_seconds (krn s);
     Some (s\<lparr>krn := k\<rparr>, r) }"

definition wait_many_by_handle ::
  "('m \<Rightarrow> u32 \<Rightarrow> u32) \<Rightarrow> bool \<Rightarrow> u32 \<Rightarrow> int \<Rightarrow> bool \<Rightarrow> int \<Rightarrow> 'm system \<Rightarrow>
   ('m system \<times> u32 \<times> int option) option" where
  "wait_many_by_handle Read32 valid addr n wait_all nano_seconds s = do {
     (k, r, out) \<leftarrow> WaitSynchronizationN (get_wait s) Read32 valid addr n wait_all nano_seconds (krn s);
     Some (s\<lparr>krn := k\<rparr>, r, out) }"

section \<open>Resource limits\<close>

definition svc_GetResourceLimit :: "u32 \<Rightarrow> 'm system \<Rightarrow> 'm system \<times> (u32 + u32)" where
  "svc_GetResourceLimit process_handle s =
     (case get_process s process_handle of
        None \<Rightarrow> (s, Inl ResultInvalidHandle)
      | Some p \<Rightarrow> add_handle (OLimit (process_limit (krn s) p)) s)"

text \<open>
  The loops over the arrays of names and values in the guest's memory; \<open>value\<close> is read or written for
  the \<open>i\<close>-th name. The names of the current values are not checked.
\<close>

fun copy_values ::
  "('m \<Rightarrow> u32 \<Rightarrow> u32) \<Rightarrow> ('m \<Rightarrow> u32 \<Rightarrow> int \<Rightarrow> 'm) \<Rightarrow> bool \<Rightarrow> (nat \<Rightarrow> int option) \<Rightarrow> u32 \<Rightarrow> u32 \<Rightarrow> nat \<Rightarrow> nat \<Rightarrow>
   'm \<Rightarrow> ('m \<times> u32) option" where
  "copy_values Read32 Write64 check get vals names i 0 m = Some (m, ResultSuccess)"
| "copy_values Read32 Write64 check get vals names i (Suc n) m = do {
     let name = unat (Read32 m (names + of_nat i * 4));
     if check \<and> \<not> name < 10 then Some (m, ResultInvalidEnumValue)
     else do {
       v \<leftarrow> get name;
       copy_values Read32 Write64 check get vals names (i + 1) n (Write64 m (vals + of_nat i * 8) v) } }"

definition get_values ::
  "(nat \<Rightarrow> resource_limit \<Rightarrow> int option) \<Rightarrow> bool \<Rightarrow> ('m \<Rightarrow> u32 \<Rightarrow> u32) \<Rightarrow> ('m \<Rightarrow> u32 \<Rightarrow> int \<Rightarrow> 'm) \<Rightarrow> u32 \<Rightarrow>
   u32 \<Rightarrow> u32 \<Rightarrow> u32 \<Rightarrow> 'm system \<Rightarrow> ('m system \<times> u32) option" where
  "get_values get check Read32 Write64 vals handle names name_count s =
     (case get_limit s handle of
        None \<Rightarrow> Some (s, ResultInvalidHandle)
      | Some i \<Rightarrow> do {
          assertion (i < length (resource_limits (krn s)));
          (m, r) \<leftarrow> copy_values Read32 Write64 check (\<lambda>name. get name (resource_limits (krn s) ! i))
                     vals names 0 (unat name_count) (memory (krn s));
          Some (on_krn (\<lambda>k. k\<lparr>memory := m\<rparr>) s, r) })"

definition svc_GetResourceLimitCurrentValues ::
  "('m \<Rightarrow> u32 \<Rightarrow> u32) \<Rightarrow> ('m \<Rightarrow> u32 \<Rightarrow> int \<Rightarrow> 'm) \<Rightarrow> u32 \<Rightarrow> u32 \<Rightarrow> u32 \<Rightarrow> u32 \<Rightarrow> 'm system \<Rightarrow>
   ('m system \<times> u32) option" where
  "svc_GetResourceLimitCurrentValues = get_values GetCurrentValue False"

definition svc_GetResourceLimitLimitValues ::
  "('m \<Rightarrow> u32 \<Rightarrow> u32) \<Rightarrow> ('m \<Rightarrow> u32 \<Rightarrow> int \<Rightarrow> 'm) \<Rightarrow> u32 \<Rightarrow> u32 \<Rightarrow> u32 \<Rightarrow> u32 \<Rightarrow> 'm system \<Rightarrow>
   ('m system \<times> u32) option" where
  "svc_GetResourceLimitLimitValues = get_values GetLimitValue True"

text \<open>
  The values to set are 64 bits wide, with the memory allocation of the application in the upper half
  of the \<open>Commit\<close> value; the code's copy of it in the configuration memory is returned.
\<close>

fun set_values ::
  "('m \<Rightarrow> u32 \<Rightarrow> u32) \<Rightarrow> ('m \<Rightarrow> u32 \<Rightarrow> int) \<Rightarrow> u32 \<Rightarrow> u32 \<Rightarrow> nat \<Rightarrow> nat \<Rightarrow> 'm \<Rightarrow> resource_limit \<Rightarrow> int option \<Rightarrow>
   (resource_limit \<times> u32 \<times> int option) option" where
  "set_values Read32 Read64 names vals i 0 m lim alloc = Some (lim, ResultSuccess, alloc)"
| "set_values Read32 Read64 names vals i (Suc n) m lim alloc = do {
     let name = unat (Read32 m (names + of_nat i * 4));
     if \<not> name < 10 then Some (lim, ResultInvalidEnumValue, alloc)
     else do {
       let v = to_s64 (Read64 m (vals + of_nat i * 8));
       let high = to_s32 (v div 2 ^ 32);
       if \<not> high \<ge> 0 then Some (lim, ResultOutOfRangeKernel, alloc)
       else do {
         lim \<leftarrow> SetLimitValue name (to_s32 v) lim;
         set_values Read32 Read64 names vals (i + 1) n m lim
           (if name = type_index RCommit \<and> high \<noteq> 0 then Some high else alloc) } } }"

definition svc_SetResourceLimitLimitValues ::
  "('m \<Rightarrow> u32 \<Rightarrow> u32) \<Rightarrow> ('m \<Rightarrow> u32 \<Rightarrow> int) \<Rightarrow> u32 \<Rightarrow> u32 \<Rightarrow> u32 \<Rightarrow> u32 \<Rightarrow> 'm system \<Rightarrow>
   ('m system \<times> u32 \<times> int option) option" where
  "svc_SetResourceLimitLimitValues Read32 Read64 handle names vals name_count s =
     (case get_limit s handle of
        None \<Rightarrow> Some (s, ResultInvalidHandle, None)
      | Some i \<Rightarrow>
          with_limit i (\<lambda>lim. set_values Read32 Read64 names vals 0 (unat name_count) (memory (krn s)) lim None) s)"

end
