(* ===== verification/Svc_Steps.thy ===== *)
theory Svc_Steps
  imports Svc_Calls
begin

text \<open>
  The system calls as steps of the whole system, and their refinement: what a call does to the kernel
  is a run of kernel steps, and it keeps every handle table well-formed and touches no table but that
  of the current process. So whatever holds in all reachable kernels holds under any sequence of
  system calls, device events and process switches.
\<close>

section \<open>Runs\<close>

definition tables_inv :: "'m system \<Rightarrow> bool" where
  "tables_inv s \<longleftrightarrow> (\<forall>p. handle_table_inv (handle_tables s p))"

text \<open>\<open>s'\<close> is reached from \<open>s\<close> by kernel steps and operations on the current process's handles.\<close>

definition svc_run :: "'m system \<Rightarrow> 'm system \<Rightarrow> bool" where
  "svc_run s s' \<longleftrightarrow> kernel_step\<^sup>*\<^sup>* (krn s) (krn s') \<and> (tables_inv s \<longrightarrow> tables_inv s') \<and>
     current_process s' = current_process s \<and> processes s' = processes s \<and>
     (\<forall>p. p \<noteq> current_process s \<longrightarrow> handle_tables s' p = handle_tables s p)"

lemma svc_run_refl [simp]: "svc_run s s"
  by (simp add: svc_run_def)

lemma svc_run_trans [trans]: "svc_run s1 s2 \<Longrightarrow> svc_run s2 s3 \<Longrightarrow> svc_run s1 s3"
  by (auto simp: svc_run_def)

lemma svc_run_step:
  "kernel_step (krn s) (krn s') \<Longrightarrow> handle_tables s' = handle_tables s \<Longrightarrow>
   current_process s' = current_process s \<Longrightarrow> processes s' = processes s \<Longrightarrow> svc_run s s'"
  by (simp add: svc_run_def tables_inv_def)

lemma svc_run_krn: "kernel_step (krn s) k \<Longrightarrow> svc_run s (s\<lparr>krn := k\<rparr>)"
  by (rule svc_run_step) simp_all

lemma svc_run_steps: "kernel_step\<^sup>*\<^sup>* (krn s) k \<Longrightarrow> svc_run s (s\<lparr>krn := k\<rparr>)"
  by (simp add: svc_run_def tables_inv_def)

lemma kernel_runs:
  "kernel_step k k1 \<Longrightarrow> kernel_step k1 k2 \<Longrightarrow> kernel_step\<^sup>*\<^sup>* k k2"
  "kernel_step k k1 \<Longrightarrow> kernel_step k1 k2 \<Longrightarrow> kernel_step k2 k3 \<Longrightarrow> kernel_step\<^sup>*\<^sup>* k k3"
  by (auto intro: converse_rtranclp_into_rtranclp)

lemma svc_run_table:
  "(handle_table_inv (current_table s) \<Longrightarrow> handle_table_inv ht) \<Longrightarrow>
   svc_run s (s\<lparr>handle_tables := (handle_tables s)(current_process s := ht)\<rparr>)"
  by (simp add: svc_run_def tables_inv_def current_table_def)

section \<open>Resource counts\<close>

lemma with_limit_run:
  assumes "with_limit i f s = Some (s', v)"
  shows "svc_run s s'" "obj_limit s' = obj_limit s" "arb_limit s' = arb_limit s" "handle_tables s' = handle_tables s"
    "current_limit s' = current_limit s" "\<exists>ls. krn s' = (krn s)\<lparr>resource_limits := ls\<rparr>"
proof -
  from assms obtain ls where s': "s' = on_krn (\<lambda>k. k\<lparr>resource_limits := ls k\<rparr>) s"
    by (auto simp: with_limit_def bind_eq_Some_conv split: if_splits)
  have "kernel_step (krn s) ((krn s)\<lparr>tls_slots := tls_slots (krn s), process_limit := process_limit (krn s),
      resource_limits := ls (krn s)\<rparr>)"
    by (rule kernel_step.process_data)
  then show "svc_run s s'"
    by (intro svc_run_step) (simp_all add: s' on_krn_def)
  show "obj_limit s' = obj_limit s" "arb_limit s' = arb_limit s" "handle_tables s' = handle_tables s"
    "current_limit s' = current_limit s" "\<exists>ls. krn s' = (krn s)\<lparr>resource_limits := ls\<rparr>"
    by (auto simp: s' on_krn_def current_limit_def)
qed

lemma reserve_run:
  assumes "reserve ty s = Some (s', b)"
  shows "svc_run s s'" "b" "current_process s' = current_process s" "\<exists>ls. krn s' = (krn s)\<lparr>resource_limits := ls\<rparr>"
proof -
  note w = assms [unfolded reserve_def]
  show "svc_run s s'" "current_process s' = current_process s" "\<exists>ls. krn s' = (krn s)\<lparr>resource_limits := ls\<rparr>"
    using with_limit_run(1,6) [OF w] by (simp_all add: svc_run_def)
  show "b"
    using w by (auto simp: with_limit_def Reserve_def Let_def bind_eq_Some_conv split: if_splits)
qed

lemma release_run: "release ty l s = Some s' \<Longrightarrow> svc_run s s'"
  by (cases l) (auto simp: release_def dest: with_limit_run(1))

text \<open>Reserving does not change which addresses are new or which thread runs.\<close>

lemma limits_neutral [simp]:
  "fresh (k\<lparr>resource_limits := ls\<rparr>) = fresh k" "running_thread (k\<lparr>resource_limits := ls\<rparr>) = running_thread k"
  "executes (k\<lparr>resource_limits := ls\<rparr>) = executes k"
  by (simp_all add: fun_eq_iff fresh_def is_thread_def running_thread_def executes_def)

section \<open>Objects\<close>

lemma destroy_run: "destroy obj s = Some s' \<Longrightarrow> svc_run s s'"
proof -
  assume d: "destroy obj s = Some s'"
  show ?thesis
  proof (cases "\<exists>ob tm. obj = OWait ob \<and> wait_objs (krn s) ob = WTimer tm")
    case False
    with d show ?thesis
      by (auto simp: destroy_def release_run split: kobject.splits wait_object.splits)
  next
    case True
    then obtain ob tm where ob: "obj = OWait ob" "wait_objs (krn s) ob = WTimer tm"
      by blast
    with d obtain k where k: "timer_Cancel ob (krn s) = Some k"
      "release RTimer (obj_limit s ob) (s\<lparr>krn := k\<lparr>timer_callback_table := (timer_callback_table k)(callback_id tm := None)\<rparr>\<rparr>) = Some s'"
      by (auto simp: destroy_def bind_eq_Some_conv)
    have "kernel_step\<^sup>*\<^sup>* (krn s) (k\<lparr>timer_callback_table := (timer_callback_table k)(callback_id tm := None)\<rparr>)"
      by (rule kernel_runs(1) [OF kernel_step.cancel_timer [OF k(1)] kernel_step.timer_end])
    from svc_run_trans [OF svc_run_steps [OF this] release_run [OF k(2)]] show ?thesis .
  qed
qed

lemma add_handle_run: "add_handle obj s = (s', r) \<Longrightarrow> svc_run s s'"
proof -
  assume a: "add_handle obj s = (s', r)"
  obtain ht r' where c: "handle_create (current_table s) obj = (ht, r')"
    by force
  have "handle_table_inv (current_table s) \<Longrightarrow> handle_table_inv ht"
    using c handle_create_inv [of "current_table s" obj ht] by (cases r') (auto simp: handle_create_def Let_def split: if_splits)
  from svc_run_table [of s ht, OF this] a c show ?thesis
    by (simp add: add_handle_def)
qed

lemma publish_run: "publish obj only s = Some (s', r) \<Longrightarrow> svc_run s s'"
  by (auto simp: publish_def bind_eq_Some_conv split: prod.splits sum.splits if_splits
      intro: svc_run_trans dest: add_handle_run destroy_run)

text \<open>The common shape of the calls that make an object: count, make, hand out.\<close>

lemma create_run:
  assumes r: "reserve ty s = Some (s1, b)" and p: "publish obj only (s1\<lparr>krn := k, obj_limit := o1, arb_limit := a1\<rparr>) = Some (s', h)"
    and k: "\<And>ls. krn s1 = (krn s)\<lparr>resource_limits := ls\<rparr> \<Longrightarrow> kernel_step (krn s1) k"
  shows "svc_run s s'"
proof -
  note R = reserve_run [OF r]
  have "kernel_step (krn s1) k"
    using R(4) k by blast
  then have "svc_run s1 (s1\<lparr>krn := k, obj_limit := o1, arb_limit := a1\<rparr>)"
    by (intro svc_run_step) simp_all
  from svc_run_trans [OF R(1) svc_run_trans [OF this publish_run [OF p]]] show ?thesis .
qed

section \<open>System calls as steps\<close>

text \<open>
  One step is one system call of the thread \<open>t\<close> that runs on the current core. The addresses of new
  objects are fresh. \<open>WaitSynchronizationN\<close> may not name one object twice when it waits for all, and
  a thread that exits has its local storage in an existing page.
\<close>

inductive svc_step :: "'m system \<Rightarrow> 'm system \<Rightarrow> bool" where
  CreateThread: "executes (krn s) t \<Longrightarrow> fresh (krn s) u \<Longrightarrow>
    svc_CreateThread u valid tls entry arg stack p processor s = Some (s', r) \<Longrightarrow> svc_step s s'"
| ExitThread: "executes (krn s) t \<Longrightarrow> tls_ok t (krn s) \<Longrightarrow> svc_ExitThread s = Some s' \<Longrightarrow> svc_step s s'"
| SetThreadPriority: "executes (krn s) t \<Longrightarrow> svc_SetThreadPriority h p s = Some (s', r) \<Longrightarrow> svc_step s s'"
| SleepThread: "executes (krn s) t \<Longrightarrow> svc_SleepThread ns s = Some s' \<Longrightarrow> svc_step s s'"
| OpenThread: "executes (krn s) t \<Longrightarrow> svc_OpenThread h tid s = (s', r) \<Longrightarrow> svc_step s s'"
| CreateMutex: "executes (krn s) t \<Longrightarrow> fresh (krn s) ob \<Longrightarrow>
    svc_CreateMutex ob garbage locked s = Some (s', r) \<Longrightarrow> svc_step s s'"
| ReleaseMutex: "executes (krn s) t \<Longrightarrow> svc_ReleaseMutex h s = Some (s', r) \<Longrightarrow> svc_step s s'"
| CreateSemaphore: "executes (krn s) t \<Longrightarrow> fresh (krn s) ob \<Longrightarrow>
    svc_CreateSemaphore ob initial maximum s = Some (s', r) \<Longrightarrow> svc_step s s'"
| ReleaseSemaphore: "executes (krn s) t \<Longrightarrow> svc_ReleaseSemaphore h n s = Some (s', r') \<Longrightarrow> svc_step s s'"
| CreateEvent: "executes (krn s) t \<Longrightarrow> fresh (krn s) ob \<Longrightarrow> svc_CreateEvent ob reset s = Some (s', r) \<Longrightarrow> svc_step s s'"
| SignalEvent: "executes (krn s) t \<Longrightarrow> svc_SignalEvent h s = Some (s', r) \<Longrightarrow> svc_step s s'"
| ClearEvent: "executes (krn s) t \<Longrightarrow> svc_ClearEvent h s = Some (s', r) \<Longrightarrow> svc_step s s'"
| CreateTimer: "executes (krn s) t \<Longrightarrow> fresh (krn s) ob \<Longrightarrow> svc_CreateTimer ob reset s = Some (s', r) \<Longrightarrow> svc_step s s'"
| SetTimer: "executes (krn s) t \<Longrightarrow> svc_SetTimer h initial interval s = Some (s', r) \<Longrightarrow> svc_step s s'"
| CancelTimer: "executes (krn s) t \<Longrightarrow> svc_CancelTimer h s = Some (s', r) \<Longrightarrow> svc_step s s'"
| ClearTimer: "executes (krn s) t \<Longrightarrow> svc_ClearTimer h s = Some (s', r) \<Longrightarrow> svc_step s s'"
| CreateAddressArbiter: "executes (krn s) t \<Longrightarrow> arbiter_threads (krn s) a = [] \<Longrightarrow>
    svc_CreateAddressArbiter a s = Some (s', r) \<Longrightarrow> svc_step s s'"
| ArbitrateAddress: "executes (krn s) t \<Longrightarrow>
    arbitrate_by_handle Read32 Write32 h address ty v ns s = Some (s', r) \<Longrightarrow> svc_step s s'"
| WaitSynchronization1: "executes (krn s) t \<Longrightarrow> wait_one_by_handle h ns s = Some (s', r) \<Longrightarrow> svc_step s s'"
| WaitSynchronizationN: "executes (krn s) t \<Longrightarrow>
    (wait_all \<Longrightarrow> \<forall>obs. lookup_objects (get_wait s) (handles_at Read32 (memory (krn s)) addr (nat n)) = Some obs \<longrightarrow> distinct obs) \<Longrightarrow>
    wait_many_by_handle Read32 valid addr n wait_all ns s = Some (s', r, out) \<Longrightarrow> svc_step s s'"
| DuplicateHandle: "executes (krn s) t \<Longrightarrow> svc_DuplicateHandle h s = (s', r) \<Longrightarrow> svc_step s s'"
| CloseHandle: "executes (krn s) t \<Longrightarrow> svc_CloseHandle last_reference h s = Some (s', r) \<Longrightarrow> svc_step s s'"
| GetResourceLimit: "executes (krn s) t \<Longrightarrow> svc_GetResourceLimit h s = (s', r) \<Longrightarrow> svc_step s s'"
| GetResourceLimitValues: "executes (krn s) t \<Longrightarrow>
    get_values get check Read32 Write64 vals h names n s = Some (s', r) \<Longrightarrow> svc_step s s'"
| SetResourceLimitLimitValues: "executes (krn s) t \<Longrightarrow>
    svc_SetResourceLimitLimitValues Read32 Read64 h names vals n s = Some (s', r) \<Longrightarrow> svc_step s s'"

inductive_cases svc_stepE: "svc_step s s'"

text \<open>
  The system: system calls, whatever else happens to the kernel (dispatching, timers, services), and
  the switch to another process with a core.
\<close>

inductive system_step :: "'m system \<Rightarrow> 'm system \<Rightarrow> bool" where
  call: "svc_step s s' \<Longrightarrow> system_step s s'"
| device: "kernel_step (krn s) k \<Longrightarrow> system_step s (s\<lparr>krn := k\<rparr>)"
| switch: "system_step s (s\<lparr>current_process := p, processes := ps\<rparr>)"

definition new_system :: "nat \<Rightarrow> kernel_event timing \<Rightarrow> resource_limit list \<Rightarrow> 'm \<Rightarrow> nat \<Rightarrow> (nat \<Rightarrow> process_info) \<Rightarrow> 'm system" where
  "new_system n tm limits m p ps =
     \<lparr>krn = new_kernel n tm limits m, handle_tables = (\<lambda>_. new_handle_table), current_process = p,
      processes = ps, obj_limit = (\<lambda>_. None), arb_limit = (\<lambda>_. None)\<rparr>"

inductive system_reachable :: "'m system \<Rightarrow> bool" where
  start: "1 < n \<Longrightarrow> length (timers tm) = n \<Longrightarrow> current_timer tm < n \<Longrightarrow>
    system_reachable (new_system n tm limits m p ps)"
| step: "system_reachable s \<Longrightarrow> system_step s s' \<Longrightarrow> system_reachable s'"

section \<open>Refinement\<close>

lemma get_kind_wait: "get_kind P s h = Some ob \<Longrightarrow> P (wait_objs (krn s) ob)"
  by (auto simp: get_kind_def split: option.splits if_splits)

lemma get_thread_is_thread: "get_thread s h = Some t \<Longrightarrow> is_thread (krn s) t"
  by (cases "wait_objs (krn s) t") (auto simp: get_thread_def is_thread_def dest!: get_kind_wait)

lemma svc_CreateThread_run:
  assumes u: "fresh (krn s) u" and run: "svc_CreateThread u valid tls entry arg stack p processor s = Some (s', r)"
  shows "svc_run s s'"
proof (cases "s' = s")
  case False
  with run obtain s1 b core c k r1 where r: "reserve RThread s = Some (s1, b)"
    and k: "CreateThread u entry (unat p) arg core stack (current_process s1) c valid tls True (krn s1) = Some (k, r1)"
    and e: "(case r1 of
              Inl e \<Rightarrow> Some (s1\<lparr>krn := k\<rparr>, Inl e)
            | Inr t \<Rightarrow> publish (OWait t) False (s1\<lparr>krn := PrepareReschedule
                   (upd_thread t (\<lambda>th. th\<lparr>context_regs := (context_regs th)\<lparr>fpscr := FPSCR_INIT\<rparr>\<rparr>) k)\<rparr>)) = Some (s', r)"
    by (auto simp: svc_CreateThread_def Let_def bind_eq_Some_conv dest: reserve_run(2) split: if_splits option.splits)
  note R = reserve_run [OF r]
  have f: "fresh (krn s1) u"
    using R(4) u by auto
  show ?thesis
  proof (cases r1)
    case (Inl err)
    from svc_run_trans [OF R(1) svc_run_krn [OF kernel_step.failed_thread [OF f k [unfolded Inl]]]] e Inl show ?thesis
      by simp
  next
    case (Inr t)
    have t: "t = u"
      using k Inr by (cases tls) (auto simp: CreateThread_def Let_def bind_eq_Some_conv split: if_splits)
    have "kernel_step\<^sup>*\<^sup>* (krn s1) (PrepareReschedule
        (upd_thread t (\<lambda>th. th\<lparr>context_regs := (context_regs th)\<lparr>fpscr := FPSCR_INIT\<rparr>\<rparr>) k))"
      unfolding t by (rule kernel_runs(2) [OF kernel_step.new_thread [OF f k [unfolded Inr t]] kernel_step.thread_context kernel_step.reschedule])
    from svc_run_trans [OF R(1) svc_run_trans [OF svc_run_steps [OF this] publish_run]] e Inr show ?thesis
      by simp
  qed
qed simp

lemma svc_ExitThread_run:
  assumes "executes (krn s) t" "tls_ok t (krn s)" "svc_ExitThread s = Some s'"
  shows "svc_run s s'"
proof -
  let ?c = "current_timer (timing (krn s))"
  have t: "?c < length (managers (krn s))" "current_thread (managers (krn s) ! ?c) = Some t" "status (threads (krn s) t) = Running"
    using assms(1) by (simp_all add: executes_def running_thread_def split: if_splits)
  from assms(3) obtain k where k: "ExitCurrentThread ?c (krn s) = Some k" "s' = s\<lparr>krn := PrepareReschedule k\<rparr>"
    by (auto simp: svc_ExitThread_def bind_eq_Some_conv)
  have "kernel_step\<^sup>*\<^sup>* (krn s) (PrepareReschedule k)"
    by (rule kernel_runs(1) [OF kernel_step.exit_thread [OF t assms(2) k(1)] kernel_step.reschedule])
  from svc_run_steps [OF this] show ?thesis
    by (simp add: k(2))
qed

lemma svc_CreateMutex_run:
  assumes t: "executes (krn s) t" and ob: "fresh (krn s) ob" and run: "svc_CreateMutex ob garbage locked s = Some (s', r)"
  shows "svc_run s s'"
proof -
  from run obtain s1 b where r: "reserve RMutex s = Some (s1, b)"
    by (auto simp: svc_CreateMutex_def bind_eq_Some_conv)
  note R = reserve_run [OF r]
  from run R(2) obtain k where k: "CreateMutex ob garbage (locked \<noteq> 0) (krn s1) = Some k"
    "publish (OWait ob) (locked = 0) (s1\<lparr>krn := k, obj_limit := (obj_limit s1)(ob := Some (current_limit s1))\<rparr>) = Some (s', r)"
    by (auto simp: svc_CreateMutex_def r bind_eq_Some_conv)
  have "kernel_step (krn s1) k"
    by (rule kernel_step.new_mutex [OF _ _ k(1), where t = t]) (use R(4) t ob in auto)
  then have "svc_run s1 (s1\<lparr>krn := k, obj_limit := (obj_limit s1)(ob := Some (current_limit s1))\<rparr>)"
    by (intro svc_run_step) simp_all
  from svc_run_trans [OF R(1) svc_run_trans [OF this publish_run [OF k(2)]]] show ?thesis .
qed

text \<open>The calls that make an object whose constructor cannot fail.\<close>

lemma made_run:
  assumes run: "do { (s, reserved) \<leftarrow> reserve ty s;
      if \<not> reserved then Some (s, Inl e) else publish obj True (f s) } = Some (s', r)"
    and f: "\<And>s1 ls. krn s1 = (krn s)\<lparr>resource_limits := ls\<rparr> \<Longrightarrow> svc_run s1 (f s1)"
  shows "svc_run s s'"
proof -
  from run obtain s1 b where r: "reserve ty s = Some (s1, b)"
    by (auto simp: bind_eq_Some_conv)
  note R = reserve_run [OF r]
  from run R(2) have p: "publish obj True (f s1) = Some (s', r)"
    by (simp add: r)
  have "svc_run s1 (f s1)"
    using R(4) f by blast
  from svc_run_trans [OF R(1) svc_run_trans [OF this publish_run [OF p]]] show ?thesis .
qed

lemma svc_run_made:
  "kernel_step (krn s) k \<Longrightarrow> svc_run s (s\<lparr>krn := k, obj_limit := ol, arb_limit := al\<rparr>)"
  by (rule svc_run_step) simp_all

lemma made_objects_run:
  assumes "fresh (krn s) ob"
  shows "svc_CreateEvent ob reset s = Some (s', r) \<Longrightarrow> svc_run s s'"
    "svc_CreateTimer ob reset s = Some (s', r) \<Longrightarrow> svc_run s s'"
proof -
  have "svc_run s1 (s1\<lparr>krn := k (krn s1), obj_limit := ol\<rparr>)"
    if "krn s1 = (krn s)\<lparr>resource_limits := ls\<rparr>" "k = CreateEvent ob reset \<or> k = CreateTimer ob reset" for s1 ls k reset ol
    using that assms kernel_step.new_event [of "krn s1" ob] kernel_step.new_timer [of "krn s1" ob]
      svc_run_made [where s = s1 and k = "k (krn s1)" and ol = ol and al = "arb_limit s1"] by auto
  note f = this
  show "svc_CreateEvent ob reset s = Some (s', r) \<Longrightarrow> svc_run s s'"
    unfolding svc_CreateEvent_def by (erule made_run) (rule f, auto)
  show "svc_CreateTimer ob reset s = Some (s', r) \<Longrightarrow> svc_run s s'"
    unfolding svc_CreateTimer_def by (erule made_run) (rule f, auto)
qed

lemma svc_CreateAddressArbiter_run:
  assumes "arbiter_threads (krn s) a = []" "svc_CreateAddressArbiter a s = Some (s', r)"
  shows "svc_run s s'"
proof (rule made_run [OF assms(2) [unfolded svc_CreateAddressArbiter_def]])
  fix s1 :: "'a system" and ls assume "krn s1 = (krn s)\<lparr>resource_limits := ls\<rparr>"
  with assms(1) have "kernel_step (krn s1) (CreateAddressArbiter a (krn s1))"
    by (intro kernel_step.new_arbiter) simp
  from svc_run_made [OF this, where ol = "obj_limit s1"]
  show "svc_run s1 (s1\<lparr>krn := CreateAddressArbiter a (krn s1), arb_limit := (arb_limit s1)(a := Some (current_limit s1))\<rparr>)"
    by simp
qed

lemma svc_CreateSemaphore_run:
  assumes ob: "fresh (krn s) ob" and run: "svc_CreateSemaphore ob initial maximum s = Some (s', r)"
  shows "svc_run s s'"
proof -
  from run obtain s1 b where r: "reserve RSemaphore s = Some (s1, b)"
    by (auto simp: svc_CreateSemaphore_def bind_eq_Some_conv)
  note R = reserve_run [OF r]
  obtain k r1 where k: "CreateSemaphore ob initial maximum (krn s1) = (k, r1)"
    by force
  have s: "svc_run s1 (s1\<lparr>krn := k, obj_limit := ol\<rparr>)" for ol
    using svc_run_made [OF kernel_step.new_semaphore [OF _ k], where ol = ol and al = "arb_limit s1"] R(4) ob by auto
  from run R(2) consider "s' = s1"
    | "publish (OWait ob) True (s1\<lparr>krn := k, obj_limit := (obj_limit s1)(ob := Some (current_limit s1))\<rparr>) = Some (s', r)"
    by (auto simp: svc_CreateSemaphore_def r k split: if_splits)
  then show ?thesis
    using svc_run_trans [OF R(1) svc_run_trans [OF s publish_run]] R(1) by cases auto
qed

text \<open>The calls that only act on the kernel.\<close>

lemma object_calls_run:
  "svc_ReleaseMutex h s = Some (s', r) \<Longrightarrow> svc_run s s'"
  "svc_ReleaseSemaphore h n s = Some (s', r') \<Longrightarrow> svc_run s s'"
  "svc_SignalEvent h s = Some (s', r) \<Longrightarrow> svc_run s s'"
  "svc_ClearEvent h s = Some (s', r) \<Longrightarrow> svc_run s s'"
  "svc_SetTimer h initial interval s = Some (s', r) \<Longrightarrow> svc_run s s'"
  "svc_CancelTimer h s = Some (s', r) \<Longrightarrow> svc_run s s'"
  "svc_ClearTimer h s = Some (s', r) \<Longrightarrow> svc_run s s'"
  by (auto simp: svc_ReleaseMutex_def svc_ReleaseSemaphore_def svc_SignalEvent_def svc_ClearEvent_def svc_SetTimer_def
      svc_CancelTimer_def svc_ClearTimer_def bind_eq_Some_conv split: option.splits if_splits
      intro!: svc_run_krn intro: kernel_step.intros)

lemma svc_SetThreadPriority_run:
  "svc_SetThreadPriority h p s = Some (s', r) \<Longrightarrow> svc_run s s'"
  by (auto simp: svc_SetThreadPriority_def ThreadPrioLowest_def bind_eq_Some_conv split: option.splits if_splits
      intro!: svc_run_krn kernel_step.set_priority dest: get_thread_is_thread)

lemma waiting_calls_run:
  assumes "executes (krn s) t"
  shows "svc_SleepThread ns s = Some s' \<Longrightarrow> svc_run s s'"
    "arbitrate_by_handle rd wr h address ty v ns s = Some (s', r) \<Longrightarrow> svc_run s s'"
    "wait_one_by_handle h ns s = Some (s', r) \<Longrightarrow> svc_run s s'"
    "(wait_all \<Longrightarrow> \<forall>obs. lookup_objects (get_wait s) (handles_at rd (memory (krn s)) addr (nat n)) = Some obs \<longrightarrow> distinct obs) \<Longrightarrow>
      wait_many_by_handle rd valid addr n wait_all ns s = Some (s', r, out) \<Longrightarrow> svc_run s s'"
  by (auto simp: svc_SleepThread_def arbitrate_by_handle_def wait_one_by_handle_def wait_many_by_handle_def bind_eq_Some_conv
      intro!: svc_run_krn intro: kernel_step.sleep [OF assms] kernel_step.arbitrate [OF assms] kernel_step.wait_one [OF assms]
        kernel_step.wait_many [OF assms])

lemma svc_DuplicateHandle_run: "svc_DuplicateHandle h s = (s', r) \<Longrightarrow> svc_run s s'"
proof -
  assume d: "svc_DuplicateHandle h s = (s', r)"
  let ?g = "GetGeneric (map_option OWait (running_thread (krn s))) (Some (OProcess (current_process s))) (current_table s) h"
  show ?thesis
  proof (cases ?g)
    case None
    with d have "s' = s\<lparr>handle_tables := (handle_tables s)(current_process s := current_table s)\<rparr>"
      by (simp add: svc_DuplicateHandle_def handle_duplicate_def)
    with svc_run_table [of s "current_table s"] show ?thesis by simp
  next
    case (Some obj)
    with d have "add_handle obj s = (s', r)"
      by (simp add: svc_DuplicateHandle_def handle_duplicate_def add_handle_def)
    then show ?thesis by (rule add_handle_run)
  qed
qed

lemma svc_CloseHandle_run: "svc_CloseHandle last_reference h s = Some (s', r) \<Longrightarrow> svc_run s s'"
proof -
  assume c: "svc_CloseHandle last_reference h s = Some (s', r)"
  obtain ht r1 where ht: "handle_close (current_table s) h = (ht, r1)"
    by force
  let ?s = "s\<lparr>handle_tables := (handle_tables s)(current_process s := ht)\<rparr>"
  have "svc_run s ?s"
    by (rule svc_run_table) (rule handle_close_inv [OF _ ht])
  moreover from c ht have "s' = ?s \<or> (\<exists>obj. destroy obj ?s = Some s')"
    by (auto simp: svc_CloseHandle_def Let_def bind_eq_Some_conv split: option.splits if_splits)
  ultimately show ?thesis
    using destroy_run svc_run_trans by blast
qed

lemma other_calls_run:
  "svc_OpenThread h tid s = (s', r) \<Longrightarrow> svc_run s s'"
  "svc_GetResourceLimit h s = (s', r) \<Longrightarrow> svc_run s s'"
  "svc_SetResourceLimitLimitValues Read32 Read64 h names vals n s = Some (s', r') \<Longrightarrow> svc_run s s'"
  by (auto simp: svc_OpenThread_def svc_GetResourceLimit_def svc_SetResourceLimitLimitValues_def split: if_splits option.splits
      intro: add_handle_run dest: with_limit_run(1))

lemma get_values_run: "get_values get check rd wr vals h names n s = Some (s', r) \<Longrightarrow> svc_run s s'"
  by (auto simp: get_values_def on_krn_def bind_eq_Some_conv split: option.splits if_splits
      intro!: svc_run_krn kernel_step.guest_memory)

lemma svc_step_run: "svc_step s s' \<Longrightarrow> svc_run s s'"
  by (erule svc_stepE)
    (blast intro: svc_CreateThread_run svc_ExitThread_run svc_SetThreadPriority_run waiting_calls_run other_calls_run
      svc_CreateMutex_run object_calls_run svc_CreateSemaphore_run made_objects_run svc_CreateAddressArbiter_run
      svc_DuplicateHandle_run svc_CloseHandle_run get_values_run)+

text \<open>Every state of the system has a reachable kernel and well-formed handle tables.\<close>

lemma reachable_run: "kernel_step\<^sup>*\<^sup>* k k' \<Longrightarrow> reachable k \<Longrightarrow> reachable k'"
  by (induction rule: rtranclp_induct) (auto intro: reachable.step)

lemma system_reachable_inv: "system_reachable s \<Longrightarrow> reachable (krn s) \<and> tables_inv s"
proof (induction rule: system_reachable.induct)
  case (start n tm limits m p ps)
  with reachable.start [OF start] show ?case
    by (simp add: new_system_def tables_inv_def handle_table_inv_new)
next
  case (step s s')
  from step.hyps(2) show ?case
  proof cases
    case call
    with svc_step_run step.IH reachable_run show ?thesis
      by (simp add: svc_run_def) blast
  next
    case (device k)
    with step.IH reachable.step [OF _ device(2)] show ?thesis
      by (simp add: tables_inv_def)
  next
    case switch
    with step.IH show ?thesis
      by (simp add: tables_inv_def)
  qed
qed

end
