(* ===== verification/Svc_Props.thy ===== *)
theory Svc_Props
  imports Svc_Steps Kernel_Props
begin

text \<open>
  What the system calls promise to a process: the contract that the calls creating an object share,
  the outcomes of the calls on threads, and objects used by handle.
\<close>

section \<open>Handles\<close>

lemma get_object_map:
  "get_object s h =
     (if h = CurrentThread then map_option OWait (running_thread (krn s))
      else if h = CurrentProcess then Some (OProcess (current_process s))
      else handle_map (current_table s) h)"
  by (simp add: get_object_def GetGeneric_def handle_map_def)

lemma get_object_cong:
  "running_thread (krn s') = running_thread (krn s) \<Longrightarrow> current_process s' = current_process s \<Longrightarrow>
   handle_tables s' = handle_tables s \<Longrightarrow> get_object s' = get_object s"
  by (simp add: fun_eq_iff get_object_map current_table_def)

text \<open>The table has no free slot.\<close>

definition table_full :: "'o handle_table \<Rightarrow> bool" where
  "table_full ht \<longleftrightarrow> (\<forall>i < MAX_COUNT. objects ht ! i \<noteq> None)"

lemma handle_create_not_full:
  assumes "handle_table_inv ht" "\<not> table_full ht"
  obtains ht' h where "handle_create ht obj = (ht', Inr h)" "handle_map ht h = None"
    "handle_map ht' = (handle_map ht)(h \<mapsto> obj, alias_handle h \<mapsto> obj)" "handle_map ht (alias_handle h) = None"
    "h \<noteq> CurrentThread" "h \<noteq> CurrentProcess"
proof -
  have "\<nexists>e. snd (handle_create ht obj) = Inl e"
    using handle_create_full [OF assms(1), of obj] assms(2) by (simp add: table_full_def)
  then obtain ht' h where c: "handle_create ht obj = (ht', Inr h)"
    by (cases "handle_create ht obj"; cases "snd (handle_create ht obj)") auto
  have b: "\<not> bit h 31"
  proof (rule handle_create_cases [OF assms(1) c])
    fix i assume "i < MAX_COUNT" "h = make_handle (next_generation ht) (of_nat i)"
    moreover from this have "unat (of_nat i :: u16) = i"
      by (simp add: unat_of_nat MAX_COUNT_def)
    ultimately show ?thesis
      using make_handle_not_bit_31 [of "of_nat i" "next_generation ht"] by simp
  qed
  have "bit CurrentThread 31" "bit CurrentProcess 31"
    by (simp_all add: CurrentThread_def CurrentProcess_def)
  then have ne: "h \<noteq> CurrentThread" "h \<noteq> CurrentProcess"
    using b by auto
  have "GetSlot (alias_handle h) = GetSlot h \<and> GetGeneration (alias_handle h) = GetGeneration h"
    using same_slot_generation_iff [of "alias_handle h" h] agree_below_31_iff [OF b, of "alias_handle h"] by simp
  then have "handle_map ht (alias_handle h) = handle_map ht h"
    by (simp add: handle_map_def IsValid_def)
  with that [OF c handle_create_fresh [OF assms(1) c] handle_create_map [OF assms(1) c] _ ne]
    handle_create_fresh [OF assms(1) c] show thesis
    by simp
qed

lemma handle_create_table_full:
  assumes "handle_table_inv ht" "table_full ht"
  shows "handle_create ht obj = (ht, Inl ResultOutOfHandles)"
  using handle_create_full [OF assms(1), of obj] assms(2)
  by (auto simp: table_full_def handle_create_def Let_def split: if_splits)

section \<open>Counting\<close>

definition used :: "ResourceLimitType \<Rightarrow> 'm system \<Rightarrow> int" where
  "used ty s = m_current_values (resource_limits (krn s) ! current_limit s) ! type_index ty"

text \<open>The current process has a resource limit with room in its \<open>s32\<close> counters.\<close>

definition can_count :: "ResourceLimitType \<Rightarrow> 'm system \<Rightarrow> bool" where
  "can_count ty s \<longleftrightarrow> current_limit s < length (resource_limits (krn s)) \<and>
     limit_wf (resource_limits (krn s) ! current_limit s) \<and> in_s32 (used ty s) \<and> in_s32 (used ty s + 1)"

text \<open>Two systems that agree on what counting looks at.\<close>

definition same_counts :: "'m system \<Rightarrow> 'm system \<Rightarrow> bool" where
  "same_counts s s' \<longleftrightarrow> resource_limits (krn s') = resource_limits (krn s) \<and> process_limit (krn s') = process_limit (krn s) \<and>
     current_process s' = current_process s \<and> handle_tables s' = handle_tables s \<and>
     running_thread (krn s') = running_thread (krn s)"

lemma same_counts_refl [simp]: "same_counts s s"
  by (simp add: same_counts_def)

lemma same_counts_object: "same_counts s s' \<Longrightarrow> get_object s' = get_object s"
  by (rule get_object_cong) (simp_all add: same_counts_def)

lemma reserve_returns:
  assumes "can_count ty s"
  obtains s' where "reserve ty s = Some (s', True)" "\<And>u. used u s' = used u s + (if u = ty then 1 else 0)"
    "current_limit s' = current_limit s" "handle_tables s' = handle_tables s" "current_process s' = current_process s"
    "\<exists>ls. krn s' = (krn s)\<lparr>resource_limits := ls\<rparr>"
    "\<And>s1. same_counts s' s1 \<Longrightarrow> \<exists>s2. release ty (Some (current_limit s)) s1 = Some s2 \<and>
       (\<forall>u. used u s2 = used u s) \<and> get_object s2 = get_object s1"
proof -
  let ?i = "current_limit s"
  let ?r = "resource_limits (krn s) ! ?i"
  have c: "?i < length (resource_limits (krn s))" "limit_wf ?r" "in_s32 (m_current_values ?r ! type_index ty)"
    "in_s32 (m_current_values ?r ! type_index ty + 1)"
    using assms by (simp_all add: can_count_def used_def)
  obtain r where r: "Reserve (type_index ty) 1 ?r = Some (r, True)" "limit_wf r"
    "\<forall>u. m_current_values r ! type_index u = m_current_values ?r ! type_index u + (if u = ty then 1 else 0)"
    "m_limit_values r = m_limit_values ?r" "Release (type_index ty) 1 r = Some (?r, True)"
    using Reserve_Release [OF c(2-4)] by blast
  let ?s = "on_krn (\<lambda>k. k\<lparr>resource_limits := (resource_limits k)[?i := r]\<rparr>) s"
  have cl: "current_limit ?s = ?i"
    by (simp add: on_krn_def current_limit_def)
  show thesis
  proof (rule that [of ?s])
    show "reserve ty s = Some (?s, True)"
      using c(1) r(1) by (simp add: reserve_def with_limit_def)
    show "used u ?s = used u s + (if u = ty then 1 else 0)" for u
      using c(1) r(3) by (simp add: used_def on_krn_def current_limit_def)
    show "\<exists>s2. release ty (Some ?i) s1 = Some s2 \<and> (\<forall>u. used u s2 = used u s) \<and> get_object s2 = get_object s1"
      if s1: "same_counts ?s s1" for s1
    proof -
      let ?s2 = "on_krn (\<lambda>k. k\<lparr>resource_limits := (resource_limits k)[?i := ?r]\<rparr>) s1"
      have "resource_limits (krn s1) ! ?i = r" "?i < length (resource_limits (krn s1))"
        using s1 c(1) by (simp_all add: same_counts_def on_krn_def)
      with r(5) have "release ty (Some ?i) s1 = Some ?s2"
        by (simp add: release_def with_limit_def)
      moreover have "current_limit ?s2 = ?i"
        using s1 by (simp add: same_counts_def on_krn_def current_limit_def)
      with s1 c(1) have "used u ?s2 = used u s" for u
        by (simp add: used_def same_counts_def on_krn_def)
      moreover have "get_object ?s2 = get_object s1"
        by (rule get_object_cong) (simp_all add: on_krn_def)
      ultimately show ?thesis by blast
    qed
  qed (simp_all add: cl, auto simp: on_krn_def)
qed

section \<open>The contract of the creating calls\<close>

text \<open>
  A call has made \<open>obj\<close>: either a new handle names it, next to all earlier ones, and it is counted;
  or the table was full, and neither handles nor counts have changed.
\<close>

definition created :: "kobject \<Rightarrow> ResourceLimitType \<Rightarrow> 'm system \<Rightarrow> 'm system \<Rightarrow> u32 + u32 \<Rightarrow> bool" where
  "created obj ty s s' r \<longleftrightarrow>
     (case r of
        Inr h \<Rightarrow> get_object s h = None \<and> get_object s' h = Some obj \<and>
          (\<forall>x v. get_object s x = Some v \<longrightarrow> get_object s' x = Some v) \<and>
          (\<forall>u. used u s' = used u s + (if u = ty then 1 else 0))
      | Inl e \<Rightarrow> e = ResultOutOfHandles \<and> table_full (current_table s) \<and>
          get_object s' = get_object s \<and> (\<forall>u. used u s' = used u s))"

text \<open>
  An object that is made by \<open>make\<close> without touching counts and handles, and whose destructor gives
  the count back.
\<close>

locale counted_object =
  fixes obj :: kobject and ty :: ResourceLimitType and make :: "'m system \<Rightarrow> 'm system"
  assumes make_same: "same_counts s (make s)"
    and destroy_made: "(\<And>s1. same_counts s s1 \<Longrightarrow> \<exists>s2. release ty (Some (current_limit s)) s1 = Some s2 \<and>
        (\<forall>u. used u s2 = n u) \<and> get_object s2 = get_object s1) \<Longrightarrow>
      \<exists>s'. destroy obj (make s) = Some s' \<and> (\<forall>u. used u s' = n u) \<and> get_object s' = get_object s"
begin

lemma make_facts:
  "handle_tables (make s) = handle_tables s" "current_process (make s) = current_process s"
  "current_limit (make s) = current_limit s" "used u (make s) = used u s" "current_table (make s) = current_table s"
  "running_thread (krn (make s)) = running_thread (krn s)"
  using make_same [of s] by (simp_all add: same_counts_def current_limit_def used_def current_table_def)

lemma creates:
  assumes ht: "handle_table_inv (current_table s)" and c: "can_count ty s"
  shows "\<exists>s' r. do { (s, reserved) \<leftarrow> reserve ty s;
      if \<not> reserved then Some (s, Inl e) else publish obj True (make s) } = Some (s', r) \<and> created obj ty s s' r \<and>
    (\<forall>h. r = Inr h \<longrightarrow> (\<exists>s1 ls. krn s1 = (krn s)\<lparr>resource_limits := ls\<rparr> \<and> krn s' = krn (make s1)))"
proof -
  obtain s1 where s1: "reserve ty s = Some (s1, True)" "\<And>u. used u s1 = used u s + (if u = ty then 1 else 0)"
    "current_limit s1 = current_limit s" "handle_tables s1 = handle_tables s" "current_process s1 = current_process s"
    "\<exists>ls. krn s1 = (krn s)\<lparr>resource_limits := ls\<rparr>"
    "\<And>s2. same_counts s1 s2 \<Longrightarrow> \<exists>s3. release ty (Some (current_limit s)) s2 = Some s3 \<and>
       (\<forall>u. used u s3 = used u s) \<and> get_object s3 = get_object s2"
    by (rule reserve_returns [OF c]) (rule that, assumption+)
  have tab: "current_table s1 = current_table s"
    by (simp add: current_table_def s1(4,5))
  have run1: "running_thread (krn s1) = running_thread (krn s)"
    using s1(6) by auto
  have g1: "get_object s1 = get_object s"
    by (rule get_object_cong [OF run1 s1(5,4)])
  show ?thesis
  proof (cases "table_full (current_table s)")
    case True
    have "(make s1)\<lparr>handle_tables := handle_tables s\<rparr> = make s1"
      using make_facts(1) [of s1] s1(4) by (cases "make s1") simp
    then have a: "add_handle obj (make s1) = (make s1, Inl ResultOutOfHandles)"
      using handle_create_table_full [OF ht True, of obj]
      by (simp add: add_handle_def make_facts tab s1(4,5) current_table_def)
    obtain s2 where "destroy obj (make s1) = Some s2" "\<forall>u. used u s2 = used u s" "get_object s2 = get_object s1"
      using destroy_made [of s1 "\<lambda>u. used u s"] s1(3,7) by auto
    with a s1(1) True g1 show ?thesis
      by (simp add: publish_def created_def)
  next
    case False
    obtain ht' h where h: "handle_create (current_table s) obj = (ht', Inr h)" "handle_map (current_table s) h = None"
      "handle_map ht' = (handle_map (current_table s))(h \<mapsto> obj, alias_handle h \<mapsto> obj)"
      "handle_map (current_table s) (alias_handle h) = None" "h \<noteq> CurrentThread" "h \<noteq> CurrentProcess"
      by (rule handle_create_not_full [OF ht False])
    let ?s = "(make s1)\<lparr>handle_tables := (handle_tables s)(current_process s := ht')\<rparr>"
    have p: "publish obj True (make s1) = Some (?s, Inr h)"
      using h(1) by (simp add: publish_def add_handle_def make_facts tab s1(4,5))
    have f: "current_table ?s = ht'" "running_thread (krn ?s) = running_thread (krn s)" "current_process ?s = current_process s"
      using run1 by (simp_all add: current_table_def make_facts s1(5))
    have "used u ?s = used u s1" for u
      using make_facts(4) [of u s1] by (simp add: used_def current_limit_def)
    then have "created obj ty s ?s (Inr h)"
      using h(2-6) s1(2) by (auto simp: created_def get_object_map f make_facts run1)
    with s1(1) p s1(6) show ?thesis
      by fastforce
  qed
qed

end

text \<open>The objects whose constructors cannot fail, and the semaphore.\<close>

abbreviation own_limit :: "nat \<Rightarrow> 'm system \<Rightarrow> nat \<Rightarrow> nat option" where
  "own_limit ob s \<equiv> (obj_limit s)(ob := Some (current_limit s))"

lemma same_counts_made:
  "same_counts s (s\<lparr>krn := CreateEvent ob reset (krn s), obj_limit := ol\<rparr>)"
  "same_counts s (s\<lparr>krn := CreateTimer ob reset (krn s), obj_limit := ol\<rparr>)"
  "same_counts s (s\<lparr>krn := CreateAddressArbiter ob (krn s), arb_limit := ol\<rparr>)"
  "same_counts s (s\<lparr>krn := set_waiting ob [] (set_object ob w (krn s)), obj_limit := ol\<rparr>)"
  by (simp_all add: same_counts_def CreateEvent_def CreateTimer_def CreateAddressArbiter_def Let_def
      running_thread_def set_waiting_def set_object_def)

interpretation event: counted_object "OWait ob" REvent
    "\<lambda>s. s\<lparr>krn := CreateEvent ob reset (krn s), obj_limit := own_limit ob s\<rparr>" for ob reset
proof
  fix s :: "'m system" and n
  assume r: "\<And>s1. same_counts s s1 \<Longrightarrow> \<exists>s2. release REvent (Some (current_limit s)) s1 = Some s2 \<and>
        (\<forall>u. used u s2 = n u) \<and> get_object s2 = get_object s1"
  let ?s = "s\<lparr>krn := CreateEvent ob reset (krn s), obj_limit := own_limit ob s\<rparr>"
  have c: "same_counts s ?s"
    by (rule same_counts_made)
  from same_counts_object [OF this] show "\<exists>s'. destroy (OWait ob) ?s = Some s' \<and> (\<forall>u. used u s' = n u) \<and> get_object s' = get_object s"
    using r [OF c] by (simp add: destroy_def CreateEvent_def)
qed (rule same_counts_made)

interpretation semaphore: counted_object "OWait ob" RSemaphore
    "\<lambda>s. s\<lparr>krn := set_waiting ob [] (set_object ob (WSemaphore v) (krn s)), obj_limit := own_limit ob s\<rparr>" for ob v
proof
  fix s :: "'m system" and n
  assume r: "\<And>s1. same_counts s s1 \<Longrightarrow> \<exists>s2. release RSemaphore (Some (current_limit s)) s1 = Some s2 \<and>
        (\<forall>u. used u s2 = n u) \<and> get_object s2 = get_object s1"
  let ?s = "s\<lparr>krn := set_waiting ob [] (set_object ob (WSemaphore v) (krn s)), obj_limit := own_limit ob s\<rparr>"
  have c: "same_counts s ?s"
    by (rule same_counts_made)
  from same_counts_object [OF this] show "\<exists>s'. destroy (OWait ob) ?s = Some s' \<and> (\<forall>u. used u s' = n u) \<and> get_object s' = get_object s"
    using r [OF c] by (simp add: destroy_def)
qed (rule same_counts_made)

interpretation mutex: counted_object "OWait ob" RMutex
    "\<lambda>s. s\<lparr>krn := set_waiting ob [] (set_object ob (WMutex v) (krn s)), obj_limit := own_limit ob s\<rparr>" for ob v
proof
  fix s :: "'m system" and n
  assume r: "\<And>s1. same_counts s s1 \<Longrightarrow> \<exists>s2. release RMutex (Some (current_limit s)) s1 = Some s2 \<and>
        (\<forall>u. used u s2 = n u) \<and> get_object s2 = get_object s1"
  let ?s = "s\<lparr>krn := set_waiting ob [] (set_object ob (WMutex v) (krn s)), obj_limit := own_limit ob s\<rparr>"
  have c: "same_counts s ?s"
    by (rule same_counts_made)
  from same_counts_object [OF this] show "\<exists>s'. destroy (OWait ob) ?s = Some s' \<and> (\<forall>u. used u s' = n u) \<and> get_object s' = get_object s"
    using r [OF c] by (simp add: destroy_def)
qed (rule same_counts_made)

interpretation arbiter: counted_object "OArbiter a" RAddressArbiter
    "\<lambda>s. s\<lparr>krn := CreateAddressArbiter a (krn s), arb_limit := (arb_limit s)(a := Some (current_limit s))\<rparr>" for a
proof
  fix s :: "'m system" and n
  assume r: "\<And>s1. same_counts s s1 \<Longrightarrow> \<exists>s2. release RAddressArbiter (Some (current_limit s)) s1 = Some s2 \<and>
        (\<forall>u. used u s2 = n u) \<and> get_object s2 = get_object s1"
  let ?s = "s\<lparr>krn := CreateAddressArbiter a (krn s), arb_limit := (arb_limit s)(a := Some (current_limit s))\<rparr>"
  have c: "same_counts s ?s"
    by (rule same_counts_made)
  from same_counts_object [OF this] show "\<exists>s'. destroy (OArbiter a) ?s = Some s' \<and> (\<forall>u. used u s' = n u) \<and> get_object s' = get_object s"
    using r [OF c] by (simp add: destroy_def)
qed (rule same_counts_made)

text \<open>The destructor of a timer also cancels it and takes it out of the callback table.\<close>

interpretation timer: counted_object "OWait ob" RTimer
    "\<lambda>s. s\<lparr>krn := CreateTimer ob reset (krn s), obj_limit := own_limit ob s\<rparr>" for ob reset
proof
  fix s :: "'m system" and n
  assume r: "\<And>s1. same_counts s s1 \<Longrightarrow> \<exists>s2. release RTimer (Some (current_limit s)) s1 = Some s2 \<and>
        (\<forall>u. used u s2 = n u) \<and> get_object s2 = get_object s1"
  let ?s = "s\<lparr>krn := CreateTimer ob reset (krn s), obj_limit := own_limit ob s\<rparr>"
  let ?id = "next_timer_callback_id (krn s) + 1"
  let ?k = "(krn ?s)\<lparr>timing := UnscheduleEvent TimerFired ?id (timing (krn ?s)),
      timer_callback_table := (timer_callback_table (krn ?s))(?id := None)\<rparr>"
  have w: "wait_objs (krn ?s) ob = WTimer \<lparr>timer_reset = reset, timer_signaled = False, initial_delay = 0,
      interval_delay = 0, callback_id = ?id\<rparr>"
    by (simp add: CreateTimer_def Let_def)
  have "running_thread (k\<lparr>timing := UnscheduleEvent TimerFired ?id (timing k), timer_callback_table := tab\<rparr>) = running_thread k"
    for k :: "'m kernel" and tab
    by (simp add: UnscheduleEvent_def running_thread_def)
  with same_counts_made(2) [where s = s and ob = ob and reset = reset and ol = "own_limit ob s"]
  have c: "same_counts s (?s\<lparr>krn := ?k\<rparr>)"
    by (simp add: same_counts_def)
  then have "get_object (?s\<lparr>krn := ?k\<rparr>) = get_object s"
    by (rule same_counts_object)
  moreover have "destroy (OWait ob) ?s = release RTimer (Some (current_limit s)) (?s\<lparr>krn := ?k\<rparr>)"
    using w by (simp add: destroy_def timer_Cancel_def)
  ultimately show "\<exists>s'. destroy (OWait ob) ?s = Some s' \<and> (\<forall>u. used u s' = n u) \<and> get_object s' = get_object s"
    using r [OF c] by simp
qed (rule same_counts_made)

section \<open>Properties\<close>

lemma svc_CreateEvent_creates:
  assumes "handle_table_inv (current_table s)" "can_count REvent s"
  shows "\<exists>s' r. svc_CreateEvent ob reset s = Some (s', r) \<and> created (OWait ob) REvent s s' r \<and>
    (\<forall>h. r = Inr h \<longrightarrow> wait_objs (krn s') ob = WEvent \<lparr>event_reset = reset_of reset, event_signaled = False\<rparr>)"
proof -
  from event.creates [where ob = ob and reset = "reset_of reset" and e = "out_of 15", OF assms]
  obtain s' r where run: "svc_CreateEvent ob reset s = Some (s', r)" "created (OWait ob) REvent s s' r"
    and kr: "\<forall>h. r = Inr h \<longrightarrow> (\<exists>(s1 :: 'a system) ls. krn s1 = (krn s)\<lparr>resource_limits := ls\<rparr> \<and>
      krn s' = krn (s1\<lparr>krn := CreateEvent ob (reset_of reset) (krn s1), obj_limit := own_limit ob s1\<rparr>))"
    unfolding svc_CreateEvent_def by blast
  have "wait_objs (krn s') ob = WEvent \<lparr>event_reset = reset_of reset, event_signaled = False\<rparr>" if "r = Inr h" for h
    using kr that by (auto simp: CreateEvent_def)
  with run show ?thesis by blast
qed

lemma svc_CreateTimer_creates:
  assumes "handle_table_inv (current_table s)" "can_count RTimer s"
  shows "\<exists>s' r. svc_CreateTimer ob reset s = Some (s', r) \<and> created (OWait ob) RTimer s s' r"
proof -
  from timer.creates [where ob = ob and reset = "reset_of reset" and e = "out_of 16", OF assms]
  show ?thesis unfolding svc_CreateTimer_def by blast
qed

lemma svc_CreateAddressArbiter_creates:
  assumes "handle_table_inv (current_table s)" "can_count RAddressArbiter s"
  shows "\<exists>s' r. svc_CreateAddressArbiter a s = Some (s', r) \<and> created (OArbiter a) RAddressArbiter s s' r"
proof -
  from arbiter.creates [where a = a and e = "out_of 51", OF assms]
  show ?thesis unfolding svc_CreateAddressArbiter_def by blast
qed

lemma svc_CreateMutex_creates:
  assumes "handle_table_inv (current_table s)" "can_count RMutex s"
  shows "\<exists>s' r. svc_CreateMutex ob garbage 0 s = Some (s', r) \<and> created (OWait ob) RMutex s s' r"
proof -
  let ?v = "\<lparr>lock_count = 0, mutex_priority = garbage, holding_thread = None\<rparr>"
  have eq: "svc_CreateMutex ob garbage 0 s =
      do { (s, reserved) \<leftarrow> reserve RMutex s; if \<not> reserved then Some (s, Inl (out_of 13))
           else publish (OWait ob) True (s\<lparr>krn := set_waiting ob [] (set_object ob (WMutex ?v) (krn s)), obj_limit := own_limit ob s\<rparr>) }"
    by (cases "reserve RMutex s") (auto simp: svc_CreateMutex_def CreateMutex_def)
  from mutex.creates [where ob = ob and v = ?v and e = "out_of 13", OF assms]
  show ?thesis unfolding eq by blast
qed

lemma svc_CreateSemaphore_creates:
  assumes "handle_table_inv (current_table s)" "can_count RSemaphore s" "initial \<le> maximum"
  shows "\<exists>s' r. svc_CreateSemaphore ob initial maximum s = Some (s', r) \<and> created (OWait ob) RSemaphore s s' r \<and>
    (\<forall>h. r = Inr h \<longrightarrow> wait_objs (krn s') ob = WSemaphore \<lparr>max_count = maximum, available_count = initial\<rparr>)"
proof -
  let ?v = "\<lparr>max_count = maximum, available_count = initial\<rparr>"
  have eq: "svc_CreateSemaphore ob initial maximum s =
      do { (s, reserved) \<leftarrow> reserve RSemaphore s; if \<not> reserved then Some (s, Inl (out_of 14))
           else publish (OWait ob) True (s\<lparr>krn := set_waiting ob [] (set_object ob (WSemaphore ?v) (krn s)), obj_limit := own_limit ob s\<rparr>) }"
    using assms(3) by (cases "reserve RSemaphore s") (auto simp: svc_CreateSemaphore_def CreateSemaphore_def)
  from semaphore.creates [where ob = ob and v = ?v and e = "out_of 14", OF assms(1,2)]
  obtain s' r where run: "svc_CreateSemaphore ob initial maximum s = Some (s', r)" "created (OWait ob) RSemaphore s s' r"
    and kr: "\<forall>h. r = Inr h \<longrightarrow> (\<exists>(s1 :: 'a system) ls. krn s1 = (krn s)\<lparr>resource_limits := ls\<rparr> \<and>
      krn s' = krn (s1\<lparr>krn := set_waiting ob [] (set_object ob (WSemaphore ?v) (krn s1)), obj_limit := own_limit ob s1\<rparr>))"
    unfolding eq by blast
  have "wait_objs (krn s') ob = WSemaphore ?v" if "r = Inr h" for h
    using kr that by auto
  with run show ?thesis by blast
qed

text \<open>A system whose kernel has just started and whose process 0 counts against the applications' limit.\<close>

definition demo_system :: "unit system" where
  "demo_system = new_system 2 (new_timing 2 id 0) (ResourceLimitList False 0) () 0
     (\<lambda>_. \<lparr>ideal_processor = 0, no_thread_restrictions = False\<rparr>)"

lemma can_count_new:
  assumes "resource_limits (krn s) = ResourceLimitList False 0" "process_limit (krn s) = (\<lambda>_. 0)"
  shows "can_count ty s" "used ty s = 0"
proof -
  have i: "current_limit s = 0"
    by (simp add: current_limit_def assms)
  have w: "limit_wf (application_limits 0)"
    by (rule limits_defs_wf)
  have "m_current_values (application_limits 0) = replicate 10 0"
    by (simp add: application_limits_def set_limits_keeps Create_def)
  then have u: "used ty s = 0"
    using type_index_lt [of ty] by (simp add: used_def assms i ResourceLimitList_def del: replicate.simps)
  with w show "can_count ty s" "used ty s = 0"
    by (simp_all add: can_count_def assms i ResourceLimitList_def in_s32_def)
qed

lemma demo_system_facts:
  "handle_tables demo_system = (\<lambda>_. new_handle_table)" "current_table demo_system = new_handle_table"
  "can_count ty demo_system" "used ty demo_system = 0" "system_reachable demo_system"
proof -
  have "resource_limits (krn demo_system) = ResourceLimitList False 0" "process_limit (krn demo_system) = (\<lambda>_. 0)"
    by (simp_all add: demo_system_def new_system_def new_kernel_def)
  then show "can_count ty demo_system" "used ty demo_system = 0"
    by (rule can_count_new)+
  show "handle_tables demo_system = (\<lambda>_. new_handle_table)" "current_table demo_system = new_handle_table"
    by (simp_all add: demo_system_def new_system_def current_table_def)
  show "system_reachable demo_system"
    unfolding demo_system_def
    by (rule system_reachable.start) (simp_all add: length_timers_new_timing, simp add: new_timing_def UpdateClockSpeed_def)
qed

lemma new_table_not_full: "\<not> table_full new_handle_table"
  by (simp add: table_full_def new_handle_table_def Clear_def MAX_COUNT_def) (rule exI [of _ 0], simp)



section \<open>Refinement\<close>

text \<open>C3: a system call is, for the kernel, a sequence of kernel steps; it keeps the handle tables
  well-formed and touches the table of no process but the caller's.\<close>

theorem svc_step_refines:
  assumes "svc_step s s'"
  shows "kernel_step\<^sup>*\<^sup>* (krn s) (krn s') \<and> (tables_inv s \<longrightarrow> tables_inv s') \<and>
    (\<forall>p. p \<noteq> current_process s \<longrightarrow> handle_tables s' p = handle_tables s p)"
  using svc_step_run [OF assms] by (simp add: svc_run_def)

text \<open>A running thread in a process that counts against the applications' limit and has handles for
  the objects of \<open>ht\<close>.\<close>

definition demo_process :: "kobject handle_table \<Rightarrow> unit kernel \<Rightarrow> unit system" where
  "demo_process ht k =
     \<lparr>krn = k\<lparr>resource_limits := ResourceLimitList False 0, process_limit := (\<lambda>_. 0)\<rparr>,
      handle_tables = (\<lambda>_. ht), current_process = 0,
      processes = (\<lambda>_. \<lparr>ideal_processor = 0, no_thread_restrictions = False\<rparr>),
      obj_limit = (\<lambda>_. None), arb_limit = (\<lambda>_. None)\<rparr>"

lemma demo_process_fields:
  "handle_tables (demo_process ht k) = (\<lambda>_. ht)" "current_table (demo_process ht k) = ht"
  "wait_objs (krn (demo_process ht k)) = wait_objs k" "threads (krn (demo_process ht k)) = threads k"
  "waiting_threads (krn (demo_process ht k)) = waiting_threads k" "can_count ty (demo_process ht k)" "used ty (demo_process ht k) = 0"
  "executes (krn (demo_process ht k)) t = executes k t" "running_thread (krn (demo_process ht k)) = running_thread k"
  "kernel_inv k \<Longrightarrow> kernel_inv (krn (demo_process ht k))" "reachable k \<Longrightarrow> reachable (krn (demo_process ht k))"
  "max_priority (demo_process ht k) = Some 24"
proof -
  have eq: "krn (demo_process ht k) = k\<lparr>tls_slots := tls_slots k, process_limit := (\<lambda>_. 0), resource_limits := ResourceLimitList False 0\<rparr>"
    by (simp add: demo_process_def)
  show "kernel_inv k \<Longrightarrow> kernel_inv (krn (demo_process ht k))"
    unfolding eq by (rule step_okD(1) [OF process_data_step_ok])
  show "reachable k \<Longrightarrow> reachable (krn (demo_process ht k))"
    unfolding eq by (rule reachable.step [OF _ kernel_step.process_data])
  show "can_count ty (demo_process ht k)" "used ty (demo_process ht k) = 0"
    by (rule can_count_new; simp add: demo_process_def)+
  show "max_priority (demo_process ht k) = Some 24"
    by (simp add: max_priority_def current_limit_def demo_process_def ResourceLimitList_def GetLimitValue_def
        application_limits_def set_limits_def Create_def SetLimitValue_def)
qed (simp_all add: demo_process_def current_table_def executes_def running_thread_def)

lemma svc_step_refines_witness:
  "\<exists>k s'. demo_running = Some k \<and> svc_step (demo_process new_handle_table k) s' \<and>
     kernel_step\<^sup>*\<^sup>* (krn (demo_process new_handle_table k)) (krn s') \<and> used REvent s' = 1"
proof -
  obtain k where k: "demo_running = Some k" "executes k 1" "is_thread k = (\<lambda>t. t = 1)"
    "wait_objects (threads k 1) = []" "held_mutexes (threads k 1) = []"
    by (rule demo_running_spec) blast
  let ?s = "demo_process new_handle_table k"
  have ht: "handle_table_inv (current_table ?s)"
    by (simp add: demo_process_fields handle_table_inv_new)
  have f: "fresh (krn ?s) 3"
    using k(3-5) by (simp add: fresh_def is_thread_def fun_eq_iff demo_process_fields)
  from svc_CreateEvent_creates [OF ht demo_process_fields(6), of 3 0] obtain s' r where
    c: "svc_CreateEvent 3 0 ?s = Some (s', r)" "created (OWait 3) REvent ?s s' r"
    by blast
  have "executes (krn ?s) 1"
    using k(2) by (simp add: demo_process_fields)
  from svc_step.CreateEvent [OF this f c(1)] have st: "svc_step ?s s'" .
  moreover obtain h where "r = Inr h"
    using c(2) new_table_not_full by (cases r) (auto simp: created_def demo_process_fields)
  with c(2) have "used REvent s' = 1"
    by (simp add: created_def demo_process_fields)
  ultimately show ?thesis
    using k(1) svc_step_refines [OF st] by blast
qed


lemma system_of_reachable:
  "reachable k \<Longrightarrow> \<exists>s. system_reachable s \<and> krn s = k \<and> handle_tables s = (\<lambda>_. new_handle_table)"
proof (induction rule: reachable.induct)
  case (start n tm limits m)
  from system_reachable.start [OF this] show ?case
    by (intro exI conjI) (assumption, simp_all add: new_system_def)
next
  case (step k k')
  then obtain s where s: "system_reachable s" "krn s = k" "handle_tables s = (\<lambda>_. new_handle_table)"
    by blast
  have "system_step s (s\<lparr>krn := k'\<rparr>)"
    by (rule system_step.device) (use step.hyps(2) s(2) in simp)
  from system_reachable.step [OF s(1) this] s(3) show ?case
    by (intro exI [of _ "s\<lparr>krn := k'\<rparr>"]) simp
qed


section \<open>Priorities by handle\<close>

text \<open>\<open>SetThreadPriority\<close> refuses a priority out of range, then an unknown handle, then a priority
  above what the process may use, each time changing nothing; else it always succeeds, gives the
  thread the new priority, and changes no other thread's own priority and no thread's status.\<close>

lemma svc_SetThreadPriority_cases:
  assumes inv: "kernel_inv (krn s)" and mp: "max_priority s = Some mp"
  shows "\<exists>s' r. svc_SetThreadPriority h p s = Some (s', r) \<and>
    r = (if 63 < unat p then ResultOutOfRange else if get_thread s h = None then ResultInvalidHandle
         else if unat p < mp then ResultNotAuthorized else ResultSuccess) \<and>
    (r \<noteq> ResultSuccess \<longrightarrow> s' = s) \<and>
    (r = ResultSuccess \<longrightarrow> (\<exists>t. get_thread s h = Some t \<and> kernel_inv (krn s') \<and> handle_tables s' = handle_tables s \<and>
       (\<forall>u. nominal_priority (threads (krn s') u) = (if u = t then unat p else nominal_priority (threads (krn s) u)) \<and>
            status (threads (krn s') u) = status (threads (krn s) u))))"
proof -
  have codes: "ResultOutOfRange \<noteq> ResultSuccess" "ResultInvalidHandle \<noteq> ResultSuccess" "ResultNotAuthorized \<noteq> ResultSuccess"
    by (simp_all add: ResultOutOfRange_def ResultInvalidHandle_def ResultNotAuthorized_def ResultSuccess_def mk_result_def FormatValue_def mask_numeral)
  show ?thesis
  proof (cases "63 < unat p \<or> get_thread s h = None \<or> unat p < mp")
    case True
    with mp codes show ?thesis
      by (auto simp: svc_SetThreadPriority_def ThreadPrioLowest_def split: option.split)
  next
    case False
    then obtain t where t: "get_thread s h = Some t" "unat p < 64"
      by force
    obtain k where k: "set_thread_priority t (unat p) (krn s) = Some k" "step_ok (krn s) k"
      "\<And>u. nominal_priority (threads k u) = (if u = t then unat p else nominal_priority (threads (krn s) u))"
      "\<And>u. status (threads k u) = status (threads (krn s) u)"
      by (rule set_thread_priority_step_ok [OF inv get_thread_is_thread [OF t(1)] t(2)]) (rule that, assumption+)
    have "svc_SetThreadPriority h p s = Some (s\<lparr>krn := k\<rparr>, ResultSuccess)"
      using False t mp k(1) by (simp add: svc_SetThreadPriority_def ThreadPrioLowest_def)
    with False t(1) k(3,4) step_okD(1) [OF k(2)] show ?thesis
      by simp
  qed
qed

lemma svc_SetThreadPriority_cases_witness:
  "\<exists>k s'. demo_running = Some k \<and>
     svc_SetThreadPriority CurrentThread 30 (demo_process new_handle_table k) = Some (s', ResultSuccess) \<and>
     nominal_priority (threads (krn s') 1) = 30"
proof -
  obtain k where k: "demo_running = Some k" "reachable k" "executes k 1" "is_thread k = (\<lambda>t. t = 1)"
    by (rule demo_running_spec) blast
  let ?s = "demo_process new_handle_table k"
  have inv: "kernel_inv (krn ?s)"
    by (rule demo_process_fields(10) [OF reachable_inv [OF k(2)]])
  have "wait_objs k 1 = WThread"
    using k(4) by (simp add: is_thread_def fun_eq_iff)
  with k(3) have t: "get_thread ?s CurrentThread = Some 1"
    by (simp add: get_thread_def get_kind_def get_wait_def get_object_map demo_process_fields executes_def)
  from svc_SetThreadPriority_cases [OF inv demo_process_fields(12), of CurrentThread 30] t k(1) show ?thesis
    by (auto simp: ResultSuccess_def)
qed

section \<open>Events and semaphores by handle\<close>

lemma get_wait_same:
  assumes "get_kind P s h = Some ob" "running_thread k = running_thread (krn s)"
  shows "get_wait (s\<lparr>krn := k\<rparr>) h = Some ob"
proof -
  have "get_object (s\<lparr>krn := k\<rparr>) = get_object s"
    by (rule get_object_cong) (simp_all add: assms(2))
  with assms(1) show ?thesis
    by (auto simp: get_kind_def get_wait_def split: option.splits if_splits)
qed

lemma rest_same_running:
  assumes "rest_same k k'"
  shows "running_thread k' = running_thread k"
proof -
  have m: "map manager_rest (managers k') = map manager_rest (managers k)" "timing k' = timing k"
    using assms by (simp_all add: rest_same_def)
  from m(1) have len: "length (managers k') = length (managers k)"
    by (rule map_eq_imp_length_eq)
  have "manager_rest (managers k' ! c) = manager_rest (managers k ! c)" if "c < length (managers k)" for c
    using map_nth_cong [OF m(1)] that len by simp
  then have "current_thread (managers k' ! c) = current_thread (managers k ! c)" if "c < length (managers k)" for c
    using that by (cases "managers k' ! c"; cases "managers k ! c") (fastforce simp: manager_rest_def)
  then show ?thesis
    by (simp add: running_thread_def m(2) len)
qed

text \<open>when nobody waits, a signal of an event by its handle is not lost: the caller's next wait for
  the handle succeeds at once, except that a pulse is gone already and the wait times out; a one-shot
  event is used up by the wait and a sticky one stays signalled.\<close>

lemma signal_then_wait:
  assumes inv: "kernel_inv (krn s)" and run: "running_thread (krn s) = Some t"
    and h: "get_event s h = Some ob" and e: "wait_objs (krn s) ob = WEvent e" and nw: "waiting_threads (krn s) ob = []"
  shows "\<exists>s1 s2. svc_SignalEvent h s = Some (s1, ResultSuccess) \<and>
    wait_one_by_handle h 0 s1 = Some (s2, if event_reset e = Pulse then ResultTimeout else ResultSuccess) \<and>
    wait_objs (krn s2) ob = WEvent (e\<lparr>event_signaled := (event_reset e = Sticky)\<rparr>)"
proof -
  let ?e = "e\<lparr>event_signaled := True\<rparr>"
  obtain k ws where k: "event_Signal ob (krn s) = Some k" "woke_all ob (set_object ob (WEvent ?e) (krn s)) k ws"
    by (rule event_Signal_spec [OF kernel_invD(1) [OF inv] e])
  have ws: "ws = []"
    using k(2) nw by (simp add: woke_all_def)
  have "rest_same (set_object ob (WEvent ?e) (krn s)) k"
    using k(2) by (simp add: woke_all_def woken_def)
  from rest_same_running [OF this] have rk: "running_thread k = running_thread (krn s)"
    by (simp add: running_thread_def)
  have w: "wait_objs k ob = WEvent (e\<lparr>event_signaled := (event_reset e \<noteq> Pulse)\<rparr>)"
    using k(2) ws by (cases e) (auto simp: woke_all_def unpulse_def erase_prio_event erase_prio_def split: if_splits wait_object.splits)
  let ?s1 = "s\<lparr>krn := k\<rparr>"
  have "get_wait ?s1 h = Some ob"
    by (rule get_wait_same [OF h [unfolded get_event_def] rk])
  moreover have "svc_SignalEvent h s = Some (?s1, ResultSuccess)"
    using h k(1) by (simp add: svc_SignalEvent_def)
  ultimately show ?thesis
    using w run rk by (cases "event_reset e") (auto simp: wait_one_by_handle_def WaitSynchronization1_def ShouldWait_def Acquire_def)
qed

text \<open>The running thread with a handle for one object.\<close>

lemma demo_handle:
  obtains ht h where "handle_create new_handle_table (OWait ob) = (ht, Inr h)" "handle_table_inv ht"
    "\<And>k. get_wait (demo_process ht k) h = Some ob"
proof -
  obtain ht h where h: "handle_create new_handle_table (OWait ob) = (ht, Inr h)"
    "handle_map ht = (handle_map new_handle_table)(h \<mapsto> OWait ob, alias_handle h \<mapsto> OWait ob)"
    "h \<noteq> CurrentThread" "h \<noteq> CurrentProcess"
    by (rule handle_create_not_full [OF handle_table_inv_new new_table_not_full, of "OWait ob"]) (rule that, assumption+)
  with that [OF h(1) handle_create_inv [OF handle_table_inv_new h(1)]] show thesis
    by (simp add: get_wait_def get_object_map demo_process_fields)
qed

lemma running_thread_made:
  "running_thread (CreateEvent ob reset k) = running_thread k"
  "running_thread (fst (CreateSemaphore ob initial maximum k)) = running_thread k"
  by (simp_all add: running_thread_def CreateEvent_def CreateSemaphore_def)

lemma signal_then_wait_witness:
  "\<exists>k ht h s1 s2. demo_running = Some k \<and>
     svc_SignalEvent h (demo_process ht (CreateEvent 3 OneShot k)) = Some (s1, ResultSuccess) \<and>
     wait_one_by_handle h 0 s1 = Some (s2, ResultSuccess) \<and>
     wait_objs (krn s2) 3 = WEvent \<lparr>event_reset = OneShot, event_signaled = False\<rparr>"
proof -
  obtain k where k: "demo_running = Some k" "reachable k" "executes k 1" "is_thread k = (\<lambda>t. t = 1)"
    "wait_objects (threads k 1) = []" "held_mutexes (threads k 1) = []"
    by (rule demo_running_spec) blast
  obtain ht h where h: "\<And>k. get_wait (demo_process ht k) h = Some 3"
    by (rule demo_handle [of 3]) (rule that)
  let ?k = "CreateEvent 3 OneShot k"
  let ?s = "demo_process ht ?k"
  let ?e = "\<lparr>event_reset = OneShot, event_signaled = False\<rparr>"
  have "fresh k 3"
    using k(4-6) by (simp add: fresh_def)
  from step_okD(1) [OF new_object_steps(1) [OF reachable_inv [OF k(2)] this]]
  have inv: "kernel_inv (krn ?s)"
    by (rule demo_process_fields(10))
  have e: "wait_objs (krn ?s) 3 = WEvent ?e" "waiting_threads (krn ?s) 3 = []"
    by (simp_all add: demo_process_fields CreateEvent_def)
  have "running_thread (krn ?s) = Some 1"
    using k(3) by (simp add: demo_process_fields executes_def running_thread_made)
  moreover have "get_event ?s h = Some 3"
    using e(1) by (simp add: get_event_def get_kind_def h)
  ultimately obtain s1 s2 where "svc_SignalEvent h ?s = Some (s1, ResultSuccess)"
    "wait_one_by_handle h 0 s1 = Some (s2, ResultSuccess)" "wait_objs (krn s2) 3 = WEvent ?e"
    using signal_then_wait [OF inv _ _ e] by fastforce
  with k(1) show ?thesis by blast
qed

text \<open>Waiting \<open>n\<close> times in a row, each time with success.\<close>

fun waits_succeed :: "u32 \<Rightarrow> nat \<Rightarrow> 'm system \<Rightarrow> 'm system option" where
  "waits_succeed h 0 s = Some s"
| "waits_succeed h (Suc n) s =
     (case wait_one_by_handle h 0 s of
        Some (s', r) \<Rightarrow> if r = ResultSuccess then waits_succeed h n s' else None
      | None \<Rightarrow> None)"

lemma semaphore_waits:
  assumes "get_semaphore s h = Some ob" "wait_objs (krn s) ob = WSemaphore v" "running_thread (krn s) = Some t"
    "available_count v = int n"
  shows "\<exists>s'. waits_succeed h n s = Some s' \<and> wait_objs (krn s') ob = WSemaphore (v\<lparr>available_count := 0\<rparr>) \<and>
    wait_one_by_handle h 0 s' = Some (s', ResultTimeout)"
  using assms
proof (induction n arbitrary: s v)
  case 0
  from get_wait_same [OF 0(1) [unfolded get_semaphore_def], of "krn s"] have "get_wait s h = Some ob"
    by simp
  with 0 show ?case
    by (cases v) (simp add: wait_one_by_handle_def WaitSynchronization1_def ShouldWait_def)
next
  case (Suc n)
  let ?k = "set_object ob (WSemaphore (v\<lparr>available_count := available_count v - 1\<rparr>)) (krn s)"
  let ?s = "s\<lparr>krn := ?k\<rparr>"
  have rk: "running_thread ?k = running_thread (krn s)"
    by (simp add: running_thread_def)
  from get_wait_same [OF Suc.prems(1) [unfolded get_semaphore_def], of "krn s"] have g: "get_wait s h = Some ob"
    by simp
  have "get_wait ?s h = Some ob"
    by (rule get_wait_same [OF Suc.prems(1) [unfolded get_semaphore_def] rk])
  then have "get_semaphore ?s h = Some ob"
    by (simp add: get_semaphore_def get_kind_def)
  then obtain s' where "waits_succeed h n ?s = Some s'"
    "wait_objs (krn s') ob = WSemaphore (v\<lparr>available_count := 0\<rparr>)" "wait_one_by_handle h 0 s' = Some (s', ResultTimeout)"
    using Suc.IH [of ?s "v\<lparr>available_count := available_count v - 1\<rparr>"] Suc.prems(3,4) rk by auto
  moreover have "wait_one_by_handle h 0 s = Some (?s, ResultSuccess)"
    using g Suc.prems(2-4) by (simp add: wait_one_by_handle_def WaitSynchronization1_def ShouldWait_def Acquire_def)
  ultimately show ?case
    by simp
qed

text \<open>a semaphore admits exactly as many waits by handle as it has units; after them it is empty
  and the next wait that does not block times out and changes nothing.\<close>

lemma semaphore_admits:
  assumes "get_semaphore s h = Some ob" "wait_objs (krn s) ob = WSemaphore v" "running_thread (krn s) = Some t"
    "0 \<le> available_count v"
  shows "\<exists>s'. waits_succeed h (nat (available_count v)) s = Some s' \<and>
    wait_objs (krn s') ob = WSemaphore (v\<lparr>available_count := 0\<rparr>) \<and>
    wait_one_by_handle h 0 s' = Some (s', ResultTimeout)"
  using semaphore_waits [OF assms(1-3), of "nat (available_count v)"] assms(4) by simp

lemma semaphore_admits_witness:
  "\<exists>k ht h s'. demo_running = Some k \<and>
     waits_succeed h 3 (demo_process ht (fst (CreateSemaphore 3 3 5 k))) = Some s' \<and>
     wait_one_by_handle h 0 s' = Some (s', ResultTimeout)"
proof -
  obtain k where k: "demo_running = Some k" "executes k 1"
    by (rule demo_running_spec) blast
  obtain ht h where h: "\<And>k. get_wait (demo_process ht k) h = Some 3"
    by (rule demo_handle [of 3]) (rule that)
  let ?s = "demo_process ht (fst (CreateSemaphore 3 3 5 k))"
  let ?v = "\<lparr>max_count = 5, available_count = 3\<rparr>"
  have v: "wait_objs (krn ?s) 3 = WSemaphore ?v"
    by (simp add: demo_process_fields CreateSemaphore_def)
  then have "get_semaphore ?s h = Some 3"
    by (simp add: get_semaphore_def get_kind_def h)
  moreover have "running_thread (krn ?s) = Some 1"
    using k(2) by (simp add: demo_process_fields executes_def running_thread_made)
  ultimately show ?thesis
    using semaphore_admits [OF _ v] k(1) by fastforce
qed

section \<open>Failed calls\<close>

text \<open>C18: a semaphore with more units than its maximum is refused, but its count against the process's
  limit stays; every refused call uses up one more.\<close>

theorem refused_semaphore_counted:
  assumes "can_count RSemaphore s" "maximum < initial"
  shows "\<exists>s'. svc_CreateSemaphore ob initial maximum s = Some (s', Inl ResultInvalidCombinationKernel) \<and>
    get_object s' = get_object s \<and> used RSemaphore s' = used RSemaphore s + 1"
proof -
  obtain s1 where s1: "reserve RSemaphore s = Some (s1, True)" "\<And>u. used u s1 = used u s + (if u = RSemaphore then 1 else 0)"
    "handle_tables s1 = handle_tables s" "current_process s1 = current_process s" "\<exists>ls. krn s1 = (krn s)\<lparr>resource_limits := ls\<rparr>"
    by (rule reserve_returns [OF assms(1)]) (rule that, assumption+)
  have "running_thread (krn s1) = running_thread (krn s)"
    using s1(5) by auto
  then have "get_object s1 = get_object s"
    by (rule get_object_cong [OF _ s1(4,3)])
  moreover have "ResultInvalidCombinationKernel \<noteq> ResultSuccess"
    by (simp add: ResultInvalidCombinationKernel_def ResultSuccess_def mk_result_def FormatValue_def mask_numeral)
  ultimately show ?thesis
    using s1(1,2) assms(2) by (simp add: svc_CreateSemaphore_def CreateSemaphore_def)
qed

lemma refused_semaphore_counted_witness:
  "\<exists>s'. svc_CreateSemaphore 7 3 2 demo_system = Some (s', Inl ResultInvalidCombinationKernel) \<and> used RSemaphore s' = 1"
  using refused_semaphore_counted [of demo_system 2 3 7] by (auto simp: demo_system_facts)

end
