(* ===== verification/Guest_Memory.thy ===== *)
theory Guest_Memory
  imports Process_Memory
begin

text \<open>
  The guest's view of memory (\<open>core/memory.cpp\<close>): reads and writes of words and blocks through the
  page table, the pages that the rasterizer caches, and the pages with watchpoints.

  \<^item> Host memory is a function from host addresses to bytes. The buffers of FCRAM and VRAM lie at the
    addresses that the record \<open>bus\<close> gives. A host access past the end of its buffer is not excluded.
  \<^item> The GPU is code outside this component: \<open>bus\<close> holds the effect of its three ways to flush a
    region and of reading and writing its registers, on a state of any type and the host memory.
  \<^item> A value of \<open>n\<close> bytes is the list of its bytes, the lowest first, as the host stores it.
  \<^item> The breakpoints of the debugger, the message for an unmapped access and the host-side mirror of
    the page table are left out; \<open>memcpy\<close> of overlapping blocks, which is undefined, copies as if
    through a buffer.
\<close>

section \<open>State\<close>

datatype FlushMode = Flush | Invalidate | FlushAndInvalidate

record 'r mem =
  host :: "nat \<Rightarrow> u8"
  gpu :: 'r

record 'r bus =
  fcram_ptr :: nat
  vram_ptr :: nat
  plugin_fb_address :: nat
  FlushRegion :: "FlushMode \<Rightarrow> nat \<Rightarrow> nat \<Rightarrow> 'r mem \<Rightarrow> 'r mem"
  ReadReg :: "nat \<Rightarrow> 'r mem \<Rightarrow> u32"
  WriteReg :: "nat \<Rightarrow> u32 \<Rightarrow> 'r mem \<Rightarrow> 'r mem"

text \<open>The page table with the pages that have watchpoints: their count and the page's memory.\<close>

record guest_table = page_table +
  watchpoint_pages :: "nat \<rightharpoonup> nat \<times> memory_ref"

text \<open>The regions of \<open>memory.h\<close> that the rasterizer can cache.\<close>

definition LINEAR_HEAP_VADDR_END :: nat where "LINEAR_HEAP_VADDR_END = 0x1C000000"
definition NEW_LINEAR_HEAP_VADDR_END :: nat where "NEW_LINEAR_HEAP_VADDR_END = 0x40000000"
definition VRAM_VADDR :: nat where "VRAM_VADDR = 0x1F000000"
definition VRAM_VADDR_END :: nat where "VRAM_VADDR_END = 0x1F600000"
definition PLUGIN_3GX_FB_VADDR :: nat where "PLUGIN_3GX_FB_VADDR = 0x06000000"
definition PLUGIN_3GX_FB_VADDR_END :: nat where "PLUGIN_3GX_FB_VADDR_END = 0x060A9000"
definition VRAM_PADDR :: nat where "VRAM_PADDR = 0x18000000"
definition VRAM_SIZE :: nat where "VRAM_SIZE = 0x00600000"
definition FCRAM_PADDR :: nat where "FCRAM_PADDR = 0x20000000"

lemmas region_defs =
  LINEAR_HEAP_VADDR_def LINEAR_HEAP_VADDR_END_def NEW_LINEAR_HEAP_VADDR_def NEW_LINEAR_HEAP_VADDR_END_def
  VRAM_VADDR_def VRAM_VADDR_END_def PLUGIN_3GX_FB_VADDR_def PLUGIN_3GX_FB_VADDR_END_def VRAM_PADDR_def
  VRAM_SIZE_def FCRAM_PADDR_def FCRAM_N3DS_SIZE_def

section \<open>Bytes\<close>

definition read_bytes :: "(nat \<Rightarrow> u8) \<Rightarrow> nat \<Rightarrow> nat \<Rightarrow> u8 list" where
  "read_bytes h p n = map (\<lambda>i. h (p + i)) [0..<n]"

definition write_bytes :: "nat \<Rightarrow> u8 list \<Rightarrow> (nat \<Rightarrow> u8) \<Rightarrow> (nat \<Rightarrow> u8)" where
  "write_bytes p bs h = (\<lambda>a. if p \<le> a \<and> a < p + length bs then bs ! (a - p) else h a)"

definition store :: "nat \<Rightarrow> u8 list \<Rightarrow> 'r mem \<Rightarrow> 'r mem" where
  "store p bs m = m\<lparr>host := write_bytes p bs (host m)\<rparr>"

text \<open>The conversion of a register value to a type of \<open>n\<close> bytes, and back.\<close>

definition word_bytes :: "nat \<Rightarrow> u32 \<Rightarrow> u8 list" where
  "word_bytes n v = map (\<lambda>i. ucast (drop_bit (8 * i) v)) [0..<n]"

fun bytes_word :: "u8 list \<Rightarrow> u32" where
  "bytes_word [] = 0"
| "bytes_word (b # bs) = ucast b OR push_bit 8 (bytes_word bs)"

section \<open>The rasterizer's regions\<close>

definition mem_at :: "nat \<Rightarrow> nat \<Rightarrow> nat \<Rightarrow> memory_ref option" where
  "mem_at p len off = do { assertion (off \<le> len); Some \<lparr>ref_ptr = p + off, ref_size = len - off\<rparr> }"

definition GetPointerForRasterizerCache :: "'r bus \<Rightarrow> nat \<Rightarrow> memory_ref option" where
  "GetPointerForRasterizerCache b addr =
     (if LINEAR_HEAP_VADDR \<le> addr \<and> addr < LINEAR_HEAP_VADDR_END
      then mem_at (fcram_ptr b) FCRAM_N3DS_SIZE (addr - LINEAR_HEAP_VADDR)
      else if NEW_LINEAR_HEAP_VADDR \<le> addr \<and> addr < NEW_LINEAR_HEAP_VADDR_END
      then mem_at (fcram_ptr b) FCRAM_N3DS_SIZE (addr - NEW_LINEAR_HEAP_VADDR)
      else if VRAM_VADDR \<le> addr \<and> addr < VRAM_VADDR_END
      then mem_at (vram_ptr b) VRAM_SIZE (addr - VRAM_VADDR)
      else if PLUGIN_3GX_FB_VADDR \<le> addr \<and> addr < PLUGIN_3GX_FB_VADDR_END \<and> plugin_fb_address b \<noteq> 0
      then mem_at (fcram_ptr b) FCRAM_N3DS_SIZE (sub32 (add32 (addr - PLUGIN_3GX_FB_VADDR) (plugin_fb_address b)) FCRAM_PADDR)
      else None)"

definition check_region :: "'r bus \<Rightarrow> FlushMode \<Rightarrow> nat \<Rightarrow> nat \<Rightarrow> nat \<times> nat \<times> nat \<Rightarrow> 'r mem \<Rightarrow> 'r mem" where
  "check_region b mode start end_addr region m =
     (let (region_start, region_end, paddr_region_start) = region in
      if start \<ge> region_end \<or> end_addr \<le> region_start then m
      else FlushRegion b mode (paddr_region_start + (max start region_start - region_start))
             (min end_addr region_end - max start region_start) m)"

definition RasterizerFlushVirtualRegion :: "'r bus \<Rightarrow> nat \<Rightarrow> nat \<Rightarrow> FlushMode \<Rightarrow> 'r mem \<Rightarrow> 'r mem" where
  "RasterizerFlushVirtualRegion b start len mode m =
     (let end_addr = add32 start len;
          m = check_region b mode start end_addr (LINEAR_HEAP_VADDR, LINEAR_HEAP_VADDR_END, FCRAM_PADDR) m;
          m = check_region b mode start end_addr (NEW_LINEAR_HEAP_VADDR, NEW_LINEAR_HEAP_VADDR_END, FCRAM_PADDR) m;
          m = check_region b mode start end_addr (VRAM_VADDR, VRAM_VADDR_END, VRAM_PADDR) m
      in if plugin_fb_address b \<noteq> 0
         then check_region b mode start end_addr (PLUGIN_3GX_FB_VADDR, PLUGIN_3GX_FB_VADDR_END, plugin_fb_address b) m
         else m)"

section \<open>Words\<close>

text \<open>
  The alias of physical memory at bit 31: FCRAM, and the registers of the GPU. \<open>Some (Inl p)\<close> is a
  host address, \<open>Some (Inr r)\<close> a register.
\<close>

definition luma_alias :: "'r bus \<Rightarrow> nat \<Rightarrow> (nat + nat) option" where
  "luma_alias b vaddr =
     (if vaddr < 0x80000000 then None
      else
        let paddr = vaddr - 0x80000000 in
        if FCRAM_PADDR \<le> paddr \<and> paddr < 0x30000000 then Some (Inl (fcram_ptr b + (paddr - FCRAM_PADDR)))
        else if IO_AREA_PADDR \<le> paddr \<and> paddr < 0x20000000 then Some (Inr (paddr - IO_AREA_PADDR + 0x1EC00000))
        else None)"

text \<open>
  What the accesses share: the page's memory, after the rasterizer has flushed or dropped its copy.
  The result has no address when the page is not mapped. A page of
  ordinary memory without a pointer stops the program.
\<close>

definition page_memory ::
  "'r bus \<Rightarrow> guest_table \<Rightarrow> FlushMode \<Rightarrow> nat \<Rightarrow> nat \<Rightarrow> 'r mem \<Rightarrow> ('r mem \<times> nat option) option" where
  "page_memory b pt mode vaddr n m =
     (let page = vaddr div CITRA_PAGE_SIZE; off = vaddr mod CITRA_PAGE_SIZE in
      case attributes pt page of
        Unmapped \<Rightarrow> Some (m, None)
      | Memory \<Rightarrow> do {
          assertion (ref_ptr (pointers pt page) \<noteq> 0);
          Some (m, Some (ref_ptr (pointers pt page) + off)) }
      | MemoryWatchpoint \<Rightarrow> do {
          (_, r) \<leftarrow> watchpoint_pages pt page;
          Some (m, Some (ref_ptr r + off)) }
      | _ \<Rightarrow> do {
          let m = RasterizerFlushVirtualRegion b vaddr n mode m;
          r \<leftarrow> GetPointerForRasterizerCache b vaddr;
          Some (m, Some (ref_ptr r)) })"

text \<open>\<open>Read<T>\<close> for a type of \<open>n\<close> bytes; an unmapped address gives no bytes.\<close>

definition Read :: "'r bus \<Rightarrow> guest_table \<Rightarrow> nat \<Rightarrow> nat \<Rightarrow> 'r mem \<Rightarrow> ('r mem \<times> u8 list option) option" where
  "Read b pt n vaddr m =
     (let page = vaddr div CITRA_PAGE_SIZE; off = vaddr mod CITRA_PAGE_SIZE in
      if ref_ptr (pointers pt page) \<noteq> 0
      then Some (m, Some (read_bytes (host m) (ref_ptr (pointers pt page) + off) n))
      else
        case luma_alias b vaddr of
          Some (Inl p) \<Rightarrow> Some (m, Some (read_bytes (host m) p n))
        | Some (Inr r) \<Rightarrow> Some (m, Some (word_bytes n (ReadReg b r m)))
        | None \<Rightarrow> do {
            (m, p) \<leftarrow> page_memory b pt Flush vaddr n m;
            Some (m, map_option (\<lambda>p. read_bytes (host m) p n) p) })"

text \<open>The readers return 0 for an unmapped address, except \<open>Read32OrNullopt\<close>.\<close>

definition Read_value :: "'r bus \<Rightarrow> guest_table \<Rightarrow> nat \<Rightarrow> nat \<Rightarrow> 'r mem \<Rightarrow> ('r mem \<times> u8 list) option" where
  "Read_value b pt n vaddr m = do {
     (m, bs) \<leftarrow> Read b pt n vaddr m;
     Some (m, case bs of Some bs \<Rightarrow> bs | None \<Rightarrow> replicate n 0) }"

definition Read32OrNullopt :: "'r bus \<Rightarrow> guest_table \<Rightarrow> nat \<Rightarrow> 'r mem \<Rightarrow> ('r mem \<times> u32 option) option" where
  "Read32OrNullopt b pt vaddr m = do {
     (m, bs) \<leftarrow> Read b pt 4 vaddr m;
     Some (m, map_option bytes_word bs) }"

text \<open>\<open>Write<T>\<close>.\<close>

definition Write :: "'r bus \<Rightarrow> guest_table \<Rightarrow> nat \<Rightarrow> u8 list \<Rightarrow> 'r mem \<Rightarrow> 'r mem option" where
  "Write b pt vaddr data m =
     (let page = vaddr div CITRA_PAGE_SIZE; off = vaddr mod CITRA_PAGE_SIZE in
      if ref_ptr (pointers pt page) \<noteq> 0
      then Some (store (ref_ptr (pointers pt page) + off) data m)
      else
        case luma_alias b vaddr of
          Some (Inl p) \<Rightarrow> Some (store p data m)
        | Some (Inr r) \<Rightarrow> do { assertion (length data = 4); Some (WriteReg b r (bytes_word data) m) }
        | None \<Rightarrow> do {
            (m, p) \<leftarrow> page_memory b pt Invalidate vaddr (length data) m;
            Some (case p of Some p \<Rightarrow> store p data m | None \<Rightarrow> m) })"

text \<open>
  \<open>WriteExclusive<T>\<close>: the compare-and-swap succeeds when memory still holds \<open>expected\<close>. It has no
  case for the alias at bit 31, and an unmapped store counts as a success.
\<close>

definition swap :: "nat \<Rightarrow> u8 list \<Rightarrow> u8 list \<Rightarrow> 'r mem \<Rightarrow> 'r mem \<times> bool" where
  "swap p data expected m =
     (if read_bytes (host m) p (length data) = expected then (store p data m, True) else (m, False))"

definition WriteExclusive :: "'r bus \<Rightarrow> guest_table \<Rightarrow> nat \<Rightarrow> u8 list \<Rightarrow> u8 list \<Rightarrow> 'r mem \<Rightarrow> ('r mem \<times> bool) option" where
  "WriteExclusive b pt vaddr data expected m =
     (let page = vaddr div CITRA_PAGE_SIZE; off = vaddr mod CITRA_PAGE_SIZE in
      if ref_ptr (pointers pt page) \<noteq> 0
      then Some (swap (ref_ptr (pointers pt page) + off) data expected m)
      else do {
        (m, p) \<leftarrow> page_memory b pt Invalidate vaddr (length data) m;
        Some (case p of Some p \<Rightarrow> swap p data expected m | None \<Rightarrow> (m, True)) })"

definition IsValidVirtualAddress :: "guest_table \<Rightarrow> nat \<Rightarrow> bool" where
  "IsValidVirtualAddress pt vaddr \<longleftrightarrow>
     ref_ptr (pointers pt (vaddr div CITRA_PAGE_SIZE)) \<noteq> 0 \<or> attributes pt (vaddr div CITRA_PAGE_SIZE) \<noteq> Unmapped"

text \<open>\<open>GetPointer\<close>; 0 is the null pointer.\<close>

definition GetPointer :: "'r bus \<Rightarrow> guest_table \<Rightarrow> nat \<Rightarrow> nat option" where
  "GetPointer b pt vaddr =
     (let page = vaddr div CITRA_PAGE_SIZE in
      if ref_ptr (pointers pt page) \<noteq> 0 then Some (ref_ptr (pointers pt page) + vaddr mod CITRA_PAGE_SIZE)
      else if attributes pt page = RasterizerCachedMemory \<or> attributes pt page = RasterizerCachedMemoryWatchpoint
      then map_option ref_ptr (GetPointerForRasterizerCache b vaddr)
      else Some 0)"

text \<open>\<open>ReadCString\<close>; the address counts in 32 bits.\<close>

fun ReadCString :: "'r bus \<Rightarrow> guest_table \<Rightarrow> nat \<Rightarrow> nat \<Rightarrow> 'r mem \<Rightarrow> ('r mem \<times> u8 list) option" where
  "ReadCString b pt vaddr 0 m = Some (m, [])"
| "ReadCString b pt vaddr (Suc max_length) m = do {
     (m, c) \<leftarrow> Read_value b pt 1 vaddr m;
     if c = [0] then Some (m, [])
     else do {
       (m, cs) \<leftarrow> ReadCString b pt (add32 vaddr 1) max_length m;
       Some (m, c @ cs) } }"

section \<open>Blocks\<close>

text \<open>
  The loop of the block functions over the pages of a range. The index of a page past the table is
  undefined behaviour. The offset into a page is below its size on every call.
\<close>

function block_loop :: "(nat \<Rightarrow> nat \<Rightarrow> 's \<Rightarrow> 's option) \<Rightarrow> nat \<Rightarrow> nat \<Rightarrow> nat \<Rightarrow> 's \<Rightarrow> 's option" where
  "block_loop body page_index page_offset remaining_size s =
     (if remaining_size = 0 then Some s
      else if \<not> (page_index < PAGE_TABLE_NUM_ENTRIES \<and> page_offset < CITRA_PAGE_SIZE) then None
      else do {
        let copy_amount = min (CITRA_PAGE_SIZE - page_offset) remaining_size;
        s \<leftarrow> body (page_index * CITRA_PAGE_SIZE + page_offset) copy_amount s;
        block_loop body (page_index + 1) 0 (remaining_size - copy_amount) s })"
  by pat_completeness auto

termination
  by (relation "measure (\<lambda>(_, _, _, n, _). n)") auto

declare block_loop.simps [simp del]

definition over_pages :: "(nat \<Rightarrow> nat \<Rightarrow> 's \<Rightarrow> 's option) \<Rightarrow> nat \<Rightarrow> nat \<Rightarrow> 's \<Rightarrow> 's option" where
  "over_pages body addr len s = block_loop body (addr div CITRA_PAGE_SIZE) (addr mod CITRA_PAGE_SIZE) len s"

definition ReadBlock :: "'r bus \<Rightarrow> guest_table \<Rightarrow> nat \<Rightarrow> nat \<Rightarrow> 'r mem \<Rightarrow> ('r mem \<times> u8 list) option" where
  "ReadBlock b pt src_addr len m =
     over_pages (\<lambda>a n (m, out). do {
         (m, p) \<leftarrow> page_memory b pt Flush a n m;
         Some (m, out @ (case p of Some p \<Rightarrow> read_bytes (host m) p n | None \<Rightarrow> replicate n 0)) })
       src_addr len (m, [])"

definition WriteBlock :: "'r bus \<Rightarrow> guest_table \<Rightarrow> nat \<Rightarrow> u8 list \<Rightarrow> 'r mem \<Rightarrow> 'r mem option" where
  "WriteBlock b pt dest_addr data m =
     map_option fst (over_pages (\<lambda>a n (m, src). do {
         (m, p) \<leftarrow> page_memory b pt Invalidate a n m;
         Some (case p of Some p \<Rightarrow> store p (take n src) m | None \<Rightarrow> m, drop n src) })
       dest_addr (length data) (m, data))"

definition ZeroBlock :: "'r bus \<Rightarrow> guest_table \<Rightarrow> nat \<Rightarrow> nat \<Rightarrow> 'r mem \<Rightarrow> 'r mem option" where
  "ZeroBlock b pt dest_addr len m =
     over_pages (\<lambda>a n m. do {
         (m, p) \<leftarrow> page_memory b pt Invalidate a n m;
         Some (case p of Some p \<Rightarrow> store p (replicate n 0) m | None \<Rightarrow> m) })
       dest_addr len m"

definition CopyBlock :: "'r bus \<Rightarrow> guest_table \<Rightarrow> guest_table \<Rightarrow> nat \<Rightarrow> nat \<Rightarrow> nat \<Rightarrow> 'r mem \<Rightarrow> 'r mem option" where
  "CopyBlock b dest_pt src_pt dest_addr src_addr len m =
     map_option fst (over_pages (\<lambda>a n (m, dest). do {
         (m, p) \<leftarrow> page_memory b src_pt Flush a n m;
         m \<leftarrow> (case p of
                Some p \<Rightarrow> WriteBlock b dest_pt dest (read_bytes (host m) p n) m
              | None \<Rightarrow> ZeroBlock b dest_pt dest n m);
         Some (m, add32 dest n) })
       src_addr len (m, dest_addr))"

section \<open>Pages in the rasterizer's cache\<close>

text \<open>\<open>RasterizerCacheMarker\<close>: one mark per page of the four regions; elsewhere there are none.\<close>

definition has_mark :: "nat \<Rightarrow> bool" where
  "has_mark addr \<longleftrightarrow>
     VRAM_VADDR \<le> addr \<and> addr < VRAM_VADDR_END \<or>
     LINEAR_HEAP_VADDR \<le> addr \<and> addr < LINEAR_HEAP_VADDR_END \<or>
     NEW_LINEAR_HEAP_VADDR \<le> addr \<and> addr < NEW_LINEAR_HEAP_VADDR_END \<or>
     PLUGIN_3GX_FB_VADDR \<le> addr \<and> addr < PLUGIN_3GX_FB_VADDR_END"

definition Mark :: "nat \<Rightarrow> bool \<Rightarrow> (nat \<Rightarrow> bool) \<Rightarrow> (nat \<Rightarrow> bool)" where
  "Mark addr cached marks = (if has_mark addr then marks(addr div CITRA_PAGE_SIZE := cached) else marks)"

definition IsCached :: "(nat \<Rightarrow> bool) \<Rightarrow> nat \<Rightarrow> bool" where
  "IsCached marks addr \<longleftrightarrow> has_mark addr \<and> marks (addr div CITRA_PAGE_SIZE)"

definition PhysicalToVirtualAddressForRasterizer :: "'r bus \<Rightarrow> nat \<Rightarrow> nat list" where
  "PhysicalToVirtualAddressForRasterizer b addr =
     (if VRAM_PADDR \<le> addr \<and> addr < VRAM_PADDR + VRAM_SIZE then [addr - VRAM_PADDR + VRAM_VADDR]
      else if plugin_fb_address b \<noteq> 0 \<and> plugin_fb_address b \<le> addr \<and> addr < add32 (plugin_fb_address b) 0xA9000
      then [addr - plugin_fb_address b + PLUGIN_3GX_FB_VADDR]
      else if FCRAM_PADDR \<le> addr \<and> addr < 0x28000000
      then [addr - FCRAM_PADDR + LINEAR_HEAP_VADDR, addr - FCRAM_PADDR + NEW_LINEAR_HEAP_VADDR]
      else if 0x28000000 \<le> addr \<and> addr < 0x30000000 then [addr - FCRAM_PADDR + NEW_LINEAR_HEAP_VADDR]
      else [])"

text \<open>The page tables keep the type of a page in step with its mark.\<close>

definition set_page :: "nat \<Rightarrow> PageType \<Rightarrow> memory_ref \<Rightarrow> guest_table \<Rightarrow> guest_table" where
  "set_page page type r pt =
     pt\<lparr>attributes := (attributes pt)(page := type), pointers := (pointers pt)(page := r)\<rparr>"

definition mark_table :: "'r bus \<Rightarrow> bool \<Rightarrow> nat \<Rightarrow> guest_table \<Rightarrow> guest_table option" where
  "mark_table b cached vaddr pt =
     (let page = vaddr div CITRA_PAGE_SIZE in
      if cached then
        (case attributes pt page of
           Unmapped \<Rightarrow> Some pt
         | Memory \<Rightarrow> Some (set_page page RasterizerCachedMemory null_ref pt)
         | MemoryWatchpoint \<Rightarrow> Some (set_page page RasterizerCachedMemoryWatchpoint null_ref pt)
         | _ \<Rightarrow> None)
      else
        (case attributes pt page of
           Unmapped \<Rightarrow> Some pt
         | RasterizerCachedMemory \<Rightarrow> do {
             r \<leftarrow> GetPointerForRasterizerCache b (page * CITRA_PAGE_SIZE);
             Some (set_page page Memory r pt) }
         | RasterizerCachedMemoryWatchpoint \<Rightarrow>
             Some (pt\<lparr>attributes := (attributes pt)(page := MemoryWatchpoint)\<rparr>)
         | _ \<Rightarrow> None))"

fun mark_tables :: "'r bus \<Rightarrow> bool \<Rightarrow> nat \<Rightarrow> guest_table list \<Rightarrow> guest_table list option" where
  "mark_tables b cached vaddr [] = Some []"
| "mark_tables b cached vaddr (pt # pts) = do {
     pt \<leftarrow> mark_table b cached vaddr pt;
     pts \<leftarrow> mark_tables b cached vaddr pts;
     Some (pt # pts) }"

definition mark_address ::
  "'r bus \<Rightarrow> bool \<Rightarrow> nat \<Rightarrow> (nat \<Rightarrow> bool) \<times> guest_table list \<Rightarrow> ((nat \<Rightarrow> bool) \<times> guest_table list) option" where
  "mark_address b cached vaddr s = do {
     pts \<leftarrow> mark_tables b cached vaddr (snd s);
     Some (Mark vaddr cached (fst s), pts) }"

fun mark_pages ::
  "'r bus \<Rightarrow> bool \<Rightarrow> nat \<Rightarrow> nat \<Rightarrow> (nat \<Rightarrow> bool) \<times> guest_table list \<Rightarrow> ((nat \<Rightarrow> bool) \<times> guest_table list) option" where
  "mark_pages b cached paddr 0 s = Some s"
| "mark_pages b cached paddr (Suc n) s = do {
     s \<leftarrow> for_each (mark_address b cached) (PhysicalToVirtualAddressForRasterizer b paddr) s;
     mark_pages b cached (add32 paddr CITRA_PAGE_SIZE) n s }"

definition RasterizerMarkRegionCached ::
  "'r bus \<Rightarrow> nat \<Rightarrow> nat \<Rightarrow> bool \<Rightarrow> (nat \<Rightarrow> bool) \<times> guest_table list \<Rightarrow> ((nat \<Rightarrow> bool) \<times> guest_table list) option" where
  "RasterizerMarkRegionCached b start len cached s =
     (if start = 0 then Some s
      else
        let num_pages = add32 (sub32 (sub32 (add32 start len) 1 div CITRA_PAGE_SIZE) (start div CITRA_PAGE_SIZE)) 1
        in mark_pages b cached start num_pages s)"

section \<open>Watchpoints\<close>

text \<open>
  The loops over the pages of a range. A page whose memory cannot be had is tried again for ever: the
  \<open>continue\<close> skips the step to the next page.
\<close>

partial_function (option) register_loop :: "'r bus \<Rightarrow> nat \<Rightarrow> nat \<Rightarrow> guest_table \<Rightarrow> guest_table option" where
  "register_loop b current end_addr pt =
     (if \<not> current < end_addr then Some pt
      else
        let page = current div CITRA_PAGE_SIZE; next_page = add32 (page * CITRA_PAGE_SIZE) CITRA_PAGE_SIZE in
        case watchpoint_pages pt page of
          Some (n, r) \<Rightarrow>
            register_loop b next_page end_addr
              (pt\<lparr>watchpoint_pages := (watchpoint_pages pt)(page \<mapsto> (add32 n 1, r))\<rparr>)
        | None \<Rightarrow>
            (case attributes pt page of
               Memory \<Rightarrow>
                 register_loop b next_page end_addr
                   ((set_page page MemoryWatchpoint null_ref pt)
                     \<lparr>watchpoint_pages := (watchpoint_pages pt)(page \<mapsto> (1, pointers pt page))\<rparr>)
             | RasterizerCachedMemory \<Rightarrow>
                 Option.bind (GetPointerForRasterizerCache b (page * CITRA_PAGE_SIZE)) (\<lambda>r.
                   register_loop b next_page end_addr
                     (pt\<lparr>attributes := (attributes pt)(page := RasterizerCachedMemoryWatchpoint),
                         watchpoint_pages := (watchpoint_pages pt)(page \<mapsto> (1, r))\<rparr>))
             | _ \<Rightarrow> register_loop b current end_addr pt))"

definition RegisterWatchpoint :: "'r bus \<Rightarrow> nat \<Rightarrow> nat \<Rightarrow> guest_table \<Rightarrow> guest_table option" where
  "RegisterWatchpoint b addr len pt = register_loop b addr (add32 addr len) pt"

definition unwatch_page :: "nat \<Rightarrow> guest_table \<Rightarrow> guest_table" where
  "unwatch_page page pt =
     (case watchpoint_pages pt page of
        None \<Rightarrow> pt
      | Some (n, r) \<Rightarrow>
          if sub32 n 1 \<noteq> 0 then pt\<lparr>watchpoint_pages := (watchpoint_pages pt)(page \<mapsto> (sub32 n 1, r))\<rparr>
          else
            let pt' = (case attributes pt page of
                MemoryWatchpoint \<Rightarrow> set_page page Memory r pt
              | RasterizerCachedMemoryWatchpoint \<Rightarrow>
                  pt\<lparr>attributes := (attributes pt)(page := RasterizerCachedMemory)\<rparr>
              | _ \<Rightarrow> pt)
            in pt'\<lparr>watchpoint_pages := (watchpoint_pages pt)(page := None)\<rparr>)"

partial_function (option) unregister_loop :: "nat \<Rightarrow> nat \<Rightarrow> guest_table \<Rightarrow> guest_table option" where
  "unregister_loop current end_addr pt =
     (if \<not> current < end_addr then Some pt
      else unregister_loop (add32 (current div CITRA_PAGE_SIZE * CITRA_PAGE_SIZE) CITRA_PAGE_SIZE) end_addr
             (unwatch_page (current div CITRA_PAGE_SIZE) pt))"

definition UnregisterWatchpoint :: "nat \<Rightarrow> nat \<Rightarrow> guest_table \<Rightarrow> guest_table option" where
  "UnregisterWatchpoint addr len pt = unregister_loop addr (add32 addr len) pt"

section \<open>Physical addresses\<close>

datatype Region = FCRAM | VRAM | DSP | N3DS

definition DSP_RAM_PADDR :: nat where "DSP_RAM_PADDR = 0x1FF00000"
definition DSP_RAM_SIZE :: nat where "DSP_RAM_SIZE = 0x00080000"
definition N3DS_EXTRA_RAM_PADDR :: nat where "N3DS_EXTRA_RAM_PADDR = 0x1F000000"
definition N3DS_EXTRA_RAM_SIZE :: nat where "N3DS_EXTRA_RAM_SIZE = 0x00400000"

fun GetSize :: "Region \<Rightarrow> nat" where
  "GetSize VRAM = VRAM_SIZE"
| "GetSize DSP = DSP_RAM_SIZE"
| "GetSize FCRAM = FCRAM_N3DS_SIZE"
| "GetSize N3DS = N3DS_EXTRA_RAM_SIZE"

record PhysMemRegionInfo =
  backing_mem :: "Region option"
  region_start :: nat
  region_end :: nat

definition no_region :: PhysMemRegionInfo where
  "no_region = \<lparr>backing_mem = None, region_start = 0, region_end = 0\<rparr>"

definition region_info :: "Region \<Rightarrow> nat \<Rightarrow> PhysMemRegionInfo" where
  "region_info r start = \<lparr>backing_mem = Some r, region_start = start, region_end = add32 start (GetSize r)\<rparr>"

definition physical_areas :: "(Region \<times> nat) list" where
  "physical_areas = [(VRAM, VRAM_PADDR), (DSP, DSP_RAM_PADDR), (FCRAM, FCRAM_PADDR), (N3DS, N3DS_EXTRA_RAM_PADDR)]"

text \<open>The last region found is kept; the search takes the end of a region as part of it, the cache does not.\<close>

definition GetPhysMemRegionInfo :: "PhysMemRegionInfo \<Rightarrow> nat \<Rightarrow> PhysMemRegionInfo" where
  "GetPhysMemRegionInfo cache address =
     (if region_start cache \<le> address \<and> address < region_end cache then cache
      else
        case find (\<lambda>(r, start). start \<le> address \<and> address \<le> start + GetSize r) physical_areas of
          None \<Rightarrow> no_region
        | Some (r, start) \<Rightarrow> region_info r start)"

text \<open>The result is the new cache with the pointer, or with no pointer; \<open>ptr\<close> gives each region's buffer.\<close>

definition GetPhysicalPointer :: "(Region \<Rightarrow> nat) \<Rightarrow> PhysMemRegionInfo \<Rightarrow> nat \<Rightarrow> PhysMemRegionInfo \<times> nat option" where
  "GetPhysicalPointer ptr cache address =
     (let target_mem = GetPhysMemRegionInfo cache address in
      (target_mem, map_option (\<lambda>r. ptr r + (address - region_start target_mem)) (backing_mem target_mem)))"

text \<open>\<open>GetPhysicalRef\<close>; outside every region the reference is null.\<close>

definition GetPhysicalRef ::
  "(Region \<Rightarrow> nat) \<Rightarrow> PhysMemRegionInfo \<Rightarrow> nat \<Rightarrow> (PhysMemRegionInfo \<times> memory_ref option) option" where
  "GetPhysicalRef ptr cache address =
     (let target_mem = GetPhysMemRegionInfo cache address in
      case backing_mem target_mem of
        None \<Rightarrow> Some (target_mem, None)
      | Some r \<Rightarrow> do {
          ref \<leftarrow> mem_at (ptr r) (GetSize r) (address - region_start target_mem);
          Some (target_mem, Some ref) })"

definition IsValidPhysicalAddress :: "PhysMemRegionInfo \<Rightarrow> nat \<Rightarrow> PhysMemRegionInfo \<times> bool" where
  "IsValidPhysicalAddress cache paddr =
     (let target_mem = GetPhysMemRegionInfo cache paddr in (target_mem, backing_mem target_mem \<noteq> None))"

end
