(* ===== verification/Guest_Props.thy ===== *)
theory Guest_Props
  imports Guest_Memory
begin

text \<open>
  The guest's memory as a map from addresses to bytes: every access goes by one translation of guest
  to host addresses, which blocks, words, the marks of the rasterizer and watchpoints respect.
\<close>

section \<open>Translation\<close>

definition translate :: "'r bus \<Rightarrow> guest_table \<Rightarrow> nat \<Rightarrow> nat option" where
  "translate b pt v =
     (let page = v div CITRA_PAGE_SIZE; off = v mod CITRA_PAGE_SIZE in
      case attributes pt page of
        Unmapped \<Rightarrow> None
      | Memory \<Rightarrow> Some (ref_ptr (pointers pt page) + off)
      | MemoryWatchpoint \<Rightarrow> map_option (\<lambda>(_, r). ref_ptr r + off) (watchpoint_pages pt page)
      | _ \<Rightarrow> map_option ref_ptr (GetPointerForRasterizerCache b v))"

definition ras_page :: "PageType \<Rightarrow> bool" where
  "ras_page ty \<longleftrightarrow> ty = RasterizerCachedMemory \<or> ty = RasterizerCachedMemoryWatchpoint"

text \<open>
  What the code keeps of a page table: a page has a pointer exactly when it is ordinary memory, a
  watched page has its memory recorded, and only pages of the four regions are cached. The
  framebuffer of the plugin, when there is one, lies in FCRAM.
\<close>

definition bus_ok :: "'r bus \<Rightarrow> bool" where
  "bus_ok b \<longleftrightarrow> 0 < fcram_ptr b \<and> 0 < vram_ptr b \<and>
     (plugin_fb_address b = 0 \<or> FCRAM_PADDR \<le> plugin_fb_address b \<and> plugin_fb_address b + 0xA9000 \<le> 0x30000000)"

definition table_ok :: "'r bus \<Rightarrow> guest_table \<Rightarrow> bool" where
  "table_ok b pt \<longleftrightarrow> (\<forall>page < PAGE_TABLE_NUM_ENTRIES.
     (ref_ptr (pointers pt page) \<noteq> 0 \<longleftrightarrow> attributes pt page = Memory) \<and>
     (attributes pt page = MemoryWatchpoint \<longrightarrow> watchpoint_pages pt page \<noteq> None) \<and>
     (ras_page (attributes pt page) \<longrightarrow> GetPointerForRasterizerCache b (page * CITRA_PAGE_SIZE) \<noteq> None))"

text \<open>A rasterizer that has no modified copies: flushing does not change host memory.\<close>

definition quiet :: "'r bus \<Rightarrow> bool" where
  "quiet b \<longleftrightarrow> (\<forall>mode p n m. host (FlushRegion b mode p n m) = host m)"

lemma page_split: "v div CITRA_PAGE_SIZE * CITRA_PAGE_SIZE + v mod CITRA_PAGE_SIZE = v" "v mod CITRA_PAGE_SIZE < CITRA_PAGE_SIZE"
  by (simp_all add: CITRA_PAGE_SIZE_def)

lemma page_number: "v < 2 ^ 32 \<Longrightarrow> v div CITRA_PAGE_SIZE < PAGE_TABLE_NUM_ENTRIES"
  by (simp add: CITRA_PAGE_SIZE_def PAGE_TABLE_NUM_ENTRIES_def)

lemma page_small: "i < CITRA_PAGE_SIZE \<Longrightarrow> i div CITRA_PAGE_SIZE = 0 \<and> i mod CITRA_PAGE_SIZE = i"
  by simp

lemma same_page:
  assumes "v mod CITRA_PAGE_SIZE + i < CITRA_PAGE_SIZE"
  shows "(v + i) div CITRA_PAGE_SIZE = v div CITRA_PAGE_SIZE" "(v + i) mod CITRA_PAGE_SIZE = v mod CITRA_PAGE_SIZE + i"
  using assms by (simp_all add: div_add1_eq [of v i] mod_add_eq [of v _ i, symmetric] page_small)

text \<open>Within a page the rasterizer's memory is contiguous.\<close>

definition ras_base :: "'r bus \<Rightarrow> nat \<Rightarrow> nat option" where
  "ras_base b page =
     (if 0x14000 \<le> page \<and> page < 0x1C000 then Some (fcram_ptr b + (page - 0x14000) * 4096)
      else if 0x30000 \<le> page \<and> page < 0x40000 then Some (fcram_ptr b + (page - 0x30000) * 4096)
      else if 0x1F000 \<le> page \<and> page < 0x1F600 then Some (vram_ptr b + (page - 0x1F000) * 4096)
      else if 0x6000 \<le> page \<and> page < 0x60A9 \<and> plugin_fb_address b \<noteq> 0
      then Some (fcram_ptr b + (plugin_fb_address b - FCRAM_PADDR) + (page - 0x6000) * 4096)
      else None)"

lemma ras_pointer:
  assumes b: "bus_ok b" and off: "off < CITRA_PAGE_SIZE"
  shows "map_option ref_ptr (GetPointerForRasterizerCache b (page * CITRA_PAGE_SIZE + off)) =
    map_option (\<lambda>p. p + off) (ras_base b page)"
proof -
  let ?a = "page * 4096 + off"
  have le: "k * 4096 \<le> ?a \<longleftrightarrow> k \<le> page" "?a < k * 4096 \<longleftrightarrow> page < k" for k
    using off unfolding CITRA_PAGE_SIZE_def by linarith+
  have c: "0x14000000 \<le> ?a \<longleftrightarrow> 0x14000 \<le> page" "?a < 0x1C000000 \<longleftrightarrow> page < 0x1C000"
    "0x30000000 \<le> ?a \<longleftrightarrow> 0x30000 \<le> page" "?a < 0x40000000 \<longleftrightarrow> page < 0x40000"
    "0x1F000000 \<le> ?a \<longleftrightarrow> 0x1F000 \<le> page" "?a < 0x1F600000 \<longleftrightarrow> page < 0x1F600"
    "0x06000000 \<le> ?a \<longleftrightarrow> 0x6000 \<le> page" "?a < 0x060A9000 \<longleftrightarrow> page < 0x60A9"
    using le [of "0x14000"] le [of "0x1C000"] le [of "0x30000"] le [of "0x40000"]
      le [of "0x1F000"] le [of "0x1F600"] le [of "0x6000"] le [of "0x60A9"] by simp_all
  have d: "?a - k * 4096 = (page - k) * 4096 + off" if "k \<le> page" for k
    using that by (auto simp: diff_mult_distrib)
  note D = d [of "0x14000", simplified] d [of "0x30000", simplified] d [of "0x1F000", simplified] d [of "0x6000", simplified]
  note U = GetPointerForRasterizerCache_def mem_at_def region_defs CITRA_PAGE_SIZE_def ras_base_def c
  have o: "off < 4096"
    using off by (simp add: CITRA_PAGE_SIZE_def)
  consider (lin) "0x14000 \<le> page \<and> page < 0x1C000" | (new) "0x30000 \<le> page \<and> page < 0x40000"
    | (vram) "0x1F000 \<le> page \<and> page < 0x1F600" | (fb) "0x6000 \<le> page \<and> page < 0x60A9"
    | (no) "\<not> (0x14000 \<le> page \<and> page < 0x1C000)" "\<not> (0x30000 \<le> page \<and> page < 0x40000)"
        "\<not> (0x1F000 \<le> page \<and> page < 0x1F600)" "\<not> (0x6000 \<le> page \<and> page < 0x60A9)"
    by blast
  then show ?thesis
  proof cases
    case lin
    have "(page - 0x14000) * 4096 + off \<le> 0x10000000"
      using lin o by linarith
    with lin show ?thesis
      unfolding U by (simp add: D)
  next
    case new
    have "(page - 0x30000) * 4096 + off \<le> 0x10000000"
      using new o by linarith
    with new show ?thesis
      unfolding U by (simp add: D)
  next
    case vram
    have "(page - 0x1F000) * 4096 + off \<le> 0x600000"
      using vram o by linarith
    with vram show ?thesis
      unfolding U by (simp add: D)
  next
    case fb
    define x where "x = (page - 0x6000) * 4096 + off"
    have x: "?a - 0x6000000 = x" "x < 0xA9000"
      using fb o D(4) unfolding x_def by (simp, linarith)
    show ?thesis
    proof (cases "plugin_fb_address b = 0")
      case True
      with fb show ?thesis
        unfolding U by simp
    next
      case False
      then have "0x20000000 \<le> plugin_fb_address b" and le: "plugin_fb_address b + 0xA9000 \<le> 0x30000000"
        using b by (auto simp: bus_ok_def FCRAM_PADDR_def)
      from this(1) obtain f where f: "plugin_fb_address b = 0x20000000 + f"
        by (rule less_eqE)
      have "f + 0xA9000 \<le> 0x10000000"
        using le unfolding f by linarith
      note f = f this
      have "sub32 (add32 x (0x20000000 + f)) 0x20000000 = x + f"
        using x(2) f(2) by (simp add: add32_def sub32_def)
      with fb f x show ?thesis
        unfolding U x(1) by (simp add: x_def)
    qed
  next
    case no
    then show ?thesis
      unfolding U by (auto simp del: not_le not_less)
  qed
qed

lemma ras_offset:
  assumes "bus_ok b" "off < CITRA_PAGE_SIZE"
  shows "map_option ref_ptr (GetPointerForRasterizerCache b (page * CITRA_PAGE_SIZE + off)) =
    map_option (\<lambda>r. ref_ptr r + off) (GetPointerForRasterizerCache b (page * CITRA_PAGE_SIZE))"
proof -
  have "map_option ref_ptr (GetPointerForRasterizerCache b (page * CITRA_PAGE_SIZE)) = ras_base b page"
    using ras_pointer [OF assms(1), of 0 page] page_split(2) [of 0] by (simp add: option.map_ident)
  then have "ras_base b page = map_option ref_ptr (GetPointerForRasterizerCache b (page * CITRA_PAGE_SIZE))" ..
  then show ?thesis
    by (simp add: ras_pointer [OF assms] option.map_comp comp_def)
qed

lemma translate_add:
  assumes "bus_ok b" "v mod CITRA_PAGE_SIZE + i < CITRA_PAGE_SIZE"
  shows "translate b pt (v + i) = map_option (\<lambda>p. p + i) (translate b pt v)"
proof -
  have r: "map_option ref_ptr (GetPointerForRasterizerCache b (v + i)) =
      map_option (\<lambda>p. p + i) (map_option ref_ptr (GetPointerForRasterizerCache b v))"
    using ras_offset [OF assms(1), of "v mod CITRA_PAGE_SIZE + i" "v div CITRA_PAGE_SIZE"] assms(2)
      ras_offset [OF assms(1), of "v mod CITRA_PAGE_SIZE" "v div CITRA_PAGE_SIZE"] page_split [of v]
    by (simp add: option.map_comp comp_def add.assoc [symmetric])
  show ?thesis
    unfolding translate_def same_page [OF assms(2)] Let_def
    using r by (auto simp: option.map_comp comp_def case_prod_unfold add.assoc split: PageType.split)
qed

lemma page_memory_translate:
  assumes ok: "table_ok b pt" and b: "bus_ok b" and v: "v < 2 ^ 32"
  obtains m' where "page_memory b pt mode v n m = Some (m', translate b pt v)"
    "m' = (if ras_page (attributes pt (v div CITRA_PAGE_SIZE)) then RasterizerFlushVirtualRegion b v n mode m else m)"
proof -
  let ?p = "v div CITRA_PAGE_SIZE"
  have o: "ref_ptr (pointers pt ?p) \<noteq> 0 \<longleftrightarrow> attributes pt ?p = Memory"
    "attributes pt ?p = MemoryWatchpoint \<longrightarrow> watchpoint_pages pt ?p \<noteq> None"
    "ras_page (attributes pt ?p) \<longrightarrow> GetPointerForRasterizerCache b (?p * CITRA_PAGE_SIZE) \<noteq> None"
    using ok page_number [OF v] by (simp_all add: table_ok_def)
  have "ras_page (attributes pt ?p) \<longrightarrow> GetPointerForRasterizerCache b v \<noteq> None"
    using ras_offset [OF b page_split(2) [of v], of ?p] o(3) page_split(1) [of v] by auto
  with o(1,2) that show thesis
    by (cases "attributes pt ?p") (auto simp: page_memory_def translate_def ras_page_def)
qed

lemma quiet_flush:
  assumes "quiet b"
  shows "host (RasterizerFlushVirtualRegion b v n mode m) = host m"
proof -
  have "host (check_region b mode s e r m) = host m" for s e r m
    using assms by (cases r) (auto simp: check_region_def quiet_def)
  then show ?thesis
    by (simp add: RasterizerFlushVirtualRegion_def Let_def)
qed

section \<open>Blocks as bytes\<close>

text \<open>The byte at a guest address, and writing it; unmapped addresses read as 0 and ignore writes.\<close>

definition peek :: "'r bus \<Rightarrow> guest_table \<Rightarrow> (nat \<Rightarrow> u8) \<Rightarrow> nat \<Rightarrow> u8" where
  "peek b pt h v = (case translate b pt v of Some p \<Rightarrow> h p | None \<Rightarrow> 0)"

definition poke :: "'r bus \<Rightarrow> guest_table \<Rightarrow> nat \<Rightarrow> u8 \<Rightarrow> (nat \<Rightarrow> u8) \<Rightarrow> (nat \<Rightarrow> u8)" where
  "poke b pt v x h = (case translate b pt v of Some p \<Rightarrow> h(p := x) | None \<Rightarrow> h)"

fun poke_all :: "'r bus \<Rightarrow> guest_table \<Rightarrow> nat \<Rightarrow> u8 list \<Rightarrow> (nat \<Rightarrow> u8) \<Rightarrow> (nat \<Rightarrow> u8)" where
  "poke_all b pt v [] h = h"
| "poke_all b pt v (x # xs) h = poke_all b pt (v + 1) xs (poke b pt v x h)"

lemma poke_all_append: "poke_all b pt v (xs @ ys) h = poke_all b pt (v + length xs) ys (poke_all b pt v xs h)"
  by (induction xs arbitrary: v h) simp_all

lemma write_bytes_Nil [simp]: "write_bytes p [] h = h"
  by (auto simp: write_bytes_def fun_eq_iff)

lemma write_bytes_Cons: "write_bytes p (x # xs) h = write_bytes (p + 1) xs (h(p := x))"
  by (auto simp: write_bytes_def fun_eq_iff nth_Cons' not_less_eq_eq)

lemma poke_all_page:
  assumes "bus_ok b" "v mod CITRA_PAGE_SIZE + length xs \<le> CITRA_PAGE_SIZE"
  shows "poke_all b pt v xs h = (case translate b pt v of Some p \<Rightarrow> write_bytes p xs h | None \<Rightarrow> h)"
proof -
  have "poke_all b pt (v + i) (drop i xs) h = (case translate b pt v of Some p \<Rightarrow> write_bytes (p + i) (drop i xs) h | None \<Rightarrow> h)"
    if "i \<le> length xs" for i h
    using that
  proof (induction i arbitrary: h rule: inc_induct)
    case base
    then show ?case by (simp split: option.split)
  next
    case (step i)
    have "translate b pt (v + i) = map_option (\<lambda>p. p + i) (translate b pt v)"
      using assms step.hyps by (intro translate_add) auto
    with step.IH step.hyps show ?case
      by (simp add: Cons_nth_drop_Suc [symmetric] poke_def write_bytes_Cons split: option.split)
  qed
  from this [of 0 h] show ?thesis by (simp cong: option.case_cong)
qed

lemma peek_page:
  assumes "bus_ok b" "v mod CITRA_PAGE_SIZE + n \<le> CITRA_PAGE_SIZE"
  shows "map (\<lambda>i. peek b pt h (v + i)) [0..<n] =
    (case translate b pt v of Some p \<Rightarrow> read_bytes h p n | None \<Rightarrow> replicate n 0)"
proof (rule nth_equalityI)
  show "length (map (\<lambda>i. peek b pt h (v + i)) [0..<n]) =
      length (case translate b pt v of Some p \<Rightarrow> read_bytes h p n | None \<Rightarrow> replicate n 0)"
    by (simp add: read_bytes_def split: option.split)
next
  fix i assume "i < length (map (\<lambda>i. peek b pt h (v + i)) [0..<n])"
  then have i: "i < n" by simp
  have "translate b pt (v + i) = map_option (\<lambda>p. p + i) (translate b pt v)"
    using assms i by (intro translate_add) auto
  with i show "map (\<lambda>i. peek b pt h (v + i)) [0..<n] ! i =
      (case translate b pt v of Some p \<Rightarrow> read_bytes h p n | None \<Rightarrow> replicate n 0) ! i"
    by (simp add: peek_def read_bytes_def split: option.split)
qed

text \<open>The loop over pages, with an invariant on the part of the range that is done.\<close>

lemma block_loop_0: "block_loop body page off 0 s = Some s"
  by (simp add: block_loop.simps)

lemma block_loop_step:
  assumes "body (page * CITRA_PAGE_SIZE + off) (min (CITRA_PAGE_SIZE - off) len) s = Some s1"
    "len \<noteq> 0" "page < PAGE_TABLE_NUM_ENTRIES" "off < CITRA_PAGE_SIZE"
  shows "block_loop body page off len s = block_loop body (page + 1) 0 (len - min (CITRA_PAGE_SIZE - off) len) s1"
  using assms by (simp add: block_loop.simps [of body page off len s] Let_def)

lemma block_loop_inv:
  assumes body: "\<And>i n s. I i s \<Longrightarrow> i + n \<le> len \<Longrightarrow> 0 < n \<Longrightarrow> (v + i) mod CITRA_PAGE_SIZE + n \<le> CITRA_PAGE_SIZE \<Longrightarrow>
      \<exists>s'. body (v + i) n s = Some s' \<and> I (i + n) s'"
    and v: "v + len \<le> 2 ^ 32" and s: "I 0 s"
  shows "\<exists>s'. over_pages body v len s = Some s' \<and> I len s'"
proof -
  have "\<exists>s'. block_loop body ((v + i) div CITRA_PAGE_SIZE) ((v + i) mod CITRA_PAGE_SIZE) (len - i) s = Some s' \<and> I len s'"
    if "I i s" "i \<le> len" for i s
    using that
  proof (induction "len - i" arbitrary: i s rule: less_induct)
    case less
    show ?case
    proof (cases "i = len")
      case True
      with less.prems show ?thesis
        by (simp add: block_loop_0)
    next
      case False
      let ?off = "(v + i) mod CITRA_PAGE_SIZE" and ?page = "(v + i) div CITRA_PAGE_SIZE"
      define n where "n = min (CITRA_PAGE_SIZE - ?off) (len - i)"
      have off: "?off < CITRA_PAGE_SIZE" and pos: "0 < CITRA_PAGE_SIZE"
        by (rule page_split(2)) (simp add: CITRA_PAGE_SIZE_def)
      have n: "0 < n" "i + n \<le> len" "?off + n \<le> CITRA_PAGE_SIZE" and m: "n = len - i \<or> n = CITRA_PAGE_SIZE - ?off"
        using False less.prems(2) off unfolding n_def by linarith+
      have page: "?page < PAGE_TABLE_NUM_ENTRIES"
        using v False less.prems(2) by (intro page_number) simp
      obtain s1 where s1: "body (v + i) n s = Some s1" "I (i + n) s1"
        using body [OF less.prems(1) n(2,1,3)] by blast
      have "len - (i + n) < len - i"
        using n(1,2) by linarith
      from less.hyps [OF this s1(2) n(2)] obtain s2 where
        s2: "block_loop body ((v + (i + n)) div CITRA_PAGE_SIZE) ((v + (i + n)) mod CITRA_PAGE_SIZE) (len - (i + n)) s1 = Some s2" "I len s2"
        by blast
      have "block_loop body (?page + 1) 0 (len - i - n) s1 = Some s2"
        using m
      proof
        assume "n = len - i"
        then have "len - i - n = 0" "len - (i + n) = 0"
          by linarith+
        with s2(1) show ?thesis
          by (simp only: block_loop_0)
      next
        assume e: "n = CITRA_PAGE_SIZE - ?off"
        have "v + (i + n) = (?page + 1) * CITRA_PAGE_SIZE"
          using page_split(1) [of "v + i"] off unfolding e add_mult_distrib by linarith
        then have "(v + (i + n)) div CITRA_PAGE_SIZE = ?page + 1" "(v + (i + n)) mod CITRA_PAGE_SIZE = 0"
          using pos by (simp_all only: nonzero_mult_div_cancel_right mod_mult_self2_is_0)
        with s2(1) show ?thesis
          by (simp only: diff_diff_left)
      qed
      moreover have "block_loop body ?page ?off (len - i) s = block_loop body (?page + 1) 0 (len - i - n) s1"
        unfolding n_def
      proof (rule block_loop_step [OF _ _ page off])
        show "body (?page * CITRA_PAGE_SIZE + ?off) (min (CITRA_PAGE_SIZE - ?off) (len - i)) s = Some s1"
          using s1(1) unfolding n_def page_split(1) .
        show "len - i \<noteq> 0"
          using False less.prems(2) by linarith
      qed
      ultimately show ?thesis
        using s2(2) by metis
    qed
  qed
  from this [OF s] show ?thesis
    unfolding over_pages_def by simp
qed

lemma page_memory_quiet:
  assumes "quiet b" "table_ok b pt" "bus_ok b" "v < 2 ^ 32"
  obtains m' where "page_memory b pt mode v n m = Some (m', translate b pt v)" "host m' = host m"
  by (rule page_memory_translate [OF assms(2-4), of mode n m])
    (metis assms(1) quiet_flush that)

definition peek_all :: "'r bus \<Rightarrow> guest_table \<Rightarrow> (nat \<Rightarrow> u8) \<Rightarrow> nat \<Rightarrow> nat \<Rightarrow> u8 list" where
  "peek_all b pt h v n = map (\<lambda>i. peek b pt h (v + i)) [0..<n]"

lemma length_peek_all [simp]: "length (peek_all b pt h v n) = n"
  by (simp add: peek_all_def)

lemma peek_all_add: "peek_all b pt h v (i + n) = peek_all b pt h v i @ peek_all b pt h (v + i) n"
  by (rule nth_equalityI) (auto simp: peek_all_def nth_append)

lemma ReadBlock_peek:
  assumes ok: "quiet b" "table_ok b pt" "bus_ok b" and v: "v + len \<le> 2 ^ 32"
  shows "\<exists>m'. ReadBlock b pt v len m = Some (m', peek_all b pt (host m) v len) \<and> host m' = host m"
proof -
  let ?I = "\<lambda>i s. host (fst s) = host m \<and> snd s = peek_all b pt (host m) v i"
  have "\<exists>s'. ReadBlock b pt v len m = Some s' \<and> ?I len s'"
    unfolding ReadBlock_def
  proof (rule block_loop_inv [where I = ?I, OF _ v], goal_cases)
    case (1 i n s)
    then have "v + i < 2 ^ 32"
      using v by simp
    from page_memory_quiet [OF ok this, of Flush n "fst s"] obtain m' where
      m': "page_memory b pt Flush (v + i) n (fst s) = Some (m', translate b pt (v + i))" "host m' = host (fst s)"
      by blast
    show ?case
      using 1 m' peek_page [OF ok(3) 1(4), of pt "host m"]
      by (simp add: case_prod_unfold peek_all_add peek_all_def [of b pt "host m" "v + i"] split: option.split)
  next
    case 2
    then show ?case by (simp add: peek_all_def)
  qed
  then show ?thesis by auto
qed

lemma WriteBlock_poke:
  assumes ok: "quiet b" "table_ok b pt" "bus_ok b" and v: "v + length data \<le> 2 ^ 32"
  shows "\<exists>m'. WriteBlock b pt v data m = Some m' \<and> host m' = poke_all b pt v data (host m)"
proof -
  let ?I = "\<lambda>i s. host (fst s) = poke_all b pt v (take i data) (host m) \<and> snd s = drop i data"
  have "\<exists>s'. over_pages (\<lambda>a n (m, src). do {
      (m, p) \<leftarrow> page_memory b pt Invalidate a n m;
      Some (case p of Some p \<Rightarrow> store p (take n src) m | None \<Rightarrow> m, drop n src) }) v (length data) (m, data)
    = Some s' \<and> ?I (length data) s'"
  proof (rule block_loop_inv [where I = ?I, OF _ v], goal_cases)
    case (1 i n s)
    then have "v + i < 2 ^ 32"
      using v by simp
    from page_memory_quiet [OF ok this, of Invalidate n "fst s"] obtain m' where
      m': "page_memory b pt Invalidate (v + i) n (fst s) = Some (m', translate b pt (v + i))" "host m' = host (fst s)"
      by blast
    have t: "take (i + n) data = take i data @ take n (drop i data)"
      by (rule take_add)
    show ?case
      using 1 m' poke_all_page [OF ok(3), of "v + i" "take n (drop i data)" pt "poke_all b pt v (take i data) (host m)"]
      by (auto simp: case_prod_unfold t poke_all_append store_def add.commute split: option.splits)
  next
    case 2
    then show ?case by simp
  qed
  then show ?thesis
    by (auto simp: WriteBlock_def)
qed

lemma ZeroBlock_poke:
  assumes ok: "quiet b" "table_ok b pt" "bus_ok b" and v: "v + len \<le> 2 ^ 32"
  shows "\<exists>m'. ZeroBlock b pt v len m = Some m' \<and> host m' = poke_all b pt v (replicate len 0) (host m)"
  unfolding ZeroBlock_def
proof (rule block_loop_inv [where I = "\<lambda>i s. host s = poke_all b pt v (replicate i 0) (host m)", OF _ v], goal_cases)
  case (1 i n s)
  then have "v + i < 2 ^ 32"
    using v by simp
  from page_memory_quiet [OF ok this, of Invalidate n s] obtain m' where
    m': "page_memory b pt Invalidate (v + i) n s = Some (m', translate b pt (v + i))" "host m' = host s"
    by blast
  show ?case
    using 1 m' poke_all_page [OF ok(3), of "v + i" "replicate n 0" pt "poke_all b pt v (replicate i 0) (host m)"]
    by (auto simp: replicate_add poke_all_append store_def split: option.splits)
next
  case 2
  then show ?case by simp
qed

lemma poke_all_other:
  assumes "\<forall>i<length xs. translate b pt (v + i) \<noteq> Some p"
  shows "poke_all b pt v xs h p = h p"
  using assms
proof (induction xs arbitrary: v h)
  case (Cons x xs)
  from Cons.prems have "\<forall>i<length xs. translate b pt (v + 1 + i) \<noteq> Some p" "translate b pt v \<noteq> Some p"
    by (force dest: spec [of _ "Suc _"], force)
  with Cons.IH [of "v + 1"] show ?case
    by (auto simp: poke_def split: option.split)
qed simp

text \<open>A range no two of whose addresses share a byte of host memory.\<close>

definition unaliased :: "'r bus \<Rightarrow> guest_table \<Rightarrow> nat \<Rightarrow> nat \<Rightarrow> bool" where
  "unaliased b pt v len \<longleftrightarrow>
     (\<forall>i<len. \<forall>j<len. i < j \<longrightarrow> translate b pt (v + i) = None \<or> translate b pt (v + i) \<noteq> translate b pt (v + j))"

lemma peek_poke_all:
  assumes "unaliased b pt v (length xs)" "i < length xs"
  shows "peek b pt (poke_all b pt v xs h) (v + i) = (if translate b pt (v + i) = None then 0 else xs ! i)"
  using assms
proof (induction xs arbitrary: v h i)
  case (Cons x xs)
  have u: "unaliased b pt (v + 1) (length xs)"
    unfolding unaliased_def
  proof (intro allI impI)
    fix a c assume "a < length xs" "c < length xs" "a < c"
    then show "translate b pt (v + 1 + a) = None \<or> translate b pt (v + 1 + a) \<noteq> translate b pt (v + 1 + c)"
      using Cons.prems(1) [unfolded unaliased_def, rule_format, of "Suc a" "Suc c"] by simp
  qed
  show ?case
  proof (cases i)
    case 0
    have "translate b pt (v + 1 + j) \<noteq> translate b pt v" if "j < length xs" "translate b pt v \<noteq> None" for j
      using Cons.prems(1) [unfolded unaliased_def, rule_format, of 0 "Suc j"] that by simp
    with 0 show ?thesis
      by (auto simp: peek_def poke_def poke_all_other split: option.split)
  next
    case (Suc k)
    with Cons.IH [OF u, of k] Cons.prems(2) show ?thesis
      by simp
  qed
qed simp

lemma peek_all_poke_all:
  assumes "unaliased b pt v (length xs)"
  shows "peek_all b pt (poke_all b pt v xs h) v (length xs) =
    map (\<lambda>i. if translate b pt (v + i) = None then 0 else xs ! i) [0..<length xs]"
  using assms by (auto simp: peek_all_def peek_poke_all)

text \<open>A block read returns the bytes of the guest's memory, one by one, with 0 for what is not mapped.\<close>

lemma ReadBlock_bytes:
  assumes "quiet b" "table_ok b pt" "bus_ok b" "v + len \<le> 2 ^ 32"
  obtains m' where "ReadBlock b pt v len m = Some (m', map (\<lambda>i. peek b pt (host m) (v + i)) [0..<len])" "host m' = host m"
  using ReadBlock_peek [OF assms, of m] that by (auto simp: peek_all_def)


text \<open>An exclusive store through the alias of FCRAM at bit 31 reports success and stores nothing,
  where an ordinary store writes FCRAM.
\<close>

lemma exclusive_store_alias_lost:
  assumes "attributes pt (v div CITRA_PAGE_SIZE) = Unmapped" "ref_ptr (pointers pt (v div CITRA_PAGE_SIZE)) = 0"
    and "0xA0000000 \<le> v" "v < 0xB0000000"
  shows "WriteExclusive b pt v data expected m = Some (m, True) \<and>
    Write b pt v data m = Some (store (fcram_ptr b + (v - 0xA0000000)) data m)"
proof -
  from assms(3) obtain x where x: "v = 0xA0000000 + x"
    by (rule less_eqE)
  have "luma_alias b v = Some (Inl (fcram_ptr b + (v - 0xA0000000)))"
    using assms(4) by (simp add: x luma_alias_def Let_def FCRAM_PADDR_def)
  then show ?thesis
    using assms(1,2) by (simp add: WriteExclusive_def page_memory_def Write_def Let_def)
qed

lemma CopyBlock_poke:
  assumes ok: "quiet b" "table_ok b spt" "table_ok b dpt" "bus_ok b"
    and v: "src + len \<le> 2 ^ 32" "dst + len \<le> 2 ^ 32" "dst < 2 ^ 32"
    and apart: "\<forall>i<len. \<forall>j<len. translate b spt (src + i) = None \<or> translate b spt (src + i) \<noteq> translate b dpt (dst + j)"
  shows "\<exists>m'. CopyBlock b dpt spt dst src len m = Some m' \<and>
    host m' = poke_all b dpt dst (peek_all b spt (host m) src len) (host m)"
proof -
  let ?peeks = "\<lambda>i. peek_all b spt (host m) src i"
  let ?I = "\<lambda>i s. host (fst s) = poke_all b dpt dst (?peeks i) (host m) \<and> snd s = add32 dst i"
  have "\<exists>s'. over_pages (\<lambda>a n (m, dest). do {
      (m, p) \<leftarrow> page_memory b spt Flush a n m;
      m \<leftarrow> (case p of
             Some p \<Rightarrow> WriteBlock b dpt dest (read_bytes (host m) p n) m
           | None \<Rightarrow> ZeroBlock b dpt dest n m);
      Some (m, add32 dest n) }) src len (m, dst) = Some s' \<and> ?I len s'"
  proof (rule block_loop_inv [where I = ?I, OF _ v(1)], goal_cases)
    case (1 i n s)
    then have i: "src + i < 2 ^ 32" and d: "add32 dst i = dst + i" "dst + i + n \<le> 2 ^ 32"
      using v by (simp_all add: add32_def)
    from page_memory_quiet [OF ok(1,2,4) i, of Flush n "fst s"] obtain m1 where
      m1: "page_memory b spt Flush (src + i) n (fst s) = Some (m1, translate b spt (src + i))" "host m1 = host (fst s)"
      by blast
    have same: "peek b spt (host m1) (src + j) = peek b spt (host m) (src + j)" if "j < len" for j
    proof (cases "translate b spt (src + j)")
      case (Some p)
      have "\<forall>k<length (?peeks i). translate b dpt (dst + k) \<noteq> Some p"
      proof (intro allI impI)
        fix k assume "k < length (?peeks i)"
        then have "k < len"
          using 1(2) by simp
        with apart [rule_format, OF that this] Some show "translate b dpt (dst + k) \<noteq> Some p"
          by auto
      qed
      from poke_all_other [OF this] Some show ?thesis
        by (simp add: peek_def m1(2) conjunct1 [OF 1(1)])
    qed (simp add: peek_def)
    have bytes: "map (\<lambda>k. peek b spt (host m1) (src + i + k)) [0..<n] = peek_all b spt (host m) (src + i) n"
      unfolding peek_all_def using same 1(2) by (auto simp: add.assoc)
    have "\<exists>m2. (case translate b spt (src + i) of
        Some p \<Rightarrow> WriteBlock b dpt (dst + i) (read_bytes (host m1) p n) m1
      | None \<Rightarrow> ZeroBlock b dpt (dst + i) n m1) = Some m2 \<and>
      host m2 = poke_all b dpt (dst + i) (peek_all b spt (host m) (src + i) n) (host m1)"
    proof (cases "translate b spt (src + i)")
      case None
      then have "peek_all b spt (host m) (src + i) n = replicate n 0"
        using peek_page [OF ok(4) 1(4), of spt "host m"] by (simp add: peek_all_def)
      with ZeroBlock_poke [OF ok(1,3,4), of "dst + i" n m1] d(2) None show ?thesis
        by simp
    next
      case (Some p)
      then have "peek_all b spt (host m) (src + i) n = read_bytes (host m1) p n"
        using peek_page [OF ok(4) 1(4), of spt "host m1"] bytes by simp
      with WriteBlock_poke [OF ok(1,3,4), of "dst + i" "read_bytes (host m1) p n" m1] d(2) Some show ?thesis
        by (simp add: read_bytes_def)
    qed
    then obtain m2 where m2: "(case translate b spt (src + i) of
        Some p \<Rightarrow> WriteBlock b dpt (dst + i) (read_bytes (host m1) p n) m1
      | None \<Rightarrow> ZeroBlock b dpt (dst + i) n m1) = Some m2"
      "host m2 = poke_all b dpt (dst + i) (peek_all b spt (host m) (src + i) n) (host m1)"
      by blast
    have "?I (i + n) (m2, add32 (dst + i) n)"
      by (simp add: m2(2) m1(2) conjunct1 [OF 1(1)] peek_all_add poke_all_append) (simp add: add32_def add.assoc)
    moreover have "(case s of (m, dest) \<Rightarrow> do {
      (m, p) \<leftarrow> page_memory b spt Flush (src + i) n m;
      m \<leftarrow> (case p of
             Some p \<Rightarrow> WriteBlock b dpt dest (read_bytes (host m) p n) m
           | None \<Rightarrow> ZeroBlock b dpt dest n m);
      Some (m, add32 dest n) }) = Some (m2, add32 (dst + i) n)"
      using m1(1) m2(1) 1(1) d(1) by (cases s) simp
    ultimately show ?case by blast
  next
    case 2
    then show ?case
      using v(3) by (simp add: peek_all_def add32_def)
  qed
  then show ?thesis
    by (auto simp: CopyBlock_def)
qed


text \<open>Within a page below bit 31 a word is read as a block.\<close>

lemma Read_value_block:
  assumes ok: "quiet b" "table_ok b pt" "bus_ok b" and v: "v < 0x80000000" "v mod CITRA_PAGE_SIZE + n \<le> CITRA_PAGE_SIZE"
  shows "\<exists>m'. Read_value b pt n v m = Some (m', peek_all b pt (host m) v n) \<and> host m' = host m"
proof -
  have v32: "v < 2 ^ 32"
    using v(1) by simp
  from page_memory_quiet [OF ok v32, of Flush n m] obtain m' where
    m': "page_memory b pt Flush v n m = Some (m', translate b pt v)" "host m' = host m"
    by blast
  have l: "luma_alias b v = None"
    using v(1) by (simp add: luma_alias_def)
  have p: "ref_ptr (pointers pt (v div CITRA_PAGE_SIZE)) \<noteq> 0 \<longleftrightarrow> attributes pt (v div CITRA_PAGE_SIZE) = Memory"
    using ok(2) page_number [OF v32] by (simp add: table_ok_def)
  have e: "peek_all b pt (host m) v n =
      (case translate b pt v of Some p \<Rightarrow> read_bytes (host m) p n | None \<Rightarrow> replicate n 0)"
    unfolding peek_all_def by (rule peek_page [OF ok(3) v(2)])
  show ?thesis
  proof (cases "attributes pt (v div CITRA_PAGE_SIZE) = Memory")
    case True
    with p show ?thesis
      unfolding e by (simp add: Read_value_def Read_def Let_def translate_def)
  next
    case False
    with p m' l show ?thesis
      unfolding e by (simp add: Read_value_def Read_def Let_def split: option.split)
  qed
qed

section \<open>Witnesses\<close>

text \<open>
  Two pages that follow each other for the guest and not on the host, and a page of VRAM that the
  rasterizer caches; the GPU counts the bytes it is asked to flush.
\<close>

definition demo_bus :: "nat bus" where
  "demo_bus = \<lparr>fcram_ptr = 0x10000000, vram_ptr = 0x40000000, plugin_fb_address = 0,
     FlushRegion = (\<lambda>_ _ n m. m\<lparr>gpu := gpu m + n\<rparr>), ReadReg = (\<lambda>r _. of_nat r), WriteReg = (\<lambda>_ _ m. m)\<rparr>"

definition demo_table :: guest_table where
  "demo_table = \<lparr>attributes = (\<lambda>_. Unmapped)(0x100 := Memory, 0x101 := Memory, 0x1F000 := RasterizerCachedMemory),
     pointers = (\<lambda>_. null_ref)(0x100 := \<lparr>ref_ptr = 0x1000, ref_size = 0x1000\<rparr>, 0x101 := \<lparr>ref_ptr = 0x8000, ref_size = 0x1000\<rparr>),
     watchpoint_pages = (\<lambda>_. None)\<rparr>"

definition demo_mem :: "nat mem" where
  "demo_mem = \<lparr>host = (\<lambda>a. of_nat a), gpu = 0\<rparr>"

lemma demo_ok: "quiet demo_bus" "bus_ok demo_bus" "table_ok demo_bus demo_table"
  by (simp_all add: quiet_def bus_ok_def table_ok_def demo_bus_def demo_table_def null_ref_def ras_page_def
      GetPointerForRasterizerCache_def mem_at_def region_defs CITRA_PAGE_SIZE_def)

lemmas demo_translate = translate_def Let_def demo_bus_def demo_table_def null_ref_def CITRA_PAGE_SIZE_def
  GetPointerForRasterizerCache_def mem_at_def region_defs

lemma ReadBlock_bytes_witness:
  "\<exists>m'. ReadBlock demo_bus demo_table 0x100FFE 4 demo_mem = Some (m', [0xFE, 0xFF, 0, 1]) \<and> host m' = host demo_mem"
proof (rule ReadBlock_bytes [OF demo_ok(1,3,2), of "0x100FFE" 4 demo_mem])
  fix m' assume "ReadBlock demo_bus demo_table 0x100FFE 4 demo_mem =
      Some (m', map (\<lambda>i. peek demo_bus demo_table (host demo_mem) (0x100FFE + i)) [0..<4])" "host m' = host demo_mem"
  then show ?thesis
    by (simp add: peek_def demo_translate demo_mem_def upt_conv_Cons)
qed simp

lemma demo_unaliased: "unaliased demo_bus demo_table 0x100FFF 2"
  by (auto simp: unaliased_def demo_translate less_2_cases_iff)


lemma exclusive_store_alias_lost_witness:
  "WriteExclusive demo_bus demo_table 0xA0000010 [1, 2, 3, 4] [0, 0, 0, 0] demo_mem = Some (demo_mem, True) \<and>
   Write demo_bus demo_table 0xA0000010 [1, 2, 3, 4] demo_mem = Some (store 0x10000010 [1, 2, 3, 4] demo_mem)"
  using exclusive_store_alias_lost [of demo_table "0xA0000010" demo_bus "[1, 2, 3, 4]" "[0, 0, 0, 0]" demo_mem]
  by (simp add: demo_table_def null_ref_def CITRA_PAGE_SIZE_def demo_bus_def)


end
