(* ===== verification/Guest_Tables.thy ===== *)
theory Guest_Tables
  imports Guest_Props
begin

text \<open>
  The operations on page tables that must not move memory: marking pages as cached by the rasterizer,
  and registering and removing watchpoints.
\<close>

section \<open>Marks of the rasterizer\<close>

text \<open>
  Memory in the rasterizer's regions is where the rasterizer looks for it, and the type of each
  mapped page agrees with its mark.
\<close>

definition page_ok :: "'r bus \<Rightarrow> nat \<Rightarrow> PageType \<Rightarrow> memory_ref \<Rightarrow> (nat \<times> memory_ref) option \<Rightarrow> bool" where
  "page_ok b page ty r w \<longleftrightarrow>
     (ref_ptr r \<noteq> 0 \<longleftrightarrow> ty = Memory) \<and> (ty = MemoryWatchpoint \<longrightarrow> w \<noteq> None) \<and>
     (ras_page ty \<longrightarrow> ras_base b page \<noteq> None) \<and>
     (ras_base b page \<noteq> None \<longrightarrow>
        (ty = Memory \<longrightarrow> ras_base b page = Some (ref_ptr r)) \<and>
        (ty = MemoryWatchpoint \<or> ty = RasterizerCachedMemoryWatchpoint \<longrightarrow>
           map_option (ref_ptr \<circ> snd) w = ras_base b page))"

definition linear_ok :: "'r bus \<Rightarrow> guest_table \<Rightarrow> bool" where
  "linear_ok b pt \<longleftrightarrow> (\<forall>page < PAGE_TABLE_NUM_ENTRIES.
     page_ok b page (attributes pt page) (pointers pt page) (watchpoint_pages pt page))"

definition in_step :: "'r bus \<Rightarrow> (nat \<Rightarrow> bool) \<Rightarrow> guest_table \<Rightarrow> bool" where
  "in_step b marks pt \<longleftrightarrow>
     (\<forall>page. ras_base b page \<noteq> None \<and> attributes pt page \<noteq> Unmapped \<longrightarrow> ras_page (attributes pt page) = marks page)"

lemma ras_base_range: "ras_base b page = Some q \<Longrightarrow> page < PAGE_TABLE_NUM_ENTRIES"
  by (auto simp: ras_base_def PAGE_TABLE_NUM_ENTRIES_def split: if_splits)

lemma ras_base_pos: "bus_ok b \<Longrightarrow> ras_base b page = Some q \<Longrightarrow> 0 < q"
  by (auto simp: ras_base_def bus_ok_def split: if_splits)

lemma ras_pointer_base:
  assumes "bus_ok b"
  shows "map_option ref_ptr (GetPointerForRasterizerCache b (page * CITRA_PAGE_SIZE)) = ras_base b page"
  using ras_pointer [OF assms, of 0 page] page_split(2) [of 0] by (simp add: option.map_ident)

lemma ras_pointer_page:
  assumes "bus_ok b"
  shows "map_option ref_ptr (GetPointerForRasterizerCache b v) =
    map_option (\<lambda>p. p + v mod CITRA_PAGE_SIZE) (ras_base b (v div CITRA_PAGE_SIZE))"
  using ras_pointer [OF assms page_split(2), of "v div CITRA_PAGE_SIZE" v] by (simp add: page_split(1))

lemma linear_table_ok: "bus_ok b \<Longrightarrow> linear_ok b pt \<Longrightarrow> table_ok b pt"
  unfolding linear_ok_def table_ok_def page_ok_def
  by (metis option.map_disc_iff ras_pointer_base)

lemma translate_page:
  assumes "bus_ok b" "linear_ok b pt" "ras_base b (v div CITRA_PAGE_SIZE) = Some q"
  shows "translate b pt v =
    (if attributes pt (v div CITRA_PAGE_SIZE) = Unmapped then None else Some (q + v mod CITRA_PAGE_SIZE))"
proof -
  have "map_option ref_ptr (GetPointerForRasterizerCache b v) = Some (q + v mod CITRA_PAGE_SIZE)"
    using ras_pointer_page [OF assms(1), of v] assms(3) by simp
  then show ?thesis
    using assms(2) [unfolded linear_ok_def, rule_format, OF ras_base_range [OF assms(3)]] assms(3)
    by (cases "attributes pt (v div CITRA_PAGE_SIZE)") (auto simp: page_ok_def translate_def Let_def)
qed

lemma phys_ras_base:
  assumes "bus_ok b" "v \<in> set (PhysicalToVirtualAddressForRasterizer b p)"
  shows "ras_base b (v div CITRA_PAGE_SIZE) \<noteq> None" "has_mark v"
proof -
  have "has_mark v \<and> (plugin_fb_address b = 0 \<longrightarrow> \<not> (PLUGIN_3GX_FB_VADDR \<le> v \<and> v < PLUGIN_3GX_FB_VADDR_END))"
    using assms
    by (auto simp: PhysicalToVirtualAddressForRasterizer_def has_mark_def region_defs bus_ok_def add32_def
        split: if_splits)
  moreover have d: "k * 4096 \<le> v \<longleftrightarrow> k \<le> v div 4096" "v < k * 4096 \<longleftrightarrow> v div 4096 < k" for k
    by (simp_all add: less_eq_div_iff_mult_less_eq div_less_iff_less_mult)
  note D = d [of "0x14000", simplified] d [of "0x1C000", simplified] d [of "0x30000", simplified] d [of "0x40000", simplified]
    d [of "0x1F000", simplified] d [of "0x1F600", simplified] d [of "0x6000", simplified] d [of "0x60A9", simplified]
  ultimately show "ras_base b (v div CITRA_PAGE_SIZE) \<noteq> None" "has_mark v"
    by (auto simp: ras_base_def has_mark_def region_defs CITRA_PAGE_SIZE_def D)
qed

lemma mark_table_keeps:
  assumes b: "bus_ok b" and ok: "linear_ok b pt" and q: "ras_base b (v div CITRA_PAGE_SIZE) = Some q"
    and m: "mark_table b cached v pt = Some pt'"
  shows "linear_ok b pt'" "attributes pt' k = Unmapped \<longleftrightarrow> attributes pt k = Unmapped"
    "k \<noteq> v div CITRA_PAGE_SIZE \<Longrightarrow> attributes pt' k = attributes pt k \<and> pointers pt' k = pointers pt k"
    "watchpoint_pages pt' = watchpoint_pages pt"
    "attributes pt' (v div CITRA_PAGE_SIZE) \<noteq> Unmapped \<Longrightarrow> ras_page (attributes pt' (v div CITRA_PAGE_SIZE)) = cached"
proof -
  let ?p = "v div CITRA_PAGE_SIZE"
  have r: "map_option ref_ptr (GetPointerForRasterizerCache b (?p * CITRA_PAGE_SIZE)) = Some q"
    using ras_pointer_base [OF b, of ?p] q by simp
  have pos: "0 < q" and lim: "?p < PAGE_TABLE_NUM_ENTRIES"
    using ras_base_pos [OF b q] ras_base_range [OF q] by simp_all
  have others: "attributes pt' k = attributes pt k \<and> pointers pt' k = pointers pt k" if "k \<noteq> ?p" for k
    using m r that
    by (cases "attributes pt ?p"; cases cached; force simp: mark_table_def Let_def set_page_def)
  have w: "watchpoint_pages pt' = watchpoint_pages pt"
    using m r by (cases "attributes pt ?p"; cases cached; force simp: mark_table_def Let_def set_page_def)
  have "page_ok b ?p (attributes pt ?p) (pointers pt ?p) (watchpoint_pages pt ?p)"
    using ok lim by (simp add: linear_ok_def)
  then have p: "page_ok b ?p (attributes pt' ?p) (pointers pt' ?p) (watchpoint_pages pt' ?p)"
    using m r pos q unfolding w
    by (cases "attributes pt ?p"; cases cached;
        force simp: mark_table_def Let_def set_page_def page_ok_def ras_page_def null_ref_def)
  show "linear_ok b pt'"
    unfolding linear_ok_def
  proof (intro allI impI)
    fix k assume "k < PAGE_TABLE_NUM_ENTRIES"
    then show "page_ok b k (attributes pt' k) (pointers pt' k) (watchpoint_pages pt' k)"
      using p others [of k] w ok by (cases "k = ?p") (simp_all add: linear_ok_def)
  qed
  have "(attributes pt' ?p = Unmapped \<longleftrightarrow> attributes pt ?p = Unmapped) \<and>
      (attributes pt' ?p \<noteq> Unmapped \<longrightarrow> ras_page (attributes pt' ?p) = cached)"
    using m r
    by (cases "attributes pt ?p"; cases cached; force simp: mark_table_def Let_def set_page_def ras_page_def)
  then show "attributes pt' k = Unmapped \<longleftrightarrow> attributes pt k = Unmapped"
    "attributes pt' ?p \<noteq> Unmapped \<Longrightarrow> ras_page (attributes pt' ?p) = cached"
    using others [of k] by (cases "k = ?p"; simp)+
  show "watchpoint_pages pt' = watchpoint_pages pt"
    by (rule w)
  show "k \<noteq> ?p \<Longrightarrow> attributes pt' k = attributes pt k \<and> pointers pt' k = pointers pt k"
    by (rule others)
qed

text \<open>The relation that marking keeps between the page tables before and after.\<close>

definition same_memory :: "'r bus \<Rightarrow> guest_table \<Rightarrow> guest_table \<Rightarrow> bool" where
  "same_memory b pt pt' \<longleftrightarrow> linear_ok b pt' \<and> (\<forall>v. translate b pt' v = translate b pt v)"

lemma mark_table_same:
  assumes b: "bus_ok b" and ok: "linear_ok b pt" and q: "ras_base b (v div CITRA_PAGE_SIZE) \<noteq> None"
    and m: "mark_table b cached v pt = Some pt'"
  shows "same_memory b pt pt'"
proof -
  obtain p where p: "ras_base b (v div CITRA_PAGE_SIZE) = Some p"
    using q by blast
  note k = mark_table_keeps [OF b ok p m]
  have "translate b pt' a = translate b pt a" for a
  proof (cases "a div CITRA_PAGE_SIZE = v div CITRA_PAGE_SIZE")
    case True
    then show ?thesis
      using translate_page [OF b ok, of a p] translate_page [OF b k(1), of a p] p k(2) by simp
  next
    case False
    then show ?thesis
      using k(3) [OF False] k(4) by (simp add: translate_def Let_def split: PageType.split)
  qed
  with k(1) show ?thesis
    by (simp add: same_memory_def)
qed

lemma mark_tables_same:
  assumes "bus_ok b" "\<forall>pt\<in>set pts. linear_ok b pt" "ras_base b (v div CITRA_PAGE_SIZE) \<noteq> None"
    and "mark_tables b cached v pts = Some pts'"
  shows "list_all2 (same_memory b) pts pts'"
  using assms(2,4)
proof (induction pts arbitrary: pts')
  case (Cons pt pts)
  then show ?case
    using mark_table_same [OF assms(1) _ assms(3)] by (auto split: bind_splits)
qed simp

text \<open>What holds of the marks and the page tables at every moment.\<close>

definition marks_ok :: "'r bus \<Rightarrow> (nat \<Rightarrow> bool) \<times> guest_table list \<Rightarrow> bool" where
  "marks_ok b s \<longleftrightarrow> (\<forall>pt\<in>set (snd s). linear_ok b pt \<and> in_step b (fst s) pt)"

lemma mark_tables_in_step:
  assumes "bus_ok b" "\<forall>pt\<in>set pts. linear_ok b pt \<and> in_step b marks pt" "ras_base b (v div CITRA_PAGE_SIZE) \<noteq> None"
    and "mark_tables b cached v pts = Some pts'"
  shows "\<forall>pt\<in>set pts'. in_step b (marks(v div CITRA_PAGE_SIZE := cached)) pt"
  using assms(2,4)
proof (induction pts arbitrary: pts')
  case (Cons pt pts)
  obtain q where q: "ras_base b (v div CITRA_PAGE_SIZE) = Some q"
    using assms(3) by blast
  from Cons.prems(2) obtain pt1 pts1 where e: "mark_table b cached v pt = Some pt1" "mark_tables b cached v pts = Some pts1"
    "pts' = pt1 # pts1"
    by (auto split: bind_splits)
  have "in_step b (marks(v div CITRA_PAGE_SIZE := cached)) pt1"
    using Cons.prems(1) mark_table_keeps(2,3,5) [OF assms(1) _ q e(1)] unfolding in_step_def
    by (metis fun_upd_apply list.set_intros(1))
  moreover have "\<forall>pt\<in>set pts1. in_step b (marks(v div CITRA_PAGE_SIZE := cached)) pt"
    by (rule Cons.IH [OF _ e(2)]) (use Cons.prems(1) in simp)
  ultimately show ?case
    unfolding e(3) by (metis set_ConsD)
qed simp

lemma mark_address_same:
  assumes b: "bus_ok b" and ok: "marks_ok b s" and v: "v \<in> set (PhysicalToVirtualAddressForRasterizer b p)"
    and m: "mark_address b cached v s = Some s'"
  shows "marks_ok b s'" "list_all2 (same_memory b) (snd s) (snd s')"
proof -
  note r = phys_ras_base [OF b v]
  from m obtain pts where e: "mark_tables b cached v (snd s) = Some pts"
    "s' = ((fst s)(v div CITRA_PAGE_SIZE := cached), pts)"
    using r(2) by (auto simp: mark_address_def Mark_def split: bind_splits)
  have a: "list_all2 (same_memory b) (snd s) pts"
    using ok by (intro mark_tables_same [OF b _ r(1) e(1)]) (simp add: marks_ok_def)
  then have "\<forall>pt\<in>set pts. linear_ok b pt"
    by (auto simp: same_memory_def list_all2_conv_all_nth in_set_conv_nth)
  with mark_tables_in_step [OF b _ r(1) e(1)] ok show "marks_ok b s'"
    by (simp add: marks_ok_def e(2))
  show "list_all2 (same_memory b) (snd s) (snd s')"
    using a by (simp add: e(2))
qed

lemma same_memory_trans:
  assumes "list_all2 (same_memory b) xs ys" "list_all2 (same_memory b) ys zs"
  shows "list_all2 (same_memory b) xs zs"
  by (rule list_all2_trans [OF _ assms]) (auto simp: same_memory_def)

lemma same_memory_refl: "\<forall>pt\<in>set pts. linear_ok b pt \<Longrightarrow> list_all2 (same_memory b) pts pts"
  by (simp add: list.rel_refl_strong same_memory_def)

lemma mark_pages_same:
  assumes b: "bus_ok b" and ok: "marks_ok b s" and m: "mark_pages b cached p n s = Some s'"
  shows "marks_ok b s'" "list_all2 (same_memory b) (snd s) (snd s')"
proof -
  let ?I = "\<lambda>t. marks_ok b t \<and> list_all2 (same_memory b) (snd s) (snd t)"
  have "?I s'" if "?I t" "mark_pages b cached p n t = Some s'" for t
    using that
  proof (induction n arbitrary: p t)
    case (Suc n)
    from Suc.prems(2) obtain u where u: "for_each (mark_address b cached) (PhysicalToVirtualAddressForRasterizer b p) t = Some u"
      "mark_pages b cached (add32 p CITRA_PAGE_SIZE) n u = Some s'"
      by (auto split: bind_splits)
    have "?I u"
      using u(1) Suc.prems(1)
    proof (rule for_each_preserves)
      fix v t1 t2
      assume "v \<in> set (PhysicalToVirtualAddressForRasterizer b p)" "mark_address b cached v t1 = Some t2" "?I t1"
      then show "?I t2"
        using mark_address_same [OF b] same_memory_trans by blast
    qed
    with Suc.IH [OF _ u(2)] show ?case by blast
  qed auto
  moreover have "?I s"
    using ok by (auto simp: marks_ok_def intro: same_memory_refl)
  ultimately show "marks_ok b s'" "list_all2 (same_memory b) (snd s) (snd s')"
    using m by blast+
qed

text \<open>C25: Marking a region of physical memory as cached by the rasterizer, or as no longer cached, moves
  no guest address to other memory in any page table, and keeps the page types in step with the marks.
\<close>

theorem RasterizerMarkRegionCached_keeps:
  assumes "bus_ok b" "marks_ok b (marks, pts)"
    and "RasterizerMarkRegionCached b start len cached (marks, pts) = Some (marks', pts')"
  shows "marks_ok b (marks', pts') \<and> list_all2 (\<lambda>pt pt'. translate b pt' = translate b pt) pts pts'"
proof -
  have "marks_ok b (marks', pts') \<and> list_all2 (same_memory b) pts pts'"
  proof (cases "start = 0")
    case True
    then show ?thesis
      using assms(2,3) by (auto simp: RasterizerMarkRegionCached_def marks_ok_def intro: same_memory_refl)
  next
    case False
    then show ?thesis
      using assms(3) mark_pages_same [OF assms(1,2)] by (fastforce simp: RasterizerMarkRegionCached_def Let_def)
  qed
  then show ?thesis
    by (auto simp: same_memory_def elim!: list_all2_mono)
qed

section \<open>Watchpoints\<close>

text \<open>A loop that handles the page of its position and goes on at the next page.\<close>

lemma page_walk:
  assumes step: "\<And>c s. c < e \<Longrightarrow> ok (c div CITRA_PAGE_SIZE) s \<Longrightarrow>
      L c s = L (add32 (c div CITRA_PAGE_SIZE * CITRA_PAGE_SIZE) CITRA_PAGE_SIZE) (f (c div CITRA_PAGE_SIZE) s)"
    and stop: "\<And>c s. \<not> c < e \<Longrightarrow> L c s = Some s"
    and keep: "\<And>j k s. ok k s \<Longrightarrow> j \<noteq> k \<Longrightarrow> ok k (f j s)"
    and e: "e \<le> 0xFFFFF000" and c: "c < e"
    and ok: "\<forall>k\<in>set [c div CITRA_PAGE_SIZE..<Suc ((e - 1) div CITRA_PAGE_SIZE)]. ok k s"
  shows "L c s = Some (fold f [c div CITRA_PAGE_SIZE..<Suc ((e - 1) div CITRA_PAGE_SIZE)] s)"
  using c ok
proof (induction "e - c" arbitrary: c s rule: less_induct)
  case less
  let ?P = CITRA_PAGE_SIZE and ?k = "c div CITRA_PAGE_SIZE"
  let ?n = "(?k + 1) * ?P"
  have pos: "0 < ?P"
    by (simp add: CITRA_PAGE_SIZE_def)
  have cn: "c < ?n" "?k * ?P \<le> c"
    using page_split [of c] unfolding add_mult_distrib by linarith+
  have "?n < 2 ^ 32"
    using cn(2) less.prems(1) e by (simp add: CITRA_PAGE_SIZE_def)
  then have n: "add32 (?k * ?P) ?P = ?n"
    by (simp add: add32_def add.commute)
  have k: "?k < Suc ((e - 1) div ?P)"
    using less.prems(1) by (simp add: div_le_mono less_Suc_eq_le)
  then have cons: "[?k..<Suc ((e - 1) div ?P)] = ?k # [Suc ?k..<Suc ((e - 1) div ?P)]"
    by (rule upt_conv_Cons)
  have "ok ?k s"
    using less.prems(2) unfolding cons by simp
  from step [OF less.prems(1) this] have L: "L c s = L ?n (f ?k s)"
    unfolding n .
  show ?case
  proof (cases "?n < e")
    case True
    have d: "?n div ?P = Suc ?k"
      using pos by simp
    have "\<forall>j\<in>set [Suc ?k..<Suc ((e - 1) div ?P)]. ok j (f ?k s)"
      using less.prems(2) keep unfolding cons by auto
    with less.hyps [of ?n "f ?k s"] True cn less.prems(1) show ?thesis
      unfolding L cons d by simp
  next
    case False
    then have "(e - 1) div ?P = ?k"
      using less.prems(1) cn by (intro div_nat_eqI) (simp only: mult.commute [of ?P] mult_Suc_right add_mult_distrib; linarith)+
    then show ?thesis
      using stop [OF False] unfolding L by simp
  qed
qed

definition watch_page :: "'r bus \<Rightarrow> nat \<Rightarrow> guest_table \<Rightarrow> guest_table" where
  "watch_page b page pt =
     (case watchpoint_pages pt page of
        Some (n, r) \<Rightarrow> pt\<lparr>watchpoint_pages := (watchpoint_pages pt)(page \<mapsto> (add32 n 1, r))\<rparr>
      | None \<Rightarrow>
          if attributes pt page = Memory
          then (set_page page MemoryWatchpoint null_ref pt)
            \<lparr>watchpoint_pages := (watchpoint_pages pt)(page \<mapsto> (1, pointers pt page))\<rparr>
          else pt\<lparr>attributes := (attributes pt)(page := RasterizerCachedMemoryWatchpoint),
            watchpoint_pages := (watchpoint_pages pt)(page \<mapsto> (1, the (GetPointerForRasterizerCache b (page * CITRA_PAGE_SIZE))))\<rparr>)"

definition can_watch :: "'r bus \<Rightarrow> nat \<Rightarrow> guest_table \<Rightarrow> bool" where
  "can_watch b page pt \<longleftrightarrow> watchpoint_pages pt page \<noteq> None \<or> attributes pt page = Memory \<or>
     attributes pt page = RasterizerCachedMemory \<and> GetPointerForRasterizerCache b (page * CITRA_PAGE_SIZE) \<noteq> None"

lemma watch_page_other:
  assumes "j \<noteq> k"
  shows "watchpoint_pages (watch_page b j pt) k = watchpoint_pages pt k" "attributes (watch_page b j pt) k = attributes pt k"
    "pointers (watch_page b j pt) k = pointers pt k"
  using assms by (auto simp: watch_page_def set_page_def split: option.split)

lemma register_loop_pages:
  assumes "e \<le> 0xFFFFF000" "c < e" "\<forall>k\<in>set [c div CITRA_PAGE_SIZE..<Suc ((e - 1) div CITRA_PAGE_SIZE)]. can_watch b k pt"
  shows "register_loop b c e pt = Some (fold (watch_page b) [c div CITRA_PAGE_SIZE..<Suc ((e - 1) div CITRA_PAGE_SIZE)] pt)"
proof (rule page_walk [where ok = "can_watch b" and L = "\<lambda>c. register_loop b c e", OF _ _ _ assms])
  show "register_loop b c e s = register_loop b (add32 (c div CITRA_PAGE_SIZE * CITRA_PAGE_SIZE) CITRA_PAGE_SIZE) e
      (watch_page b (c div CITRA_PAGE_SIZE) s)" if "c < e" "can_watch b (c div CITRA_PAGE_SIZE) s" for c s
    using that by (subst register_loop.simps) (auto simp: watch_page_def can_watch_def Let_def split: option.split)
qed (simp_all add: register_loop.simps [of b _ e] can_watch_def watch_page_other)

lemma unregister_loop_pages:
  assumes "e \<le> 0xFFFFF000" "c < e"
  shows "unregister_loop c e pt = Some (fold unwatch_page [c div CITRA_PAGE_SIZE..<Suc ((e - 1) div CITRA_PAGE_SIZE)] pt)"
proof (rule page_walk [where ok = "\<lambda>_ _. True" and L = "\<lambda>c. unregister_loop c e", OF _ _ _ assms])
  show "unregister_loop c e s = unregister_loop (add32 (c div CITRA_PAGE_SIZE * CITRA_PAGE_SIZE) CITRA_PAGE_SIZE) e
      (unwatch_page (c div CITRA_PAGE_SIZE) s)" if "c < e" for c s
    using that by (subst unregister_loop.simps) simp
  show "unregister_loop c e s = Some s" if "\<not> c < e" for c s
    using that by (subst unregister_loop.simps) simp
qed simp_all

text \<open>Counts in range, and the type of a page in step with its watchpoints.\<close>

definition watch_ok :: "'r bus \<Rightarrow> nat \<Rightarrow> guest_table \<Rightarrow> bool" where
  "watch_ok b page pt \<longleftrightarrow>
     (case watchpoint_pages pt page of
        Some (n, r) \<Rightarrow> 0 < n \<and> n + 1 < 2 ^ 32 
      | None \<Rightarrow> attributes pt page = Memory \<or>
          attributes pt page = RasterizerCachedMemory \<and> GetPointerForRasterizerCache b (page * CITRA_PAGE_SIZE) \<noteq> None)"

lemma watch_ok_can: "watch_ok b k pt \<Longrightarrow> can_watch b k pt"
  by (auto simp: watch_ok_def can_watch_def split: option.splits)

lemma count_up_down: "n < 4294967295 \<Longrightarrow> sub32 (add32 n (Suc 0)) (Suc 0) = n" "sub32 (Suc 0) (Suc 0) = 0"
  by (simp_all add: add32_def sub32_def)

lemma unwatch_watch:
  assumes "watch_ok b k pt"
  shows "unwatch_page k (watch_page b k pt) = pt"
proof (cases "watchpoint_pages pt k")
  case None
  with assms show ?thesis
    by (auto simp: watch_ok_def watch_page_def unwatch_page_def set_page_def Let_def count_up_down fun_upd_idem)
next
  case (Some w)
  with assms show ?thesis
    by (cases w) (simp add: watch_ok_def watch_page_def unwatch_page_def count_up_down fun_upd_idem)
qed

lemma unwatch_watch_other:
  assumes "j \<noteq> k"
  shows "unwatch_page k (watch_page b j pt) = watch_page b j (unwatch_page k pt)"
  using assms
  by (auto simp: watch_page_def unwatch_page_def set_page_def Let_def fun_upd_twist split: option.split PageType.split)

lemma unwatch_watch_all:
  assumes "distinct ks" "\<forall>k\<in>set ks. watch_ok b k pt"
  shows "fold unwatch_page ks (fold (watch_page b) ks pt) = pt"
  using assms
proof (induction ks arbitrary: pt)
  case (Cons k ks)
  have "unwatch_page k (fold (watch_page b) js s) = fold (watch_page b) js (unwatch_page k s)" if "k \<notin> set js" for js s
    using that by (induction js arbitrary: s) (auto simp: unwatch_watch_other)
  with Cons show ?case
    by (simp add: unwatch_watch)
qed simp

lemma watch_page_translate:
  assumes "can_watch b k pt"
  shows "translate b (watch_page b k pt) v = translate b pt v"
  using assms by (auto simp: translate_def watch_page_def can_watch_def set_page_def Let_def split: option.split PageType.split)

lemma watch_pages_translate:
  assumes "distinct ks" "\<forall>k\<in>set ks. can_watch b k pt"
  shows "translate b (fold (watch_page b) ks pt) v = translate b pt v"
  using assms
proof (induction ks arbitrary: pt)
  case (Cons k ks)
  have "\<forall>j\<in>set ks. can_watch b j (watch_page b k pt)"
    using Cons.prems unfolding can_watch_def by (metis distinct.simps(2) list.set_intros(2) watch_page_other(1,2))
  with Cons show ?case
    by (simp add: watch_page_translate)
qed simp

text \<open>C26: Watching a range of mapped pages moves no guest address, and removing the watchpoint gives the
  page table back as it was.
\<close>

theorem watchpoint_roundtrip:
  assumes "0 < len" "v + len \<le> 0xFFFFF000"
    and "\<forall>k. v div CITRA_PAGE_SIZE \<le> k \<and> k * CITRA_PAGE_SIZE < v + len \<longrightarrow> watch_ok b k pt"
  obtains pt' where "RegisterWatchpoint b v len pt = Some pt'" "\<forall>a. translate b pt' a = translate b pt a"
    "UnregisterWatchpoint v len pt' = Some pt"
proof -
  let ?ks = "[v div CITRA_PAGE_SIZE..<Suc ((v + len - 1) div CITRA_PAGE_SIZE)]"
  have e: "add32 v len = v + len" "v < v + len"
    using assms(1,2) by (simp_all add: add32_def)
  have ok: "\<forall>k\<in>set ?ks. watch_ok b k pt"
  proof
    fix k assume "k \<in> set ?ks"
    then have "v div CITRA_PAGE_SIZE \<le> k" "k * CITRA_PAGE_SIZE \<le> v + len - 1"
      by (auto simp: less_Suc_eq_le less_eq_div_iff_mult_less_eq CITRA_PAGE_SIZE_def)
    with assms(1,3) show "watch_ok b k pt"
      by auto
  qed
  then have can: "\<forall>k\<in>set ?ks. can_watch b k pt"
    using watch_ok_can by blast
  show thesis
  proof (rule that)
    show "RegisterWatchpoint b v len pt = Some (fold (watch_page b) ?ks pt)"
      unfolding RegisterWatchpoint_def e(1) by (rule register_loop_pages [OF assms(2) e(2) can])
    show "\<forall>a. translate b (fold (watch_page b) ?ks pt) a = translate b pt a"
      using watch_pages_translate [OF distinct_upt can] by blast
    show "UnregisterWatchpoint v len (fold (watch_page b) ?ks pt) = Some pt"
      unfolding UnregisterWatchpoint_def e(1) unregister_loop_pages [OF assms(2) e(2)]
      by (simp only: unwatch_watch_all [OF distinct_upt ok])
  qed
qed

text \<open>C27: Registering a watchpoint does not return when the range starts on a page without memory.\<close>

theorem RegisterWatchpoint_unmapped_hangs:
  assumes "0 < len" "v + len < 2 ^ 32" "attributes pt (v div CITRA_PAGE_SIZE) = Unmapped"
    "watchpoint_pages pt (v div CITRA_PAGE_SIZE) = None"
  shows "RegisterWatchpoint b v len pt = None"
proof -
  define stuck where "stuck c e pt \<longleftrightarrow> c < e \<and> attributes pt (c div CITRA_PAGE_SIZE) = Unmapped \<and>
    watchpoint_pages pt (c div CITRA_PAGE_SIZE) = None" for c e :: nat and pt :: guest_table
  have stuck_loop: "\<not> stuck c e pt" if "register_loop b c e pt = Some r" for c e r
    using that
  proof (rule register_loop.raw_induct [of "\<lambda>b c e pt r. \<not> stuck c e pt", rotated], goal_cases)
    case (1 loop b c e pt r)
    show ?case
    proof
      assume s: "stuck c e pt"
      then have "loop b c e pt = Some r"
        using 1(2) by (simp add: stuck_def Let_def)
      from 1(1) [OF this] s show False
        by blast
    qed
  qed
  have "stuck v (v + len) pt" "add32 v len = v + len"
    using assms by (simp_all add: stuck_def add32_def)
  with stuck_loop [of v "v + len"] show ?thesis
    by (cases "register_loop b v (v + len) pt") (auto simp: RegisterWatchpoint_def)
qed

section \<open>Witnesses\<close>

text \<open>A page of the linear heap, ordinary memory until the rasterizer caches it.\<close>

definition linear_table :: guest_table where
  "linear_table = \<lparr>attributes = (\<lambda>_. Unmapped)(0x14000 := Memory),
     pointers = (\<lambda>_. null_ref)(0x14000 := \<lparr>ref_ptr = 0x10000000, ref_size = 0x1000\<rparr>), watchpoint_pages = (\<lambda>_. None)\<rparr>"

lemma linear_table_marks: "marks_ok demo_bus (\<lambda>_. False, [linear_table])"
  by (simp add: marks_ok_def linear_ok_def page_ok_def in_step_def linear_table_def null_ref_def ras_page_def
      ras_base_def demo_bus_def)

theorem RasterizerMarkRegionCached_keeps_witness:
  "\<exists>marks pt. RasterizerMarkRegionCached demo_bus 0x20000000 4096 True (\<lambda>_. False, [linear_table]) = Some (marks, [pt]) \<and>
     attributes pt 0x14000 = RasterizerCachedMemory \<and> translate demo_bus pt = translate demo_bus linear_table"
proof -
  define pt where "pt = set_page 0x14000 RasterizerCachedMemory null_ref linear_table"
  define marks :: "nat \<Rightarrow> bool" where "marks = (\<lambda>_. False)(0x14000 := True, 0x30000 := True)"
  have "mark_table demo_bus True 0x14000000 linear_table = Some pt"
    by (simp add: mark_table_def linear_table_def Let_def CITRA_PAGE_SIZE_def pt_def)
  moreover have "mark_table demo_bus True 0x30000000 pt = Some pt"
    by (simp add: mark_table_def pt_def set_page_def linear_table_def Let_def CITRA_PAGE_SIZE_def)
  moreover have "PhysicalToVirtualAddressForRasterizer demo_bus 0x20000000 = [0x14000000, 0x30000000]"
    by (simp add: PhysicalToVirtualAddressForRasterizer_def region_defs demo_bus_def)
  moreover have "Mark 0x30000000 True (Mark 0x14000000 True (\<lambda>_. False)) = marks"
    by (simp add: Mark_def has_mark_def region_defs CITRA_PAGE_SIZE_def marks_def)
  ultimately have "mark_pages demo_bus True 0x20000000 (Suc 0) (\<lambda>_. False, [linear_table]) = Some (marks, [pt])"
    by (simp add: mark_address_def)
  then have r: "RasterizerMarkRegionCached demo_bus 0x20000000 4096 True (\<lambda>_. False, [linear_table]) = Some (marks, [pt])"
    by (simp add: RasterizerMarkRegionCached_def add32_def sub32_def CITRA_PAGE_SIZE_def)
  with RasterizerMarkRegionCached_keeps [OF demo_ok(2) linear_table_marks r] show ?thesis
    by (auto simp: pt_def set_page_def)
qed

theorem watchpoint_roundtrip_witness:
  "\<exists>pt. RegisterWatchpoint demo_bus 0x100FFE 4 demo_table = Some pt \<and> UnregisterWatchpoint 0x100FFE 4 pt = Some demo_table"
proof (rule watchpoint_roundtrip [of 4 "0x100FFE" demo_bus demo_table])
  show "\<forall>k. 0x100FFE div CITRA_PAGE_SIZE \<le> k \<and> k * CITRA_PAGE_SIZE < 0x100FFE + 4 \<longrightarrow> watch_ok demo_bus k demo_table"
  proof (intro allI impI)
    fix k assume "0x100FFE div CITRA_PAGE_SIZE \<le> k \<and> k * CITRA_PAGE_SIZE < 0x100FFE + 4"
    then have "k = 0x100 \<or> k = 0x101"
      by (simp add: CITRA_PAGE_SIZE_def) linarith
    then show "watch_ok demo_bus k demo_table"
      by (auto simp: watch_ok_def demo_table_def)
  qed
qed auto

theorem RegisterWatchpoint_unmapped_hangs_witness: "RegisterWatchpoint demo_bus 0x200000 4 demo_table = None"
  by (rule RegisterWatchpoint_unmapped_hangs) (simp_all add: demo_table_def CITRA_PAGE_SIZE_def)

section \<open>Physical addresses\<close>

inductive region_cache :: "PhysMemRegionInfo \<Rightarrow> bool" where
  start: "region_cache no_region"
| lookup: "region_cache cache \<Longrightarrow> region_cache (GetPhysMemRegionInfo cache address)"

lemma region_cache_cases:
  "region_cache cache \<Longrightarrow> cache = no_region \<or> (\<exists>(r, start)\<in>set physical_areas. cache = region_info r start)"
proof (induction rule: region_cache.induct)
  case (lookup cache address)
  show ?case
  proof (cases "region_start cache \<le> address \<and> address < region_end cache")
    case True
    then have "GetPhysMemRegionInfo cache address = cache"
      by (simp add: GetPhysMemRegionInfo_def)
    with lookup.IH show ?thesis by (simp only:)
  next
    case False
    have mem: "x \<in> set xs" if "find P xs = Some x" for P :: "Region \<times> nat \<Rightarrow> bool" and x xs
      using that by (auto simp: find_Some_iff)
    show ?thesis
      unfolding GetPhysMemRegionInfo_def if_not_P [OF False] by (auto split: option.split dest!: mem)
  qed
qed simp

lemmas physical_defs = GetPhysMemRegionInfo_def physical_areas_def region_info_def no_region_def region_defs
  DSP_RAM_PADDR_def DSP_RAM_SIZE_def N3DS_EXTRA_RAM_PADDR_def N3DS_EXTRA_RAM_SIZE_def add32_def

text \<open>The cache of the last region never changes an answer: whatever was looked up before, a physical
  address is found in the region that a search from the start finds.
\<close>

lemma physical_lookup_uncached:
  assumes "region_cache cache"
  shows "GetPhysMemRegionInfo cache address = GetPhysMemRegionInfo no_region address"
proof -
  let ?find = "find (\<lambda>(r, start). start \<le> address \<and> address \<le> start + GetSize r) physical_areas"
  have hit: "GetPhysMemRegionInfo (region_info r start) address = GetPhysMemRegionInfo no_region address"
    if "(r, start) \<in> set physical_areas" for r start
  proof (cases "start \<le> address \<and> address < region_end (region_info r start)")
    case True
    have "?find = Some (r, start)"
      using that True by (auto simp: physical_areas_def physical_defs)
    then show ?thesis
      using True by (simp add: GetPhysMemRegionInfo_def region_info_def no_region_def)
  next
    case False
    then show ?thesis
      by (auto simp: GetPhysMemRegionInfo_def region_info_def no_region_def)
  qed
  show ?thesis
    using region_cache_cases [OF assms] hit by blast
qed

lemma physical_lookup_uncached_witness:
  "GetPhysMemRegionInfo (GetPhysMemRegionInfo no_region 0x18000000) 0x18600000 = region_info VRAM VRAM_PADDR"
  using physical_lookup_uncached [OF region_cache.lookup [OF region_cache.start], of "0x18000000" "0x18600000"]
  by (simp add: physical_defs)

end
