(* ===== verification/Memory_Calls.thy ===== *)
theory Memory_Calls
  imports Process_Memory Handle_Table
begin

text \<open>
  Memory shared between processes (\<open>core/hle/kernel/shared_memory.cpp\<close>) and the system calls on memory
  (\<open>svc.cpp\<close>): blocks, the control and the query of an address space, and the mapping of another
  process's memory.

  An operation works on the record \<open>process\<close> of the process it is called for. The state of a block has
  the number of the process that created it; a block without an owner belongs to a system service, and
  of \<open>process\<close> only the kernel's memory regions are then used. The contents of memory are not modelled.
\<close>

section \<open>Blocks\<close>

record shared_memory =
  linear_heap_phys_offset :: nat
  backing_blocks :: "(memory_ref \<times> nat) list"
  sm_size :: nat
  sm_region :: MemoryRegion
  permissions :: u32
  other_permissions :: u32
  owner_process :: "nat option"
  base_address :: nat
  sm_holding :: intervals

text \<open>\<open>MemoryPermission\<close>.\<close>

definition DontCare :: u32 where "DontCare = 0x10000000"

definition SHARED_MEMORY_VADDR_END :: nat where "SHARED_MEMORY_VADDR_END = 0x14000000"
definition PROCESS_IMAGE_VADDR :: nat where "PROCESS_IMAGE_VADDR = 0x00100000"

definition ConvertPermissions :: "u32 \<Rightarrow> u8" where
  "ConvertPermissions permission = ucast (permission AND 7)"

definition GetFCRAMPointer :: "nat \<Rightarrow> nat \<Rightarrow> nat option" where
  "GetFCRAMPointer fcram offset = do {
     assertion (offset \<le> FCRAM_N3DS_SIZE);
     Some (fcram + offset) }"

text \<open>The destructor. Whether the state could be changed back is not looked at.\<close>

fun free_shared :: "MemoryRegion \<Rightarrow> intervals \<Rightarrow> process \<Rightarrow> process option" where
  "free_shared g [] p = Some p"
| "free_shared g ((l, u) # is) p = do {
     r \<leftarrow> region_Free l (u - l) (GetMemoryRegion g (memory_regions p));
     free_shared g is (set_region g r p) }"

definition destroy_shared :: "(nat \<Rightarrow> bool) \<Rightarrow> shared_memory \<Rightarrow> process \<Rightarrow> process option" where
  "destroy_shared cached s p = do {
     p \<leftarrow> free_shared (sm_region s) (sm_holding s) p;
     if owner_process s = None then Some p
     else do {
       (l, _) \<leftarrow> Release (type_index RSharedMemory) 1 (process_limit p);
       let p = p\<lparr>process_limit := l\<rparr>;
       if base_address s \<noteq> 0 then do {
         (vm, _) \<leftarrow> ChangeMemoryState cached (base_address s) (sm_size s) StLocked PermNone StPrivate PermReadWrite (vm_manager p);
         Some (p\<lparr>vm_manager := vm\<rparr>) }
       else Some (p\<lparr>memory_used := sub32 (memory_used p) (sm_size s)\<rparr>) } }"

text \<open>
  \<open>KernelSystem::CreateSharedMemory\<close>. On the error path the new block is destroyed.
\<close>

definition CreateSharedMemory ::
  "(nat \<Rightarrow> bool) \<Rightarrow> nat \<Rightarrow> nat option \<Rightarrow> nat \<Rightarrow> u32 \<Rightarrow> u32 \<Rightarrow> nat \<Rightarrow> MemoryRegion \<Rightarrow> process \<Rightarrow>
   (process \<times> (u32 + shared_memory)) option" where
  "CreateSharedMemory cached fcram owner len perms other address region p =
     (let s = \<lparr>linear_heap_phys_offset = 0, backing_blocks = [], sm_size = len, sm_region = region, permissions = perms,
            other_permissions = other, owner_process = owner, base_address = 0, sm_holding = []\<rparr> in
      if address = 0 then do {
        (r, offset) \<leftarrow> region_LinearAllocate len (GetMemoryRegion region (memory_regions p));
        offset \<leftarrow> offset;
        _ \<leftarrow> GetFCRAMPointer fcram offset;
        _ \<leftarrow> GetFCRAMPointer fcram (add32 offset len);
        b \<leftarrow> GetFCRAMRef fcram offset;
        let p = set_region region r p;
        let p = (if owner \<noteq> None then p\<lparr>memory_used := add32 (memory_used p) len\<rparr> else p);
        Some (p, Inr (s\<lparr>linear_heap_phys_offset := offset, backing_blocks := [(b, len)],
          sm_holding := iv_add (offset, add32 offset len) []\<rparr>)) }
      else do {
        assertion (owner \<noteq> None);
        (vm, result) \<leftarrow> ChangeMemoryState cached address len StPrivate PermReadWrite StLocked (ConvertPermissions perms) (vm_manager p);
        let p = p\<lparr>vm_manager := vm\<rparr>;
        if result \<noteq> ResultSuccess then do {
          p \<leftarrow> destroy_shared cached s p;
          Some (p, Inl result) }
        else do {
          b \<leftarrow> GetBackingBlocksForRange address len vm;
          (case b of
             Inl e \<Rightarrow> None
           | Inr blocks \<Rightarrow> Some (p, Inr (s\<lparr>backing_blocks := blocks, base_address := address\<rparr>))) } })"

definition CreateSharedMemoryForApplet ::
  "nat \<Rightarrow> nat \<Rightarrow> nat \<Rightarrow> u32 \<Rightarrow> u32 \<Rightarrow> process \<Rightarrow> (process \<times> shared_memory) option" where
  "CreateSharedMemoryForApplet fcram offset len perms other p = do {
     (r, allocated) \<leftarrow> region_HeapAllocate len (GetMemoryRegion SYSTEM (memory_regions p));
     assertion (allocated \<noteq> []);
     blocks \<leftarrow> fcram_blocks fcram allocated;
     Some (set_region SYSTEM r p, \<lparr>linear_heap_phys_offset = 0, backing_blocks = blocks, sm_size = len,
       sm_region = SYSTEM, permissions = perms, other_permissions = other, owner_process = None,
       base_address = add32 HEAP_VADDR offset, sm_holding = allocated\<rparr>) }"

text \<open>\<open>SharedMemory::Map\<close> into the process number \<open>pid\<close>. The area at \<open>end()\<close> must not be read.\<close>

definition shared_target :: "nat \<Rightarrow> shared_memory \<Rightarrow> nat" where
  "shared_target address s =
     (if base_address s = 0 \<and> address = 0 then add32 (linear_heap_phys_offset s) LINEAR_HEAP_VADDR else address)"

definition shared_Map ::
  "(nat \<Rightarrow> bool) \<Rightarrow> nat \<Rightarrow> nat \<Rightarrow> u32 \<Rightarrow> u32 \<Rightarrow> shared_memory \<Rightarrow> process \<Rightarrow> (process \<times> u32) option" where
  "shared_Map cached pid address perms others s p =
     (let own = (if owner_process s = Some pid then permissions s else other_permissions s) in
      if base_address s = 0 \<and> others \<noteq> DontCare then Some (p, ResultInvalidCombination)
      else if perms AND NOT own \<noteq> 0 then Some (p, ResultInvalidCombination)
      else if base_address s \<noteq> 0 \<and> others = DontCare then Some (p, ResultInvalidCombination)
      else if others \<noteq> DontCare \<and> permissions s AND NOT others \<noteq> 0 then Some (p, ResultWrongPermission)
      else if address \<noteq> 0 \<and> (address < HEAP_VADDR \<or> add32 address (sm_size s) \<ge> SHARED_MEMORY_VADDR_END)
      then Some (p, ResultInvalidAddress)
      else do {
        let target = shared_target address s;
        used \<leftarrow> not_free target (sm_size s) (vm_manager p);
        if used then Some (p, ResultInvalidAddressState)
        else do {
          vm \<leftarrow> map_blocks cached StShared (ConvertPermissions perms) (backing_blocks s) target (vm_manager p);
          Some (p\<lparr>vm_manager := vm\<rparr>, ResultSuccess) } })"

definition shared_Unmap :: "(nat \<Rightarrow> bool) \<Rightarrow> nat \<Rightarrow> shared_memory \<Rightarrow> process \<Rightarrow> (process \<times> u32) option" where
  "shared_Unmap cached address s p = do {
     (vm, result) \<leftarrow> UnmapRange cached address (sm_size s) (vm_manager p);
     Some (p\<lparr>vm_manager := vm\<rparr>, result) }"

definition shared_GetPointer :: "nat \<Rightarrow> shared_memory \<Rightarrow> nat option" where
  "shared_GetPointer offset s = (case backing_blocks s of [] \<Rightarrow> None | (b, _) # _ \<Rightarrow> Some (ref_ptr b + offset))"

section \<open>System calls on blocks\<close>

definition VerifyPermissions :: "u32 \<Rightarrow> bool" where
  "VerifyPermissions permission \<longleftrightarrow> permission \<in> {0, 1, 2, 3, DontCare}"

text \<open>
  \<open>CreateMemoryBlock\<close>: \<open>device\<close> is the process's flag for shared device memory, \<open>obj\<close> makes an object
  for the handle table. A block for which the table has no room is destroyed.
\<close>

definition svc_CreateMemoryBlock ::
  "(nat \<Rightarrow> bool) \<Rightarrow> nat \<Rightarrow> nat \<Rightarrow> (shared_memory \<Rightarrow> 'o) \<Rightarrow> bool \<Rightarrow> nat \<Rightarrow> nat \<Rightarrow> u32 \<Rightarrow> u32 \<Rightarrow>
   process \<times> 'o handle_table \<Rightarrow> ((process \<times> 'o handle_table) \<times> (u32 + u32)) option" where
  "svc_CreateMemoryBlock cached fcram pid obj device addr len my other = (\<lambda>(p, ht).
     if len mod CITRA_PAGE_SIZE \<noteq> 0 then Some ((p, ht), Inl ResultMisalignedSize)
     else if \<not> VerifyPermissions my then Some ((p, ht), Inl ResultInvalidCombination)
     else if \<not> VerifyPermissions other then Some ((p, ht), Inl ResultInvalidCombination)
     else if (addr < PROCESS_IMAGE_VADDR \<or> add32 addr len > SHARED_MEMORY_VADDR_END) \<and> addr \<noteq> 0
     then Some ((p, ht), Inl ResultInvalidAddress)
     else do {
       (l, _) \<leftarrow> Reserve (type_index RSharedMemory) 1 (process_limit p);
       (p, r) \<leftarrow> CreateSharedMemory cached fcram (Some pid) len my other addr
         (if addr = 0 \<and> device then memory_region_of p else BASE) (p\<lparr>process_limit := l\<rparr>);
       (case r of
          Inl e \<Rightarrow> Some ((p, ht), Inl e)
        | Inr s \<Rightarrow>
            (case handle_create ht (obj s) of
               (ht, Inr h) \<Rightarrow> Some ((p, ht), Inr h)
             | (ht, Inl e) \<Rightarrow> do {
                 p \<leftarrow> destroy_shared cached s p;
                 Some ((p, ht), Inl e) })) })"

text \<open>The calls below are given the block that the handle names, if it names one.\<close>

definition svc_MapMemoryBlock ::
  "(nat \<Rightarrow> bool) \<Rightarrow> nat \<Rightarrow> shared_memory option \<Rightarrow> nat \<Rightarrow> u32 \<Rightarrow> u32 \<Rightarrow> process \<Rightarrow> (process \<times> u32) option" where
  "svc_MapMemoryBlock cached pid block addr perms others p =
     (case block of
        None \<Rightarrow> Some (p, ResultInvalidHandle)
      | Some s \<Rightarrow>
          if perms \<in> {1, 2, 3, 4, 5, 6, 7, DontCare} then shared_Map cached pid addr perms others s p
          else Some (p, ResultInvalidCombination))"

definition svc_UnmapMemoryBlock ::
  "(nat \<Rightarrow> bool) \<Rightarrow> shared_memory option \<Rightarrow> nat \<Rightarrow> process \<Rightarrow> (process \<times> u32) option" where
  "svc_UnmapMemoryBlock cached block addr p =
     (case block of None \<Rightarrow> Some (p, ResultInvalidHandle) | Some s \<Rightarrow> shared_Unmap cached addr s p)"

section \<open>Control and query\<close>

definition MEMOP_REGION_MASK :: u32 where "MEMOP_REGION_MASK = 0xF00"
definition MEMOP_OPERATION_MASK :: u32 where "MEMOP_OPERATION_MASK = 0xFF"
definition MEMOP_LINEAR :: u32 where "MEMOP_LINEAR = 0x10000"

text \<open>An address in the result is what the call wrote to its output.\<close>

definition address_result :: "process \<times> (u32 + nat) \<Rightarrow> process \<times> nat option \<times> u32" where
  "address_result = (\<lambda>(p, r). case r of Inl e \<Rightarrow> (p, None, e) | Inr a \<Rightarrow> (p, Some a, ResultSuccess))"

definition plain_result :: "process \<times> u32 \<Rightarrow> process \<times> nat option \<times> u32" where
  "plain_result = (\<lambda>(p, r). (p, None, r))"

definition svc_ControlMemory ::
  "(nat \<Rightarrow> bool) \<Rightarrow> nat \<Rightarrow> nat \<Rightarrow> nat \<Rightarrow> nat \<Rightarrow> u32 \<Rightarrow> u32 \<Rightarrow> process \<Rightarrow> (process \<times> nat option \<times> u32) option" where
  "svc_ControlMemory cached fcram addr0 addr1 len operation perms p =
     (if \<not> page_aligned addr0 \<or> \<not> page_aligned addr1 then Some (p, None, ResultMisalignedAddress)
      else if \<not> page_aligned len then Some (p, None, ResultMisalignedSize)
      else
        let operation = operation AND NOT MEMOP_REGION_MASK;
            op = operation AND MEMOP_OPERATION_MASK;
            vma_permissions = ucast perms :: u8 in
        if perms AND 3 \<noteq> perms then Some (p, None, ResultInvalidCombination)
        else if op = 1 then
          (if HEAP_VADDR \<le> addr0 \<and> addr0 < HEAP_VADDR_END then do {
             (p, r) \<leftarrow> HeapFree cached fcram addr0 len p;
             Some (p, if r = ResultSuccess then Some addr0 else None, r) }
           else if GetLinearHeapBase p \<le> addr0 \<and> addr0 < GetLinearHeapLimit p then do {
             (p, r) \<leftarrow> LinearFree cached addr0 len p;
             Some (p, if r = ResultSuccess then Some addr0 else None, r) }
           else Some (p, None, ResultInvalidAddress))
        else if op = 3 then
          (if operation AND MEMOP_LINEAR \<noteq> 0
           then map_option address_result (LinearAllocate cached fcram addr0 len vma_permissions p)
           else map_option address_result (HeapAllocate cached fcram addr0 len vma_permissions StPrivate False p))
        else if op = 4 then map_option plain_result (process_Map cached addr0 addr1 len vma_permissions False p)
        else if op = 5 then map_option plain_result (process_Unmap cached addr0 addr1 len vma_permissions False p)
        else if op = 6 then do {
          (vm, r) \<leftarrow> ReprotectRange cached addr0 len vma_permissions (vm_manager p);
          Some (p\<lparr>vm_manager := vm\<rparr>, None, r) }
        else Some (p, None, ResultInvalidCombination))"

record MemoryInfo =
  info_base :: nat
  info_size :: nat
  info_permission :: u8
  info_state :: MemoryState

definition same_info :: "vma \<Rightarrow> vma \<Rightarrow> bool" where
  "same_info v w \<longleftrightarrow> vma_perms w = vma_perms v \<and> vma_state w = vma_state v"

text \<open>The areas around the one of an address that have its permissions and state, as far as they reach.\<close>

definition query_memory :: "nat \<Rightarrow> vma list \<Rightarrow> (u32 + MemoryInfo) option" where
  "query_memory addr m = do {
     i \<leftarrow> FindVMA addr m;
     if i = length m then Some (Inl ResultInvalidAddress)
     else
       let v = m ! i;
           lower = i - length (takeWhile (same_info v) (rev (take i m)));
           upper = i + length (takeWhile (same_info v) (drop i m)) - 1
       in Some (Inr \<lparr>info_base = vma_base (m ! lower),
            info_size = sub32 (add32 (vma_base (m ! upper)) (vma_size (m ! upper))) (vma_base (m ! lower)),
            info_permission = vma_perms v, info_state = vma_state v\<rparr>) }"

definition svc_QueryProcessMemory :: "process option \<Rightarrow> nat \<Rightarrow> (u32 + MemoryInfo) option" where
  "svc_QueryProcessMemory proc addr =
     (case proc of None \<Rightarrow> Some (Inl ResultInvalidHandle) | Some p \<Rightarrow> query_memory addr (vma_map (vm_manager p)))"

section \<open>The memory of another process\<close>

definition svc_ConvertVaToPa :: "nat \<Rightarrow> nat \<Rightarrow> process \<Rightarrow> nat option" where
  "svc_ConvertVaToPa fcram addr p = do {
     let m = vma_map (vm_manager p);
     i \<leftarrow> FindVMA addr m;
     if i = length m \<or> vma_type (m ! i) \<noteq> BackingMemory then Some 0
     else do {
       offset \<leftarrow> GetFCRAMOffset fcram (ref_ptr (vma_backing (m ! i)) + addr - vma_base (m ! i));
       Some (add32 offset 0x20000000) } }"

definition round_up :: "nat \<Rightarrow> nat" where
  "round_up len = (if len mod CITRA_PAGE_SIZE = 0 then len else add32 (len div CITRA_PAGE_SIZE * CITRA_PAGE_SIZE) CITRA_PAGE_SIZE)"

text \<open>
  \<open>get\<close> finds the process of a handle. A first handle of \<open>0xFFFFFFF2\<close> marks the version of the call that
  has flags and passes the handle in another argument.
\<close>

definition svc_MapProcessMemoryEx ::
  "(nat \<Rightarrow> bool) \<Rightarrow> nat \<Rightarrow> (u32 \<Rightarrow> nat option) \<Rightarrow> u32 \<Rightarrow> nat \<Rightarrow> u32 \<Rightarrow> nat \<Rightarrow> nat \<Rightarrow> u32 \<Rightarrow> u32 \<Rightarrow>
   (nat \<Rightarrow> process) \<Rightarrow> ((nat \<Rightarrow> process) \<times> u32) option" where
  "svc_MapProcessMemoryEx cached fcram get dst_handle dst_address src_handle src_address len flags backup procs =
     (let version2 = (dst_handle = 0xFFFFFFF2);
          dst_handle = (if version2 then backup else dst_handle);
          flags = (if version2 then flags else 0);
          len = round_up len in
      case (get dst_handle, get src_handle) of
        (Some dst, Some src) \<Rightarrow> do {
          let m = vma_map (vm_manager (procs src));
          i \<leftarrow> FindVMA src_address m;
          if i = length m \<or> vma_type (m ! i) \<noteq> BackingMemory then Some (procs, ResultInvalidAddress)
          else do {
            let offset = sub32 src_address (vma_base (m ! i));
            if \<not> add32 offset len \<le> vma_size (m ! i) then Some (procs, ResultInvalidAddress)
            else do {
              base \<leftarrow> GetFCRAMPointer fcram 0;
              assertion (base \<le> ref_ptr (vma_backing (m ! i)) + offset);
              b \<leftarrow> GetFCRAMRef fcram (ref_ptr (vma_backing (m ! i)) + offset - base);
              (vm, r) \<leftarrow> MapBackingMemory cached dst_address b len (if flags AND 1 \<noteq> 0 then StPrivate else StShared)
                (vm_manager (procs dst));
              (case r of
                 Inl _ \<Rightarrow> Some (procs(dst := (procs dst)\<lparr>vm_manager := vm\<rparr>), ResultInvalidAddressState)
               | Inr v \<Rightarrow> do {
                   (vm, _) \<leftarrow> Reprotect cached 7 v vm;
                   Some (procs(dst := (procs dst)\<lparr>vm_manager := vm\<rparr>), ResultSuccess) }) } } }
      | _ \<Rightarrow> Some (procs, ResultInvalidHandle))"

definition svc_UnmapProcessMemoryEx ::
  "(nat \<Rightarrow> bool) \<Rightarrow> process option \<Rightarrow> nat \<Rightarrow> nat \<Rightarrow> (process option \<times> u32) option" where
  "svc_UnmapProcessMemoryEx cached proc dst_address len =
     (case proc of
        None \<Rightarrow> Some (None, ResultInvalidHandle)
      | Some p \<Rightarrow> do {
          let m = vma_map (vm_manager p);
          i \<leftarrow> FindVMA dst_address m;
          if i = length m \<or> vma_type (m ! i) \<noteq> BackingMemory then Some (Some p, ResultInvalidAddress)
          else do {
            (vm, _) \<leftarrow> UnmapRange cached dst_address (round_up len) (vm_manager p);
            Some (Some (p\<lparr>vm_manager := vm\<rparr>), ResultSuccess) } })"

end
