(* ===== verification/Memory_Props.thy ===== *)
theory Memory_Props
  imports Memory_Calls Process_Props
begin

text \<open>
  What the system calls on memory promise: the range that a query reports, the life of a shared block
  and its mapping into a process, and calls of the guest that stop the emulator.
\<close>

section \<open>The query\<close>

text \<open>Permissions and state of a page.\<close>

definition info_at :: "vma list \<Rightarrow> nat \<Rightarrow> (u8 \<times> MemoryState) option" where
  "info_at m a = map_option (\<lambda>(_, p, s, _). (p, s)) (view m a)"

lemma info_at_inside:
  assumes "covers b m c" "v \<in> set m" "inside v a"
  shows "info_at m a = Some (vma_perms v, vma_state v)"
proof -
  obtain xs ys where m: "m = xs @ v # ys"
    using assms(2) by (auto simp: in_set_conv_decomp)
  show ?thesis
    using view_at [OF assms(1) [unfolded m] assms(3)] by (simp add: info_at_def m attr_def)
qed

lemma covers_run:
  assumes "covers b m c" "b \<le> a" "a < c" "\<forall>v\<in>set m. vma_perms v = p \<and> vma_state v = s"
  shows "info_at m a = Some (p, s)"
proof -
  obtain v where "v \<in> set m" "inside v a"
    using view_Some_inside [OF assms(1-3)] by blast
  with info_at_inside [OF assms(1)] assms(4) show ?thesis by simp
qed

lemma covers_first: "covers b (v # vs) c \<Longrightarrow> vma_base v = b"
  by simp

lemma covers_last: "covers b (vs @ [v]) c \<Longrightarrow> vma_end v = c \<and> vma_base v < c \<and> 0 < vma_size v"
  by (auto simp: covers_append vma_end_def)

text \<open>The areas of a map around one of them: below, with the same permissions and state, beyond.\<close>

lemma runs:
  assumes lows_def: "lows = takeWhile (same_info v) (rev xs)" and ups_def: "ups = takeWhile (same_info v) ys"
    and below_def: "below = rev (dropWhile (same_info v) (rev xs))" and beyond_def: "beyond = dropWhile (same_info v) ys"
  shows "xs = below @ rev lows" "ys = ups @ beyond" "length xs - length lows = length below"
    "\<forall>w\<in>set (rev lows @ v # ups). vma_perms w = vma_perms v \<and> vma_state w = vma_state v"
    "below \<noteq> [] \<Longrightarrow> \<not> same_info v (last below)" "beyond \<noteq> [] \<Longrightarrow> \<not> same_info v (hd beyond)"
proof -
  show xs: "xs = below @ rev lows" and "ys = ups @ beyond"
    by (simp_all add: lows_def ups_def below_def beyond_def rev_append [symmetric] del: rev_append)
  have "length xs = length below + length lows"
    by (subst xs) simp
  then show "length xs - length lows = length below"
    by simp
  show "\<forall>w\<in>set (rev lows @ v # ups). vma_perms w = vma_perms v \<and> vma_state w = vma_state v"
    by (auto simp: lows_def ups_def same_info_def dest!: set_takeWhileD)
  show "below \<noteq> [] \<Longrightarrow> \<not> same_info v (last below)" "beyond \<noteq> [] \<Longrightarrow> \<not> same_info v (hd beyond)"
    by (simp_all add: below_def beyond_def last_rev hd_dropWhile)
qed

lemma query_memory_range:
  assumes c: "covers 0 m MAX_ADDRESS" and a: "addr < MAX_ADDRESS"
  shows "\<exists>b n p s. query_memory addr m = Some (Inr \<lparr>info_base = b, info_size = n, info_permission = p, info_state = s\<rparr>) \<and>
    b \<le> addr \<and> addr < b + n \<and> b + n \<le> MAX_ADDRESS \<and> (\<forall>x. b \<le> x \<and> x < b + n \<longrightarrow> info_at m x = Some (p, s)) \<and>
    (0 < b \<longrightarrow> info_at m (b - 1) \<noteq> Some (p, s)) \<and> (b + n < MAX_ADDRESS \<longrightarrow> info_at m (b + n) \<noteq> Some (p, s))"
proof -
  obtain xs v ys where m: "m = xs @ v # ys" "FindVMA addr m = Some (length xs)" "inside v addr"
    by (rule FindVMA_covers [OF c a])
  define lows where "lows = takeWhile (same_info v) (rev xs)"
  define ups where "ups = takeWhile (same_info v) ys"
  define below where "below = rev (dropWhile (same_info v) (rev xs))"
  define beyond where "beyond = dropWhile (same_info v) ys"
  note r = runs [OF lows_def ups_def below_def beyond_def]
  let ?run = "rev lows @ v # ups"
  have run: "m = below @ ?run @ beyond"
    using m(1) r(1,2) by simp
  from c obtain b e where k: "covers 0 below b" "covers b ?run e" "covers e beyond MAX_ADDRESS"
    unfolding run covers_append by blast
  have e: "e \<le> MAX_ADDRESS" and b: "b \<le> vma_base v" "vma_end v \<le> e"
    using covers_le [OF k(3)] covers_bounds [OF k(2), of v] by simp_all
  have lo: "vma_base (m ! length below) = b"
  proof (cases ?run)
    case (Cons w ws)
    with k(2) show ?thesis by (simp add: run nth_append)
  qed simp
  have up: "vma_end (m ! (length xs + length ups)) = e"
  proof (cases ups rule: rev_cases)
    case Nil
    with k(2) show ?thesis by (simp add: m(1) covers_append vma_end_def)
  next
    case (snoc us w)
    have "m ! (length xs + length ups) = w"
      by (simp add: m(1) r(2) snoc nth_append)
    with k(2) snoc show ?thesis by (auto simp: covers_append vma_end_def)
  qed
  have size: "sub32 (add32 (vma_base (m ! (length xs + length ups))) (vma_size (m ! (length xs + length ups)))) b = e - b"
    using up e b m(3) MAX_small unfolding vma_end_def inside_def by (simp add: add32_small sub32_small)
  have "takeWhile (same_info v) (drop (length xs) m) = v # ups"
    by (simp add: m(1) ups_def same_info_def)
  then have q: "query_memory addr m = Some (Inr \<lparr>info_base = b, info_size = e - b, info_permission = vma_perms v, info_state = vma_state v\<rparr>)"
    using m(1,2) r(3) lo size by (simp add: query_memory_def Let_def lows_def [symmetric])
  have in_run: "info_at m x = Some (vma_perms v, vma_state v)" if ax: "b \<le> x" "x < e" for x
  proof -
    obtain w where "w \<in> set ?run" "inside w x"
      using view_Some_inside [OF k(2) ax] by blast
    with info_at_inside [OF c, of w x] r(4) show ?thesis by (auto simp: run)
  qed
  have "info_at m (b - 1) \<noteq> Some (vma_perms v, vma_state v)" if "0 < b"
  proof -
    from that k(1) obtain ws w where w: "below = ws @ [w]"
      by (cases below rule: rev_cases) auto
    have "inside w (b - 1)"
      using covers_last [OF k(1) [unfolded w]] by (auto simp: inside_def)
    with info_at_inside [OF c, of w] r(5) show ?thesis
      by (simp add: run w same_info_def)
  qed
  moreover have "info_at m e \<noteq> Some (vma_perms v, vma_state v)" if "e < MAX_ADDRESS"
  proof -
    from that k(3) obtain w ws where w: "beyond = w # ws"
      by (cases beyond) auto
    have "inside w e"
      using k(3) w by (auto simp: inside_def vma_end_def)
    with info_at_inside [OF c, of w] r(6) show ?thesis
      by (simp add: run w same_info_def)
  qed
  ultimately show ?thesis
    using q in_run b e m(3)
    by (intro exI [of _ b] exI [of _ "e - b"] exI [of _ "vma_perms v"] exI [of _ "vma_state v"]) (auto simp: inside_def)
qed

section \<open>Blocks\<close>

text \<open>C31: When a block cannot be created over memory of the process, the process's count of used memory goes
  down by the size of the block, which was never added to it: the destructor takes the unfinished
  block for one that was allocated.
\<close>

theorem failed_block_uncounts:
  assumes "CreateSharedMemory cached fcram owner len perms other address region p = Some (p', Inl e)"
  shows "address \<noteq> 0 \<and> owner \<noteq> None \<and> memory_used p' = sub32 (memory_used p) len"
proof -
  have "address \<noteq> 0"
    using assms by (cases "address = 0") (auto simp: CreateSharedMemory_def Let_def split: bind_splits)
  with assms show ?thesis
    by (auto simp: CreateSharedMemory_def destroy_shared_def Let_def split: bind_splits if_splits sum.splits)
qed

definition count_of :: "ResourceLimitType \<Rightarrow> process \<Rightarrow> int" where
  "count_of ty p = m_current_values (process_limit p) ! type_index ty"


text \<open>What a block needs to be mapped: its pieces are host memory, in pages.\<close>

definition block_ok :: "(nat \<Rightarrow> nat) \<Rightarrow> shared_memory \<Rightarrow> bool" where
  "block_ok ext s \<longleftrightarrow> (\<forall>(b, n) \<in> set (backing_blocks s). ref_ok ext b \<and> n \<le> ref_size b \<and> page_aligned n \<and> 0 < n) \<and>
     blocks_len (backing_blocks s) = sm_size s \<and> 0 < sm_size s"

lemma shared_Map_mapped:
  assumes "process_ok ext p" "host_ok ext" "block_ok ext s" "page_aligned (shared_target address s)"
    and t: "all_free (shared_target address s) (sm_size s) (view (vma_map (vm_manager p)))"
      "shared_target address s + sm_size s \<le> MAX_ADDRESS"
  shows "\<exists>vm. not_free (shared_target address s) (sm_size s) (vm_manager p) = Some False \<and>
    map_blocks cached StShared q (backing_blocks s) (shared_target address s) (vm_manager p) = Some vm \<and> vm_ok ext vm \<and> \<not> vm_locked vm \<and>
    (\<forall>a. shared_target address s \<le> a \<and> a < shared_target address s + sm_size s \<longrightarrow>
       view (vma_map vm) a = Some (BackingMemory, q, StShared, block_bytes (backing_blocks s) ! (a - shared_target address s))) \<and>
    (\<forall>a. \<not> (shared_target address s \<le> a \<and> a < shared_target address s + sm_size s) \<longrightarrow>
       maybe_reprotected q (view (vma_map (vm_manager p)) a) (view (vma_map vm) a))"
proof -
  note ok = process_okD [OF assms(1)]
  have b: "\<forall>(b, n) \<in> set (backing_blocks s). ref_ok ext b \<and> n \<le> ref_size b \<and> page_aligned n \<and> 0 < n"
    "blocks_len (backing_blocks s) = sm_size s" "0 < sm_size s"
    using assms(3) by (simp_all add: block_ok_def)
  have "not_free (shared_target address s) (sm_size s) (vm_manager p) = Some False"
    by (rule not_free_all_free [OF ok(1) t(1) b(3) t(2)])
  moreover have "shared_target address s + sm_size s < 2 ^ 32"
    using t(2) MAX_small by simp
  ultimately show ?thesis
    using map_blocks_spec [OF ok(1,2) assms(2) b(1) assms(4), unfolded b(2), OF t(1)] by blast
qed

text \<open>The rights that a process asks for agree with what the block's owner allows and needs.\<close>

definition map_rights :: "nat \<Rightarrow> u32 \<Rightarrow> u32 \<Rightarrow> shared_memory \<Rightarrow> bool" where
  "map_rights pid perms others s \<longleftrightarrow>
     (base_address s = 0 \<longleftrightarrow> others = DontCare) \<and>
     perms AND NOT (if owner_process s = Some pid then permissions s else other_permissions s) = 0 \<and>
     (others \<noteq> DontCare \<longrightarrow> permissions s AND NOT others = 0)"


text \<open>
  An address near the end of the 32-bit space passes the check of the range, because its end wraps
  around; the emulator then reads behind the last area.
\<close>

lemma shared_Map_wraps:
  assumes "map_rights pid perms others s" "MAX_ADDRESS \<le> address" "add32 address (sm_size s) < SHARED_MEMORY_VADDR_END"
  shows "shared_Map cached pid address perms others s p = None"
proof -
  have a: "address \<noteq> 0" "\<not> address < HEAP_VADDR"
    using assms(2) by (simp_all add: MAX_ADDRESS_def HEAP_VADDR_def)
  then have "not_free (shared_target address s) (sm_size s) (vm_manager p) = None"
    using FindVMA_end [OF assms(2)] by (simp add: not_free_def shared_target_def)
  with assms(1,3) a show ?thesis
    by (auto simp: shared_Map_def map_rights_def Let_def)
qed

section \<open>System calls\<close>

text \<open>C30: A query of an address below the end of the address space reports the largest range around it whose
  pages have its permissions and state.
\<close>

theorem QueryProcessMemory_range:
  assumes "vm_ok ext (vm_manager p)" "addr < MAX_ADDRESS"
  obtains b n perm state where "svc_QueryProcessMemory (Some p) addr =
      Some (Inr \<lparr>info_base = b, info_size = n, info_permission = perm, info_state = state\<rparr>)"
    "b \<le> addr" "addr < b + n" "b + n \<le> MAX_ADDRESS"
    "\<forall>x. b \<le> x \<and> x < b + n \<longrightarrow> info_at (vma_map (vm_manager p)) x = Some (perm, state)"
    "0 < b \<longrightarrow> info_at (vma_map (vm_manager p)) (b - 1) \<noteq> Some (perm, state)"
    "b + n < MAX_ADDRESS \<longrightarrow> info_at (vma_map (vm_manager p)) (b + n) \<noteq> Some (perm, state)"
  using query_memory_range [OF map_ok_covers [OF vm_okD(1) [OF assms(1)]] assms(2)] that
  by (auto simp: svc_QueryProcessMemory_def)

text \<open>
  The guest can stop the emulator with one call: a change of permissions over no pages, or over pages
  behind the end of the address space, fails an assertion instead of being refused.
\<close>

lemma ControlMemory_protect_stops:
  assumes "page_aligned addr0" "page_aligned addr1" "page_aligned len" "perms AND 3 = perms"
    and "(operation AND NOT MEMOP_REGION_MASK) AND MEMOP_OPERATION_MASK = 6"
    and "len = 0 \<or> MAX_ADDRESS < add32 addr0 len"
  shows "svc_ControlMemory cached fcram addr0 addr1 len operation perms p = None"
proof -
  have "CarveVMARange addr0 len (vma_map (vm_manager p)) = None"
    using assms(6) by (auto simp: CarveVMARange_def Let_def assertion_def)
  then have "ReprotectRange cached addr0 len (ucast perms) (vm_manager p) = None"
    by (simp add: ReprotectRange_def)
  with assms(1-5) show ?thesis
    by (simp add: svc_ControlMemory_def Let_def)
qed

section \<open>Witnesses\<close>

text \<open>A page of the linear heap as a block of process 1.\<close>

definition demo_block :: shared_memory where
  "demo_block = \<lparr>linear_heap_phys_offset = 0x1000, backing_blocks = [(\<lparr>ref_ptr = 0x2000, ref_size = FCRAM_N3DS_SIZE - 0x1000\<rparr>, 0x1000)],
     sm_size = 0x1000, sm_region = APPLICATION, permissions = 3, other_permissions = 1, owner_process = Some 1,
     base_address = 0, sm_holding = [(0x1000, 0x2000)]\<rparr>"

lemma demo_block_ok: "block_ok demo_fcram_host demo_block"
  by (simp add: block_ok_def demo_block_def ref_ok_def demo_fcram_host_def FCRAM_N3DS_SIZE_def page_aligned_def
      CITRA_PAGE_SIZE_def blocks_len_def)

theorem failed_block_uncounts_witness:
  "\<exists>p'. CreateSharedMemory (\<lambda>_. False) 0x1000 (Some 1) 0x1000 3 1 0x08000000 BASE demo_process =
     Some (p', Inl ResultInvalidAddressState) \<and> memory_used p' = 0xFFFFF000"
proof -
  have vm: "vm_ok demo_fcram_host demo_vm" "\<not> vm_locked demo_vm" "host_ok demo_fcram_host"
    using process_okD(1,2) [OF demo_process_ok] demo_fcram_host by (simp_all add: demo_process_def fcram_host_def)
  have "\<not> range_used 0x08000000 0x1000 (vma_map demo_vm)"
    unfolding range_used_view demo_vm_ok(3) none_free_def using demo_free [of "0x08000000" "0x1000"]
    by (auto simp: all_free_def MAX_ADDRESS_def)
  moreover have "range_args 0x08000000 0x1000"
    by (simp add: range_args_def page_aligned_def CITRA_PAGE_SIZE_def MAX_ADDRESS_def)
  ultimately have "ChangeMemoryState (\<lambda>_. False) 0x08000000 0x1000 StPrivate PermReadWrite StLocked (ConvertPermissions 3) demo_vm =
      Some (demo_vm, ResultInvalidAddressState)"
    using ChangeMemoryState_spec(2) [OF vm] by blast
  moreover have "ResultInvalidAddressState \<noteq> ResultSuccess"
    by code_simp
  ultimately obtain p' where p': "CreateSharedMemory (\<lambda>_. False) 0x1000 (Some 1) 0x1000 3 1 0x08000000 BASE demo_process =
      Some (p', Inl ResultInvalidAddressState)"
    by (simp add: CreateSharedMemory_def destroy_shared_def demo_process_def Release_def Create_def in_s32_def Let_def)
  with failed_block_uncounts [OF p'] show ?thesis
    by (simp add: demo_process_def sub32_def)
qed



lemma shared_Map_wraps_witness:
  "shared_Map (\<lambda>_. False) 2 0xFFFFF000 1 DontCare demo_block demo_process = None"
  by (rule shared_Map_wraps)
    (simp_all add: map_rights_def demo_block_def MAX_ADDRESS_def add32_def SHARED_MEMORY_VADDR_END_def)

theorem QueryProcessMemory_range_witness:
  "\<exists>n state. svc_QueryProcessMemory (Some demo_process) 0x08001234 =
     Some (Inr \<lparr>info_base = 0, info_size = n, info_permission = PermNone, info_state = state\<rparr>) \<and> 0x08001234 < n"
proof -
  note ok = process_okD(1) [OF demo_process_ok]
  show ?thesis
  proof (rule QueryProcessMemory_range [OF ok, of "0x08001234"])
    show "0x08001234 < MAX_ADDRESS" by (simp add: MAX_ADDRESS_def)
    fix b n perm state
    assume q: "svc_QueryProcessMemory (Some demo_process) 0x08001234 =
        Some (Inr \<lparr>info_base = b, info_size = n, info_permission = perm, info_state = state\<rparr>)"
      and r: "b \<le> 0x08001234" "0x08001234 < b + n"
      "\<forall>x. b \<le> x \<and> x < b + n \<longrightarrow> info_at (vma_map (vm_manager demo_process)) x = Some (perm, state)"
      "0 < b \<longrightarrow> info_at (vma_map (vm_manager demo_process)) (b - 1) \<noteq> Some (perm, state)"
    have i: "info_at (vma_map (vm_manager demo_process)) x = Some (PermNone, StFree)" if "x < MAX_ADDRESS" for x
      using that by (simp add: info_at_def demo_process_def demo_vm_ok(3) reset_view_def free_page_def)
    have "perm = PermNone \<and> state = StFree"
      using i [of "0x08001234"] r(1-3) by (simp add: MAX_ADDRESS_def)
    moreover have "b - 1 < MAX_ADDRESS"
      using r(1) unfolding MAX_ADDRESS_def by linarith
    ultimately have "b = 0"
      using r(4) i [of "b - 1"] by blast
    with q r(2) \<open>perm = PermNone \<and> state = StFree\<close> show ?thesis by simp
  qed
qed

lemma ControlMemory_protect_stops_witness:
  "svc_ControlMemory (\<lambda>_. False) 0x1000 0x08000000 0 0 6 3 demo_process = None"
  by (rule ControlMemory_protect_stops) (simp_all add: page_aligned_def MEMOP_REGION_MASK_def MEMOP_OPERATION_MASK_def CITRA_PAGE_SIZE_def)

end
