(* ===== verification/String_Util.thy ===== *)
theory String_Util
  imports Prelude
begin

text \<open>
  The string helpers of \<open>common/string_util.cpp\<close>: stripping, splitting at a delimiter as
  \<open>std::getline\<close> does it, and replacing all occurrences of a string. Strings are lists of characters;
  case conversion and the UTF-16 conversions of the host's libraries are not modelled.
\<close>

section \<open>Stripping and tests\<close>

definition is_blank :: "char \<Rightarrow> bool" where
  "is_blank c \<longleftrightarrow> c = CHR '' '' \<or> c = CHR 0x09 \<or> c = CHR 0x0D \<or> c = CHR 0x0A"

text \<open>\<open>find_first_not_of\<close> and \<open>find_last_not_of\<close> bound the part that is kept.\<close>

definition StripSpaces :: "string \<Rightarrow> string" where
  "StripSpaces str = rev (dropWhile is_blank (rev (dropWhile is_blank str)))"

definition StripQuotes :: "string \<Rightarrow> string" where
  "StripQuotes s =
     (if s \<noteq> [] \<and> hd s = CHR 0x22 \<and> last s = CHR 0x22 then take (length s - 2) (tl s) else s)"

definition StringFromBool :: "bool \<Rightarrow> string" where
  "StringFromBool b = (if b then ''True'' else ''False'')"

definition EndsWith :: "string \<Rightarrow> string \<Rightarrow> bool" where
  "EndsWith v ending =
     (if length ending > length v then False else take (length ending) (rev v) = rev ending)"

text \<open>The last character is read even when the path is empty, which C++ leaves undefined (\<open>None\<close>).\<close>

definition BuildCompleteFilename :: "string \<Rightarrow> string \<Rightarrow> string option" where
  "BuildCompleteFilename path filename =
     (if path = [] then None
      else Some (if last path \<noteq> CHR ''/'' then path @ ''/'' @ filename else path @ filename))"

text \<open>The first tab is replaced again and again.\<close>

fun TabsToSpaces :: "nat \<Rightarrow> string \<Rightarrow> string" where
  "TabsToSpaces n [] = []"
| "TabsToSpaces n (c # cs) = (if c = CHR 0x09 then replicate n (CHR '' '') @ TabsToSpaces n cs else c # TabsToSpaces n cs)"

section \<open>Splitting\<close>

text \<open>
  One token per \<open>getline\<close>: up to the delimiter, which is taken away, or to the end. At the end of the
  input \<open>getline\<close> fails, so a delimiter at the very end yields no further empty token.
\<close>

function SplitString :: "string \<Rightarrow> char \<Rightarrow> string list" where
  "SplitString s delim =
     (if s = [] then []
      else takeWhile (\<lambda>c. c \<noteq> delim) s # SplitString (tl (dropWhile (\<lambda>c. c \<noteq> delim) s)) delim)"
  by auto
termination
proof (relation "measure (length \<circ> fst)")
  fix s :: string and delim :: char
  assume "s \<noteq> []"
  moreover have "length (dropWhile (\<lambda>c. c \<noteq> delim) s) \<le> length s"
    by (rule length_dropWhile_le)
  ultimately show "((tl (dropWhile (\<lambda>c. c \<noteq> delim) s), delim), (s, delim)) \<in> measure (length \<circ> fst)"
    by (cases s) auto
qed simp

declare SplitString.simps [simp del]

lemma SplitString_Nil [simp]: "SplitString [] d = []"
  by (simp add: SplitString.simps)

lemma SplitString_token:
  assumes "d \<notin> set tok"
  shows "SplitString (tok @ d # rest) d = tok # SplitString rest d"
proof -
  have "dropWhile (\<lambda>c. c \<noteq> d) tok = []" "takeWhile (\<lambda>c. c \<noteq> d) tok = tok"
    using assms by (auto simp: takeWhile_eq_all_conv dropWhile_eq_Nil_conv)
  then have "takeWhile (\<lambda>c. c \<noteq> d) (tok @ d # rest) = tok" "dropWhile (\<lambda>c. c \<noteq> d) (tok @ d # rest) = d # rest"
    using assms by (auto simp: takeWhile_append2 dropWhile_append2)
  then show ?thesis
    by (subst SplitString.simps) simp
qed

lemma SplitString_last:
  assumes "d \<notin> set tok" "tok \<noteq> []"
  shows "SplitString tok d = [tok]"
proof -
  have "takeWhile (\<lambda>c. c \<noteq> d) tok = tok" "dropWhile (\<lambda>c. c \<noteq> d) tok = []"
    using assms(1) by (auto simp: takeWhile_eq_all_conv dropWhile_eq_Nil_conv)
  with assms(2) show ?thesis
    by (subst SplitString.simps) (simp only: list.sel SplitString_Nil if_False)
qed

section \<open>Replacing\<close>

text \<open>\<open>std::string::find\<close> from a position.\<close>

definition string_find :: "string \<Rightarrow> string \<Rightarrow> nat \<Rightarrow> nat option" where
  "string_find s src pos =
     find (\<lambda>p. take (length src) (drop p s) = src) [pos..<Suc (length s)]"

lemma find_upt_Some:
  "find P [a..<b] = Some p \<longleftrightarrow> a \<le> p \<and> p < b \<and> P p \<and> (\<forall>q. a \<le> q \<longrightarrow> q < p \<longrightarrow> \<not> P q)"
proof
  assume "find P [a..<b] = Some p"
  then obtain i where i: "i < length [a..<b]" "P ([a..<b] ! i)" "p = [a..<b] ! i" "\<forall>j < i. \<not> P ([a..<b] ! j)"
    by (auto simp: find_Some_iff)
  have "\<not> P q" if "a \<le> q" "q < p" for q
  proof -
    have "q - a < i"
      using that i(1,3) by auto
    with i(1,4) have "\<not> P ([a..<b] ! (q - a))"
      by blast
    with that i(1,3) show ?thesis by auto
  qed
  with i show "a \<le> p \<and> p < b \<and> P p \<and> (\<forall>q. a \<le> q \<longrightarrow> q < p \<longrightarrow> \<not> P q)"
    by auto
next
  assume R: "a \<le> p \<and> p < b \<and> P p \<and> (\<forall>q. a \<le> q \<longrightarrow> q < p \<longrightarrow> \<not> P q)"
  then show "find P [a..<b] = Some p"
    unfolding find_Some_iff by (intro exI [of _ "p - a"]) auto
qed

lemma find_upt_None: "find P [a..<b] = None \<longleftrightarrow> (\<forall>q. a \<le> q \<longrightarrow> q < b \<longrightarrow> \<not> P q)"
  by (auto simp: find_None_iff)

text \<open>The loop of \<open>ReplaceAll\<close>; with an empty \<open>src\<close> it would not end.\<close>

function replace_loop :: "string \<Rightarrow> string \<Rightarrow> nat \<Rightarrow> string \<Rightarrow> string option" where
  "replace_loop src dest pos s =
     (if src = [] then None
      else case string_find s src pos of
        None \<Rightarrow> Some s
      | Some p \<Rightarrow> replace_loop src dest (p + length dest) (take p s @ dest @ drop (p + length src) s))"
  by pat_completeness auto
termination
proof (relation "measure (\<lambda>(src, dest, pos, s). Suc (length s) - pos)")
  fix src dest s :: string and pos p :: nat
  assume src: "src \<noteq> []" and p: "string_find s src pos = Some p"
  then have "pos \<le> p" "p \<le> length s" "take (length src) (drop p s) = src"
    by (auto simp: string_find_def find_upt_Some less_Suc_eq_le simp del: upt_Suc)
  moreover from this(3) have "length src \<le> length s - p"
    by (metis length_drop length_take min.cobounded1)
  ultimately show "((src, dest, p + length dest, take p s @ dest @ drop (p + length src) s), src, dest, pos, s)
      \<in> measure (\<lambda>(src, dest, pos, s). Suc (length s) - pos)"
    using src by (cases src) auto
qed simp

declare replace_loop.simps [simp del]

definition ReplaceAll :: "string \<Rightarrow> string \<Rightarrow> string \<Rightarrow> string option" where
  "ReplaceAll s src dest = (if src = dest then Some s else replace_loop src dest 0 s)"

section \<open>What \<open>ReplaceAll\<close> computes\<close>

text \<open>The leftmost occurrences, one after the other.\<close>

function replaced :: "string \<Rightarrow> string \<Rightarrow> string \<Rightarrow> string" where
  "replaced src dest s =
     (if src = [] \<or> s = [] then s
      else if take (length src) s = src then dest @ replaced src dest (drop (length src) s)
      else hd s # replaced src dest (tl s))"
  by pat_completeness auto
termination by (relation "measure (\<lambda>(src, dest, s). length s)") auto

declare replaced.simps [simp del]

lemma replaced_Nil [simp]: "replaced src dest [] = []"
  by (simp add: replaced.simps)

lemma replaced_skip:
  assumes "src \<noteq> []" "\<forall>q < p. take (length src) (drop q s) \<noteq> src" "p \<le> length s"
  shows "replaced src dest s = take p s @ replaced src dest (drop p s)"
  using assms
proof (induction p arbitrary: s)
  case (Suc p)
  then obtain c cs where s: "s = c # cs"
    by (cases s) auto
  have "take (length src) s \<noteq> src"
    using Suc.prems(2) by (metis drop_0 zero_less_Suc)
  moreover have "\<forall>q < p. take (length src) (drop q cs) \<noteq> src"
    using Suc.prems(2) s by force
  ultimately show ?case
    using Suc.IH [of cs] Suc.prems s by (subst replaced.simps) simp
qed simp

lemma replaced_none:
  assumes "\<forall>q \<le> length s. take (length src) (drop q s) \<noteq> src" "src \<noteq> []"
  shows "replaced src dest s = s"
  using replaced_skip [of src "length s" s dest] assms by simp

lemma replace_loop_replaced:
  assumes "src \<noteq> []" "pos \<le> length s"
  shows "replace_loop src dest pos s = Some (take pos s @ replaced src dest (drop pos s))"
  using assms
proof (induction src dest pos s rule: replace_loop.induct)
  case (1 src dest pos s)
  show ?case
  proof (cases "string_find s src pos")
    case None
    then have "\<forall>q \<le> length (drop pos s). take (length src) (drop q (drop pos s)) \<noteq> src"
      using 1(3) by (auto simp: string_find_def find_upt_None add.commute simp del: upt_Suc)
    with None 1(2) replaced_none [of "drop pos s" src dest] show ?thesis
      by (subst replace_loop.simps) simp
  next
    case (Some p)
    then have p: "pos \<le> p" "p \<le> length s" "take (length src) (drop p s) = src"
      "\<forall>q. pos \<le> q \<longrightarrow> q < p \<longrightarrow> take (length src) (drop q s) \<noteq> src"
      by (auto simp: string_find_def find_upt_Some less_Suc_eq_le simp del: upt_Suc)
    then have "p \<noteq> length s"
      using 1(2) by auto
    with p(2) have pl: "p < length s" by simp
    have "\<forall>q < p - pos. take (length src) (drop q (drop pos s)) \<noteq> src"
      using p(4) by (auto simp: add.commute)
    from replaced_skip [OF 1(2) this, of dest] p(1,2) pl
    have "replaced src dest (drop pos s) = take (p - pos) (drop pos s) @ replaced src dest (drop p s)"
      by simp
    also have "replaced src dest (drop p s) = dest @ replaced src dest (drop (p + length src) s)"
      using p(3) pl 1(2) by (subst replaced.simps) (simp add: add.commute)
    finally have r: "take pos s @ replaced src dest (drop pos s) = take p s @ dest @ replaced src dest (drop (p + length src) s)"
      using p(1) by (metis append.assoc le_add_diff_inverse take_add)
    have "replace_loop src dest pos s = replace_loop src dest (p + length dest) (take p s @ dest @ drop (p + length src) s)"
      using Some 1(2) by (subst replace_loop.simps) simp
    also have "\<dots> = Some (take (p + length dest) (take p s @ dest @ drop (p + length src) s) @
        replaced src dest (drop (p + length dest) (take p s @ dest @ drop (p + length src) s)))"
      using 1(1) [OF 1(2) Some 1(2)] pl by simp
    also have "\<dots> = Some (take p s @ dest @ replaced src dest (drop (p + length src) s))"
      using pl by simp
    finally show ?thesis
      using r by simp
  qed
qed

lemma ReplaceAll_replaced: "src \<noteq> [] \<Longrightarrow> src \<noteq> dest \<Longrightarrow> ReplaceAll s src dest = Some (replaced src dest s)"
  using replace_loop_replaced [of src 0 s dest] by (simp add: ReplaceAll_def)

lemma replaced_char: "replaced [c] dest s = concat (map (\<lambda>x. if x = c then dest else [x]) s)"
  by (induction s) (simp, subst replaced.simps, auto)

lemma replaced_pair:
  "replaced [a, b] dest (x # s) = (if x = a \<and> (\<exists>r. s = b # r) then dest @ replaced [a, b] dest (tl s) else x # replaced [a, b] dest s)"
  by (subst replaced.simps) (cases s, auto)

end
