(* ===== verification/Cheat_Engine.thy ===== *)
theory Cheat_Engine
  imports Guest_Memory Cache_Batch String_Util
begin

text \<open>
  The cheat engine (\<open>core/cheats\<close>): the interpreter of Gateway codes, the text form of cheats, and the list
  of cheats that runs periodically.

  \<^item> The interpreter gets its reads and writes as functions of a width in bytes, as the templates of the
    code do; \<open>guest_ops\<close> gives it the guest's memory. A read value is extended with zeros to 32 bits.
  \<^item> The line counter is a \<open>size_t\<close>. A loop that does not end, a line past the end of the cheat, a field of
    a line that did not parse, and a failing assertion of the memory give \<open>None\<close>.
  \<^item> The process that the cheats work on exists; without it \<open>Execute\<close> does nothing.
  \<^item> Locks, the log and the files on the host are left out; a file is its text.
\<close>

section \<open>Lines\<close>

datatype CheatType =
  Null | Write32 | Write16 | Write8 | GreaterThan32 | LessThan32 | EqualTo32 | NotEqualTo32 |
  GreaterThan16WithMask | LessThan16WithMask | EqualTo16WithMask | NotEqualTo16WithMask |
  LoadOffset | Loop | Terminator | LoopExecuteVariant | FullTerminator | SetOffset | AddValue | SetValue |
  IncrementiveWrite32 | IncrementiveWrite16 | IncrementiveWrite8 | Load32 | Load16 | Load8 | AddOffset |
  Joker | Patch | UnknownType nat

definition type_codes :: "(nat \<times> CheatType) list" where
  "type_codes =
     [(0x00, Write32), (0x01, Write16), (0x02, Write8), (0x03, GreaterThan32), (0x04, LessThan32),
      (0x05, EqualTo32), (0x06, NotEqualTo32), (0x07, GreaterThan16WithMask), (0x08, LessThan16WithMask),
      (0x09, EqualTo16WithMask), (0x0A, NotEqualTo16WithMask), (0x0B, LoadOffset), (0x0C, Loop),
      (0xD0, Terminator), (0xD1, LoopExecuteVariant), (0xD2, FullTerminator), (0xD3, SetOffset),
      (0xD4, AddValue), (0xD5, SetValue), (0xD6, IncrementiveWrite32), (0xD7, IncrementiveWrite16),
      (0xD8, IncrementiveWrite8), (0xD9, Load32), (0xDA, Load16), (0xDB, Load8), (0xDC, AddOffset),
      (0xDD, Joker), (0xE, Patch)]"

definition cheat_type :: "nat \<Rightarrow> CheatType" where
  "cheat_type n = (case map_of type_codes n of Some t \<Rightarrow> t | None \<Rightarrow> UnknownType n)"

record cheat_line =
  line_type :: CheatType
  line_address :: u32
  line_value :: u32
  line_first :: u32
  line_text :: string
  line_valid :: bool

section \<open>Parsing\<close>

definition hex_digit :: "char \<Rightarrow> nat option" where
  "hex_digit c =
     (let n = of_char c :: nat in
      if 48 \<le> n \<and> n \<le> 57 then Some (n - 48)
      else if 65 \<le> n \<and> n \<le> 70 then Some (n - 55)
      else if 97 \<le> n \<and> n \<le> 102 then Some (n - 87)
      else None)"

definition is_hex :: "char \<Rightarrow> bool" where
  "is_hex c \<longleftrightarrow> hex_digit c \<noteq> None"

definition c_space :: "char \<Rightarrow> bool" where
  "c_space c \<longleftrightarrow> (of_char c :: nat) \<in> {9, 10, 11, 12, 13, 32}"

text \<open>
  \<open>std::stoi\<close> and \<open>std::stoul\<close> with base 16: blanks, a sign, \<open>0x\<close>, then digits as far as they go. Without
  a digit they throw; the strings here are too short for a value out of range.
\<close>

definition sto_hex :: "string \<Rightarrow> int option" where
  "sto_hex s =
     (let s = dropWhile c_space s;
          negative = (s \<noteq> [] \<and> hd s = CHR ''-'');
          s = (if s \<noteq> [] \<and> (hd s = CHR ''-'' \<or> hd s = CHR ''+'') then tl s else s);
          s = (case s of
                 z # x # d # _ \<Rightarrow> if z = CHR ''0'' \<and> (x = CHR ''x'' \<or> x = CHR ''X'') \<and> is_hex d then drop 2 s else s
               | _ \<Rightarrow> s);
          digits = takeWhile is_hex s
      in if digits = [] then None
         else
           let v = int (foldl (\<lambda>n c. 16 * n + the (hex_digit c)) 0 digits) in
           Some (if negative then - v else v))"

definition invalid_line :: "string \<Rightarrow> cheat_line" where
  "invalid_line line = \<lparr>line_type = Null, line_address = 0, line_value = 0, line_first = 0, line_text = line, line_valid = False\<rparr>"

definition parse_line :: "string \<Rightarrow> cheat_line" where
  "parse_line line =
     (if length line \<noteq> 17 then invalid_line line
      else
        let type_temp = take 1 line;
            sub_type_temp = (if type_temp = ''D'' \<or> type_temp = ''d'' then take 1 (drop 1 line) else []) in
        case (sto_hex (type_temp @ sub_type_temp), sto_hex (take 8 line), sto_hex (take 8 (drop 9 line))) of
          (Some t, Some f, Some v) \<Rightarrow>
            \<lparr>line_type = cheat_type (nat t), line_address = word_of_int f AND 0x0FFFFFFF, line_value = word_of_int v,
             line_first = word_of_int f, line_text = line, line_valid = True\<rparr>
        | _ \<Rightarrow> invalid_line line)"

text \<open>The constructor of a cheat from its code.\<close>

definition parse_code :: "string \<Rightarrow> cheat_line list" where
  "parse_code code = map parse_line (filter (\<lambda>l. l \<noteq> []) (SplitString code (CHR 0x0A)))"

section \<open>The interpreter\<close>

record 'w cheat_ops =
  rd :: "nat \<Rightarrow> u32 \<Rightarrow> 'w \<Rightarrow> ('w \<times> u32) option"
  wr :: "nat \<Rightarrow> u32 \<Rightarrow> u32 \<Rightarrow> 'w \<Rightarrow> 'w option"
  inval :: "u32 \<Rightarrow> nat \<Rightarrow> 'w \<Rightarrow> 'w"
  pad_state :: u32

record cheat_state =
  reg :: u32
  offset :: u32
  if_flag :: u32
  loop_count :: u32
  loop_back_line :: nat
  current_line_nr :: nat
  loop_flag :: bool

definition cheat_start :: cheat_state where
  "cheat_start = \<lparr>reg = 0, offset = 0, if_flag = 0, loop_count = 0, loop_back_line = 0, current_line_nr = 0, loop_flag = False\<rparr>"

definition trunc :: "nat \<Rightarrow> u32 \<Rightarrow> u32" where
  "trunc n v = take_bit (8 * n) v"

definition next_line :: "cheat_state \<Rightarrow> cheat_state" where
  "next_line s = s\<lparr>current_line_nr := (current_line_nr s + 1) mod 2 ^ 64\<rparr>"

definition put_value :: "'w cheat_ops \<Rightarrow> nat \<Rightarrow> u32 \<Rightarrow> u32 \<Rightarrow> 'w \<Rightarrow> 'w option" where
  "put_value ops n addr v w = do {
     (w, val) \<leftarrow> rd ops n addr w;
     if val \<noteq> trunc n v then do {
       w \<leftarrow> wr ops n addr (trunc n v) w;
       Some (inval ops addr n w) }
     else Some w }"

definition WriteOp :: "'w cheat_ops \<Rightarrow> nat \<Rightarrow> cheat_line \<Rightarrow> cheat_state \<times> 'w \<Rightarrow> (cheat_state \<times> 'w) option" where
  "WriteOp ops n line = (\<lambda>(s, w). do {
     w \<leftarrow> put_value ops n (line_address line + offset s) (line_value line) w;
     Some (s, w) })"

definition CompOp ::
  "'w cheat_ops \<Rightarrow> nat \<Rightarrow> cheat_line \<Rightarrow> (u32 \<Rightarrow> bool) \<Rightarrow> cheat_state \<times> 'w \<Rightarrow> (cheat_state \<times> 'w) option" where
  "CompOp ops n line test = (\<lambda>(s, w). do {
     (w, val) \<leftarrow> rd ops n (line_address line + offset s) w;
     Some (if \<not> test val then s\<lparr>if_flag := if_flag s + 1\<rparr> else s, w) })"

definition masked :: "cheat_line \<Rightarrow> u32 \<Rightarrow> u32" where
  "masked line val = trunc 2 (drop_bit 16 (NOT (line_value line))) AND val"

definition LoadOffsetOp :: "'w cheat_ops \<Rightarrow> cheat_line \<Rightarrow> cheat_state \<times> 'w \<Rightarrow> (cheat_state \<times> 'w) option" where
  "LoadOffsetOp ops line = (\<lambda>(s, w). do {
     (w, val) \<leftarrow> rd ops 4 (line_address line + offset s) w;
     Some (s\<lparr>offset := val\<rparr>, w) })"

definition LoopOp :: "cheat_line \<Rightarrow> cheat_state \<Rightarrow> cheat_state" where
  "LoopOp line s = s\<lparr>loop_flag := loop_count s < line_value line, loop_count := loop_count s + 1,
     loop_back_line := current_line_nr s\<rparr>"

definition TerminateOp :: "cheat_state \<Rightarrow> cheat_state" where
  "TerminateOp s = (if if_flag s > 0 then s\<lparr>if_flag := if_flag s - 1\<rparr> else s)"

definition go_back :: "cheat_state \<Rightarrow> cheat_state" where
  "go_back s = s\<lparr>current_line_nr := (loop_back_line s + 2 ^ 64 - 1) mod 2 ^ 64\<rparr>"

definition LoopExecuteVariantOp :: "cheat_state \<Rightarrow> cheat_state" where
  "LoopExecuteVariantOp s = (if loop_flag s then go_back s else s\<lparr>loop_count := 0\<rparr>)"

definition FullTerminateOp :: "cheat_state \<Rightarrow> cheat_state" where
  "FullTerminateOp s =
     (if loop_flag s then go_back s
      else s\<lparr>offset := 0, reg := 0, loop_count := 0, if_flag := 0, loop_flag := False\<rparr>)"

definition IncrementiveWriteOp :: "'w cheat_ops \<Rightarrow> nat \<Rightarrow> cheat_line \<Rightarrow> cheat_state \<times> 'w \<Rightarrow> (cheat_state \<times> 'w) option" where
  "IncrementiveWriteOp ops n line = (\<lambda>(s, w). do {
     w \<leftarrow> put_value ops n (line_value line + offset s) (reg s) w;
     Some (s\<lparr>offset := offset s + of_nat n\<rparr>, w) })"

definition LoadOp :: "'w cheat_ops \<Rightarrow> nat \<Rightarrow> cheat_line \<Rightarrow> cheat_state \<times> 'w \<Rightarrow> (cheat_state \<times> 'w) option" where
  "LoadOp ops n line = (\<lambda>(s, w). do {
     (w, val) \<leftarrow> rd ops n (line_value line + offset s) w;
     Some (s\<lparr>reg := val\<rparr>, w) })"

definition JokerOp :: "'w cheat_ops \<Rightarrow> cheat_line \<Rightarrow> cheat_state \<Rightarrow> cheat_state" where
  "JokerOp ops line s =
     (if pad_state ops AND line_value line = line_value line then s else s\<lparr>if_flag := if_flag s + 1\<rparr>)"

text \<open>The data of a patch: the first or the second word of a line.\<close>

definition patch_word :: "cheat_line list \<Rightarrow> bool \<Rightarrow> nat \<Rightarrow> u32 option" where
  "patch_word lines first l = do {
     assertion (l < length lines \<and> line_valid (lines ! l));
     Some (if first then line_first (lines ! l) else line_value (lines ! l)) }"

fun patch_bytes :: "'w cheat_ops \<Rightarrow> cheat_line list \<Rightarrow> bool \<Rightarrow> nat \<Rightarrow> u32 \<Rightarrow> nat \<Rightarrow> nat \<Rightarrow> 'w \<Rightarrow> 'w option" where
  "patch_bytes ops lines first l addr 0 bit_offset w = Some w"
| "patch_bytes ops lines first l addr (Suc n) bit_offset w = do {
     tmp \<leftarrow> patch_word lines first l;
     w \<leftarrow> wr ops 1 addr (trunc 1 (drop_bit bit_offset tmp)) w;
     patch_bytes ops lines first l (addr + 1) n (bit_offset + 8) w }"

fun patch_loop ::
  "'w cheat_ops \<Rightarrow> cheat_line list \<Rightarrow> bool \<Rightarrow> nat \<Rightarrow> u32 \<Rightarrow> nat \<Rightarrow> 'w \<Rightarrow> (nat \<times> 'w) option" where
  "patch_loop ops lines first l addr n w =
     (if 4 \<le> n then do {
        tmp \<leftarrow> patch_word lines first l;
        w \<leftarrow> wr ops 4 addr tmp w;
        patch_loop ops lines (\<not> first) (if \<not> first \<and> 4 < n then l + 1 else l) (addr + 4) (n - 4) w }
      else do {
        w \<leftarrow> patch_bytes ops lines first l addr n 0 w;
        Some (l, w) })"

declare patch_loop.simps [simp del]

definition patch_lines :: "u32 \<Rightarrow> nat" where
  "patch_lines v = (unat v + 7) div 8"

definition PatchOp ::
  "'w cheat_ops \<Rightarrow> cheat_line list \<Rightarrow> cheat_line \<Rightarrow> cheat_state \<times> 'w \<Rightarrow> (cheat_state \<times> 'w) option" where
  "PatchOp ops lines line = (\<lambda>(s, w).
     if if_flag s > 0 then Some (s\<lparr>current_line_nr := current_line_nr s + patch_lines (line_value line)\<rparr>, w)
     else do {
       let num_bytes = unat (line_value line);
       let addr = line_address line + offset s;
       let w = inval ops addr num_bytes w;
       let l = (if num_bytes > 0 then current_line_nr s + 1 else current_line_nr s);
       (l, w) \<leftarrow> patch_loop ops lines True l addr num_bytes w;
       Some (s\<lparr>current_line_nr := l\<rparr>, w) })"

definition conditional :: "CheatType \<Rightarrow> bool" where
  "conditional t \<longleftrightarrow> t \<in> {GreaterThan32, LessThan32, EqualTo32, NotEqualTo32, GreaterThan16WithMask,
     LessThan16WithMask, EqualTo16WithMask, NotEqualTo16WithMask, Joker}"

text \<open>A line in a block whose condition failed.\<close>

definition skip_line ::
  "'w cheat_ops \<Rightarrow> cheat_line list \<Rightarrow> cheat_line \<Rightarrow> cheat_state \<times> 'w \<Rightarrow> (cheat_state \<times> 'w) option" where
  "skip_line ops lines line = (\<lambda>(s, w).
     if conditional (line_type line) then Some (s\<lparr>if_flag := if_flag s + 1\<rparr>, w)
     else if line_type line = Patch then PatchOp ops lines line (s, w)
     else if line_type line = Terminator then Some (TerminateOp s, w)
     else if line_type line = FullTerminator then Some (FullTerminateOp s, w)
     else Some (s, w))"

definition exec_line ::
  "'w cheat_ops \<Rightarrow> cheat_line list \<Rightarrow> cheat_line \<Rightarrow> cheat_state \<times> 'w \<Rightarrow> (cheat_state \<times> 'w) option" where
  "exec_line ops lines line = (\<lambda>(s, w).
     let v = line_value line; v16 = trunc 2 v in
     case line_type line of
       Null \<Rightarrow> Some (s, w)
     | Write32 \<Rightarrow> WriteOp ops 4 line (s, w)
     | Write16 \<Rightarrow> WriteOp ops 2 line (s, w)
     | Write8 \<Rightarrow> WriteOp ops 1 line (s, w)
     | GreaterThan32 \<Rightarrow> CompOp ops 4 line (\<lambda>val. v > val) (s, w)
     | LessThan32 \<Rightarrow> CompOp ops 4 line (\<lambda>val. v < val) (s, w)
     | EqualTo32 \<Rightarrow> CompOp ops 4 line (\<lambda>val. v = val) (s, w)
     | NotEqualTo32 \<Rightarrow> CompOp ops 4 line (\<lambda>val. v \<noteq> val) (s, w)
     | GreaterThan16WithMask \<Rightarrow> CompOp ops 2 line (\<lambda>val. v16 > masked line val) (s, w)
     | LessThan16WithMask \<Rightarrow> CompOp ops 2 line (\<lambda>val. v16 < masked line val) (s, w)
     | EqualTo16WithMask \<Rightarrow> CompOp ops 2 line (\<lambda>val. v16 = masked line val) (s, w)
     | NotEqualTo16WithMask \<Rightarrow> CompOp ops 2 line (\<lambda>val. v16 \<noteq> masked line val) (s, w)
     | LoadOffset \<Rightarrow> LoadOffsetOp ops line (s, w)
     | Loop \<Rightarrow> Some (LoopOp line s, w)
     | Terminator \<Rightarrow> Some (TerminateOp s, w)
     | LoopExecuteVariant \<Rightarrow> Some (LoopExecuteVariantOp s, w)
     | FullTerminator \<Rightarrow> Some (FullTerminateOp s, w)
     | SetOffset \<Rightarrow> Some (s\<lparr>offset := v\<rparr>, w)
     | AddValue \<Rightarrow> Some (s\<lparr>reg := reg s + v\<rparr>, w)
     | SetValue \<Rightarrow> Some (s\<lparr>reg := v\<rparr>, w)
     | IncrementiveWrite32 \<Rightarrow> IncrementiveWriteOp ops 4 line (s, w)
     | IncrementiveWrite16 \<Rightarrow> IncrementiveWriteOp ops 2 line (s, w)
     | IncrementiveWrite8 \<Rightarrow> IncrementiveWriteOp ops 1 line (s, w)
     | Load32 \<Rightarrow> LoadOp ops 4 line (s, w)
     | Load16 \<Rightarrow> LoadOp ops 2 line (s, w)
     | Load8 \<Rightarrow> LoadOp ops 1 line (s, w)
     | AddOffset \<Rightarrow> Some (s\<lparr>offset := offset s + v\<rparr>, w)
     | Joker \<Rightarrow> Some (JokerOp ops line s, w)
     | Patch \<Rightarrow> PatchOp ops lines line (s, w)
     | UnknownType _ \<Rightarrow> Some (s, w))"

definition cheat_step ::
  "'w cheat_ops \<Rightarrow> cheat_line list \<Rightarrow> cheat_state \<times> 'w \<Rightarrow> (cheat_state \<times> 'w) option" where
  "cheat_step ops lines sw =
     (let line = lines ! current_line_nr (fst sw) in
      if if_flag (fst sw) > 0 then skip_line ops lines line sw else exec_line ops lines line sw)"

partial_function (option) run_lines ::
  "'w cheat_ops \<Rightarrow> cheat_line list \<Rightarrow> cheat_state \<times> 'w \<Rightarrow> (cheat_state \<times> 'w) option" where
  "run_lines ops lines sw =
     (if current_line_nr (fst sw) < length lines
      then Option.bind (cheat_step ops lines sw) (\<lambda>sw. run_lines ops lines (next_line (fst sw), snd sw))
      else Some sw)"

definition Execute :: "'w cheat_ops \<Rightarrow> cheat_line list \<Rightarrow> 'w \<Rightarrow> 'w option" where
  "Execute ops lines w = map_option snd (run_lines ops lines (cheat_start, w))"

section \<open>The guest's memory\<close>

record 'r cheat_world =
  memory :: "'r mem"
  caches :: invalidation

definition guest_ops :: "'r bus \<Rightarrow> guest_table \<Rightarrow> u32 \<Rightarrow> 'r cheat_world cheat_ops" where
  "guest_ops b pt pad =
     \<lparr>rd = (\<lambda>n addr w. do {
         (m, bs) \<leftarrow> Read_value b pt n (unat addr) (memory w);
         Some (w\<lparr>memory := m\<rparr>, bytes_word bs) }),
      wr = (\<lambda>n addr v w. do {
         m \<leftarrow> Write b pt (unat addr) (word_bytes n v) (memory w);
         Some (w\<lparr>memory := m\<rparr>) }),
      inval = (\<lambda>addr n w. w\<lparr>caches := InvalidateCacheRange (unat addr) n (caches w)\<rparr>),
      pad_state = pad\<rparr>"

section \<open>Cheats as text\<close>

record cheat =
  cheat_name :: string
  cheat_lines :: "cheat_line list"
  comments :: string
  enabled :: bool

definition newline :: char where "newline = CHR 0x0A"

definition GetCode :: "cheat \<Rightarrow> string" where
  "GetCode c = concat (map (\<lambda>l. line_text l @ [newline]) (cheat_lines c))"

definition EnabledText :: string where "EnabledText = ''*citra_enabled''"

definition ToString :: "cheat \<Rightarrow> string" where
  "ToString c =
     ''['' @ cheat_name c @ '']'' @ [newline] @ (if enabled c then EnabledText @ [newline] else []) @
     concat (map (\<lambda>l. ''*'' @ l @ [newline]) (SplitString (comments c) newline)) @ GetCode c @ [newline]"

text \<open>\<open>LoadFile\<close> from the text of the file, line by line; the state of its loop is a record.\<close>

record load_state =
  loaded :: "cheat list"
  cur_name :: string
  cur_lines :: "cheat_line list"
  cur_comments :: string
  cur_enabled :: bool

definition flush_cheat :: "load_state \<Rightarrow> load_state" where
  "flush_cheat s =
     (if cur_lines s \<noteq> []
      then s\<lparr>loaded := loaded s @ [\<lparr>cheat_name = cur_name s, cheat_lines = cur_lines s, comments = cur_comments s,
          enabled = cur_enabled s\<rparr>], cur_enabled := False\<rparr>
      else s)"

definition load_line :: "string \<Rightarrow> load_state \<Rightarrow> load_state" where
  "load_line raw s =
     (let line = StripSpaces (filter (\<lambda>c. c \<noteq> CHR 0x00) raw) in
      if 2 \<le> length line \<and> hd line = CHR ''[''
      then (flush_cheat s)\<lparr>cur_name := take (length line - 2) (drop 1 line), cur_lines := [], cur_comments := []\<rparr>
      else if line \<noteq> [] \<and> hd line = CHR ''*''
      then (if line = EnabledText then s\<lparr>cur_enabled := True\<rparr>
            else s\<lparr>cur_comments := cur_comments s @ tl line @ [newline]\<rparr>)
      else if line \<noteq> [] then s\<lparr>cur_lines := cur_lines s @ [parse_line line]\<rparr>
      else s)"

text \<open>The last, empty line that \<open>getline\<close> reads before the end of the file changes nothing.\<close>

definition LoadFile :: "string \<Rightarrow> cheat list" where
  "LoadFile text =
     loaded (flush_cheat (fold load_line (SplitString text newline)
       \<lparr>loaded = [], cur_name = [], cur_lines = [], cur_comments = [], cur_enabled = False\<rparr>))"

section \<open>The engine\<close>

definition run_interval_ticks :: int where "run_interval_ticks = 50000000"

definition SetEnabled :: "bool \<Rightarrow> cheat \<Rightarrow> cheat" where
  "SetEnabled b c = c\<lparr>enabled := b\<rparr>"

definition AddCheat :: "cheat \<Rightarrow> cheat list \<Rightarrow> cheat list" where
  "AddCheat c cs = cs @ [c]"

definition RemoveCheat :: "nat \<Rightarrow> cheat list \<Rightarrow> cheat list" where
  "RemoveCheat i cs = (if i \<ge> length cs then cs else take i cs @ drop (Suc i) cs)"

definition UpdateCheat :: "nat \<Rightarrow> cheat \<Rightarrow> cheat list \<Rightarrow> cheat list" where
  "UpdateCheat i c cs = (if i \<ge> length cs then cs else cs[i := c])"

definition ToggleCheat :: "nat \<Rightarrow> cheat list \<Rightarrow> cheat list \<times> bool option" where
  "ToggleCheat i cs =
     (if i \<ge> length cs then (cs, None)
      else let b = \<not> enabled (cs ! i) in (cs[i := SetEnabled b (cs ! i)], Some b))"

definition DisableAllCheats :: "cheat list \<Rightarrow> cheat list" where
  "DisableAllCheats cs = map (\<lambda>c. if enabled c then SetEnabled False c else c) cs"

definition SaveCheatFile :: "cheat list \<Rightarrow> string" where
  "SaveCheatFile cs = concat (map ToString cs)"

text \<open>The engine remembers for which title it has loaded the cheats; the files are given by their title.\<close>

record cheat_engine =
  cheats_list :: "cheat list"
  loaded_title_id :: "nat option"

definition LoadCheatFile :: "(nat \<rightharpoonup> string) \<Rightarrow> nat \<Rightarrow> cheat_engine \<Rightarrow> cheat_engine" where
  "LoadCheatFile files title_id e =
     (if loaded_title_id e = Some title_id then e
      else e\<lparr>loaded_title_id := Some title_id,
        cheats_list := (case files title_id of None \<Rightarrow> [] | Some text \<Rightarrow> LoadFile text)\<rparr>)"

definition SaveLoadedCheatFile :: "cheat_engine \<Rightarrow> (nat \<rightharpoonup> string) \<Rightarrow> (nat \<rightharpoonup> string)" where
  "SaveLoadedCheatFile e files =
     (case loaded_title_id e of None \<Rightarrow> files | Some title_id \<Rightarrow> files(title_id \<mapsto> SaveCheatFile (cheats_list e)))"

text \<open>\<open>RunCallback\<close>: the enabled cheats in order; the result has the delay to the next run.\<close>

definition RunCallback :: "'w cheat_ops \<Rightarrow> int \<Rightarrow> cheat list \<Rightarrow> 'w \<Rightarrow> ('w \<times> int) option" where
  "RunCallback ops cycles_late cs w = do {
     w \<leftarrow> for_each (\<lambda>c w. if enabled c then Execute ops (cheat_lines c) w else Some w) cs w;
     Some (w, run_interval_ticks - cycles_late) }"

end
