(* ===== verification/Cheat_Props.thy ===== *)
theory Cheat_Props
  imports Cheat_Engine Guest_Props
begin

text \<open>
  The cheat interpreter: what a write leaves in memory, how often a loop runs, when a cheat is done, and
  the text form of cheats.
\<close>

section \<open>Memory for cheats\<close>

text \<open>
  What the operations rely on. An access that is \<open>ok\<close> returns; reading changes nothing that can be read,
  and what is written is read back.
\<close>

locale cheat_memory =
  fixes ops :: "'w cheat_ops"
    and look :: "'w \<Rightarrow> nat \<Rightarrow> u32 \<Rightarrow> u32"
    and ok :: "nat \<Rightarrow> u32 \<Rightarrow> bool"
  assumes rd_law: "ok n a \<Longrightarrow> \<exists>w'. rd ops n a w = Some (w', look w n a) \<and> look w' = look w"
    and wr_law: "ok n a \<Longrightarrow> \<exists>w'. wr ops n a v w = Some w' \<and> look w' n a = trunc n v"
    and inval_law: "look (inval ops a n w) = look w"
begin

lemma put_value_holds:
  assumes "ok n a"
  shows "\<exists>w'. put_value ops n a v w = Some w' \<and> look w' n a = trunc n v"
proof -
  have tt: "trunc n (trunc n v) = trunc n v"
    by (simp add: trunc_def)
  obtain w1 where w1: "rd ops n a w = Some (w1, look w n a)" "look w1 = look w"
    using rd_law [OF assms] by blast
  obtain w2 where w2: "wr ops n a (trunc n v) w1 = Some w2" "look w2 n a = trunc n (trunc n v)"
    using wr_law [OF assms] by blast
  show ?thesis
  proof (cases "look w n a = trunc n v")
    case True
    with w1 show ?thesis by (simp add: put_value_def)
  next
    case False
    with w1 w2 tt show ?thesis by (simp add: put_value_def inval_law)
  qed
qed

lemma WriteOp_law:
  assumes "ok n (line_address line + offset s)"
  shows "\<exists>w'. WriteOp ops n line (s, w) = Some (s, w') \<and> look w' n (line_address line + offset s) = trunc n (line_value line)"
proof -
  obtain w' where "put_value ops n (line_address line + offset s) (line_value line) w = Some w'"
    "look w' n (line_address line + offset s) = trunc n (line_value line)"
    using put_value_holds [OF assms] by blast
  then show ?thesis by (simp add: WriteOp_def)
qed

lemma IncrementiveWriteOp_law:
  assumes "ok n (line_value line + offset s)"
  shows "\<exists>w'. IncrementiveWriteOp ops n line (s, w) = Some (s\<lparr>offset := offset s + of_nat n\<rparr>, w') \<and>
    look w' n (line_value line + offset s) = trunc n (reg s)"
proof -
  obtain w' where "put_value ops n (line_value line + offset s) (reg s) w = Some w'"
    "look w' n (line_value line + offset s) = trunc n (reg s)"
    using put_value_holds [OF assms] by blast
  then show ?thesis by (simp add: IncrementiveWriteOp_def)
qed

lemma CompOp_law:
  assumes "ok n (line_address line + offset s)"
  shows "\<exists>w'. CompOp ops n line test (s, w) =
      Some (if test (look w n (line_address line + offset s)) then s else s\<lparr>if_flag := if_flag s + 1\<rparr>, w') \<and> look w' = look w"
proof -
  obtain w' where "rd ops n (line_address line + offset s) w = Some (w', look w n (line_address line + offset s))" "look w' = look w"
    using rd_law [OF assms] by blast
  then show ?thesis by (simp add: CompOp_def)
qed

end

section \<open>The guest's memory\<close>

definition guest_look :: "'r bus \<Rightarrow> guest_table \<Rightarrow> 'r cheat_world \<Rightarrow> nat \<Rightarrow> u32 \<Rightarrow> u32" where
  "guest_look b pt w n a = bytes_word (peek_all b pt (host (memory w)) (unat a) n)"

text \<open>An access within a mapped page of ordinary addresses.\<close>

definition guest_ok :: "'r bus \<Rightarrow> guest_table \<Rightarrow> nat \<Rightarrow> u32 \<Rightarrow> bool" where
  "guest_ok b pt n a \<longleftrightarrow> quiet b \<and> table_ok b pt \<and> bus_ok b \<and> n \<le> 4 \<and> 0 < n \<and> unat a < 0x80000000 \<and>
     unat a mod CITRA_PAGE_SIZE + n \<le> CITRA_PAGE_SIZE \<and> translate b pt (unat a) \<noteq> None"

lemma length_word_bytes [simp]: "length (word_bytes n v) = n"
  by (simp add: word_bytes_def)

lemma word_bytes_Suc: "word_bytes (Suc n) v = ucast v # word_bytes n (drop_bit 8 v)"
  by (simp add: word_bytes_def upt_conv_Cons map_Suc_upt [symmetric] o_def del: upt_Suc) (simp add: add.commute)

lemma bytes_word_bytes: "bytes_word (word_bytes n v) = take_bit (8 * n) v"
proof (induction n arbitrary: v)
  case (Suc n)
  have "bit (ucast (ucast v :: u8) OR push_bit 8 (take_bit (8 * n) (drop_bit 8 v))) i = bit (take_bit (8 * Suc n) v) i" for i
    by (auto simp: bit_simps dest: bit_imp_le_length)
  then show ?case
    by (simp add: word_bytes_Suc Suc.IH bit_eq_iff)
qed (simp add: word_bytes_def)

lemma Write_poke:
  assumes ok: "quiet b" "table_ok b pt" "bus_ok b" and v: "v < 0x80000000" "v mod CITRA_PAGE_SIZE + length data \<le> CITRA_PAGE_SIZE"
  shows "\<exists>m'. Write b pt v data m = Some m' \<and> host m' = poke_all b pt v data (host m)"
proof -
  have v32: "v < 2 ^ 32"
    using v(1) by simp
  from page_memory_quiet [OF ok v32, of Invalidate "length data" m] obtain m' where
    m': "page_memory b pt Invalidate v (length data) m = Some (m', translate b pt v)" "host m' = host m"
    by blast
  have l: "luma_alias b v = None"
    using v(1) by (simp add: luma_alias_def)
  have p: "ref_ptr (pointers pt (v div CITRA_PAGE_SIZE)) \<noteq> 0 \<longleftrightarrow> attributes pt (v div CITRA_PAGE_SIZE) = Memory"
    using ok(2) page_number [OF v32] by (simp add: table_ok_def)
  note e = poke_all_page [OF ok(3) v(2), of pt]
  show ?thesis
  proof (cases "attributes pt (v div CITRA_PAGE_SIZE) = Memory")
    case True
    with p show ?thesis
      unfolding e by (simp add: Write_def Let_def translate_def store_def)
  next
    case False
    with p m' l show ?thesis
      unfolding e by (simp add: Write_def Let_def store_def split: option.split)
  qed
qed

lemma page_unaliased:
  assumes "bus_ok b" "v mod CITRA_PAGE_SIZE + n \<le> CITRA_PAGE_SIZE" "translate b pt v \<noteq> None"
  shows "unaliased b pt v n" "i < n \<Longrightarrow> translate b pt (v + i) \<noteq> None"
proof -
  have t: "translate b pt (v + i) = map_option (\<lambda>p. p + i) (translate b pt v)" if "i < n" for i
    using assms that by (intro translate_add) auto
  show "i < n \<Longrightarrow> translate b pt (v + i) \<noteq> None"
    using t assms(3) by simp
  show "unaliased b pt v n"
    using t assms(3) by (auto simp: unaliased_def)
qed

lemma guest_read:
  assumes "guest_ok b pt n a"
  shows "\<exists>w'. rd (guest_ops b pt pad) n a w = Some (w', guest_look b pt w n a) \<and> guest_look b pt w' = guest_look b pt w"
proof -
  from assms obtain m' where "Read_value b pt n (unat a) (memory w) = Some (m', peek_all b pt (host (memory w)) (unat a) n)"
    "host m' = host (memory w)"
    using Read_value_block [of b pt "unat a" n "memory w"] by (auto simp: guest_ok_def)
  then show ?thesis
    unfolding guest_ops_def guest_look_def by simp
qed

lemma guest_write:
  assumes "guest_ok b pt n a"
  shows "\<exists>w'. wr (guest_ops b pt pad) n a v w = Some w' \<and> guest_look b pt w' n a = trunc n v"
proof -
  have ok: "quiet b" "table_ok b pt" "bus_ok b" "n \<le> 4" "unat a < 0x80000000"
    "unat a mod CITRA_PAGE_SIZE + n \<le> CITRA_PAGE_SIZE" "translate b pt (unat a) \<noteq> None"
    using assms by (simp_all add: guest_ok_def)
  from Write_poke [OF ok(1-3,5), of "word_bytes n v" "memory w"] ok(6) obtain m' where
    m': "Write b pt (unat a) (word_bytes n v) (memory w) = Some m'" "host m' = poke_all b pt (unat a) (word_bytes n v) (host (memory w))"
    by auto
  note u = page_unaliased [OF ok(3,6,7)]
  have "map (\<lambda>i. if translate b pt (unat a + i) = None then 0 else word_bytes n v ! i) [0..<n] = word_bytes n v"
    by (rule nth_equalityI) (auto dest: u(2))
  then have "peek_all b pt (host m') (unat a) n = word_bytes n v"
    using peek_all_poke_all [of b pt "unat a" "word_bytes n v" "host (memory w)"] u(1) by (simp add: m'(2))
  then show ?thesis
    using m'(1) by (simp add: guest_ops_def guest_look_def bytes_word_bytes trunc_def)
qed

interpretation gm: cheat_memory "guest_ops b pt pad" "guest_look b pt" "guest_ok b pt"
  by unfold_locales (rule guest_read guest_write, assumption | simp add: guest_ops_def guest_look_def fun_eq_iff)+

section \<open>Patches\<close>

text \<open>Memory in which no read and no write of the widths \<open>W\<close> fails.\<close>

definition total_ops :: "nat set \<Rightarrow> 'w cheat_ops \<Rightarrow> bool" where
  "total_ops W ops \<longleftrightarrow> (\<forall>n a w. rd ops n a w \<noteq> None) \<and> (\<forall>n\<in>W. \<forall>a v w. wr ops n a v w \<noteq> None)"

lemma total_rd: "total_ops W ops \<Longrightarrow> \<exists>w' v. rd ops n a w = Some (w', v)"
  by (auto simp: total_ops_def)

lemma total_wr: "total_ops W ops \<Longrightarrow> n \<in> W \<Longrightarrow> \<exists>w'. wr ops n a v w = Some w'"
  by (auto simp: total_ops_def)

text \<open>The widths that a line writes.\<close>

definition write_widths :: "cheat_line \<Rightarrow> nat set" where
  "write_widths line =
     (case line_type line of
        Write32 \<Rightarrow> {4} | IncrementiveWrite32 \<Rightarrow> {4} | Write16 \<Rightarrow> {2} | IncrementiveWrite16 \<Rightarrow> {2}
      | Write8 \<Rightarrow> {1} | IncrementiveWrite8 \<Rightarrow> {1}
      | Patch \<Rightarrow> if 4 dvd unat (line_value line) then {4} else {1, 4}
      | _ \<Rightarrow> {})"

lemma patch_bytes_returns:
  assumes "total_ops W ops" "0 < n \<Longrightarrow> 1 \<in> W" "0 < n \<Longrightarrow> l < length lines \<and> line_valid (lines ! l)"
  shows "\<exists>w'. patch_bytes ops lines first l a n off w = Some w'"
  using assms(2,3)
proof (induction n arbitrary: a off w)
  case (Suc n)
  obtain w' where "wr ops 1 a (trunc 1 (drop_bit off (if first then line_first (lines ! l) else line_value (lines ! l)))) w = Some w'"
    using total_wr [OF assms(1) Suc.prems(1)] by blast
  with Suc show ?case
    by (simp add: patch_word_def)
qed simp

text \<open>Where the data of a patch ends: two words a line.\<close>

definition patch_end :: "bool \<Rightarrow> nat \<Rightarrow> nat" where
  "patch_end first n = (if first then (n - 1) div 8 else (n + 3) div 8)"

lemma patch_end_step: "4 \<le> n \<Longrightarrow> (if \<not> first \<and> 4 < n then l + 1 else l) + patch_end (\<not> first) (n - 4) = l + patch_end first n"
  by (auto simp: patch_end_def)

lemma patch_end_small: "n < 4 \<Longrightarrow> patch_end first n = 0"
  by (auto simp: patch_end_def)

lemma patch_loop_returns:
  assumes "total_ops W ops" "4 \<in> W" "\<not> 4 dvd n \<Longrightarrow> 1 \<in> W" "0 < n \<Longrightarrow> \<forall>i. l \<le> i \<and> i \<le> l + patch_end first n \<longrightarrow> i < length lines \<and> line_valid (lines ! i)"
  shows "\<exists>w'. patch_loop ops lines first l a n w = Some (l + patch_end first n, w')"
  using assms(3,4)
proof (induction n arbitrary: first l a w rule: less_induct)
  case (less n)
  show ?case
  proof (cases "4 \<le> n")
    case True
    let ?l = "if \<not> first \<and> 4 < n then l + 1 else l"
    note e = patch_end_step [OF True, of first l]
    from True less.prems(2) have "l < length lines" "line_valid (lines ! l)"
      by auto
    then obtain tmp where t: "patch_word lines first l = Some tmp"
      by (simp add: patch_word_def)
    obtain w1 where w: "wr ops 4 a tmp w = Some w1"
      using total_wr [OF assms(1,2)] by blast
    have "\<exists>w'. patch_loop ops lines (\<not> first) ?l (a + 4) (n - 4) w1 = Some (?l + patch_end (\<not> first) (n - 4), w')"
      using True less.prems e by (intro less.IH) (auto simp: dvd_minus_self)
    with True t w e show ?thesis
      by (subst patch_loop.simps) simp
  next
    case False
    then show ?thesis
      using patch_bytes_returns [OF assms(1), of n l lines first a 0 w] less.prems
        nat_dvd_not_less [of n 4]
      by (subst patch_loop.simps) (auto simp: patch_end_small)
  qed
qed

text \<open>A patch at line \<open>i\<close> has all its lines of data.\<close>

definition patch_complete :: "cheat_line list \<Rightarrow> nat \<Rightarrow> bool" where
  "patch_complete lines i \<longleftrightarrow>
     (\<forall>k\<in>{i<..i + patch_lines (line_value (lines ! i))}. k < length lines \<and> line_valid (lines ! k))"

lemma PatchOp_jumps:
  assumes "total_ops W ops" "write_widths (lines ! current_line_nr s) \<subseteq> W" "line_type (lines ! current_line_nr s) = Patch"
    "patch_complete lines (current_line_nr s)"
  shows "\<exists>w'. PatchOp ops lines (lines ! current_line_nr s) (s, w) =
    Some (s\<lparr>current_line_nr := current_line_nr s + patch_lines (line_value (lines ! current_line_nr s))\<rparr>, w')"
proof -
  let ?line = "lines ! current_line_nr s"
  let ?n = "unat (line_value ?line)"
  let ?l = "if ?n > 0 then current_line_nr s + 1 else current_line_nr s"
  have e: "?l + patch_end True ?n = current_line_nr s + patch_lines (line_value ?line)"
    by (auto simp: patch_end_def patch_lines_def)
  have "\<exists>w'. patch_loop ops lines True ?l (line_address ?line + offset s) ?n
      (inval ops (line_address ?line + offset s) ?n w) = Some (?l + patch_end True ?n, w')"
    using assms(2-) e
    by (intro patch_loop_returns [OF assms(1)]) (auto simp: patch_complete_def write_widths_def split: if_splits)
  with e show ?thesis
    by (auto simp: PatchOp_def Let_def)
qed

end
