(* ===== verification/Cheat_Runs.thy ===== *)
theory Cheat_Runs
  imports Cheat_Props
begin

text \<open>
  Runs of a cheat: a cheat without a loop whose patches are complete is done after finitely many lines, a
  loop executes its body once more than its line says, and a write that is executed is what memory then holds.
\<close>

section \<open>Cheats without loops\<close>

definition keeps_line :: "cheat_state \<Rightarrow> (cheat_state \<times> 'w) option \<Rightarrow> bool" where
  "keeps_line s r \<longleftrightarrow> (\<exists>s' w'. r = Some (s', w') \<and> current_line_nr s' = current_line_nr s \<and> loop_flag s' = loop_flag s)"

lemma put_value_total:
  assumes "total_ops W ops" "n \<in> W"
  shows "\<exists>w'. put_value ops n a v w = Some w'"
proof -
  obtain w1 x where "rd ops n a w = Some (w1, x)"
    using total_rd [OF assms(1)] by blast
  moreover obtain w2 where "wr ops n a (trunc n v) w1 = Some w2"
    using total_wr [OF assms] by blast
  ultimately show ?thesis
    by (simp add: put_value_def)
qed

lemma reads_keep_line:
  assumes "total_ops W ops"
  shows "keeps_line s (CompOp ops n line test (s, w))" "keeps_line s (LoadOffsetOp ops line (s, w))"
    "keeps_line s (LoadOp ops n line (s, w))"
proof -
  obtain w1 x where "rd ops n (line_address line + offset s) w = Some (w1, x)"
    using total_rd [OF assms] by blast
  then show "keeps_line s (CompOp ops n line test (s, w))"
    by (simp add: CompOp_def keeps_line_def)
  obtain w2 y where "rd ops 4 (line_address line + offset s) w = Some (w2, y)"
    using total_rd [OF assms] by blast
  then show "keeps_line s (LoadOffsetOp ops line (s, w))"
    by (simp add: LoadOffsetOp_def keeps_line_def)
  obtain w3 z where "rd ops n (line_value line + offset s) w = Some (w3, z)"
    using total_rd [OF assms] by blast
  then show "keeps_line s (LoadOp ops n line (s, w))"
    by (simp add: LoadOp_def keeps_line_def)
qed

lemma writes_keep_line:
  assumes "total_ops W ops" "n \<in> W"
  shows "keeps_line s (WriteOp ops n line (s, w))" "keeps_line s (IncrementiveWriteOp ops n line (s, w))"
proof -
  obtain w1 where "put_value ops n (line_address line + offset s) (line_value line) w = Some w1"
    using put_value_total [OF assms] by blast
  then show "keeps_line s (WriteOp ops n line (s, w))"
    by (simp add: WriteOp_def keeps_line_def)
  obtain w2 where "put_value ops n (line_value line + offset s) (reg s) w = Some w2"
    using put_value_total [OF assms] by blast
  then show "keeps_line s (IncrementiveWriteOp ops n line (s, w))"
    by (simp add: IncrementiveWriteOp_def keeps_line_def)
qed

lemma keeps_line_Some [simp]:
  "keeps_line s (Some (s', w)) \<longleftrightarrow> current_line_nr s' = current_line_nr s \<and> loop_flag s' = loop_flag s"
  by (auto simp: keeps_line_def)

lemma exec_line_keeps:
  assumes "total_ops W ops" "write_widths line \<subseteq> W" "line_type line \<noteq> Patch" "line_type line \<noteq> Loop" "\<not> loop_flag s"
  shows "keeps_line s (exec_line ops lines line (s, w))"
  using assms(2-5)
  by (cases "line_type line")
    (simp_all add: exec_line_def write_widths_def reads_keep_line [OF assms(1)] writes_keep_line [OF assms(1)]
      TerminateOp_def LoopExecuteVariantOp_def FullTerminateOp_def JokerOp_def Let_def)

lemma skip_line_keeps:
  assumes "line_type line \<noteq> Patch" "\<not> loop_flag s"
  shows "keeps_line s (skip_line ops lines line (s, w))"
  using assms by (simp add: skip_line_def TerminateOp_def FullTerminateOp_def)

text \<open>Where the lines start that can be executed: behind each other, with the data of patches left out.\<close>

definition line_end :: "cheat_line list \<Rightarrow> nat \<Rightarrow> nat" where
  "line_end lines i = i + (if line_type (lines ! i) = Patch then patch_lines (line_value (lines ! i)) else 0)"

inductive starts :: "cheat_line list \<Rightarrow> nat \<Rightarrow> bool" for lines where
  first: "starts lines 0"
| later: "starts lines (line_end lines i + 1)" if "starts lines i" "i < length lines"

text \<open>No loops, complete patches, and writes of the widths \<open>W\<close> only.\<close>

definition straight :: "nat set \<Rightarrow> cheat_line list \<Rightarrow> bool" where
  "straight W lines \<longleftrightarrow> length lines < 2 ^ 63 \<and>
     (\<forall>i<length lines. starts lines i \<longrightarrow> write_widths (lines ! i) \<subseteq> W \<and> line_type (lines ! i) \<noteq> Loop \<and>
        (line_type (lines ! i) = Patch \<longrightarrow> patch_complete lines i))"

lemma patch_stays:
  assumes "patch_complete lines i" "i < length lines"
  shows "i + patch_lines (line_value (lines ! i)) < length lines"
  using assms by (cases "patch_lines (line_value (lines ! i)) = 0") (auto simp: patch_complete_def)

lemma cheat_step_forward:
  assumes "total_ops W ops" "straight W lines" "current_line_nr s < length lines" "\<not> loop_flag s"
    "starts lines (current_line_nr s)"
  shows "\<exists>s' w'. cheat_step ops lines (s, w) = Some (s', w') \<and> \<not> loop_flag s' \<and>
    current_line_nr s' = line_end lines (current_line_nr s) \<and> current_line_nr s' < length lines"
proof (cases "line_type (lines ! current_line_nr s) = Patch")
  case True
  with assms have c: "write_widths (lines ! current_line_nr s) \<subseteq> W" "patch_complete lines (current_line_nr s)"
    by (simp_all add: straight_def)
  note j = patch_stays [OF c(2) assms(3)]
  show ?thesis
  proof (cases "if_flag s > 0")
    case t: True
    with True assms(4) j show ?thesis
      by (simp add: line_end_def cheat_step_def skip_line_def conditional_def PatchOp_def Let_def)
  next
    case False
    with True assms(4) j PatchOp_jumps [OF assms(1) c(1) True c(2), of w] show ?thesis
      by (auto simp: line_end_def cheat_step_def exec_line_def Let_def)
  qed
next
  case False
  have "line_type (lines ! current_line_nr s) \<noteq> Loop" "write_widths (lines ! current_line_nr s) \<subseteq> W"
    using assms by (simp_all add: straight_def)
  then have "keeps_line s (cheat_step ops lines (s, w))"
    using exec_line_keeps [OF assms(1) _ False _ assms(4), of lines w] skip_line_keeps [OF False assms(4), of ops lines w]
    by (simp add: cheat_step_def Let_def)
  with assms(3,4) False show ?thesis
    by (auto simp: keeps_line_def line_end_def)
qed

lemma run_lines_returns:
  assumes "total_ops W ops" "straight W lines" "\<not> loop_flag s" "starts lines (current_line_nr s)"
  shows "\<exists>r. run_lines ops lines (s, w) = Some r"
  using assms(3,4)
proof (induction "length lines - current_line_nr s" arbitrary: s w rule: less_induct)
  case less
  show ?case
  proof (cases "current_line_nr s < length lines")
    case True
    from cheat_step_forward [OF assms(1,2) True less.prems, of w] obtain s' w' where
      st: "cheat_step ops lines (s, w) = Some (s', w')" and
      s': "\<not> loop_flag s'" "current_line_nr s' = line_end lines (current_line_nr s)" "current_line_nr s' < length lines"
      by blast
    have l: "length lines < 2 ^ 63"
      using assms(2) by (simp add: straight_def)
    then have n: "current_line_nr (next_line s') = current_line_nr s' + 1"
      using s'(3) by (simp add: next_line_def)
    have "\<exists>r. run_lines ops lines (next_line s', w') = Some r"
    proof (rule less.hyps)
      show "starts lines (current_line_nr (next_line s'))"
        using later [OF less.prems(2) True] s'(2) n by simp
    qed (use True s' n in \<open>auto simp: next_line_def line_end_def\<close>)
    with True st show ?thesis
      by (subst run_lines.simps) simp
  next
    case False
    then show ?thesis
      by (subst run_lines.simps) simp
  qed
qed

lemma Execute_straight:
  assumes "total_ops W ops" "straight W lines"
  shows "\<exists>w'. Execute ops lines w = Some w'"
  using run_lines_returns [OF assms, of cheat_start w] first
  by (auto simp: Execute_def cheat_start_def)

text \<open>The guest's memory is total for words: the only access that stops the program is a narrow write to a
  register through the alias at bit 31.\<close>

lemma guest_total:
  assumes "table_ok b pt" "bus_ok b"
  shows "total_ops {4} (guest_ops b pt pad)"
proof -
  have p: "\<exists>r. page_memory b pt mode (unat a) n m = Some r" for mode n m and a :: u32
  proof -
    have "unat a < 2 ^ 32"
      using unsigned_less [of a] by simp
    then show ?thesis
      by (rule page_memory_translate [OF assms]) blast
  qed
  have rd: "\<exists>r. Read b pt n (unat a) m = Some r" for n m and a :: u32
    using p [of Flush a n m] by (auto simp: Read_def Let_def split: option.split sum.split)
  have "rd (guest_ops b pt pad) n a w \<noteq> None" for n a w
    using rd [of n a "memory w"] by (auto simp: Read_value_def guest_ops_def)
  moreover have "wr (guest_ops b pt pad) 4 a v w \<noteq> None" for a v w
    using p [of Invalidate a 4 "memory w"]
    by (auto simp: Write_def guest_ops_def Let_def split: option.split sum.split)
  ultimately show ?thesis
    by (simp add: total_ops_def)
qed

text \<open>C33: On the guest's memory a cheat returns when it has no loop line, writes words only and its patches have
  all their lines of data.\<close>

theorem Execute_returns:
  assumes "table_ok b pt" "bus_ok b" "straight {4} lines"
  shows "\<exists>w'. Execute (guest_ops b pt pad) lines w = Some w'"
  by (rule Execute_straight [OF guest_total [OF assms(1,2)] assms(3)])

section \<open>Loops\<close>

text \<open>Lines that only work on the register, the offset and memory.\<close>

definition plain :: "CheatType \<Rightarrow> bool" where
  "plain t \<longleftrightarrow> t \<in> {Null, Write32, Write16, Write8, LoadOffset, SetOffset, AddValue, SetValue, IncrementiveWrite32,
     IncrementiveWrite16, IncrementiveWrite8, Load32, Load16, Load8, AddOffset}"

type_synonym 'w plain_state = "u32 \<times> u32 \<times> 'w"

definition with_plain :: "cheat_state \<Rightarrow> 'w plain_state \<Rightarrow> cheat_state \<times> 'w" where
  "with_plain s p = (case p of (r, d, w) \<Rightarrow> (s\<lparr>reg := r, offset := d\<rparr>, w))"

definition plain_of :: "cheat_state \<times> 'w \<Rightarrow> 'w plain_state" where
  "plain_of sw = (reg (fst sw), offset (fst sw), snd sw)"

lemma plain_of_with [simp]: "plain_of (with_plain s p) = p"
  by (cases p) (simp add: with_plain_def plain_of_def)

lemma snd_with_plain [simp]: "snd (with_plain s p) = snd (snd p)"
  by (cases p) (simp add: with_plain_def)

definition plain_step :: "'w cheat_ops \<Rightarrow> cheat_line \<Rightarrow> 'w plain_state \<Rightarrow> 'w plain_state option" where
  "plain_step ops line p = map_option plain_of (exec_line ops [] line (with_plain cheat_start p))"

abbreviation body_run :: "'w cheat_ops \<Rightarrow> cheat_line list \<Rightarrow> 'w plain_state \<Rightarrow> 'w plain_state option" where
  "body_run ops \<equiv> for_each (plain_step ops)"

text \<open>\<open>n\<close> times the same step.\<close>

primrec rounds :: "nat \<Rightarrow> ('a \<Rightarrow> 'a option) \<Rightarrow> 'a \<Rightarrow> 'a option" where
  "rounds 0 f x = Some x"
| "rounds (Suc n) f x = Option.bind (f x) (rounds n f)"

lemma exec_plain:
  assumes "plain (line_type line)"
  shows "exec_line ops lines line (with_plain s p) = map_option (with_plain s) (plain_step ops line p)"
  using assms
  by (cases "line_type line"; cases p)
    (simp_all add: plain_def plain_step_def exec_line_def with_plain_def plain_of_def Let_def WriteOp_def LoadOffsetOp_def
      IncrementiveWriteOp_def LoadOp_def cheat_start_def option.map_comp o_def map_option_bind
      split: Option.bind_split option.split)

lemma with_plain_fields [simp]:
  "current_line_nr (fst (with_plain s p)) = current_line_nr s"
  "if_flag (fst (with_plain s p)) = if_flag s"
  "loop_flag (fst (with_plain s p)) = loop_flag s"
  by (cases p; simp add: with_plain_def)+

lemma next_with_plain: "(next_line (fst (with_plain s p)), snd (snd p)) = with_plain (next_line s) p"
  by (cases p) (simp add: with_plain_def next_line_def)

text \<open>One line of a run, outside a skipped block.\<close>

lemma run_line:
  assumes "current_line_nr s < length lines" "if_flag s = 0"
    "exec_line ops lines (lines ! current_line_nr s) (with_plain s p) = map_option (with_plain s') q"
  shows "run_lines ops lines (with_plain s p) = Option.bind q (\<lambda>p. run_lines ops lines (with_plain (next_line s') p))"
  using assms
  by (subst run_lines.simps) (cases q; simp add: cheat_step_def Let_def next_with_plain)

lemma next_line_less: "current_line_nr s < 2 ^ 64 - 1 \<Longrightarrow> next_line s = s\<lparr>current_line_nr := current_line_nr s + 1\<rparr>"
  by (simp add: next_line_def)

lemma run_plain:
  assumes "\<forall>l\<in>set body. plain (line_type l)" "if_flag s = 0" "length (pre @ body @ post) < 2 ^ 64" "current_line_nr s = length pre"
  shows "run_lines ops (pre @ body @ post) (with_plain s p) =
    Option.bind (body_run ops body p) (\<lambda>p. run_lines ops (pre @ body @ post) (with_plain (s\<lparr>current_line_nr := length pre + length body\<rparr>) p))"
  using assms
proof (induction body arbitrary: pre s p)
  case Nil
  then have "s\<lparr>current_line_nr := length pre\<rparr> = s"
    by simp
  then show ?case by simp
next
  case (Cons l body)
  let ?lines = "pre @ (l # body) @ post"
  have n: "next_line s = s\<lparr>current_line_nr := length pre + 1\<rparr>"
    using Cons.prems by (simp add: next_line_less)
  have "run_lines ops ?lines (with_plain s p) =
      Option.bind (plain_step ops l p) (\<lambda>p. run_lines ops ?lines (with_plain (next_line s) p))"
    using Cons.prems by (intro run_line) (simp_all add: exec_plain)
  moreover have "run_lines ops ?lines (with_plain (next_line s) p) =
      Option.bind (body_run ops body p) (\<lambda>p. run_lines ops ?lines (with_plain (s\<lparr>current_line_nr := length pre + length (l # body)\<rparr>) p))" for p
    using Cons.IH [of "next_line s" "pre @ [l]" p] Cons.prems by (simp add: n)
  ultimately show ?case
    by (simp cong: Option.bind_cong)
qed

lemma exec_Loop:
  assumes "line_type line = Loop"
  shows "exec_line ops lines line (with_plain s p) = map_option (with_plain (LoopOp line s)) (Some p)"
  using assms by (cases p) (simp add: exec_line_def with_plain_def LoopOp_def)

lemma exec_LoopExecuteVariant:
  assumes "line_type line = LoopExecuteVariant"
  shows "exec_line ops lines line (with_plain s p) = map_option (with_plain (LoopExecuteVariantOp s)) (Some p)"
  using assms by (cases p) (simp add: exec_line_def with_plain_def LoopExecuteVariantOp_def go_back_def)

lemma count_below:
  fixes v :: u32
  assumes "m \<le> unat v"
  shows "v - of_nat m < v \<longleftrightarrow> 0 < m"
proof -
  have u: "unat (of_nat m :: u32) = m"
    using assms by (rule le_unat_uoi)
  then have "unat (v - of_nat m) = unat v - m"
    using assms by (simp add: unat_sub word_le_nat_alt)
  then show ?thesis
    using assms by (auto simp: word_less_nat_alt)
qed

text \<open>One round: the loop line, the body, and the line at the end.\<close>

lemma loop_round:
  fixes a z :: cheat_line and pre body post :: "cheat_line list"
  defines "lines \<equiv> pre @ a # body @ z # post"
  assumes body: "\<forall>l\<in>set body. plain (line_type l)" and types: "line_type a = Loop" "line_type z = LoopExecuteVariant"
    and len: "length lines < 2 ^ 64" and s: "current_line_nr s = length pre" "if_flag s = 0"
  shows "run_lines ops lines (with_plain s p) = Option.bind (body_run ops body p) (\<lambda>p.
    run_lines ops lines (with_plain
      (s\<lparr>loop_flag := loop_count s < line_value a, loop_back_line := length pre,
         loop_count := if loop_count s < line_value a then loop_count s + 1 else 0,
         current_line_nr := if loop_count s < line_value a then length pre else length pre + length body + 2\<rparr>) p))"
proof -
  let ?s1 = "next_line (LoopOp a s)"
  let ?s2 = "?s1\<lparr>current_line_nr := length pre + length body + 1\<rparr>"
  have s1: "current_line_nr ?s1 = length pre + 1" "if_flag ?s1 = 0"
    using s len by (simp_all add: next_line_def LoopOp_def lines_def)
  have lo: "run_lines ops lines (with_plain s p) = run_lines ops lines (with_plain ?s1 p)"
    using run_line [where s = s and s' = "LoopOp a s" and p = p and q = "Some p" and lines = lines and ops = ops]
      s by (simp add: lines_def exec_Loop [OF types(1)])
  have bo: "run_lines ops lines (with_plain ?s1 p) =
      Option.bind (body_run ops body p) (\<lambda>p. run_lines ops lines (with_plain ?s2 p))"
    using run_plain [of body ?s1 "pre @ [a]" "z # post" ops p] body s1 len by (simp add: lines_def)
  have z: "lines ! current_line_nr ?s2 = z" "current_line_nr ?s2 < length lines" "if_flag ?s2 = 0"
    using s1 by (simp_all add: lines_def nth_append)
  have en: "run_lines ops lines (with_plain ?s2 q) = run_lines ops lines (with_plain (next_line (LoopExecuteVariantOp ?s2)) q)" for q
    using run_line [where s = ?s2 and s' = "LoopExecuteVariantOp ?s2" and p = q and q = "Some q" and lines = lines and ops = ops]
      z by (simp add: exec_LoopExecuteVariant [OF types(2)])
  have e: "next_line (LoopExecuteVariantOp ?s2) =
      s\<lparr>loop_flag := loop_count s < line_value a, loop_back_line := length pre,
         loop_count := if loop_count s < line_value a then loop_count s + 1 else 0,
         current_line_nr := if loop_count s < line_value a then length pre else length pre + length body + 2\<rparr>"
    using s len by (simp add: next_line_def LoopExecuteVariantOp_def LoopOp_def go_back_def lines_def mod_simps)
  show ?thesis
    unfolding lo bo en e ..
qed

lemma loop_from:
  fixes a z :: cheat_line and pre body post :: "cheat_line list"
  defines "lines \<equiv> pre @ a # body @ z # post"
  assumes body: "\<forall>l\<in>set body. plain (line_type l)" and types: "line_type a = Loop" "line_type z = LoopExecuteVariant"
    and len: "length lines < 2 ^ 64" and s: "current_line_nr s = length pre" "if_flag s = 0"
    and m: "m \<le> unat (line_value a)" "loop_count s = line_value a - of_nat m"
  shows "run_lines ops lines (with_plain s p) = Option.bind (rounds (Suc m) (body_run ops body) p) (\<lambda>p.
    run_lines ops lines (with_plain
      (s\<lparr>loop_flag := False, loop_back_line := length pre, loop_count := 0, current_line_nr := length pre + length body + 2\<rparr>) p))"
  using s m
proof (induction m arbitrary: s p)
  case 0
  with loop_round [OF body types len [unfolded lines_def] 0(1,2), of ops p] show ?case
    by (simp add: lines_def cong: Option.bind_cong)
next
  case (Suc m)
  have c: "loop_count s < line_value a"
    using count_below [OF Suc.prems(3)] Suc.prems(4) by simp
  let ?s = "s\<lparr>loop_flag := True, loop_back_line := length pre, loop_count := loop_count s + 1, current_line_nr := length pre\<rparr>"
  have "run_lines ops lines (with_plain s p) = Option.bind (body_run ops body p) (\<lambda>p. run_lines ops lines (with_plain ?s p))"
    using loop_round [OF body types len [unfolded lines_def] Suc.prems(1,2), of ops p] c by (simp add: lines_def)
  moreover have "run_lines ops lines (with_plain ?s q) = Option.bind (rounds (Suc m) (body_run ops body) q) (\<lambda>p.
    run_lines ops lines (with_plain
      (s\<lparr>loop_flag := False, loop_back_line := length pre, loop_count := 0, current_line_nr := length pre + length body + 2\<rparr>) p))" for q
    using Suc.IH [of ?s q] Suc.prems by simp
  ultimately show ?case
    by (simp cong: Option.bind_cong)
qed


section \<open>Writes\<close>

text \<open>C1: A write line leaves its value, cut to the width of the write, at its address plus the offset in the guest's
  memory, for an access within a mapped page of ordinary addresses.\<close>

theorem cheat_write_holds:
  assumes "guest_ok b pt n (line_address line + offset s)"
  shows "\<exists>w'. WriteOp (guest_ops b pt pad) n line (s, w) = Some (s, w') \<and>
    guest_look b pt w' n (line_address line + offset s) = trunc n (line_value line)"
  by (rule gm.WriteOp_law [OF assms])

section \<open>Witnesses\<close>

definition demo_world :: "nat cheat_world" where
  "demo_world = \<lparr>memory = demo_mem, caches = \<lparr>batch_depth = 0, pending = [], issued = []\<rparr>\<rparr>"

definition demo_line :: "CheatType \<Rightarrow> u32 \<Rightarrow> u32 \<Rightarrow> cheat_line" where
  "demo_line t f v = \<lparr>line_type = t, line_address = f AND 0x0FFFFFFF, line_value = v, line_first = f, line_text = [], line_valid = True\<rparr>"

lemma demo_line_simps [simp]:
  "line_type (demo_line t f v) = t" "line_value (demo_line t f v) = v" "line_valid (demo_line t f v)"
  by (simp_all add: demo_line_def)

lemma plain_AddValue: "line_type l = AddValue \<Longrightarrow> plain_step ops l (r, d, w) = Some (r + line_value l, d, w)"
  by (simp add: plain_step_def exec_line_def with_plain_def plain_of_def cheat_start_def)

definition demo_loop :: "cheat_line list" where
  "demo_loop = [demo_line Loop 0xC0000000 2, demo_line AddValue 0xD4000000 5, demo_line LoopExecuteVariant 0xD1000000 0]"


text \<open>A write of a word, and a patch of four bytes.\<close>

definition demo_patch :: "cheat_line list" where
  "demo_patch = [demo_line Write32 0x00100010 1, demo_line Patch 0xE0100020 4, demo_line Write16 0x11223344 0]"

theorem Execute_returns_witness:
  "\<exists>w'. Execute (guest_ops demo_bus demo_table 0) demo_patch demo_world = Some w'"
proof (rule Execute_returns [OF demo_ok(3,2)])
  have "i \<in> {0, 1, 3}" if "starts demo_patch i" for i
    using that by induction (auto simp: line_end_def demo_patch_def patch_lines_def)
  then show "straight {4} demo_patch"
    by (force simp: straight_def demo_patch_def write_widths_def patch_complete_def patch_lines_def less_Suc_eq)
qed

theorem cheat_write_holds_witness:
  "\<exists>w'. WriteOp (guest_ops demo_bus demo_table 0) 2 (demo_line Write16 0x10100FF0 0x0001ABCD) (cheat_start\<lparr>offset := 14\<rparr>, demo_world) =
      Some (cheat_start\<lparr>offset := 14\<rparr>, w') \<and> guest_look demo_bus demo_table w' 2 0x100FFE = 0xABCD"
proof -
  have a: "line_address (demo_line Write16 0x10100FF0 0x0001ABCD) + offset (cheat_start\<lparr>offset := 14\<rparr>) = 0x100FFE"
    by (simp add: demo_line_def)
  have "guest_ok demo_bus demo_table 2 0x100FFE"
    using demo_ok by (simp add: guest_ok_def demo_translate)
  with cheat_write_holds [of demo_bus demo_table 2 "demo_line Write16 0x10100FF0 0x0001ABCD" "cheat_start\<lparr>offset := 14\<rparr>" 0 demo_world]
  show ?thesis
    unfolding a by (simp add: trunc_def)
qed

end
