(* ===== verification/Cheat_Text.thy ===== *)
theory Cheat_Text
  imports Cheat_Runs
begin

text \<open>
  Cheats as text: what \<open>SaveCheatFile\<close> writes for cheats whose parts can be written, \<open>LoadFile\<close> reads back.
\<close>

section \<open>Lines of a file\<close>

lemma SplitString_lines:
  assumes "\<forall>l\<in>set ls. d \<notin> set l"
  shows "SplitString (concat (map (\<lambda>l. l @ [d]) ls)) d = ls"
  using assms by (induction ls) (simp_all add: SplitString_token)

text \<open>Text that the loader takes as it is.\<close>

definition clean :: "string \<Rightarrow> bool" where
  "clean s \<longleftrightarrow> s \<noteq> [] \<and> \<not> is_blank (hd s) \<and> \<not> is_blank (last s) \<and> newline \<notin> set s \<and> CHR 0x00 \<notin> set s"

lemma strip_clean: "clean s \<Longrightarrow> StripSpaces (filter (\<lambda>c. c \<noteq> CHR 0x00) s) = s"
proof -
  assume c: "clean s"
  then have "filter (\<lambda>c. c \<noteq> CHR 0x00) s = s"
    by (auto simp: clean_def filter_id_conv)
  moreover have "dropWhile is_blank s = s" "dropWhile is_blank (rev s) = rev s"
    using c by (auto simp: clean_def dropWhile_eq_self_iff hd_rev)
  ultimately show ?thesis
    by (simp add: StripSpaces_def)
qed

definition title_ok :: "string \<Rightarrow> bool" where
  "title_ok n \<longleftrightarrow> newline \<notin> set n \<and> CHR 0x00 \<notin> set n"

lemma clean_title: "title_ok n \<Longrightarrow> clean (CHR ''['' # n @ '']'')"
  by (auto simp: clean_def title_ok_def is_blank_def newline_def)

definition comment_ok :: "string \<Rightarrow> bool" where
  "comment_ok c \<longleftrightarrow> clean (CHR ''*'' # c) \<and> CHR ''*'' # c \<noteq> EnabledText"

definition code_ok :: "cheat_line \<Rightarrow> bool" where
  "code_ok l \<longleftrightarrow> clean (line_text l) \<and> hd (line_text l) \<noteq> CHR ''*'' \<and> \<not> (2 \<le> length (line_text l) \<and> hd (line_text l) = CHR ''['') \<and>
     parse_line (line_text l) = l"

text \<open>A cheat that can be written: it has a line, and its comments are whole lines.\<close>

definition cheat_ok :: "cheat \<Rightarrow> bool" where
  "cheat_ok c \<longleftrightarrow> title_ok (cheat_name c) \<and> cheat_lines c \<noteq> [] \<and> list_all code_ok (cheat_lines c) \<and>
     list_all comment_ok (SplitString (comments c) newline) \<and>
     comments c = concat (map (\<lambda>l. l @ [newline]) (SplitString (comments c) newline))"

section \<open>Loading\<close>

lemma load_title:
  assumes "title_ok n"
  shows "load_line (CHR ''['' # n @ '']'') s = (flush_cheat s)\<lparr>cur_name := n, cur_lines := [], cur_comments := []\<rparr>"
  unfolding load_line_def strip_clean [OF clean_title [OF assms]] by simp

lemma load_enabled: "load_line EnabledText s = s\<lparr>cur_enabled := True\<rparr>"
proof -
  have "clean EnabledText"
    by code_simp
  then show ?thesis
    by (simp add: load_line_def strip_clean) (simp add: EnabledText_def)
qed

lemma load_comment:
  assumes "comment_ok c"
  shows "load_line (CHR ''*'' # c) s = s\<lparr>cur_comments := cur_comments s @ c @ [newline]\<rparr>"
proof -
  have "clean (CHR ''*'' # c)" "CHR ''*'' # c \<noteq> EnabledText"
    using assms by (simp_all add: comment_ok_def)
  then show ?thesis
    unfolding load_line_def strip_clean [OF \<open>clean (CHR ''*'' # c)\<close>] by simp
qed

lemma load_code:
  assumes "code_ok l"
  shows "load_line (line_text l) s = s\<lparr>cur_lines := cur_lines s @ [l]\<rparr>"
  using assms by (auto simp: load_line_def strip_clean code_ok_def clean_def)

lemma load_empty: "load_line [] s = s"
  by (simp add: load_line_def StripSpaces_def)

lemma load_comments:
  assumes "list_all comment_ok cs"
  shows "fold load_line (map ((#) (CHR ''*'')) cs) s = s\<lparr>cur_comments := cur_comments s @ concat (map (\<lambda>l. l @ [newline]) cs)\<rparr>"
  using assms by (induction cs arbitrary: s) (simp_all add: load_comment)

lemma load_codes:
  assumes "list_all code_ok ls"
  shows "fold load_line (map line_text ls) s = s\<lparr>cur_lines := cur_lines s @ ls\<rparr>"
  using assms by (induction ls arbitrary: s) (simp_all add: load_code)

text \<open>The lines of the text of a cheat.\<close>

definition text_lines :: "cheat \<Rightarrow> string list" where
  "text_lines c = [''['' @ cheat_name c @ '']''] @ (if enabled c then [EnabledText] else []) @
     map ((#) (CHR ''*'')) (SplitString (comments c) newline) @ map line_text (cheat_lines c) @ [[]]"

lemma ToString_lines: "ToString c = concat (map (\<lambda>l. l @ [newline]) (text_lines c))"
  by (simp add: ToString_def text_lines_def GetCode_def o_def)

lemma text_lines_no_newline:
  assumes "cheat_ok c" "l \<in> set (text_lines c)"
  shows "newline \<notin> set l"
proof -
  have "newline \<notin> set EnabledText"
    by code_simp
  moreover have "newline \<noteq> CHR ''[''" "newline \<noteq> CHR '']''" "newline \<noteq> CHR ''*''"
    by (simp_all add: newline_def)
  ultimately show ?thesis
    using assms
    by (auto simp: text_lines_def cheat_ok_def list_all_iff code_ok_def comment_ok_def clean_def title_ok_def split: if_splits)
qed

lemma load_cheat:
  assumes "cheat_ok c" "cur_enabled (flush_cheat s) = False"
  shows "fold load_line (text_lines c) s =
    \<lparr>loaded = loaded (flush_cheat s), cur_name = cheat_name c, cur_lines = cheat_lines c, cur_comments = comments c,
     cur_enabled = enabled c\<rparr>"
proof -
  have c: "title_ok (cheat_name c)" "list_all code_ok (cheat_lines c)" "list_all comment_ok (SplitString (comments c) newline)"
    "concat (map (\<lambda>l. l @ [newline]) (SplitString (comments c) newline)) = comments c"
    using assms(1) by (simp_all add: cheat_ok_def)
  show ?thesis
    using assms(2) by (simp add: text_lines_def load_title c load_enabled load_comments load_codes load_empty)
qed

lemma load_cheats:
  assumes "list_all cheat_ok cs" "cur_enabled (flush_cheat s) = False"
  shows "loaded (flush_cheat (fold load_line (concat (map text_lines cs)) s)) = loaded (flush_cheat s) @ cs"
  using assms
proof (induction cs arbitrary: s)
  case (Cons c cs)
  have "cheat_lines c \<noteq> []"
    using Cons.prems(1) by (simp add: cheat_ok_def)
  with Cons show ?case
    by (simp add: load_cheat flush_cheat_def)
qed simp

text \<open>C34: Loading the file that was saved gives the cheats back, with their names, lines, comments and which of them
  are enabled, when each can be written: a name on one line, at least one line of code, lines and comments without
  blanks at their ends, and no comment that reads as the mark of an enabled cheat.\<close>

theorem LoadFile_SaveCheatFile:
  assumes "list_all cheat_ok cs"
  shows "LoadFile (SaveCheatFile cs) = cs"
proof -
  have "SaveCheatFile cs = concat (map (\<lambda>l. l @ [newline]) (concat (map text_lines cs)))"
    by (induction cs) (simp_all add: SaveCheatFile_def ToString_lines)
  moreover have "\<forall>l\<in>set (concat (map text_lines cs)). newline \<notin> set l"
    using assms text_lines_no_newline by (auto simp: list_all_iff)
  ultimately show ?thesis
    using load_cheats [OF assms] by (simp add: LoadFile_def SplitString_lines flush_cheat_def)
qed

section \<open>Witness\<close>

lemma line_text_parse_line [simp]: "line_text (parse_line t) = t"
  by (simp add: parse_line_def invalid_line_def Let_def split: option.split)

definition demo_cheats :: "cheat list" where
  "demo_cheats =
     [\<lparr>cheat_name = ''Max [all] coins'', cheat_lines = map parse_line [''D3000000 00000000'', ''00100010 0000FFFF''],
       comments = ''use in'' @ [newline] @ ''the shop'' @ [newline], enabled = True\<rparr>,
      \<lparr>cheat_name = [], cheat_lines = [parse_line ''not a line''], comments = [], enabled = False\<rparr>]"

lemma demo_cheats_ok: "list_all cheat_ok demo_cheats"
proof -
  have "SplitString (''use in'' @ [newline] @ ''the shop'' @ [newline]) newline = [''use in'', ''the shop'']"
    using SplitString_lines [of "[''use in'', ''the shop'']" newline] by (simp add: newline_def)
  moreover have "list_all clean [''D3000000 00000000'', ''00100010 0000FFFF'', ''not a line'', ''*use in'', ''*the shop'']"
    by code_simp
  moreover have "title_ok ''Max [all] coins''" "title_ok []" "EnabledText \<noteq> ''*use in''" "EnabledText \<noteq> ''*the shop''"
    by code_simp+
  ultimately show ?thesis
    by (simp add: demo_cheats_def cheat_ok_def code_ok_def comment_ok_def)
qed

theorem LoadFile_SaveCheatFile_witness: "LoadFile (SaveCheatFile demo_cheats) = demo_cheats"
  by (rule LoadFile_SaveCheatFile [OF demo_cheats_ok])

end
