(* ===== verification/Param_Package.thy ===== *)
theory Param_Package
  imports String_Util "HOL-Library.Char_ord" "HOL-Library.List_Lexorder"
begin

text \<open>
  The string-based parameter packages of \<open>common/param_package.cpp\<close>, with which input devices are
  configured: an ordered map from strings to strings, written as \<open>key:value,key:value\<close> with
  the separators escaped by \<open>$\<close>. Reading and writing of \<open>float\<close>s goes through the host's formatting
  and is not modelled.
\<close>

section \<open>The map\<close>

text \<open>\<open>std::map\<close>: an association list in the order of the keys.\<close>

type_synonym package = "(string \<times> string) list"

definition package_ok :: "package \<Rightarrow> bool" where
  "package_ok d \<longleftrightarrow> sorted_wrt (<) (map fst d)"

fun param_Set :: "string \<Rightarrow> string \<Rightarrow> package \<Rightarrow> package" where
  "param_Set k v [] = [(k, v)]"
| "param_Set k v ((k', v') # d) =
     (if k < k' then (k, v) # (k', v') # d
      else if k = k' then (k, v) # d
      else (k', v') # param_Set k v d)"

definition param_Get :: "string \<Rightarrow> string \<Rightarrow> package \<Rightarrow> string" where
  "param_Get k dflt d = (case map_of d k of None \<Rightarrow> dflt | Some v \<Rightarrow> v)"

definition param_Has :: "string \<Rightarrow> package \<Rightarrow> bool" where
  "param_Has k d \<longleftrightarrow> map_of d k \<noteq> None"

definition param_Erase :: "string \<Rightarrow> package \<Rightarrow> package" where
  "param_Erase k d = filter (\<lambda>p. fst p \<noteq> k) d"

definition param_Clear :: "package \<Rightarrow> package" where
  "param_Clear d = []"

section \<open>Integers\<close>

text \<open>\<open>std::to_string(int)\<close> and \<open>std::stoi\<close>, which skips blanks, takes a sign and digits up to the first
  other character, and throws when there are none or the value is no \<open>int\<close>.\<close>

definition digit_char :: "nat \<Rightarrow> char" where
  "digit_char n = char_of (48 + n)"

fun digits_of :: "nat \<Rightarrow> string" where
  "digits_of n = (if n < 10 then [digit_char n] else digits_of (n div 10) @ [digit_char (n mod 10)])"

declare digits_of.simps [simp del]

definition to_string :: "int \<Rightarrow> string" where
  "to_string i = (if i < 0 then ''-'' @ digits_of (nat (- i)) else digits_of (nat i))"

definition is_digit :: "char \<Rightarrow> bool" where
  "is_digit c \<longleftrightarrow> 48 \<le> (of_char c :: nat) \<and> (of_char c :: nat) < 58"

definition is_white :: "char \<Rightarrow> bool" where
  "is_white c \<longleftrightarrow> (of_char c :: nat) = 32 \<or> 9 \<le> (of_char c :: nat) \<and> (of_char c :: nat) \<le> 13"

definition digits_value :: "string \<Rightarrow> nat" where
  "digits_value ds = foldl (\<lambda>v c. 10 * v + (of_char c - 48)) 0 ds"

definition stoi :: "string \<Rightarrow> int option" where
  "stoi s =
     (let s = dropWhile is_white s;
          negative = (s \<noteq> [] \<and> hd s = CHR ''-'');
          ds = takeWhile is_digit (if s \<noteq> [] \<and> (hd s = CHR ''-'' \<or> hd s = CHR ''+'') then tl s else s);
          v = (if negative then - int (digits_value ds) else int (digits_value ds))
      in if ds = [] \<or> v < - (2 ^ 31) \<or> 2 ^ 31 \<le> v then None else Some v)"

definition param_Get_int :: "string \<Rightarrow> int \<Rightarrow> package \<Rightarrow> int" where
  "param_Get_int k dflt d =
     (case map_of d k of
        None \<Rightarrow> dflt
      | Some v \<Rightarrow> (case stoi v of None \<Rightarrow> dflt | Some i \<Rightarrow> i))"

definition param_Set_int :: "string \<Rightarrow> int \<Rightarrow> package \<Rightarrow> package" where
  "param_Set_int k i d = param_Set k (to_string i) d"

section \<open>Writing and reading a package\<close>

definition EMPTY_PLACEHOLDER :: string where
  "EMPTY_PLACEHOLDER = ''[empty]''"

definition escape_part :: "string \<Rightarrow> string option" where
  "escape_part part = do {
     part \<leftarrow> ReplaceAll part ''$'' ''$2'';
     part \<leftarrow> ReplaceAll part '','' ''$1'';
     ReplaceAll part '':'' ''$0'' }"

definition unescape_part :: "string \<Rightarrow> string option" where
  "unescape_part part = do {
     part \<leftarrow> ReplaceAll part ''$0'' '':'';
     part \<leftarrow> ReplaceAll part ''$1'' '','';
     ReplaceAll part ''$2'' ''$'' }"

fun serialize_pairs :: "package \<Rightarrow> string option" where
  "serialize_pairs [] = Some []"
| "serialize_pairs ((k, v) # d) = do {
     k \<leftarrow> escape_part k;
     v \<leftarrow> escape_part v;
     rest \<leftarrow> serialize_pairs d;
     Some (k @ '':'' @ v @ '','' @ rest) }"

definition Serialize :: "package \<Rightarrow> string option" where
  "Serialize d =
     (if d = [] then Some EMPTY_PLACEHOLDER
      else do { result \<leftarrow> serialize_pairs d; Some (butlast result) })"

text \<open>A part that does not split in two is reported and skipped.\<close>

definition parse_pair :: "string \<Rightarrow> package \<Rightarrow> package option" where
  "parse_pair pair d =
     (case SplitString pair (CHR '':'') of
        [k, v] \<Rightarrow> do { k \<leftarrow> unescape_part k; v \<leftarrow> unescape_part v; Some (param_Set k v d) }
      | _ \<Rightarrow> Some d)"

definition ParamPackage :: "string \<Rightarrow> package option" where
  "ParamPackage serialized =
     (if serialized = EMPTY_PLACEHOLDER then Some []
      else for_each parse_pair (SplitString serialized (CHR '','')) [])"

section \<open>The map operations\<close>

lemma map_of_param_Set: "map_of (param_Set k v d) = (map_of d)(k \<mapsto> v)"
  by (induction k v d rule: param_Set.induct) (auto simp: fun_eq_iff)

lemma fst_param_Set [simp]: "fst ` set (param_Set k v d) = insert k (fst ` set d)"
  by (induction k v d rule: param_Set.induct) auto

lemma package_ok_Set: "package_ok d \<Longrightarrow> package_ok (param_Set k v d)"
  unfolding package_ok_def
proof (induction k v d rule: param_Set.induct)
  case (2 k v k' v' d)
  from 2 show ?case
    by (auto intro: less_trans)
qed simp

lemma package_ok_Erase: "package_ok d \<Longrightarrow> package_ok (param_Erase k d)"
  unfolding package_ok_def param_Erase_def by (induction d) auto

lemma param_Set_last:
  assumes "package_ok (d @ [(k, v)])"
  shows "param_Set k v d = d @ [(k, v)]"
  using assms unfolding package_ok_def
  by (induction d) (auto simp: sorted_wrt_append)

section \<open>Escaping\<close>

text \<open>The characters after each stage, written out.\<close>

definition esc :: "char \<Rightarrow> string" where
  "esc c = (if c = CHR ''$'' then ''$2'' else if c = CHR '','' then ''$1'' else if c = CHR '':'' then ''$0'' else [c])"

definition esc12 :: "char \<Rightarrow> string" where
  "esc12 c = (if c = CHR ''$'' then ''$2'' else if c = CHR '','' then ''$1'' else [c])"

definition esc2 :: "char \<Rightarrow> string" where
  "esc2 c = (if c = CHR ''$'' then ''$2'' else [c])"

lemma concat_map_concat_map: "concat (map f (concat (map g xs))) = concat (map (\<lambda>x. concat (map f (g x))) xs)"
  by (induction xs) simp_all

lemma escape_part_esc: "escape_part s = Some (concat (map esc s))"
proof -
  have "escape_part s = Some (replaced '':'' ''$0'' (replaced '','' ''$1'' (replaced ''$'' ''$2'' s)))"
    by (simp add: escape_part_def ReplaceAll_replaced)
  also have "\<dots> = Some (concat (map esc s))"
    unfolding replaced_char concat_map_concat_map
    by (intro arg_cong [of _ _ Some] arg_cong [of _ _ concat] map_cong) (auto simp: esc_def)
  finally show ?thesis .
qed

lemma unescape_0: "replaced ''$0'' '':'' (concat (map esc s)) = concat (map esc12 s)"
  by (induction s) (auto simp: esc_def esc12_def replaced_pair)

lemma unescape_1: "replaced ''$1'' '','' (concat (map esc12 s)) = concat (map esc2 s)"
  by (induction s) (auto simp: esc2_def esc12_def replaced_pair)

lemma unescape_2: "replaced ''$2'' ''$'' (concat (map esc2 s)) = s"
  by (induction s) (auto simp: esc2_def replaced_pair)

lemma unescape_part_esc: "unescape_part (concat (map esc s)) = Some s"
  by (simp add: unescape_part_def ReplaceAll_replaced unescape_0 unescape_1 unescape_2)

lemma esc_no_separator: "CHR '','' \<notin> set (esc c)" "CHR '':'' \<notin> set (esc c)"
  by (auto simp: esc_def)

lemma escaped_no_separator [simp]:
  "CHR '','' \<notin> set (concat (map esc s))" "CHR '':'' \<notin> set (concat (map esc s))"
  using esc_no_separator by auto

lemma escaped_empty [simp]: "concat (map esc s) = [] \<longleftrightarrow> s = []"
  by (cases s) (auto simp: esc_def)

section \<open>Reading what was written\<close>

definition pair_text :: "string \<times> string \<Rightarrow> string" where
  "pair_text p = concat (map esc (fst p)) @ '':'' @ concat (map esc (snd p))"

lemma serialize_pairs_text: "serialize_pairs d = Some (concat (map (\<lambda>p. pair_text p @ '','') d))"
  by (induction d rule: serialize_pairs.induct) (simp_all add: escape_part_esc pair_text_def)

lemma pair_text_comma [simp]: "CHR '','' \<notin> set (pair_text p)"
  unfolding pair_text_def using escaped_no_separator by simp

lemma pair_text_not_empty [simp]: "pair_text p \<noteq> []"
  by (simp add: pair_text_def)

lemma Split_pairs:
  "d \<noteq> [] \<Longrightarrow> SplitString (butlast (concat (map (\<lambda>p. pair_text p @ '','') d))) (CHR '','') = map pair_text d"
proof (induction d)
  case (Cons p d)
  show ?case
  proof (cases d)
    case Nil
    then show ?thesis by (simp add: butlast_append SplitString_last)
  next
    case (Cons q d')
    then have ne: "concat (map (\<lambda>p. pair_text p @ '','') d) \<noteq> []"
      by simp
    have "butlast (concat (map (\<lambda>p. pair_text p @ '','') (p # d))) =
        pair_text p @ CHR '','' # butlast (concat (map (\<lambda>p. pair_text p @ '','') d))"
      using ne by (simp add: butlast_append)
    with Cons.IH Cons show ?thesis
      by (simp only: SplitString_token [OF pair_text_comma] list.map) simp
  qed
qed simp

text \<open>A pair comes back unless its value is empty: then \<open>getline\<close> sees no second part.\<close>

lemma parse_pair_text:
  "parse_pair (pair_text (k, v)) d = Some (if v = [] then d else param_Set k v d)"
proof (cases "v = []")
  case True
  then have "SplitString (pair_text (k, v)) (CHR '':'') = [concat (map esc k)]"
    using SplitString_token [of "CHR '':''" "concat (map esc k)" "[]"] escaped_no_separator(2) by (simp add: pair_text_def)
  with True show ?thesis
    by (simp add: parse_pair_def)
next
  case False
  then have ne: "concat (map esc v) \<noteq> []"
    using escaped_empty by blast
  have "SplitString (pair_text (k, v)) (CHR '':'') = [concat (map esc k), concat (map esc v)]"
    by (simp add: pair_text_def SplitString_token [OF escaped_no_separator(2)] SplitString_last [OF escaped_no_separator(2) ne])
  with False show ?thesis
    by (simp add: parse_pair_def unescape_part_esc)
qed

lemma parse_pairs:
  assumes "package_ok (filter (\<lambda>p. snd p \<noteq> []) (done @ d))"
  shows "for_each parse_pair (map pair_text d) (filter (\<lambda>p. snd p \<noteq> []) done) = Some (filter (\<lambda>p. snd p \<noteq> []) (done @ d))"
  using assms
proof (induction d arbitrary: "done")
  case (Cons p d)
  obtain k v where p: "p = (k, v)"
    by (cases p)
  have "parse_pair (pair_text p) (filter (\<lambda>p. snd p \<noteq> []) done) = Some (filter (\<lambda>p. snd p \<noteq> []) (done @ [p]))"
  proof (cases "v = []")
    case False
    have "package_ok (filter (\<lambda>p. snd p \<noteq> []) done @ [(k, v)])"
      using Cons.prems False p by (auto simp: package_ok_def sorted_wrt_append)
    with False p show ?thesis
      by (simp add: parse_pair_text param_Set_last)
  qed (simp add: p parse_pair_text)
  with Cons.IH [of "done @ [p]"] Cons.prems show ?case by simp
qed simp

lemma package_ok_filter: "package_ok d \<Longrightarrow> package_ok (filter P d)"
  unfolding package_ok_def by (induction d) auto

lemma serialized_not_placeholder: "d \<noteq> [] \<Longrightarrow> butlast (concat (map (\<lambda>p. pair_text p @ '','') d)) \<noteq> EMPTY_PLACEHOLDER"
proof
  assume d: "d \<noteq> []" and e: "butlast (concat (map (\<lambda>p. pair_text p @ '','') d)) = EMPTY_PLACEHOLDER"
  from d have "CHR '':'' \<in> set (butlast (concat (map (\<lambda>p. pair_text p @ '','') d)))"
    by (cases d) (auto simp: pair_text_def butlast_append)
  with e show False
    by (simp add: EMPTY_PLACEHOLDER_def)
qed

lemma Serialize_spec:
  assumes "package_ok d"
  shows "\<exists>s. Serialize d = Some s \<and> ParamPackage s = Some (filter (\<lambda>p. snd p \<noteq> []) d)"
proof (cases "d = []")
  case True
  then show ?thesis by (simp add: Serialize_def ParamPackage_def)
next
  case False
  let ?s = "butlast (concat (map (\<lambda>p. pair_text p @ '','') d))"
  have "for_each parse_pair (map pair_text d) [] = Some (filter (\<lambda>p. snd p \<noteq> []) d)"
    using parse_pairs [of "[]" d] package_ok_filter [OF assms] by simp
  with False serialized_not_placeholder [OF False] Split_pairs [OF False] show ?thesis
    by (simp add: Serialize_def ParamPackage_def serialize_pairs_text)
qed

section \<open>Properties\<close>

text \<open>C38: Serialising a parameter package and parsing the result gives the package back, whatever separators
  and escape characters its keys and values contain, except that pairs with an empty value are lost.
\<close>

theorem Serialize_ParamPackage:
  assumes "package_ok d"
  shows "\<exists>s. Serialize d = Some s \<and> ParamPackage s = Some (filter (\<lambda>p. snd p \<noteq> []) d)"
  by (rule Serialize_spec [OF assms])

theorem Serialize_ParamPackage_witness:
  "\<exists>s. Serialize [(''a'', ''''), (''engine'', ''sdl''), (''name'', ''$0,:$'')] = Some s \<and>
     ParamPackage s = Some [(''engine'', ''sdl''), (''name'', ''$0,:$'')]"
  using Serialize_ParamPackage [of "[(''a'', ''''), (''engine'', ''sdl''), (''name'', ''$0,:$'')]"]
  by (simp add: package_ok_def less_list_code less_char_def)

section \<open>Integers come back\<close>

lemma digit_char_value: "n < 10 \<Longrightarrow> (of_char (digit_char n) :: nat) = 48 + n"
  by (simp add: digit_char_def)

lemma digits_of_digits: "c \<in> set (digits_of n) \<Longrightarrow> is_digit c"
proof (induction n rule: digits_of.induct)
  case (1 n)
  then show ?case
    by (subst (asm) digits_of.simps) (auto simp: is_digit_def digit_char_value split: if_splits)
qed

lemma digits_of_value: "digits_value (digits_of n) = n"
proof (induction n rule: digits_of.induct)
  case (1 n)
  show ?case
  proof (cases "n < 10")
    case True
    then show ?thesis
      by (subst digits_of.simps) (simp add: digits_value_def digit_char_value)
  next
    case False
    with 1 have "digits_value (digits_of (n div 10)) = n div 10"
      by simp
    with False show ?thesis
      by (subst digits_of.simps) (simp add: digits_value_def digit_char_value)
  qed
qed

lemma digits_of_not_Nil [simp]: "digits_of n \<noteq> []"
  by (subst digits_of.simps) simp

lemma stoi_to_string:
  assumes "- (2 ^ 31) \<le> i" "i < 2 ^ 31"
  shows "stoi (to_string i) = Some i"
proof -
  let ?ds = "digits_of (nat \<bar>i\<bar>)"
  obtain c cs where cs: "?ds = c # cs"
    by (cases ?ds) auto
  have c: "is_digit c"
    using digits_of_digits [of c "nat \<bar>i\<bar>"] cs by simp
  have tw: "takeWhile is_digit ?ds = ?ds"
    using digits_of_digits by (simp add: takeWhile_eq_all_conv)
  have nc: "\<not> is_white c" "c \<noteq> CHR ''-''" "c \<noteq> CHR ''+''"
    using c by (auto simp: is_digit_def is_white_def)
  show ?thesis
  proof (cases "i < 0")
    case True
    then have "to_string i = CHR ''-'' # ?ds"
      by (simp add: to_string_def)
    moreover have "\<not> is_white (CHR ''-'')"
      by (simp add: is_white_def)
    ultimately show ?thesis
      using tw assms True digits_of_value by (simp add: stoi_def Let_def del: takeWhile_eq_all_conv)
  next
    case False
    then have "to_string i = ?ds"
      by (simp add: to_string_def)
    then show ?thesis
      using tw assms False nc cs digits_of_value [of "nat \<bar>i\<bar>"] by (simp add: stoi_def Let_def del: takeWhile_eq_all_conv)
  qed
qed

lemma to_string_not_Nil [simp]: "to_string i \<noteq> []"
  by (simp add: to_string_def)

text \<open>An integer that is set in a package is still there after the package has been written and read:
  \<open>Get\<close> returns exactly the value that \<open>Set\<close> stored, for every \<open>int\<close>.
\<close>

lemma Set_int_survives:
  assumes "package_ok d" "- (2 ^ 31) \<le> i" "i < 2 ^ 31"
  shows "\<exists>s d'. Serialize (param_Set_int k i d) = Some s \<and> ParamPackage s = Some d' \<and> param_Get_int k dflt d' = i"
proof -
  let ?d = "param_Set_int k i d"
  have ok: "package_ok ?d"
    using package_ok_Set [OF assms(1)] by (simp add: param_Set_int_def)
  have keep: "map_of (filter (\<lambda>p. snd p \<noteq> []) d) k = Some v" if "map_of d k = Some v" "v \<noteq> []" "package_ok d" for d v
    using that unfolding package_ok_def by (induction d) (auto split: if_splits)
  have "map_of ?d k = Some (to_string i)"
    by (simp add: param_Set_int_def map_of_param_Set)
  from keep [OF this to_string_not_Nil ok] have "param_Get_int k dflt (filter (\<lambda>p. snd p \<noteq> []) ?d) = i"
    using stoi_to_string [OF assms(2,3)] by (simp add: param_Get_int_def)
  with Serialize_spec [OF ok] show ?thesis by blast
qed

lemma Set_int_survives_witness:
  "\<exists>s d'. Serialize (param_Set_int ''code'' (- 17) [(''engine'', ''sdl'')]) = Some s \<and> ParamPackage s = Some d' \<and>
     param_Get_int ''code'' 0 d' = - 17"
  using Set_int_survives [of "[(''engine'', ''sdl'')]" "- 17"] by (simp add: package_ok_def)

end
