(* ===== verification/Arm_Supp.thy ===== *)
theory Arm_Supp
  imports Prelude
begin

text \<open>
  The arithmetic helpers of the ARM interpreter (\<open>core/arm/skyeye_common/armsupp.cpp\<close>): addition with
  carry and overflow, and the saturating operations of the media instructions. C++ computes on
  \<open>u8\<close> and \<open>u16\<close> in \<open>int\<close> and cuts the result, which is the word arithmetic used here.
\<close>

section \<open>Flags\<close>

definition ARMul_UnsignedAbsoluteDifference :: "u8 \<Rightarrow> u8 \<Rightarrow> u8" where
  "ARMul_UnsignedAbsoluteDifference left right = (if left > right then left - right else right - left)"

text \<open>Result, carry out and overflow; the sums are 64-bit.\<close>

definition AddWithCarry :: "u32 \<Rightarrow> u32 \<Rightarrow> u32 \<Rightarrow> u32 \<times> bool \<times> bool" where
  "AddWithCarry left right carry_in =
     (let unsigned_sum = uint left + uint right + uint carry_in;
          signed_sum = sint left + sint right + uint carry_in;
          result = word_of_int unsigned_sum :: u32
      in (result, uint result \<noteq> unsigned_sum, sint result \<noteq> signed_sum))"

definition NEG :: "u32 \<Rightarrow> bool" where
  "NEG i \<longleftrightarrow> drop_bit 31 i \<noteq> 0"

definition POS :: "u32 \<Rightarrow> bool" where
  "POS i \<longleftrightarrow> drop_bit 31 (NOT i) \<noteq> 0"

definition AddOverflow :: "u32 \<Rightarrow> u32 \<Rightarrow> u32 \<Rightarrow> bool" where
  "AddOverflow a b result \<longleftrightarrow> NEG a \<and> NEG b \<and> POS result \<or> POS a \<and> POS b \<and> NEG result"

definition SubOverflow :: "u32 \<Rightarrow> u32 \<Rightarrow> u32 \<Rightarrow> bool" where
  "SubOverflow a b result \<longleftrightarrow> NEG a \<and> POS b \<and> POS result \<or> POS a \<and> NEG b \<and> NEG result"

definition ARMul_AddOverflowQ :: "u32 \<Rightarrow> u32 \<Rightarrow> bool" where
  "ARMul_AddOverflowQ a b \<longleftrightarrow>
     (let result = a + b in (result XOR a) AND 0x80000000 \<noteq> 0 \<and> (a XOR b) AND 0x80000000 = 0)"

section \<open>Saturation\<close>

definition ARMul_SignedSaturatedAdd8 :: "u8 \<Rightarrow> u8 \<Rightarrow> u8" where
  "ARMul_SignedSaturatedAdd8 left right =
     (let result = left + right in
      if (result XOR left) AND 0x80 \<noteq> 0 \<and> (left XOR right) AND 0x80 = 0
      then (if left AND 0x80 \<noteq> 0 then 0x80 else 0x7F) else result)"

definition ARMul_SignedSaturatedSub8 :: "u8 \<Rightarrow> u8 \<Rightarrow> u8" where
  "ARMul_SignedSaturatedSub8 left right =
     (let result = left - right in
      if (result XOR left) AND 0x80 \<noteq> 0 \<and> (left XOR right) AND 0x80 \<noteq> 0
      then (if left AND 0x80 \<noteq> 0 then 0x80 else 0x7F) else result)"

definition ARMul_SignedSaturatedAdd16 :: "u16 \<Rightarrow> u16 \<Rightarrow> u16" where
  "ARMul_SignedSaturatedAdd16 left right =
     (let result = left + right in
      if (result XOR left) AND 0x8000 \<noteq> 0 \<and> (left XOR right) AND 0x8000 = 0
      then (if left AND 0x8000 \<noteq> 0 then 0x8000 else 0x7FFF) else result)"

definition ARMul_SignedSaturatedSub16 :: "u16 \<Rightarrow> u16 \<Rightarrow> u16" where
  "ARMul_SignedSaturatedSub16 left right =
     (let result = left - right in
      if (result XOR left) AND 0x8000 \<noteq> 0 \<and> (left XOR right) AND 0x8000 \<noteq> 0
      then (if left AND 0x8000 \<noteq> 0 then 0x8000 else 0x7FFF) else result)"

definition ARMul_UnsignedSaturatedAdd8 :: "u8 \<Rightarrow> u8 \<Rightarrow> u8" where
  "ARMul_UnsignedSaturatedAdd8 left right = (let result = left + right in if result < left then 0xFF else result)"

definition ARMul_UnsignedSaturatedAdd16 :: "u16 \<Rightarrow> u16 \<Rightarrow> u16" where
  "ARMul_UnsignedSaturatedAdd16 left right = (let result = left + right in if result < left then 0xFFFF else result)"

definition ARMul_UnsignedSaturatedSub8 :: "u8 \<Rightarrow> u8 \<Rightarrow> u8" where
  "ARMul_UnsignedSaturatedSub8 left right = (if left \<le> right then 0 else left - right)"

definition ARMul_UnsignedSaturatedSub16 :: "u16 \<Rightarrow> u16 \<Rightarrow> u16" where
  "ARMul_UnsignedSaturatedSub16 left right = (if left \<le> right then 0 else left - right)"

text \<open>The value with \<open>saturation_occurred\<close>. \<open>(1 << shift) - 1\<close> is an \<open>int\<close>, defined for \<open>shift < 31\<close>.\<close>

definition ARMul_SignedSatQ :: "int \<Rightarrow> nat \<Rightarrow> u32 \<times> bool" where
  "ARMul_SignedSatQ v shift =
     (let max = 2 ^ shift - 1 :: u32; top = drop_bit shift v in
      if top > 0 then (max, True)
      else if top < - 1 then (NOT max, True)
      else (word_of_int v, False))"

definition ARMul_UnsignedSatQ :: "int \<Rightarrow> nat \<Rightarrow> u32 \<times> bool" where
  "ARMul_UnsignedSatQ v shift =
     (let max = 2 ^ shift - 1 :: u32 in
      if v < 0 then (0, True)
      else if (word_of_int v :: u32) > max then (max, True)
      else (word_of_int v, False))"

section \<open>Signs and wrapped sums as integers\<close>

text \<open>The closest value in a range.\<close>

definition clamp :: "int \<Rightarrow> int \<Rightarrow> int \<Rightarrow> int" where
  "clamp lo hi v = max lo (min hi v)"

lemma sign8: "(x :: u8) AND 0x80 = 0 \<longleftrightarrow> 0 \<le> sint x"
  using and_exp_eq_0_iff_not_bit [of x 7] bit_last_iff [of x] by (simp add: not_less)

lemma sign16: "(x :: u16) AND 0x8000 = 0 \<longleftrightarrow> 0 \<le> sint x"
  using and_exp_eq_0_iff_not_bit [of x 15] bit_last_iff [of x] by (simp add: not_less)

lemma sign32: "(x :: u32) AND 0x80000000 = 0 \<longleftrightarrow> 0 \<le> sint x"
  using and_exp_eq_0_iff_not_bit [of x 31] bit_last_iff [of x] by (simp add: not_less)

lemma xor_sign8: "((x :: u8) XOR y) AND 0x80 = 0 \<longleftrightarrow> (sint x < 0 \<longleftrightarrow> sint y < 0)"
  using and_exp_eq_0_iff_not_bit [of "x XOR y" 7] bit_last_iff [of x] bit_last_iff [of y]
  by (simp add: bit_xor_iff)

lemma xor_sign16: "((x :: u16) XOR y) AND 0x8000 = 0 \<longleftrightarrow> (sint x < 0 \<longleftrightarrow> sint y < 0)"
  using and_exp_eq_0_iff_not_bit [of "x XOR y" 15] bit_last_iff [of x] bit_last_iff [of y]
  by (simp add: bit_xor_iff)

lemma xor_sign32: "((x :: u32) XOR y) AND 0x80000000 = 0 \<longleftrightarrow> (sint x < 0 \<longleftrightarrow> sint y < 0)"
  using and_exp_eq_0_iff_not_bit [of "x XOR y" 31] bit_last_iff [of x] bit_last_iff [of y]
  by (simp add: bit_xor_iff)

lemma sint8: "sint (x + y) = (sint x + sint y + 128) mod 256 - 128" "sint (x - y) = (sint x - sint y + 128) mod 256 - 128"
  "- 128 \<le> sint x" "sint x < 128" for x y :: u8
  using sint_ge [of x] sint_lt [of x]
  by (simp_all add: sint_word_ariths signed_take_bit_eq_take_bit_shift take_bit_eq_mod)

lemma sint16: "sint (x + y) = (sint x + sint y + 32768) mod 65536 - 32768" "sint (x - y) = (sint x - sint y + 32768) mod 65536 - 32768"
  "- 32768 \<le> sint x" "sint x < 32768" for x y :: u16
  using sint_ge [of x] sint_lt [of x]
  by (simp_all add: sint_word_ariths signed_take_bit_eq_take_bit_shift take_bit_eq_mod)

lemma wrap_cases:
  fixes s :: int
  assumes "- 2 * m \<le> s" "s < 2 * m" "0 < m"
  shows "(s + m) mod (2 * m) - m = (if s < - m then s + 2 * m else if m \<le> s then s - 2 * m else s)"
proof -
  have 1: "(s + m) mod (2 * m) = (s + m + 2 * m) mod (2 * m)"
    by (rule mod_add_self2 [symmetric])
  have 2: "(s + m) mod (2 * m) = (s + m - 2 * m) mod (2 * m)"
    using mod_add_self2 [of "s + m - 2 * m" "2 * m"] by (simp add: add.commute)
  consider "s < - m" | "- m \<le> s" "s < m" | "m \<le> s"
    by linarith
  then show ?thesis
  proof cases
    case 1
    with \<open>(s + m) mod (2 * m) = (s + m + 2 * m) mod (2 * m)\<close> assms mod_pos_pos_trivial [of "s + m + 2 * m" "2 * m"]
    show ?thesis by simp
  next
    case 2
    with assms mod_pos_pos_trivial [of "s + m" "2 * m"] show ?thesis by simp
  next
    case 3
    with 2 assms mod_pos_pos_trivial [of "s + m - 2 * m" "2 * m"] show ?thesis by simp
  qed
qed

section \<open>Properties\<close>

lemma signed_saturation_Add8: "sint (ARMul_SignedSaturatedAdd8 a b) = clamp (- 128) 127 (sint a + sint b)"
  using sint8(1) [of a b] sint8(3,4) [of a] sint8(3,4) [of b] wrap_cases [of 128 "sint a + sint b"]
  unfolding ARMul_SignedSaturatedAdd8_def Let_def xor_sign8 unfolding sign8 clamp_def
  by (simp split: if_splits)

lemma signed_saturation_Sub8: "sint (ARMul_SignedSaturatedSub8 a b) = clamp (- 128) 127 (sint a - sint b)"
  using sint8(2) [of a b] sint8(3,4) [of a] sint8(3,4) [of b] wrap_cases [of 128 "sint a - sint b"]
  unfolding ARMul_SignedSaturatedSub8_def Let_def xor_sign8 unfolding sign8 clamp_def
  by (simp split: if_splits)

lemma signed_saturation_Add16: "sint (ARMul_SignedSaturatedAdd16 a b) = clamp (- 32768) 32767 (sint a + sint b)"
  using sint16(1) [of a b] sint16(3,4) [of a] sint16(3,4) [of b] wrap_cases [of 32768 "sint a + sint b"]
  unfolding ARMul_SignedSaturatedAdd16_def Let_def xor_sign16 unfolding sign16 clamp_def
  by (simp split: if_splits)

lemma signed_saturation_Sub16: "sint (ARMul_SignedSaturatedSub16 a b) = clamp (- 32768) 32767 (sint a - sint b)"
  using sint16(2) [of a b] sint16(3,4) [of a] sint16(3,4) [of b] wrap_cases [of 32768 "sint a - sint b"]
  unfolding ARMul_SignedSaturatedSub16_def Let_def xor_sign16 unfolding sign16 clamp_def
  by (simp split: if_splits)

lemma uint8: "uint (x + y) = (uint x + uint y) mod 256" "uint x < 256" "y \<le> x \<Longrightarrow> uint (x - y) = uint x - uint y" for x y :: u8
  using uint_bounded [of x] by (simp_all add: uint_word_ariths uint_minus_simple_alt word_le_def)

lemma uint16: "uint (x + y) = (uint x + uint y) mod 65536" "uint x < 65536" "y \<le> x \<Longrightarrow> uint (x - y) = uint x - uint y" for x y :: u16
  using uint_bounded [of x] by (simp_all add: uint_word_ariths uint_minus_simple_alt word_le_def)

lemma mod_cases: "0 \<le> (s :: int) \<Longrightarrow> s < 2 * m \<Longrightarrow> s mod m = (if s < m then s else s - m)"
  by (smt (verit) mod_pos_pos_trivial minus_mod_self2)

lemma unsigned_saturation_Add8: "uint (ARMul_UnsignedSaturatedAdd8 a b) = clamp 0 255 (uint a + uint b)"
  using uint8(1) [of a b] uint8(2) [of a] uint8(2) [of b] mod_cases [of "uint a + uint b" 256] uint_ge_0 [of a] uint_ge_0 [of b]
  by (simp add: ARMul_UnsignedSaturatedAdd8_def Let_def word_less_def clamp_def split: if_splits)

lemma unsigned_saturation_Add16: "uint (ARMul_UnsignedSaturatedAdd16 a b) = clamp 0 65535 (uint a + uint b)"
  using uint16(1) [of a b] uint16(2) [of a] uint16(2) [of b] mod_cases [of "uint a + uint b" 65536] uint_ge_0 [of a] uint_ge_0 [of b]
  by (simp add: ARMul_UnsignedSaturatedAdd16_def Let_def word_less_def clamp_def split: if_splits)

lemma unsigned_saturation_Sub8: "uint (ARMul_UnsignedSaturatedSub8 a b) = clamp 0 255 (uint a - uint b)"
proof (cases "a \<le> b")
  case True
  then show ?thesis by (simp add: ARMul_UnsignedSaturatedSub8_def word_le_def clamp_def)
next
  case False
  then have "b \<le> a" "uint b < uint a"
    by (simp_all add: word_le_def)
  with False uint8(3) [of b a] have "uint (ARMul_UnsignedSaturatedSub8 a b) = uint a - uint b"
    by (simp add: ARMul_UnsignedSaturatedSub8_def)
  with \<open>uint b < uint a\<close> uint8(2) [of a] uint_ge_0 [of b] show ?thesis
    unfolding clamp_def by linarith
qed

lemma unsigned_saturation_Sub16: "uint (ARMul_UnsignedSaturatedSub16 a b) = clamp 0 65535 (uint a - uint b)"
proof (cases "a \<le> b")
  case True
  then show ?thesis by (simp add: ARMul_UnsignedSaturatedSub16_def word_le_def clamp_def)
next
  case False
  then have "b \<le> a" "uint b < uint a"
    by (simp_all add: word_le_def)
  with False uint16(3) [of b a] have "uint (ARMul_UnsignedSaturatedSub16 a b) = uint a - uint b"
    by (simp add: ARMul_UnsignedSaturatedSub16_def)
  with \<open>uint b < uint a\<close> uint16(2) [of a] uint_ge_0 [of b] show ?thesis
    unfolding clamp_def by linarith
qed

text \<open>Each saturating operation of the media instructions gives exactly the mathematical sum or
  difference of its operands, signed or unsigned, moved to the closest value that its 8 or 16 bits can
  hold.
\<close>

lemma saturating_ops_clamp:
  "sint (ARMul_SignedSaturatedAdd8 a b) = clamp (- 128) 127 (sint a + sint b) \<and>
   sint (ARMul_SignedSaturatedSub8 a b) = clamp (- 128) 127 (sint a - sint b) \<and>
   sint (ARMul_SignedSaturatedAdd16 x y) = clamp (- 32768) 32767 (sint x + sint y) \<and>
   sint (ARMul_SignedSaturatedSub16 x y) = clamp (- 32768) 32767 (sint x - sint y) \<and>
   uint (ARMul_UnsignedSaturatedAdd8 a b) = clamp 0 255 (uint a + uint b) \<and>
   uint (ARMul_UnsignedSaturatedSub8 a b) = clamp 0 255 (uint a - uint b) \<and>
   uint (ARMul_UnsignedSaturatedAdd16 x y) = clamp 0 65535 (uint x + uint y) \<and>
   uint (ARMul_UnsignedSaturatedSub16 x y) = clamp 0 65535 (uint x - uint y)"
  by (simp add: signed_saturation_Add8 signed_saturation_Sub8 signed_saturation_Add16 signed_saturation_Sub16
      unsigned_saturation_Add8 unsigned_saturation_Sub8 unsigned_saturation_Add16 unsigned_saturation_Sub16)

section \<open>Flags of an addition\<close>

lemma sint32: "sint (x + y) = (sint x + sint y + 2147483648) mod 4294967296 - 2147483648"
  "sint (x - y) = (sint x - sint y + 2147483648) mod 4294967296 - 2147483648"
  "- 2147483648 \<le> sint x" "sint x < 2147483648" for x y :: u32
  using sint_ge [of x] sint_lt [of x]
  by (simp_all add: sint_word_ariths signed_take_bit_eq_take_bit_shift take_bit_eq_mod)

lemma NEG_bit: "NEG i \<longleftrightarrow> bit i 31"
proof -
  have "drop_bit 31 i = 0 \<longleftrightarrow> \<not> bit i 31"
  proof
    assume "drop_bit 31 i = 0"
    then have "\<not> bit (drop_bit 31 i) 0" by simp
    then show "\<not> bit i 31" by (simp add: bit_drop_bit_eq)
  next
    assume n: "\<not> bit i 31"
    have "\<not> bit (drop_bit 31 i) n" for n
      using n bit_imp_le_length [of i "31 + n"] by (cases n) (auto simp: bit_drop_bit_eq)
    then show "drop_bit 31 i = 0" by (simp add: bit_eq_iff)
  qed
  then show ?thesis by (simp add: NEG_def)
qed

lemma NEG_sint: "NEG i \<longleftrightarrow> sint i < 0"
  using bit_last_iff [of i] by (simp add: NEG_bit)

lemma POS_sint: "POS i \<longleftrightarrow> 0 \<le> sint i"
  using NEG_bit [of "NOT i"] NEG_bit [of i] NEG_sint [of i] by (auto simp: POS_def NEG_def bit_not_iff)

text \<open>The overflow tests of the interpreter agree with the signed sum and difference leaving 32 bits.\<close>

lemma overflow_tests:
  "AddOverflow a b (a + b) \<longleftrightarrow> sint a + sint b \<notin> {- 2147483648..2147483647}"
  "ARMul_AddOverflowQ a b \<longleftrightarrow> sint a + sint b \<notin> {- 2147483648..2147483647}"
  "SubOverflow a b (a - b) \<longleftrightarrow> sint a - sint b \<notin> {- 2147483648..2147483647}"
  using sint32(1,2) [of a b] sint32(3,4) [of a] sint32(3,4) [of b]
    wrap_cases [of 2147483648 "sint a + sint b"] wrap_cases [of 2147483648 "sint a - sint b"]
  unfolding AddOverflow_def SubOverflow_def ARMul_AddOverflowQ_def Let_def xor_sign32 NEG_sint POS_sint
  by (auto split: if_splits)

section \<open>Saturation to a given width\<close>

lemma sint_word_of_int_32:
  assumes "- 2147483648 \<le> i" "i < 2147483648"
  shows "sint (word_of_int i :: u32) = i"
  using assms by (simp add: signed_of_int signed_take_bit_int_eq_self)

lemma pos_zdiv_less:
  assumes "0 < p"
  shows "v div p < - 1 \<longleftrightarrow> v < - (p :: int)"
proof -
  have "v = p * (v div p) + v mod p" "0 \<le> v mod p" "v mod p < p"
    using assms by simp_all
  moreover have "p * (v div p) \<le> p * (- 2)" if "v div p < - 1"
    using that assms by (intro mult_left_mono) simp_all
  moreover have "p * (- 1) \<le> p * (v div p)" if "- 1 \<le> v div p"
    using that assms by (intro mult_left_mono) simp_all
  ultimately show ?thesis by linarith
qed

lemma pow_bounds:
  assumes "shift < 31"
  shows "1 \<le> (2 :: int) ^ shift" "(2 :: int) ^ shift \<le> 1073741824"
proof -
  have "(2 :: int) ^ shift \<le> 2 ^ 30"
    using assms by (intro power_increasing) simp_all
  then show "(2 :: int) ^ shift \<le> 1073741824" by simp
qed simp

text \<open>C39: \<open>SSAT\<close> and \<open>USAT\<close>: the result is the value moved into the range of the given width, and the
  flag tells exactly whether that changed it.
\<close>

theorem saturate_to_width:
  assumes "shift < 31" "- (2 ^ 31) \<le> v" "v < 2 ^ 31"
  shows "sint (fst (ARMul_SignedSatQ v shift)) = clamp (- (2 ^ shift)) (2 ^ shift - 1) v \<and>
    (snd (ARMul_SignedSatQ v shift) \<longleftrightarrow> clamp (- (2 ^ shift)) (2 ^ shift - 1) v \<noteq> v) \<and>
    sint (fst (ARMul_UnsignedSatQ v shift)) = clamp 0 (2 ^ shift - 1) v \<and>
    (snd (ARMul_UnsignedSatQ v shift) \<longleftrightarrow> clamp 0 (2 ^ shift - 1) v \<noteq> v)"
proof -
  define p :: int where "p = 2 ^ shift"
  have p: "1 \<le> p" "p \<le> 1073741824"
    using pow_bounds [OF assms(1)] by (simp_all add: p_def)
  have mx: "(2 ^ shift - 1 :: u32) = word_of_int (p - 1)"
    by (simp add: p_def)
  have nmx: "NOT (2 ^ shift - 1 :: u32) = word_of_int (- p)"
    by (simp add: p_def not_eq_complement)
  have sm: "sint (2 ^ shift - 1 :: u32) = p - 1" "sint (NOT (2 ^ shift - 1) :: u32) = - p"
    using p unfolding nmx unfolding mx by (simp_all only: sint_word_of_int_32)
  have um: "uint (2 ^ shift - 1 :: u32) = p - 1"
    using p unfolding mx by (simp only: uint_word_of_int) simp
  have v: "- 2147483648 \<le> v" "v < 2147483648"
    using assms by simp_all
  have top: "drop_bit shift v > 0 \<longleftrightarrow> p \<le> v" "drop_bit shift v < - 1 \<longleftrightarrow> v < - p"
  proof -
    have d: "drop_bit shift v = v div p"
      by (simp add: p_def drop_bit_eq_div)
    have "v div p > 0 \<longleftrightarrow> p \<le> v"
      using p by (simp add: pos_imp_zdiv_pos_iff)
    moreover have "v div p < - 1 \<longleftrightarrow> v < - p"
      using p pos_zdiv_less [of p v] by simp
    ultimately show "drop_bit shift v > 0 \<longleftrightarrow> p \<le> v" "drop_bit shift v < - 1 \<longleftrightarrow> v < - p"
      by (simp_all add: d)
  qed
  have s: "sint (fst (ARMul_SignedSatQ v shift)) = clamp (- p) (p - 1) v \<and>
      (snd (ARMul_SignedSatQ v shift) \<longleftrightarrow> clamp (- p) (p - 1) v \<noteq> v)"
    unfolding ARMul_SignedSatQ_def Let_def top using p v sm
    by (simp add: sint_word_of_int_32 clamp_def)
  have u: "(word_of_int v :: u32) > 2 ^ shift - 1 \<longleftrightarrow> p \<le> v" if "0 \<le> v"
    using that v unfolding word_less_def um by (simp add: uint_word_of_int) auto
  have "sint (fst (ARMul_UnsignedSatQ v shift)) = clamp 0 (p - 1) v \<and>
      (snd (ARMul_UnsignedSatQ v shift) \<longleftrightarrow> clamp 0 (p - 1) v \<noteq> v)"
  proof (cases "v < 0")
    case True
    with p show ?thesis by (simp add: ARMul_UnsignedSatQ_def Let_def clamp_def)
  next
    case False
    with u p v sm show ?thesis
      unfolding ARMul_UnsignedSatQ_def Let_def by (simp add: sint_word_of_int_32 clamp_def)
  qed
  with s show ?thesis
    by (simp add: p_def)
qed

theorem saturate_to_width_witness:
  "sint (fst (ARMul_SignedSatQ (- 300) 7)) = - 128 \<and> snd (ARMul_SignedSatQ (- 300) 7) \<and>
   sint (fst (ARMul_UnsignedSatQ 300 8)) = 255 \<and> snd (ARMul_UnsignedSatQ 300 8)"
  using saturate_to_width [of 7 "- 300"] saturate_to_width [of 8 300] by (simp add: clamp_def)

end
