(* ===== verification/Spec2Isabelle.thy ===== *)
theory Spec2Isabelle
  imports Handle_Table Sync_Props Process_Props System_Loop Cache_Batch
    Arbiter_Props Svc_Props Guest_Tables Memory_Props Cheat_Text Param_Package Arm_Supp
begin

text \<open>
  Verification library of the 3DS emulator core: the kernel that the emulator re-implements
  (\<open>src/src/core/hle/kernel\<close>), its clock and its loop (\<open>src/src/core/core_timing.cpp\<close>,
  \<open>src/src/core/core.cpp\<close>), the memory of the emulated machine (\<open>src/src/core/memory.cpp\<close>), and some of
  the code they rest on. Paths below are relative to \<open>src/src\<close>.

  \<^bold>\<open>The program.\<close> \<open>System::RunLoop\<close> lets the emulated cores run in slices. Each core has a timer
  (\<open>Core::Timing::Timer\<close>) with a queue of events; between slices the events that are due call back into
  the kernel: a sleeping thread wakes up, a guest timer fires. Then the core's \<open>ThreadManager\<close> picks the
  ready thread of the best priority and the CPU executes it until the slice ends or it makes a system
  call (\<open>SVC\<close>). System calls find their objects by handle, in the table of the current process, create
  and signal objects, and put the calling thread to sleep until the object is available. Objects and
  memory are counted against a resource limit. A process has an address space of its own
  (\<open>VMManager\<close>), whose areas are backed by blocks of FCRAM that three \<open>MemoryRegionInfo\<close> hand out; a page
  table below it serves the CPU's and the kernel's reads and writes, some of them through the
  rasterizer's cache.

  \<^bold>\<open>Conventions.\<close>
  \<^item> An operation of type \<open>s \<Rightarrow> 's option\<close> gives \<open>None\<close> where the code stops (a failing \<open>ASSERT\<close>,
    \<open>UNREACHABLE\<close>, a null pointer, an index out of range, signed overflow) or, for a
    \<open>partial_function\<close>, does not return. A theorem that the result is \<open>Some\<close> thus says that the code
    returns and that no assertion fails. The code's own errors are the result word (\<open>u32\<close>).
  \<^item> \<open>u8\<close>, \<open>u16\<close>, \<open>u32\<close> are words. Addresses and sizes are \<open>nat\<close> with \<open>add32\<close> and \<open>sub32\<close> where the code
    can wrap; signed integers are \<open>int\<close> in range (\<open>in_s32\<close>), or reduced by \<open>to_s32\<close> and \<open>to_s64\<close>.
  \<^item> Objects the code shares by pointer (threads, waitable objects, arbiters) have a number and live in a
    map of the kernel's record.
  \<^item> Code outside \<open>src\<close> or outside the model is a parameter: the ticks the host scales (\<open>scaled\<close>), the
    CPU that executes guest code (\<open>cpu_contract\<close> of \<open>Core_Loop\<close>), the GPU (\<open>bus\<close> of \<open>Guest_Memory\<close>), the
    memory an arbiter reads (\<open>'m\<close> with its access functions), saving and loading a state.

  \<^bold>\<open>Theories.\<close>
  \<^item> \<open>Prelude\<close>, \<open>Result_Codes\<close>: the vocabulary; \<open>core/hle/result.h\<close>, \<open>core/hle/kernel/errors.h\<close>.
  \<^item> \<open>Ready_Queue\<close>: the contract of the queue of ready threads, as the locale \<open>ready_queue\<close>;
    \<open>Thread_Queue_List\<close> models \<open>common/thread_queue_list.h\<close> with its links and interprets the locale.
  \<^item> \<open>Core_Timing\<close>: \<open>core/core_timing.{h,cpp}\<close>. \<open>Advance\<close> is a loop that callbacks can keep alive, so it
    is a \<open>partial_function\<close>; the locale \<open>event_callbacks\<close> states what callbacks must keep for it to end,
    and \<open>Timer_Callbacks\<close> interprets it on the kernel's own callbacks (thread wakeup, \<open>timer.cpp\<close>).
  \<^item> \<open>Resource_Limit\<close> (\<open>resource_limit.cpp\<close>), \<open>Handle_Table\<close> (\<open>handle_table.cpp\<close>: free list and generations).
  \<^item> \<open>Kernel_State\<close>: the records of \<open>thread.h\<close>, \<open>kernel.h\<close> and the waitable objects.
    \<open>Scheduler\<close> (\<open>thread.cpp\<close>): priorities, sleeping and resuming, the limiter of the system core's share,
    choosing and switching threads, creating threads. \<open>Scheduler_Props\<close>: the choice is the best one.
  \<^item> \<open>Wait_Objects\<close> (\<open>wait_object.cpp\<close>, \<open>mutex.cpp\<close>, \<open>semaphore.cpp\<close>, \<open>event.cpp\<close>, \<open>timer.cpp\<close>, the
    end of threads). \<open>Wait_Invariants\<close>, \<open>Waking\<close>, \<open>Object_Ops\<close>, \<open>Thread_End\<close>, \<open>Kernel_Props\<close>: the waiting
    lists and the threads' own lists agree, waking terminates (the lists of waiting threads shrink), and
    what each signal does to which thread. \<open>Sync_Calls\<close>, \<open>Sync_Props\<close>: \<open>WaitSynchronization1\<close> and \<open>N\<close>
    of \<open>svc.cpp\<close> with their wakeup callbacks.
  \<^item> \<open>Address_Arbiter\<close>, \<open>Arbiter_Props\<close>: \<open>address_arbiter.cpp\<close>.
  \<^item> \<open>Thread_Calls\<close>, \<open>Svc_Calls\<close>: the system calls on threads, mutexes, semaphores, events, timers, arbiters,
    handles and resource limits (\<open>svc.cpp\<close>), each with all its guards, on the record \<open>system\<close> that joins the
    kernel with the handle tables. The locale \<open>counted_object\<close> of \<open>Svc_Props\<close> is the contract of a creating
    call, interpreted once per kind of object.
  \<^item> \<open>Kernel_Steps\<close>, \<open>Kernel_Machine\<close>: the kernel as a transition system and its invariant. \<open>Svc_Steps\<close>: system
    calls as steps of it; each refines a sequence of kernel steps, so the invariant holds along every
    run of system calls.
  \<^item> \<open>Core_Loop\<close>, \<open>Loop_Props\<close>: the part of \<open>System::RunLoop\<close> that runs the cores, in lock step and with an
    end. \<open>System_Loop\<close>: its signals and save requests. \<open>Cache_Batch\<close>: the batch of cache invalidations.
  \<^item> \<open>VM_Manager\<close>, \<open>VM_View\<close>, \<open>VM_Ops\<close>, \<open>VM_Carve\<close>, \<open>VM_Props\<close>, \<open>Address_Space\<close>: \<open>vm_manager.cpp\<close> and the
    mapping half of \<open>core/memory.cpp\<close>. The specification is a function from pages to their state
    (\<open>spec_vm_op\<close>), which splitting and merging of areas must not show.
  \<^item> \<open>Memory_Region\<close>, \<open>Region_Props\<close>: \<open>memory.cpp\<close> of the kernel. The interval sets of the code are
    sorted lists; the locale \<open>interval_set\<close> gives their laws over sets of addresses.
    \<open>Process_Memory\<close>, \<open>Process_Props\<close>: the memory operations of \<open>process.cpp\<close>, on all three layers at once.
  \<^item> \<open>Guest_Memory\<close>: the access half of \<open>core/memory.cpp\<close>. \<open>Guest_Props\<close>: one translation of guest addresses
    explains words and blocks; \<open>Guest_Tables\<close>: the rasterizer's marks and watchpoints leave it alone.
  \<^item> \<open>Memory_Calls\<close>, \<open>Memory_Props\<close>: \<open>shared_memory.cpp\<close> and the system calls on memory (\<open>svc.cpp\<close>): control and
    queries of an address space, blocks that processes share, mapping another process's memory.
  \<^item> \<open>Cheat_Engine\<close>: \<open>core/cheats\<close>. \<open>Cheat_Props\<close>: the locale \<open>cheat_memory\<close> says what the interpreter relies on and
    is interpreted on the guest's memory; \<open>Cheat_Runs\<close>: runs, loops and their end; \<open>Cheat_Text\<close>: saving and loading.
  \<^item> \<open>String_Util\<close>, \<open>Param_Package\<close>: \<open>common/string_util.cpp\<close>, \<open>common/param_package.cpp\<close>;
    \<open>Arm_Supp\<close>: \<open>core/arm/skyeye_common/armsupp.cpp\<close>.

  \<^bold>\<open>Properties.\<close> Invariants of every reachable state (kernel, system calls, handle tables, page tables);
  refinement of the address space and of the system calls; what each kind of wake-up does and to whom;
  priority inheritance; termination of the event loop and of the core loop, under the conditions found to be needed
  (a periodic timer of at least 4 ns); bounds, round trips, and the cases of the system calls with their errors.
  Where a proof showed a defect of the code, the theorem states the behaviour as it is.

  \<^bold>\<open>Loops and fuel.\<close> No fuel is used. Loops over containers are structural recursion (\<open>for_each\<close>);
  loops with a counter have a \<open>termination\<close> proof; loops that may run for ever (\<open>Advance\<close>, waking all
  threads, the search for a priority level, registering watchpoints, the pages of an address space, the lines of a cheat) are
  \<open>partial_function (option)\<close> and their end is a theorem.

  \<^bold>\<open>Not modelled.\<close>
  \<^item> IPC: ports, sessions, request contexts and the translation of command buffers (\<open>ipc.cpp\<close>, \<open>hle_ipc.cpp\<close>,
    \<open>server_session.cpp\<close>): their content is the services' data; the wakeup callbacks of IPC are left out
    of \<open>Kernel_State\<close> for the same reason.
  \<^item> The system calls on processes, ports, debugging and information (\<open>svc.cpp\<close>), and the loading of a
    process with its kernel capabilities (\<open>process.cpp\<close>): they rest on the loaded title's headers.
  \<^item> The HLE services and applets (\<open>core/hle/service\<close>, \<open>core/hle/applets\<close>): several hundred commands over files, network
    and host devices, most of them stubs or glue.
  \<^item> \<open>video_core\<close>, \<open>audio_core\<close>: shaders, rasterizers and mixers over floating point and the GPU of the host.
  \<^item> The CPU itself (\<open>core/arm\<close>): the interpreter and the binding of the translator; it enters as \<open>cpu_contract\<close>.
  \<^item> Loaders, file systems, cryptography, movies, the debugger stub, network rooms, input and the front ends:
    host I/O and formats around the core.
  \<^item> Serialization of states, logging, diagnostics counters, and the host-side mirror of page tables on one platform.
  \<^item> Vendored libraries under \<open>externals\<close>.
\<close>
end
